(* ===== verification/Prelude.thy ===== *)
theory Prelude
  imports Main "HOL-Library.List_Lexorder" "HOL-Library.Char_ord"
begin

text \<open>
  Shared vocabulary of the development: the Go string functions the sources
  call (\<^verbatim>\<open>strings.Cut\<close>, \<^verbatim>\<open>HasPrefix\<close>, \<^verbatim>\<open>Split\<close>, \<^verbatim>\<open>TrimSpace\<close>, \<^verbatim>\<open>strconv.Atoi\<close>,
  decimal printing), and the three loop shapes that every \<^verbatim>\<open>Validate\<close> method of
  internal/artifact is written in: a sequence of early returns (\<open>first_error\<close>),
  a loop that wraps the first failing entry (\<open>scan_idx\<close>), and the same loop with
  a \<^verbatim>\<open>seen\<close> map that also refuses a repeated key (\<open>scan_seen\<close>).

  A Go \<^verbatim>\<open>string\<close> is a list of bytes, so it is the HOL type \<open>string\<close> (a \<open>char list\<close>,
  one \<open>char\<close> per byte). Byte order is the linear order of \<open>Char_ord\<close> and
  \<open>List_Lexorder\<close>, which is the order of Go's \<^verbatim>\<open><\<close> on strings and of \<^verbatim>\<open>sort.Strings\<close>.
  A Go \<^verbatim>\<open>error\<close> result is an option: \<open>None\<close> is \<^verbatim>\<open>nil\<close>.
\<close>

named_theorems scan_simps \<open>acceptance of the validation loops, as conditions on the data\<close>
named_theorems go_string \<open>inversion of the string functions\<close>

section \<open>Early returns and validation loops\<close>

definition check :: "bool \<Rightarrow> 'e \<Rightarrow> 'e option" where
  "check bad e = (if bad then Some e else None)"

fun first_error :: "'e option list \<Rightarrow> 'e option" where
  "first_error [] = None"
| "first_error (r # rs) = (case r of Some e \<Rightarrow> Some e | None \<Rightarrow> first_error rs)"

fun scan_idx :: "(nat \<Rightarrow> 'f \<Rightarrow> 'e) \<Rightarrow> ('a \<Rightarrow> 'f option) \<Rightarrow> nat \<Rightarrow> 'a list \<Rightarrow> 'e option" where
  "scan_idx wrap v i [] = None"
| "scan_idx wrap v i (x # xs) =
     (case v x of Some f \<Rightarrow> Some (wrap i f) | None \<Rightarrow> scan_idx wrap v (Suc i) xs)"

fun scan_seen ::
  "('a \<Rightarrow> 'k) \<Rightarrow> (nat \<Rightarrow> 'f \<Rightarrow> 'e) \<Rightarrow> (nat \<Rightarrow> 'a \<Rightarrow> 'e) \<Rightarrow> ('a \<Rightarrow> 'f option) \<Rightarrow> nat \<Rightarrow> 'k list \<Rightarrow>
   'a list \<Rightarrow> 'e option" where
  "scan_seen key wrap dup v i seen [] = None"
| "scan_seen key wrap dup v i seen (x # xs) =
     (case v x of
        Some f \<Rightarrow> Some (wrap i f)
      | None \<Rightarrow> (if key x \<in> set seen then Some (dup i x)
                 else scan_seen key wrap dup v (Suc i) (key x # seen) xs))"

lemma check_None [scan_simps, simp]: "check bad e = None \<longleftrightarrow> \<not> bad"
  by (simp add: check_def)

lemma check_Some [simp]: "check bad e = Some e' \<longleftrightarrow> bad \<and> e' = e"
  by (auto simp: check_def)

lemma first_error_None [scan_simps]: "first_error rs = None \<longleftrightarrow> (\<forall>r \<in> set rs. r = None)"
  by (induction rs) (auto split: option.splits)

lemma first_error_Cons [scan_simps, simp]:
  "first_error (r # rs) = None \<longleftrightarrow> r = None \<and> first_error rs = None"
  by (cases r) auto

lemma first_error_append:
  "first_error (rs @ rs') = (case first_error rs of Some e \<Rightarrow> Some e | None \<Rightarrow> first_error rs')"
  by (induction rs) (auto split: option.splits)

declare first_error.simps(2) [simp del]

lemma scan_idx_None [scan_simps]: "scan_idx wrap v i xs = None \<longleftrightarrow> (\<forall>x \<in> set xs. v x = None)"
  by (induction xs arbitrary: i) (auto split: option.splits)

lemma scan_seen_None [scan_simps]:
  "scan_seen key wrap dup v i seen xs = None \<longleftrightarrow>
     (\<forall>x \<in> set xs. v x = None) \<and> distinct (map key xs) \<and> key ` set xs \<inter> set seen = {}"
  by (induction xs arbitrary: i seen) (auto split: option.splits)

text \<open>What a failing loop reports is the first failing entry, under its own index.\<close>

lemma scan_idx_Some:
  assumes "scan_idx wrap v i xs = Some e"
  shows "\<exists>j f. j < length xs \<and> v (xs ! j) = Some f \<and> e = wrap (i + j) f
           \<and> (\<forall>k < j. v (xs ! k) = None)"
  using assms
proof (induction xs arbitrary: i)
  case Nil
  then show ?case by simp
next
  case (Cons x xs)
  show ?case
  proof (cases "v x")
    case (Some f)
    with Cons.prems have "e = wrap (i + 0) f" by simp
    with Some show ?thesis by (intro exI[of _ 0] exI[of _ f]) simp
  next
    case None
    with Cons.prems have "scan_idx wrap v (Suc i) xs = Some e" by simp
    then obtain j f where j: "j < length xs" "v (xs ! j) = Some f" "e = wrap (Suc i + j) f"
      "\<forall>k < j. v (xs ! k) = None" using Cons.IH by blast
    have "\<forall>k < Suc j. v ((x # xs) ! k) = None"
      using None j(4) by (auto simp: nth_Cons split: nat.splits)
    with j show ?thesis by (intro exI[of _ "Suc j"] exI[of _ f]) simp
  qed
qed

section \<open>Blocks of identified entries\<close>

lemma find_key_iff:
  "distinct (map key xs) \<Longrightarrow> find (\<lambda>y. key y = k) xs = Some x \<longleftrightarrow> x \<in> set xs \<and> key x = k"
  by (induction xs) (auto simp: image_iff)

text \<open>The contract of a loop that validates a list of entries and refuses a repeated
  key: what the rest of the program relies on once a document has decoded.\<close>

locale id_block =
  fixes accepts :: "'a list \<Rightarrow> bool"
    and ok :: "'a \<Rightarrow> bool"
    and key :: "'a \<Rightarrow> 'k"
  assumes accepts_empty: "accepts []"
    and accepts_snoc: "accepts (xs @ [x]) \<longleftrightarrow> accepts xs \<and> ok x \<and> key x \<notin> key ` set xs"
begin

lemma accepts_iff: "accepts xs \<longleftrightarrow> (\<forall>x \<in> set xs. ok x) \<and> distinct (map key xs)"
  by (induction xs rule: rev_induct) (auto simp: accepts_empty accepts_snoc)

lemma accepts_prefix: "accepts (xs @ ys) \<Longrightarrow> accepts xs"
  by (simp add: accepts_iff)

lemma accepts_reorder: "set xs = set ys \<Longrightarrow> length xs = length ys \<Longrightarrow> accepts xs \<Longrightarrow> accepts ys"
  unfolding accepts_iff
  by (metis card_distinct distinct_card distinct_map length_map list.set_map)

lemma key_unique: "accepts xs \<Longrightarrow> x \<in> set xs \<Longrightarrow> y \<in> set xs \<Longrightarrow> key x = key y \<Longrightarrow> x = y"
  unfolding accepts_iff distinct_map by (blast dest: inj_onD)

lemma find_key: "accepts xs \<Longrightarrow> x \<in> set xs \<Longrightarrow> find (\<lambda>y. key y = key x) xs = Some x"
  by (simp add: accepts_iff find_key_iff)

end

lemma scan_seen_block:
  "id_block (\<lambda>xs. scan_seen key wrap dup v 0 [] xs = None) (\<lambda>x. v x = None) key"
  by unfold_locales (auto simp: scan_seen_None)

section \<open>Go string functions\<close>

definition has_prefix :: "string \<Rightarrow> string \<Rightarrow> bool" where
  "has_prefix s p \<longleftrightarrow> take (length p) s = p"

definition has_suffix :: "string \<Rightarrow> string \<Rightarrow> bool" where
  "has_suffix s p \<longleftrightarrow> length p \<le> length s \<and> drop (length s - length p) s = p"

definition trim_prefix :: "string \<Rightarrow> string \<Rightarrow> string" where
  "trim_prefix s p = (if has_prefix s p then drop (length p) s else s)"

definition trim_suffix :: "string \<Rightarrow> string \<Rightarrow> string" where
  "trim_suffix s p = (if has_suffix s p then take (length s - length p) s else s)"

fun contains_str :: "string \<Rightarrow> string \<Rightarrow> bool" where
  "contains_str [] p = (p = [])"
| "contains_str (c # s) p = (has_prefix (c # s) p \<or> contains_str s p)"

fun cut_at :: "char \<Rightarrow> string \<Rightarrow> string \<times> string \<times> bool" where
  "cut_at c [] = ([], [], False)"
| "cut_at c (x # xs) =
     (if x = c then ([], xs, True) else (case cut_at c xs of (b, a, f) \<Rightarrow> (x # b, a, f)))"

fun split_on :: "char \<Rightarrow> string \<Rightarrow> string list" where
  "split_on c [] = [[]]"
| "split_on c (x # xs) =
     (if x = c then [] # split_on c xs
      else (case split_on c xs of [] \<Rightarrow> [[x]] | seg # segs \<Rightarrow> (x # seg) # segs))"

fun join_with :: "string \<Rightarrow> string list \<Rightarrow> string" where
  "join_with sep [] = []"
| "join_with sep [s] = s"
| "join_with sep (s # ss) = s @ sep @ join_with sep ss"

lemma has_prefix_append [simp]: "has_prefix (p @ s) p"
  by (simp add: has_prefix_def)

lemma has_prefix_iff [go_string]: "has_prefix s p \<longleftrightarrow> (\<exists>t. s = p @ t)"
  by (metis append_take_drop_id has_prefix_append has_prefix_def)

lemma has_suffix_iff [go_string]: "has_suffix s p \<longleftrightarrow> (\<exists>t. s = t @ p)"
  by (metis add_diff_cancel_right' append_eq_conv_conj append_take_drop_id has_suffix_def
        le_add2 length_append)

lemma cut_found [go_string]: "cut_at c s = (b, a, True) \<Longrightarrow> s = b @ c # a \<and> c \<notin> set b"
  by (induction s arbitrary: b a) (auto split: if_splits prod.splits)

lemma cut_not_found [go_string]: "cut_at c s = (b, a, False) \<Longrightarrow> b = s \<and> a = [] \<and> c \<notin> set s"
  by (induction s arbitrary: b a) (auto split: if_splits prod.splits)

lemma cut_eq [go_string]:
  "cut_at c s = (b, a, f) \<Longrightarrow> s = b @ (if f then c # a else []) \<and> (f \<or> a = []) \<and> c \<notin> set b"
  using cut_found[of c s b a] cut_not_found[of c s b a] by (cases f) auto

lemma cut_append [simp]: "c \<notin> set b \<Longrightarrow> cut_at c (b @ c # a) = (b, a, True)"
  by (induction b) auto

lemma cut_none [simp]: "c \<notin> set s \<Longrightarrow> cut_at c s = (s, [], False)"
  by (induction s) auto

lemma split_on_nonempty [simp]: "split_on c s \<noteq> []"
  by (induction s) (auto split: list.splits)

lemma join_split_on: "join_with [c] (split_on c s) = s"
proof (induction s)
  case Nil
  then show ?case by simp
next
  case (Cons x xs)
  then show ?case
    by (cases "split_on c xs"; cases "tl (split_on c xs)") auto
qed

lemma split_on_free: "seg \<in> set (split_on c s) \<Longrightarrow> c \<notin> set seg"
  by (induction s arbitrary: seg) (auto split: list.splits if_splits)

text \<open>\<^verbatim>\<open>strings.Split\<close> for a non-empty separator.\<close>

function split_str :: "string \<Rightarrow> string \<Rightarrow> string list" where
  "split_str sep [] = [[]]"
| "split_str sep (c # s) =
     (if sep \<noteq> [] \<and> has_prefix (c # s) sep then [] # split_str sep (drop (length sep) (c # s))
      else (case split_str sep s of [] \<Rightarrow> [[c]] | seg # segs \<Rightarrow> (c # seg) # segs))"
  by pat_completeness auto

termination
  by (relation "measure (\<lambda>(sep, s). length s)") (auto simp: less_Suc_eq_le neq_Nil_conv)

lemma split_str_nonempty [simp]: "split_str sep s \<noteq> []"
  by (cases s) (auto split: list.splits)

lemma join_split_str: "join_with sep (split_str sep s) = s"
proof (induction sep s rule: split_str.induct)
  case (1 sep)
  then show ?case by simp
next
  case (2 sep c s)
  show ?case
  proof (cases "sep \<noteq> [] \<and> has_prefix (c # s) sep")
    case True
    then obtain seg segs where s: "split_str sep (drop (length sep) (c # s)) = seg # segs"
      by (cases "split_str sep (drop (length sep) (c # s))") auto
    then have "join_with sep (seg # segs) = drop (length sep) (c # s)" using 2(1)[OF True] by simp
    moreover have "take (length sep) (c # s) = sep" using True by (simp add: has_prefix_def)
    moreover have "split_str sep (c # s) = [] # seg # segs" using True s by simp
    ultimately show ?thesis
      by (metis append_Nil append_take_drop_id join_with.simps(3))
  next
    case False
    then obtain seg segs where "split_str sep s = seg # segs" by (cases "split_str sep s") auto
    with 2(2)[OF False] False show ?thesis by (cases segs) auto
  qed
qed

text \<open>\<^verbatim>\<open>strings.TrimSpace\<close>: Unicode white space, as its UTF-8 byte patterns.\<close>

definition space1 :: "char \<Rightarrow> bool" where
  "space1 a \<longleftrightarrow> of_char a \<in> {9, 10, 11, 12, 13, 32 :: nat}"

definition space2 :: "char \<Rightarrow> char \<Rightarrow> bool" where
  "space2 a b \<longleftrightarrow> a = CHR 0xC2 \<and> (b = CHR 0x85 \<or> b = CHR 0xA0)"

definition space3 :: "char \<Rightarrow> char \<Rightarrow> char \<Rightarrow> bool" where
  "space3 a b c \<longleftrightarrow>
     a = CHR 0xE1 \<and> b = CHR 0x9A \<and> c = CHR 0x80
     \<or> a = CHR 0xE2 \<and> b = CHR 0x80
         \<and> (of_char c \<in> {128 ..< 139 :: nat} \<or> c = CHR 0xA8 \<or> c = CHR 0xA9 \<or> c = CHR 0xAF)
     \<or> a = CHR 0xE2 \<and> b = CHR 0x81 \<and> c = CHR 0x9F
     \<or> a = CHR 0xE3 \<and> b = CHR 0x80 \<and> c = CHR 0x80"

fun trim_left :: "string \<Rightarrow> string" where
  "trim_left [] = []"
| "trim_left [a] = (if space1 a then [] else [a])"
| "trim_left [a, b] =
     (if space1 a then trim_left [b] else if space2 a b then [] else [a, b])"
| "trim_left (a # b # c # s) =
     (if space1 a then trim_left (b # c # s)
      else if space2 a b then trim_left (c # s)
      else if space3 a b c then trim_left s
      else a # b # c # s)"

fun trim_rev :: "string \<Rightarrow> string" where
  "trim_rev [] = []"
| "trim_rev [a] = (if space1 a then [] else [a])"
| "trim_rev [a, b] =
     (if space1 a then trim_rev [b] else if space2 b a then [] else [a, b])"
| "trim_rev (a # b # c # s) =
     (if space1 a then trim_rev (b # c # s)
      else if space2 b a then trim_rev (c # s)
      else if space3 c b a then trim_rev s
      else a # b # c # s)"

definition trim_space :: "string \<Rightarrow> string" where
  "trim_space s = rev (trim_rev (rev (trim_left s)))"

lemma trim_space_empty [simp]: "trim_space [] = []"
  by (simp add: trim_space_def)

text \<open>\<^verbatim>\<open>strconv.Atoi\<close> on a 64-bit platform, and decimal printing.\<close>

definition is_digit :: "char \<Rightarrow> bool" where
  "is_digit c \<longleftrightarrow> CHR ''0'' \<le> c \<and> c \<le> CHR ''9''"

definition digits_value :: "string \<Rightarrow> int" where
  "digits_value ds = foldl (\<lambda>a c. 10 * a + (of_char c - 48)) 0 ds"

definition atoi :: "string \<Rightarrow> int option" where
  "atoi s =
     (let (neg, ds) =
        (case s of [] \<Rightarrow> (False, [])
         | c # t \<Rightarrow> if c = CHR ''-'' then (True, t) else if c = CHR ''+'' then (False, t) else (False, s))
      in if ds = [] \<or> \<not> list_all is_digit ds then None
         else
           (let v = (if neg then - digits_value ds else digits_value ds) in
              if - (2 ^ 63) \<le> v \<and> v < 2 ^ 63 then Some v else None))"

fun show_nat :: "nat \<Rightarrow> string" where
  "show_nat n = (if n < 10 then [char_of (48 + n)] else show_nat (n div 10) @ [char_of (48 + n mod 10)])"

declare show_nat.simps [simp del]

lemma digit_char: "k < 10 \<Longrightarrow> is_digit (char_of (48 + k :: nat))"
  by (simp add: is_digit_def less_eq_char_def)

lemma show_nat_digits: "list_all is_digit (show_nat n) \<and> show_nat n \<noteq> ''''"
proof (induction n rule: show_nat.induct)
  case (1 n)
  then show ?case by (subst (1 2) show_nat.simps) (simp add: digit_char)
qed

lemma digits_value_snoc: "digits_value (s @ [c]) = 10 * digits_value s + (of_char c - 48)"
  by (simp add: digits_value_def)

lemma digit_char_value: "k < 10 \<Longrightarrow> (of_char (char_of (48 + k :: nat)) :: int) = 48 + int k"
proof -
  assume "k < 10"
  then have "(of_char (char_of (48 + k)) :: nat) = 48 + k" by simp
  then show ?thesis by (metis of_nat_add of_nat_numeral of_nat_of_char)
qed

lemma digits_value_show: "digits_value (show_nat n) = int n"
proof (induction n rule: show_nat.induct)
  case (1 n)
  show ?case
  proof (cases "n < 10")
    case True
    then show ?thesis by (subst show_nat.simps) (simp add: digits_value_def digit_char_value)
  next
    case False
    with 1 have "digits_value (show_nat n) = 10 * int (n div 10) + int (n mod 10)"
      by (subst show_nat.simps) (simp add: digits_value_snoc digit_char_value)
    then show ?thesis by presburger
  qed
qed

lemma show_nat_inj: "show_nat m = show_nat n \<longleftrightarrow> m = n"
  by (metis digits_value_show of_nat_eq_iff)

lemma atoi_show_nat: "n < 2 ^ 63 \<Longrightarrow> atoi (show_nat n) = Some (int n)"
proof -
  assume n: "n < 2 ^ 63"
  obtain c t where s: "show_nat n = c # t" using show_nat_digits[of n] by (cases "show_nat n") auto
  then have "is_digit c" using show_nat_digits[of n] by simp
  then have "c \<noteq> CHR ''-''" "c \<noteq> CHR ''+''" by (auto simp: is_digit_def less_eq_char_def)
  moreover have "int n < 2 ^ 63" using n by (metis of_nat_less_iff of_nat_numeral of_nat_power)
  ultimately show ?thesis
    using digits_value_show[of n] show_nat_digits[of n] s by (simp add: atoi_def Let_def)
qed

text \<open>Trimming leaves a text alone that starts and ends with a printing ASCII character.\<close>

definition graphic :: "char \<Rightarrow> bool" where
  "graphic c \<longleftrightarrow> CHR 0x21 \<le> c \<and> c \<le> CHR 0x7E"

lemma graphic_not_space:
  assumes "graphic c"
  shows "\<not> space1 c" "\<not> space2 c b" "\<not> space2 b c" "\<not> space3 c a b" "\<not> space3 a b c"
  using assms by (auto simp: graphic_def space1_def space2_def space3_def less_eq_char_def)

lemma trim_left_graphic: "graphic c \<Longrightarrow> trim_left (c # s) = c # s"
  by (cases "(c # s)" rule: trim_left.cases) (auto dest: graphic_not_space)

lemma trim_rev_graphic: "graphic c \<Longrightarrow> trim_rev (c # s) = c # s"
  by (cases "(c # s)" rule: trim_rev.cases) (auto dest: graphic_not_space)

lemma trim_rev_newline: "trim_rev (CHR 0x0A # s) = trim_rev s"
  by (cases "(CHR 0x0A # s)" rule: trim_rev.cases) (auto simp: space1_def)

lemma trim_space_graphic:
  assumes "s \<noteq> []" "graphic (hd s)" "graphic (last s)"
  shows "trim_space s = s" and "trim_space (s @ [CHR 0x0A]) = s"
proof -
  obtain c t where s: "s = c # t" using assms(1) by (cases s) auto
  obtain u d where r: "s = u @ [d]" using assms(1) by (cases s rule: rev_cases) auto
  have "graphic c" using assms(2) s by simp
  moreover have "graphic d" using assms(3) r by simp
  moreover have "rev s = d # rev u" using r by simp
  ultimately have "trim_left s = s" "trim_left (s @ [CHR 0x0A]) = s @ [CHR 0x0A]" "trim_rev (rev s) = rev s"
    using s trim_rev_graphic[of d "rev u"] by (simp_all add: trim_left_graphic)
  then show "trim_space s = s" "trim_space (s @ [CHR 0x0A]) = s"
    by (simp_all add: trim_space_def trim_rev_newline)
qed

lemma split_on_join:
  "xs \<noteq> [] \<Longrightarrow> \<forall>x \<in> set xs. c \<notin> set x \<Longrightarrow> split_on c (join_with [c] xs) = xs"
proof (induction xs)
  case (Cons x xs)
  have last: "c \<notin> set x \<Longrightarrow> split_on c x = [x]" for x
    by (induction x) auto
  have step: "c \<notin> set x \<Longrightarrow> split_on c (x @ c # s) = x # split_on c s" for x s
    by (induction x) auto
  show ?case
  proof (cases xs)
    case Nil
    with Cons.prems last show ?thesis by simp
  next
    case (Cons y ys)
    with Cons.IH Cons.prems step[of x] show ?thesis by simp
  qed
qed simp

section \<open>UTF-8\<close>

text \<open>The width of the rune at the head of a byte string, as Go's \<^verbatim>\<open>range\<close> decodes
  it: a valid UTF-8 sequence, else one byte (read as U+FFFD).\<close>

definition byte_in :: "nat \<Rightarrow> nat \<Rightarrow> char \<Rightarrow> bool" where
  "byte_in lo hi c \<longleftrightarrow> lo \<le> of_char c \<and> of_char c \<le> (hi :: nat)"

definition two_bytes :: "char \<Rightarrow> char \<Rightarrow> bool" where
  "two_bytes a b \<longleftrightarrow> byte_in 0xC2 0xDF a \<and> byte_in 0x80 0xBF b"

definition three_bytes :: "char \<Rightarrow> char \<Rightarrow> char \<Rightarrow> bool" where
  "three_bytes a b c \<longleftrightarrow>
     (byte_in 0xE0 0xE0 a \<and> byte_in 0xA0 0xBF b \<or> byte_in 0xE1 0xEC a \<and> byte_in 0x80 0xBF b
      \<or> byte_in 0xED 0xED a \<and> byte_in 0x80 0x9F b \<or> byte_in 0xEE 0xEF a \<and> byte_in 0x80 0xBF b)
     \<and> byte_in 0x80 0xBF c"

definition four_bytes :: "char \<Rightarrow> char \<Rightarrow> char \<Rightarrow> char \<Rightarrow> bool" where
  "four_bytes a b c d \<longleftrightarrow>
     (byte_in 0xF0 0xF0 a \<and> byte_in 0x90 0xBF b \<or> byte_in 0xF1 0xF3 a \<and> byte_in 0x80 0xBF b
      \<or> byte_in 0xF4 0xF4 a \<and> byte_in 0x80 0x8F b)
     \<and> byte_in 0x80 0xBF c \<and> byte_in 0x80 0xBF d"

definition rune_width :: "string \<Rightarrow> nat" where
  "rune_width s =
     (case s of
        a # b # rest \<Rightarrow>
          if two_bytes a b then 2
          else
            (case rest of
               c # rest' \<Rightarrow>
                 if three_bytes a b c then 3
                 else (case rest' of d # _ \<Rightarrow> if four_bytes a b c d then 4 else 1 | [] \<Rightarrow> 1)
             | [] \<Rightarrow> 1)
      | _ \<Rightarrow> 1)"

lemma rune_width_pos: "0 < rune_width s"
  by (auto simp: rune_width_def split: list.splits)

lemma rune_width_le: "s \<noteq> [] \<Longrightarrow> rune_width s \<le> length s"
  by (cases s) (auto simp: rune_width_def split: list.splits)

lemma rune_width_low: "of_char c < (194 :: nat) \<Longrightarrow> rune_width (c # s) = 1"
proof -
  assume "of_char c < (194 :: nat)"
  then have "\<not> two_bytes c x" "\<not> three_bytes c x y" "\<not> four_bytes c x y z" for x y z
    by (simp_all add: two_bytes_def three_bytes_def four_bytes_def byte_in_def)
  then show ?thesis by (simp add: rune_width_def split: list.split)
qed

lemma rune_width_ascii: "of_char c < (128 :: nat) \<Longrightarrow> rune_width (c # s) = 1"
  by (simp add: rune_width_low)

text \<open>A rune is decided by its own bytes.\<close>

lemma rune_width_cases:
  assumes "1 < rune_width s"
  obtains (two) a b t where "s = a # b # t" "rune_width s = 2" "\<And>u. rune_width (a # b # u) = 2"
  | (three) a b c t where "s = a # b # c # t" "rune_width s = 3" "\<And>u. rune_width (a # b # c # u) = 3"
  | (four) a b c d t where "s = a # b # c # d # t" "rune_width s = 4" "\<And>u. rune_width (a # b # c # d # u) = 4"
  using assms by (auto simp: rune_width_def split: list.split_asm if_split_asm)

lemma rune_width_take: "1 < rune_width s \<Longrightarrow> rune_width (take (rune_width s) s) = rune_width s"
  by (erule rune_width_cases) auto

lemma rune_width_prefix:
  assumes "rune_width r = length r" "1 < length r"
  shows "rune_width (r @ s) = length r"
proof -
  have "1 < rune_width r" using assms by simp
  then show ?thesis by (cases rule: rune_width_cases) (use assms in auto)
qed

text \<open>\<^verbatim>\<open>utf8.ValidString\<close>.\<close>

function utf8_valid :: "string \<Rightarrow> bool" where
  "utf8_valid [] = True"
| "utf8_valid (c # s) =
     ((of_char c < (128 :: nat) \<or> 1 < rune_width (c # s)) \<and> utf8_valid (drop (rune_width (c # s)) (c # s)))"
  by pat_completeness auto

termination
  by (relation "measure length") (auto simp: rune_width_pos)

declare utf8_valid.simps(2) [simp del]

lemma utf8_valid_ascii: "list_all (\<lambda>c. of_char c < (128 :: nat)) s \<Longrightarrow> utf8_valid s"
  by (induction s) (auto simp: utf8_valid.simps(2) rune_width_ascii)

end
