(* ===== verification/Regex.thy ===== *)
theory Regex
  imports Prelude
begin

text \<open>
  The fragment of Go's \<^verbatim>\<open>regexp\<close> package the sources compile: character classes
  as byte ranges, concatenation, alternation, star, and the bounded repetitions
  \<^verbatim>\<open>{n}\<close> and \<^verbatim>\<open>{n,m}\<close> unfolded. Every pattern of the modelled packages is anchored
  at both ends (\<^verbatim>\<open>^...$\<close>), so \<^verbatim>\<open>MatchString\<close> is membership of the whole string.
  \<open>rx_match\<close> decides membership by derivatives and evaluates in the kernel;
  \<open>rx_match_lang\<close> proves it equal to the usual language of the expression, and
  \<open>rx_match_allows\<close> reads off which bytes a matching string can contain, which is
  what the parsers rely on when they split at a separator.
\<close>

datatype rx =
    Never
  | Eps
  | Cls "(char \<times> char) list"
  | Alt rx rx
  | Cat rx rx
  | Star rx

definition in_class :: "(char \<times> char) list \<Rightarrow> char \<Rightarrow> bool" where
  "in_class rs c \<longleftrightarrow> list_ex (\<lambda>(lo, hi). lo \<le> c \<and> c \<le> hi) rs"

definition Chr :: "char \<Rightarrow> rx" where
  "Chr c = Cls [(c, c)]"

definition Plus :: "rx \<Rightarrow> rx" where
  "Plus r = Cat r (Star r)"

definition Opt :: "rx \<Rightarrow> rx" where
  "Opt r = Alt Eps r"

fun Lit :: "string \<Rightarrow> rx" where
  "Lit [] = Eps"
| "Lit (c # s) = Cat (Chr c) (Lit s)"

fun Rep :: "nat \<Rightarrow> rx \<Rightarrow> rx" where
  "Rep 0 r = Eps"
| "Rep (Suc n) r = Cat r (Rep n r)"

fun UpTo :: "nat \<Rightarrow> rx \<Rightarrow> rx" where
  "UpTo 0 r = Eps"
| "UpTo (Suc n) r = Alt Eps (Cat r (UpTo n r))"

fun mk_alt :: "rx \<Rightarrow> rx \<Rightarrow> rx" where
  "mk_alt Never s = s"
| "mk_alt r Never = r"
| "mk_alt r s = Alt r s"

fun mk_cat :: "rx \<Rightarrow> rx \<Rightarrow> rx" where
  "mk_cat Never s = Never"
| "mk_cat Eps s = s"
| "mk_cat r s = Cat r s"

fun nullable :: "rx \<Rightarrow> bool" where
  "nullable Never = False"
| "nullable Eps = True"
| "nullable (Cls rs) = False"
| "nullable (Alt r s) = (nullable r \<or> nullable s)"
| "nullable (Cat r s) = (nullable r \<and> nullable s)"
| "nullable (Star r) = True"

fun deriv :: "char \<Rightarrow> rx \<Rightarrow> rx" where
  "deriv c Never = Never"
| "deriv c Eps = Never"
| "deriv c (Cls rs) = (if in_class rs c then Eps else Never)"
| "deriv c (Alt r s) = mk_alt (deriv c r) (deriv c s)"
| "deriv c (Cat r s) =
     (if nullable r then mk_alt (mk_cat (deriv c r) s) (deriv c s) else mk_cat (deriv c r) s)"
| "deriv c (Star r) = mk_cat (deriv c r) (Star r)"

fun rx_match :: "rx \<Rightarrow> string \<Rightarrow> bool" where
  "rx_match r [] = nullable r"
| "rx_match r (c # s) = rx_match (deriv c r) s"

inductive_set star_of :: "string set \<Rightarrow> string set" for A where
  star_nil: "[] \<in> star_of A"
| star_step: "u \<in> A \<Longrightarrow> v \<in> star_of A \<Longrightarrow> u @ v \<in> star_of A"

fun lang :: "rx \<Rightarrow> string set" where
  "lang Never = {}"
| "lang Eps = {[]}"
| "lang (Cls rs) = {[c] | c. in_class rs c}"
| "lang (Alt r s) = lang r \<union> lang s"
| "lang (Cat r s) = {u @ v | u v. u \<in> lang r \<and> v \<in> lang s}"
| "lang (Star r) = star_of (lang r)"

fun rx_allows :: "rx \<Rightarrow> char \<Rightarrow> bool" where
  "rx_allows Never c = False"
| "rx_allows Eps c = False"
| "rx_allows (Cls rs) c = in_class rs c"
| "rx_allows (Alt r s) c = (rx_allows r c \<or> rx_allows s c)"
| "rx_allows (Cat r s) c = (rx_allows r c \<or> rx_allows s c)"
| "rx_allows (Star r) c = rx_allows r c"

section \<open>The matcher decides the language\<close>

lemma lang_mk_alt [simp]: "lang (mk_alt r s) = lang r \<union> lang s"
  by (induction r s rule: mk_alt.induct) auto

lemma lang_mk_cat [simp]: "lang (mk_cat r s) = lang (Cat r s)"
  by (induction r s rule: mk_cat.induct) auto

lemma nullable_lang: "nullable r \<longleftrightarrow> [] \<in> lang r"
  by (induction r) (auto intro: star_nil)

lemma star_of_Cons: "c # w \<in> star_of A \<Longrightarrow> \<exists>u v. c # u \<in> A \<and> v \<in> star_of A \<and> w = u @ v"
proof (induction "c # w" arbitrary: w rule: star_of.induct)
  case (star_step u v)
  then show ?case by (cases u) auto
qed

lemma deriv_lang: "w \<in> lang (deriv c r) \<longleftrightarrow> c # w \<in> lang r"
proof (induction r arbitrary: w)
  case (Cat r s)
  then show ?case
    by (auto simp: nullable_lang Cons_eq_append_conv)
next
  case (Star r)
  then show ?case
    by (auto dest!: star_of_Cons intro: star_step[where u = "c # u" for u, simplified])
qed (auto split: if_splits)

lemma rx_match_lang: "rx_match r s \<longleftrightarrow> s \<in> lang r"
  by (induction s arbitrary: r) (auto simp: nullable_lang deriv_lang)

section \<open>Which bytes a match contains\<close>

lemma star_of_chars: "s \<in> star_of A \<Longrightarrow> \<forall>u \<in> A. \<forall>c \<in> set u. P c \<Longrightarrow> \<forall>c \<in> set s. P c"
  by (induction rule: star_of.induct) auto

lemma lang_allows: "s \<in> lang r \<Longrightarrow> c \<in> set s \<Longrightarrow> rx_allows r c"
proof (induction r arbitrary: s c)
  case (Star r)
  have inner: "\<forall>u \<in> lang r. \<forall>c \<in> set u. rx_allows r c" using Star.IH by blast
  from Star.prems(1) have "s \<in> star_of (lang r)" by simp
  then have "\<forall>c \<in> set s. rx_allows r c" using inner by (rule star_of_chars)
  with Star.prems(2) show ?case by simp
qed auto

lemma rx_match_allows: "rx_match r s \<Longrightarrow> c \<in> set s \<Longrightarrow> rx_allows r c"
  by (simp add: rx_match_lang lang_allows)

lemma rx_match_free: "rx_match r s \<Longrightarrow> \<not> rx_allows r c \<Longrightarrow> c \<notin> set s"
  using rx_match_allows by blast

lemma rx_match_Cat: "rx_match (Cat r s) w \<longleftrightarrow> (\<exists>u v. w = u @ v \<and> rx_match r u \<and> rx_match s v)"
  by (auto simp: rx_match_lang)

lemma in_class_single [simp]: "in_class [(c, c)] x \<longleftrightarrow> x = c"
  unfolding in_class_def by (simp add: eq_iff conj_commute)

lemma lang_Chr [simp]: "lang (Chr c) = {[c]}"
  by (simp add: Chr_def)

lemma lang_Lit: "lang (Lit p) = {p}"
  by (induction p) auto

lemma rx_match_Lit [simp]: "rx_match (Lit p) w \<longleftrightarrow> w = p"
  by (simp add: rx_match_lang lang_Lit)

lemma lang_Rep_length:
  assumes "\<forall>u \<in> lang r. length u = 1"
  shows "w \<in> lang (Rep n r) \<Longrightarrow> length w = n"
proof (induction n arbitrary: w)
  case (Suc n)
  then obtain u v where "w = u @ v" "u \<in> lang r" "v \<in> lang (Rep n r)" by auto
  moreover from this Suc.IH assms have "length v = n" "length u = 1" by blast+
  ultimately show ?case by simp
qed simp

lemma lang_UpTo_length:
  assumes "\<forall>u \<in> lang r. length u = 1"
  shows "w \<in> lang (UpTo n r) \<Longrightarrow> length w \<le> n"
proof (induction n arbitrary: w)
  case (Suc n)
  from Suc.prems consider "w = []"
    | u v where "w = u @ v" "u \<in> lang r" "v \<in> lang (UpTo n r)" by auto
  then show ?case
  proof cases
    case 2
    have "length v \<le> n" using 2(3) by (rule Suc.IH)
    moreover have "length u = 1" using assms 2(2) by blast
    ultimately show ?thesis using 2(1) by simp
  qed simp
qed simp

end
