(* ===== verification/Refs.thy ===== *)
theory Refs
  imports Regex
begin

text \<open>
  Artifact references, internal/artifact/ref.go and commit.go: the closed
  vocabulary of kinds, the name, commit and object-id patterns, the printer
  \<^verbatim>\<open>Ref.String\<close>, the validator \<^verbatim>\<open>Ref.Validate\<close> and the parsers \<^verbatim>\<open>ParseRef\<close>
  and \<^verbatim>\<open>ParsePinnedRef\<close>. The \<^verbatim>\<open>Kind\<close> type of the source is a string; here it is a
  datatype whose last constructor carries every string outside the vocabulary.
  The lemmas show that printing and parsing are inverse on valid references.
\<close>

section \<open>Kinds\<close>

datatype kind =
    KindSpec
  | KindADR
  | KindDiagram
  | KindAttestation
  | KindWaiver
  | KindConflict
  | KindReaffirmation
  | KindObligation
  | KindUnknown string

fun kind_of :: "string \<Rightarrow> kind" where
  "kind_of s =
     (if s = ''spec'' then KindSpec
      else if s = ''adr'' then KindADR
      else if s = ''diagram'' then KindDiagram
      else if s = ''attestation'' then KindAttestation
      else if s = ''waiver'' then KindWaiver
      else if s = ''conflict'' then KindConflict
      else if s = ''reaffirmation'' then KindReaffirmation
      else if s = ''obligation'' then KindObligation
      else KindUnknown s)"

fun kind_string :: "kind \<Rightarrow> string" where
  "kind_string KindSpec = ''spec''"
| "kind_string KindADR = ''adr''"
| "kind_string KindDiagram = ''diagram''"
| "kind_string KindAttestation = ''attestation''"
| "kind_string KindWaiver = ''waiver''"
| "kind_string KindConflict = ''conflict''"
| "kind_string KindReaffirmation = ''reaffirmation''"
| "kind_string KindObligation = ''obligation''"
| "kind_string (KindUnknown s) = s"

fun kind_valid :: "kind \<Rightarrow> bool" where
  "kind_valid (KindUnknown s) = False"
| "kind_valid k = True"

section \<open>Patterns\<close>

definition alnum :: rx where
  "alnum = Cls [(CHR ''a'', CHR ''z''), (CHR ''0'', CHR ''9'')]"

definition nameSegment :: rx where
  "nameSegment = Cat (Plus alnum) (Star (Cat (Chr CHR ''-'') (Plus alnum)))"

definition simpleNameRe :: rx where
  "simpleNameRe = nameSegment"

definition compoundNameRe :: rx where
  "compoundNameRe = Cat nameSegment (Cat (Lit ''--'') nameSegment)"

definition obligationNameRe :: rx where
  "obligationNameRe =
     Cat nameSegment (Cat (Lit ''--'') (Cat nameSegment (Cat (Lit ''--'') nameSegment)))"

definition hex_lower :: rx where
  "hex_lower = Cls [(CHR ''0'', CHR ''9''), (CHR ''a'', CHR ''f'')]"

definition commitRe :: rx where
  "commitRe = Cat (Rep 7 hex_lower) (UpTo 33 hex_lower)"

definition objectIDRe :: rx where
  "objectIDRe =
     Cat (Cls [(CHR ''a'', CHR ''z'')])
      (Cat (Star alnum)
        (Cat (Chr CHR ''-'') (Cat (Plus alnum) (Star (Cat (Chr CHR ''-'') (Plus alnum))))))"

definition valid_commit :: "string \<Rightarrow> bool" where
  "valid_commit s = rx_match commitRe s"

section \<open>References\<close>

record ref =
  r_kind :: kind
  r_name :: string
  r_commit :: string
  r_object :: string

definition mk_ref :: "kind \<Rightarrow> string \<Rightarrow> string \<Rightarrow> string \<Rightarrow> ref" where
  "mk_ref k n c ob = \<lparr>r_kind = k, r_name = n, r_commit = c, r_object = ob\<rparr>"

lemma mk_ref_eta [simp]: "mk_ref (r_kind r) (r_name r) (r_commit r) (r_object r) = r"
  by (simp add: mk_ref_def)

definition ref_pinned :: "ref \<Rightarrow> bool" where
  "ref_pinned r \<longleftrightarrow> r_commit r \<noteq> ''''"

definition ref_fragment :: "ref \<Rightarrow> bool" where
  "ref_fragment r \<longleftrightarrow> r_object r \<noteq> ''''"

definition ref_string :: "ref \<Rightarrow> string" where
  "ref_string r =
     kind_string (r_kind r) @ ''/'' @ r_name r
       @ (if ref_pinned r then ''@'' @ r_commit r else '''')
       @ (if ref_fragment r then ''#'' @ r_object r else '''')"

datatype ref_error =
    UnknownKind kind
  | EmptyName kind
  | BadCompoundName kind string
  | BadObligationName kind string
  | BadSimpleName kind string
  | BadCommit kind string string
  | BadObject kind string string
  | TrailingHash string
  | ManyHashes string
  | NoSlash string
  | TrailingAt string
  | NotPinned string

definition ref_name_check :: "ref \<Rightarrow> ref_error option" where
  "ref_name_check r =
     (if r_kind r \<in> {KindAttestation, KindWaiver, KindReaffirmation}
      then check (\<not> rx_match compoundNameRe (r_name r)) (BadCompoundName (r_kind r) (r_name r))
      else if r_kind r = KindObligation
      then check (\<not> rx_match obligationNameRe (r_name r)) (BadObligationName (r_kind r) (r_name r))
      else check (\<not> rx_match simpleNameRe (r_name r)) (BadSimpleName (r_kind r) (r_name r)))"

definition ref_validate :: "ref \<Rightarrow> ref_error option" where
  "ref_validate r = first_error
     [check (\<not> kind_valid (r_kind r)) (UnknownKind (r_kind r)),
      check (r_name r = '''') (EmptyName (r_kind r)),
      ref_name_check r,
      check (r_commit r \<noteq> '''' \<and> \<not> rx_match commitRe (r_commit r))
        (BadCommit (r_kind r) (r_name r) (r_commit r)),
      check (r_object r \<noteq> '''' \<and> \<not> rx_match objectIDRe (r_object r))
        (BadObject (r_kind r) (r_name r) (r_object r))]"

definition parse_ref :: "string \<Rightarrow> ref_error + ref" where
  "parse_ref s =
     (case cut_at CHR ''#'' s of (base, ob, has_hash) \<Rightarrow>
        if has_hash \<and> ob = '''' then Inl (TrailingHash s)
        else if contains_str ob ''#'' then Inl (ManyHashes s)
        else
          (case cut_at CHR ''/'' base of (kind_part, rest, ok) \<Rightarrow>
             if \<not> ok then Inl (NoSlash s)
             else
               (case cut_at CHR ''@'' rest of (name, commit, has_at) \<Rightarrow>
                  if has_at \<and> commit = '''' then Inl (TrailingAt s)
                  else
                    (let r = mk_ref (kind_of kind_part) name commit ob in
                       case ref_validate r of
                         Some e \<Rightarrow> Inl e
                       | None \<Rightarrow> Inr r))))"

definition parse_pinned_ref :: "string \<Rightarrow> ref_error + ref" where
  "parse_pinned_ref s =
     (case parse_ref s of
        Inl e \<Rightarrow> Inl e
      | Inr r \<Rightarrow> if \<not> ref_pinned r then Inl (NotPinned s) else Inr r)"

section \<open>Kinds and patterns: facts\<close>

lemma kind_string_of [simp]: "kind_string (kind_of s) = s"
  by simp

lemma kind_of_string [simp]: "kind_valid k \<Longrightarrow> kind_of (kind_string k) = k"
  by (cases k) simp_all

declare kind_of.simps [simp del]

lemma kind_string_of' [simp]: "kind_string (kind_of s) = s"
  by (simp add: kind_of.simps)

lemma kind_string_free: "kind_valid k \<Longrightarrow> c \<in> {CHR ''/'', CHR ''#'', CHR ''@''} \<Longrightarrow> c \<notin> set (kind_string k)"
  by (cases k) auto

lemma patterns_free:
  "\<not> rx_allows nameSegment CHR ''#''" "\<not> rx_allows nameSegment CHR ''@''"
  "\<not> rx_allows nameSegment CHR ''/''" "\<not> rx_allows compoundNameRe CHR ''#''"
  "\<not> rx_allows compoundNameRe CHR ''@''" "\<not> rx_allows compoundNameRe CHR ''/''"
  "\<not> rx_allows obligationNameRe CHR ''#''" "\<not> rx_allows obligationNameRe CHR ''@''"
  "\<not> rx_allows obligationNameRe CHR ''/''" "\<not> rx_allows commitRe CHR ''#''"
  "\<not> rx_allows objectIDRe CHR ''#''" "\<not> rx_allows objectIDRe CHR ''@''"
  "\<not> rx_allows objectIDRe CHR ''/''"
  by code_simp+

lemma name_chars:
  assumes "rx_match nameSegment s \<or> rx_match compoundNameRe s \<or> rx_match obligationNameRe s"
  shows "CHR ''#'' \<notin> set s" "CHR ''@'' \<notin> set s" "CHR ''/'' \<notin> set s"
  using assms patterns_free rx_match_free by blast+

lemma commit_chars: "rx_match commitRe s \<Longrightarrow> CHR ''#'' \<notin> set s"
  using patterns_free rx_match_free by blast

lemma object_chars: "rx_match objectIDRe s \<Longrightarrow> CHR ''#'' \<notin> set s"
  using patterns_free rx_match_free by blast

lemma contains_single: "contains_str s [c] \<longleftrightarrow> c \<in> set s"
  by (induction s) (auto simp: has_prefix_def)

lemma ref_name_check_name:
  "ref_name_check r = None \<Longrightarrow>
     rx_match nameSegment (r_name r) \<or> rx_match compoundNameRe (r_name r)
       \<or> rx_match obligationNameRe (r_name r)"
  by (auto simp: ref_name_check_def simpleNameRe_def split: if_splits)

lemma ref_validate_iff [scan_simps]:
  "ref_validate r = None \<longleftrightarrow>
     kind_valid (r_kind r) \<and> r_name r \<noteq> '''' \<and> ref_name_check r = None
     \<and> (r_commit r = '''' \<or> rx_match commitRe (r_commit r))
     \<and> (r_object r = '''' \<or> rx_match objectIDRe (r_object r))"
  unfolding ref_validate_def by (simp add: scan_simps)

lemma commit_length: "rx_match commitRe s \<Longrightarrow> 7 \<le> length s \<and> length s \<le> 40"
proof -
  assume "rx_match commitRe s"
  then obtain u v where "s = u @ v" "u \<in> lang (Rep 7 hex_lower)" "v \<in> lang (UpTo 33 hex_lower)"
    by (auto simp: commitRe_def rx_match_lang)
  moreover have hex: "\<forall>w \<in> lang hex_lower. length w = 1" by (auto simp: hex_lower_def)
  ultimately have "length u = 7" "length v \<le> 33" "length s = length u + length v"
    using lang_Rep_length[OF hex, of u 7] lang_UpTo_length[OF hex, of v 33] by simp_all
  then show ?thesis by simp
qed

section \<open>Printing and parsing are inverse\<close>

lemma parse_ref_validates: "parse_ref s = Inr r \<Longrightarrow> ref_validate r = None"
  by (auto simp: parse_ref_def Let_def split: prod.splits if_splits option.splits)

lemma parse_ref_print:
  assumes "parse_ref s = Inr r"
  shows "ref_string r = s \<and> ref_validate r = None"
proof -
  obtain base ob hh kp rest ok nm cm ha where cuts:
    "cut_at CHR ''#'' s = (base, ob, hh)" "cut_at CHR ''/'' base = (kp, rest, ok)"
    "cut_at CHR ''@'' rest = (nm, cm, ha)"
    by (metis prod_cases3)
  with assms have acc: "hh \<longrightarrow> ob \<noteq> ''''" "ok" "ha \<longrightarrow> cm \<noteq> ''''" "r = mk_ref (kind_of kp) nm cm ob"
    by (auto simp: parse_ref_def Let_def split: if_splits option.splits)
  note parts = cut_eq[OF cuts(1)] cut_eq[OF cuts(2)] cut_eq[OF cuts(3)]
  have "ref_string r = s"
    using acc parts by (cases hh; cases ha) (simp_all add: ref_string_def ref_pinned_def ref_fragment_def mk_ref_def)
  with assms show ?thesis by (simp add: parse_ref_validates)
qed

lemma print_parse_ref:
  assumes "ref_validate r = None"
  shows "parse_ref (ref_string r) = Inr r"
proof -
  have v: "kind_valid (r_kind r)" "ref_name_check r = None"
    "r_commit r = '''' \<or> rx_match commitRe (r_commit r)"
    "r_object r = '''' \<or> rx_match objectIDRe (r_object r)"
    using assms by (simp_all add: ref_validate_iff)
  let ?rest = "r_name r @ (if ref_pinned r then ''@'' @ r_commit r else '''')"
  let ?base = "kind_string (r_kind r) @ ''/'' @ ?rest"
  have free: "CHR ''#'' \<notin> set ?base" "CHR ''/'' \<notin> set (kind_string (r_kind r))"
    "CHR ''@'' \<notin> set (r_name r)" "CHR ''#'' \<notin> set (r_object r)"
  proof -
    have k: "CHR ''#'' \<notin> set (kind_string (r_kind r))" "CHR ''/'' \<notin> set (kind_string (r_kind r))"
      by (rule kind_string_free[OF v(1)], simp)+
    have n: "CHR ''#'' \<notin> set (r_name r)" "CHR ''@'' \<notin> set (r_name r)"
      by (rule name_chars[OF ref_name_check_name[OF v(2)]])+
    have c: "CHR ''#'' \<notin> set (r_commit r)" using v(3) commit_chars by fastforce
    show "CHR ''#'' \<notin> set ?base" using k n c by simp
    show "CHR ''/'' \<notin> set (kind_string (r_kind r))" "CHR ''@'' \<notin> set (r_name r)" by fact+
    show "CHR ''#'' \<notin> set (r_object r)" using v(4) object_chars by fastforce
  qed
  have s: "ref_string r = ?base @ (if ref_fragment r then ''#'' @ r_object r else '''')"
    by (simp add: ref_string_def)
  have "cut_at CHR ''#'' (ref_string r) = (?base, r_object r, ref_fragment r)"
  proof (cases "ref_fragment r")
    case True
    then show ?thesis using cut_append[OF free(1), of "r_object r"] unfolding s by simp
  next
    case False
    then show ?thesis using cut_none[OF free(1)] unfolding s by (simp add: ref_fragment_def)
  qed
  moreover have "cut_at CHR ''/'' ?base = (kind_string (r_kind r), ?rest, True)"
    using cut_append[OF free(2), of ?rest] by simp
  moreover have "cut_at CHR ''@'' ?rest = (r_name r, r_commit r, ref_pinned r)"
    using free(3) by (auto simp: ref_pinned_def)
  ultimately show ?thesis
    using v(1) assms free(4)
    by (simp add: parse_ref_def Let_def contains_single mk_ref_eta ref_fragment_def ref_pinned_def)
qed

lemma ref_string_inj:
  "ref_validate r = None \<Longrightarrow> ref_validate r' = None \<Longrightarrow> ref_string r = ref_string r' \<Longrightarrow> r = r'"
  by (metis print_parse_ref sum.inject(2))

text \<open>C39. \<^verbatim>\<open>ParseRef\<close> and \<^verbatim>\<open>Ref.String\<close> are inverse bijections between the accepted
  strings and the valid references: a string parses to a reference exactly when
  that reference is valid and prints back to those bytes. So parsing loses
  nothing, printing confuses no field with its neighbour, and no reference has
  two spellings.\<close>

theorem parse_ref_inverse:
  "parse_ref s = Inr r \<longleftrightarrow> ref_validate r = None \<and> ref_string r = s"
  using parse_ref_print print_parse_ref by blast

end
