(* ===== verification/Links.thy ===== *)
theory Links
  imports Refs
begin

text \<open>
  The frontmatter every artifact kind shares: typed links, the frozen stamp, the
  provenance block and \<^verbatim>\<open>Base\<close>, from internal/artifact/common.go, with the
  kind-aware link check of conflictresolution.go, \<^verbatim>\<open>requireFrozen\<close> of adr.go and
  the two stamping constructors of stamp.go.

  A pointer field of the source is an option. A \<^verbatim>\<open>Validate\<close> method is a function
  into \<open>error option\<close> whose branches are in the order of the source's early
  returns; the error of a wrapped call is wrapped in a constructor of its own.
\<close>

section \<open>Link types\<close>

datatype link_type =
    LinkImplements
  | LinkResolves
  | LinkSupersedes
  | LinkExempts
  | LinkVerifies
  | LinkDerivedFrom
  | LinkAnnotates
  | LinkDependsOn
  | LinkStory
  | LinkImpacts
  | LinkChallenges
  | LinkUnknown string

fun link_type_valid :: "link_type \<Rightarrow> bool" where
  "link_type_valid (LinkUnknown s) = False"
| "link_type_valid t = True"

definition closedEdgeVocab :: "link_type list" where
  "closedEdgeVocab = [LinkImplements, LinkResolves, LinkSupersedes, LinkExempts, LinkDependsOn]"

definition storyRefRe :: rx where
  "storyRefRe =
     Cat (Cls [(CHR ''a'', CHR ''z'')])
      (Cat (Star alnum)
        (Cat (Chr CHR '':'')
          (Cat (Cls [(CHR ''A'', CHR ''Z''), (CHR ''a'', CHR ''z''), (CHR ''0'', CHR ''9'')])
            (Star (Cls [(CHR ''A'', CHR ''Z''), (CHR ''a'', CHR ''z''), (CHR ''0'', CHR ''9''),
                        (CHR ''-'', CHR ''-'')])))))"

definition externalSegment :: rx where
  "externalSegment =
     Cat alnum
      (Opt (Cat (Star (Cls [(CHR ''a'', CHR ''z''), (CHR ''0'', CHR ''9''), (CHR ''-'', CHR ''-'')]))
             alnum))"

definition externalRefRe :: rx where
  "externalRefRe =
     Cat (Lit ''svc/'') (Cat externalSegment (Cat (Chr CHR ''/'') (Cat externalSegment
       (Opt (Cat (Chr CHR ''/'') externalSegment)))))"

record link =
  l_type :: link_type
  l_ref :: string
  l_note :: string

datatype link_error =
    UnknownLinkType link_type
  | EmptyLinkRef link_type
  | BadStoryRef string
  | LinkBadRef link_type ref_error
  | FragmentNotAllowed link_type string
  | ConflictFragmentNotSpec string
  | ConflictFragmentPinned string string

definition link_validate :: "link \<Rightarrow> link_error option" where
  "link_validate l =
     (if \<not> link_type_valid (l_type l) then Some (UnknownLinkType (l_type l))
      else if l_ref l = '''' then Some (EmptyLinkRef (l_type l))
      else if l_type l = LinkStory
      then check (\<not> rx_match storyRefRe (l_ref l)) (BadStoryRef (l_ref l))
      else if rx_match externalRefRe (l_ref l) then None
      else
        (case parse_ref (l_ref l) of
           Inl e \<Rightarrow> Some (LinkBadRef (l_type l) e)
         | Inr r \<Rightarrow> check (ref_fragment r \<and> l_type l \<notin> set closedEdgeVocab)
                      (FragmentNotAllowed (l_type l) (l_ref l))))"

definition link_validate_for :: "kind \<Rightarrow> link \<Rightarrow> link_error option" where
  "link_validate_for owner l =
     (if owner \<noteq> KindConflict \<or> l_type l \<noteq> LinkChallenges then link_validate l
      else
        (case parse_ref (l_ref l) of
           Inl e \<Rightarrow> link_validate l
         | Inr r \<Rightarrow>
             if \<not> ref_fragment r then link_validate l
             else if r_kind r \<noteq> KindSpec then Some (ConflictFragmentNotSpec (l_ref l))
             else if ref_pinned r then Some (ConflictFragmentPinned (l_ref l) (r_commit r))
             else None))"

section \<open>Dates, digests and file names\<close>

definition digit :: rx where
  "digit = Cls [(CHR ''0'', CHR ''9'')]"

definition dateRe :: rx where
  "dateRe =
     Cat (Rep 4 digit) (Cat (Chr CHR ''-'') (Cat (Rep 2 digit) (Cat (Chr CHR ''-'') (Rep 2 digit))))"

definition sha256Re :: rx where
  "sha256Re = Cat (Lit ''sha256:'') (Rep 64 hex_lower)"

definition valid_digest :: "string \<Rightarrow> bool" where
  "valid_digest s = rx_match sha256Re s"

definition is_bare_filename :: "string \<Rightarrow> bool" where
  "is_bare_filename s \<longleftrightarrow>
     \<not> (s = '''' \<or> s = ''.'' \<or> s = ''..'') \<and> \<not> has_prefix s ''/''
     \<and> CHR ''/'' \<notin> set s \<and> CHR 0x5C \<notin> set s"

section \<open>Frozen stamps\<close>

record frozen =
  f_at :: string
  f_commit :: string
  f_stub_matched :: bool

datatype frozen_error =
    FrozenBadDate string
  | FrozenBadCommit string

definition frozen_validate :: "frozen \<Rightarrow> frozen_error option" where
  "frozen_validate f = first_error
     [check (\<not> rx_match dateRe (f_at f)) (FrozenBadDate (f_at f)),
      check (\<not> rx_match commitRe (f_commit f)) (FrozenBadCommit (f_commit f))]"

text \<open>\<^verbatim>\<open>NewFrozen\<close> and \<^verbatim>\<open>StampProvenance\<close> panic on an empty argument: \<open>None\<close>.\<close>

definition new_frozen :: "string \<Rightarrow> string \<Rightarrow> frozen option" where
  "new_frozen at commit =
     (if at = '''' then None else if commit = '''' then None
      else Some \<lparr>f_at = at, f_commit = commit, f_stub_matched = False\<rparr>)"

datatype require_error =
    FrozenRequired string string
  | FrozenForbidden string string

definition require_frozen ::
  "frozen option \<Rightarrow> bool \<Rightarrow> string \<Rightarrow> string \<Rightarrow> require_error option" where
  "require_frozen fr required kd status = first_error
     [check (required \<and> fr = None) (FrozenRequired kd status),
      check (\<not> required \<and> fr \<noteq> None) (FrozenForbidden kd status)]"

section \<open>Provenance\<close>

record provenance =
  p_generator :: string
  p_version :: string
  p_inputs :: "string list"
  p_digest :: string
  p_integrity :: string
  p_model :: string

datatype provenance_error =
    NoGenerator
  | NoVersion
  | NoInputs
  | NoHash
  | BadDigest string
  | BadIntegrity string
  | BadModel string
  | BadInput string

fun rindex :: "char \<Rightarrow> string \<Rightarrow> nat option" where
  "rindex c [] = None"
| "rindex c (x # xs) =
     (case rindex c xs of Some i \<Rightarrow> Some (Suc i) | None \<Rightarrow> if x = c then Some 0 else None)"

definition cut_last_at :: "string \<Rightarrow> string \<times> string \<times> bool" where
  "cut_last_at s =
     (case rindex CHR ''@'' s of
        None \<Rightarrow> ('''', '''', False)
      | Some i \<Rightarrow> (take i s, drop (i + 1) s, True))"

definition validate_provenance_input :: "string \<Rightarrow> provenance_error option" where
  "validate_provenance_input s =
     (case parse_pinned_ref s of
        Inr r \<Rightarrow> None
      | Inl e \<Rightarrow>
          (case cut_last_at s of (path, commit, ok) \<Rightarrow>
             check (\<not> ok \<or> path = '''' \<or> \<not> rx_match commitRe commit) (BadInput s)))"

definition provenance_validate :: "provenance \<Rightarrow> provenance_error option" where
  "provenance_validate p = first_error
     [check (p_generator p = '''') NoGenerator,
      check (p_version p = '''') NoVersion,
      check (p_inputs p = []) NoInputs,
      check (p_digest p = '''' \<and> p_integrity p = '''') NoHash,
      check (p_digest p \<noteq> '''' \<and> \<not> rx_match sha256Re (p_digest p)) (BadDigest (p_digest p)),
      check (p_integrity p \<noteq> '''' \<and> \<not> rx_match sha256Re (p_integrity p))
        (BadIntegrity (p_integrity p)),
      check (p_model p \<noteq> '''' \<and> \<not> rx_match sha256Re (p_model p)) (BadModel (p_model p)),
      scan_idx (\<lambda>_ e. e) validate_provenance_input 0 (p_inputs p)]"

definition stamp_provenance :: "provenance option \<Rightarrow> string \<Rightarrow> provenance option" where
  "stamp_provenance p digest =
     (case p of
        None \<Rightarrow> None
      | Some p \<Rightarrow> if digest = '''' then None else Some (p\<lparr>p_model := digest\<rparr>))"

section \<open>The common block\<close>

record base =
  b_id :: string
  b_kind :: kind
  b_title :: string
  b_owners :: "string list"
  b_schema :: string
  b_links :: "link list"
  b_frozen :: "frozen option"
  b_provenance :: "provenance option"

datatype base_error =
    KindMismatch kind kind
  | BadId ref_error
  | IdKindMismatch string kind kind
  | IdPinned string
  | NoTitle
  | NoOwners
  | EmptyOwner
  | BadLink nat link_error
  | BadFrozen frozen_error
  | BadProvenance provenance_error

definition validate_base :: "base \<Rightarrow> kind \<Rightarrow> base_error option" where
  "validate_base b want =
     (if b_kind b \<noteq> want then Some (KindMismatch (b_kind b) want)
      else
        (case parse_ref (b_id b) of
           Inl e \<Rightarrow> Some (BadId e)
         | Inr r \<Rightarrow> first_error
             [check (r_kind r \<noteq> want) (IdKindMismatch (b_id b) (r_kind r) want),
              check (ref_pinned r) (IdPinned (b_id b)),
              check (b_title b = '''') NoTitle,
              check (b_owners b = []) NoOwners,
              check ('''' \<in> set (b_owners b)) EmptyOwner,
              scan_idx BadLink (link_validate_for want) 0 (b_links b),
              Option.bind (b_frozen b) (\<lambda>f. map_option BadFrozen (frozen_validate f)),
              Option.bind (b_provenance b) (\<lambda>p. map_option BadProvenance (provenance_validate p))]))"

section \<open>Links\<close>

lemma link_validate_iff [scan_simps]:
  "link_validate l = None \<longleftrightarrow>
     link_type_valid (l_type l) \<and> l_ref l \<noteq> ''''
     \<and> (if l_type l = LinkStory then rx_match storyRefRe (l_ref l)
        else rx_match externalRefRe (l_ref l)
          \<or> (\<exists>r. parse_ref (l_ref l) = Inr r \<and> (ref_fragment r \<longrightarrow> l_type l \<in> set closedEdgeVocab)))"
  by (auto simp: link_validate_def split: sum.splits)

lemma external_not_ref: "rx_match externalRefRe s \<Longrightarrow> parse_ref s \<noteq> Inr r"
proof
  assume m: "rx_match externalRefRe s" and p: "parse_ref s = Inr r"
  from m obtain t where s: "s = ''svc/'' @ t"
    unfolding externalRefRe_def rx_match_Cat rx_match_Lit by blast
  from parse_ref_print[OF p] show False
    using s by (cases "r_kind r") (auto simp: ref_string_def ref_validate_iff)
qed

lemma spec_fragment_shape:
  "(\<exists>nm ob. ref_validate (mk_ref KindSpec nm '''' ob) = None \<and> ob \<noteq> ''''
      \<and> s = ''spec/'' @ nm @ ''#'' @ ob) \<longleftrightarrow>
   (\<exists>r. parse_ref s = Inr r \<and> ref_fragment r \<and> r_kind r = KindSpec \<and> \<not> ref_pinned r)"
  (is "?l \<longleftrightarrow> ?r")
proof
  assume ?l
  then obtain nm ob where w: "ref_validate (mk_ref KindSpec nm '''' ob) = None" "ob \<noteq> ''''"
    "s = ''spec/'' @ nm @ ''#'' @ ob" by blast
  then have "ref_string (mk_ref KindSpec nm '''' ob) = s"
    by (simp add: ref_string_def mk_ref_def ref_pinned_def ref_fragment_def)
  with print_parse_ref[OF w(1)] w(2) show ?r
    by (intro exI[of _ "mk_ref KindSpec nm '''' ob"])
       (simp add: mk_ref_def ref_pinned_def ref_fragment_def)
next
  assume ?r
  then obtain r where r: "parse_ref s = Inr r" "ref_fragment r" "r_kind r = KindSpec" "\<not> ref_pinned r"
    by blast
  then have "r = mk_ref KindSpec (r_name r) '''' (r_object r)"
    by (simp add: mk_ref_def ref_pinned_def)
  moreover have "ref_validate r = None" "ref_string r = s" using parse_ref_print[OF r(1)] by auto
  moreover have "s = ''spec/'' @ r_name r @ ''#'' @ r_object r"
    using calculation(3) r by (simp add: ref_string_def)
  ultimately show ?l using r(2) unfolding ref_fragment_def by metis
qed

text \<open>The kind-aware check \<^verbatim>\<open>Link.ValidateFor\<close> accepts exactly what \<^verbatim>\<open>Link.Validate\<close>
  accepts, plus one family: on a conflict, a \<^verbatim>\<open>challenges\<close> link whose target parses
  as an unpinned \<^verbatim>\<open>spec/<name>#<object-id>\<close> fragment. Every other owner, type and
  target keeps the closed edge vocabulary.\<close>

theorem link_validate_for_widening:
  "link_validate_for owner l = None \<longleftrightarrow>
     link_validate l = None
     \<or> (owner = KindConflict \<and> l_type l = LinkChallenges
        \<and> (\<exists>nm ob. ref_validate (mk_ref KindSpec nm '''' ob) = None \<and> ob \<noteq> ''''
             \<and> l_ref l = ''spec/'' @ nm @ ''#'' @ ob))"
  (is "?lhs \<longleftrightarrow> ?base \<or> ?conf")
proof -
  have frag: "link_validate l \<noteq> None"
    if "l_type l = LinkChallenges" "parse_ref (l_ref l) = Inr r" "ref_fragment r" for r
    using that external_not_ref[of "l_ref l" r]
    by (auto simp: link_validate_iff closedEdgeVocab_def)
  have shape: "?conf \<longleftrightarrow> owner = KindConflict \<and> l_type l = LinkChallenges
      \<and> (\<exists>r. parse_ref (l_ref l) = Inr r \<and> ref_fragment r \<and> r_kind r = KindSpec \<and> \<not> ref_pinned r)"
    (is "_ \<longleftrightarrow> _ \<and> _ \<and> ?ex")
    using spec_fragment_shape[of "l_ref l"] by blast
  show ?thesis
    unfolding shape using frag by (auto simp: link_validate_for_def split: sum.splits)
qed

section \<open>Provenance inputs\<close>

lemma rindex_None: "rindex c s = None \<longleftrightarrow> c \<notin> set s"
  by (induction s) (auto split: option.splits)

lemma rindex_append [simp]: "c \<notin> set a \<Longrightarrow> rindex c (b @ c # a) = Some (length b)"
  by (induction b) (auto simp: rindex_None split: option.splits)

lemma rindex_Some: "rindex c s = Some i \<Longrightarrow> i < length s \<and> s ! i = c \<and> c \<notin> set (drop (Suc i) s)"
  by (induction s arbitrary: i) (auto simp: rindex_None split: option.splits if_splits)

lemma cut_last_at_found:
  assumes "cut_last_at s = (b, a, True)"
  shows "s = b @ CHR ''@'' # a \<and> CHR ''@'' \<notin> set a"
proof -
  obtain i where i: "rindex CHR ''@'' s = Some i" "b = take i s" "a = drop (i + 1) s"
    using assms by (auto simp: cut_last_at_def split: option.splits)
  with rindex_Some[OF i(1)] show ?thesis using id_take_nth_drop[of i s] by simp
qed

lemma cut_last_at_append [simp]:
  "CHR ''@'' \<notin> set a \<Longrightarrow> cut_last_at (b @ CHR ''@'' # a) = (b, a, True)"
  by (simp add: cut_last_at_def)

lemma commit_no_at: "rx_match commitRe c \<Longrightarrow> CHR ''@'' \<notin> set c"
  by (erule rx_match_free) code_simp

text \<open>\<^verbatim>\<open>validateProvenanceInput\<close> accepts exactly two shapes: a non-empty path
  (which may itself contain an at sign) pinned at a commit, and a pinned
  reference that carries an object fragment. A pinned reference without a
  fragment is an instance of the first.\<close>

theorem provenance_input_shapes:
  "validate_provenance_input s = None \<longleftrightarrow>
     (\<exists>path c. s = path @ ''@'' @ c \<and> path \<noteq> '''' \<and> rx_match commitRe c)
     \<or> (\<exists>r. parse_ref s = Inr r \<and> ref_pinned r \<and> ref_fragment r)"
proof -
  have ref: "\<exists>path c. s = path @ ''@'' @ c \<and> path \<noteq> '''' \<and> rx_match commitRe c"
    if r: "parse_ref s = Inr r" "ref_pinned r" "\<not> ref_fragment r" for r
    using parse_ref_print[OF r(1)] r
    by (intro exI[of _ "kind_string (r_kind r) @ ''/'' @ r_name r"] exI[of _ "r_commit r"])
       (simp add: ref_string_def ref_validate_iff ref_pinned_def)
  have cut: "(case cut_last_at s of (path, commit, ok) \<Rightarrow>
        check (\<not> ok \<or> path = '''' \<or> \<not> rx_match commitRe commit) (BadInput s)) = None \<longleftrightarrow>
      (\<exists>path c. s = path @ ''@'' @ c \<and> path \<noteq> '''' \<and> rx_match commitRe c)"
    (is "?c \<longleftrightarrow> ?shape")
  proof
    assume ?c
    then obtain b a where "cut_last_at s = (b, a, True)" "b \<noteq> ''''" "rx_match commitRe a"
      by (auto split: prod.splits)
    then show ?shape using cut_last_at_found by fastforce
  next
    assume ?shape
    then show ?c using commit_no_at by fastforce
  qed
  show ?thesis
    unfolding validate_provenance_input_def using ref cut
    by (auto simp: parse_pinned_ref_def split: sum.splits)
qed

end
