(* ===== verification/Specs.thy ===== *)
theory Specs
  imports Links
begin

text \<open>
  Spec frontmatter: internal/artifact/spec.go, the object entries of object.go,
  the supersession block of supersession.go and the status enums of status.go.
  Each entry type has its \<^verbatim>\<open>Validate\<close>; \<open>spec_validate\<close> dispatches on the class as
  \<^verbatim>\<open>SpecFrontmatter.Validate\<close> does. The free-form \<^verbatim>\<open>custom:\<close> namespace is not a
  field of the record: no operation reads it.

  The locale \<open>id_block\<close> is the contract every list of identified entries meets
  (each entry valid, no id twice); it is interpreted on the five blocks of a
  spec, and gives lookups by id their meaning.
\<close>

section \<open>Enumerations\<close>

datatype spec_class = ClassFeature | ClassStory | ClassComponent | ClassUnknown string

datatype evidence_kind =
  EvidenceStatic | EvidenceBehavioral | EvidenceRuntime | EvidenceAttestation | EvidenceUnknown string

fun evidence_kind_valid :: "evidence_kind \<Rightarrow> bool" where
  "evidence_kind_valid (EvidenceUnknown s) = False"
| "evidence_kind_valid k = True"

fun evidence_kind_string :: "evidence_kind \<Rightarrow> string" where
  "evidence_kind_string EvidenceStatic = ''static''"
| "evidence_kind_string EvidenceBehavioral = ''behavioral''"
| "evidence_kind_string EvidenceRuntime = ''runtime''"
| "evidence_kind_string EvidenceAttestation = ''attestation''"
| "evidence_kind_string (EvidenceUnknown s) = s"

definition specFeatureStatuses :: "string list" where
  "specFeatureStatuses = [''draft'', ''accepted-pending-build'', ''closed'', ''superseded'']"

definition specComponentStatuses :: "string list" where
  "specComponentStatuses = [''draft'', ''active'', ''superseded'']"

definition adrStatuses :: "string list" where
  "adrStatuses = [''proposed'', ''accepted'', ''superseded'']"

definition waiverStatuses :: "string list" where
  "waiverStatuses = [''active'', ''expired'']"

definition conflictStatuses :: "string list" where
  "conflictStatuses = [''open'', ''superseded'', ''dismissed'']"

definition spec_feature_statuses :: "string list" where
  "spec_feature_statuses = sort specFeatureStatuses"

definition slugTail :: rx where
  "slugTail = Cat (Plus alnum) (Star (Cat (Chr CHR ''-'') (Plus alnum)))"

definition acIDRe :: rx where
  "acIDRe = Cat (Lit ''ac-'') slugTail"

definition oqIDRe :: rx where
  "oqIDRe = Cat (Lit ''oq-'') slugTail"

definition crockford :: rx where
  "crockford = Cls [(CHR ''0'', CHR ''9''), (CHR ''A'', CHR ''H''), (CHR ''J'', CHR ''K''),
     (CHR ''M'', CHR ''N''), (CHR ''P'', CHR ''T''), (CHR ''V'', CHR ''Z'')]"

definition annotationIDRe :: rx where
  "annotationIDRe = Cat (Lit ''a-'') (Rep 26 crockford)"

definition is_annotation_id :: "string \<Rightarrow> bool" where
  "is_annotation_id s = rx_match annotationIDRe s"

section \<open>Acceptance criteria, boundaries, dispositions\<close>

record acceptance_criterion =
  ac_id :: string
  ac_text :: string
  ac_evidence :: "evidence_kind list"
  ac_anchor :: string

datatype entry_error =
    EntryBadId string
  | EntryNoText string
  | EntryNoAnchor string
  | EntryNoEvidence string
  | EntryUnknownEvidence string evidence_kind
  | EntryBadLink string nat link_error
  | BoundaryIncomplete
  | BadSticky string
  | BadDisposition string string
  | IncorporatedNoWhere string
  | ContradictedNoNote string
  | AttributeNoText
  | AttributeNoAnchor string
  | StubBadSlug string
  | StubResolvesNotSpike string
  | SpikeNoResolves string
  | SpikeHasCriteria string
  | SpikeBadResolves string string
  | SpikeDupResolves string string
  | StubNoCriteria string
  | StubBadCriterion string string
  | StubDupCriterion string string

definition ac_validate :: "acceptance_criterion \<Rightarrow> entry_error option" where
  "ac_validate ac = first_error
     [check (\<not> rx_match acIDRe (ac_id ac)) (EntryBadId (ac_id ac)),
      check (ac_text ac = '''') (EntryNoText (ac_id ac)),
      check (ac_evidence ac = []) (EntryNoEvidence (ac_id ac)),
      scan_idx (\<lambda>_ e. e)
        (\<lambda>k. check (\<not> evidence_kind_valid k) (EntryUnknownEvidence (ac_id ac) k)) 0 (ac_evidence ac)]"

record boundary =
  bd_from :: string
  bd_to :: string
  bd_via :: string

definition boundary_validate :: "boundary \<Rightarrow> entry_error option" where
  "boundary_validate b =
     check (bd_from b = '''' \<or> bd_to b = '''' \<or> bd_via b = '''') BoundaryIncomplete"

datatype disposition_value =
    DispositionIncorporated
  | DispositionContradicted
  | DispositionOpenQuestion
  | DispositionUnknown string

record disposition =
  d_sticky :: string
  d_disposition :: disposition_value
  d_where :: string
  d_note :: string

definition disposition_validate :: "disposition \<Rightarrow> entry_error option" where
  "disposition_validate d =
     (if \<not> rx_match annotationIDRe (d_sticky d) then Some (BadSticky (d_sticky d))
      else
        (case d_disposition d of
           DispositionUnknown s \<Rightarrow> Some (BadDisposition s (d_sticky d))
         | DispositionIncorporated \<Rightarrow> check (d_where d = '''') (IncorporatedNoWhere (d_sticky d))
         | DispositionContradicted \<Rightarrow> check (d_note d = '''') (ContradictedNoNote (d_sticky d))
         | DispositionOpenQuestion \<Rightarrow> None))"

section \<open>Attributes and objects\<close>

record attribute =
  at_text :: string
  at_anchor :: string

definition attribute_validate :: "attribute \<Rightarrow> entry_error option" where
  "attribute_validate a = first_error
     [check (at_text a = '''') AttributeNoText,
      check (at_anchor a = '''') (AttributeNoAnchor (at_text a))]"

record constraint =
  co_id :: string
  co_text :: string
  co_anchor :: string

definition constraint_validate :: "constraint \<Rightarrow> entry_error option" where
  "constraint_validate c = first_error
     [check (\<not> has_prefix (co_id c) ''co-'' \<or> \<not> rx_match objectIDRe (co_id c)) (EntryBadId (co_id c)),
      check (co_text c = '''') (EntryNoText (co_id c)),
      check (co_anchor c = '''') (EntryNoAnchor (co_id c))]"

record decision =
  dc_id :: string
  dc_text :: string
  dc_anchor :: string
  dc_links :: "link list"

definition decision_validate :: "decision \<Rightarrow> entry_error option" where
  "decision_validate d = first_error
     [check (\<not> has_prefix (dc_id d) ''dc-'' \<or> \<not> rx_match objectIDRe (dc_id d)) (EntryBadId (dc_id d)),
      check (dc_text d = '''') (EntryNoText (dc_id d)),
      check (dc_anchor d = '''') (EntryNoAnchor (dc_id d)),
      scan_idx (EntryBadLink (dc_id d)) link_validate 0 (dc_links d)]"

record open_question =
  oq_id :: string
  oq_text :: string
  oq_anchor :: string

definition open_question_validate :: "open_question \<Rightarrow> entry_error option" where
  "open_question_validate q = first_error
     [check (\<not> has_prefix (oq_id q) ''oq-'' \<or> \<not> rx_match objectIDRe (oq_id q)) (EntryBadId (oq_id q)),
      check (oq_text q = '''') (EntryNoText (oq_id q)),
      check (oq_anchor q = '''') (EntryNoAnchor (oq_id q))]"

record stub =
  st_slug :: string
  st_spike :: bool
  st_criteria :: "string list"
  st_resolves :: "string list"

definition stub_validate :: "stub \<Rightarrow> entry_error option" where
  "stub_validate s =
     (let slug = st_slug s in
      if \<not> rx_match simpleNameRe slug then Some (StubBadSlug slug)
      else if st_resolves s \<noteq> [] \<and> \<not> st_spike s then Some (StubResolvesNotSpike slug)
      else if st_spike s then
        (if st_resolves s = [] then Some (SpikeNoResolves slug)
         else if st_criteria s \<noteq> [] then Some (SpikeHasCriteria slug)
         else scan_seen (\<lambda>i. i) (\<lambda>_ e. e) (\<lambda>_. SpikeDupResolves slug)
                (\<lambda>i. check (\<not> rx_match oqIDRe i) (SpikeBadResolves slug i)) 0 [] (st_resolves s))
      else if st_criteria s = [] then Some (StubNoCriteria slug)
      else scan_seen (\<lambda>i. i) (\<lambda>_ e. e) (\<lambda>_. StubDupCriterion slug)
             (\<lambda>i. check (\<not> rx_match acIDRe i) (StubBadCriterion slug i)) 0 [] (st_criteria s))"

section \<open>Supersession\<close>

record supersession_note =
  sn_id :: string
  sn_note :: string

record supersession =
  su_carried :: "string list"
  su_amended :: "supersession_note list"
  su_advisory :: "supersession_note list"
  su_removed :: "supersession_note list"
  su_added :: "string list"

datatype note_error = NoteBadId string | NoteEmpty string

datatype supersession_error =
    BadCarried nat string
  | BadAmended nat note_error
  | BadAdvisory nat note_error
  | BadRemoved nat note_error
  | BadAdded nat string

definition note_validate :: "supersession_note \<Rightarrow> note_error option" where
  "note_validate n = first_error
     [check (\<not> rx_match objectIDRe (sn_id n)) (NoteBadId (sn_id n)),
      check (sn_note n = '''') (NoteEmpty (sn_id n))]"

definition supersession_validate :: "supersession \<Rightarrow> supersession_error option" where
  "supersession_validate s = first_error
     [scan_idx BadCarried (\<lambda>i. check (\<not> rx_match objectIDRe i) i) 0 (su_carried s),
      scan_idx BadAmended note_validate 0 (su_amended s),
      scan_idx BadAdvisory note_validate 0 (su_advisory s),
      scan_idx BadRemoved note_validate 0 (su_removed s),
      scan_idx BadAdded (\<lambda>i. check (\<not> rx_match objectIDRe i) i) 0 (su_added s)]"

fun whole_spec_supersedes_refs :: "link list \<Rightarrow> ref list" where
  "whole_spec_supersedes_refs [] = []"
| "whole_spec_supersedes_refs (l # ls) =
     (if l_type l \<noteq> LinkSupersedes then whole_spec_supersedes_refs ls
      else
        (case parse_ref (l_ref l) of
           Inl e \<Rightarrow> whole_spec_supersedes_refs ls
         | Inr r \<Rightarrow>
             if r_kind r \<noteq> KindSpec \<or> ref_fragment r then whole_spec_supersedes_refs ls
             else mk_ref (r_kind r) (r_name r) '''' '''' # whole_spec_supersedes_refs ls))"

section \<open>Spec frontmatter\<close>

record spec =
  s_base :: base
  s_class :: spec_class
  s_status :: string
  s_story :: string
  s_spike :: bool
  s_problem :: "attribute option"
  s_outcome :: "attribute option"
  s_impacts :: "string list"
  s_context :: "string list"
  s_declares :: "boundary list option"
  s_criteria :: "acceptance_criterion list"
  s_constraints :: "constraint list"
  s_decisions :: "decision list"
  s_questions :: "open_question list"
  s_stubs :: "stub list"
  s_supersession :: "supersession option"
  s_dispositions :: "disposition list"

datatype spec_error =
    SpecBase base_error
  | SpecBadClass string
  | SpecBadStatus spec_class string
  | FeatureSpike
  | SpecBadStory spec_class string
  | FeatureNoCriteria
  | BadCriterion nat entry_error
  | DupCriterion string
  | EmptyImpact nat
  | BadContext nat ref_error
  | BadBoundary nat entry_error
  | BadProblem entry_error
  | BadOutcome entry_error
  | BadConstraint nat entry_error
  | DupConstraint string
  | BadDecision nat entry_error
  | DupDecision string
  | BadQuestion nat entry_error
  | DupQuestion string
  | BadDispositionEntry nat entry_error
  | DupSticky string
  | BadStub nat entry_error
  | DupStub string
  | BadSupersession supersession_error
  | PredecessorCount nat "string list"
  | StoryNoProblem
  | StoryNoOutcome
  | StoryNoStory
  | StoryFeatureFields
  | StoryEdge nat fragment_error
  | SpikeImplements
  | SpikeNoResolvesEdge
  | StoryNoImplements
  | ComponentStory
  | ComponentFields
  | SpecFrozen require_error
and fragment_error = EdgeBadRef ref_error | EdgeNotFragment link_type string

definition declared_object_ids :: "spec \<Rightarrow> string list" where
  "declared_object_ids fm =
     map ac_id (s_criteria fm) @ map co_id (s_constraints fm) @ map dc_id (s_decisions fm)
       @ map oq_id (s_questions fm)"

definition declared_stub_slugs :: "spec \<Rightarrow> string list" where
  "declared_stub_slugs fm = map st_slug (s_stubs fm)"

definition criteria_scan :: "acceptance_criterion list \<Rightarrow> spec_error option" where
  "criteria_scan acs = scan_seen ac_id BadCriterion (\<lambda>_ a. DupCriterion (ac_id a)) ac_validate 0 [] acs"

definition constraints_scan :: "constraint list \<Rightarrow> spec_error option" where
  "constraints_scan cs =
     scan_seen co_id BadConstraint (\<lambda>_ c. DupConstraint (co_id c)) constraint_validate 0 [] cs"

definition decisions_scan :: "decision list \<Rightarrow> spec_error option" where
  "decisions_scan ds =
     scan_seen dc_id BadDecision (\<lambda>_ d. DupDecision (dc_id d)) decision_validate 0 [] ds"

definition questions_scan :: "open_question list \<Rightarrow> spec_error option" where
  "questions_scan qs =
     scan_seen oq_id BadQuestion (\<lambda>_ q. DupQuestion (oq_id q)) open_question_validate 0 [] qs"

definition validate_object_blocks ::
  "attribute option \<Rightarrow> attribute option \<Rightarrow> constraint list \<Rightarrow> decision list \<Rightarrow>
   open_question list \<Rightarrow> spec_error option" where
  "validate_object_blocks problem outcome constraints decisions questions = first_error
     [Option.bind problem (\<lambda>a. map_option BadProblem (attribute_validate a)),
      Option.bind outcome (\<lambda>a. map_option BadOutcome (attribute_validate a)),
      constraints_scan constraints,
      decisions_scan decisions,
      questions_scan questions]"

definition validate_dispositions :: "disposition list \<Rightarrow> spec_error option" where
  "validate_dispositions ds =
     scan_seen d_sticky BadDispositionEntry (\<lambda>_ d. DupSticky (d_sticky d)) disposition_validate 0 [] ds"

definition stubs_scan :: "stub list \<Rightarrow> spec_error option" where
  "stubs_scan ss = scan_seen st_slug BadStub (\<lambda>_ s. DupStub (st_slug s)) stub_validate 0 [] ss"

definition validate_supersession_predecessor :: "spec \<Rightarrow> spec_error option" where
  "validate_supersession_predecessor fm =
     (let refs = whole_spec_supersedes_refs (b_links (s_base fm)) in
      check (length refs \<noteq> 1) (PredecessorCount (length refs) (map ref_string refs)))"

definition frozen_status :: "string \<Rightarrow> bool" where
  "frozen_status st \<longleftrightarrow> st = ''accepted-pending-build'' \<or> st = ''closed'' \<or> st = ''superseded''"

definition validate_feature :: "spec \<Rightarrow> spec_error option" where
  "validate_feature fm = first_error
     [check (s_status fm \<noteq> '''' \<and> s_status fm \<notin> set specFeatureStatuses)
        (SpecBadStatus ClassFeature (s_status fm)),
      check (s_spike fm) FeatureSpike,
      check (s_story fm \<noteq> '''' \<and> \<not> rx_match storyRefRe (s_story fm))
        (SpecBadStory ClassFeature (s_story fm)),
      check (s_criteria fm = []) FeatureNoCriteria,
      criteria_scan (s_criteria fm),
      scan_idx (\<lambda>i _. EmptyImpact i) (\<lambda>s. check (s = '''') ()) 0 (s_impacts fm),
      scan_idx BadContext
        (\<lambda>c. case parse_pinned_ref c of Inl e \<Rightarrow> Some e | Inr r \<Rightarrow> None) 0 (s_context fm),
      Option.bind (s_declares fm) (\<lambda>bs. scan_idx BadBoundary boundary_validate 0 bs),
      validate_object_blocks (s_problem fm) (s_outcome fm) (s_constraints fm) (s_decisions fm)
        (s_questions fm),
      validate_dispositions (s_dispositions fm),
      stubs_scan (s_stubs fm),
      Option.bind (s_supersession fm)
        (\<lambda>su. first_error
           [map_option BadSupersession (supersession_validate su),
            validate_supersession_predecessor fm]),
      map_option SpecFrozen
        (require_frozen (b_frozen (s_base fm)) (frozen_status (s_status fm)) ''feature spec''
          (s_status fm))]"

definition require_fragment :: "link \<Rightarrow> fragment_error option" where
  "require_fragment l =
     (case parse_ref (l_ref l) of
        Inl e \<Rightarrow> Some (EdgeBadRef e)
      | Inr r \<Rightarrow> check (\<not> ref_fragment r) (EdgeNotFragment (l_type l) (l_ref l)))"

definition validate_story :: "spec \<Rightarrow> spec_error option" where
  "validate_story fm =
     (let links = b_links (s_base fm);
          implements_count = length (filter (\<lambda>l. l_type l = LinkImplements) links);
          resolves_count = length (filter (\<lambda>l. l_type l = LinkResolves) links)
      in first_error
     [check (s_status fm \<noteq> '''' \<and> s_status fm \<notin> set specFeatureStatuses)
        (SpecBadStatus ClassStory (s_status fm)),
      (case s_problem fm of None \<Rightarrow> Some StoryNoProblem
       | Some a \<Rightarrow> map_option BadProblem (attribute_validate a)),
      (case s_outcome fm of None \<Rightarrow> Some StoryNoOutcome
       | Some a \<Rightarrow> map_option BadOutcome (attribute_validate a)),
      check (s_story fm = '''') StoryNoStory,
      check (\<not> rx_match storyRefRe (s_story fm)) (SpecBadStory ClassStory (s_story fm)),
      check (s_impacts fm \<noteq> [] \<or> s_context fm \<noteq> [] \<or> s_declares fm \<noteq> None \<or> s_stubs fm \<noteq> []
             \<or> s_supersession fm \<noteq> None \<or> s_dispositions fm \<noteq> []) StoryFeatureFields,
      criteria_scan (s_criteria fm),
      validate_object_blocks None None (s_constraints fm) (s_decisions fm) (s_questions fm),
      scan_idx StoryEdge
        (\<lambda>l. if l_type l = LinkImplements \<or> l_type l = LinkResolves then require_fragment l else None)
        0 links,
      (if s_spike fm
       then first_error [check (implements_count \<noteq> 0) SpikeImplements,
                         check (resolves_count = 0) SpikeNoResolvesEdge]
       else check (implements_count = 0) StoryNoImplements),
      map_option SpecFrozen
        (require_frozen (b_frozen (s_base fm)) (frozen_status (s_status fm)) ''story spec''
          (s_status fm))])"

definition validate_component :: "spec \<Rightarrow> spec_error option" where
  "validate_component fm = first_error
     [check (s_status fm \<notin> set specComponentStatuses) (SpecBadStatus ClassComponent (s_status fm)),
      check (s_story fm \<noteq> '''') ComponentStory,
      check (s_spike fm \<or> s_problem fm \<noteq> None \<or> s_outcome fm \<noteq> None \<or> s_impacts fm \<noteq> []
             \<or> s_context fm \<noteq> [] \<or> s_declares fm \<noteq> None \<or> s_criteria fm \<noteq> []
             \<or> s_constraints fm \<noteq> [] \<or> s_decisions fm \<noteq> [] \<or> s_questions fm \<noteq> []
             \<or> s_stubs fm \<noteq> [] \<or> s_supersession fm \<noteq> None \<or> s_dispositions fm \<noteq> [])
        ComponentFields,
      map_option SpecFrozen
        (require_frozen (b_frozen (s_base fm)) False ''component spec'' (s_status fm))]"

definition spec_validate :: "spec \<Rightarrow> spec_error option" where
  "spec_validate fm =
     (case validate_base (s_base fm) KindSpec of
        Some e \<Rightarrow> Some (SpecBase e)
      | None \<Rightarrow>
          (case s_class fm of
             ClassUnknown s \<Rightarrow> Some (SpecBadClass s)
           | ClassFeature \<Rightarrow> validate_feature fm
           | ClassStory \<Rightarrow> validate_story fm
           | ClassComponent \<Rightarrow> validate_component fm))"

text \<open>The strict YAML decoder is a third-party package and a parameter; a decode
  entry point runs it and then the validator.\<close>

definition decode_validated :: "(string \<Rightarrow> 'e + 'a) \<Rightarrow> ('a \<Rightarrow> 'v option) \<Rightarrow> string \<Rightarrow> ('e + 'v) + 'a" where
  "decode_validated dec v data =
     (case dec data of
        Inl e \<Rightarrow> Inl (Inl e)
      | Inr fm \<Rightarrow> (case v fm of Some e \<Rightarrow> Inl (Inr e) | None \<Rightarrow> Inr fm))"

definition decode_spec :: "(string \<Rightarrow> 'e + spec) \<Rightarrow> string \<Rightarrow> ('e + spec_error) + spec" where
  "decode_spec dec data = decode_validated dec spec_validate data"

section \<open>The blocks of a spec meet the block contract\<close>

interpretation criteria: id_block "\<lambda>xs. criteria_scan xs = None" "\<lambda>a. ac_validate a = None" ac_id
  unfolding criteria_scan_def by (rule scan_seen_block)

interpretation constraints:
  id_block "\<lambda>xs. constraints_scan xs = None" "\<lambda>c. constraint_validate c = None" co_id
  unfolding constraints_scan_def by (rule scan_seen_block)

interpretation decisions:
  id_block "\<lambda>xs. decisions_scan xs = None" "\<lambda>d. decision_validate d = None" dc_id
  unfolding decisions_scan_def by (rule scan_seen_block)

interpretation questions:
  id_block "\<lambda>xs. questions_scan xs = None" "\<lambda>q. open_question_validate q = None" oq_id
  unfolding questions_scan_def by (rule scan_seen_block)

interpretation stubs: id_block "\<lambda>xs. stubs_scan xs = None" "\<lambda>s. stub_validate s = None" st_slug
  unfolding stubs_scan_def by (rule scan_seen_block)

interpretation stickies:
  id_block "\<lambda>xs. validate_dispositions xs = None" "\<lambda>d. disposition_validate d = None" d_sticky
  unfolding validate_dispositions_def by (rule scan_seen_block)

section \<open>What an accepted spec guarantees\<close>

lemma bind_None [scan_simps]: "Option.bind x f = None \<longleftrightarrow> (\<forall>a. x = Some a \<longrightarrow> f a = None)"
  by (cases x) auto

lemma require_frozen_None [scan_simps]:
  "require_frozen fr req k st = None \<longleftrightarrow> (fr \<noteq> None \<longleftrightarrow> req)"
  by (auto simp: require_frozen_def)

lemma object_blocks_None:
  "validate_object_blocks p q cs ds qs = None \<Longrightarrow>
     constraints_scan cs = None \<and> decisions_scan ds = None \<and> questions_scan qs = None"
  by (simp add: validate_object_blocks_def)

lemma feature_None:
  assumes "validate_feature fm = None"
  shows "criteria_scan (s_criteria fm) = None \<and> s_criteria fm \<noteq> []
     \<and> constraints_scan (s_constraints fm) = None
     \<and> decisions_scan (s_decisions fm) = None \<and> questions_scan (s_questions fm) = None
     \<and> stubs_scan (s_stubs fm) = None \<and> validate_dispositions (s_dispositions fm) = None
     \<and> (s_supersession fm \<noteq> None \<longrightarrow> validate_supersession_predecessor fm = None)
     \<and> (b_frozen (s_base fm) \<noteq> None \<longleftrightarrow> frozen_status (s_status fm))"
  using assms object_blocks_None by (simp add: validate_feature_def scan_simps) blast

lemma story_None:
  assumes "validate_story fm = None"
  shows "criteria_scan (s_criteria fm) = None \<and> constraints_scan (s_constraints fm) = None
     \<and> decisions_scan (s_decisions fm) = None \<and> questions_scan (s_questions fm) = None
     \<and> s_stubs fm = [] \<and> s_supersession fm = None \<and> s_dispositions fm = []
     \<and> (b_frozen (s_base fm) \<noteq> None \<longleftrightarrow> frozen_status (s_status fm))"
  using assms object_blocks_None by (simp add: validate_story_def Let_def scan_simps) blast

lemma component_None:
  assumes "validate_component fm = None"
  shows "declared_object_ids fm = [] \<and> s_stubs fm = [] \<and> s_supersession fm = None
     \<and> s_dispositions fm = [] \<and> b_frozen (s_base fm) = None"
  using assms by (simp add: validate_component_def declared_object_ids_def scan_simps)

lemma spec_None:
  "spec_validate fm = None \<longleftrightarrow>
     validate_base (s_base fm) KindSpec = None
     \<and> (s_class fm = ClassFeature \<and> validate_feature fm = None
        \<or> s_class fm = ClassStory \<and> validate_story fm = None
        \<or> s_class fm = ClassComponent \<and> validate_component fm = None)"
  by (auto simp: spec_validate_def split: option.splits spec_class.splits)

lemma acID_prefix: "rx_match acIDRe s \<Longrightarrow> has_prefix s ''ac-''"
  unfolding acIDRe_def rx_match_Cat rx_match_Lit has_prefix_iff by blast

lemma ac_prefix: "ac_validate a = None \<Longrightarrow> has_prefix (ac_id a) ''ac-''"
  by (simp add: ac_validate_def acID_prefix)

lemma co_prefix: "constraint_validate c = None \<Longrightarrow> has_prefix (co_id c) ''co-''"
  by (simp add: constraint_validate_def)

lemma dc_prefix: "decision_validate d = None \<Longrightarrow> has_prefix (dc_id d) ''dc-''"
  by (simp add: decision_validate_def)

lemma oq_prefix: "open_question_validate q = None \<Longrightarrow> has_prefix (oq_id q) ''oq-''"
  by (simp add: open_question_validate_def)

lemmas entry_prefix = ac_prefix co_prefix dc_prefix oq_prefix

lemma blocks_distinct:
  assumes "criteria_scan acs = None" "constraints_scan cs = None" "decisions_scan ds = None"
    "questions_scan qs = None"
  shows "distinct (map ac_id acs @ map co_id cs @ map dc_id ds @ map oq_id qs)"
proof -
  have p: "\<forall>i \<in> ac_id ` set acs. has_prefix i ''ac-''" "\<forall>i \<in> co_id ` set cs. has_prefix i ''co-''"
    "\<forall>i \<in> dc_id ` set ds. has_prefix i ''dc-''" "\<forall>i \<in> oq_id ` set qs. has_prefix i ''oq-''"
    using assms criteria.accepts_iff[of acs] constraints.accepts_iff[of cs]
      decisions.accepts_iff[of ds] questions.accepts_iff[of qs] entry_prefix by blast+
  have "A \<inter> B = {}" if "\<forall>i \<in> A. has_prefix i u" "\<forall>i \<in> B. has_prefix i v" "length u = length v" "u \<noteq> v"
    for A B and u v :: string
    using that by (fastforce simp: has_prefix_def)
  from this[OF p(1,2)] this[OF p(1,3)] this[OF p(1,4)] this[OF p(2,3)] this[OF p(2,4)] this[OF p(3,4)]
  have disj: "ac_id ` set acs \<inter> co_id ` set cs = {}" "ac_id ` set acs \<inter> dc_id ` set ds = {}"
    "ac_id ` set acs \<inter> oq_id ` set qs = {}" "co_id ` set cs \<inter> dc_id ` set ds = {}"
    "co_id ` set cs \<inter> oq_id ` set qs = {}" "dc_id ` set ds \<inter> oq_id ` set qs = {}"
    by simp_all
  have "distinct (map ac_id acs)" "distinct (map co_id cs)" "distinct (map dc_id ds)"
    "distinct (map oq_id qs)"
    using assms criteria.accepts_iff constraints.accepts_iff decisions.accepts_iff questions.accepts_iff
    by blast+
  with disj show ?thesis by (simp add: Int_Un_distrib)
qed

definition sample_base :: "kind \<Rightarrow> string \<Rightarrow> link list \<Rightarrow> base" where
  "sample_base k i ls =
     \<lparr>b_id = i, b_kind = k, b_title = ''t'', b_owners = [''o''], b_schema = '''', b_links = ls,
      b_frozen = None, b_provenance = None\<rparr>"

definition sample_feature :: spec where
  "sample_feature =
     \<lparr>s_base = sample_base KindSpec ''spec/pay''
        [\<lparr>l_type = LinkSupersedes, l_ref = ''spec/old-pay'', l_note = ''''\<rparr>,
         \<lparr>l_type = LinkSupersedes, l_ref = ''spec/other#dc-1'', l_note = ''''\<rparr>],
      s_class = ClassFeature, s_status = '''', s_story = '''', s_spike = False, s_problem = None,
      s_outcome = None, s_impacts = [], s_context = [], s_declares = None,
      s_criteria = [\<lparr>ac_id = ''ac-1'', ac_text = ''x'', ac_evidence = [EvidenceStatic], ac_anchor = ''''\<rparr>],
      s_constraints = [\<lparr>co_id = ''co-1'', co_text = ''x'', co_anchor = ''a''\<rparr>],
      s_decisions = [\<lparr>dc_id = ''dc-1'', dc_text = ''x'', dc_anchor = ''a'', dc_links = []\<rparr>],
      s_questions = [], s_stubs = [],
      s_supersession = Some \<lparr>su_carried = [''ac-1''], su_amended = [], su_advisory = [],
        su_removed = [], su_added = []\<rparr>,
      s_dispositions = []\<rparr>"

lemma sample_feature_valid: "spec_validate sample_feature = None"
  by code_simp

text \<open>A spec that decodes never declares one object id twice, across all four
  object blocks together: each block refuses duplicates and the id prefixes keep
  the blocks apart. So a fragment reference names at most one object.\<close>

theorem declared_ids_distinct:
  assumes "spec_validate fm = None"
  shows "distinct (declared_object_ids fm)"
  using assms[unfolded spec_None]
  by (elim conjE disjE)
     (metis feature_None story_None component_None blocks_distinct declared_object_ids_def distinct.simps(1))+

theorem declared_ids_distinct_witness:
  "distinct (declared_object_ids sample_feature) \<and>
   declared_object_ids sample_feature = [''ac-1'', ''co-1'', ''dc-1'']"
  using declared_ids_distinct[OF sample_feature_valid]
  by (simp add: declared_object_ids_def sample_feature_def)

lemma require_fragment_None [scan_simps]:
  "require_fragment l = None \<longleftrightarrow> (\<exists>r. parse_ref (l_ref l) = Inr r \<and> ref_fragment r)"
  by (auto simp: require_fragment_def split: sum.splits)

lemma filter_length_0: "length (filter P xs) = 0 \<longleftrightarrow> (\<forall>x \<in> set xs. \<not> P x)"
  by (simp add: filter_empty_conv)

definition sample_story :: spec where
  "sample_story =
     \<lparr>s_base = sample_base KindSpec ''spec/step''
        [\<lparr>l_type = LinkImplements, l_ref = ''spec/pay#ac-1'', l_note = ''''\<rparr>],
      s_class = ClassStory, s_status = '''', s_story = ''jira:A-1'', s_spike = False,
      s_problem = Some \<lparr>at_text = ''p'', at_anchor = ''p''\<rparr>,
      s_outcome = Some \<lparr>at_text = ''o'', at_anchor = ''o''\<rparr>, s_impacts = [], s_context = [],
      s_declares = None, s_criteria = [], s_constraints = [], s_decisions = [], s_questions = [],
      s_stubs = [], s_supersession = None, s_dispositions = []\<rparr>"

lemma sample_story_valid: "spec_validate sample_story = None"
  by code_simp

text \<open>The edges of an accepted story: every implements and resolves edge targets
  an object fragment; a spike resolves at least one open question and implements
  nothing; any other story implements at least one criterion.\<close>

theorem story_edges:
  assumes "spec_validate fm = None" "s_class fm = ClassStory"
  shows "(\<forall>l \<in> set (b_links (s_base fm)). l_type l \<in> {LinkImplements, LinkResolves} \<longrightarrow>
            (\<exists>r. parse_ref (l_ref l) = Inr r \<and> ref_fragment r))
       \<and> (if s_spike fm
          then (\<forall>l \<in> set (b_links (s_base fm)). l_type l \<noteq> LinkImplements)
             \<and> (\<exists>l \<in> set (b_links (s_base fm)). l_type l = LinkResolves)
          else \<exists>l \<in> set (b_links (s_base fm)). l_type l = LinkImplements)"
proof -
  have v: "validate_story fm = None" using assms by (simp add: spec_None)
  have "scan_idx StoryEdge
      (\<lambda>l. if l_type l = LinkImplements \<or> l_type l = LinkResolves then require_fragment l else None)
      0 (b_links (s_base fm)) = None"
    using v by (simp add: validate_story_def Let_def)
  then have edges: "\<forall>l \<in> set (b_links (s_base fm)). l_type l = LinkImplements \<or> l_type l = LinkResolves \<longrightarrow>
      require_fragment l = None"
    unfolding scan_idx_None by (metis (full_types))
  have counts: "if s_spike fm
      then length (filter (\<lambda>l. l_type l = LinkImplements) (b_links (s_base fm))) = 0
        \<and> length (filter (\<lambda>l. l_type l = LinkResolves) (b_links (s_base fm))) \<noteq> 0
      else length (filter (\<lambda>l. l_type l = LinkImplements) (b_links (s_base fm))) \<noteq> 0"
    using v by (simp add: validate_story_def Let_def split: if_splits del: length_0_conv)
  from edges counts show ?thesis unfolding filter_length_0 require_fragment_None by auto
qed

theorem story_edges_witness:
  "\<exists>l \<in> set (b_links (s_base sample_story)). l_type l = LinkImplements"
  using story_edges[OF sample_story_valid] by (simp add: sample_story_def)

definition sample_closed :: spec where
  "sample_closed = sample_feature
     \<lparr>s_status := ''closed'',
      s_base := (s_base sample_feature)
        \<lparr>b_frozen := Some \<lparr>f_at = ''2026-01-02'', f_commit = ''0123abc'', f_stub_matched = False\<rparr>\<rparr>\<rparr>"

text \<open>There is no third temporal state: an accepted spec carries a frozen stamp
  exactly when it is a feature or a story in one of the three frozen statuses, and
  then the stamp is a date and a commit of 7 to 40 hex digits. A component is never
  frozen.\<close>

theorem frozen_discipline:
  assumes "spec_validate fm = None"
  shows "(b_frozen (s_base fm) \<noteq> None \<longleftrightarrow> s_class fm \<noteq> ClassComponent \<and> frozen_status (s_status fm))
       \<and> (\<forall>f. b_frozen (s_base fm) = Some f \<longrightarrow>
            rx_match dateRe (f_at f) \<and> 7 \<le> length (f_commit f) \<and> length (f_commit f) \<le> 40)"
proof -
  have "\<forall>f. b_frozen (s_base fm) = Some f \<longrightarrow> frozen_validate f = None"
    using assms by (auto simp: spec_None validate_base_def scan_simps split: if_splits sum.splits)
  then have stamp: "\<forall>f. b_frozen (s_base fm) = Some f \<longrightarrow>
      rx_match dateRe (f_at f) \<and> 7 \<le> length (f_commit f) \<and> length (f_commit f) \<le> 40"
    by (auto simp: frozen_validate_def dest: commit_length)
  moreover have "b_frozen (s_base fm) \<noteq> None \<longleftrightarrow> s_class fm \<noteq> ClassComponent \<and> frozen_status (s_status fm)"
    using assms feature_None[of fm] story_None[of fm] component_None[of fm] by (auto simp: spec_None)
  ultimately show ?thesis by blast
qed

lemma sample_closed_valid: "spec_validate sample_closed = None"
  by code_simp

theorem frozen_discipline_witness:
  "b_frozen (s_base sample_closed) \<noteq> None \<and> frozen_status (s_status sample_closed)"
  using frozen_discipline[OF sample_closed_valid] by (simp add: sample_closed_def)

definition whole_spec_edge :: "link \<Rightarrow> bool" where
  "whole_spec_edge l \<longleftrightarrow> l_type l = LinkSupersedes \<and>
     (case parse_ref (l_ref l) of Inl e \<Rightarrow> False | Inr r \<Rightarrow> r_kind r = KindSpec \<and> \<not> ref_fragment r)"

lemma whole_spec_refs_map:
  "whole_spec_supersedes_refs ls =
     map (\<lambda>l. mk_ref KindSpec (r_name (projr (parse_ref (l_ref l)))) '''' '''')
       (filter whole_spec_edge ls)"
  by (induction ls) (auto simp: whole_spec_edge_def split: sum.splits)

lemma length_1_conv: "length xs = 1 \<longleftrightarrow> (\<exists>x. xs = [x])"
  by (simp add: length_Suc_conv)

text \<open>A supersession block names one predecessor: an accepted spec that carries
  one has exactly one whole-spec supersedes edge (object-fragment overrides and
  edges to other kinds do not count), and it resolves to one valid unpinned spec
  reference.\<close>

theorem supersession_predecessor:
  assumes "spec_validate fm = None" "s_supersession fm = Some su"
  shows "\<exists>l r. filter whole_spec_edge (b_links (s_base fm)) = [l]
           \<and> whole_spec_supersedes_refs (b_links (s_base fm)) = [r]
           \<and> r_kind r = KindSpec \<and> ref_validate r = None \<and> \<not> ref_pinned r \<and> \<not> ref_fragment r"
proof -
  have "validate_supersession_predecessor fm = None"
    using assms feature_None[of fm] story_None[of fm] component_None[of fm] by (auto simp: spec_None)
  then obtain l where l: "filter whole_spec_edge (b_links (s_base fm)) = [l]"
    by (auto simp: validate_supersession_predecessor_def Let_def whole_spec_refs_map length_1_conv
        simp del: length_map One_nat_def)
  then have "whole_spec_edge l" by (auto simp: filter_eq_Cons_iff)
  then obtain r where r: "parse_ref (l_ref l) = Inr r" "r_kind r = KindSpec" "\<not> ref_fragment r"
    by (auto simp: whole_spec_edge_def split: sum.splits)
  from parse_ref_print[OF r(1)] r have "ref_validate (mk_ref KindSpec (r_name r) '''' '''') = None"
    by (simp add: ref_validate_iff mk_ref_def ref_name_check_def)
  with l r show ?thesis
    by (intro exI[of _ l] exI[of _ "mk_ref KindSpec (r_name r) '''' ''''"])
       (simp add: whole_spec_refs_map mk_ref_def ref_pinned_def ref_fragment_def)
qed

theorem supersession_predecessor_witness:
  "\<exists>l r. filter whole_spec_edge (b_links (s_base sample_feature)) = [l]
      \<and> whole_spec_supersedes_refs (b_links (s_base sample_feature)) = [r]"
proof -
  have "s_supersession sample_feature \<noteq> None" by (simp add: sample_feature_def)
  then show ?thesis using supersession_predecessor[OF sample_feature_valid] by blast
qed

end
