(* ===== verification/Docs.thy ===== *)
theory Docs
  imports Specs
begin

text \<open>
  Markdown documents: the frontmatter split and its byte range (decode.go), the
  YAML dialect check on a parsed node tree (decode.go), heading anchors and their
  resolution (object.go), the path classifier (classify.go) and the review-comment
  token (commenttoken.go). The YAML parser is third-party: a parsed document
  is a \<open>ynode\<close>, with the fields of \<^verbatim>\<open>yaml.Node\<close> the sources read.
\<close>

section \<open>Frontmatter\<close>

definition trim_right_cr :: "string \<Rightarrow> string" where
  "trim_right_cr s = rev (dropWhile (\<lambda>c. c = CHR 0x0D) (rev s))"

definition is_delim :: "string \<Rightarrow> bool" where
  "is_delim l \<longleftrightarrow> trim_right_cr l = ''---''"

datatype split_error = NoOpenDelim | NoCloseDelim | NoLineEnding | RangeMismatch nat nat

definition newline :: char where
  "newline = CHR 0x0A"

fun find_delim :: "nat \<Rightarrow> string list \<Rightarrow> nat option" where
  "find_delim i [] = None"
| "find_delim i (l # ls) = (if is_delim l then Some i else find_delim (Suc i) ls)"

definition split_frontmatter :: "string \<Rightarrow> split_error + (string \<times> string)" where
  "split_frontmatter doc =
     (let lines = split_on newline doc in
      if \<not> is_delim (hd lines) then Inl NoOpenDelim
      else
        (case find_delim 1 (tl lines) of
           None \<Rightarrow> Inl NoCloseDelim
         | Some e \<Rightarrow>
             Inr (join_with [newline] (take (e - 1) (tl lines)),
                  join_with [newline] (drop (e + 1) lines))))"

fun index_byte :: "char \<Rightarrow> string \<Rightarrow> nat option" where
  "index_byte c [] = None"
| "index_byte c (x # xs) = (if x = c then Some 0 else map_option Suc (index_byte c xs))"

definition frontmatter_range :: "string \<Rightarrow> split_error + (nat \<times> nat)" where
  "frontmatter_range doc =
     (case split_frontmatter doc of
        Inl e \<Rightarrow> Inl e
      | Inr (fm, body) \<Rightarrow>
          (case index_byte newline doc of
             None \<Rightarrow> Inl NoLineEnding
           | Some nl \<Rightarrow>
               (let start = nl + 1; stop = start + length fm in
                  if length doc < stop \<or> take (length fm) (drop start doc) \<noteq> fm
                  then Inl (RangeMismatch start stop)
                  else Inr (start, stop))))"

section \<open>The YAML dialect\<close>

datatype node_kind = DocumentNode | SequenceNode | MappingNode | ScalarNode | AliasNode

datatype ynode =
  YNode (y_kind: node_kind) (y_anchor: string) (y_tag: string) (y_value: string) (y_content: "ynode list")

definition allowedYAMLTags :: "string list" where
  "allowedYAMLTags =
     [''!!str'', ''!!int'', ''!!bool'', ''!!float'', ''!!null'', ''!!seq'', ''!!map'', ''!!timestamp'']"

datatype dialect_error = AnchorNotAllowed string | AliasNotAllowed string | TagNotAllowed string

fun check_dialect :: "ynode \<Rightarrow> dialect_error option"
  and check_dialects :: "ynode list \<Rightarrow> dialect_error option" where
  "check_dialect (YNode k anchor tag val content) =
     (if anchor \<noteq> '''' then Some (AnchorNotAllowed anchor)
      else if k = AliasNode then Some (AliasNotAllowed val)
      else if k \<noteq> DocumentNode \<and> tag \<noteq> '''' \<and> tag \<notin> set allowedYAMLTags then Some (TagNotAllowed tag)
      else check_dialects content)"
| "check_dialects [] = None"
| "check_dialects (c # cs) =
     (case check_dialect c of Some e \<Rightarrow> Some e | None \<Rightarrow> check_dialects cs)"

datatype 'p yaml_error = YamlParse 'p | YamlDialect dialect_error | YamlDecode 'p

definition decode_strict_with_root ::
  "(string \<Rightarrow> 'p + ynode) \<Rightarrow> (string \<Rightarrow> 'p + 'a) \<Rightarrow> string \<Rightarrow> 'p yaml_error + ('a \<times> ynode)" where
  "decode_strict_with_root unmarshal known_fields data =
     (case unmarshal data of
        Inl e \<Rightarrow> Inl (YamlParse e)
      | Inr root \<Rightarrow>
          (case check_dialect root of
             Some e \<Rightarrow> Inl (YamlDialect e)
           | None \<Rightarrow>
               (case known_fields data of
                  Inl e \<Rightarrow> Inl (YamlDecode e)
                | Inr v \<Rightarrow> Inr (v, root))))"

definition decode_strict ::
  "(string \<Rightarrow> 'p + ynode) \<Rightarrow> (string \<Rightarrow> 'p + 'a) \<Rightarrow> string \<Rightarrow> 'p yaml_error + 'a" where
  "decode_strict unmarshal known_fields data =
     (case decode_strict_with_root unmarshal known_fields data of
        Inl e \<Rightarrow> Inl e | Inr (v, root) \<Rightarrow> Inr v)"

definition probe_frozen ::
  "(string \<Rightarrow> 'p + frozen option) \<Rightarrow> string \<Rightarrow> (split_error + 'p) + frozen option" where
  "probe_frozen probe doc =
     (case split_frontmatter doc of
        Inl e \<Rightarrow> Inl (Inl e)
      | Inr (fm, body) \<Rightarrow>
          (case probe fm of Inl e \<Rightarrow> Inl (Inr e) | Inr fr \<Rightarrow> Inr fr))"

section \<open>Headings and anchors\<close>

text \<open>\<^verbatim>\<open>strings.ToLower\<close> followed by the ASCII filter of \<^verbatim>\<open>SlugifyHeading\<close>. Of the
  code points outside ASCII only U+212A (the Kelvin sign) and U+0130 (capital I
  with a dot) have a lower case in ASCII; every other rune, and every invalid
  byte, is dropped by the filter.\<close>

definition lower_ascii :: "char \<Rightarrow> char" where
  "lower_ascii c = (if CHR ''A'' \<le> c \<and> c \<le> CHR ''Z'' then char_of (of_char c + 32 :: nat) else c)"

definition slug_char :: "char \<Rightarrow> string" where
  "slug_char c =
     (let l = lower_ascii c in
      if CHR ''a'' \<le> l \<and> l \<le> CHR ''z'' \<or> CHR ''0'' \<le> l \<and> l \<le> CHR ''9'' then [l]
      else if l = CHR '' '' \<or> l = CHR ''-'' then ''-''
      else [])"

fun slug_body :: "string \<Rightarrow> string" where
  "slug_body [] = []"
| "slug_body [a] = slug_char a"
| "slug_body [a, b] = (if a = CHR 0xC4 \<and> b = CHR 0xB0 then ''i'' else slug_char a @ slug_char b)"
| "slug_body (a # b # c # s) =
     (if a = CHR 0xE2 \<and> b = CHR 0x84 \<and> c = CHR 0xAA then CHR ''k'' # slug_body s
      else if a = CHR 0xC4 \<and> b = CHR 0xB0 then CHR ''i'' # slug_body (c # s)
      else slug_char a @ slug_body (b # c # s))"

definition trim_hyphens :: "string \<Rightarrow> string" where
  "trim_hyphens s =
     rev (dropWhile (\<lambda>c. c = CHR ''-'') (rev (dropWhile (\<lambda>c. c = CHR ''-'') s)))"

definition slugify_heading :: "string \<Rightarrow> string" where
  "slugify_heading t = trim_hyphens (slug_body t)"

definition heading_text :: "string \<Rightarrow> string option" where
  "heading_text line =
     (let trimmed = dropWhile (\<lambda>c. c = CHR '' '' \<or> c = CHR 0x09) (trim_right_cr line);
          i = length (takeWhile (\<lambda>c. c = CHR ''#'') trimmed);
          rest = drop i trimmed
      in if i = 0 \<or> 6 < i then None
         else if rest \<noteq> '''' \<and> hd rest \<noteq> CHR '' '' \<and> hd rest \<noteq> CHR 0x09 then None
         else (let t = trim_space rest in if t = '''' then None else Some t))"

definition heading_anchors :: "string \<Rightarrow> string list" where
  "heading_anchors body = map slugify_heading (List.map_filter heading_text (split_on newline body))"

definition resolve_anchor :: "string list \<Rightarrow> string \<Rightarrow> bool" where
  "resolve_anchor anchors anchor \<longleftrightarrow> slugify_heading (trim_prefix anchor ''#'') \<in> set anchors"

datatype anchor_owner =
  ProblemAttr | OutcomeAttr | CriterionAnchor string | ConstraintAnchor string | DecisionAnchor string
| QuestionAnchor string

definition anchor_check :: "string list \<Rightarrow> anchor_owner \<Rightarrow> string \<Rightarrow> (anchor_owner \<times> string) option" where
  "anchor_check anchors owner anchor =
     check (anchor \<noteq> '''' \<and> \<not> resolve_anchor anchors anchor) (owner, anchor)"

definition resolve_object_anchors :: "spec \<Rightarrow> string \<Rightarrow> (anchor_owner \<times> string) option" where
  "resolve_object_anchors fm body =
     (let anchors = heading_anchors body in first_error
     [Option.bind (s_problem fm) (\<lambda>a. anchor_check anchors ProblemAttr (at_anchor a)),
      Option.bind (s_outcome fm) (\<lambda>a. anchor_check anchors OutcomeAttr (at_anchor a)),
      scan_idx (\<lambda>_ e. e) (\<lambda>ac. anchor_check anchors (CriterionAnchor (ac_id ac)) (ac_anchor ac)) 0
        (s_criteria fm),
      scan_idx (\<lambda>_ e. e) (\<lambda>c. anchor_check anchors (ConstraintAnchor (co_id c)) (co_anchor c)) 0
        (s_constraints fm),
      scan_idx (\<lambda>_ e. e) (\<lambda>d. anchor_check anchors (DecisionAnchor (dc_id d)) (dc_anchor d)) 0
        (s_decisions fm),
      scan_idx (\<lambda>_ e. e) (\<lambda>q. anchor_check anchors (QuestionAnchor (oq_id q)) (oq_anchor q)) 0
        (s_questions fm)])"

section \<open>Paths and comment tokens\<close>

definition classify_path :: "string \<Rightarrow> string option" where
  "classify_path rel =
     (if has_prefix rel ''adr/'' \<and> has_suffix rel ''.md'' then Some ''adr''
      else if has_prefix rel ''diagrams/'' \<and> has_suffix rel ''.mermaid'' then Some ''diagram''
      else if has_prefix rel ''attestations/'' \<and> has_suffix rel ''.md'' then Some ''attestation''
      else if has_prefix rel ''waivers/'' \<and> has_suffix rel ''.md'' then Some ''waiver''
      else if has_prefix rel ''conflicts/'' \<and> has_suffix rel ''.md'' then Some ''conflict''
      else if has_prefix rel ''reaffirmations/'' \<and> has_suffix rel ''.md'' then Some ''reaffirmation''
      else if has_prefix rel ''obligations/'' \<and> has_suffix rel ''.md'' then Some ''obligation''
      else if (has_prefix rel ''specs/active/'' \<or> has_prefix rel ''specs/archive/'')
              \<and> has_suffix rel ''/spec.md'' then Some ''spec''
      else None)"

text \<open>The Go class \<^verbatim>\<open>\s\<close> is tab, newline, form feed, carriage return and space.\<close>

definition token_char :: "char \<Rightarrow> bool" where
  "token_char c \<longleftrightarrow> c \<noteq> CHR '']'' \<and> of_char c \<notin> {9, 10, 12, 13, 32 :: nat}"

definition parse_comment_token :: "string \<Rightarrow> string option" where
  "parse_comment_token body =
     (if \<not> has_prefix body ''[vd:'' then None
      else
        (let rest = drop 4 body; i = takeWhile token_char rest in
           if i = '''' then None
           else (case drop (length i) rest of
                   [] \<Rightarrow> None
                 | c # _ \<Rightarrow> if c = CHR '']'' then Some i else None)))"

section \<open>The frontmatter range is exact\<close>

lemma index_byte_first: "c \<notin> set b \<Longrightarrow> index_byte c (b @ c # a) = Some (length b)"
  by (induction b) auto

lemma join_append:
  "ys \<noteq> [] \<Longrightarrow> join_with sep (xs @ ys) = (if xs = [] then join_with sep ys else join_with sep xs @ sep @ join_with sep ys)"
proof (induction xs)
  case (Cons x xs)
  then show ?case by (cases xs; cases ys) auto
qed simp

lemma find_delim_Some: "find_delim i ls = Some e \<Longrightarrow> i \<le> e \<and> e - i < length ls \<and> is_delim (ls ! (e - i))"
proof (induction ls arbitrary: i)
  case (Cons l ls)
  show ?case
  proof (cases "is_delim l")
    case True
    with Cons.prems show ?thesis by auto
  next
    case False
    with Cons have "Suc i \<le> e" "e - Suc i < length ls" "is_delim (ls ! (e - Suc i))" by auto
    moreover from this have "e - i = Suc (e - Suc i)" by simp
    ultimately show ?thesis by simp
  qed
qed simp

lemma split_frontmatter_parts:
  assumes "split_frontmatter doc = Inr (fm, body)"
  obtains l0 ls le ls' where "doc = l0 @ newline # join_with [newline] (ls @ le # ls')"
    "newline \<notin> set l0" "is_delim l0" "is_delim le" "fm = join_with [newline] ls"
    "body = join_with [newline] ls'"
proof -
  obtain l0 rest where lines: "split_on newline doc = l0 # rest"
    by (cases "split_on newline doc") auto
  from assms obtain e where e: "is_delim l0" "find_delim 1 rest = Some e"
    "fm = join_with [newline] (take (e - 1) rest)" "body = join_with [newline] (drop e rest)"
    by (auto simp: split_frontmatter_def Let_def lines split: if_splits option.splits)
  from find_delim_Some[OF e(2)] have b: "1 \<le> e" "e - 1 < length rest" "is_delim (rest ! (e - 1))" by auto
  have rest: "rest = take (e - 1) rest @ rest ! (e - 1) # drop e rest"
    using b id_take_nth_drop[of "e - 1" rest] by simp
  have "doc = join_with [newline] (l0 # rest)" using join_split_on[of newline doc] lines by simp
  also have "\<dots> = l0 @ newline # join_with [newline] rest"
    using b by (cases rest) auto
  finally have "doc = l0 @ newline # join_with [newline] (take (e - 1) rest @ rest ! (e - 1) # drop e rest)"
    using rest by simp
  moreover have "newline \<notin> set l0" using split_on_free[of l0 newline doc] lines by simp
  ultimately show ?thesis using that e b by blast
qed

definition sample_doc :: string where
  "sample_doc = ''---'' @ [CHR 0x0D, newline] @ ''id: x'' @ [newline] @ ''---'' @ [newline] @ ''body''"

text \<open>\<^verbatim>\<open>FrontmatterRange\<close> never reports its internal errors: whenever the split
  succeeds, the range it returns cuts the document exactly at the frontmatter,
  after an opening delimiter line and before a closing one. So an edit spliced
  into that range leaves every other byte as it was.\<close>

theorem frontmatter_range_exact:
  assumes "split_frontmatter doc = Inr (fm, body)"
  shows "\<exists>s. frontmatter_range doc = Inr (s, s + length fm)
           \<and> doc = take s doc @ fm @ drop (s + length fm) doc
           \<and> (\<exists>l0. take s doc = l0 @ [newline] \<and> is_delim l0)
           \<and> (\<exists>le tail. is_delim le
                \<and> (drop (s + length fm) doc = newline # le @ tail
                   \<or> fm = '''' \<and> drop (s + length fm) doc = le @ tail))"
proof -
  obtain l0 ls le ls' where p: "doc = l0 @ newline # join_with [newline] (ls @ le # ls')"
    "newline \<notin> set l0" "is_delim l0" "is_delim le" "fm = join_with [newline] ls"
    using split_frontmatter_parts[OF assms] by metis
  obtain tail where tail: "join_with [newline] (le # ls') = le @ tail" by (cases ls') auto
  define s where "s = length l0 + 1"
  have idx: "index_byte newline doc = Some (length l0)" using p(1,2) by (simp add: index_byte_first)
  have tk: "take s doc = l0 @ [newline]" by (simp add: s_def p(1))
  have rest: "drop s doc = (if ls = [] then le @ tail else fm @ newline # le @ tail)"
    using join_append[of "le # ls'" "[newline]" ls] tail by (simp add: s_def p(1,5))
  have fm: "take (length fm) (drop s doc) = fm" using rest p(5) by auto
  have dr: "drop (s + length fm) doc = (if ls = [] then le @ tail else newline # le @ tail)"
  proof -
    have "drop (s + length fm) doc = drop (length fm) (drop s doc)" by (simp add: add.commute)
    also have "\<dots> = drop (length fm) (if ls = [] then le @ tail else fm @ newline # le @ tail)"
      by (simp only: rest)
    also have "\<dots> = (if ls = [] then le @ tail else newline # le @ tail)"
      using p(5) by (cases "ls = []") simp_all
    finally show ?thesis .
  qed
  have "length fm \<le> length (drop s doc)" using fm by (metis length_take min.cobounded1)
  then have "s + length fm \<le> length doc" using p(1) by (simp add: s_def)
  then have "frontmatter_range doc = Inr (s, s + length fm)"
    using fm by (simp add: frontmatter_range_def assms idx Let_def s_def)
  moreover have "doc = take s doc @ fm @ drop (s + length fm) doc"
    using fm by (metis append_take_drop_id drop_drop add.commute)
  ultimately show ?thesis
    using tk p(3,4,5) dr by (intro exI[of _ s]) auto
qed

theorem frontmatter_range_exact_witness:
  "\<exists>s. frontmatter_range sample_doc = Inr (s, s + 5)"
proof -
  have "split_frontmatter sample_doc = Inr (''id: x'', ''body'')" by code_simp
  from frontmatter_range_exact[OF this] show ?thesis by auto
qed

section \<open>Anchors\<close>

definition slug_ok :: "char \<Rightarrow> bool" where
  "slug_ok c \<longleftrightarrow> slug_char c = [c] \<and> c \<noteq> CHR ''#''
     \<and> c \<noteq> CHR 0xE2 \<and> c \<noteq> CHR 0xC4"

lemma char_order:
  "CHR ''Z'' < CHR ''a''" "CHR ''9'' < CHR ''A''" "CHR ''#'' < CHR ''0''" "CHR ''#'' < CHR ''a''"
  "CHR ''z'' < CHR 0xE2" "CHR ''z'' < CHR 0xC4" "CHR ''9'' < CHR 0xE2" "CHR ''9'' < CHR 0xC4"
  by code_simp+

lemma slug_ok_alnum:
  assumes "CHR ''a'' \<le> l \<and> l \<le> CHR ''z'' \<or> CHR ''0'' \<le> l \<and> l \<le> CHR ''9''"
  shows "slug_ok l"
proof -
  have "\<not> (CHR ''A'' \<le> l \<and> l \<le> CHR ''Z'')"
    using assms char_order(1,2) by (meson leD less_le_trans order_trans)
  then have "lower_ascii l = l" unfolding lower_ascii_def by (simp only: if_False)
  then have "slug_char l = [l]" using assms by (simp add: slug_char_def)
  moreover have "l \<noteq> CHR ''#''" using assms char_order(3,4) leD by blast
  moreover have "l \<noteq> CHR 0xE2" using assms char_order(5,7) leD by blast
  moreover have "l \<noteq> CHR 0xC4" using assms char_order(6,8) leD by blast
  ultimately show ?thesis by (simp add: slug_ok_def)
qed

lemma slug_ok_hyphen: "slug_ok CHR ''-''"
  by code_simp

lemma slug_char_ok: "list_all slug_ok (slug_char c)"
  unfolding slug_char_def Let_def using slug_ok_alnum slug_ok_hyphen by simp

lemma slug_ok_special: "slug_ok CHR ''k''" "slug_ok CHR ''i''"
  by code_simp+

lemma slug_body_ok: "list_all slug_ok (slug_body t)"
  by (induction t rule: slug_body.induct) (auto simp: slug_char_ok slug_ok_special)

lemma slug_body_id: "list_all slug_ok s \<Longrightarrow> slug_body s = s"
  by (induction s rule: slug_body.induct) (auto simp: slug_ok_def)

lemma trim_hyphens_sub: "list_all P s \<Longrightarrow> list_all P (trim_hyphens s)"
  unfolding trim_hyphens_def list_all_iff by (auto dest!: set_dropWhileD)

lemma dropWhile_rev_drop: "dropWhile P (rev (dropWhile P (rev (dropWhile P s)))) = rev (dropWhile P (rev (dropWhile P s)))"
proof (cases "dropWhile P s")
  case (Cons x xs)
  then have "\<not> P x" by (simp add: dropWhile_eq_Cons_conv)
  then have "rev (dropWhile P (rev (x # xs))) = x # rev (dropWhile P (rev xs))"
    by (simp add: dropWhile_append)
  with Cons \<open>\<not> P x\<close> show ?thesis by simp
next
  case Nil
  then show ?thesis by (simp only: rev.simps dropWhile.simps)
qed

lemma trim_hyphens_idem: "trim_hyphens (trim_hyphens s) = trim_hyphens s"
  unfolding trim_hyphens_def by (simp add: dropWhile_rev_drop)

lemma slugify_idem: "slugify_heading (slugify_heading t) = slugify_heading t"
  unfolding slugify_heading_def
  by (simp add: slug_body_id trim_hyphens_sub slug_body_ok trim_hyphens_idem)

lemma slugify_no_hash: "\<not> has_prefix (slugify_heading t) ''#''"
proof -
  have "list_all slug_ok (slugify_heading t)"
    by (simp add: slugify_heading_def trim_hyphens_sub slug_body_ok)
  then show ?thesis by (cases "slugify_heading t") (auto simp: has_prefix_def slug_ok_def)
qed

lemma set_heading_anchors:
  "set (heading_anchors body) =
     {slugify_heading u | l u. l \<in> set (split_on newline body) \<and> heading_text l = Some u}"
  unfolding heading_anchors_def List.map_filter_def by force

text \<open>Anchor resolution is symmetric: for every heading of a document, an anchor
  written as the heading's own text behind a hash sign, as its computed slug, or as
  the slug behind a hash sign all resolve; and an anchor resolves only when its slug
  is the slug of some heading.\<close>

theorem heading_anchor_resolves:
  assumes "line \<in> set (split_on newline body)" "heading_text line = Some t"
  shows "resolve_anchor (heading_anchors body) (''#'' @ t)
       \<and> resolve_anchor (heading_anchors body) (slugify_heading t)
       \<and> resolve_anchor (heading_anchors body) (''#'' @ slugify_heading t)
       \<and> (\<forall>a. resolve_anchor (heading_anchors body) a \<longleftrightarrow>
            (\<exists>l \<in> set (split_on newline body). \<exists>u. heading_text l = Some u
               \<and> slugify_heading u = slugify_heading (trim_prefix a ''#'')))"
proof -
  have all: "resolve_anchor (heading_anchors body) a \<longleftrightarrow>
      (\<exists>l \<in> set (split_on newline body). \<exists>u. heading_text l = Some u
         \<and> slugify_heading u = slugify_heading (trim_prefix a ''#''))" for a
    unfolding resolve_anchor_def set_heading_anchors mem_Collect_eq by metis
  have t: "trim_prefix (''#'' @ x) ''#'' = x" for x by (simp add: trim_prefix_def has_prefix_def)
  have s: "trim_prefix (slugify_heading t) ''#'' = slugify_heading t"
    by (simp add: trim_prefix_def slugify_no_hash)
  show ?thesis using assms unfolding all t s slugify_idem by blast
qed

theorem heading_anchor_resolves_witness:
  "resolve_anchor (heading_anchors ''## AC 1'') ''#AC 1''"
proof -
  have "''## AC 1'' \<in> set (split_on newline ''## AC 1'')" "heading_text ''## AC 1'' = Some ''AC 1''"
    by code_simp+
  from heading_anchor_resolves[OF this, THEN conjunct1] show ?thesis by (simp only: append.simps)
qed

end
