(* ===== verification/Kinds.thy ===== *)
theory Kinds
  imports Specs
begin

text \<open>
  The other artifact kinds of internal/artifact: ADRs (adr.go), attestations
  (attestation.go), waivers (waiver.go), conflicts (conflict.go and
  conflictresolution.go), re-affirmations (reaffirmation.go), the bindings sidecar
  (bindings.go) and the closure rollup with its countersign block (rollup.go).
  Each has its record, its \<^verbatim>\<open>Validate\<close> and, for bindings, the resolution of an
  entry against its owning spec.
\<close>

section \<open>ADRs, attestations, waivers\<close>

datatype kind_error =
    KindBase base_error
  | UnknownStatus string
  | DecidedRequired string
  | DecidedForbidden string
  | DecidedNotDate string
  | ReasonRequired
  | ExpiryNotDate string
  | KindFrozen require_error

record adr =
  adr_base :: base
  adr_status :: string
  adr_decided :: string

definition adr_validate :: "adr \<Rightarrow> kind_error option" where
  "adr_validate fm =
     (let decided = (adr_status fm = ''accepted'' \<or> adr_status fm = ''superseded'') in first_error
     [map_option KindBase (validate_base (adr_base fm) KindADR),
      check (adr_status fm \<notin> set adrStatuses) (UnknownStatus (adr_status fm)),
      check (decided \<and> adr_decided fm = '''') (DecidedRequired (adr_status fm)),
      check (\<not> decided \<and> adr_decided fm \<noteq> '''') (DecidedForbidden (adr_status fm)),
      check (adr_decided fm \<noteq> '''' \<and> \<not> rx_match dateRe (adr_decided fm)) (DecidedNotDate (adr_decided fm)),
      map_option KindFrozen
        (require_frozen (b_frozen (adr_base fm)) decided ''adr'' (adr_status fm))])"

definition attestation_validate :: "base \<Rightarrow> kind_error option" where
  "attestation_validate fm = first_error
     [map_option KindBase (validate_base fm KindAttestation),
      map_option KindFrozen (require_frozen (b_frozen fm) True ''attestation'' '''')]"

record waiver =
  w_base :: base
  w_status :: string
  w_reason :: string
  w_expiry :: string

definition waiver_validate :: "waiver \<Rightarrow> kind_error option" where
  "waiver_validate fm = first_error
     [map_option KindBase (validate_base (w_base fm) KindWaiver),
      check (w_status fm \<notin> set waiverStatuses) (UnknownStatus (w_status fm)),
      check (w_reason fm = '''') ReasonRequired,
      check (w_expiry fm \<noteq> '''' \<and> \<not> rx_match dateRe (w_expiry fm)) (ExpiryNotDate (w_expiry fm)),
      map_option KindFrozen
        (require_frozen (b_frozen (w_base fm)) True ''waiver'' (w_status fm))]"

section \<open>Conflicts\<close>

record conflict =
  c_base :: base
  c_status :: string
  c_resolved_by :: string

datatype conflict_error =
    ConflictBase base_error
  | ConflictStatus string
  | NoChallenges
  | ResolvedByStatus string string
  | ResolvedByNoFragment string
  | ResolvedByBadRef string ref_error
  | ResolvedByNotSpec string
  | ConflictFrozen require_error

definition challenges_object_fragment :: "conflict \<Rightarrow> bool" where
  "challenges_object_fragment fm =
     list_ex (\<lambda>l. l_type l = LinkChallenges \<and>
        (case parse_ref (l_ref l) of Inl e \<Rightarrow> False | Inr r \<Rightarrow> ref_fragment r)) (b_links (c_base fm))"

definition validate_resolved_by :: "conflict \<Rightarrow> conflict_error option" where
  "validate_resolved_by fm =
     (let rb = c_resolved_by fm in
      if rb = '''' then None
      else if c_status fm \<noteq> ''superseded'' then Some (ResolvedByStatus rb (c_status fm))
      else if \<not> challenges_object_fragment fm then Some (ResolvedByNoFragment rb)
      else
        (case parse_ref rb of
           Inl e \<Rightarrow> Some (ResolvedByBadRef rb e)
         | Inr r \<Rightarrow> check (r_kind r \<noteq> KindSpec \<or> ref_pinned r \<or> ref_fragment r) (ResolvedByNotSpec rb)))"

definition conflict_validate :: "conflict \<Rightarrow> conflict_error option" where
  "conflict_validate fm =
     (let resolved = (c_status fm = ''superseded'' \<or> c_status fm = ''dismissed'') in first_error
     [map_option ConflictBase (validate_base (c_base fm) KindConflict),
      check (c_status fm \<notin> set conflictStatuses) (ConflictStatus (c_status fm)),
      check (\<not> list_ex (\<lambda>l. l_type l = LinkChallenges) (b_links (c_base fm))) NoChallenges,
      validate_resolved_by fm,
      map_option ConflictFrozen
        (require_frozen (b_frozen (c_base fm)) resolved ''conflict'' (c_status fm))])"

section \<open>Re-affirmations\<close>

record hash_pair =
  hp_old :: string
  hp_new :: string

record reaffirmation =
  ra_base :: base
  ra_object :: string
  ra_hash :: hash_pair

datatype reaffirmation_error =
    ReaffBase base_error
  | ReaffBadObject ref_error
  | ReaffNotPinned string
  | ReaffNotFragment string
  | BadOldHash string
  | BadNewHash string
  | SameHash string
  | ReaffFrozen require_error

definition hash_pair_validate :: "hash_pair \<Rightarrow> reaffirmation_error option" where
  "hash_pair_validate hp = first_error
     [check (\<not> rx_match sha256Re (hp_old hp)) (BadOldHash (hp_old hp)),
      check (\<not> rx_match sha256Re (hp_new hp)) (BadNewHash (hp_new hp)),
      check (hp_old hp = hp_new hp) (SameHash (hp_old hp))]"

definition reaffirmation_validate :: "reaffirmation \<Rightarrow> reaffirmation_error option" where
  "reaffirmation_validate fm =
     (case validate_base (ra_base fm) KindReaffirmation of
        Some e \<Rightarrow> Some (ReaffBase e)
      | None \<Rightarrow>
          (case parse_ref (ra_object fm) of
             Inl e \<Rightarrow> Some (ReaffBadObject e)
           | Inr r \<Rightarrow> first_error
               [check (\<not> ref_pinned r) (ReaffNotPinned (ra_object fm)),
                check (\<not> ref_fragment r) (ReaffNotFragment (ra_object fm)),
                hash_pair_validate (ra_hash fm),
                map_option ReaffFrozen
                  (require_frozen (b_frozen (ra_base fm)) True ''reaffirmation'' '''')]))"

section \<open>Bindings\<close>

record binding =
  bi_producer :: string
  bi_kind :: evidence_kind
  bi_acs :: "string list"

record bindings =
  bs_schema :: string
  bs_spec :: string
  bs_bindings :: "binding list"

datatype binding_error =
    EmptyProducer
  | BindingBadKind string evidence_kind
  | BindingNoACs string
  | BindingBadAC string string
  | BindingsSchema string
  | BindingsBadSpec ref_error
  | BindingsNotSpec string
  | BindingsEmpty
  | BindingsEntry nat binding_error
  | ProducerTwice string
  | ResolveDefaultBad string string ref_error
  | ResolveDefaultNotSpec string string
  | ResolveBadEntry string
  | ResolvePinned string

definition bindingsSchema :: string where
  "bindingsSchema = ''verdi.bindings/v1''"

definition is_bare_ac_entry :: "string \<Rightarrow> bool" where
  "is_bare_ac_entry e = rx_match acIDRe e"

definition binding_validate :: "binding \<Rightarrow> binding_error option" where
  "binding_validate b = first_error
     [check (bi_producer b = '''') EmptyProducer,
      check (\<not> evidence_kind_valid (bi_kind b)) (BindingBadKind (bi_producer b) (bi_kind b)),
      check (bi_acs b = []) (BindingNoACs (bi_producer b)),
      scan_idx (\<lambda>_ e. e)
        (\<lambda>ac. if is_bare_ac_entry ac then None
              else (case parse_ref ac of
                      Inr r \<Rightarrow> check (\<not> (r_kind r = KindSpec \<and> ref_fragment r))
                                 (BindingBadAC (bi_producer b) ac)
                    | Inl e \<Rightarrow> Some (BindingBadAC (bi_producer b) ac))) 0 (bi_acs b)]"

definition resolve_binding_ac :: "string \<Rightarrow> string \<Rightarrow> binding_error + (string \<times> string)" where
  "resolve_binding_ac defaultSpecRef entry =
     (if is_bare_ac_entry entry then
        (case parse_ref defaultSpecRef of
           Inl e \<Rightarrow> Inl (ResolveDefaultBad entry defaultSpecRef e)
         | Inr r \<Rightarrow>
             if r_kind r \<noteq> KindSpec \<or> ref_fragment r \<or> ref_pinned r
             then Inl (ResolveDefaultNotSpec entry defaultSpecRef)
             else Inr (ref_string r, entry))
      else
        (case parse_ref entry of
           Inl e \<Rightarrow> Inl (ResolveBadEntry entry)
         | Inr r \<Rightarrow>
             if r_kind r \<noteq> KindSpec \<or> \<not> ref_fragment r then Inl (ResolveBadEntry entry)
             else if ref_pinned r then Inl (ResolvePinned entry)
             else Inr (ref_string (mk_ref (r_kind r) (r_name r) '''' ''''), r_object r)))"

definition bindings_scan :: "binding list \<Rightarrow> binding_error option" where
  "bindings_scan bs =
     scan_seen bi_producer BindingsEntry (\<lambda>_ b. ProducerTwice (bi_producer b)) binding_validate 0 [] bs"

definition bindings_validate :: "bindings \<Rightarrow> binding_error option" where
  "bindings_validate bs =
     (if bs_schema bs \<noteq> bindingsSchema then Some (BindingsSchema (bs_schema bs))
      else
        (case parse_ref (bs_spec bs) of
           Inl e \<Rightarrow> Some (BindingsBadSpec e)
         | Inr r \<Rightarrow> first_error
             [check (r_kind r \<noteq> KindSpec) (BindingsNotSpec (bs_spec bs)),
              check (bs_bindings bs = []) BindingsEmpty,
              bindings_scan (bs_bindings bs)]))"

interpretation producers:
  id_block "\<lambda>xs. bindings_scan xs = None" "\<lambda>b. binding_validate b = None" bi_producer
  unfolding bindings_scan_def by (rule scan_seen_block)

text \<open>\<^verbatim>\<open>ResolveBindingAC\<close> never guesses: a bare criterion id resolves to itself
  under the owning spec reference, unchanged; any other entry resolves only when it
  is literally the resolved spec reference, a hash sign and the object id; and the
  spec reference returned is always an unpinned whole-spec reference that parses.\<close>

theorem resolve_binding_ac_sound:
  assumes "resolve_binding_ac d e = Inr (sr, obj)"
  shows "(if is_bare_ac_entry e then sr = d \<and> obj = e else e = sr @ ''#'' @ obj)
       \<and> (\<exists>r. parse_ref sr = Inr r \<and> r_kind r = KindSpec \<and> \<not> ref_pinned r \<and> \<not> ref_fragment r)"
proof (cases "is_bare_ac_entry e")
  case True
  with assms obtain r where r: "parse_ref d = Inr r" "r_kind r = KindSpec" "\<not> ref_fragment r"
    "\<not> ref_pinned r" "sr = ref_string r" "obj = e"
    by (auto simp: resolve_binding_ac_def split: sum.splits if_splits)
  with parse_ref_print[OF r(1)] True show ?thesis by auto
next
  case False
  with assms obtain r where r: "parse_ref e = Inr r" "r_kind r = KindSpec" "ref_fragment r"
    "\<not> ref_pinned r" and s: "sr = ref_string (mk_ref KindSpec (r_name r) '''' '''')" "obj = r_object r"
    by (auto simp: resolve_binding_ac_def split: sum.splits if_splits)
  let ?r = "mk_ref KindSpec (r_name r) '''' ''''"
  have v: "ref_validate ?r = None"
    using parse_ref_print[OF r(1)] r(2) by (simp add: ref_validate_iff mk_ref_def ref_name_check_def)
  have "e = sr @ ''#'' @ obj"
    using parse_ref_print[OF r(1)] r s
    by (simp add: ref_string_def mk_ref_def ref_pinned_def ref_fragment_def)
  moreover have "parse_ref sr = Inr ?r" using print_parse_ref[OF v] s(1) by simp
  ultimately show ?thesis
    using False by (auto simp: mk_ref_def ref_pinned_def ref_fragment_def intro!: exI[of _ ?r])
qed

theorem resolve_binding_ac_sound_witness:
  "\<exists>r. parse_ref ''spec/pay'' = Inr r \<and> r_kind r = KindSpec"
proof -
  have "resolve_binding_ac ''spec/own'' ''spec/pay#ac-1'' = Inr (''spec/pay'', ''ac-1'')" by code_simp
  from resolve_binding_ac_sound[OF this] show ?thesis by blast
qed

section \<open>Rollups\<close>

datatype criterion_status =
    CriterionWaived
  | CriterionViolated
  | CriterionEvidenced
  | CriterionPending
  | CriterionNoSignal
  | CriterionUnknown string

fun criterion_status_valid :: "criterion_status \<Rightarrow> bool" where
  "criterion_status_valid (CriterionUnknown s) = False"
| "criterion_status_valid c = True"

record rollup_criterion =
  rc_id :: string
  rc_text :: string
  rc_status :: criterion_status
  rc_summary :: string

record approval =
  ap_id :: string
  ap_ref :: string
  ap_principal :: string
  ap_state :: string

record countersign =
  cs_record_digest :: string
  cs_verdict :: string
  cs_approvals :: "approval list option"
  cs_eligible :: "string list option"
  cs_principals :: "string list option"
  cs_witnesses :: "string list option"

record rollup =
  ro_schema :: string
  ro_story :: string
  ro_ref :: string
  ro_commit :: string
  ro_criteria :: "rollup_criterion list"
  ro_eligible :: bool
  ro_countersign :: "countersign option"
  ro_digest :: string

datatype rollup_error =
    RollupSchema string
  | RollupStory string
  | RollupBadRef ref_error
  | RollupNotSpec string
  | RollupCommit string
  | RollupDigest string
  | RollupNoCriteria
  | RollupBadId nat string
  | RollupDupId nat string
  | RollupNoText nat
  | RollupBadStatus nat criterion_status
  | RollupEligible bool
  | RecordDigest string
  | VerdictNotProven string
  | NullArrays
  | NoApprovals
  | NoEligible
  | NoPrincipals
  | NoWitnesses
  | ApprovalIncomplete nat
  | ApprovalDup string
  | ApprovalNoPrincipal nat
  | ApprovalHasPrincipal nat
  | ApprovalBadState nat string
  | EligibleNotUnique nat
  | EligibleNotAuthenticated string
  | PrincipalsMismatch
  | WitnessBlank nat
  | WitnessOrder

definition rollupSchema :: string where
  "rollupSchema = ''verdi.rollup/v1''"

fun rollup_criteria_scan :: "nat \<Rightarrow> string list \<Rightarrow> rollup_criterion list \<Rightarrow> rollup_error option" where
  "rollup_criteria_scan i seen [] = None"
| "rollup_criteria_scan i seen (c # cs) =
     (if \<not> rx_match acIDRe (rc_id c) then Some (RollupBadId i (rc_id c))
      else if rc_id c \<in> set seen then Some (RollupDupId i (rc_id c))
      else if rc_text c = '''' then Some (RollupNoText i)
      else if \<not> criterion_status_valid (rc_status c) then Some (RollupBadStatus i (rc_status c))
      else rollup_criteria_scan (Suc i) (rc_id c # seen) cs)"

fun approvals_scan :: "nat \<Rightarrow> approval list \<Rightarrow> approval list \<Rightarrow> rollup_error + approval list" where
  "approvals_scan i rows [] = Inr rows"
| "approvals_scan i rows (a # as) =
     (if ap_id a = '''' \<or> ap_ref a = '''' then Inl (ApprovalIncomplete i)
      else if ap_id a \<in> set (map ap_id rows) then Inl (ApprovalDup (ap_id a))
      else if ap_state a = ''authenticated'' then
        (if ap_principal a = '''' then Inl (ApprovalNoPrincipal i)
         else approvals_scan (Suc i) (a # rows) as)
      else if ap_state a = ''violated-with-witness'' \<or> ap_state a = ''unproven'' then
        (if ap_principal a \<noteq> '''' then Inl (ApprovalHasPrincipal i)
         else approvals_scan (Suc i) (a # rows) as)
      else Inl (ApprovalBadState i (ap_state a)))"

fun eligible_scan ::
  "approval list \<Rightarrow> nat \<Rightarrow> string list \<Rightarrow> string list \<Rightarrow> string list \<Rightarrow> rollup_error + string list" where
  "eligible_scan rows i seen principals [] = Inr principals"
| "eligible_scan rows i seen principals (e # es) =
     (if e = '''' \<or> e \<in> set seen then Inl (EligibleNotUnique i)
      else
        (case find (\<lambda>r. ap_id r = e) rows of
           None \<Rightarrow> Inl (EligibleNotAuthenticated e)
         | Some row \<Rightarrow>
             if ap_state row \<noteq> ''authenticated'' then Inl (EligibleNotAuthenticated e)
             else eligible_scan rows (Suc i) (e # seen) (ap_principal row # principals) es))"

fun principals_match :: "string list \<Rightarrow> string list \<Rightarrow> bool" where
  "principals_match (p # ps) (w # ws) = (p \<noteq> '''' \<and> p = w \<and> principals_match ps ws)"
| "principals_match ps ws = (ps = [] \<and> ws = [])"

fun witnesses_scan :: "nat \<Rightarrow> string option \<Rightarrow> string list \<Rightarrow> rollup_error option" where
  "witnesses_scan i prev [] = None"
| "witnesses_scan i prev (w # ws) =
     (if w = '''' \<or> trim_space w \<noteq> w then Some (WitnessBlank i)
      else if (case prev of None \<Rightarrow> False | Some p \<Rightarrow> w \<le> p) then Some WitnessOrder
      else witnesses_scan (Suc i) (Some w) ws)"

definition countersign_rows ::
  "approval list \<Rightarrow> string list \<Rightarrow> string list \<Rightarrow> string list \<Rightarrow> rollup_error option" where
  "countersign_rows approvals eligible principals witnesses =
     (case approvals_scan 0 [] approvals of
        Inl e \<Rightarrow> Some e
      | Inr rows \<Rightarrow>
          (case eligible_scan rows 0 [] [] eligible of
             Inl e \<Rightarrow> Some e
           | Inr ps \<Rightarrow>
               (let want = sort (remdups ps) in first_error
                  [check (length want \<noteq> length principals) PrincipalsMismatch,
                   check (\<not> principals_match principals want) PrincipalsMismatch,
                   witnesses_scan 0 None witnesses])))"

definition countersign_validate :: "countersign \<Rightarrow> rollup_error option" where
  "countersign_validate c =
     (if \<not> rx_match sha256Re (cs_record_digest c) then Some (RecordDigest (cs_record_digest c))
      else if cs_verdict c \<noteq> ''proven'' then Some (VerdictNotProven (cs_verdict c))
      else
        (case (cs_approvals c, cs_eligible c, cs_principals c, cs_witnesses c) of
           (Some as, Some es, Some ps, Some ws) \<Rightarrow> first_error
             [check (as = []) NoApprovals,
              check (es = []) NoEligible,
              check (ps = []) NoPrincipals,
              check (ws = []) NoWitnesses,
              countersign_rows as es ps ws]
         | _ \<Rightarrow> Some NullArrays))"

definition rollup_validate :: "rollup \<Rightarrow> rollup_error option" where
  "rollup_validate r =
     (if ro_schema r \<noteq> rollupSchema then Some (RollupSchema (ro_schema r))
      else if ro_story r \<noteq> '''' \<and> \<not> rx_match storyRefRe (ro_story r) then Some (RollupStory (ro_story r))
      else
        (case parse_ref (ro_ref r) of
           Inl e \<Rightarrow> Some (RollupBadRef e)
         | Inr rf \<Rightarrow> first_error
             [check (r_kind rf \<noteq> KindSpec) (RollupNotSpec (ro_ref r)),
              check (\<not> rx_match commitRe (ro_commit r)) (RollupCommit (ro_commit r)),
              check (\<not> rx_match sha256Re (ro_digest r)) (RollupDigest (ro_digest r)),
              check (ro_criteria r = []) RollupNoCriteria,
              rollup_criteria_scan 0 [] (ro_criteria r),
              check (ro_eligible r \<noteq>
                     list_all (\<lambda>c. rc_status c = CriterionEvidenced \<or> rc_status c = CriterionWaived)
                       (ro_criteria r)) (RollupEligible (ro_eligible r)),
              Option.bind (ro_countersign r) countersign_validate]))"

lemma rollup_criteria_None [scan_simps]:
  "rollup_criteria_scan i seen cs = None \<longleftrightarrow>
     (\<forall>c \<in> set cs. rx_match acIDRe (rc_id c) \<and> rc_text c \<noteq> '''' \<and> criterion_status_valid (rc_status c))
     \<and> distinct (map rc_id cs) \<and> rc_id ` set cs \<inter> set seen = {}"
  by (induction cs arbitrary: i seen) auto

interpretation rollup_rows:
  id_block "\<lambda>cs. rollup_criteria_scan 0 [] cs = None"
    "\<lambda>c. rx_match acIDRe (rc_id c) \<and> rc_text c \<noteq> '''' \<and> criterion_status_valid (rc_status c)" rc_id
  by unfold_locales (auto simp: rollup_criteria_None)

definition approval_ok :: "approval \<Rightarrow> bool" where
  "approval_ok a \<longleftrightarrow> ap_id a \<noteq> '''' \<and> ap_ref a \<noteq> ''''
     \<and> (ap_state a = ''authenticated'' \<and> ap_principal a \<noteq> ''''
        \<or> (ap_state a = ''violated-with-witness'' \<or> ap_state a = ''unproven'') \<and> ap_principal a = '''')"

lemma approvals_scan_Inr:
  "approvals_scan i rows as = Inr rows' \<longleftrightarrow>
     rows' = rev as @ rows \<and> (\<forall>a \<in> set as. approval_ok a)
     \<and> distinct (map ap_id as) \<and> ap_id ` set as \<inter> ap_id ` set rows = {}"
proof (induction as arbitrary: i rows)
  case Nil
  then show ?case by auto
next
  case (Cons a as)
  show ?case
  proof (cases "approval_ok a \<and> ap_id a \<notin> ap_id ` set rows")
    case True
    then have "approvals_scan i rows (a # as) = approvals_scan (Suc i) (a # rows) as"
      by (auto simp: approval_ok_def)
    with Cons.IH True show ?thesis by auto
  next
    case False
    then have "approvals_scan i rows (a # as) \<noteq> Inr rows'"
      by (auto simp: approval_ok_def split: if_splits)
    with False show ?thesis by auto
  qed
qed

interpretation approvals:
  id_block "\<lambda>as. \<exists>rows. approvals_scan 0 [] as = Inr rows" approval_ok ap_id
  by unfold_locales (auto simp: approvals_scan_Inr)

lemma eligible_scan_Inr:
  "eligible_scan rows i seen ps es = Inr ps' \<Longrightarrow>
     distinct es \<and> set es \<inter> set seen = {}
     \<and> (\<forall>e \<in> set es. \<exists>row \<in> set rows. find (\<lambda>r. ap_id r = e) rows = Some row
            \<and> ap_id row = e \<and> ap_state row = ''authenticated'')
     \<and> set ps' = set ps \<union> {ap_principal row | row e. e \<in> set es \<and> find (\<lambda>r. ap_id r = e) rows = Some row}"
proof (induction es arbitrary: i seen ps)
  case Nil
  then show ?case by simp
next
  case (Cons e es)
  then obtain row where row: "find (\<lambda>r. ap_id r = e) rows = Some row" "ap_state row = ''authenticated''"
    "e \<noteq> ''''" "e \<notin> set seen"
    and rest: "eligible_scan rows (Suc i) (e # seen) (ap_principal row # ps) es = Inr ps'"
    by (auto split: if_splits option.splits)
  have "row \<in> set rows" "ap_id row = e" using row(1) by (auto simp: find_Some_iff)
  with row Cons.IH[OF rest] show ?case by auto
qed

lemma principals_match_eq: "principals_match ps ws \<Longrightarrow> ps = ws"
  by (induction ps ws rule: principals_match.induct) auto

lemma witnesses_sorted:
  "witnesses_scan i prev ws = None \<Longrightarrow>
     sorted_wrt (<) ws \<and> (case prev of None \<Rightarrow> True | Some p \<Rightarrow> \<forall>w \<in> set ws. p < w)"
proof (induction i prev ws rule: witnesses_scan.induct)
  case (2 i prev w ws)
  then have "witnesses_scan (Suc i) (Some w) ws = None" "\<forall>p. prev = Some p \<longrightarrow> p < w"
    by (auto split: if_splits option.splits)
  with 2 show ?case by (fastforce split: option.splits if_splits)
qed (auto split: option.splits)

definition sample_countersign :: countersign where
  "sample_countersign =
     \<lparr>cs_record_digest = ''sha256:'' @ replicate 64 CHR ''0'', cs_verdict = ''proven'',
      cs_approvals = Some [\<lparr>ap_id = ''1'', ap_ref = ''r'', ap_principal = ''zoe'', ap_state = ''authenticated''\<rparr>,
        \<lparr>ap_id = ''2'', ap_ref = ''r'', ap_principal = ''amy'', ap_state = ''authenticated''\<rparr>,
        \<lparr>ap_id = ''3'', ap_ref = ''r'', ap_principal = '''', ap_state = ''unproven''\<rparr>],
      cs_eligible = Some [''1'', ''2''], cs_principals = Some [''amy'', ''zoe''],
      cs_witnesses = Some [''a'', ''b'']\<rparr>"

text \<open>An accepted countersign block cannot claim a principal it has no approval
  for, nor drop or repeat one: its principal list is strictly sorted and holds
  exactly the principals of the eligible approvals, each of which is a row of the
  block in the authenticated state; and its witnesses are strictly sorted.\<close>

theorem countersign_principals_exact:
  assumes "countersign_validate c = None"
  shows "\<exists>as es ps ws. cs_approvals c = Some as \<and> cs_eligible c = Some es \<and> cs_principals c = Some ps
     \<and> cs_witnesses c = Some ws \<and> sorted_wrt (<) ps \<and> sorted_wrt (<) ws \<and> distinct es
     \<and> (\<forall>e \<in> set es. \<exists>a \<in> set as. ap_id a = e \<and> ap_state a = ''authenticated'')
     \<and> set ps = {ap_principal a | a. a \<in> set as \<and> ap_id a \<in> set es}"
proof -
  from assms obtain as es ps ws where f: "cs_approvals c = Some as" "cs_eligible c = Some es"
    "cs_principals c = Some ps" "cs_witnesses c = Some ws" "countersign_rows as es ps ws = None"
    by (auto simp: countersign_validate_def split: if_splits option.splits)
  then obtain rows want where r: "approvals_scan 0 [] as = Inr rows"
    "eligible_scan rows 0 [] [] es = Inr want" "principals_match ps (sort (remdups want))"
    "witnesses_scan 0 None ws = None"
    by (auto simp: countersign_rows_def Let_def split: sum.splits)
  have rows: "set rows = set as" "distinct (map ap_id rows)"
    using r(1) by (auto simp: approvals_scan_Inr rev_map[symmetric])
  have lookup: "find (\<lambda>r. ap_id r = e) rows = Some row \<longleftrightarrow> row \<in> set as \<and> ap_id row = e" for e row
    using find_key_iff[OF rows(2)] rows(1) by simp
  have ps: "ps = sort (remdups want)" by (rule principals_match_eq[OF r(3)])
  then have "sorted_wrt (<) ps" by (simp add: strict_sorted_iff)
  moreover have "set ps = {ap_principal a | a. a \<in> set as \<and> ap_id a \<in> set es}"
    using eligible_scan_Inr[OF r(2)] unfolding ps by (auto simp: lookup)
  moreover have "distinct es" "\<forall>e \<in> set es. \<exists>a \<in> set as. ap_id a = e \<and> ap_state a = ''authenticated''"
    using eligible_scan_Inr[OF r(2)] rows(1) by auto
  moreover have "sorted_wrt (<) ws" using witnesses_sorted[OF r(4)] by simp
  ultimately show ?thesis using f by blast
qed

lemma sample_countersign_valid: "countersign_validate sample_countersign = None"
  by code_simp

theorem countersign_principals_exact_witness:
  "\<exists>ps. cs_principals sample_countersign = Some ps \<and> sorted_wrt (<) ps"
  using countersign_principals_exact[OF sample_countersign_valid] by blast

end
