(* ===== verification/Evidence.thy ===== *)
theory Evidence
  imports Specs "HOL-Library.Option_ord" "HOL-Library.Product_Lexorder"
begin

text \<open>
  Evidence records (internal/artifact/evidence.go) and the reductions the fold runs
  on them: the latest record per (kind, producer) (internal/evidence/current.go),
  the authoritative-source filter (candidates.go), the per-criterion selection
  (fold.go) and the status vocabulary (status.go).

  The locale \<open>latest_reduction\<close> is the shape of the reduction; its extension
  \<open>latest_ranked\<close> adds a rank the comparison agrees with, and is interpreted on
  \<open>current\<close> with numeric pipeline and job ids.
\<close>

section \<open>Records\<close>

datatype verdict = VerdictPass | VerdictFail | VerdictAbstain | VerdictUnknown string

datatype source = SourceCI | SourceLocal | SourceUnknown string

record evidence_provenance =
  ep_source :: source
  ep_pipeline :: string
  ep_job :: string
  ep_job_name :: string
  ep_commit :: string

record evidence =
  e_schema :: string
  e_for :: "string list"
  e_kind :: evidence_kind
  e_verdict :: verdict
  e_witness :: string
  e_producer :: string
  e_provenance :: evidence_provenance
  e_quarantine :: "string option"
  e_digest :: string

fun verdict_valid :: "verdict \<Rightarrow> bool" where
  "verdict_valid (VerdictUnknown s) = False"
| "verdict_valid v = True"

fun source_valid :: "source \<Rightarrow> bool" where
  "source_valid (SourceUnknown s) = False"
| "source_valid v = True"

definition evidenceSchema :: string where
  "evidenceSchema = ''verdi.evidence/v1''"

datatype evidence_error =
    EvSchema string
  | EvNoFor
  | EvBadFor string
  | EvBadKind evidence_kind
  | EvBadVerdict verdict
  | EvBadSource source
  | EvBadCommit string
  | EvBadDigest string

definition evidence_validate :: "evidence \<Rightarrow> evidence_error option" where
  "evidence_validate e = first_error
     [check (e_schema e \<noteq> evidenceSchema) (EvSchema (e_schema e)),
      check (e_for e = []) EvNoFor,
      scan_idx (\<lambda>_ x. x) (\<lambda>ac. check (\<not> rx_match acIDRe ac) (EvBadFor ac)) 0 (e_for e),
      check (\<not> evidence_kind_valid (e_kind e)) (EvBadKind (e_kind e)),
      check (\<not> verdict_valid (e_verdict e)) (EvBadVerdict (e_verdict e)),
      check (\<not> source_valid (ep_source (e_provenance e))) (EvBadSource (ep_source (e_provenance e))),
      check (\<not> rx_match commitRe (ep_commit (e_provenance e))) (EvBadCommit (ep_commit (e_provenance e))),
      check (\<not> rx_match sha256Re (e_digest e)) (EvBadDigest (e_digest e))]"

section \<open>The latest record per group\<close>

definition compare_ordinal :: "string \<Rightarrow> string \<Rightarrow> int" where
  "compare_ordinal a b =
     (if a = b then 0
      else
        (case (atoi a, atoi b) of
           (Some ai, Some bi) \<Rightarrow> (if ai < bi then -1 else if bi < ai then 1 else 0)
         | _ \<Rightarrow> if a < b then -1 else 1))"

definition later_provenance :: "evidence_provenance \<Rightarrow> evidence_provenance \<Rightarrow> bool" where
  "later_provenance a b =
     (let c = compare_ordinal (ep_pipeline a) (ep_pipeline b) in
      if c \<noteq> 0 then c < 0 else compare_ordinal (ep_job a) (ep_job b) < 0)"

definition group_key :: "evidence \<Rightarrow> string" where
  "group_key r =
     (if e_producer r \<noteq> '''' then evidence_kind_string (e_kind r) @ CHR 0x00 # ''p:'' @ e_producer r
      else evidence_kind_string (e_kind r) @ CHR 0x00 # ''w:'' @ e_witness r)"

definition current_step :: "evidence list \<Rightarrow> evidence \<Rightarrow> evidence list" where
  "current_step slots r =
     (if group_key r \<notin> set (map group_key slots) then slots @ [r]
      else map (\<lambda>c. if group_key c = group_key r \<and> later_provenance (e_provenance c) (e_provenance r)
                     then r else c) slots)"

definition current :: "evidence list \<Rightarrow> evidence list" where
  "current rs = foldl current_step [] rs"

definition records_for_ac :: "evidence list \<Rightarrow> string \<Rightarrow> evidence list" where
  "records_for_ac rs ac = filter (\<lambda>r. ac \<in> set (e_for r)) rs"

section \<open>The authoritative-source filter\<close>

fun dangling :: "string list \<Rightarrow> evidence list \<Rightarrow> (evidence \<times> string) option" where
  "dangling acs [] = None"
| "dangling acs (r # rs) =
     (case find (\<lambda>ac. ac \<notin> set acs) (e_for r) of
        Some ac \<Rightarrow> Some (r, ac)
      | None \<Rightarrow> dangling acs rs)"

definition keeps_source :: "bool \<Rightarrow> evidence \<Rightarrow> bool" where
  "keeps_source preview r =
     (e_quarantine r = None
      \<and> (case ep_source (e_provenance r) of
           SourceCI \<Rightarrow> True | SourceLocal \<Rightarrow> preview | SourceUnknown s \<Rightarrow> False))"

definition filter_candidates ::
  "evidence list \<Rightarrow> bool \<Rightarrow> string list \<Rightarrow> (evidence \<Rightarrow> string \<Rightarrow> 'e) \<Rightarrow> 'e + evidence list" where
  "filter_candidates records preview acs err =
     (let candidates = filter (keeps_source preview) records in
      case dangling acs candidates of
        Some (r, ac) \<Rightarrow> Inl (err r ac)
      | None \<Rightarrow> Inr candidates)"

section \<open>Statuses\<close>

datatype status =
  StatusWaived | StatusViolated | StatusEvidenced | StatusPending | StatusNoSignal | StatusUnknown string

fun rank :: "status \<Rightarrow> int" where
  "rank StatusWaived = 0"
| "rank StatusViolated = 1"
| "rank StatusEvidenced = 2"
| "rank StatusPending = 3"
| "rank StatusNoSignal = 4"
| "rank (StatusUnknown s) = -1"

section \<open>The reduction, abstractly\<close>

locale latest_reduction =
  fixes key :: "'a \<Rightarrow> 'k"
    and later :: "'a \<Rightarrow> 'a \<Rightarrow> bool"
    and reduce :: "'a list \<Rightarrow> 'a list"
  assumes reduce_empty: "reduce [] = []"
    and reduce_snoc: "reduce (xs @ [x]) =
      (if key x \<notin> key ` set (reduce xs) then reduce xs @ [x]
       else map (\<lambda>c. if key c = key x \<and> later c x then x else c) (reduce xs))"
begin

lemma map_key_update: "map key (map (\<lambda>c. if key c = key x \<and> later c x then x else c) cs) = map key cs"
  by (induction cs) auto

lemma reduce_keys: "map key (reduce xs) = rev (remdups (rev (map key xs)))"
proof (induction xs rule: rev_induct)
  case (snoc x xs)
  have s: "key ` set (reduce xs) = key ` set xs"
    using arg_cong[OF snoc.IH, of set] by simp
  show ?case
  proof (cases "key x \<in> key ` set xs")
    case True
    then have "map key (reduce (xs @ [x])) = map key (reduce xs)"
      by (simp add: reduce_snoc s del: map_map) (rule map_key_update)
    with snoc.IH True show ?thesis by (simp add: image_iff)
  next
    case False
    with snoc.IH s show ?thesis by (simp add: reduce_snoc)
  qed
qed (simp add: reduce_empty)

lemma reduce_key_set: "key ` set (reduce xs) = key ` set xs"
  using arg_cong[OF reduce_keys, of set] by simp

lemma reduce_distinct: "distinct (map key (reduce xs))"
  by (simp add: reduce_keys)

lemma reduce_subset: "set (reduce xs) \<subseteq> set xs"
  by (induction xs rule: rev_induct) (auto simp: reduce_empty reduce_snoc split: if_splits)

text \<open>An entry that is later than every other of its key is the one kept, whether or not
  \<open>later\<close> is transitive.\<close>

lemma reduce_dominant:
  assumes "\<And>y. y \<in> set xs \<Longrightarrow> key y = key x \<Longrightarrow> y \<noteq> x \<Longrightarrow> later y x \<and> \<not> later x y"
    and "x \<in> set xs" "c \<in> set (reduce xs)" "key c = key x"
  shows "c = x"
  using assms
proof (induction xs arbitrary: c rule: rev_induct)
  case (snoc y ys)
  have IH: "d = x" if "x \<in> set ys" "d \<in> set (reduce ys)" "key d = key x" for d
    using snoc.IH[OF _ that] snoc.prems(1) by simp
  show ?case
  proof (cases "key y \<in> key ` set (reduce ys)")
    case False
    then have r: "reduce (ys @ [y]) = reduce ys @ [y]" by (simp add: reduce_snoc)
    show ?thesis
    proof (cases "x \<in> set ys")
      case True
      then have "key x \<in> key ` set (reduce ys)" using reduce_key_set by blast
      then show ?thesis using r False IH[OF True] snoc.prems(3,4) by auto
    next
      case x: False
      then show ?thesis using r False snoc.prems(2-4) by (auto simp: image_iff)
    qed
  next
    case True
    then obtain d where d: "d \<in> set (reduce ys)" "c = (if key d = key y \<and> later d y then y else d)"
      using snoc.prems(3) by (auto simp: reduce_snoc)
    then have k: "key d = key x" "d \<in> set ys" using snoc.prems(4) reduce_subset by (auto split: if_splits)
    show ?thesis
    proof (cases "x \<in> set ys")
      case True
      then have "d = x" using IH d(1) k(1) by blast
      then show ?thesis using d(2) snoc.prems(1)[of y] by (auto split: if_splits)
    next
      case False
      then have "x = y" using snoc.prems(2) by simp
      then show ?thesis using d(2) k False snoc.prems(1)[of d] by auto
    qed
  qed
qed simp

end

locale latest_ranked = latest_reduction key later reduce
  for key :: "'a \<Rightarrow> 'k" and later and reduce +
  fixes rank_of :: "'a \<Rightarrow> 'o :: linorder"
    and good :: "'a \<Rightarrow> bool"
  assumes later_iff: "good a \<Longrightarrow> good b \<Longrightarrow> later a b \<longleftrightarrow> rank_of a < rank_of b"
begin

lemma reduce_maximal:
  "\<forall>x \<in> set xs. good x \<Longrightarrow> c \<in> set (reduce xs) \<Longrightarrow> x \<in> set xs \<Longrightarrow> key x = key c \<Longrightarrow> rank_of x \<le> rank_of c"
proof (induction xs arbitrary: c x rule: rev_induct)
  case (snoc y ys)
  have good: "good y" "\<forall>x \<in> set ys. good x" using snoc.prems(1) by auto
  have keys: "key ` set (reduce ys) = key ` set ys" by (rule reduce_key_set)
  show ?case
  proof (cases "key y \<in> key ` set ys")
    case False
    then have r: "reduce (ys @ [y]) = reduce ys @ [y]" by (simp add: reduce_snoc keys)
    show ?thesis
    proof (cases "c = y \<and> c \<notin> set (reduce ys)")
      case True
      with snoc.prems(3,4) False show ?thesis by (auto simp: image_iff)
    next
      case c: False
      then have "c \<in> set (reduce ys)" using snoc.prems(2) r by auto
      moreover from this have "key c \<in> key ` set ys" using keys by blast
      moreover from this have "x \<noteq> y" using snoc.prems(4) False by auto
      ultimately show ?thesis using snoc.IH[OF good(2)] snoc.prems(3,4) by auto
    qed
  next
    case True
    then have r: "reduce (ys @ [y]) =
        map (\<lambda>c. if key c = key y \<and> later c y then y else c) (reduce ys)"
      by (simp add: reduce_snoc keys)
    then obtain d where d: "d \<in> set (reduce ys)" "c = (if key d = key y \<and> later d y then y else d)"
      using snoc.prems(2) by auto
    then have gd: "good d" using good(2) reduce_subset by blast
    have kc: "key c = key d" using d(2) by auto
    have le: "rank_of d \<le> rank_of c" using d(2) later_iff[OF gd good(1)] by auto
    show ?thesis
    proof (cases "x \<in> set ys")
      case True
      then have "rank_of x \<le> rank_of d" using snoc.IH[OF good(2) d(1)] snoc.prems(4) kc by simp
      with le show ?thesis by simp
    next
      case False
      then have "x = y" using snoc.prems(3) by simp
      then have "key d = key y" using snoc.prems(4) kc by simp
      then show ?thesis using d(2) later_iff[OF gd good(1)] \<open>x = y\<close> by auto
    qed
  qed
qed (simp add: reduce_empty)

lemma reduce_order_free:
  assumes "set xs = set ys" "\<forall>x \<in> set xs. good x"
    and "\<forall>x \<in> set xs. \<forall>y \<in> set xs. key x = key y \<longrightarrow> rank_of x = rank_of y \<longrightarrow> x = y"
  shows "set (reduce xs) = set (reduce ys)"
proof -
  have "set (reduce us) \<subseteq> set (reduce vs)"
    if uv: "set us = set xs" "set vs = set xs" for us vs
  proof
    fix c assume c: "c \<in> set (reduce us)"
    then have cu: "c \<in> set us" using reduce_subset by blast
    then have "key c \<in> key ` set (reduce vs)" using uv reduce_key_set[of vs] by blast
    then obtain d where d: "d \<in> set (reduce vs)" "key d = key c" by force
    then have dv: "d \<in> set vs" using reduce_subset by blast
    have "rank_of d \<le> rank_of c" using reduce_maximal[of us c d] c d dv uv assms(2) by auto
    moreover have "rank_of c \<le> rank_of d" using reduce_maximal[of vs d c] cu d uv assms(2) by auto
    ultimately have "c = d" using assms(3) cu dv d(2) uv by auto
    with d(1) show "c \<in> set (reduce vs)" by simp
  qed
  from this[of xs ys] this[of ys xs] assms(1) show ?thesis by blast
qed

end

section \<open>Numeric ids give a rank\<close>

definition ordinal_ok :: "string \<Rightarrow> bool" where
  "ordinal_ok t \<longleftrightarrow> t = '''' \<or> atoi t \<noteq> None"

definition ordinal_value :: "string \<Rightarrow> int option" where
  "ordinal_value t = atoi t"

definition provenance_ok :: "evidence \<Rightarrow> bool" where
  "provenance_ok r \<longleftrightarrow> ordinal_ok (ep_pipeline (e_provenance r)) \<and> ordinal_ok (ep_job (e_provenance r))"

definition provenance_rank :: "evidence \<Rightarrow> int option \<times> int option" where
  "provenance_rank r =
     (ordinal_value (ep_pipeline (e_provenance r)), ordinal_value (ep_job (e_provenance r)))"

lemma atoi_empty [simp]: "atoi [] = None"
  by (simp add: atoi_def)

lemma empty_less_iff: "[] < (s :: string) \<longleftrightarrow> s \<noteq> []" "\<not> (s :: string) < []"
  by (cases s; simp)+

lemma compare_ordinal_sign:
  assumes "ordinal_ok a" "ordinal_ok b"
  shows "compare_ordinal a b < 0 \<longleftrightarrow> ordinal_value a < ordinal_value b"
    and "compare_ordinal a b = 0 \<longleftrightarrow> ordinal_value a = ordinal_value b"
proof -
  have "(compare_ordinal a b < 0 \<longleftrightarrow> ordinal_value a < ordinal_value b)
      \<and> (compare_ordinal a b = 0 \<longleftrightarrow> ordinal_value a = ordinal_value b)"
  proof (cases "a = b")
    case True
    then show ?thesis by (simp add: compare_ordinal_def)
  next
    case ne: False
    show ?thesis
    proof (cases "a = [] \<or> b = []")
      case True
      then show ?thesis
        using ne assms
        by (auto simp: compare_ordinal_def ordinal_value_def ordinal_ok_def empty_less_iff)
    next
      case False
      then obtain x y where "atoi a = Some x" "atoi b = Some y"
        using assms by (auto simp: ordinal_ok_def)
      with ne show ?thesis by (simp add: compare_ordinal_def ordinal_value_def)
    qed
  qed
  then show "compare_ordinal a b < 0 \<longleftrightarrow> ordinal_value a < ordinal_value b"
    and "compare_ordinal a b = 0 \<longleftrightarrow> ordinal_value a = ordinal_value b" by blast+
qed

lemma later_iff_rank:
  "provenance_ok a \<Longrightarrow> provenance_ok b \<Longrightarrow>
     later_provenance (e_provenance a) (e_provenance b) \<longleftrightarrow> provenance_rank a < provenance_rank b"
  by (auto simp: later_provenance_def Let_def provenance_rank_def provenance_ok_def
      compare_ordinal_sign less_prod_def)

lemma later_provenance_asym: "later_provenance a b \<Longrightarrow> \<not> later_provenance b a"
  by (auto simp: later_provenance_def Let_def compare_ordinal_def split: option.splits if_splits)

interpretation cur: latest_reduction group_key
  "\<lambda>a b. later_provenance (e_provenance a) (e_provenance b)" current
  by unfold_locales (simp_all add: current_def current_step_def)

interpretation cur: latest_ranked group_key
  "\<lambda>a b. later_provenance (e_provenance a) (e_provenance b)" current provenance_rank provenance_ok
  by unfold_locales (rule later_iff_rank)

definition sample_record :: "string \<Rightarrow> verdict \<Rightarrow> evidence" where
  "sample_record pipeline v =
     \<lparr>e_schema = evidenceSchema, e_for = [''ac-1''], e_kind = EvidenceStatic, e_verdict = v,
      e_witness = ''w'', e_producer = ''p'',
      e_provenance = \<lparr>ep_source = SourceCI, ep_pipeline = pipeline, ep_job = '''', ep_job_name = '''',
        ep_commit = ''0123abc''\<rparr>,
      e_quarantine = None, e_digest = ''''\<rparr>"

text \<open>The reduction the fold judges on: with numeric (or absent) pipeline and job
  ids, \<open>current\<close> keeps exactly one record per (kind, producer) group, in the order
  the groups were first seen, and no record of the group is later than the one it
  keeps. A retry with a higher (pipeline, job) always wins, pass after fail included.\<close>

theorem current_latest:
  assumes "\<forall>r \<in> set rs. provenance_ok r"
  shows "map group_key (current rs) = rev (remdups (rev (map group_key rs)))
       \<and> set (current rs) \<subseteq> set rs
       \<and> (\<forall>c \<in> set (current rs). \<forall>r \<in> set rs. group_key r = group_key c \<longrightarrow>
            \<not> later_provenance (e_provenance c) (e_provenance r))"
proof (intro conjI ballI impI)
  fix c r assume *: "c \<in> set (current rs)" "r \<in> set rs" "group_key r = group_key c"
  then have "provenance_rank r \<le> provenance_rank c" using cur.reduce_maximal assms by blast
  moreover have "provenance_ok c" "provenance_ok r" using * assms cur.reduce_subset by blast+
  ultimately show "\<not> later_provenance (e_provenance c) (e_provenance r)"
    using later_iff_rank[of c r] by simp
qed (rule cur.reduce_keys cur.reduce_subset)+

theorem current_latest_witness:
  "current [sample_record ''9'' VerdictFail, sample_record ''10'' VerdictPass] =
     [sample_record ''10'' VerdictPass]
   \<and> \<not> later_provenance (e_provenance (sample_record ''10'' VerdictPass))
        (e_provenance (sample_record ''9'' VerdictFail))"
proof -
  let ?rs = "[sample_record ''9'' VerdictFail, sample_record ''10'' VerdictPass]"
  have "\<forall>r \<in> set ?rs. provenance_ok r" by code_simp
  note latest = current_latest[OF this]
  have cur: "current ?rs = [sample_record ''10'' VerdictPass]" by code_simp
  with latest have "group_key (sample_record ''9'' VerdictFail) = group_key (sample_record ''10'' VerdictPass)
      \<longrightarrow> \<not> later_provenance (e_provenance (sample_record ''10'' VerdictPass))
        (e_provenance (sample_record ''9'' VerdictFail))" by simp
  moreover have "group_key (sample_record ''9'' VerdictFail) = group_key (sample_record ''10'' VerdictPass)"
    by (simp add: group_key_def sample_record_def)
  ultimately show ?thesis using cur by simp
qed

text \<open>Order independence: with numeric ids, and when no two different records of a
  group carry the same (pipeline, job), the records \<open>current\<close> keeps do not depend on
  the order, or the repetition, in which the candidate records are presented.\<close>

theorem current_order_independent:
  assumes "set rs = set rs'" "\<forall>r \<in> set rs. provenance_ok r"
    and "\<forall>a \<in> set rs. \<forall>b \<in> set rs. group_key a = group_key b \<longrightarrow>
           provenance_rank a = provenance_rank b \<longrightarrow> a = b"
  shows "set (current rs) = set (current rs')"
  by (rule cur.reduce_order_free[OF assms])

theorem current_order_independent_witness:
  "set (current [sample_record ''9'' VerdictFail, sample_record ''10'' VerdictPass]) =
   set (current [sample_record ''10'' VerdictPass, sample_record ''9'' VerdictFail])"
proof (rule current_order_independent)
  show "\<forall>r \<in> set [sample_record ''9'' VerdictFail, sample_record ''10'' VerdictPass]. provenance_ok r"
    by code_simp
  have "provenance_rank (sample_record ''9'' VerdictFail) \<noteq> provenance_rank (sample_record ''10'' VerdictPass)"
    by code_simp
  then show "\<forall>a \<in> set [sample_record ''9'' VerdictFail, sample_record ''10'' VerdictPass].
      \<forall>b \<in> set [sample_record ''9'' VerdictFail, sample_record ''10'' VerdictPass].
      group_key a = group_key b \<longrightarrow> provenance_rank a = provenance_rank b \<longrightarrow> a = b"
    by auto
qed auto

text \<open>Without numeric ids the reduction is not order independent: \<open>9\<close> precedes \<open>10\<close>
  as a number, \<open>10\<close> precedes \<open>1a\<close> and \<open>1a\<close> precedes \<open>9\<close> as strings, so the
  comparison has a cycle and the surviving verdict of one group depends on the order
  of the records.\<close>

theorem current_mixed_ids_order_dependent:
  "map e_verdict (current
      [sample_record ''9'' VerdictFail, sample_record ''10'' VerdictPass, sample_record ''1a'' VerdictAbstain])
     = [VerdictAbstain]
   \<and> map e_verdict (current
      [sample_record ''10'' VerdictPass, sample_record ''1a'' VerdictAbstain, sample_record ''9'' VerdictFail])
     = [VerdictFail]"
  by code_simp

lemma find_SomeD: "find P xs = Some x \<Longrightarrow> x \<in> set xs \<and> P x"
  by (induction xs) (auto split: if_splits)

lemma dangling_None: "dangling acs rs = None \<Longrightarrow> r \<in> set rs \<Longrightarrow> set (e_for r) \<subseteq> set acs"
  by (induction rs) (auto split: option.splits simp: find_None_iff)

lemma dangling_Some:
  "dangling acs rs = Some (r, ac) \<Longrightarrow> r \<in> set rs \<and> ac \<in> set (e_for r) \<and> ac \<notin> set acs"
  by (induction rs) (auto split: option.splits dest: find_SomeD)

text \<open>The authoritative-source filter: what survives is, in order, exactly the
  records that carry no quarantine annotation and come from CI (or locally, in a
  preview); and a misspelled criterion is never silence: the filter fails exactly
  when a surviving record names a criterion the spec does not declare, and then
  names such a record and criterion.\<close>

theorem filter_candidates_spec:
  "case filter_candidates rs preview acs err of
     Inr cs \<Rightarrow> cs = filter (keeps_source preview) rs \<and> (\<forall>c \<in> set cs. set (e_for c) \<subseteq> set acs)
              \<and> (\<forall>c \<in> set cs. e_quarantine c = None)
   | Inl e \<Rightarrow> \<exists>r ac. e = err r ac \<and> r \<in> set rs \<and> keeps_source preview r \<and> ac \<in> set (e_for r) \<and> ac \<notin> set acs"
proof (cases "dangling acs (filter (keeps_source preview) rs)")
  case None
  have "filter_candidates rs preview acs err = Inr (filter (keeps_source preview) rs)"
    by (simp add: filter_candidates_def None)
  moreover have "\<forall>c \<in> set (filter (keeps_source preview) rs). set (e_for c) \<subseteq> set acs"
    using dangling_None[OF None] by blast
  ultimately show ?thesis by (simp add: keeps_source_def)
next
  case (Some p)
  obtain r ac where p: "p = (r, ac)" by (cases p)
  with Some dangling_Some[of acs "filter (keeps_source preview) rs" r ac] show ?thesis
    by (auto simp: filter_candidates_def)
qed

theorem filter_candidates_spec_witness:
  "filter_candidates [sample_record ''1'' VerdictPass] False [''ac-1''] (\<lambda>r ac. ac)
     = Inr [sample_record ''1'' VerdictPass]
   \<and> set (e_for (sample_record ''1'' VerdictPass)) \<subseteq> set [''ac-1'']"
proof -
  have e: "filter_candidates [sample_record ''1'' VerdictPass] False [''ac-1''] (\<lambda>r ac. ac)
     = Inr [sample_record ''1'' VerdictPass]" by code_simp
  with filter_candidates_spec[where rs = "[sample_record ''1'' VerdictPass]" and preview = False and acs = "[''ac-1'']" and err = "\<lambda>r ac. ac"]
  show ?thesis by simp
qed

end
