(* ===== verification/Obligations.thy ===== *)
theory Obligations
  imports Docs Kinds Evidence
begin

text \<open>
  Evidence obligations: the artifact and its quality union
  (internal/artifact/obligation.go), the assessment of a declared (criterion, kind)
  pair and the match of a candidate record against it
  (internal/evidence/obligationquality.go), and the loaders that read obligations,
  attestations and waivers from the store (obligations.go, attestations.go,
  waivers.go).

  The file system, the YAML decoder and git ancestry are parameters: the fields of
  the record \<open>world\<close>. A path is the slash-separated path under the store root.
  Go iterates a map in no fixed order; where a validator does so, the order is a
  parameter.
\<close>

section \<open>The obligation artifact\<close>

datatype quality_state = QualityUnresolved | QualityElaborated | QualityUnknown string

datatype producer_kind = ProducerTest | ProducerChecker | ProducerHuman | ProducerUnknown string

datatype source_kind = SourceCIJob | SourceGoverned | SourceKindUnknown string

datatype invalidator = InvSpec | InvCode | InvDependency | InvEnvironment | InvPolicy | InvUnknown string

record quality =
  q_state :: quality_state
  q_claim :: string
  q_falsifier :: string
  q_scope :: string
  q_producer_kind :: producer_kind
  q_producer_ref :: string
  q_source_kind :: source_kind
  q_source_ref :: string
  q_invalidated_by :: "invalidator list"
  q_rule :: string

record obligation =
  ob_base :: base
  ob_for_kind :: evidence_kind
  ob_quality :: "quality option"

datatype obligation_error =
    ObBase base_error
  | ObBadForKind evidence_kind
  | ObBadId ref_error
  | ObUnsplittable string
  | ObForKindMismatch string string evidence_kind
  | ObVerifies nat
  | ObFrozen require_error
  | UnresolvedHasMeaning
  | QualityStateUnknown quality_state
  | QualityBlank string
  | QualityNotNormal string
  | QualityBadProducer producer_kind
  | QualityBadSource source_kind
  | QualityNoInvalidator
  | QualityBadInvalidator invalidator
  | QualityDupInvalidator invalidator
  | QualityAttestation
  | QualityNeedsTest evidence_kind
  | QualityNeedsCI evidence_kind
  | UnresolvedKeyPresent string

fun producer_kind_valid :: "producer_kind \<Rightarrow> bool" where
  "producer_kind_valid (ProducerUnknown s) = False"
| "producer_kind_valid k = True"

fun source_kind_valid :: "source_kind \<Rightarrow> bool" where
  "source_kind_valid (SourceKindUnknown s) = False"
| "source_kind_valid k = True"

fun invalidator_valid :: "invalidator \<Rightarrow> bool" where
  "invalidator_valid (InvUnknown s) = False"
| "invalidator_valid k = True"

definition split_obligation_name :: "string \<Rightarrow> (string \<times> string \<times> string) option" where
  "split_obligation_name name =
     (case split_str ''--'' name of [a, b, c] \<Rightarrow> Some (a, b, c) | _ \<Rightarrow> None)"

text \<open>The zero producer and source of the source are the empty kind and reference.\<close>

definition quality_unresolved_check :: "quality \<Rightarrow> obligation_error option" where
  "quality_unresolved_check q =
     check (q_claim q \<noteq> '''' \<or> q_falsifier q \<noteq> '''' \<or> q_scope q \<noteq> ''''
            \<or> \<not> (q_producer_kind q = ProducerUnknown '''' \<and> q_producer_ref q = '''')
            \<or> \<not> (q_source_kind q = SourceKindUnknown '''' \<and> q_source_ref q = '''')
            \<or> q_invalidated_by q \<noteq> [] \<or> q_rule q \<noteq> '''') UnresolvedHasMeaning"

definition quality_fields :: "quality \<Rightarrow> (string \<times> string) list" where
  "quality_fields q =
     [(''claim'', q_claim q), (''falsifier'', q_falsifier q), (''scope'', q_scope q),
      (''producer.ref'', q_producer_ref q), (''authoritative_source.ref'', q_source_ref q),
      (''freshness.rule'', q_rule q)]"

definition field_check :: "string \<times> string \<Rightarrow> obligation_error option" where
  "field_check nv = first_error
     [check (trim_space (snd nv) = '''') (QualityBlank (fst nv)),
      check (trim_space (snd nv) \<noteq> snd nv) (QualityNotNormal (fst nv))]"

definition quality_validate ::
  "((string \<times> string) list \<Rightarrow> (string \<times> string) list) \<Rightarrow> quality \<Rightarrow> evidence_kind \<Rightarrow>
   obligation_error option" where
  "quality_validate iteration q for_kind =
     (case q_state q of
        QualityUnresolved \<Rightarrow> quality_unresolved_check q
      | QualityUnknown s \<Rightarrow> Some (QualityStateUnknown (q_state q))
      | QualityElaborated \<Rightarrow> first_error
          [scan_idx (\<lambda>_ e. e) field_check 0 (iteration (quality_fields q)),
           check (\<not> producer_kind_valid (q_producer_kind q)) (QualityBadProducer (q_producer_kind q)),
           check (\<not> source_kind_valid (q_source_kind q)) (QualityBadSource (q_source_kind q)),
           check (q_invalidated_by q = []) QualityNoInvalidator,
           scan_seen (\<lambda>i. i) (\<lambda>_ e. e) (\<lambda>_. QualityDupInvalidator)
             (\<lambda>i. check (\<not> invalidator_valid i) (QualityBadInvalidator i)) 0 [] (q_invalidated_by q),
           (if for_kind = EvidenceAttestation
            then check (q_producer_kind q \<noteq> ProducerHuman \<or> q_source_kind q \<noteq> SourceGoverned)
                   QualityAttestation
            else first_error
              [check (q_producer_kind q \<noteq> ProducerTest \<and> q_producer_kind q \<noteq> ProducerChecker)
                 (QualityNeedsTest for_kind),
               check (q_source_kind q \<noteq> SourceCIJob) (QualityNeedsCI for_kind)])])"

definition obligation_validate ::
  "((string \<times> string) list \<Rightarrow> (string \<times> string) list) \<Rightarrow> obligation \<Rightarrow> obligation_error option" where
  "obligation_validate iteration fm =
     (case validate_base (ob_base fm) KindObligation of
        Some e \<Rightarrow> Some (ObBase e)
      | None \<Rightarrow>
          if \<not> evidence_kind_valid (ob_for_kind fm) then Some (ObBadForKind (ob_for_kind fm))
          else
            (case parse_ref (b_id (ob_base fm)) of
               Inl e \<Rightarrow> Some (ObBadId e)
             | Inr r \<Rightarrow>
                 (case split_obligation_name (r_name r) of
                    None \<Rightarrow> Some (ObUnsplittable (b_id (ob_base fm)))
                  | Some (story, ac, id_kind) \<Rightarrow> first_error
                      [check (id_kind \<noteq> evidence_kind_string (ob_for_kind fm))
                         (ObForKindMismatch (b_id (ob_base fm)) id_kind (ob_for_kind fm)),
                       (case b_links (ob_base fm) of
                          [l] \<Rightarrow> check (l_type l \<noteq> LinkVerifies) (ObVerifies 1)
                        | ls \<Rightarrow> Some (ObVerifies (length ls))),
                       Option.bind (ob_quality fm)
                         (\<lambda>q. quality_validate iteration q (ob_for_kind fm)),
                       map_option ObFrozen
                         (require_frozen (b_frozen (ob_base fm)) True ''obligation'' '''')])))"

text \<open>\<^verbatim>\<open>yaml.Node\<close> holds a mapping as alternating keys and values.\<close>

fun mapping_pairs :: "ynode list \<Rightarrow> (ynode \<times> ynode) list" where
  "mapping_pairs (k # v # rest) = (k, v) # mapping_pairs rest"
| "mapping_pairs ns = []"

definition validate_union_presence :: "ynode \<Rightarrow> quality option \<Rightarrow> obligation_error option" where
  "validate_union_presence root quality =
     (case quality of
        None \<Rightarrow> None
      | Some q \<Rightarrow>
          if q_state q \<noteq> QualityUnresolved \<or> y_content root = [] then None
          else
            (let doc = hd (y_content root) in
             if y_kind doc \<noteq> MappingNode then None
             else
               (case find (\<lambda>kv. y_value (fst kv) = ''quality'') (mapping_pairs (y_content doc)) of
                  None \<Rightarrow> None
                | Some (k, qn) \<Rightarrow>
                    if y_kind qn \<noteq> MappingNode then None
                    else
                      (case find (\<lambda>kv. y_value (fst kv) \<noteq> ''state'') (mapping_pairs (y_content qn)) of
                         None \<Rightarrow> None
                       | Some (k', v') \<Rightarrow> Some (UnresolvedKeyPresent (y_value k'))))))"

datatype 'p decode_error = DecodeFailed "'p yaml_error" | DecodeInvalid obligation_error

definition decode_obligation ::
  "(string \<Rightarrow> 'p + ynode) \<Rightarrow> (string \<Rightarrow> 'p + obligation) \<Rightarrow>
   ((string \<times> string) list \<Rightarrow> (string \<times> string) list) \<Rightarrow> string \<Rightarrow> 'p decode_error + obligation" where
  "decode_obligation unmarshal known_fields iteration data =
     (case decode_strict_with_root unmarshal known_fields data of
        Inl e \<Rightarrow> Inl (DecodeFailed e)
      | Inr (fm, root) \<Rightarrow>
          (case validate_union_presence root (ob_quality fm) of
             Some e \<Rightarrow> Inl (DecodeInvalid e)
           | None \<Rightarrow>
               (case obligation_validate iteration fm of
                  Some e \<Rightarrow> Inl (DecodeInvalid e)
                | None \<Rightarrow> Inr fm)))"

section \<open>The world the loaders read\<close>

datatype read_result = ReadOk string | ReadMissing | ReadFailed

datatype stat_result = StatFile | StatDir | StatMissing | StatFailed

datatype dir_result = DirOk "(string \<times> bool) list" | DirMissing | DirFailed

datatype ancestry = IsAncestor | NotAncestor | AncestryFailed

record world =
  w_read :: "string \<Rightarrow> read_result"
  w_stat :: "string \<Rightarrow> stat_result"
  w_dir :: "string \<Rightarrow> dir_result"
  w_obligation :: "string \<Rightarrow> (string decode_error) + obligation"
  w_waiver :: "string \<Rightarrow> string + waiver"
  w_git :: "(string \<Rightarrow> string \<Rightarrow> ancestry) option"

datatype load_error =
    ReadError string
  | IsDirectory string
  | SplitError string split_error
  | ObligationDecode string "string decode_error"
  | WaiverDecode string "string + kind_error"
  | PathBinds string "string \<times> string \<times> string"
  | PathForKind string evidence_kind
  | PathVerifies string string
  | PathUnsplittable string
  | PathBadId string ref_error
  | PathUnknownState string
  | EvalCommitRequired
  | NoAncestryReader
  | AncestryError string string
  | Diverges string
  | CodeFreshnessNeedsCommit string
  | SpecFreshnessNeedsCommits string
  | SpecFreshnessNeedsGit string

section \<open>Attestations and waivers\<close>

definition attestation_path :: "string \<Rightarrow> string \<Rightarrow> string" where
  "attestation_path slug ac = ''.verdi/attestations/'' @ slug @ ''/'' @ ac @ ''.md''"

definition waiver_path :: "string \<Rightarrow> string \<Rightarrow> string" where
  "waiver_path slug ac = ''.verdi/waivers/'' @ slug @ ''/'' @ ac @ ''.md''"

definition unauthoredAttestationMarker :: string where
  "unauthoredAttestationMarker = ''<!-- verdi:attestation-unauthored -->''"

definition unauthoredObligationMarker :: string where
  "unauthoredObligationMarker = ''<!-- verdi:obligation-unauthored -->''"

datatype attestation_state = AttestationAbsent | AttestationUnauthored | AttestationAuthored

text \<open>The source numbers the states in this order (\<^verbatim>\<open>iota\<close>).\<close>

fun attestation_ord :: "attestation_state \<Rightarrow> nat" where
  "attestation_ord AttestationAbsent = 0"
| "attestation_ord AttestationUnauthored = 1"
| "attestation_ord AttestationAuthored = 2"

fun attestation_string :: "attestation_state \<Rightarrow> string" where
  "attestation_string AttestationAbsent = ''absent''"
| "attestation_string AttestationUnauthored = ''unauthored''"
| "attestation_string AttestationAuthored = ''authored''"

instantiation attestation_state :: linorder
begin

definition less_eq_attestation_state :: "attestation_state \<Rightarrow> attestation_state \<Rightarrow> bool" where
  "a \<le> b \<longleftrightarrow> attestation_ord a \<le> attestation_ord b"

definition less_attestation_state :: "attestation_state \<Rightarrow> attestation_state \<Rightarrow> bool" where
  "a < b \<longleftrightarrow> attestation_ord a < attestation_ord b"

instance
proof
  fix a b c :: attestation_state
  show "(a < b) = (a \<le> b \<and> \<not> b \<le> a)"
    by (auto simp: less_eq_attestation_state_def less_attestation_state_def)
  show "a \<le> a" by (simp add: less_eq_attestation_state_def)
  show "a \<le> b \<Longrightarrow> b \<le> c \<Longrightarrow> a \<le> c" by (simp add: less_eq_attestation_state_def)
  show "a \<le> b \<Longrightarrow> b \<le> a \<Longrightarrow> a = b"
    by (cases a; cases b; simp add: less_eq_attestation_state_def)
  show "a \<le> b \<or> b \<le> a" by (auto simp: less_eq_attestation_state_def)
qed

end

definition attestation_exists :: "world \<Rightarrow> string \<Rightarrow> string \<Rightarrow> load_error + bool" where
  "attestation_exists w slug ac =
     (let path = attestation_path slug ac in
      case w_stat w path of
        StatMissing \<Rightarrow> Inr False
      | StatFailed \<Rightarrow> Inl (ReadError path)
      | StatDir \<Rightarrow> Inl (IsDirectory path)
      | StatFile \<Rightarrow> Inr True)"

definition load_attestation_state :: "world \<Rightarrow> string \<Rightarrow> string \<Rightarrow> load_error + attestation_state" where
  "load_attestation_state w slug ac =
     (let path = attestation_path slug ac in
      case w_stat w path of
        StatMissing \<Rightarrow> Inr AttestationAbsent
      | StatFailed \<Rightarrow> Inl (ReadError path)
      | StatDir \<Rightarrow> Inl (IsDirectory path)
      | StatFile \<Rightarrow>
          (case w_read w path of
             ReadOk data \<Rightarrow>
               (if contains_str data unauthoredAttestationMarker then Inr AttestationUnauthored
                else Inr AttestationAuthored)
           | _ \<Rightarrow> Inl (ReadError path)))"

definition waiver_active :: "world \<Rightarrow> string \<Rightarrow> string \<Rightarrow> load_error + bool" where
  "waiver_active w slug ac =
     (let path = waiver_path slug ac in
      case w_read w path of
        ReadMissing \<Rightarrow> Inr False
      | ReadFailed \<Rightarrow> Inl (ReadError path)
      | ReadOk data \<Rightarrow>
          (case split_frontmatter data of
             Inl e \<Rightarrow> Inl (SplitError path e)
           | Inr (fm, body) \<Rightarrow>
               (case decode_validated (w_waiver w) waiver_validate fm of
                  Inl e \<Rightarrow> Inl (WaiverDecode path e)
                | Inr wv \<Rightarrow> Inr (w_status wv = ''active''))))"

section \<open>Loading obligations\<close>

definition load_obligation_file :: "world \<Rightarrow> string \<Rightarrow> string \<Rightarrow> load_error + (obligation \<times> string)" where
  "load_obligation_file w path data =
     (case split_frontmatter data of
        Inl e \<Rightarrow> Inl (SplitError path e)
      | Inr (fm, body) \<Rightarrow>
          (case w_obligation w fm of
             Inl e \<Rightarrow> Inl (ObligationDecode path e)
           | Inr ob \<Rightarrow> Inr (ob, body)))"

fun obligations_scan ::
  "world \<Rightarrow> string \<Rightarrow> string \<Rightarrow> (evidence_kind \<rightharpoonup> string \<times> string) \<Rightarrow> (string \<times> bool) list \<Rightarrow>
   load_error + (evidence_kind \<rightharpoonup> string \<times> string)" where
  "obligations_scan w dir ac out [] = Inr out"
| "obligations_scan w dir ac out ((name, is_dir) # es) =
     (if is_dir \<or> \<not> has_prefix name (ac @ ''--'') \<or> \<not> has_suffix name ''.md''
      then obligations_scan w dir ac out es
      else
        (let path = dir @ ''/'' @ name in
         case w_read w path of
           ReadOk data \<Rightarrow>
             (case load_obligation_file w path data of
                Inl e \<Rightarrow> Inl e
              | Inr (ob, body) \<Rightarrow>
                  obligations_scan w dir ac
                    (out(ob_for_kind ob \<mapsto> (b_title (ob_base ob), trim_space body))) es)
         | _ \<Rightarrow> Inl (ReadError path)))"

definition obligations :: "world \<Rightarrow> string \<Rightarrow> string \<Rightarrow> load_error + (evidence_kind \<rightharpoonup> string \<times> string)" where
  "obligations w spec_name ac =
     (let dir = ''.verdi/obligations/'' @ spec_name in
      case w_dir w dir of
        DirMissing \<Rightarrow> Inr Map.empty
      | DirFailed \<Rightarrow> Inl (ReadError dir)
      | DirOk entries \<Rightarrow> obligations_scan w dir ac Map.empty entries)"

definition obligation_kind_at :: "world \<Rightarrow> string \<Rightarrow> load_error + evidence_kind option" where
  "obligation_kind_at w path =
     (case w_read w path of
        ReadMissing \<Rightarrow> Inr None
      | ReadFailed \<Rightarrow> Inl (ReadError path)
      | ReadOk data \<Rightarrow>
          (case load_obligation_file w path data of
             Inl e \<Rightarrow> Inl e
           | Inr (ob, body) \<Rightarrow> Inr (Some (ob_for_kind ob))))"

section \<open>Assessment and matching\<close>

datatype structural_state = ObElaborated | ObUnresolvedDebt | ObLegacyUnelaborated | ObMissing

datatype match_state = ObMatched | ObViolatedWithWitness | ObUnproven

datatype match_reason =
    ReasonNone
  | ReasonProducerMissing
  | ReasonProducerMismatch
  | ReasonSourceMismatch
  | ReasonSourceRefMissing
  | ReasonSourceRefMismatch
  | ReasonFreshnessStale
  | ReasonFreshnessUnproven

datatype evaluation_class = EvaluationHistorical | EvaluationPostAdoption

definition adoptionCommit :: string where
  "adoptionCommit = ''c433f8d1a2ee12cc613b7a9e187c8e0947562a5f''"

definition classify_evaluation :: "world \<Rightarrow> string \<Rightarrow> load_error + evaluation_class" where
  "classify_evaluation w commit =
     (if commit = '''' then Inl EvalCommitRequired
      else if commit = adoptionCommit then Inr EvaluationHistorical
      else
        (case w_git w of
           None \<Rightarrow> Inl NoAncestryReader
         | Some anc \<Rightarrow>
             (case anc commit adoptionCommit of
                AncestryFailed \<Rightarrow> Inl (AncestryError commit adoptionCommit)
              | IsAncestor \<Rightarrow> Inr EvaluationHistorical
              | NotAncestor \<Rightarrow>
                  (case anc adoptionCommit commit of
                     AncestryFailed \<Rightarrow> Inl (AncestryError adoptionCommit commit)
                   | IsAncestor \<Rightarrow> Inr EvaluationPostAdoption
                   | NotAncestor \<Rightarrow> Inl (Diverges commit)))))"

record assessment =
  a_structural :: structural_state
  a_match :: match_state
  a_reason :: match_reason
  a_path :: string
  a_quality :: "quality option"
  a_violating :: "evidence option"

record assess_input =
  i_spec_name :: string
  i_ac :: string
  i_kind :: evidence_kind
  i_record :: "evidence option"
  i_evaluation :: string
  i_landing :: string

definition preserve_violation :: "assessment \<Rightarrow> evidence option \<Rightarrow> assessment" where
  "preserve_violation a rec =
     (case rec of
        Some r \<Rightarrow>
          if e_verdict r = VerdictFail
          then a\<lparr>a_match := ObViolatedWithWitness, a_violating := Some r\<rparr> else a
      | None \<Rightarrow> a)"

fun freshness_scan ::
  "world \<Rightarrow> assess_input \<Rightarrow> evidence \<Rightarrow> invalidator list \<Rightarrow> load_error + match_reason option" where
  "freshness_scan w inp r [] = Inr None"
| "freshness_scan w inp r (i # is) =
     (case i of
        InvCode \<Rightarrow>
          if i_evaluation inp = '''' then Inl (CodeFreshnessNeedsCommit (i_ac inp))
          else if ep_commit (e_provenance r) \<noteq> i_evaluation inp then Inr (Some ReasonFreshnessStale)
          else freshness_scan w inp r is
      | InvSpec \<Rightarrow>
          if i_landing inp = '''' \<or> ep_commit (e_provenance r) = ''''
          then Inl (SpecFreshnessNeedsCommits (i_ac inp))
          else if ep_commit (e_provenance r) = i_landing inp then freshness_scan w inp r is
          else
            (case w_git w of
               None \<Rightarrow> Inl (SpecFreshnessNeedsGit (i_ac inp))
             | Some anc \<Rightarrow>
                 (case anc (i_landing inp) (ep_commit (e_provenance r)) of
                    AncestryFailed \<Rightarrow> Inl (AncestryError (i_landing inp) (ep_commit (e_provenance r)))
                  | NotAncestor \<Rightarrow> Inr (Some ReasonFreshnessStale)
                  | IsAncestor \<Rightarrow> freshness_scan w inp r is))
      | InvDependency \<Rightarrow> Inr (Some ReasonFreshnessUnproven)
      | InvEnvironment \<Rightarrow> Inr (Some ReasonFreshnessUnproven)
      | InvPolicy \<Rightarrow> Inr (Some ReasonFreshnessUnproven)
      | InvUnknown s \<Rightarrow> freshness_scan w inp r is)"

text \<open>\<^verbatim>\<open>matchElaborated\<close> dereferences the quality block: an elaborated assessment has one.\<close>

definition match_elaborated :: "world \<Rightarrow> assess_input \<Rightarrow> assessment \<Rightarrow> load_error + assessment" where
  "match_elaborated w inp a =
     (let q = the (a_quality a); because = (\<lambda>x. Inr (a\<lparr>a_reason := x\<rparr>)) in
      if i_kind inp = EvidenceAttestation then because ReasonSourceRefMissing
      else
        (case i_record inp of
           None \<Rightarrow> because ReasonProducerMissing
         | Some r \<Rightarrow>
             if e_producer r = '''' then because ReasonProducerMissing
             else if e_producer r \<noteq> q_producer_ref q then because ReasonProducerMismatch
             else if ep_source (e_provenance r) \<noteq> SourceCI then because ReasonSourceMismatch
             else if ep_job_name (e_provenance r) = '''' then because ReasonSourceRefMissing
             else if ep_job_name (e_provenance r) \<noteq> q_source_ref q then because ReasonSourceRefMismatch
             else
               (case freshness_scan w inp r (q_invalidated_by q) of
                  Inl e \<Rightarrow> Inl e
                | Inr (Some x) \<Rightarrow> because x
                | Inr None \<Rightarrow> Inr (a\<lparr>a_match := ObMatched\<rparr>))))"

definition match_obligation :: "world \<Rightarrow> assessment \<Rightarrow> assess_input \<Rightarrow> load_error + assessment" where
  "match_obligation w a0 inp =
     (let a = a0\<lparr>a_match := ObUnproven, a_reason := ReasonNone, a_violating := None\<rparr>;
          p = preserve_violation a (i_record inp) in
      if a_match p = ObViolatedWithWitness then Inr p
      else if a_structural a \<noteq> ObElaborated then Inr a
      else match_elaborated w inp a)"

definition structural_of :: "string \<Rightarrow> obligation \<Rightarrow> structural_state option" where
  "structural_of body ob =
     (if contains_str body unauthoredObligationMarker then Some ObUnresolvedDebt
      else
        (case ob_quality ob of
           None \<Rightarrow> Some ObLegacyUnelaborated
         | Some q \<Rightarrow>
             (case q_state q of
                QualityUnresolved \<Rightarrow> Some ObUnresolvedDebt
              | QualityElaborated \<Rightarrow> Some ObElaborated
              | QualityUnknown s \<Rightarrow> None)))"

definition assess_obligation :: "world \<Rightarrow> assess_input \<Rightarrow> load_error + assessment" where
  "assess_obligation w inp =
     (let path = ''.verdi/obligations/'' @ i_spec_name inp @ ''/'' @ i_ac inp @ ''--''
                   @ evidence_kind_string (i_kind inp) @ ''.md'';
          blank = \<lparr>a_structural = ObMissing, a_match = ObUnproven, a_reason = ReasonNone, a_path = path,
                   a_quality = None, a_violating = None\<rparr> in
      case w_read w path of
        ReadMissing \<Rightarrow> Inr (preserve_violation blank (i_record inp))
      | ReadFailed \<Rightarrow> Inl (ReadError path)
      | ReadOk raw \<Rightarrow>
          (case load_obligation_file w path raw of
             Inl e \<Rightarrow> Inl e
           | Inr (ob, body) \<Rightarrow>
               (case parse_ref (b_id (ob_base ob)) of
                  Inl e \<Rightarrow> Inl (PathBadId path e)
                | Inr r \<Rightarrow>
                    (case split_obligation_name (r_name r) of
                       None \<Rightarrow> Inl (PathUnsplittable path)
                     | Some (story, ac, kind) \<Rightarrow>
                         if story \<noteq> i_spec_name inp \<or> ac \<noteq> i_ac inp
                            \<or> kind \<noteq> evidence_kind_string (i_kind inp)
                         then Inl (PathBinds path (story, ac, kind))
                         else if ob_for_kind ob \<noteq> i_kind inp then Inl (PathForKind path (ob_for_kind ob))
                         else if l_ref (hd (b_links (ob_base ob))) \<noteq> ''spec/'' @ i_spec_name inp
                         then Inl (PathVerifies path (l_ref (hd (b_links (ob_base ob)))))
                         else
                           (case structural_of body ob of
                              None \<Rightarrow> Inl (PathUnknownState path)
                            | Some st \<Rightarrow>
                                match_obligation w
                                  (blank\<lparr>a_structural := st, a_quality := ob_quality ob\<rparr>) inp)))))"

section \<open>Obligation names\<close>

fun no_double :: "string \<Rightarrow> bool" where
  "no_double (a # b # s) = (\<not> (a = CHR ''-'' \<and> b = CHR ''-'') \<and> no_double (b # s))"
| "no_double s = True"

lemma no_double_Cons:
  "no_double (a # s) \<longleftrightarrow> no_double s \<and> \<not> (s \<noteq> [] \<and> a = CHR ''-'' \<and> hd s = CHR ''-'')"
  by (cases s) auto

lemma no_double_append:
  "no_double (u @ v) \<longleftrightarrow> no_double u \<and> no_double v
     \<and> \<not> (u \<noteq> [] \<and> v \<noteq> [] \<and> last u = CHR ''-'' \<and> hd v = CHR ''-'')"
  by (induction u) (auto simp: no_double_Cons hd_append)

lemma alnum_not_hyphen: "\<not> in_class [(CHR ''a'', CHR ''z''), (CHR ''0'', CHR ''9'')] CHR ''-''"
  by code_simp

lemma free_no_double: "CHR ''-'' \<notin> set s \<Longrightarrow> no_double s"
  by (induction s rule: no_double.induct) auto

lemma plus_alnum: "u \<in> lang (Plus alnum) \<Longrightarrow> u \<noteq> [] \<and> CHR ''-'' \<notin> set u"
proof -
  assume u: "u \<in> lang (Plus alnum)"
  have "\<not> rx_allows (Plus alnum) CHR ''-''"
    using alnum_not_hyphen by (simp add: Plus_def alnum_def)
  then have "CHR ''-'' \<notin> set u" using u lang_allows by blast
  moreover have "u \<noteq> []" using u by (auto simp: Plus_def alnum_def)
  ultimately show ?thesis by blast
qed

lemma segment_tail:
  "w \<in> star_of {CHR ''-'' # u | u. u \<in> lang (Plus alnum)} \<Longrightarrow>
     no_double w \<and> (w \<noteq> [] \<longrightarrow> hd w = CHR ''-'' \<and> last w \<noteq> CHR ''-'')"
proof (induction rule: star_of.induct)
  case (star_step x v)
  then obtain u where u: "x = CHR ''-'' # u" "u \<noteq> []" "CHR ''-'' \<notin> set u" using plus_alnum by blast
  then have "no_double x" using free_no_double[of u] by (cases u) auto
  moreover have "last x \<noteq> CHR ''-''" using u by (metis last_ConsR last_in_set)
  moreover have "no_double (x @ v)"
    using calculation star_step.IH unfolding no_double_append by blast
  ultimately show ?case using star_step.IH u by (auto simp: last_append)
qed simp

lemma segment_shape:
  assumes "rx_match nameSegment s"
  shows "s \<noteq> [] \<and> no_double s \<and> last s \<noteq> CHR ''-'' \<and> hd s \<noteq> CHR ''-''"
proof -
  have star: "lang (Star (Cat (Chr CHR ''-'') (Plus alnum))) = star_of {CHR ''-'' # u | u. u \<in> lang (Plus alnum)}"
    by simp
  from assms obtain u w where s: "s = u @ w" "u \<in> lang (Plus alnum)"
    "w \<in> star_of {CHR ''-'' # u | u. u \<in> lang (Plus alnum)}"
    unfolding rx_match_lang nameSegment_def lang.simps(5) star by blast
  from plus_alnum[OF s(2)] have u: "u \<noteq> []" "CHR ''-'' \<notin> set u" by auto
  then have "no_double u" "last u \<noteq> CHR ''-''" "hd u \<noteq> CHR ''-''"
    using free_no_double last_in_set hd_in_set by force+
  with u segment_tail[OF s(3)] s(1) show ?thesis by (auto simp: no_double_append last_append)
qed

lemma split_segment:
  assumes "no_double s" "s = [] \<or> last s \<noteq> CHR ''-''"
  shows "split_str ''--'' (s @ ''--'' @ rest) = s # split_str ''--'' rest"
  using assms
proof (induction s)
  case Nil
  then show ?case by (simp add: has_prefix_def)
next
  case (Cons c s)
  have "\<not> has_prefix ((c # s) @ ''--'' @ rest) ''--''"
    using Cons.prems by (cases s) (auto simp: has_prefix_def)
  moreover have "no_double s" "s = [] \<or> last s \<noteq> CHR ''-''"
    using Cons.prems by (cases s; auto)+
  ultimately show ?case using Cons.IH by simp
qed

lemma split_last_segment: "no_double s \<Longrightarrow> split_str ''--'' s = [s]"
proof (induction s)
  case (Cons c s)
  then have "\<not> has_prefix (c # s) ''--''" by (cases s) (auto simp: has_prefix_def)
  moreover have "no_double s" using Cons.prems by (cases s) auto
  ultimately show ?case using Cons.IH by simp
qed simp

text \<open>Obligation names and triples correspond one to one: a name has the
  obligation shape exactly when it splits into three parts that are each a
  kebab-case segment, and the parts joined by double hyphens are the name. No
  segment can swallow a delimiter.\<close>

theorem obligation_name_split:
  "rx_match obligationNameRe name \<longleftrightarrow>
     (\<exists>story ac kind. split_obligation_name name = Some (story, ac, kind)
        \<and> name = story @ ''--'' @ ac @ ''--'' @ kind
        \<and> rx_match nameSegment story \<and> rx_match nameSegment ac \<and> rx_match nameSegment kind)"
  (is "?l \<longleftrightarrow> ?r")
proof
  assume ?l
  then obtain a b c where n: "name = a @ ''--'' @ b @ ''--'' @ c"
    and m: "rx_match nameSegment a" "rx_match nameSegment b" "rx_match nameSegment c"
    unfolding obligationNameRe_def rx_match_Cat rx_match_Lit by blast
  have "split_str ''--'' name = [a, b, c]"
    unfolding n using segment_shape[OF m(1)] segment_shape[OF m(2)] segment_shape[OF m(3)]
    by (simp only: split_segment split_last_segment simp_thms)
  with n m show ?r by (auto simp: split_obligation_name_def)
next
  assume ?r
  then show ?l unfolding obligationNameRe_def rx_match_Cat rx_match_Lit by blast
qed

section \<open>The quality union\<close>

definition sample_quality :: quality where
  "sample_quality =
     \<lparr>q_state = QualityElaborated, q_claim = ''c'', q_falsifier = ''f'', q_scope = ''s'',
      q_producer_kind = ProducerTest, q_producer_ref = ''t'', q_source_kind = SourceCIJob,
      q_source_ref = ''verify'', q_invalidated_by = [InvCode], q_rule = ''r''\<rparr>"

lemma quality_accepts:
  "quality_validate it q k = None \<longleftrightarrow>
     (case q_state q of
        QualityUnresolved \<Rightarrow> quality_unresolved_check q = None
      | QualityUnknown s \<Rightarrow> False
      | QualityElaborated \<Rightarrow>
          (\<forall>nv \<in> set (it (quality_fields q)). field_check nv = None)
          \<and> producer_kind_valid (q_producer_kind q) \<and> source_kind_valid (q_source_kind q)
          \<and> q_invalidated_by q \<noteq> [] \<and> list_all invalidator_valid (q_invalidated_by q)
          \<and> distinct (q_invalidated_by q)
          \<and> (if k = EvidenceAttestation then q_producer_kind q = ProducerHuman \<and> q_source_kind q = SourceGoverned
             else (q_producer_kind q = ProducerTest \<or> q_producer_kind q = ProducerChecker)
               \<and> q_source_kind q = SourceCIJob))"
  by (auto simp: quality_validate_def scan_simps list_all_iff split: quality_state.splits)

text \<open>Go visits the six prose fields of a quality block in an arbitrary order, so
  which of several errors is reported may vary between runs; but whether the block
  is accepted does not depend on that order.\<close>

theorem quality_verdict_order_free:
  assumes "set (it (quality_fields q)) = set (quality_fields q)"
    and "set (it' (quality_fields q)) = set (quality_fields q)"
  shows "quality_validate it q k = None \<longleftrightarrow> quality_validate it' q k = None"
  unfolding quality_accepts by (cases "q_state q") (simp_all add: assms)

theorem quality_verdict_order_free_witness:
  "quality_validate rev sample_quality EvidenceStatic = None
   \<longleftrightarrow> quality_validate (\<lambda>xs. xs) sample_quality EvidenceStatic = None"
  by (rule quality_verdict_order_free) simp_all

section \<open>What a match means\<close>

lemma freshness_None:
  "freshness_scan w inp r is = Inr None \<Longrightarrow>
     (InvCode \<in> set is \<longrightarrow> ep_commit (e_provenance r) = i_evaluation inp \<and> i_evaluation inp \<noteq> '''')
     \<and> (InvSpec \<in> set is \<longrightarrow> ep_commit (e_provenance r) = i_landing inp
          \<or> (\<exists>anc. w_git w = Some anc \<and> anc (i_landing inp) (ep_commit (e_provenance r)) = IsAncestor))
     \<and> InvDependency \<notin> set is \<and> InvEnvironment \<notin> set is \<and> InvPolicy \<notin> set is"
  by (induction "is") (auto split: invalidator.splits if_splits option.splits ancestry.splits)

lemma match_elaborated_matched:
  assumes "match_elaborated w inp a = Inr a'" "a_match a \<noteq> ObMatched" "a_match a' = ObMatched"
  shows "i_kind inp \<noteq> EvidenceAttestation \<and>
    (\<exists>r. i_record inp = Some r \<and> e_producer r = q_producer_ref (the (a_quality a)) \<and> e_producer r \<noteq> ''''
      \<and> ep_source (e_provenance r) = SourceCI
      \<and> ep_job_name (e_provenance r) = q_source_ref (the (a_quality a))
      \<and> freshness_scan w inp r (q_invalidated_by (the (a_quality a))) = Inr None
      \<and> a' = a\<lparr>a_match := ObMatched\<rparr>)"
  using assms by (auto simp: match_elaborated_def Let_def split: if_splits option.splits sum.splits)

lemma match_obligation_matched:
  assumes "match_obligation w a inp = Inr a'" "a_match a' = ObMatched"
  shows "a_structural a = ObElaborated \<and> match_elaborated w inp
      (a\<lparr>a_match := ObUnproven, a_reason := ReasonNone, a_violating := None\<rparr>) = Inr a'
    \<and> (\<forall>r. i_record inp = Some r \<longrightarrow> e_verdict r \<noteq> VerdictFail)"
  using assms
  by (auto simp: match_obligation_def Let_def preserve_violation_def split: if_splits option.splits)

definition sample_world :: world where
  "sample_world =
     \<lparr>w_read = (\<lambda>p. ReadMissing), w_stat = (\<lambda>p. StatMissing), w_dir = (\<lambda>p. DirMissing),
      w_obligation = (\<lambda>s. Inl (DecodeInvalid QualityAttestation)), w_waiver = (\<lambda>s. Inl ''''),
      w_git = Some (\<lambda>a d. NotAncestor)\<rparr>"

definition sample_assessment :: assessment where
  "sample_assessment =
     \<lparr>a_structural = ObElaborated, a_match = ObUnproven, a_reason = ReasonNone, a_path = ''p'',
      a_quality = Some sample_quality, a_violating = None\<rparr>"

definition sample_ci_record :: evidence where
  "sample_ci_record = (sample_record ''7'' VerdictPass)
     \<lparr>e_producer := ''t'',
      e_provenance := \<lparr>ep_source = SourceCI, ep_pipeline = ''7'', ep_job = '''', ep_job_name = ''verify'',
        ep_commit = ''0123abc''\<rparr>\<rparr>"

definition sample_input :: "evidence option \<Rightarrow> assess_input" where
  "sample_input r =
     \<lparr>i_spec_name = ''pay'', i_ac = ''ac-1'', i_kind = EvidenceStatic, i_record = r,
      i_evaluation = ''0123abc'', i_landing = ''0123abc''\<rparr>"

text \<open>C32. A match is never inferred: an obligation is matched only when it is
  elaborated, the kind is not an attestation, and a record that did not fail comes
  from CI, names exactly the declared producer and CI job, and is fresh in every
  declared dimension (the exact evaluated commit for code; the spec landing or a
  descendant for spec; and no dimension the record cannot prove).\<close>

theorem match_obligation_sound:
  assumes "match_obligation w a inp = Inr a'" "a_match a' = ObMatched"
  shows "a_structural a = ObElaborated \<and> i_kind inp \<noteq> EvidenceAttestation \<and>
    (\<exists>r q. i_record inp = Some r \<and> q = the (a_quality a) \<and> e_verdict r \<noteq> VerdictFail
      \<and> ep_source (e_provenance r) = SourceCI
      \<and> e_producer r = q_producer_ref q \<and> ep_job_name (e_provenance r) = q_source_ref q
      \<and> (InvCode \<in> set (q_invalidated_by q) \<longrightarrow> ep_commit (e_provenance r) = i_evaluation inp)
      \<and> (InvSpec \<in> set (q_invalidated_by q) \<longrightarrow> ep_commit (e_provenance r) = i_landing inp
           \<or> (\<exists>anc. w_git w = Some anc \<and> anc (i_landing inp) (ep_commit (e_provenance r)) = IsAncestor))
      \<and> set (q_invalidated_by q) \<inter> {InvDependency, InvEnvironment, InvPolicy} = {})"
proof -
  let ?a = "a\<lparr>a_match := ObUnproven, a_reason := ReasonNone, a_violating := None\<rparr>"
  from match_obligation_matched[OF assms] have m: "a_structural a = ObElaborated"
    "match_elaborated w inp ?a = Inr a'" "\<forall>r. i_record inp = Some r \<longrightarrow> e_verdict r \<noteq> VerdictFail" by auto
  from match_elaborated_matched[OF m(2) _ assms(2)] obtain r where r: "i_kind inp \<noteq> EvidenceAttestation"
    "i_record inp = Some r" "e_producer r = q_producer_ref (the (a_quality a))"
    "ep_source (e_provenance r) = SourceCI" "ep_job_name (e_provenance r) = q_source_ref (the (a_quality a))"
    "freshness_scan w inp r (q_invalidated_by (the (a_quality a))) = Inr None" by auto
  from freshness_None[OF r(6)] r m show ?thesis by blast
qed

theorem match_obligation_sound_witness:
  "\<exists>a'. match_obligation sample_world sample_assessment (sample_input (Some sample_ci_record)) = Inr a'
     \<and> a_match a' = ObMatched \<and> i_kind (sample_input (Some sample_ci_record)) \<noteq> EvidenceAttestation"
proof -
  let ?a = "sample_assessment\<lparr>a_match := ObMatched\<rparr>"
  have m: "match_obligation sample_world sample_assessment (sample_input (Some sample_ci_record)) = Inr ?a"
    by (simp add: match_obligation_def preserve_violation_def match_elaborated_def sample_assessment_def
        sample_input_def sample_ci_record_def sample_record_def sample_quality_def)
  moreover have "a_match ?a = ObMatched" by simp
  ultimately show ?thesis using match_obligation_sound[OF m] by auto
qed

lemma match_obligation_violated:
  assumes "match_obligation w a inp = Inr a'"
  shows "a_match a' = ObViolatedWithWitness \<longleftrightarrow> (\<exists>r. i_record inp = Some r \<and> e_verdict r = VerdictFail)"
    and "i_record inp = Some r \<Longrightarrow> e_verdict r = VerdictFail \<Longrightarrow> a_violating a' = Some r"
  using assms
  by (auto simp: match_obligation_def match_elaborated_def preserve_violation_def Let_def
      split: if_splits option.splits sum.splits)

lemma match_obligation_fails:
  "i_record inp = Some r \<Longrightarrow> e_verdict r = VerdictFail \<Longrightarrow>
     match_obligation w a inp = Inr (a\<lparr>a_match := ObViolatedWithWitness, a_reason := ReasonNone,
       a_violating := Some r\<rparr>)"
  by (simp add: match_obligation_def preserve_violation_def)

text \<open>Design debt never hides negative evidence: whatever the state of the
  obligation (missing, unresolved, legacy or elaborated), an assessment that loads
  is violated with a witness exactly when the candidate record failed, and the
  witness is that record.\<close>

theorem assess_preserves_violation:
  assumes "assess_obligation w inp = Inr a"
  shows "(a_match a = ObViolatedWithWitness \<longleftrightarrow> (\<exists>r. i_record inp = Some r \<and> e_verdict r = VerdictFail))
       \<and> (\<forall>r. i_record inp = Some r \<longrightarrow> e_verdict r = VerdictFail \<longrightarrow> a_violating a = Some r)"
proof -
  consider (missing) b where "a = preserve_violation b (i_record inp)" "a_match b = ObUnproven"
    | (matched) b where "match_obligation w b inp = Inr a"
    using assms
    by (auto simp: assess_obligation_def Let_def split: read_result.splits sum.splits option.splits if_splits)
  then show ?thesis
  proof cases
    case missing
    then show ?thesis by (auto simp: preserve_violation_def split: option.splits)
  next
    case matched
    then show ?thesis using match_obligation_violated by blast
  qed
qed

theorem assess_preserves_violation_witness:
  "\<exists>a. assess_obligation sample_world (sample_input (Some (sample_record ''1'' VerdictFail))) = Inr a
     \<and> a_violating a = Some (sample_record ''1'' VerdictFail)"
proof -
  let ?inp = "sample_input (Some (sample_record ''1'' VerdictFail))"
  obtain a where a: "assess_obligation sample_world ?inp = Inr a"
    by (simp add: assess_obligation_def sample_world_def)
  from assess_preserves_violation[OF a] a show ?thesis
    by (auto simp: sample_input_def sample_record_def)
qed

end
