(* ===== verification/Fold.thy ===== *)
theory Fold
  imports Obligations
begin

text \<open>
  The evidence fold, internal/evidence/fold.go: for one spec, every acceptance
  criterion is reduced to a status from its current records, its waiver, its
  attestation and its obligations, and the criteria are reduced to the story's
  violated and eligible verdicts. The obligation enforcement of \<^verbatim>\<open>foldAC\<close> is split
  into the steps the source takes in order: the enforcement decision, the
  historical-pass scan and the candidate match scan.
\<close>

section \<open>Per-kind reductions\<close>

definition first_failing_of_kind :: "evidence list \<Rightarrow> evidence_kind \<Rightarrow> evidence option" where
  "first_failing_of_kind cur kind =
     find (\<lambda>r. e_kind r = kind \<and> e_verdict r = VerdictFail) cur"

definition first_failing :: "evidence list \<Rightarrow> evidence option" where
  "first_failing cur = find (\<lambda>r. e_verdict r = VerdictFail) cur"

definition kind_status :: "evidence_kind \<Rightarrow> evidence list \<Rightarrow> bool \<Rightarrow> bool \<times> bool" where
  "kind_status kind cur attested =
     (if kind = EvidenceAttestation then (attested, attested)
      else (list_ex (\<lambda>r. e_kind r = kind \<and> e_verdict r = VerdictPass) cur,
            list_ex (\<lambda>r. e_kind r = kind) cur))"

definition declares_kind :: "acceptance_criterion \<Rightarrow> evidence_kind \<Rightarrow> bool" where
  "declares_kind ac kind \<longleftrightarrow> kind \<in> set (ac_evidence ac)"

definition summarize_kind :: "evidence_kind \<Rightarrow> evidence list \<Rightarrow> bool \<Rightarrow> string" where
  "summarize_kind kind cur attested =
     (if kind = EvidenceAttestation then (if attested then ''present'' else ''absent'')
      else
        (let saw = (\<lambda>v. list_ex (\<lambda>r. e_kind r = kind \<and> e_verdict r = v) cur) in
         if saw VerdictFail then ''fail''
         else if saw VerdictPass then ''pass''
         else if saw VerdictAbstain then ''abstain''
         else if kind = EvidenceRuntime then ''awaited''
         else ''none''))"

fun structural_string :: "structural_state \<Rightarrow> string" where
  "structural_string ObElaborated = ''elaborated''"
| "structural_string ObUnresolvedDebt = ''unresolved-design-debt''"
| "structural_string ObLegacyUnelaborated = ''legacy-unelaborated''"
| "structural_string ObMissing = ''missing''"

fun reason_string :: "match_reason \<Rightarrow> string" where
  "reason_string ReasonNone = ''''"
| "reason_string ReasonProducerMissing = ''producer-missing''"
| "reason_string ReasonProducerMismatch = ''producer-mismatch''"
| "reason_string ReasonSourceMismatch = ''source-mismatch''"
| "reason_string ReasonSourceRefMissing = ''source-ref-missing''"
| "reason_string ReasonSourceRefMismatch = ''source-ref-mismatch''"
| "reason_string ReasonFreshnessStale = ''freshness-stale''"
| "reason_string ReasonFreshnessUnproven = ''freshness-unproven''"

section \<open>One criterion\<close>

record kind_result =
  kr_kind :: evidence_kind
  kr_satisfied :: bool
  kr_attestation :: attestation_state
  kr_violating :: "evidence option"
  kr_structural :: structural_state
  kr_match :: match_state
  kr_reason :: match_reason
  kr_path :: string

record fold_input =
  fi_spec :: "spec option"
  fi_records :: "evidence list"
  fi_preview :: bool
  fi_slug :: string
  fi_evaluation :: string
  fi_landing :: string

definition enforcement :: "world \<Rightarrow> string \<Rightarrow> structural_state \<Rightarrow> load_error + (bool \<times> bool)" where
  "enforcement w evaluation st =
     (case st of
        ObLegacyUnelaborated \<Rightarrow>
          if evaluation = '''' then Inr (False, False)
          else
            (case classify_evaluation w evaluation of
               Inl e \<Rightarrow> Inl e
             | Inr c \<Rightarrow> Inr (c = EvaluationPostAdoption, c = EvaluationHistorical))
      | ObMissing \<Rightarrow> Inr (evaluation \<noteq> '''', False)
      | ObElaborated \<Rightarrow> Inr (True, False)
      | ObUnresolvedDebt \<Rightarrow> Inr (True, False))"

fun historical_pass :: "world \<Rightarrow> evidence_kind \<Rightarrow> evidence list \<Rightarrow> load_error + bool" where
  "historical_pass w kind [] = Inr False"
| "historical_pass w kind (r # rs) =
     (if e_kind r \<noteq> kind \<or> e_verdict r \<noteq> VerdictPass then historical_pass w kind rs
      else
        (case classify_evaluation w (ep_commit (e_provenance r)) of
           Inl e \<Rightarrow> Inl e
         | Inr c \<Rightarrow>
             (case historical_pass w kind rs of
                Inl e \<Rightarrow> Inl e
              | Inr h \<Rightarrow> Inr (c = EvaluationHistorical \<or> h))))"

definition enforce_kind ::
  "world \<Rightarrow> string \<Rightarrow> structural_state \<Rightarrow> bool \<Rightarrow> evidence_kind \<Rightarrow> evidence list \<Rightarrow> load_error + bool" where
  "enforce_kind w evaluation st incumbent kind cur =
     (case enforcement w evaluation st of
        Inl e \<Rightarrow> Inl e
      | Inr (enforce, legacy) \<Rightarrow>
          if legacy \<and> incumbent \<and> kind \<noteq> EvidenceAttestation then
            (case historical_pass w kind cur of
               Inl e \<Rightarrow> Inl e
             | Inr h \<Rightarrow> Inr (if h then enforce else True))
          else Inr enforce)"

fun match_scan ::
  "world \<Rightarrow> assessment \<Rightarrow> assess_input \<Rightarrow> assessment \<Rightarrow> bool \<Rightarrow> evidence list \<Rightarrow>
   load_error + (assessment \<times> bool)" where
  "match_scan w a inp selected matched [] = Inr (selected, matched)"
| "match_scan w a inp selected matched (r # rs) =
     (if e_kind r \<noteq> i_kind inp then match_scan w a inp selected matched rs
      else
        (case match_obligation w a (inp\<lparr>i_record := Some r\<rparr>) of
           Inl e \<Rightarrow> Inl e
         | Inr c \<Rightarrow>
             if a_match c = ObViolatedWithWitness then Inr (c, matched)
             else if a_match c = ObMatched \<and> e_verdict r = VerdictPass
             then match_scan w a inp c True rs
             else match_scan w a inp (if a_reason selected = ReasonProducerMissing then c else selected)
                    matched rs))"

definition select_candidate ::
  "world \<Rightarrow> assessment \<Rightarrow> assess_input \<Rightarrow> bool \<Rightarrow> evidence list \<Rightarrow> load_error + (assessment \<times> bool)" where
  "select_candidate w a inp enforce cur =
     (if enforce then
        (case match_obligation w a inp of
           Inl e \<Rightarrow> Inl e
         | Inr sel \<Rightarrow> match_scan w a inp sel False cur)
      else Inr (a, False))"

definition kind_row ::
  "evidence_kind \<Rightarrow> bool \<Rightarrow> attestation_state \<Rightarrow> evidence list \<Rightarrow> assessment \<Rightarrow> kind_result" where
  "kind_row kind satisfied att cur selected =
     \<lparr>kr_kind = kind, kr_satisfied = satisfied,
      kr_attestation = (if kind = EvidenceAttestation then att else AttestationAbsent),
      kr_violating = (if kind = EvidenceAttestation then None else first_failing_of_kind cur kind),
      kr_structural = a_structural selected, kr_match = a_match selected,
      kr_reason = a_reason selected, kr_path = a_path selected\<rparr>"

definition pair_input :: "string \<Rightarrow> string \<Rightarrow> evidence_kind \<Rightarrow> string \<Rightarrow> string \<Rightarrow> assess_input" where
  "pair_input spec_name ac kind evaluation landing =
     \<lparr>i_spec_name = spec_name, i_ac = ac, i_kind = kind, i_record = None,
      i_evaluation = evaluation, i_landing = landing\<rparr>"

definition fold_kind ::
  "world \<Rightarrow> fold_input \<Rightarrow> string \<Rightarrow> string \<Rightarrow> evidence list \<Rightarrow> attestation_state \<Rightarrow> evidence_kind \<Rightarrow>
   load_error + (kind_result \<times> bool \<times> bool)" where
  "fold_kind w inp spec_name ac cur att kind =
     (let (incumbent, has_records) = kind_status kind cur (att = AttestationAuthored) in
      case assess_obligation w (pair_input spec_name ac kind '''' '''') of
        Inl e \<Rightarrow> Inl e
      | Inr a \<Rightarrow>
          (case enforce_kind w (fi_evaluation inp) (a_structural a) incumbent kind cur of
             Inl e \<Rightarrow> Inl e
           | Inr enforce \<Rightarrow>
               (case select_candidate w a
                       (pair_input spec_name ac kind (fi_evaluation inp) (fi_landing inp)) enforce cur of
                  Inl e \<Rightarrow> Inl e
                | Inr (selected, matched) \<Rightarrow>
                    (let satisfied =
                       (if enforce then a_structural a = ObElaborated \<and> matched else incumbent)
                     in Inr (kind_row kind satisfied att cur selected, enforce \<and> \<not> satisfied,
                             has_records \<or> kind = EvidenceRuntime \<or> (enforce \<and> \<not> satisfied))))))"

fun fold_kinds ::
  "world \<Rightarrow> fold_input \<Rightarrow> string \<Rightarrow> string \<Rightarrow> evidence list \<Rightarrow> attestation_state \<Rightarrow> evidence_kind list \<Rightarrow>
   load_error + (kind_result \<times> bool \<times> bool) list" where
  "fold_kinds w inp spec_name ac cur att [] = Inr []"
| "fold_kinds w inp spec_name ac cur att (k # ks) =
     (case fold_kind w inp spec_name ac cur att k of
        Inl e \<Rightarrow> Inl e
      | Inr r \<Rightarrow>
          (case fold_kinds w inp spec_name ac cur att ks of
             Inl e \<Rightarrow> Inl e
           | Inr rs \<Rightarrow> Inr (r # rs)))"

definition fold_ac ::
  "world \<Rightarrow> fold_input \<Rightarrow> string \<Rightarrow> acceptance_criterion \<Rightarrow> evidence list \<Rightarrow> bool \<Rightarrow> attestation_state \<Rightarrow>
   load_error + (status \<times> kind_result list \<times> bool list)" where
  "fold_ac w inp spec_name ac cur waived att =
     (case fold_kinds w inp spec_name (ac_id ac) cur att (ac_evidence ac) of
        Inl e \<Rightarrow> Inl e
      | Inr rs \<Rightarrow>
          (let status =
             (if waived then StatusWaived
              else if list_ex (\<lambda>r. e_verdict r = VerdictFail) cur then StatusViolated
              else if list_all (\<lambda>(kr, blocking, signal). kr_satisfied kr) rs then StatusEvidenced
              else if list_ex (\<lambda>(kr, blocking, signal). signal) rs then StatusPending
              else StatusNoSignal)
           in Inr (status, map fst rs, map (fst \<circ> snd) rs)))"

fun summarize_parts ::
  "evidence_kind list \<Rightarrow> evidence list \<Rightarrow> bool \<Rightarrow> kind_result list \<Rightarrow> bool list \<Rightarrow> string list" where
  "summarize_parts [] cur attested krs bs = []"
| "summarize_parts (k # ks) cur attested krs bs =
     (let incumbent = summarize_kind k cur attested;
          part =
            (if incumbent = ''fail'' then incumbent
             else
               (case (krs, bs) of
                  (kr # _, True # _) \<Rightarrow>
                    ''pending(obligation-quality:'' @ structural_string (kr_structural kr)
                      @ (if kr_reason kr \<noteq> ReasonNone then ''/'' @ reason_string (kr_reason kr) else '''')
                      @ '')''
                | _ \<Rightarrow> incumbent))
      in (evidence_kind_string k @ '':'' @ part) # summarize_parts ks cur attested (tl krs) (tl bs))"

definition summarize ::
  "acceptance_criterion \<Rightarrow> evidence list \<Rightarrow> bool \<Rightarrow> kind_result list \<Rightarrow> bool list \<Rightarrow> string" where
  "summarize ac cur attested krs bs =
     join_with ''; '' (summarize_parts (ac_evidence ac) cur attested krs bs)"

section \<open>One story\<close>

record ac_result =
  ar_id :: string
  ar_text :: string
  ar_status :: status
  ar_summary :: string
  ar_kinds :: "kind_result list"

record story_result =
  sr_story :: string
  sr_ref :: string
  sr_acs :: "ac_result list"
  sr_violated :: bool
  sr_eligible :: bool

datatype fold_error =
    SpecRequired
  | NoCriteria string
  | InvalidSpecId string ref_error
  | DanglingBinding evidence string
  | FoldLoad load_error

definition fold_criterion ::
  "world \<Rightarrow> fold_input \<Rightarrow> string \<Rightarrow> evidence list \<Rightarrow> acceptance_criterion \<Rightarrow> fold_error + ac_result" where
  "fold_criterion w inp spec_name candidates ac =
     (let cur = current (records_for_ac candidates (ac_id ac)) in
      case waiver_active w (fi_slug inp) (ac_id ac) of
        Inl e \<Rightarrow> Inl (FoldLoad e)
      | Inr waived \<Rightarrow>
          (case (if declares_kind ac EvidenceAttestation
                 then load_attestation_state w (fi_slug inp) (ac_id ac)
                 else Inr AttestationAbsent) of
             Inl e \<Rightarrow> Inl (FoldLoad e)
           | Inr att \<Rightarrow>
               (case fold_ac w inp spec_name ac cur waived att of
                  Inl e \<Rightarrow> Inl (FoldLoad e)
                | Inr (status, kinds, blocking) \<Rightarrow>
                    Inr \<lparr>ar_id = ac_id ac, ar_text = ac_text ac, ar_status = status,
                         ar_summary = summarize ac cur (att = AttestationAuthored) kinds blocking,
                         ar_kinds = kinds\<rparr>)))"

fun fold_criteria ::
  "world \<Rightarrow> fold_input \<Rightarrow> string \<Rightarrow> evidence list \<Rightarrow> acceptance_criterion list \<Rightarrow>
   fold_error + ac_result list" where
  "fold_criteria w inp spec_name candidates [] = Inr []"
| "fold_criteria w inp spec_name candidates (ac # acs) =
     (case fold_criterion w inp spec_name candidates ac of
        Inl e \<Rightarrow> Inl e
      | Inr r \<Rightarrow>
          (case fold_criteria w inp spec_name candidates acs of
             Inl e \<Rightarrow> Inl e
           | Inr rs \<Rightarrow> Inr (r # rs)))"

definition fold_story :: "world \<Rightarrow> fold_input \<Rightarrow> fold_error + story_result" where
  "fold_story w inp =
     (case fi_spec inp of
        None \<Rightarrow> Inl SpecRequired
      | Some sp \<Rightarrow>
          if s_criteria sp = [] then Inl (NoCriteria (b_id (s_base sp)))
          else
            (case parse_ref (b_id (s_base sp)) of
               Inl e \<Rightarrow> Inl (InvalidSpecId (b_id (s_base sp)) e)
             | Inr r \<Rightarrow>
                 (case filter_candidates (fi_records inp) (fi_preview inp) (map ac_id (s_criteria sp))
                         DanglingBinding of
                    Inl e \<Rightarrow> Inl e
                  | Inr candidates \<Rightarrow>
                      (case fold_criteria w inp (r_name r) candidates (s_criteria sp) of
                         Inl e \<Rightarrow> Inl e
                       | Inr acs \<Rightarrow>
                           Inr \<lparr>sr_story = s_story sp, sr_ref = b_id (s_base sp), sr_acs = acs,
                                sr_violated = list_ex (\<lambda>a. ar_status a = StatusViolated) acs,
                                sr_eligible =
                                  list_all (\<lambda>a. ar_status a = StatusEvidenced \<or> ar_status a = StatusWaived)
                                    acs\<rparr>))))"

section \<open>One kind\<close>

lemma match_scan_matched:
  "match_scan w a inp sel m rs = Inr (s', True) \<Longrightarrow>
     m \<or> (\<exists>r \<in> set rs. e_kind r = i_kind inp \<and> e_verdict r = VerdictPass
            \<and> (\<exists>c. match_obligation w a (inp\<lparr>i_record := Some r\<rparr>) = Inr c \<and> a_match c = ObMatched))"
proof (induction rs arbitrary: sel m)
  case (Cons r rs)
  show ?case
  proof (cases "e_kind r = i_kind inp")
    case False
    with Cons show ?thesis by fastforce
  next
    case True
    with Cons.prems obtain c where c: "match_obligation w a (inp\<lparr>i_record := Some r\<rparr>) = Inr c"
      by (auto split: sum.splits)
    show ?thesis
    proof (cases "a_match c = ObMatched \<and> e_verdict r = VerdictPass")
      case True
      with c \<open>e_kind r = i_kind inp\<close> show ?thesis by auto
    next
      case False
      with Cons.prems True c consider "m" | sel' where "match_scan w a inp sel' m rs = Inr (s', True)"
        by (auto split: if_splits)
      then show ?thesis using Cons.IH by cases fastforce+
    qed
  qed
qed simp

lemma match_scan_attestation:
  assumes "match_scan w a inp sel False rs = Inr (s', m)" "i_kind inp = EvidenceAttestation"
  shows "\<not> m"
proof
  assume m
  with match_scan_matched[of w a inp sel False rs s'] assms obtain r c where
    "match_obligation w a (inp\<lparr>i_record := Some r\<rparr>) = Inr c" "a_match c = ObMatched" by auto
  then show False
    using match_obligation_matched match_elaborated_matched[of w "inp\<lparr>i_record := Some r\<rparr>"] assms(2)
    by fastforce
qed

definition kind_proved :: "evidence_kind \<Rightarrow> evidence list \<Rightarrow> attestation_state \<Rightarrow> bool" where
  "kind_proved k cs att \<longleftrightarrow>
     (if k = EvidenceAttestation then att = AttestationAuthored
      else (\<exists>r \<in> set cs. e_kind r = k \<and> e_verdict r = VerdictPass))"

lemma incumbent_proved: "fst (kind_status k cs (att = AttestationAuthored)) = kind_proved k cs att"
  by (auto simp: kind_status_def kind_proved_def list_ex_iff)

lemma fold_kind_parts:
  assumes "fold_kind w inp sn ac cs att k = Inr (kr, b, sg)"
  obtains a enforce sel m where
    "assess_obligation w (pair_input sn ac k '''' '''') = Inr a"
    "enforce_kind w (fi_evaluation inp) (a_structural a)
       (fst (kind_status k cs (att = AttestationAuthored))) k cs = Inr enforce"
    "select_candidate w a (pair_input sn ac k (fi_evaluation inp) (fi_landing inp)) enforce cs = Inr (sel, m)"
    "kr_satisfied kr = (if enforce then a_structural a = ObElaborated \<and> m
       else fst (kind_status k cs (att = AttestationAuthored)))"
    "enforce \<and> \<not> kr_satisfied kr \<Longrightarrow> sg"
proof -
  obtain inc has where ks: "kind_status k cs (att = AttestationAuthored) = (inc, has)" by force
  note def = assms[unfolded fold_kind_def ks Let_def prod.case]
  from def obtain a where a: "assess_obligation w (pair_input sn ac k '''' '''') = Inr a"
    by (cases "assess_obligation w (pair_input sn ac k '''' '''')") simp_all
  from def a obtain enforce where e: "enforce_kind w (fi_evaluation inp) (a_structural a) inc k cs = Inr enforce"
    by (cases "enforce_kind w (fi_evaluation inp) (a_structural a) inc k cs") simp_all
  from def a e obtain sel m where
    sl: "select_candidate w a (pair_input sn ac k (fi_evaluation inp) (fi_landing inp)) enforce cs = Inr (sel, m)"
    by (cases "select_candidate w a (pair_input sn ac k (fi_evaluation inp) (fi_landing inp)) enforce cs") auto
  from def a e sl have r: "kr_satisfied kr = (if enforce then a_structural a = ObElaborated \<and> m else inc)"
    "enforce \<and> \<not> kr_satisfied kr \<longrightarrow> sg"
    by (auto simp: kind_row_def)
  show ?thesis
    by (rule that[OF a _ sl]) (use e r ks in \<open>simp_all split: if_splits\<close>)
qed

lemma fold_kind_satisfied:
  assumes "fold_kind w inp sn ac cs att k = Inr (kr, b, sg)" "kr_satisfied kr"
  shows "kind_proved k cs att"
proof -
  from fold_kind_parts[OF assms(1)] obtain a enforce sel m where
    p: "select_candidate w a (pair_input sn ac k (fi_evaluation inp) (fi_landing inp)) enforce cs = Inr (sel, m)"
    "kr_satisfied kr = (if enforce then a_structural a = ObElaborated \<and> m
       else fst (kind_status k cs (att = AttestationAuthored)))" by metis
  show ?thesis
  proof (cases enforce)
    case False
    with p(2) assms(2) incumbent_proved[of k cs att] show ?thesis by simp
  next
    case True
    with p assms(2) obtain sel' where
      sc: "match_scan w a (pair_input sn ac k (fi_evaluation inp) (fi_landing inp)) sel' False cs = Inr (sel, True)"
      by (auto simp: select_candidate_def split: sum.splits)
    have "k \<noteq> EvidenceAttestation" using match_scan_attestation[OF sc] by (auto simp: pair_input_def)
    with match_scan_matched[OF sc] show ?thesis by (auto simp: kind_proved_def pair_input_def)
  qed
qed

definition obligation_path :: "string \<Rightarrow> string \<Rightarrow> evidence_kind \<Rightarrow> string" where
  "obligation_path sn ac k =
     ''.verdi/obligations/'' @ sn @ ''/'' @ ac @ ''--'' @ evidence_kind_string k @ ''.md''"

lemma fold_kind_missing:
  assumes "fold_kind w inp sn ac cs att k = Inr (kr, b, sg)" "fi_evaluation inp \<noteq> ''''"
    and "w_read w (obligation_path sn ac k) = ReadMissing"
  shows "\<not> kr_satisfied kr \<and> sg"
proof -
  from fold_kind_parts[OF assms(1)] obtain a enforce sel m where
    p: "assess_obligation w (pair_input sn ac k '''' '''') = Inr a"
    "enforce_kind w (fi_evaluation inp) (a_structural a)
       (fst (kind_status k cs (att = AttestationAuthored))) k cs = Inr enforce"
    "kr_satisfied kr = (if enforce then a_structural a = ObElaborated \<and> m
       else fst (kind_status k cs (att = AttestationAuthored)))"
    "enforce \<and> \<not> kr_satisfied kr \<Longrightarrow> sg" by metis
  have "a_structural a = ObMissing"
    using p(1) assms(3)
    by (simp add: assess_obligation_def Let_def pair_input_def obligation_path_def preserve_violation_def)
       (metis assessment.simps(1))
  moreover from this p(2) assms(2) have enforce
    by (simp add: enforce_kind_def enforcement_def)
  ultimately show ?thesis using p(3,4) by simp
qed

lemma fold_kinds_nth:
  "fold_kinds w inp sn ac cs att ks = Inr rs \<Longrightarrow>
     list_all2 (\<lambda>k r. fold_kind w inp sn ac cs att k = Inr r) ks rs"
  by (induction ks arbitrary: rs) (auto split: sum.splits)

section \<open>One criterion\<close>

lemma fold_ac_status:
  assumes "fold_ac w inp sn ac cs waived att = Inr (st, krs, bs)"
  obtains rs where "fold_kinds w inp sn (ac_id ac) cs att (ac_evidence ac) = Inr rs"
    "st = (if waived then StatusWaived
           else if list_ex (\<lambda>r. e_verdict r = VerdictFail) cs then StatusViolated
           else if list_all (\<lambda>(kr, blocking, signal). kr_satisfied kr) rs then StatusEvidenced
           else if list_ex (\<lambda>(kr, blocking, signal). signal) rs then StatusPending
           else StatusNoSignal)"
  using assms by (auto simp: fold_ac_def Let_def split: sum.splits)

lemma fold_ac_evidenced:
  assumes "fold_ac w inp sn ac cs waived att = Inr (StatusEvidenced, krs, bs)"
  shows "(\<forall>r \<in> set cs. e_verdict r \<noteq> VerdictFail) \<and> (\<forall>k \<in> set (ac_evidence ac). kind_proved k cs att)"
proof -
  from fold_ac_status[OF assms] obtain rs where
    rs: "fold_kinds w inp sn (ac_id ac) cs att (ac_evidence ac) = Inr rs"
    and st': "StatusEvidenced = (if waived then StatusWaived
           else if list_ex (\<lambda>r. e_verdict r = VerdictFail) cs then StatusViolated
           else if list_all (\<lambda>(kr, blocking, signal). kr_satisfied kr) rs then StatusEvidenced
           else if list_ex (\<lambda>(kr, blocking, signal). signal) rs then StatusPending
           else StatusNoSignal)" by blast
  from st' have st: "\<not> list_ex (\<lambda>r. e_verdict r = VerdictFail) cs"
    "list_all (\<lambda>(kr, b, s). kr_satisfied kr) rs"
    by (simp_all split: if_split_asm)
  have "kind_proved k cs att" if "k \<in> set (ac_evidence ac)" for k
  proof -
    from that fold_kinds_nth[OF rs] obtain r where
      "fold_kind w inp sn (ac_id ac) cs att k = Inr r" "r \<in> set rs"
      unfolding list_all2_conv_all_nth in_set_conv_nth by metis
    with st(2) fold_kind_satisfied show ?thesis by (cases r) (fastforce simp: list_all_iff)
  qed
  with st(1) show ?thesis by (auto simp: list_ex_iff)
qed

lemma fold_ac_missing:
  assumes "fold_ac w inp sn ac cs waived att = Inr (st, krs, bs)" "fi_evaluation inp \<noteq> ''''"
    and "k \<in> set (ac_evidence ac)" "w_read w (obligation_path sn (ac_id ac) k) = ReadMissing"
  shows "st \<in> {StatusWaived, StatusViolated, StatusPending} \<and> (st = StatusWaived \<longleftrightarrow> waived)"
proof -
  from fold_ac_status[OF assms(1)] obtain rs where
    rs: "fold_kinds w inp sn (ac_id ac) cs att (ac_evidence ac) = Inr rs"
    and st: "st = (if waived then StatusWaived
           else if list_ex (\<lambda>r. e_verdict r = VerdictFail) cs then StatusViolated
           else if list_all (\<lambda>(kr, blocking, signal). kr_satisfied kr) rs then StatusEvidenced
           else if list_ex (\<lambda>(kr, blocking, signal). signal) rs then StatusPending
           else StatusNoSignal)" by blast
  from assms(3) fold_kinds_nth[OF rs] obtain kr b sg where
    r: "fold_kind w inp sn (ac_id ac) cs att k = Inr (kr, b, sg)" "(kr, b, sg) \<in> set rs"
    unfolding list_all2_conv_all_nth in_set_conv_nth by (metis prod_cases3)
  from fold_kind_missing[OF r(1) assms(2,4)] r(2) st show ?thesis
    by (auto simp: list_all_iff list_ex_iff split: if_splits)
qed

section \<open>One story\<close>

lemma fold_criteria_rows:
  "fold_criteria w inp sn cands acs = Inr rows \<Longrightarrow>
     list_all2 (\<lambda>ac r. fold_criterion w inp sn cands ac = Inr r) acs rows"
  by (induction acs arbitrary: rows) (auto split: sum.splits)

lemma fold_criterion_id: "fold_criterion w inp sn cands ac = Inr r \<Longrightarrow> ar_id r = ac_id ac"
  by (auto simp: fold_criterion_def Let_def split: sum.splits)

definition kept :: "fold_input \<Rightarrow> evidence list" where
  "kept inp = filter (keeps_source (fi_preview inp)) (fi_records inp)"

lemma fold_story_rows:
  assumes "fold_story w inp = Inr res"
  shows "\<exists>sp r. fi_spec inp = Some sp \<and> parse_ref (b_id (s_base sp)) = Inr r
     \<and> fold_criteria w inp (r_name r) (kept inp) (s_criteria sp) = Inr (sr_acs res)"
  using assms
  by (auto simp: fold_story_def filter_candidates_def kept_def Let_def split: option.splits if_splits sum.splits)

lemma fold_story_flags:
  assumes "fold_story w inp = Inr res"
  shows "sr_violated res \<longleftrightarrow> (\<exists>a \<in> set (sr_acs res). ar_status a = StatusViolated)"
    and "sr_eligible res \<longleftrightarrow> (\<forall>a \<in> set (sr_acs res). ar_status a \<in> {StatusEvidenced, StatusWaived})"
  using assms
  by (auto simp: fold_story_def Let_def list_ex_iff list_all_iff split: option.splits if_splits sum.splits)

lemma row_of_criterion:
  assumes "fold_criteria w inp sn cands acs = Inr rows" "ac \<in> set acs"
  obtains row where "row \<in> set rows" "fold_criterion w inp sn cands ac = Inr row"
  using fold_criteria_rows[OF assms(1)] assms(2)
  unfolding list_all2_conv_all_nth in_set_conv_nth by metis

lemma criterion_of_row:
  assumes "fold_criteria w inp sn cands acs = Inr rows" "row \<in> set rows"
  obtains ac where "ac \<in> set acs" "fold_criterion w inp sn cands ac = Inr row"
  using fold_criteria_rows[OF assms(1)] assms(2)
  unfolding list_all2_conv_all_nth in_set_conv_nth by metis

definition sample_fold :: "evidence list \<Rightarrow> string \<Rightarrow> fold_input" where
  "sample_fold rs evaluation =
     \<lparr>fi_spec = Some sample_feature, fi_records = rs, fi_preview = False, fi_slug = ''pay'',
      fi_evaluation = evaluation, fi_landing = evaluation\<rparr>"

definition story_statuses :: "fold_error + story_result \<Rightarrow> status list" where
  "story_statuses x = (case x of Inl e \<Rightarrow> [] | Inr r \<Rightarrow> map ar_status (sr_acs r))"

lemma story_statuses_single:
  "story_statuses x = [st] \<Longrightarrow> \<exists>res a. x = Inr res \<and> sr_acs res = [a] \<and> ar_status a = st"
  by (auto simp: story_statuses_def split: sum.splits)

text \<open>The story verdicts are exactly the fold's definition: one row per declared
  criterion, in declared order; violated when some row is violated; eligible when
  every row is evidenced or waived; and never both.\<close>

theorem fold_story_verdicts:
  assumes "fold_story w inp = Inr res"
  shows "(\<exists>sp. fi_spec inp = Some sp \<and> map ar_id (sr_acs res) = map ac_id (s_criteria sp))
       \<and> (sr_violated res \<longleftrightarrow> (\<exists>a \<in> set (sr_acs res). ar_status a = StatusViolated))
       \<and> (sr_eligible res \<longleftrightarrow> (\<forall>a \<in> set (sr_acs res). ar_status a \<in> {StatusEvidenced, StatusWaived}))
       \<and> \<not> (sr_violated res \<and> sr_eligible res)"
proof -
  from fold_story_rows[OF assms] obtain sp and r :: ref where p: "fi_spec inp = Some sp"
    "fold_criteria w inp (r_name r) (kept inp) (s_criteria sp) = Inr (sr_acs res)" by blast
  have "map ar_id (sr_acs res) = map ac_id (s_criteria sp)"
    using fold_criteria_rows[OF p(2)] fold_criterion_id
    by (induction rule: list_all2_induct) auto
  with p(1) show ?thesis unfolding fold_story_flags[OF assms] by fastforce
qed

theorem fold_story_verdicts_witness:
  "\<exists>res. fold_story sample_world (sample_fold [sample_record ''1'' VerdictPass] '''') = Inr res
     \<and> sr_eligible res \<and> \<not> sr_violated res"
proof -
  have "story_statuses (fold_story sample_world (sample_fold [sample_record ''1'' VerdictPass] ''''))
      = [StatusEvidenced]" by code_simp
  then obtain res a where r: "fold_story sample_world (sample_fold [sample_record ''1'' VerdictPass] '''') = Inr res"
    "sr_acs res = [a]" "ar_status a = StatusEvidenced" using story_statuses_single by blast
  from fold_story_verdicts[OF r(1)] r show ?thesis by auto
qed

text \<open>C1. Nothing is evidenced without evidence: when the fold calls a criterion
  evidenced, no current record of it failed, and every evidence kind the criterion
  declares is backed, an attestation by an authored file, any other kind by a
  passing record that came from CI (or locally, in a preview), carries no
  quarantine annotation and names the criterion.\<close>

theorem fold_evidenced_sound:
  assumes "fold_story w inp = Inr res" "row \<in> set (sr_acs res)" "ar_status row = StatusEvidenced"
  shows "\<exists>sp ac. fi_spec inp = Some sp \<and> ac \<in> set (s_criteria sp) \<and> ac_id ac = ar_id row
    \<and> (\<forall>r \<in> set (current (records_for_ac (kept inp) (ar_id row))).
          e_verdict r \<noteq> VerdictFail)
    \<and> (\<forall>k \<in> set (ac_evidence ac).
          if k = EvidenceAttestation
          then load_attestation_state w (fi_slug inp) (ar_id row) = Inr AttestationAuthored
          else \<exists>r \<in> set (fi_records inp). keeps_source (fi_preview inp) r \<and> ar_id row \<in> set (e_for r)
                 \<and> e_kind r = k \<and> e_verdict r = VerdictPass)"
proof -
  let ?cands = "kept inp"
  from fold_story_rows[OF assms(1)] obtain sp and r :: ref where p: "fi_spec inp = Some sp"
    "fold_criteria w inp (r_name r) ?cands (s_criteria sp) = Inr (sr_acs res)" by blast
  from criterion_of_row[OF p(2) assms(2)] obtain ac where ac: "ac \<in> set (s_criteria sp)"
    "fold_criterion w inp (r_name r) ?cands ac = Inr row" by metis
  let ?cs = "current (records_for_ac ?cands (ac_id ac))"
  have row: "ar_id row = ac_id ac" by (rule fold_criterion_id[OF ac(2)])
  from ac(2) assms(3) obtain waived att krs bs where
    f: "fold_ac w inp (r_name r) ac ?cs waived att = Inr (StatusEvidenced, krs, bs)"
    and att: "declares_kind ac EvidenceAttestation \<longrightarrow>
      load_attestation_state w (fi_slug inp) (ac_id ac) = Inr att"
    by (auto simp: fold_criterion_def Let_def split: sum.splits if_splits)
  note ev = fold_ac_evidenced[OF f]
  have sub: "set ?cs \<subseteq> {r \<in> set (fi_records inp). keeps_source (fi_preview inp) r \<and> ac_id ac \<in> set (e_for r)}"
    using cur.reduce_subset by (force simp: records_for_ac_def kept_def)
  have kinds: "if k = EvidenceAttestation
      then load_attestation_state w (fi_slug inp) (ac_id ac) = Inr AttestationAuthored
      else \<exists>r \<in> set (fi_records inp). keeps_source (fi_preview inp) r \<and> ac_id ac \<in> set (e_for r)
             \<and> e_kind r = k \<and> e_verdict r = VerdictPass"
    if k: "k \<in> set (ac_evidence ac)" for k
  proof (cases "k = EvidenceAttestation")
    case True
    with ev k att show ?thesis by (auto simp: kind_proved_def declares_kind_def)
  next
    case False
    have "kind_proved k ?cs att" using ev k by blast
    with False obtain r where "r \<in> set ?cs" "e_kind r = k" "e_verdict r = VerdictPass"
      by (auto simp: kind_proved_def)
    with sub False show ?thesis by auto
  qed
  from p(1) ac(1) ev kinds show ?thesis unfolding row by (intro exI[of _ sp] exI[of _ ac]) blast
qed

theorem fold_evidenced_sound_witness:
  "\<exists>r \<in> set [sample_record ''1'' VerdictPass]. e_verdict r = VerdictPass \<and> keeps_source False r"
proof -
  let ?inp = "sample_fold [sample_record ''1'' VerdictPass] ''''"
  have "story_statuses (fold_story sample_world ?inp) = [StatusEvidenced]" by code_simp
  then obtain res a where r: "fold_story sample_world ?inp = Inr res"
    "sr_acs res = [a]" "ar_status a = StatusEvidenced" using story_statuses_single by blast
  from fold_evidenced_sound[OF r(1) _ r(3)] r(2) show ?thesis
    by (auto simp: sample_fold_def sample_feature_def)
qed

text \<open>C20. A failure is never silence: a failing authoritative record of a criterion that is
  later, by pipeline and then job, than every other authoritative record of the criterion in its
  (kind, producer) group makes the criterion violated, and the story violated and not
  eligible, unless an active waiver covers the criterion. The ids may be numbers or any other
  strings, in any mixture.\<close>

theorem fold_violation_visible:
  assumes "fold_story w inp = Inr res" "fi_spec inp = Some sp" "ac \<in> set (s_criteria sp)"
    and "r \<in> set (fi_records inp)" "keeps_source (fi_preview inp) r" "ac_id ac \<in> set (e_for r)"
    and "e_verdict r = VerdictFail"
    and "\<forall>x \<in> set (fi_records inp). keeps_source (fi_preview inp) x \<longrightarrow> ac_id ac \<in> set (e_for x) \<longrightarrow>
           group_key x = group_key r \<longrightarrow> x \<noteq> r \<longrightarrow> later_provenance (e_provenance x) (e_provenance r)"
  shows "\<exists>row \<in> set (sr_acs res). ar_id row = ac_id ac \<and>
     (ar_status row = StatusViolated \<and> sr_violated res \<and> \<not> sr_eligible res
      \<or> ar_status row = StatusWaived \<and> waiver_active w (fi_slug inp) (ac_id ac) = Inr True)"
proof -
  let ?cands = "kept inp"
  let ?rs = "records_for_ac ?cands (ac_id ac)"
  from fold_story_rows[OF assms(1)] assms(2) obtain rf :: ref where
    p: "fold_criteria w inp (r_name rf) ?cands (s_criteria sp) = Inr (sr_acs res)" by auto
  from row_of_criterion[OF p assms(3)] obtain row where row: "row \<in> set (sr_acs res)"
    "fold_criterion w inp (r_name rf) ?cands ac = Inr row" by metis
  have rr: "r \<in> set ?rs" using assms(4,5,6) by (simp add: records_for_ac_def kept_def)
  have late: "later_provenance (e_provenance x) (e_provenance r) \<and> \<not> later_provenance (e_provenance r) (e_provenance x)"
    if "x \<in> set ?rs" "group_key x = group_key r" "x \<noteq> r" for x
    using assms(8) that later_provenance_asym by (auto simp: records_for_ac_def kept_def)
  have "group_key r \<in> group_key ` set (current ?rs)" using rr cur.reduce_key_set by blast
  then obtain c where c: "c \<in> set (current ?rs)" "group_key c = group_key r" by force
  then have "c = r" using cur.reduce_dominant[OF late rr] by blast
  then have fails: "list_ex (\<lambda>r. e_verdict r = VerdictFail) (current ?rs)"
    using c(1) assms(7) by (auto simp: list_ex_iff)
  from row(2) obtain waived att st krs bs where
    f: "waiver_active w (fi_slug inp) (ac_id ac) = Inr waived"
      "fold_ac w inp (r_name rf) ac (current ?rs) waived att = Inr (st, krs, bs)" "ar_status row = st"
    by (auto simp: fold_criterion_def Let_def split: sum.splits)
  have "st = (if waived then StatusWaived else StatusViolated)"
    using fails by (auto intro: fold_ac_status[OF f(2)])
  moreover have "ar_status row = StatusViolated \<Longrightarrow> sr_violated res \<and> \<not> sr_eligible res"
    unfolding fold_story_flags[OF assms(1)] using row(1) by force
  ultimately show ?thesis
    using f row fold_criterion_id[OF row(2)] by (intro bexI[of _ row]) (auto split: if_splits)
qed

theorem fold_violation_visible_witness:
  "\<exists>res. fold_story sample_world (sample_fold [sample_record ''run-1'' VerdictPass, sample_record ''run-2'' VerdictFail] '''') = Inr res
     \<and> (\<exists>row \<in> set (sr_acs res). ar_id row = ''ac-1'')"
proof -
  let ?inp = "sample_fold [sample_record ''run-1'' VerdictPass, sample_record ''run-2'' VerdictFail] ''''"
  let ?ac = "\<lparr>ac_id = ''ac-1'', ac_text = ''x'', ac_evidence = [EvidenceStatic], ac_anchor = ''''\<rparr>"
  have "story_statuses (fold_story sample_world ?inp) = [StatusViolated]" by code_simp
  then obtain res a where r: "fold_story sample_world ?inp = Inr res"
    "sr_acs res = [a]" using story_statuses_single by blast
  have late: "later_provenance (e_provenance (sample_record ''run-1'' VerdictPass)) (e_provenance (sample_record ''run-2'' VerdictFail))"
    by code_simp
  have "\<exists>row \<in> set (sr_acs res). ar_id row = ac_id ?ac \<and>
     (ar_status row = StatusViolated \<and> sr_violated res \<and> \<not> sr_eligible res
      \<or> ar_status row = StatusWaived \<and> waiver_active sample_world (fi_slug ?inp) (ac_id ?ac) = Inr True)"
    by (rule fold_violation_visible[OF r(1), of sample_feature ?ac "sample_record ''run-2'' VerdictFail"])
       (use late in \<open>auto simp: sample_fold_def sample_feature_def sample_record_def keeps_source_def\<close>)
  with r(1) show ?thesis by auto
qed

text \<open>No obligation, no evidence: when the fold is asked about a commit, a declared
  kind whose obligation file does not exist keeps its criterion from being
  evidenced. The criterion is pending or violated (or waived, exactly when an
  active waiver covers it), never silent, and unless waived the story is not
  eligible.\<close>

theorem fold_missing_obligation:
  assumes "fold_story w inp = Inr res" "fi_spec inp = Some sp" "ac \<in> set (s_criteria sp)"
    and "parse_ref (b_id (s_base sp)) = Inr rf" "fi_evaluation inp \<noteq> ''''" "k \<in> set (ac_evidence ac)"
    and "w_read w (obligation_path (r_name rf) (ac_id ac) k) = ReadMissing"
  shows "\<exists>row \<in> set (sr_acs res). ar_id row = ac_id ac
     \<and> ar_status row \<in> {StatusWaived, StatusViolated, StatusPending}
     \<and> (ar_status row = StatusWaived \<longleftrightarrow> waiver_active w (fi_slug inp) (ac_id ac) = Inr True)
     \<and> (ar_status row \<noteq> StatusWaived \<longrightarrow> \<not> sr_eligible res)"
proof -
  let ?cands = "kept inp"
  from fold_story_rows[OF assms(1)] assms(2,4) have
    p: "fold_criteria w inp (r_name rf) ?cands (s_criteria sp) = Inr (sr_acs res)" by auto
  from row_of_criterion[OF p assms(3)] obtain row where row: "row \<in> set (sr_acs res)"
    "fold_criterion w inp (r_name rf) ?cands ac = Inr row" by metis
  from row(2) obtain waived att st krs bs where
    f: "waiver_active w (fi_slug inp) (ac_id ac) = Inr waived"
      "fold_ac w inp (r_name rf) ac (current (records_for_ac ?cands (ac_id ac))) waived att = Inr (st, krs, bs)"
      "ar_status row = st"
    by (auto simp: fold_criterion_def Let_def split: sum.splits)
  have "ar_status row \<notin> {StatusEvidenced, StatusWaived} \<Longrightarrow> \<not> sr_eligible res"
    unfolding fold_story_flags[OF assms(1)] using row(1) by blast
  then show ?thesis
    using fold_ac_missing[OF f(2) assms(5,6,7)] f row fold_criterion_id[OF row(2)]
    by (intro bexI[of _ row]) auto
qed

theorem fold_missing_obligation_witness:
  "\<exists>res. fold_story sample_world (sample_fold [sample_record ''1'' VerdictPass] ''0123abc'') = Inr res
     \<and> \<not> sr_eligible res"
proof -
  let ?inp = "sample_fold [sample_record ''1'' VerdictPass] ''0123abc''"
  let ?ac = "\<lparr>ac_id = ''ac-1'', ac_text = ''x'', ac_evidence = [EvidenceStatic], ac_anchor = ''''\<rparr>"
  have "story_statuses (fold_story sample_world ?inp) = [StatusPending]" by code_simp
  then obtain res a where r: "fold_story sample_world ?inp = Inr res"
    "sr_acs res = [a]" "ar_status a = StatusPending" using story_statuses_single by blast
  have id: "parse_ref (b_id (s_base sample_feature)) = Inr (mk_ref KindSpec ''pay'' '''' '''')" by code_simp
  have "\<exists>row \<in> set (sr_acs res). ar_id row = ac_id ?ac
     \<and> ar_status row \<in> {StatusWaived, StatusViolated, StatusPending}
     \<and> (ar_status row = StatusWaived \<longleftrightarrow> waiver_active sample_world (fi_slug ?inp) (ac_id ?ac) = Inr True)
     \<and> (ar_status row \<noteq> StatusWaived \<longrightarrow> \<not> sr_eligible res)"
    by (rule fold_missing_obligation[OF r(1) _ _ id, of ?ac EvidenceStatic])
       (simp_all add: sample_fold_def sample_feature_def sample_world_def)
  with r show ?thesis by auto
qed

end
