(* ===== verification/Findings.thy ===== *)
theory Findings
  imports Links
begin

text \<open>
  Deviation and decision-conflict reports (artifact/deviation.go,
  artifact/decisionconflict.go): the finding records, their validation, the id
  shapes that the collision machinery mints, and the normative slug of a
  reference (store/slug.go). A string-typed enum is a datatype whose last
  constructor holds every other string; the empty string is the undispositioned
  state.
\<close>

section \<open>Slugs\<close>

definition is_slug_byte :: "char \<Rightarrow> bool" where
  "is_slug_byte c \<longleftrightarrow> byte_in 97 122 c \<or> byte_in 48 57 c \<or> c = CHR ''.'' \<or> c = CHR ''_'' \<or> c = CHR ''-''"

text \<open>One rune of the reference: \<^verbatim>\<open>strings.ToLower\<close> (outside ASCII only U+0130 and
  U+212A have a lower case that is a slug byte), then the slash, then the filter.\<close>

definition slug_rune :: "string \<Rightarrow> string" where
  "slug_rune r =
     (if r = [CHR 0xC4, CHR 0xB0] then ''i''
      else if r = [CHR 0xE2, CHR 0x84, CHR 0xAA] then ''k''
      else
        (case r of
           [c] \<Rightarrow>
             (let l = (if byte_in 65 90 c then char_of (of_char c + 32 :: nat) else c) in
              if l = CHR ''/'' then ''--'' else if is_slug_byte l then [l] else ''-'')
         | _ \<Rightarrow> ''-''))"

function ref_slug :: "string \<Rightarrow> string" where
  "ref_slug [] = []"
| "ref_slug (c # s) =
     slug_rune (take (rune_width (c # s)) (c # s)) @ ref_slug (drop (rune_width (c # s)) (c # s))"
  by pat_completeness auto

termination
  by (relation "measure length") (auto simp: rune_width_pos)

datatype slug_error = SlugCollision string string string

fun slug_scan :: "(string \<rightharpoonup> string) \<Rightarrow> string list \<Rightarrow> slug_error option" where
  "slug_scan by_slug [] = None"
| "slug_scan by_slug (ref # refs) =
     (let slug = ref_slug ref in
      case by_slug slug of
        Some prior \<Rightarrow>
          if prior \<noteq> ref then Some (SlugCollision prior ref slug)
          else slug_scan (by_slug(slug \<mapsto> ref)) refs
      | None \<Rightarrow> slug_scan (by_slug(slug \<mapsto> ref)) refs)"

definition check_slug_collisions :: "string list \<Rightarrow> slug_error option" where
  "check_slug_collisions refs = slug_scan Map.empty refs"

section \<open>Minted ids\<close>

definition collisionInfix :: string where
  "collisionInfix = ''-collision-''"

definition contractViolationIDPrefix :: string where
  "contractViolationIDPrefix = ''judged-contract-violation-''"

text \<open>\<^verbatim>\<open>collisionSuffixRe\<close> is the quoted infix followed by \<^verbatim>\<open>[0-9]+$\<close>: the digits are the
  longest digit tail, because the infix ends in a hyphen.\<close>

definition digit_tail :: "string \<Rightarrow> string" where
  "digit_tail s = rev (takeWhile is_digit (rev s))"

definition collision_suffixed :: "string \<Rightarrow> bool" where
  "collision_suffixed s \<longleftrightarrow>
     digit_tail s \<noteq> '''' \<and> has_suffix (take (length s - length (digit_tail s)) s) collisionInfix"

definition is_collision_machinery_id :: "string \<Rightarrow> bool" where
  "is_collision_machinery_id s \<longleftrightarrow> collision_suffixed s \<or> has_prefix s contractViolationIDPrefix"

section \<open>Findings\<close>

datatype finding_kind = FindingComputed | FindingJudged | FindingKindUnknown string

fun finding_kind_valid :: "finding_kind \<Rightarrow> bool" where
  "finding_kind_valid (FindingKindUnknown _) = False"
| "finding_kind_valid _ = True"

fun finding_kind_string :: "finding_kind \<Rightarrow> string" where
  "finding_kind_string FindingComputed = ''computed''"
| "finding_kind_string FindingJudged = ''judged''"
| "finding_kind_string (FindingKindUnknown s) = s"

datatype finding_disposition = FindingFixed | FindingAcceptedDeviation | FindingDispositionUnknown string

fun finding_disposition_valid :: "finding_disposition \<Rightarrow> bool" where
  "finding_disposition_valid (FindingDispositionUnknown _) = False"
| "finding_disposition_valid _ = True"

abbreviation undispositioned :: finding_disposition where
  "undispositioned \<equiv> FindingDispositionUnknown ''''"

record finding =
  fd_id :: string
  fd_kind :: finding_kind
  fd_text :: string
  fd_disposition :: finding_disposition
  fd_note :: string
  fd_carried_from :: string

definition dispositioned :: "finding \<Rightarrow> bool" where
  "dispositioned f \<longleftrightarrow> fd_disposition f \<noteq> undispositioned"

definition all_dispositioned :: "finding list \<Rightarrow> bool" where
  "all_dispositioned fs \<longleftrightarrow> list_all dispositioned fs"

datatype finding_error =
  FindingNoID | FindingNoText | FindingBadKind finding_kind
| FindingBadDisposition finding_disposition | FindingNeedsNote
| CarriedFromUndispositioned | CarriedFromBadCommit string

definition finding_validate :: "finding \<Rightarrow> finding_error option" where
  "finding_validate f = first_error
     [check (fd_id f = '''') FindingNoID,
      check (fd_text f = '''') FindingNoText,
      check (\<not> finding_kind_valid (fd_kind f)) (FindingBadKind (fd_kind f)),
      check (dispositioned f \<and> \<not> finding_disposition_valid (fd_disposition f))
        (FindingBadDisposition (fd_disposition f)),
      check (fd_disposition f = FindingAcceptedDeviation \<and> fd_note f = '''') FindingNeedsNote,
      check (fd_carried_from f \<noteq> '''' \<and> \<not> dispositioned f) CarriedFromUndispositioned,
      check (fd_carried_from f \<noteq> '''' \<and> \<not> rx_match commitRe (fd_carried_from f))
        (CarriedFromBadCommit (fd_carried_from f))]"

section \<open>Deviation reports\<close>

record judge_integrity =
  ji_stdin_b64 :: string
  ji_raw_result :: string

record deviation =
  dv_schema :: string
  dv_covers :: string
  dv_findings :: "finding list"
  dv_not_resurfaced :: "finding list"
  dv_digest :: string
  dv_integrity :: string
  dv_judge_integrity :: "judge_integrity option"
  dv_frozen :: "frozen option"
  dv_provenance :: "provenance option"

datatype deviation_error =
  DevSchema string | DevCovers string | DevFinding nat finding_error | DevDuplicate nat string
| DevArchived nat finding_error | DevArchivedUndispositioned nat | DevArchivedDuplicate nat string
| DevBackingOverlap nat string | DevDigest string | DevIntegrity string | DevJudgeIntegrity
| DevFrozen frozen_error | DevProvenance provenance_error

definition deviationSchema :: string where
  "deviationSchema = ''verdi.deviation/v1''"

definition dispositioned_kinds :: "finding list \<Rightarrow> (string \<rightharpoonup> finding_kind)" where
  "dispositioned_kinds fs =
     fold (\<lambda>f m. if dispositioned f then m(fd_id f \<mapsto> fd_kind f) else m) fs Map.empty"

fun archived_scan ::
  "(string \<rightharpoonup> finding_kind) \<Rightarrow> nat \<Rightarrow> string list \<Rightarrow> finding list \<Rightarrow> deviation_error option" where
  "archived_scan kinds i seen [] = None"
| "archived_scan kinds i seen (f # fs) =
     (case finding_validate f of
        Some e \<Rightarrow> Some (DevArchived i e)
      | None \<Rightarrow>
          if \<not> dispositioned f then Some (DevArchivedUndispositioned i)
          else if fd_id f \<in> set seen then Some (DevArchivedDuplicate i (fd_id f))
          else if kinds (fd_id f) = Some (fd_kind f) \<and> \<not> is_collision_machinery_id (fd_id f)
          then Some (DevBackingOverlap i (fd_id f))
          else archived_scan kinds (Suc i) (fd_id f # seen) fs)"

definition deviation_validate :: "deviation \<Rightarrow> deviation_error option" where
  "deviation_validate fm = first_error
     [check (dv_schema fm \<noteq> deviationSchema) (DevSchema (dv_schema fm)),
      check (\<not> rx_match commitRe (dv_covers fm)) (DevCovers (dv_covers fm)),
      scan_seen fd_id DevFinding (\<lambda>i f. DevDuplicate i (fd_id f)) finding_validate 0 [] (dv_findings fm),
      archived_scan (dispositioned_kinds (dv_findings fm)) 0 [] (dv_not_resurfaced fm),
      check (dv_digest fm \<noteq> '''' \<and> \<not> rx_match sha256Re (dv_digest fm)) (DevDigest (dv_digest fm)),
      check (dv_integrity fm \<noteq> '''' \<and> \<not> rx_match sha256Re (dv_integrity fm))
        (DevIntegrity (dv_integrity fm)),
      check (dv_judge_integrity fm \<noteq> None \<and> dv_integrity fm = '''') DevJudgeIntegrity,
      Option.bind (dv_frozen fm) (\<lambda>f. map_option DevFrozen (frozen_validate f)),
      Option.bind (dv_provenance fm) (\<lambda>p. map_option DevProvenance (provenance_validate p))]"

section \<open>Decision-conflict reports\<close>

datatype conflict_disposition =
  ConflictSuperseded | ConflictExempt | ConflictRejected | ConflictNoConflict
| ConflictDispositionUnknown string

fun conflict_disposition_valid :: "conflict_disposition \<Rightarrow> bool" where
  "conflict_disposition_valid (ConflictDispositionUnknown _) = False"
| "conflict_disposition_valid _ = True"

record conflict_finding =
  cf_id :: string
  cf_kind :: finding_kind
  cf_text :: string
  cf_disposition :: conflict_disposition
  cf_note :: string
  cf_target_ref :: string
  cf_routed_owners :: "string list"

definition conflict_dispositioned :: "conflict_finding \<Rightarrow> bool" where
  "conflict_dispositioned f \<longleftrightarrow> cf_disposition f \<noteq> ConflictDispositionUnknown ''''"

datatype conflict_finding_error =
  CFNoID | CFNoText | CFBadKind finding_kind | CFBadDisposition conflict_disposition
| CFNeedsNote conflict_disposition

definition conflict_finding_validate :: "conflict_finding \<Rightarrow> conflict_finding_error option" where
  "conflict_finding_validate f = first_error
     [check (cf_id f = '''') CFNoID,
      check (cf_text f = '''') CFNoText,
      check (\<not> finding_kind_valid (cf_kind f)) (CFBadKind (cf_kind f)),
      check (conflict_dispositioned f \<and> \<not> conflict_disposition_valid (cf_disposition f))
        (CFBadDisposition (cf_disposition f)),
      check (conflict_dispositioned f \<and> cf_note f = '''') (CFNeedsNote (cf_disposition f))]"

record sweep_provenance =
  sw_adr_corpus_digest :: string
  sw_decisions_scanned :: "string list"

datatype decision_conflict_error =
  DCSchema string | DCCovers string | DCFinding nat conflict_finding_error | DCDuplicate nat string
| DCSweep string | DCDigest string | DCIntegrity string | DCJudgeIntegrity
| DCFrozen frozen_error | DCProvenance provenance_error

definition sweep_provenance_validate :: "sweep_provenance \<Rightarrow> decision_conflict_error option" where
  "sweep_provenance_validate p =
     check (sw_adr_corpus_digest p \<noteq> '''' \<and> \<not> rx_match sha256Re (sw_adr_corpus_digest p))
       (DCSweep (sw_adr_corpus_digest p))"

record decision_conflict =
  dcr_schema :: string
  dcr_covers :: string
  dcr_findings :: "conflict_finding list"
  dcr_sweep :: "sweep_provenance option"
  dcr_digest :: string
  dcr_integrity :: string
  dcr_judge_integrity :: "judge_integrity option"
  dcr_frozen :: "frozen option"
  dcr_provenance :: "provenance option"

definition decisionConflictSchema :: string where
  "decisionConflictSchema = ''verdi.decisionconflict/v1''"

definition decision_conflict_validate :: "decision_conflict \<Rightarrow> decision_conflict_error option" where
  "decision_conflict_validate fm = first_error
     [check (dcr_schema fm \<noteq> decisionConflictSchema) (DCSchema (dcr_schema fm)),
      check (\<not> rx_match commitRe (dcr_covers fm)) (DCCovers (dcr_covers fm)),
      scan_seen cf_id DCFinding (\<lambda>i f. DCDuplicate i (cf_id f)) conflict_finding_validate 0 []
        (dcr_findings fm),
      Option.bind (dcr_sweep fm) sweep_provenance_validate,
      check (dcr_digest fm \<noteq> '''' \<and> \<not> rx_match sha256Re (dcr_digest fm)) (DCDigest (dcr_digest fm)),
      check (dcr_integrity fm \<noteq> '''' \<and> \<not> rx_match sha256Re (dcr_integrity fm))
        (DCIntegrity (dcr_integrity fm)),
      check (dcr_judge_integrity fm \<noteq> None \<and> dcr_integrity fm = '''') DCJudgeIntegrity,
      Option.bind (dcr_frozen fm) (\<lambda>f. map_option DCFrozen (frozen_validate f)),
      Option.bind (dcr_provenance fm) (\<lambda>p. map_option DCProvenance (provenance_validate p))]"

section \<open>Slugs: alphabet and collisions\<close>

definition slug_alphabet :: "string \<Rightarrow> bool" where
  "slug_alphabet s \<longleftrightarrow> list_all is_slug_byte s"

lemma slug_lower: "byte_in 65 90 c \<Longrightarrow> is_slug_byte (char_of (of_char c + 32 :: nat))"
  unfolding is_slug_byte_def by (rule disjI1) (simp add: byte_in_def)

lemma slug_literals: "is_slug_byte CHR ''-''" "is_slug_byte CHR ''i''" "is_slug_byte CHR ''k''"
  by (simp_all add: is_slug_byte_def byte_in_def)

lemma slug_rune_alphabet: "slug_alphabet (slug_rune r)"
proof (cases "r = [CHR 0xC4, CHR 0xB0] \<or> r = [CHR 0xE2, CHR 0x84, CHR 0xAA]")
  case True
  then show ?thesis by (elim disjE) (simp_all add: slug_alphabet_def slug_rune_def slug_literals)
next
  case False
  show ?thesis
  proof (cases "\<exists>c. r = [c]")
    case True
    then obtain c l where "r = [c]"
      "slug_rune r = (if l = CHR ''/'' then ''--'' else if is_slug_byte l then [l] else ''-'')"
      using False by (auto simp: slug_rune_def Let_def)
    then show ?thesis by (simp add: slug_alphabet_def slug_literals)
  next
    case f: False
    with False have "slug_rune r = ''-''" by (simp add: slug_rune_def split: list.splits)
    then show ?thesis by (simp add: slug_alphabet_def slug_literals)
  qed
qed

lemma ref_slug_alphabet: "slug_alphabet (ref_slug s)"
proof (induction s rule: ref_slug.induct)
  case 1
  then show ?case by (simp add: slug_alphabet_def)
next
  case (2 c s)
  with slug_rune_alphabet[of "take (rune_width (c # s)) (c # s)"] show ?case
    by (simp add: slug_alphabet_def)
qed

lemma slug_byte_ascii: "is_slug_byte c \<Longrightarrow> of_char c < (128 :: nat) \<and> \<not> byte_in 65 90 c \<and> c \<noteq> CHR ''/''"
  unfolding is_slug_byte_def by (elim disjE) (auto simp: byte_in_def)

lemma rune_width_slug: "is_slug_byte c \<Longrightarrow> rune_width (c # s) = 1"
  by (simp add: slug_byte_ascii rune_width_ascii)

lemma slug_rune_slug: "is_slug_byte c \<Longrightarrow> slug_rune [c] = [c]"
  using slug_byte_ascii[of c] by (simp add: slug_rune_def)

lemma ref_slug_fixed: "slug_alphabet s \<Longrightarrow> ref_slug s = s"
  by (induction s) (simp_all add: slug_alphabet_def rune_width_slug slug_rune_slug)

lemma slug_scan_None:
  "slug_scan m refs = None \<longleftrightarrow>
     (\<forall>r \<in> set refs. \<forall>p. m (ref_slug r) = Some p \<longrightarrow> p = r) \<and> inj_on ref_slug (set refs)"
proof (induction refs arbitrary: m)
  case Nil
  then show ?case by simp
next
  case (Cons r refs)
  show ?case
  proof (cases "\<forall>p. m (ref_slug r) = Some p \<longrightarrow> p = r")
    case True
    then have "slug_scan m (r # refs) = slug_scan (m(ref_slug r \<mapsto> r)) refs"
      by (auto simp: Let_def split: option.splits)
    with True show ?thesis by (auto simp: Cons.IH inj_on_def)
  next
    case False
    then show ?thesis by (auto simp: Let_def)
  qed
qed

section \<open>Minted ids: inversion\<close>

lemma digit_tail_append:
  "list_all is_digit n \<Longrightarrow> \<not> is_digit c \<Longrightarrow> digit_tail (p @ c # n) = n"
  by (auto simp: digit_tail_def takeWhile_append list_all_iff)

lemma digit_tail_split:
  obtains p where "s = p @ digit_tail s" "list_all is_digit (digit_tail s)"
    "p = take (length s - length (digit_tail s)) s"
proof
  have "rev s = takeWhile is_digit (rev s) @ dropWhile is_digit (rev s)" by simp
  then have "s = rev (dropWhile is_digit (rev s)) @ digit_tail s"
    unfolding digit_tail_def by (metis rev_append rev_rev_ident)
  then show "s = take (length s - length (digit_tail s)) s @ digit_tail s"
    by (metis append_eq_conv_conj diff_add_inverse2 length_append)
  show "list_all is_digit (digit_tail s)"
    by (auto simp: digit_tail_def list_all_iff dest: set_takeWhileD)
qed simp

lemma infix_split: "collisionInfix = ''-collision'' @ ''-''"
  by (simp add: collisionInfix_def)

lemma collision_suffixed_iff:
  "collision_suffixed s \<longleftrightarrow> (\<exists>p n. s = p @ collisionInfix @ n \<and> n \<noteq> '''' \<and> list_all is_digit n)"
proof
  assume c: "collision_suffixed s"
  obtain p where p: "s = p @ digit_tail s" "list_all is_digit (digit_tail s)"
    "p = take (length s - length (digit_tail s)) s" by (rule digit_tail_split)
  from c p(3) obtain q where "p = q @ collisionInfix" "digit_tail s \<noteq> ''''"
    by (auto simp: collision_suffixed_def has_suffix_iff)
  with p show "\<exists>p n. s = p @ collisionInfix @ n \<and> n \<noteq> '''' \<and> list_all is_digit n"
    by (metis append.assoc)
next
  assume "\<exists>p n. s = p @ collisionInfix @ n \<and> n \<noteq> '''' \<and> list_all is_digit n"
  then obtain p n where s: "s = p @ collisionInfix @ n" "n \<noteq> ''''" "list_all is_digit n" by blast
  then have "s = (p @ ''-collision'') @ CHR ''-'' # n" by (simp add: infix_split)
  moreover have "\<not> is_digit CHR ''-''" by (simp add: is_digit_def less_eq_char_def)
  ultimately have t: "digit_tail s = n" using digit_tail_append s(3) by metis
  moreover have "take (length s - length n) s = p @ collisionInfix" using s(1) by simp
  ultimately show "collision_suffixed s" using s(2) by (auto simp: collision_suffixed_def has_suffix_iff)
qed

lemma suffix_unique:
  assumes "p @ collisionInfix @ n = p' @ collisionInfix @ n'"
    and "list_all is_digit n" "list_all is_digit n'"
  shows "p = p' \<and> n = n'"
proof -
  have nd: "\<not> is_digit CHR ''-''" by (simp add: is_digit_def less_eq_char_def)
  have "digit_tail (p @ collisionInfix @ n) = n" if "list_all is_digit n" for p n
    using digit_tail_append[OF that nd, of "p @ ''-collision''"] by (simp add: infix_split)
  with assms have "n = n'" by metis
  with assms(1) show ?thesis by simp
qed

section \<open>What an accepted report guarantees\<close>

lemma find_snoc: "find P (xs @ [x]) = (case find P xs of Some y \<Rightarrow> Some y | None \<Rightarrow> if P x then Some x else None)"
  by (induction xs) auto

lemma fold_kinds_lookup:
  "fold (\<lambda>f m. if dispositioned f then m(fd_id f \<mapsto> fd_kind f) else m) fs m i =
     (case find (\<lambda>f. dispositioned f \<and> fd_id f = i) (rev fs) of
        Some f \<Rightarrow> Some (fd_kind f) | None \<Rightarrow> m i)"
  by (induction fs arbitrary: m) (auto simp: find_snoc split: option.splits)

definition archived_ok :: "(string \<rightharpoonup> finding_kind) \<Rightarrow> finding \<Rightarrow> bool" where
  "archived_ok kinds f \<longleftrightarrow> finding_validate f = None \<and> dispositioned f
     \<and> (kinds (fd_id f) = Some (fd_kind f) \<longrightarrow> is_collision_machinery_id (fd_id f))"

lemma archived_scan_step:
  "archived_scan kinds i seen (f # fs) = None \<longleftrightarrow>
     archived_ok kinds f \<and> fd_id f \<notin> set seen \<and> archived_scan kinds (Suc i) (fd_id f # seen) fs = None"
  by (auto simp: archived_ok_def split: option.splits)

declare archived_scan.simps(2) [simp del]

lemma archived_scan_None:
  "archived_scan kinds i seen fs = None \<longleftrightarrow>
     (\<forall>f \<in> set fs. archived_ok kinds f) \<and> (\<forall>f \<in> set fs. fd_id f \<notin> set seen) \<and> distinct (map fd_id fs)"
proof (induction fs arbitrary: i seen)
  case Nil
  then show ?case by simp
next
  case (Cons f fs)
  have "(\<forall>g \<in> set fs. fd_id g \<notin> set (fd_id f # seen)) \<longleftrightarrow>
      (\<forall>g \<in> set fs. fd_id g \<notin> set seen) \<and> fd_id f \<notin> set (map fd_id fs)"
    by (induction fs) auto
  then show ?case unfolding archived_scan_step Cons.IH by (simp; blast)
qed

end
