(* ===== verification/Reconcile.thy ===== *)
theory Reconcile
  imports Findings "HOL-Library.Multiset"
begin

text \<open>
  Carrying human rulings across regenerations of a deviation report
  (align/identity.go, align/reaffirm.go, the id mint of align/judge.go and the
  tally of align/report.go). SHA-256 in hex is the parameter \<open>h\<close>; where a property
  needs that different contents have different identities it assumes \<open>h\<close> injective
  on the contents at hand. A Go map that is only read is the fold of its updates.
\<close>

section \<open>Identity and exact carry\<close>

definition identity_of :: "(string \<Rightarrow> string) \<Rightarrow> string \<Rightarrow> string \<Rightarrow> string \<Rightarrow> string" where
  "identity_of h kind i txt = h (kind @ CHR 0x00 # i @ CHR 0x00 # txt)"

definition identity :: "(string \<Rightarrow> string) \<Rightarrow> finding \<Rightarrow> string" where
  "identity h f = identity_of h (finding_kind_string (fd_kind f)) (fd_id f) (fd_text f)"

definition conflict_identity :: "(string \<Rightarrow> string) \<Rightarrow> conflict_finding \<Rightarrow> string" where
  "conflict_identity h f = identity_of h (finding_kind_string (cf_kind f)) (cf_id f) (cf_text f)"

definition index_by :: "('a \<Rightarrow> 'k) \<Rightarrow> 'a list \<Rightarrow> ('k \<rightharpoonup> 'a)" where
  "index_by key xs = fold (\<lambda>x m. m(key x \<mapsto> x)) xs Map.empty"

definition preserve :: "('a \<Rightarrow> 'k) \<Rightarrow> ('a \<Rightarrow> 'a \<Rightarrow> 'a) \<Rightarrow> 'a list \<Rightarrow> 'a list \<Rightarrow> 'a list" where
  "preserve ident carry fresh existing =
     map (\<lambda>f. case index_by ident existing (ident f) of Some prior \<Rightarrow> carry f prior | None \<Rightarrow> f) fresh"

definition carry_finding :: "finding \<Rightarrow> finding \<Rightarrow> finding" where
  "carry_finding dst src = dst\<lparr>fd_disposition := fd_disposition src, fd_note := fd_note src\<rparr>"

definition carry_conflict :: "conflict_finding \<Rightarrow> conflict_finding \<Rightarrow> conflict_finding" where
  "carry_conflict dst src = dst\<lparr>cf_disposition := cf_disposition src, cf_note := cf_note src\<rparr>"

definition preserve_dispositions :: "(string \<Rightarrow> string) \<Rightarrow> finding list \<Rightarrow> finding list \<Rightarrow> finding list" where
  "preserve_dispositions h fresh existing = preserve (identity h) carry_finding fresh existing"

definition preserve_conflict_dispositions ::
  "(string \<Rightarrow> string) \<Rightarrow> conflict_finding list \<Rightarrow> conflict_finding list \<Rightarrow> conflict_finding list" where
  "preserve_conflict_dispositions h fresh existing =
     preserve (conflict_identity h) carry_conflict fresh existing"

section \<open>Minting a judged id\<close>

definition judgedPrefix :: string where
  "judgedPrefix = ''judged-''"

definition reservedIDGuard :: string where
  "reservedIDGuard = ''reserved''"

definition judged_finding_id :: "string \<Rightarrow> string" where
  "judged_finding_id raw =
     (let slug = ref_slug raw;
          i = (if has_prefix slug judgedPrefix then slug else judgedPrefix @ slug);
          i = (if has_prefix i contractViolationIDPrefix
               then judgedPrefix @ reservedIDGuard @ ''-'' @ trim_prefix i judgedPrefix else i)
      in if is_collision_machinery_id i then i @ ''-'' @ reservedIDGuard else i)"

section \<open>Slug collisions within one run\<close>

definition min_member_text :: "finding list \<Rightarrow> string" where
  "min_member_text grp =
     fold (\<lambda>f m. if fd_text f < m then fd_text f else m) (tl grp) (fd_text (hd grp))"

definition text_rank :: "finding list \<Rightarrow> nat list" where
  "text_rank grp = sort_key (\<lambda>i. fd_text (grp ! i)) [0 ..< length grp]"

definition collision_member_ids :: "string \<Rightarrow> finding list \<Rightarrow> bool \<Rightarrow> finding list" where
  "collision_member_ids slug grp backed =
     fold (\<lambda>(r, idx) out.
             if \<not> backed \<and> r = 0 then out
             else out[idx := (out ! idx)\<lparr>fd_id := slug @ collisionInfix @ show_nat (r + 1)\<rparr>])
       (enumerate 0 (text_rank grp)) grp"

text \<open>The text of the disclosed finding, with \<^verbatim>\<open>%q\<close> as Go quotes an ASCII string (an id
  is a slug, so it is ASCII). The dash of the message is U+2014 in UTF-8.\<close>

definition quote_char :: "char \<Rightarrow> string" where
  "quote_char c =
     (if c = CHR 0x22 \<or> c = CHR 0x5C then [CHR 0x5C, c]
      else if c = CHR 0x07 then [CHR 0x5C, CHR ''a''] else if c = CHR 0x08 then [CHR 0x5C, CHR ''b'']
      else if c = CHR 0x09 then [CHR 0x5C, CHR ''t''] else if c = CHR 0x0A then [CHR 0x5C, CHR ''n'']
      else if c = CHR 0x0B then [CHR 0x5C, CHR ''v''] else if c = CHR 0x0C then [CHR 0x5C, CHR ''f'']
      else if c = CHR 0x0D then [CHR 0x5C, CHR ''r'']
      else if of_char c < (32 :: nat) \<or> c = CHR 0x7F
      then CHR 0x5C # CHR ''x'' # [''0123456789abcdef'' ! (of_char c div 16), ''0123456789abcdef'' ! (of_char c mod 16)]
      else [c])"

definition go_quote :: "string \<Rightarrow> string" where
  "go_quote s = CHR 0x22 # concat (map quote_char s) @ [CHR 0x22]"

definition contract_violation_text :: "string \<Rightarrow> string list \<Rightarrow> string" where
  "contract_violation_text i texts =
     ''judge contract violation: '' @ show_nat (length texts) @ '' findings shared slug '' @ go_quote i
     @ '' within one run '' @ [CHR 0xE2, CHR 0x80, CHR 0x94]
     @ '' a rule/boundary-derived slug must be a stable per-finding-class identifier within a run ''
     @ ''(spec/finding-identity ac-4); texts: '' @ join_with '' | '' (sort texts)"

definition contract_violation_finding :: "string \<Rightarrow> finding list \<Rightarrow> finding" where
  "contract_violation_finding i grp =
     \<lparr>fd_id = contractViolationIDPrefix @ trim_prefix i judgedPrefix, fd_kind = FindingJudged,
      fd_text = contract_violation_text i (map fd_text grp),
      fd_disposition = undispositioned, fd_note = '''', fd_carried_from = ''''\<rparr>"

section \<open>Reconciling judged findings\<close>

definition is_ruling :: "finding \<Rightarrow> bool" where
  "is_ruling f \<longleftrightarrow> fd_kind f = FindingJudged \<and> dispositioned f"

definition rulings :: "finding list \<Rightarrow> finding list \<Rightarrow> finding list" where
  "rulings existing archived = filter is_ruling (existing @ archived)"

definition first_seen :: "'a list \<Rightarrow> 'a list" where
  "first_seen xs = fold (\<lambda>x seen. if x \<in> set seen then seen else seen @ [x]) xs []"

definition judged_ids :: "finding list \<Rightarrow> string list" where
  "judged_ids fresh = first_seen (map fd_id (filter (\<lambda>f. fd_kind f = FindingJudged) fresh))"

definition group_of :: "finding list \<Rightarrow> string \<Rightarrow> finding list" where
  "group_of fresh i = filter (\<lambda>f. fd_kind f = FindingJudged \<and> fd_id f = i) fresh"

definition backing_by_id :: "finding list \<Rightarrow> finding list \<Rightarrow> finding list \<Rightarrow> string \<Rightarrow> bool" where
  "backing_by_id fresh existing archived i \<longleftrightarrow>
     (\<exists>f \<in> set archived. is_ruling f \<and> fd_id f = i)
     \<or> 2 \<le> length (group_of fresh i)
       \<and> (case index_by fd_id (rulings existing archived) i of
            Some p \<Rightarrow> min_member_text (group_of fresh i) \<noteq> fd_text p | None \<Rightarrow> False)"

definition carry_exact_match ::
  "(string \<Rightarrow> string) \<Rightarrow> (string \<rightharpoonup> finding) \<Rightarrow> finding \<Rightarrow> finding \<times> bool" where
  "carry_exact_match h by_identity f =
     (case by_identity (identity h f) of
        None \<Rightarrow> (f, False)
      | Some p \<Rightarrow>
          (f\<lparr>fd_disposition := fd_disposition p, fd_note := fd_note p, fd_carried_from := fd_carried_from p\<rparr>,
           True))"

text \<open>What one slug emits before the exact carry is applied to each entry: its one
  finding, or the disambiguated members and the contract-violation finding.\<close>

definition emit_group :: "finding list \<Rightarrow> finding list \<Rightarrow> finding list \<Rightarrow> string \<Rightarrow> finding list" where
  "emit_group fresh existing archived i =
     (let grp = group_of fresh i in
      if 1 < length grp
      then collision_member_ids i grp (backing_by_id fresh existing archived i)
             @ [contract_violation_finding i grp]
      else grp)"

definition emitted :: "finding list \<Rightarrow> finding list \<Rightarrow> finding list \<Rightarrow> finding list" where
  "emitted fresh existing archived =
     concat (map (emit_group fresh existing archived) (judged_ids fresh))"

record judged_candidate =
  jc_disposition :: finding_disposition
  jc_text :: string
  jc_note :: string
  jc_archive_source :: string

record reconciliation =
  rc_findings :: "finding list"
  rc_candidates :: "string \<rightharpoonup> judged_candidate"
  rc_not_resurfaced :: "finding list"

definition candidate_for ::
  "(string \<Rightarrow> string) \<Rightarrow> finding list \<Rightarrow> finding list \<Rightarrow> finding list \<Rightarrow> string \<Rightarrow> judged_candidate option" where
  "candidate_for h fresh existing archived i =
     (case group_of fresh i of
        [f] \<Rightarrow>
          if snd (carry_exact_match h (index_by (identity h) (rulings existing archived)) f) then None
          else map_option (\<lambda>p. \<lparr>jc_disposition = fd_disposition p, jc_text = fd_text p, jc_note = fd_note p,
                                jc_archive_source = ''''\<rparr>)
                 (index_by fd_id (rulings existing archived) i)
      | _ \<Rightarrow> None)"

definition reconcile_judged ::
  "(string \<Rightarrow> string) \<Rightarrow> finding list \<Rightarrow> finding list \<Rightarrow> finding list \<Rightarrow> reconciliation" where
  "reconcile_judged h fresh existing archived =
     (let by_identity = index_by (identity h) (rulings existing archived);
          raw = emitted fresh existing archived;
          matched = map (identity h) (filter (\<lambda>f. by_identity (identity h f) \<noteq> None) raw)
      in \<lparr>rc_findings = map (\<lambda>f. fst (carry_exact_match h by_identity f)) raw,
          rc_candidates = candidate_for h fresh existing archived,
          rc_not_resurfaced = filter (\<lambda>p. identity h p \<notin> set matched) (rulings existing archived)\<rparr>)"

section \<open>Archived rulings and the tally\<close>

record archived_ruling =
  arch_finding :: finding
  arch_source :: string

definition archive_index :: "archived_ruling list \<Rightarrow> (string \<rightharpoonup> archived_ruling)" where
  "archive_index archived =
     fold (\<lambda>a m. if fd_kind (arch_finding a) \<noteq> FindingJudged \<or> \<not> dispositioned (arch_finding a) then m
                 else if m (fd_id (arch_finding a)) \<noteq> None then m
                 else m(fd_id (arch_finding a) \<mapsto> a)) archived Map.empty"

definition archived_step ::
  "(string \<rightharpoonup> archived_ruling) \<Rightarrow> finding \<Rightarrow> (string \<rightharpoonup> judged_candidate) \<times> finding list \<Rightarrow>
   (string \<rightharpoonup> judged_candidate) \<times> finding list" where
  "archived_step arch_by_id f st =
     (case st of (cands, nr) \<Rightarrow>
        if dispositioned f \<or> cands (fd_id f) \<noteq> None \<or> is_collision_machinery_id (fd_id f) then (cands, nr)
        else
          (case arch_by_id (fd_id f) of
             None \<Rightarrow> (cands, nr)
           | Some a \<Rightarrow>
               (cands(fd_id f \<mapsto>
                  \<lparr>jc_disposition = fd_disposition (arch_finding a), jc_text = fd_text (arch_finding a),
                   jc_note = fd_note (arch_finding a), jc_archive_source = arch_source a\<rparr>),
                nr @ [arch_finding a])))"

definition apply_archived_rulings :: "reconciliation \<Rightarrow> archived_ruling list \<Rightarrow> reconciliation" where
  "apply_archived_rulings recon archived =
     (if archived = [] then recon
      else
        (let (cands, nr) = fold (archived_step (archive_index archived)) (rc_findings recon)
               (rc_candidates recon, rc_not_resurfaced recon)
         in recon\<lparr>rc_candidates := cands, rc_not_resurfaced := nr\<rparr>))"

record judged_tally =
  jt_total :: nat
  jt_candidates :: nat
  jt_new :: nat

definition tally_step :: "(string \<rightharpoonup> judged_candidate) \<Rightarrow> finding \<Rightarrow> judged_tally \<Rightarrow> judged_tally" where
  "tally_step cands f t =
     (let t = t\<lparr>jt_total := jt_total t + 1\<rparr> in
      if dispositioned f then t
      else if cands (fd_id f) \<noteq> None then t\<lparr>jt_candidates := jt_candidates t + 1\<rparr>
      else t\<lparr>jt_new := jt_new t + 1\<rparr>)"

definition tally_judged :: "reconciliation \<Rightarrow> judged_tally" where
  "tally_judged r =
     fold (tally_step (rc_candidates r)) (rc_findings r) \<lparr>jt_total = 0, jt_candidates = 0, jt_new = 0\<rparr>"

section \<open>Indexing and carrying forward\<close>

lemma index_by_find: "index_by key xs k = find (\<lambda>x. key x = k) (rev xs)"
proof -
  have "fold (\<lambda>x m. m(key x \<mapsto> x)) xs m k =
      (case find (\<lambda>x. key x = k) (rev xs) of Some x \<Rightarrow> Some x | None \<Rightarrow> m k)" for m
    by (induction xs arbitrary: m) (auto simp: find_snoc split: option.splits)
  from this[of Map.empty] show ?thesis by (simp add: index_by_def split: option.split)
qed

lemma index_by_Some: "index_by key xs k = Some x \<Longrightarrow> x \<in> set xs \<and> key x = k"
  by (auto simp: index_by_find find_Some_iff) (metis length_rev nth_mem set_rev)

lemma index_by_None: "index_by key xs k = None \<longleftrightarrow> k \<notin> key ` set xs"
  by (auto simp: index_by_find find_None_iff)

lemma index_by_unique:
  assumes "x \<in> set xs" "\<And>y. y \<in> set xs \<Longrightarrow> key y = key x \<Longrightarrow> y = x"
  shows "index_by key xs (key x) = Some x"
proof (cases "index_by key xs (key x)")
  case None
  with assms(1) show ?thesis by (auto simp: index_by_None)
next
  case (Some y)
  with assms(2) index_by_Some[OF Some] show ?thesis by auto
qed

text \<open>The contract of a disposition carry: it leaves the identity alone and takes the
  carried state from the prior, nothing else from it.\<close>

locale carry_forward =
  fixes ident :: "'a \<Rightarrow> 'k"
    and carry :: "'a \<Rightarrow> 'a \<Rightarrow> 'a"
    and ruling :: "'a \<Rightarrow> 'd"
  assumes carry_ident: "ident (carry f p) = ident f"
    and carry_ruling: "ruling (carry f p) = ruling p"
    and carry_twice: "carry (carry f p) p = carry f p"
begin

lemma length_preserve: "length (preserve ident carry fresh existing) = length fresh"
  by (simp add: preserve_def)

lemma ident_preserve: "map ident (preserve ident carry fresh existing) = map ident fresh"
  by (simp add: preserve_def carry_ident split: option.split)

lemma preserve_earned:
  assumes "i < length fresh"
  shows "if ident (fresh ! i) \<in> ident ` set existing
         then \<exists>p \<in> set existing. ident p = ident (fresh ! i)
                \<and> ruling (preserve ident carry fresh existing ! i) = ruling p
         else preserve ident carry fresh existing ! i = fresh ! i"
proof (cases "index_by ident existing (ident (fresh ! i))")
  case None
  with assms have "preserve ident carry fresh existing ! i = fresh ! i" by (simp add: preserve_def)
  with None show ?thesis by (simp add: index_by_None)
next
  case (Some p)
  have p: "p \<in> set existing" "ident p = ident (fresh ! i)" using index_by_Some[OF Some] by auto
  then have "ident (fresh ! i) \<in> ident ` set existing" by (metis imageI)
  moreover have "ruling (preserve ident carry fresh existing ! i) = ruling p"
    using assms Some by (simp add: preserve_def carry_ruling)
  ultimately show ?thesis using p by auto
qed

lemma preserve_idem:
  "preserve ident carry (preserve ident carry fresh existing) existing = preserve ident carry fresh existing"
  by (auto simp: preserve_def carry_ident carry_twice split: option.split)

end

interpretation computed_carry: carry_forward "identity h" carry_finding
    "\<lambda>f. (fd_disposition f, fd_note f)"
  by unfold_locales (simp_all add: identity_def carry_finding_def)

interpretation conflict_carry: carry_forward "conflict_identity h" carry_conflict
    "\<lambda>f. (cf_disposition f, cf_note f)"
  by unfold_locales (simp_all add: conflict_identity_def carry_conflict_def)

section \<open>Identity of contents\<close>

definition content :: "finding \<Rightarrow> string" where
  "content f = finding_kind_string (fd_kind f) @ CHR 0x00 # fd_id f @ CHR 0x00 # fd_text f"

lemma identity_content: "identity h f = h (content f)"
  by (simp add: identity_def identity_of_def content_def)

lemma nul_split:
  fixes c :: char
  assumes "a @ c # b = a' @ c # b'" "c \<notin> set a" "c \<notin> set a'"
  shows "a = a' \<and> b = b'"
  using assms(2,3) arg_cong[OF assms(1), of "cut_at c"] by simp

lemma content_eq:
  assumes "content f = content g" "fd_kind f = FindingJudged" "fd_kind g = FindingJudged"
    and "CHR 0x00 \<notin> set (fd_id f)" "CHR 0x00 \<notin> set (fd_id g)"
  shows "fd_id f = fd_id g \<and> fd_text f = fd_text g"
proof -
  have "fd_id f @ CHR 0x00 # fd_text f = fd_id g @ CHR 0x00 # fd_text g"
    using assms(1) unfolding content_def assms(2,3) by (simp only: same_append_eq list.inject simp_thms)
  then show ?thesis using assms(4,5) by (rule nul_split)
qed

lemma content_same:
  "fd_kind f = fd_kind g \<Longrightarrow> fd_id f = fd_id g \<Longrightarrow> fd_text f = fd_text g \<Longrightarrow> identity h f = identity h g"
  by (simp add: identity_def)

section \<open>The id mint\<close>

lemma cv_prefix_split: "contractViolationIDPrefix = judgedPrefix @ ''contract-violation-''"
  by (simp add: contractViolationIDPrefix_def judgedPrefix_def)

lemma slug_alphabet_append [simp]: "slug_alphabet (a @ b) \<longleftrightarrow> slug_alphabet a \<and> slug_alphabet b"
  by (simp add: slug_alphabet_def)

lemma slug_alphabet_Cons [simp]: "slug_alphabet (c # s) \<longleftrightarrow> is_slug_byte c \<and> slug_alphabet s"
  by (simp add: slug_alphabet_def)

lemma slug_alphabet_literals:
  "slug_alphabet judgedPrefix" "slug_alphabet reservedIDGuard" "slug_alphabet ''-''"
  by (simp_all add: slug_alphabet_def is_slug_byte_def byte_in_def reservedIDGuard_def judgedPrefix_def)

lemma trim_prefix_append [simp]: "trim_prefix (p @ s) p = s"
  by (simp add: trim_prefix_def)

lemma guard_tail: "\<not> collision_suffixed (s @ ''-'' @ reservedIDGuard)"
proof
  assume "collision_suffixed (s @ ''-'' @ reservedIDGuard)"
  then have "digit_tail (s @ ''-'' @ reservedIDGuard) \<noteq> ''''" by (simp add: collision_suffixed_def)
  then show False by (simp add: digit_tail_def reservedIDGuard_def is_digit_def less_eq_char_def)
qed

lemma cv_prefix_guard: "\<not> has_prefix (judgedPrefix @ reservedIDGuard @ t) contractViolationIDPrefix"
  by (simp add: has_prefix_def contractViolationIDPrefix_def reservedIDGuard_def judgedPrefix_def)

lemma cv_prefix_no_digit: "list_all (\<lambda>c. \<not> is_digit c) contractViolationIDPrefix"
  by (simp add: contractViolationIDPrefix_def is_digit_def less_eq_char_def)

lemma cv_prefix_extend:
  assumes "has_prefix i judgedPrefix" "\<not> has_prefix i contractViolationIDPrefix"
    and "collision_suffixed i"
  shows "\<not> has_prefix (i @ ''-'' @ reservedIDGuard) contractViolationIDPrefix"
proof
  assume p: "has_prefix (i @ ''-'' @ reservedIDGuard) contractViolationIDPrefix"
  have "length i < length contractViolationIDPrefix"
  proof (rule ccontr)
    assume "\<not> ?thesis"
    with p have "has_prefix i contractViolationIDPrefix" by (simp add: has_prefix_def)
    with assms(2) show False ..
  qed
  moreover obtain t where "i @ ''-'' @ reservedIDGuard = contractViolationIDPrefix @ t"
    using p unfolding has_prefix_iff by blast
  ultimately have i: "i = take (length i) contractViolationIDPrefix"
    by (metis append_eq_append_conv_if append_eq_conv_conj less_imp_le)
  from assms(3) obtain q n where q: "i = q @ collisionInfix @ n" "n \<noteq> ''''" "list_all is_digit n"
    by (auto simp: collision_suffixed_iff)
  then have d: "is_digit (last i)" "i \<noteq> ''''" by (simp_all add: list_all_iff)
  then have "last i \<in> set i" by simp
  then have "last i \<in> set contractViolationIDPrefix" by (subst (asm) (2) i) (rule in_set_takeD)
  with d(1) show False using cv_prefix_no_digit by (auto simp: list_all_iff)
qed

lemma mint_shape:
  "has_prefix (judged_finding_id raw) judgedPrefix \<and> slug_alphabet (judged_finding_id raw)
     \<and> \<not> is_collision_machinery_id (judged_finding_id raw)"
proof -
  define slug where "slug = ref_slug raw"
  define i where "i = (if has_prefix slug judgedPrefix then slug else judgedPrefix @ slug)"
  define j where "j = (if has_prefix i contractViolationIDPrefix
     then judgedPrefix @ reservedIDGuard @ ''-'' @ trim_prefix i judgedPrefix else i)"
  have s: "slug_alphabet slug" by (simp add: slug_def ref_slug_alphabet)
  have i: "has_prefix i judgedPrefix" "slug_alphabet i"
    using s by (auto simp: i_def slug_alphabet_literals)
  then obtain t where t: "i = judgedPrefix @ t" by (auto simp: has_prefix_iff)
  have j: "has_prefix j judgedPrefix" "slug_alphabet j" "\<not> has_prefix j contractViolationIDPrefix"
    using i t cv_prefix_guard[of "''-'' @ t"] slug_alphabet_append[of "judgedPrefix" t]
    by (auto simp: j_def slug_alphabet_literals slug_literals)
  have r: "judged_finding_id raw =
      (if is_collision_machinery_id j then j @ ''-'' @ reservedIDGuard else j)"
    by (simp add: judged_finding_id_def Let_def slug_def i_def j_def)
  show ?thesis
  proof (cases "is_collision_machinery_id j")
    case True
    with j have "collision_suffixed j" by (simp add: is_collision_machinery_id_def)
    with True r j cv_prefix_extend[of j] guard_tail[of j] show ?thesis
      by (auto simp: is_collision_machinery_id_def slug_alphabet_literals slug_literals has_prefix_iff)
  next
    case False
    with r j show ?thesis by simp
  qed
qed

lemma mint_fixed:
  assumes "has_prefix i judgedPrefix" "slug_alphabet i" "\<not> is_collision_machinery_id i"
  shows "judged_finding_id i = i"
  using assms by (simp add: judged_finding_id_def ref_slug_fixed Let_def is_collision_machinery_id_def)

section \<open>Collision members, in closed form\<close>

definition member_id :: "string \<Rightarrow> bool \<Rightarrow> nat \<Rightarrow> string" where
  "member_id slug backed r =
     (if \<not> backed \<and> r = 0 then slug else slug @ collisionInfix @ show_nat (r + 1))"

definition members :: "string \<Rightarrow> bool \<Rightarrow> finding list \<Rightarrow> finding list" where
  "members slug backed fs = map (\<lambda>r. (fs ! r)\<lparr>fd_id := member_id slug backed r\<rparr>) [0 ..< length fs]"

definition member_step :: "string \<Rightarrow> bool \<Rightarrow> nat \<times> nat \<Rightarrow> finding list \<Rightarrow> finding list" where
  "member_step slug backed = (\<lambda>(r, idx) out.
     if \<not> backed \<and> r = 0 then out
     else out[idx := (out ! idx)\<lparr>fd_id := slug @ collisionInfix @ show_nat (r + 1)\<rparr>])"

lemma member_step_nth:
  assumes "idx < length out" "fd_id (out ! idx) = slug"
  shows "length (member_step slug backed (r, idx) out) = length out
    \<and> member_step slug backed (r, idx) out ! idx = (out ! idx)\<lparr>fd_id := member_id slug backed r\<rparr>
    \<and> (\<forall>j. j \<noteq> idx \<longrightarrow> member_step slug backed (r, idx) out ! j = out ! j)"
  using assms by (auto simp: member_step_def member_id_def)

lemma member_fold:
  assumes "distinct idxs" "\<forall>i \<in> set idxs. i < length out \<and> fd_id (out ! i) = slug"
  shows "length (fold (member_step slug backed) (enumerate k idxs) out) = length out
    \<and> (\<forall>j. j \<notin> set idxs \<longrightarrow> fold (member_step slug backed) (enumerate k idxs) out ! j = out ! j)
    \<and> (\<forall>r < length idxs. fold (member_step slug backed) (enumerate k idxs) out ! (idxs ! r)
          = (out ! (idxs ! r))\<lparr>fd_id := member_id slug backed (k + r)\<rparr>)"
  using assms
proof (induction idxs arbitrary: k out)
  case Nil
  then show ?case by simp
next
  case (Cons i idxs)
  define out' where "out' = member_step slug backed (k, i) out"
  have step: "length out' = length out" "out' ! i = (out ! i)\<lparr>fd_id := member_id slug backed k\<rparr>"
    "\<And>j. j \<noteq> i \<Longrightarrow> out' ! j = out ! j"
    using member_step_nth[of i out slug backed k] Cons.prems(2) by (auto simp: out'_def)
  have "\<forall>j \<in> set idxs. j < length out' \<and> fd_id (out' ! j) = slug"
    using Cons.prems step(1,3) by (metis distinct.simps(2) list.set_intros(2))
  note IH = Cons.IH[of out' "Suc k", OF _ this]
  have fold: "fold (member_step slug backed) (enumerate k (i # idxs)) out =
      fold (member_step slug backed) (enumerate (Suc k) idxs) out'"
    by (simp add: out'_def)
  show ?case
  proof (intro conjI allI impI)
    show "length (fold (member_step slug backed) (enumerate k (i # idxs)) out) = length out"
      using IH Cons.prems step(1) fold by simp
    show "fold (member_step slug backed) (enumerate k (i # idxs)) out ! j = out ! j" if "j \<notin> set (i # idxs)" for j
      using IH Cons.prems step(3)[of j] fold that by simp
    show "fold (member_step slug backed) (enumerate k (i # idxs)) out ! ((i # idxs) ! r)
        = (out ! ((i # idxs) ! r))\<lparr>fd_id := member_id slug backed (k + r)\<rparr>" if r: "r < length (i # idxs)" for r
    proof (cases r)
      case 0
      then show ?thesis using IH Cons.prems step(2) fold by simp
    next
      case (Suc q)
      then have q: "q < length idxs" "idxs ! q \<noteq> i" using r Cons.prems(1) nth_mem[of q idxs] by auto
      then show ?thesis using IH Cons.prems step(3) fold Suc by simp
    qed
  qed
qed

lemma map_insort_key: "map f (insort_key (g \<circ> f) x xs) = insort_key g (f x) (map f xs)"
  by (induction xs) auto

lemma map_sort_key: "map f (sort_key (g \<circ> f) xs) = sort_key g (map f xs)"
  by (induction xs) (simp_all add: sort_key_def map_insort_key[unfolded comp_def] comp_def)

lemma text_rank_sorted: "map ((!) grp) (text_rank grp) = sort_key fd_text grp"
  using map_sort_key[of "(!) grp" fd_text "[0 ..< length grp]"]
  by (simp add: text_rank_def comp_def map_nth)

lemma collision_members_mset:
  assumes "\<forall>f \<in> set grp. fd_id f = slug"
  shows "mset (collision_member_ids slug grp backed) = mset (members slug backed (sort_key fd_text grp))"
proof -
  define out where "out = collision_member_ids slug grp backed"
  have out: "out = fold (member_step slug backed) (enumerate 0 (text_rank grp)) grp"
    by (simp add: out_def collision_member_ids_def member_step_def)
  have rk: "distinct (text_rank grp)" "set (text_rank grp) = {..< length grp}" "length (text_rank grp) = length grp"
    by (auto simp: text_rank_def)
  have pos: "\<forall>i \<in> set (text_rank grp). i < length grp \<and> fd_id (grp ! i) = slug"
    using assms rk(2) by auto
  note f = member_fold[OF rk(1) pos, of backed 0]
  have srt: "sort_key fd_text grp ! r = grp ! (text_rank grp ! r)" if "r < length grp" for r
    using that rk(3) by (simp flip: text_rank_sorted)
  have "map ((!) out) (text_rank grp) = members slug backed (sort_key fd_text grp)"
    by (rule nth_equalityI) (use f rk(3) in \<open>auto simp: out members_def srt\<close>)
  moreover have "mset (map ((!) out) (text_rank grp)) = mset (map ((!) out) [0 ..< length grp])"
    by (simp add: text_rank_def)
  moreover have "map ((!) out) [0 ..< length grp] = out"
    using f out by (metis map_nth)
  ultimately show ?thesis unfolding out_def by metis
qed

lemma members_ids: "map fd_id (members slug backed fs) = map (member_id slug backed) [0 ..< length fs]"
  by (simp add: members_def)

lemma member_id_inj: "member_id slug backed r = member_id slug backed q \<Longrightarrow> r = q"
  by (auto simp: member_id_def collisionInfix_def show_nat_inj split: if_splits)

lemma members_distinct: "distinct (map fd_id (members slug backed fs))"
  unfolding members_ids by (auto simp: distinct_map inj_on_def dest: member_id_inj)

section \<open>No two emitted findings share an id\<close>

definition minted :: "string \<Rightarrow> bool" where
  "minted i \<longleftrightarrow> has_prefix i judgedPrefix \<and> \<not> is_collision_machinery_id i"

definition cv_id :: "string \<Rightarrow> string" where
  "cv_id i = contractViolationIDPrefix @ trim_prefix i judgedPrefix"

definition emits :: "string \<Rightarrow> string \<Rightarrow> bool" where
  "emits i j \<longleftrightarrow> j = i \<or> (\<exists>n. j = i @ collisionInfix @ n \<and> n \<noteq> '''' \<and> list_all is_digit n) \<or> j = cv_id i"

lemma infix_overlap:
  "list_all (\<lambda>k. \<not> has_suffix contractViolationIDPrefix (take k collisionInfix)) [2, 3, 4, 5, 6, 7, 8, 9, 10, 11]"
  by code_simp

lemma infix_prefix_of_cv:
  assumes "contractViolationIDPrefix = i @ us" "us @ vs = collisionInfix"
  shows "us = '''' \<or> us = ''-''"
proof -
  have k: "length us \<le> 11" using arg_cong[OF assms(2), of length] by (simp add: collisionInfix_def)
  have us: "us = take (length us) collisionInfix" using assms(2) by (metis append_eq_conv_conj)
  have sfx: "has_suffix contractViolationIDPrefix (take (length us) collisionInfix)"
    using assms(1) us by (auto simp: has_suffix_iff)
  have "length us \<notin> set [2, 3, 4, 5, 6, 7, 8, 9, 10, 11]"
    using sfx infix_overlap by (auto simp only: list_all_iff)
  with k have "length us = 0 \<or> length us = 1" unfolding list.set insert_iff empty_iff by presburger
  with us show ?thesis by (elim disjE) (simp_all add: collisionInfix_def)
qed

lemma cv_not_member:
  assumes "minted i" "minted i'" "n \<noteq> ''''" "list_all is_digit n"
  shows "cv_id i' \<noteq> i @ collisionInfix @ n"
proof
  assume eq: "cv_id i' = i @ collisionInfix @ n"
  define t where "t = trim_prefix i' judgedPrefix"
  have i': "i' = judgedPrefix @ t" using assms(2) by (auto simp: minted_def t_def has_prefix_iff)
  have np: "\<not> has_prefix i contractViolationIDPrefix"
    using assms(1) by (simp add: minted_def is_collision_machinery_id_def)
  from eq have "contractViolationIDPrefix @ t = i @ (collisionInfix @ n)" by (simp add: cv_id_def t_def)
  then obtain us where us: "contractViolationIDPrefix = i @ us" "us @ t = collisionInfix @ n"
    using np by (auto simp: append_eq_append_conv2 has_prefix_iff)
  from us(2) consider vs where "us = collisionInfix @ vs" "vs @ t = n"
    | vs where "us @ vs = collisionInfix" "t = vs @ n"
    by (auto simp: append_eq_append_conv2)
  then show False
  proof cases
    case 1
    show False
    proof (cases "vs = []")
      case True
      with 1 us(1) infix_prefix_of_cv[of i us "[]"] show False by (simp add: collisionInfix_def)
    next
      case False
      with 1 assms(4) have "is_digit (hd vs)" by (auto simp: neq_Nil_conv)
      moreover have "hd vs \<in> set vs" using False by simp
      then have "hd vs \<in> set contractViolationIDPrefix" unfolding us(1) 1(1) by simp
      ultimately show False using cv_prefix_no_digit by (auto simp: list_all_iff)
    qed
  next
    case 2
    from infix_prefix_of_cv[OF us(1) 2(1)] show False
    proof
      assume "us = ''''"
      with us(1) np show False by (simp add: has_prefix_def)
    next
      assume "us = ''-''"
      with 2 have "i' = ''judged'' @ collisionInfix @ n" by (simp add: i' judgedPrefix_def flip: 2(1))
      with assms(3,4) have "collision_suffixed i'" unfolding collision_suffixed_iff by blast
      with assms(2) show False by (simp add: minted_def is_collision_machinery_id_def)
    qed
  qed
qed

lemma cv_id_inj: "minted i \<Longrightarrow> minted i' \<Longrightarrow> cv_id i = cv_id i' \<Longrightarrow> i = i'"
  by (auto simp: cv_id_def minted_def has_prefix_iff)

lemma minted_not_minted_shape:
  assumes "minted i"
  shows "i \<noteq> cv_id i'" "n \<noteq> '''' \<Longrightarrow> list_all is_digit n \<Longrightarrow> i \<noteq> i' @ collisionInfix @ n"
  using assms by (auto simp: minted_def is_collision_machinery_id_def cv_id_def collision_suffixed_iff)

lemma emits_inj:
  assumes "minted i" "minted i'" "emits i j" "emits i' j"
  shows "i = i'"
proof -
  from assms(3) consider "j = i" | n where "j = i @ collisionInfix @ n" "n \<noteq> ''''" "list_all is_digit n"
    | "j = cv_id i" by (auto simp: emits_def)
  then show ?thesis
  proof cases
    case 1
    with assms(4) minted_not_minted_shape[OF assms(1)] show ?thesis unfolding emits_def by blast
  next
    case 2
    with assms(4) have "emits i' (i @ collisionInfix @ n)" by simp
    then consider "i @ collisionInfix @ n = i'"
      | n' where "i @ collisionInfix @ n = i' @ collisionInfix @ n'" "list_all is_digit n'"
      | "i @ collisionInfix @ n = cv_id i'" unfolding emits_def by blast
    then show ?thesis
    proof cases
      case 1
      then show ?thesis using minted_not_minted_shape(2)[OF assms(2) 2(2,3), of i] by metis
    next
      case (2 n')
      then show ?thesis using suffix_unique \<open>list_all is_digit n\<close> by metis
    next
      case 3
      then show ?thesis using cv_not_member[OF assms(1,2) 2(2,3)] by metis
    qed
  next
    case 3
    with assms(4) have "emits i' (cv_id i)" by simp
    then consider "cv_id i = i'"
      | n where "cv_id i = i' @ collisionInfix @ n" "n \<noteq> ''''" "list_all is_digit n"
      | "cv_id i = cv_id i'" unfolding emits_def by blast
    then show ?thesis
    proof cases
      case 1
      then show ?thesis using minted_not_minted_shape(1)[OF assms(2), of i] by metis
    next
      case (2 n)
      then show ?thesis using cv_not_member[OF assms(2,1) 2(2,3)] by metis
    next
      case 3
      then show ?thesis by (rule cv_id_inj[OF assms(1,2)])
    qed
  qed
qed

lemma cv_finding_id: "fd_id (contract_violation_finding i grp) = cv_id i"
  by (simp add: contract_violation_finding_def cv_id_def)

lemma member_id_emits: "emits i (member_id i backed r)"
  using show_nat_digits by (auto simp: emits_def member_id_def)

lemma group_of_ids: "\<forall>f \<in> set (group_of fresh i). fd_id f = i"
  by (simp add: group_of_def)

lemma emit_group_mset:
  "mset (emit_group fresh existing archived i) =
     (let grp = group_of fresh i in
      if 1 < length grp
      then add_mset (contract_violation_finding i grp)
             (mset (members i (backing_by_id fresh existing archived i) (sort_key fd_text grp)))
      else mset grp)"
  by (simp add: emit_group_def Let_def collision_members_mset[OF group_of_ids])

lemma mset_distinct_map: "mset xs = mset ys \<Longrightarrow> distinct (map f xs) \<longleftrightarrow> distinct (map f ys)"
  by (metis mset_eq_imp_distinct_iff mset_map)

lemma emit_group_emits:
  assumes "f \<in> set (emit_group fresh existing archived i)"
  shows "emits i (fd_id f)"
proof -
  from assms have f: "f \<in># mset (emit_group fresh existing archived i)" by simp
  show ?thesis
  proof (cases "1 < length (group_of fresh i)")
    case True
    with f consider "f = contract_violation_finding i (group_of fresh i)"
      | "f \<in> set (members i (backing_by_id fresh existing archived i) (sort_key fd_text (group_of fresh i)))"
      unfolding emit_group_mset by (auto simp: Let_def)
    then show ?thesis
      by cases (auto simp: cv_finding_id members_def member_id_emits, simp add: emits_def)
  next
    case False
    with f have "f \<in> set (group_of fresh i)" unfolding emit_group_mset by (simp add: Let_def)
    then show ?thesis by (simp add: group_of_def emits_def)
  qed
qed

lemma emit_group_distinct:
  assumes "minted i"
  shows "distinct (map fd_id (emit_group fresh existing archived i))"
proof (cases "1 < length (group_of fresh i)")
  case True
  define fs where "fs = members i (backing_by_id fresh existing archived i) (sort_key fd_text (group_of fresh i))"
  have "mset (emit_group fresh existing archived i) =
      mset (contract_violation_finding i (group_of fresh i) # fs)"
    using True unfolding emit_group_mset by (simp add: Let_def fs_def)
  moreover have "member_id i backed r \<noteq> cv_id i" for backed r
    using cv_not_member[OF assms assms, of "show_nat (r + 1)"] minted_not_minted_shape(1)[OF assms, of i]
      show_nat_digits[of "r + 1"] by (auto simp: member_id_def)
  then have "cv_id i \<notin> fd_id ` set fs" by (auto simp: fs_def members_def image_iff dest: sym)
  ultimately show ?thesis
    using mset_distinct_map[of "emit_group fresh existing archived i"
        "contract_violation_finding i (group_of fresh i) # fs" fd_id] members_distinct
    by (simp add: cv_finding_id fs_def)
next
  case False
  then show ?thesis by (cases "group_of fresh i") (auto simp: emit_group_def Let_def)
qed

lemma distinct_concat_map:
  assumes "distinct is" "\<And>i. i \<in> set is \<Longrightarrow> distinct (F i)"
    and "\<And>i j x. i \<in> set is \<Longrightarrow> j \<in> set is \<Longrightarrow> x \<in> set (F i) \<Longrightarrow> x \<in> set (F j) \<Longrightarrow> i = j"
  shows "distinct (concat (map F is))"
  using assms by (induction "is") auto

lemma first_seen_snoc:
  "first_seen (xs @ [x]) = (if x \<in> set (first_seen xs) then first_seen xs else first_seen xs @ [x])"
  by (simp add: first_seen_def)

lemma first_seen_set: "set (first_seen xs) = set xs \<and> distinct (first_seen xs)"
proof (induction xs rule: rev_induct)
  case Nil
  then show ?case by (simp add: first_seen_def)
next
  case (snoc x xs)
  then show ?case by (auto simp: first_seen_snoc)
qed

lemma judged_ids_set: "set (judged_ids fresh) = {i. group_of fresh i \<noteq> []}"
  by (auto simp: judged_ids_def first_seen_set group_of_def filter_empty_conv)

lemma judged_ids_distinct: "distinct (judged_ids fresh)"
  by (simp add: judged_ids_def first_seen_set)

definition fresh_minted :: "finding list \<Rightarrow> bool" where
  "fresh_minted fresh \<longleftrightarrow> (\<forall>f \<in> set fresh. fd_kind f = FindingJudged \<longrightarrow> minted (fd_id f))"

lemma judged_ids_minted: "fresh_minted fresh \<Longrightarrow> i \<in> set (judged_ids fresh) \<Longrightarrow> minted i"
  by (auto simp: judged_ids_set fresh_minted_def group_of_def filter_empty_conv)

lemma emitted_distinct:
  assumes "fresh_minted fresh"
  shows "distinct (map fd_id (emitted fresh existing archived))"
proof -
  have "distinct (concat (map (\<lambda>i. map fd_id (emit_group fresh existing archived i)) (judged_ids fresh)))"
  proof (rule distinct_concat_map)
    show "distinct (judged_ids fresh)" by (rule judged_ids_distinct)
    show "distinct (map fd_id (emit_group fresh existing archived i))" if "i \<in> set (judged_ids fresh)" for i
      using emit_group_distinct judged_ids_minted[OF assms that] by blast
    show "i = j" if "i \<in> set (judged_ids fresh)" "j \<in> set (judged_ids fresh)"
      "x \<in> set (map fd_id (emit_group fresh existing archived i))"
      "x \<in> set (map fd_id (emit_group fresh existing archived j))" for i j x
      using that emits_inj judged_ids_minted[OF assms] emit_group_emits by (metis imageE list.set_map)
  qed
  then show ?thesis by (simp add: emitted_def map_concat comp_def)
qed

section \<open>Every ruling is carried or kept\<close>

definition findings_of_kind :: "finding list \<Rightarrow> finding_kind \<Rightarrow> finding list" where
  "findings_of_kind fs k = filter (\<lambda>f. fd_kind f = k) fs"

text \<open>What the caller supplies: fresh findings are undispositioned and carry ids of the
  mint, and the hash separates the contents of this run.\<close>

definition judge_output :: "finding list \<Rightarrow> bool" where
  "judge_output fresh \<longleftrightarrow>
     (\<forall>f \<in> set fresh. minted (fd_id f) \<and> slug_alphabet (fd_id f) \<and> fd_text f \<noteq> ''''
        \<and> fd_disposition f = undispositioned \<and> fd_note f = '''' \<and> fd_carried_from f = '''')"

definition hash_separates ::
  "(string \<Rightarrow> string) \<Rightarrow> finding list \<Rightarrow> finding list \<Rightarrow> finding list \<Rightarrow> bool" where
  "hash_separates h fresh existing archived \<longleftrightarrow>
     inj_on h (content ` set (emitted fresh existing archived @ rulings existing archived))
     \<and> (\<forall>p \<in> set (rulings existing archived). CHR 0x00 \<notin> set (fd_id p))"

lemma emitted_cases:
  assumes "f \<in> set (emitted fresh existing archived)"
  obtains i where "i \<in> set (judged_ids fresh)" "f \<in> set (emit_group fresh existing archived i)"
  using assms by (auto simp: emitted_def)

lemma emit_group_cases:
  assumes "f \<in> set (emit_group fresh existing archived i)"
  obtains g where "g \<in> set (group_of fresh i)" "f = g" "length (group_of fresh i) = 1"
  | r where "r < length (group_of fresh i)" "1 < length (group_of fresh i)"
      "f = (sort_key fd_text (group_of fresh i) ! r)
             \<lparr>fd_id := member_id i (backing_by_id fresh existing archived i) r\<rparr>"
  | "1 < length (group_of fresh i)" "f = contract_violation_finding i (group_of fresh i)"
proof -
  from assms have f: "f \<in># mset (emit_group fresh existing archived i)" by simp
  show thesis
  proof (cases "1 < length (group_of fresh i)")
    case True
    with f consider "f = contract_violation_finding i (group_of fresh i)"
      | "f \<in> set (members i (backing_by_id fresh existing archived i) (sort_key fd_text (group_of fresh i)))"
      unfolding emit_group_mset by (auto simp: Let_def)
    then show thesis
    proof cases
      case 1
      with True that(3) show thesis by blast
    next
      case 2
      with True that(2) show thesis by (auto simp: members_def)
    qed
  next
    case False
    with f have g: "f \<in> set (group_of fresh i)" unfolding emit_group_mset by (simp add: Let_def)
    with False have "length (group_of fresh i) = 1" by (cases "group_of fresh i") auto
    with g that(1) show thesis by blast
  qed
qed

lemma sorted_member: "r < length grp \<Longrightarrow> sort_key fd_text grp ! r \<in> set grp"
  by (metis length_sort nth_mem set_sort)

lemma member_text_nonempty:
  "judge_output fresh \<Longrightarrow> g \<in> set (group_of fresh i) \<Longrightarrow>
     fd_kind g = FindingJudged \<and> fd_text g \<noteq> '''' \<and> fd_disposition g = undispositioned
     \<and> fd_note g = '''' \<and> fd_carried_from g = '''' \<and> minted (fd_id g) \<and> slug_alphabet (fd_id g)"
  by (auto simp: group_of_def judge_output_def)

lemma cv_text_nonempty: "fd_text (contract_violation_finding i grp) \<noteq> ''''"
  by (simp add: contract_violation_finding_def contract_violation_text_def)

lemma emitted_plain:
  assumes "judge_output fresh" "f \<in> set (emitted fresh existing archived)"
  shows "fd_kind f = FindingJudged \<and> fd_text f \<noteq> '''' \<and> fd_disposition f = undispositioned
     \<and> fd_note f = '''' \<and> fd_carried_from f = ''''"
proof -
  from assms(2) obtain i where "f \<in> set (emit_group fresh existing archived i)" by (rule emitted_cases)
  then show ?thesis
  proof (cases rule: emit_group_cases)
    case (1 g)
    with member_text_nonempty[OF assms(1)] show ?thesis by blast
  next
    case (2 r)
    with member_text_nonempty[OF assms(1) sorted_member[OF 2(1)]] show ?thesis by simp
  next
    case 3
    with cv_text_nonempty show ?thesis by (simp add: contract_violation_finding_def)
  qed
qed

lemma digit_slug: "is_digit c \<Longrightarrow> is_slug_byte c"
  by (simp add: is_digit_def is_slug_byte_def byte_in_def less_eq_char_def)

lemma slug_no_nul: "slug_alphabet s \<Longrightarrow> CHR 0x00 \<notin> set s"
proof
  assume "slug_alphabet s" "CHR 0x00 \<in> set s"
  then have "is_slug_byte CHR 0x00" by (simp add: slug_alphabet_def list_all_iff)
  then show False by (simp add: is_slug_byte_def byte_in_def)
qed

lemma emits_slug:
  assumes "emits i j" "slug_alphabet i"
  shows "slug_alphabet j"
proof -
  have l: "slug_alphabet collisionInfix" "slug_alphabet contractViolationIDPrefix"
    by (simp_all add: collisionInfix_def contractViolationIDPrefix_def is_slug_byte_def byte_in_def
          slug_alphabet_def)
  have "slug_alphabet n" if "list_all is_digit n" for n
    using that digit_slug by (auto simp: slug_alphabet_def list_all_iff)
  moreover have "slug_alphabet (trim_prefix i judgedPrefix)"
    using assms(2) by (auto simp: trim_prefix_def slug_alphabet_def list_all_iff dest: in_set_dropD)
  ultimately show ?thesis using assms l by (auto simp: emits_def cv_id_def)
qed

lemma emitted_no_nul:
  assumes "judge_output fresh" "f \<in> set (emitted fresh existing archived)"
  shows "CHR 0x00 \<notin> set (fd_id f)"
proof -
  from assms(2) obtain i where i: "i \<in> set (judged_ids fresh)" "f \<in> set (emit_group fresh existing archived i)"
    by (rule emitted_cases)
  from i(1) have "hd (group_of fresh i) \<in> set (group_of fresh i)" by (simp add: judged_ids_set)
  then obtain g where "g \<in> set (group_of fresh i)" by blast
  then have "slug_alphabet i" using member_text_nonempty[OF assms(1)] group_of_ids by metis
  with emit_group_emits[OF i(2)] show ?thesis using emits_slug slug_no_nul by blast
qed

lemma exact_match_iff:
  assumes "judge_output fresh" "hash_separates h fresh existing archived"
    and "f \<in> set (emitted fresh existing archived)" "p \<in> set (rulings existing archived)"
  shows "identity h f = identity h p \<longleftrightarrow> fd_id f = fd_id p \<and> fd_text f = fd_text p"
proof
  have k: "fd_kind f = FindingJudged" "fd_kind p = FindingJudged"
    using emitted_plain[OF assms(1,3)] assms(4) by (auto simp: rulings_def is_ruling_def)
  show "fd_id f = fd_id p \<and> fd_text f = fd_text p" if "identity h f = identity h p"
  proof (rule content_eq[OF _ k emitted_no_nul[OF assms(1,3)]])
    show "content f = content p"
      using that assms(2,3,4) unfolding hash_separates_def identity_content inj_on_def by auto
    show "CHR 0x00 \<notin> set (fd_id p)" using assms(2,4) by (simp add: hash_separates_def)
  qed
  show "identity h f = identity h p" if "fd_id f = fd_id p \<and> fd_text f = fd_text p"
    using that k content_same by metis
qed

abbreviation carried :: "(string \<Rightarrow> string) \<Rightarrow> finding list \<Rightarrow> finding list \<Rightarrow> finding \<Rightarrow> finding" where
  "carried h existing archived f \<equiv>
     fst (carry_exact_match h (index_by (identity h) (rulings existing archived)) f)"

lemma carried_content: "fd_id (carried h existing archived f) = fd_id f \<and>
    fd_kind (carried h existing archived f) = fd_kind f \<and> fd_text (carried h existing archived f) = fd_text f"
  by (simp add: carry_exact_match_def split: option.split)

lemma carried_cases:
  obtains p where "p \<in> set (rulings existing archived)" "identity h p = identity h f"
      "index_by (identity h) (rulings existing archived) (identity h f) = Some p"
      "carried h existing archived f = f\<lparr>fd_disposition := fd_disposition p, fd_note := fd_note p,
         fd_carried_from := fd_carried_from p\<rparr>"
  | "identity h f \<notin> identity h ` set (rulings existing archived)" "carried h existing archived f = f"
      "index_by (identity h) (rulings existing archived) (identity h f) = None"
proof (cases "index_by (identity h) (rulings existing archived) (identity h f)")
  case None
  then have "identity h f \<notin> identity h ` set (rulings existing archived)" by (simp add: index_by_None)
  with None that(2) show thesis by (simp add: carry_exact_match_def)
next
  case (Some p)
  then have "carried h existing archived f = f\<lparr>fd_disposition := fd_disposition p, fd_note := fd_note p,
         fd_carried_from := fd_carried_from p\<rparr>" by (simp add: carry_exact_match_def)
  with index_by_Some[OF Some] that(1)[of p] Some show thesis by blast
qed

lemma reconcile_findings:
  "rc_findings (reconcile_judged h fresh existing archived) =
     map (carried h existing archived) (emitted fresh existing archived)"
  by (simp add: reconcile_judged_def Let_def)

lemma reconcile_kept:
  "p \<in> set (rc_not_resurfaced (reconcile_judged h fresh existing archived)) \<longleftrightarrow>
     p \<in> set (rulings existing archived)
     \<and> (\<forall>f \<in> set (emitted fresh existing archived). identity h f \<noteq> identity h p)"
proof -
  have "index_by (identity h) (rulings existing archived) (identity h p) \<noteq> None"
    if "p \<in> set (rulings existing archived)" using that by (simp add: index_by_None)
  then show ?thesis
    by (auto simp: reconcile_judged_def Let_def image_iff)
qed

lemma reconcile_candidates:
  "rc_candidates (reconcile_judged h fresh existing archived) = candidate_for h fresh existing archived"
  by (simp add: reconcile_judged_def Let_def)

section \<open>What a valid prior report contributes\<close>

lemma kinds_lookup:
  assumes "distinct (map fd_id fs)"
  shows "dispositioned_kinds fs i = Some k \<longleftrightarrow> (\<exists>f \<in> set fs. dispositioned f \<and> fd_id f = i \<and> fd_kind f = k)"
proof
  assume "dispositioned_kinds fs i = Some k"
  then obtain f where "find (\<lambda>f. dispositioned f \<and> fd_id f = i) (rev fs) = Some f" "k = fd_kind f"
    by (auto simp: dispositioned_kinds_def fold_kinds_lookup split: option.splits)
  then show "\<exists>f \<in> set fs. dispositioned f \<and> fd_id f = i \<and> fd_kind f = k"
    by (auto simp: find_Some_iff) (metis length_rev nth_mem set_rev)
next
  assume "\<exists>f \<in> set fs. dispositioned f \<and> fd_id f = i \<and> fd_kind f = k"
  then obtain f :: finding where f: "f \<in> set fs" "dispositioned f" "fd_id f = i" "fd_kind f = k" by blast
  have "find (\<lambda>f. dispositioned f \<and> fd_id f = i) (rev fs) \<noteq> None"
    using f by (auto simp: find_None_iff)
  then obtain g where g: "find (\<lambda>f. dispositioned f \<and> fd_id f = i) (rev fs) = Some g" by blast
  then have "g \<in> set fs" "fd_id g = i"
    by (auto simp: find_Some_iff) (metis length_rev nth_mem set_rev)
  with f assms have "g = f" by (metis distinct_map inj_onD)
  with g f show "dispositioned_kinds fs i = Some k"
    by (simp add: dispositioned_kinds_def fold_kinds_lookup)
qed

lemma deviation_valid_iff:
  "deviation_validate fm = None \<Longrightarrow>
     (\<forall>f \<in> set (dv_findings fm). finding_validate f = None) \<and> distinct (map fd_id (dv_findings fm))
     \<and> (\<forall>p \<in> set (dv_not_resurfaced fm). archived_ok (dispositioned_kinds (dv_findings fm)) p)
     \<and> distinct (map fd_id (dv_not_resurfaced fm))"
  by (simp add: deviation_validate_def scan_seen_None archived_scan_None)

abbreviation prior_rulings :: "deviation \<Rightarrow> finding list" where
  "prior_rulings fm \<equiv> rulings (findings_of_kind (dv_findings fm) FindingJudged) (dv_not_resurfaced fm)"

lemma prior_ruling_cases:
  assumes "p \<in> set (prior_rulings fm)"
  shows "is_ruling p \<and> (p \<in> set (dv_findings fm) \<or> p \<in> set (dv_not_resurfaced fm))"
  using assms by (auto simp: rulings_def findings_of_kind_def)

lemma distinct_map_filter_append:
  assumes "distinct (map f xs)" "distinct (map f ys)"
    and "\<And>x y. x \<in> set xs \<Longrightarrow> y \<in> set ys \<Longrightarrow> P x \<Longrightarrow> P y \<Longrightarrow> f x \<noteq> f y"
  shows "distinct (map f (filter P (xs @ ys)))"
  using assms by (auto simp: distinct_map inj_on_def)

lemma distinct_map_filter_sub:
  "distinct (map f (filter P xs)) \<Longrightarrow> distinct (map f (filter P (filter Q xs)))"
  by (induction xs) auto

lemma prior_cross:
  assumes "deviation_validate fm = None"
    and "x \<in> set (dv_findings fm)" "y \<in> set (dv_not_resurfaced fm)" "is_ruling x" "is_ruling y"
    and "fd_id x = fd_id y"
  shows "is_collision_machinery_id (fd_id y)"
proof -
  have "dispositioned_kinds (dv_findings fm) (fd_id y) = Some FindingJudged"
    using deviation_valid_iff[OF assms(1)] kinds_lookup assms(2,4,6) by (auto simp: is_ruling_def)
  moreover have "archived_ok (dispositioned_kinds (dv_findings fm)) y" "fd_kind y = FindingJudged"
    using deviation_valid_iff[OF assms(1)] assms(3,5) by (auto simp: is_ruling_def)
  ultimately show ?thesis by (simp add: archived_ok_def)
qed

lemma prior_rulings_distinct:
  assumes "deviation_validate fm = None"
  shows "distinct (map fd_id (filter (\<lambda>p. \<not> is_collision_machinery_id (fd_id p)) (prior_rulings fm)))"
proof -
  have "distinct (map fd_id (filter (\<lambda>p. is_ruling p \<and> \<not> is_collision_machinery_id (fd_id p))
      (findings_of_kind (dv_findings fm) FindingJudged @ dv_not_resurfaced fm)))"
  proof (rule distinct_map_filter_append)
    show "distinct (map fd_id (findings_of_kind (dv_findings fm) FindingJudged))"
      using deviation_valid_iff[OF assms] by (simp add: findings_of_kind_def distinct_map_filter)
    show "distinct (map fd_id (dv_not_resurfaced fm))"
      using deviation_valid_iff[OF assms] by blast
  qed (use prior_cross[OF assms] in \<open>auto simp: findings_of_kind_def\<close>)
  then show ?thesis by (simp add: rulings_def conj_commute filter_filter)
qed

lemma prior_ruling_unique:
  assumes "deviation_validate fm = None" "p \<in> set (prior_rulings fm)" "q \<in> set (prior_rulings fm)"
    and "fd_id p = fd_id q" "\<not> is_collision_machinery_id (fd_id q)"
  shows "p = q"
  using prior_rulings_distinct[OF assms(1)] assms(2-5) unfolding distinct_map inj_on_def by auto

lemma prior_ruling_valid:
  assumes "deviation_validate fm = None" "p \<in> set (prior_rulings fm)"
  shows "finding_validate p = None"
  using prior_ruling_cases[OF assms(2)] deviation_valid_iff[OF assms(1)] by (auto simp: archived_ok_def)

section \<open>The regenerated report\<close>

lemma emits_bare:
  assumes "emits i j" "\<not> is_collision_machinery_id j"
  shows "j = i"
  using assms by (auto simp: emits_def is_collision_machinery_id_def collision_suffixed_iff cv_id_def)

lemma emits_nonempty: "emits i j \<Longrightarrow> minted i \<Longrightarrow> j \<noteq> ''''"
  by (auto simp: emits_def cv_id_def minted_def has_prefix_iff judgedPrefix_def contractViolationIDPrefix_def)

lemma judge_output_minted: "judge_output fresh \<Longrightarrow> fresh_minted fresh"
  by (simp add: judge_output_def fresh_minted_def)

lemma carried_valid:
  assumes "deviation_validate fm = None" "judge_output fresh"
    and "f \<in> set (emitted fresh (findings_of_kind (dv_findings fm) FindingJudged) (dv_not_resurfaced fm))"
  shows "finding_validate (carried h (findings_of_kind (dv_findings fm) FindingJudged) (dv_not_resurfaced fm) f) = None"
proof -
  from assms(3) obtain i where i: "i \<in> set (judged_ids fresh)"
    "f \<in> set (emit_group fresh (findings_of_kind (dv_findings fm) FindingJudged) (dv_not_resurfaced fm) i)"
    by (rule emitted_cases)
  have ne: "fd_id f \<noteq> ''''"
    using emits_nonempty[OF emit_group_emits[OF i(2)]] judged_ids_minted[OF judge_output_minted[OF assms(2)] i(1)] .
  note pl = emitted_plain[OF assms(2,3)]
  show ?thesis
  proof (rule carried_cases[of "findings_of_kind (dv_findings fm) FindingJudged" "dv_not_resurfaced fm" h f], goal_cases hit miss)
    case (hit p)
    with prior_ruling_valid[OF assms(1) hit(1)] ne pl show ?thesis
      by (simp add: finding_validate_def dispositioned_def)
  next
    case miss
    with ne pl show ?thesis by (simp add: finding_validate_def dispositioned_def)
  qed
qed

lemma min_fold:
  "fold (\<lambda>f m. if fd_text f < m then fd_text f else m) fs m0 \<in> insert m0 (fd_text ` set fs)
   \<and> fold (\<lambda>f m. if fd_text f < m then fd_text f else m) fs m0 \<le> m0
   \<and> (\<forall>f \<in> set fs. fold (\<lambda>f m. if fd_text f < m then fd_text f else m) fs m0 \<le> fd_text f)"
proof (induction fs arbitrary: m0)
  case Nil
  then show ?case by simp
next
  case (Cons f fs)
  define m1 where "m1 = (if fd_text f < m0 then fd_text f else m0)"
  have m: "m1 \<le> m0" "m1 \<le> fd_text f" "m1 \<in> {m0, fd_text f}" by (auto simp: m1_def)
  show ?case using Cons.IH[of m1] m by (auto simp: m1_def[symmetric] intro: order_trans)
qed

lemma min_member_sorted:
  assumes "grp \<noteq> []"
  shows "min_member_text grp = fd_text (sort_key fd_text grp ! 0)"
proof (rule antisym)
  have ne: "sort_key fd_text grp \<noteq> []" using assms by (metis length_0_conv length_sort)
  have m: "min_member_text grp \<in> fd_text ` set grp" "\<forall>f \<in> set grp. min_member_text grp \<le> fd_text f"
    using assms min_fold[of "tl grp" "fd_text (hd grp)"]
    by (cases grp; auto simp: min_member_text_def)+
  have s: "sort_key fd_text grp ! 0 \<in> set grp" using sorted_member[of 0 grp] assms by simp
  then show "min_member_text grp \<le> fd_text (sort_key fd_text grp ! 0)" using m(2) by blast
  have "sorted (map fd_text (sort_key fd_text grp))" by simp
  then have "\<forall>t \<in> set (map fd_text (sort_key fd_text grp)). fd_text (sort_key fd_text grp ! 0) \<le> t"
    using ne by (cases "sort_key fd_text grp") auto
  with m(1) show "fd_text (sort_key fd_text grp ! 0) \<le> min_member_text grp" by auto
qed

lemma carried_dispositioned:
  assumes "judge_output fresh" "f \<in> set (emitted fresh existing archived)"
  shows "dispositioned (carried h existing archived f) \<longleftrightarrow>
     identity h f \<in> identity h ` set (rulings existing archived)"
proof (rule carried_cases[of existing archived h f], goal_cases hit miss)
  case (hit p)
  then have "dispositioned p" by (auto simp: rulings_def is_ruling_def)
  with hit show ?case by (simp add: dispositioned_def) (metis imageI)
next
  case miss
  with emitted_plain[OF assms] show ?case by (simp add: dispositioned_def)
qed

text \<open>A backing record that survives next to a live finding under the same ordinary id
  belongs to the single fresh finding of that slug, which it does not match.\<close>

lemma backing_single:
  assumes "deviation_validate fm = None" "judge_output fresh"
    and "existing = findings_of_kind (dv_findings fm) FindingJudged" "archived = dv_not_resurfaced fm"
    and "hash_separates h fresh existing archived"
    and "p \<in> set (rc_not_resurfaced (reconcile_judged h fresh existing archived))"
    and "f \<in> set (emitted fresh existing archived)" "fd_id f = fd_id p"
    and "\<not> is_collision_machinery_id (fd_id p)"
  shows "group_of fresh (fd_id p) = [f]"
proof -
  have p: "p \<in> set (rulings existing archived)"
    "\<And>g. g \<in> set (emitted fresh existing archived) \<Longrightarrow> identity h g \<noteq> identity h p"
    using assms(6) unfolding reconcile_kept by auto
  obtain i where i: "i \<in> set (judged_ids fresh)" "f \<in> set (emit_group fresh existing archived i)"
    using assms(7) by (rule emitted_cases)
  have ip: "i = fd_id p" using emits_bare[OF emit_group_emits[OF i(2)]] assms(8,9) by simp
  from i(2) show ?thesis
  proof (cases rule: emit_group_cases)
    case (1 g)
    then show ?thesis by (metis One_nat_def ip length_0_conv length_Suc_conv list.set_intros(1) set_ConsD
          empty_iff list.set(1))
  next
    case (2 r)
    have "member_id i (backing_by_id fresh existing archived i) r = i" using 2(3) assms(8) ip by simp
    then have b: "\<not> backing_by_id fresh existing archived i" "r = 0"
      by (auto simp: member_id_def collisionInfix_def split: if_splits)
    have "index_by fd_id (rulings existing archived) i = Some p"
      using index_by_unique[of p "rulings existing archived" fd_id] prior_ruling_unique[OF assms(1)]
        p(1) assms(3,4,9) ip by metis
    with b(1) 2(2) have "min_member_text (group_of fresh i) = fd_text p"
      by (auto simp: backing_by_id_def)
    moreover have "min_member_text (group_of fresh i) = fd_text f"
      using 2 b(2) min_member_sorted[of "group_of fresh i"] by (cases "group_of fresh i") auto
    ultimately have "identity h f = identity h p"
      using exact_match_iff[OF assms(2,5,7) p(1)] assms(8) by simp
    with p(2) assms(7) show ?thesis by blast
  next
    case 3
    then have "fd_id p = cv_id i" using assms(8) cv_finding_id[of i "group_of fresh i"] by simp
    then have "is_collision_machinery_id (fd_id p)" by (simp add: is_collision_machinery_id_def cv_id_def)
    with assms(9) show ?thesis ..
  qed
qed

lemma single_emitted: "group_of fresh i = [f] \<Longrightarrow> f \<in> set (emitted fresh existing archived)"
proof -
  assume g: "group_of fresh i = [f]"
  then have "i \<in> set (judged_ids fresh)" "emit_group fresh existing archived i = [f]"
    by (simp_all add: judged_ids_set emit_group_def)
  then show ?thesis by (auto simp: emitted_def intro!: bexI[of _ i])
qed

definition ruling_candidate :: "finding \<Rightarrow> judged_candidate" where
  "ruling_candidate p =
     \<lparr>jc_disposition = fd_disposition p, jc_text = fd_text p, jc_note = fd_note p, jc_archive_source = ''''\<rparr>"

lemma ruling_index:
  assumes "deviation_validate fm = None" "p \<in> set (prior_rulings fm)"
    and "\<not> is_collision_machinery_id (fd_id p)"
  shows "index_by fd_id (prior_rulings fm) (fd_id p) = Some p"
  by (rule index_by_unique[OF assms(2)]) (use prior_ruling_unique[OF assms(1)] assms(2,3) in metis)

lemma coexist_unmatched:
  assumes "deviation_validate fm = None" "judge_output fresh"
    and "existing = findings_of_kind (dv_findings fm) FindingJudged" "archived = dv_not_resurfaced fm"
    and "hash_separates h fresh existing archived"
    and "p \<in> set (rulings existing archived)" "f \<in> set (emitted fresh existing archived)"
    and "identity h f \<noteq> identity h p" "fd_id f = fd_id p" "\<not> is_collision_machinery_id (fd_id p)"
  shows "identity h f \<notin> identity h ` set (rulings existing archived)"
proof
  assume "identity h f \<in> identity h ` set (rulings existing archived)"
  then obtain q where q: "q \<in> set (rulings existing archived)" "identity h f = identity h q" by blast
  then have "fd_id q = fd_id p" using exact_match_iff[OF assms(2,5,7) q(1)] assms(9) by simp
  then have "q = p" using prior_ruling_unique[OF assms(1)] q(1) assms(3,4,6,10) by metis
  with q(2) assms(8) show False by simp
qed

lemma coexist_candidate:
  assumes "deviation_validate fm = None" "judge_output fresh"
    and "existing = findings_of_kind (dv_findings fm) FindingJudged" "archived = dv_not_resurfaced fm"
    and "hash_separates h fresh existing archived"
    and "rc = reconcile_judged h fresh existing archived" "\<not> is_collision_machinery_id i"
    and "p \<in> set (rc_not_resurfaced rc)" "f \<in> set (rc_findings rc)" "fd_id p = i" "fd_id f = i"
  shows "\<not> dispositioned f \<and> rc_candidates rc i = Some (ruling_candidate p) \<and> length (group_of fresh i) = 1"
proof -
  obtain f0 where f0: "f0 \<in> set (emitted fresh existing archived)" "f = carried h existing archived f0"
    using assms(9) by (auto simp: assms(6) reconcile_findings)
  have i0: "fd_id f0 = fd_id p" using assms(10,11) f0(2) carried_content by metis
  have p: "p \<in> set (rulings existing archived)" "identity h f0 \<noteq> identity h p"
    using assms(8) f0(1) unfolding assms(6) reconcile_kept by auto
  have g: "group_of fresh i = [f0]"
    using backing_single[OF assms(1-5) _ f0(1) i0] assms(6-8,10) by simp
  have miss: "identity h f0 \<notin> identity h ` set (rulings existing archived)"
    using coexist_unmatched[OF assms(1-5) p(1) f0(1) p(2) i0] assms(7,10) by simp
  then have "\<not> dispositioned f" using carried_dispositioned[OF assms(2) f0(1), of h] f0(2) by simp
  moreover have "index_by fd_id (rulings existing archived) i = Some p"
    using ruling_index[OF assms(1)] p(1) assms(3,4,7,10) by metis
  moreover have "index_by (identity h) (rulings existing archived) (identity h f0) = None"
    using miss by (simp add: index_by_None)
  ultimately show ?thesis using g
    by (simp add: assms(6) reconcile_candidates candidate_for_def carry_exact_match_def ruling_candidate_def)
qed

lemma candidate_backing:
  assumes "deviation_validate fm = None" "judge_output fresh"
    and "existing = findings_of_kind (dv_findings fm) FindingJudged" "archived = dv_not_resurfaced fm"
    and "hash_separates h fresh existing archived"
    and "rc = reconcile_judged h fresh existing archived" "\<not> is_collision_machinery_id i"
    and "rc_candidates rc i = Some c"
  shows "\<exists>p \<in> set (rc_not_resurfaced rc). \<exists>f \<in> set (rc_findings rc).
     fd_id p = i \<and> fd_id f = i \<and> \<not> dispositioned f \<and> c = ruling_candidate p \<and> length (group_of fresh i) = 1"
proof -
  obtain f0 p where f0: "group_of fresh i = [f0]"
    "index_by (identity h) (rulings existing archived) (identity h f0) = None"
    and p: "index_by fd_id (rulings existing archived) i = Some p" "c = ruling_candidate p"
    using assms(8) by (auto simp: assms(6) reconcile_candidates candidate_for_def carry_exact_match_def
          ruling_candidate_def split: list.splits option.splits if_splits)
  have pr: "p \<in> set (rulings existing archived)" "fd_id p = i" using index_by_Some[OF p(1)] by auto
  have fe: "f0 \<in> set (emitted fresh existing archived)" by (rule single_emitted[OF f0(1)])
  have fi: "fd_id f0 = i" using group_of_ids[of fresh i] f0(1) by simp
  have miss: "identity h f0 \<noteq> identity h p" using f0(2) pr(1) by (auto simp: index_by_None)
  have "identity h g \<noteq> identity h p" if "g \<in> set (emitted fresh existing archived)" for g
  proof
    assume e: "identity h g = identity h p"
    then have "fd_id g = fd_id f0" using exact_match_iff[OF assms(2,5) that pr(1)] pr(2) fi by simp
    with that fe emitted_distinct[OF judge_output_minted[OF assms(2)]] have "g = f0"
      by (metis distinct_map inj_onD)
    with e miss show False by simp
  qed
  with pr(1) have "p \<in> set (rc_not_resurfaced rc)" by (simp add: assms(6) reconcile_kept)
  moreover have "carried h existing archived f0 \<in> set (rc_findings rc)" using fe by (simp add: assms(6) reconcile_findings)
  then have "f0 \<in> set (rc_findings rc)" using f0(2) by (simp add: carry_exact_match_def)
  moreover have "\<not> dispositioned f0" using emitted_plain[OF assms(2) fe] by (simp add: dispositioned_def)
  ultimately show ?thesis using pr(2) fi p(2) f0(1) by auto
qed

section \<open>Emission order\<close>

lemma plain_text_inj:
  assumes "judge_output fresh"
  shows "inj_on fd_text (set (group_of fresh i))"
proof (rule inj_onI)
  fix f g :: finding assume "f \<in> set (group_of fresh i)" "g \<in> set (group_of fresh i)" "fd_text f = fd_text g"
  with member_text_nonempty[OF assms] group_of_ids[of fresh i] show "f = g"
    by (intro finding.equality) auto
qed

lemma group_of_mset: "mset fresh = mset fresh' \<Longrightarrow> mset (group_of fresh i) = mset (group_of fresh' i)"
  by (simp add: group_of_def)

lemma sorted_group_eq:
  assumes "judge_output fresh" "mset fresh = mset fresh'"
  shows "sort_key fd_text (group_of fresh i) = sort_key fd_text (group_of fresh' i)"
  by (rule sort_key_inj_key_eq) (use group_of_mset[OF assms(2)] plain_text_inj[OF assms(1)] in simp_all)

lemma group_of_length: "mset fresh = mset fresh' \<Longrightarrow> length (group_of fresh i) = length (group_of fresh' i)"
  by (metis group_of_mset mset_eq_length)

lemma backing_order:
  assumes "judge_output fresh" "mset fresh = mset fresh'"
  shows "backing_by_id fresh existing archived i \<longleftrightarrow> backing_by_id fresh' existing archived i"
proof (cases "group_of fresh i = []")
  case True
  with group_of_length[OF assms(2), of i] show ?thesis by (simp add: backing_by_id_def)
next
  case False
  then have "group_of fresh' i \<noteq> []" using group_of_length[OF assms(2), of i] by auto
  with False have "min_member_text (group_of fresh i) = min_member_text (group_of fresh' i)"
    using min_member_sorted sorted_group_eq[OF assms, of i] by metis
  then show ?thesis by (simp add: backing_by_id_def group_of_length[OF assms(2)] split: option.split)
qed

lemma cv_order:
  assumes "mset grp = mset grp'"
  shows "contract_violation_finding i grp = contract_violation_finding i grp'"
proof -
  have "mset (map fd_text grp) = mset (map fd_text grp')" using assms by simp
  then have "sort (map fd_text grp) = sort (map fd_text grp')" "length grp = length grp'"
    using sort_key_inj_key_eq[of "map fd_text grp" "sort (map fd_text grp')" "\<lambda>x. x"] mset_eq_length[OF assms]
    by simp_all
  then show ?thesis by (simp add: contract_violation_finding_def contract_violation_text_def)
qed

lemma emit_group_order:
  assumes "judge_output fresh" "mset fresh = mset fresh'"
  shows "mset (emit_group fresh existing archived i) = mset (emit_group fresh' existing archived i)"
  unfolding emit_group_mset Let_def
  by (simp add: group_of_length[OF assms(2)] backing_order[OF assms] sorted_group_eq[OF assms]
        cv_order[OF group_of_mset[OF assms(2)]] group_of_mset[OF assms(2)])

lemma judged_ids_order:
  assumes "mset fresh = mset fresh'"
  shows "mset (judged_ids fresh) = mset (judged_ids fresh')"
proof -
  have "set (judged_ids fresh) = set (judged_ids fresh')"
    using group_of_length[OF assms] by (auto simp: judged_ids_set) (metis length_0_conv)+
  then show ?thesis using judged_ids_distinct by (metis set_eq_iff_mset_eq_distinct)
qed

lemma emitted_order:
  assumes "judge_output fresh" "mset fresh = mset fresh'"
  shows "mset (emitted fresh existing archived) = mset (emitted fresh' existing archived)"
proof -
  have "mset (concat (map F xs)) = sum_mset (image_mset (\<lambda>i. mset (F i)) (mset xs))"
    for F :: "string \<Rightarrow> finding list" and xs by (induction xs) simp_all
  then show ?thesis
    by (simp add: emitted_def judged_ids_order[OF assms(2)] emit_group_order[OF assms])
qed

lemma candidate_order:
  assumes "mset fresh = mset fresh'"
  shows "candidate_for h fresh existing archived = candidate_for h fresh' existing archived"
proof
  fix i
  have m: "mset (group_of fresh i) = mset (group_of fresh' i)" by (rule group_of_mset[OF assms])
  show "candidate_for h fresh existing archived i = candidate_for h fresh' existing archived i"
  proof (cases "length (group_of fresh i) = 1")
    case True
    then obtain f where "group_of fresh i = [f]" by (auto simp: length_Suc_conv)
    moreover from this m have "group_of fresh' i = [f]" by simp
    ultimately show ?thesis by (simp add: candidate_for_def)
  next
    case False
    then have n: "length (group_of fresh' i) \<noteq> 1" using group_of_length[OF assms, of i] by simp
    have "candidate_for h fr existing archived i = None" if "length (group_of fr i) \<noteq> 1" for fr
      using that by (auto simp: candidate_for_def split: list.splits)
    with False n show ?thesis by simp
  qed
qed

section \<open>Properties\<close>

definition sample_finding :: "string \<Rightarrow> string \<Rightarrow> finding_disposition \<Rightarrow> finding" where
  "sample_finding i t d = \<lparr>fd_id = i, fd_kind = FindingJudged, fd_text = t, fd_disposition = d,
     fd_note = (if d = undispositioned then '''' else ''agreed''), fd_carried_from = ''''\<rparr>"

definition sample_report :: deviation where
  "sample_report = \<lparr>dv_schema = ''verdi.deviation/v1'', dv_covers = ''0123abc'',
     dv_findings = [sample_finding ''judged-a'' ''old'' FindingFixed,
                    sample_finding ''judged-b'' ''same'' FindingAcceptedDeviation],
     dv_not_resurfaced = [sample_finding ''judged-c'' ''gone'' FindingFixed],
     dv_digest = '''', dv_integrity = '''', dv_judge_integrity = None, dv_frozen = None,
     dv_provenance = None\<rparr>"

definition sample_fresh :: "finding list" where
  "sample_fresh = [sample_finding ''judged-a'' ''new'' undispositioned,
     sample_finding ''judged-b'' ''same'' undispositioned,
     sample_finding ''judged-c'' ''x'' undispositioned, sample_finding ''judged-c'' ''w'' undispositioned]"

lemma sample_report_valid: "deviation_validate sample_report = None"
  by code_simp

lemma sample_fresh_output: "judge_output sample_fresh"
  by code_simp

lemma sample_separates:
  "hash_separates (\<lambda>s. s) sample_fresh (findings_of_kind (dv_findings sample_report) FindingJudged)
     (dv_not_resurfaced sample_report)"
  by (simp add: hash_separates_def, code_simp)

text \<open>Minting a judged id is safe and stable: whatever the judge sends, the id
  carries the judged prefix, stays within the slug alphabet and is never one of the
  shapes that only the collision machinery may mint; and minting an id that already
  has these properties, such as an echoed one, returns it unchanged.\<close>

theorem judged_finding_id_safe:
  "has_prefix (judged_finding_id raw) ''judged-'' \<and> slug_alphabet (judged_finding_id raw)
     \<and> \<not> is_collision_machinery_id (judged_finding_id raw)
     \<and> judged_finding_id (judged_finding_id raw) = judged_finding_id raw"
  using mint_shape[of raw] mint_fixed[of "judged_finding_id raw"] unfolding judgedPrefix_def by simp

text \<open>C3. No ruling is lost and none is invented: after a regeneration every prior
  ruling on a judged finding is kept in the archive exactly when no finding of the
  new report has its id and text; and a finding of the new report is dispositioned
  exactly when some prior ruling has its id and text, with the disposition, note and
  provenance of such a ruling. Collisions and reworded findings included.\<close>

theorem reconcile_rulings_accounted:
  assumes "judge_output fresh" "hash_separates h fresh existing archived"
  shows "set (rc_not_resurfaced (reconcile_judged h fresh existing archived)) =
      {p \<in> set (rulings existing archived).
         \<not> (\<exists>f \<in> set (rc_findings (reconcile_judged h fresh existing archived)).
              fd_id f = fd_id p \<and> fd_text f = fd_text p)}
    \<and> (\<forall>f \<in> set (rc_findings (reconcile_judged h fresh existing archived)).
         if \<exists>p \<in> set (rulings existing archived). fd_id p = fd_id f \<and> fd_text p = fd_text f
         then \<exists>p \<in> set (rulings existing archived). fd_id p = fd_id f \<and> fd_text p = fd_text f
                \<and> fd_disposition f = fd_disposition p \<and> fd_note f = fd_note p
                \<and> fd_carried_from f = fd_carried_from p
         else \<not> dispositioned f)"
proof (intro conjI ballI)
  note m = exact_match_iff[OF assms]
  show "set (rc_not_resurfaced (reconcile_judged h fresh existing archived)) =
      {p \<in> set (rulings existing archived).
         \<not> (\<exists>f \<in> set (rc_findings (reconcile_judged h fresh existing archived)).
              fd_id f = fd_id p \<and> fd_text f = fd_text p)}"
    by (auto simp: reconcile_kept reconcile_findings carried_content m)
  fix f :: finding assume "f \<in> set (rc_findings (reconcile_judged h fresh existing archived))"
  then obtain f0 where f0: "f0 \<in> set (emitted fresh existing archived)" "f = carried h existing archived f0"
    by (auto simp: reconcile_findings)
  have ex: "(\<exists>p \<in> set (rulings existing archived). fd_id p = fd_id f \<and> fd_text p = fd_text f) \<longleftrightarrow>
      identity h f0 \<in> identity h ` set (rulings existing archived)"
    using m[OF f0(1)] by (auto simp: f0(2) carried_content image_iff) metis+
  show "if \<exists>p \<in> set (rulings existing archived). fd_id p = fd_id f \<and> fd_text p = fd_text f
         then \<exists>p \<in> set (rulings existing archived). fd_id p = fd_id f \<and> fd_text p = fd_text f
                \<and> fd_disposition f = fd_disposition p \<and> fd_note f = fd_note p
                \<and> fd_carried_from f = fd_carried_from p
         else \<not> dispositioned f"
  proof (rule carried_cases[of existing archived h f0], goal_cases hit miss)
    case (hit p)
    have "fd_id p = fd_id f0 \<and> fd_text p = fd_text f0" using m[OF f0(1) hit(1)] hit(2) by simp
    with hit f0(2) show ?case by auto
  next
    case miss
    have "\<not> dispositioned f" using miss f0(2) carried_dispositioned[OF assms(1) f0(1), of h] by simp
    moreover have "\<not> (\<exists>p \<in> set (rulings existing archived). fd_id p = fd_id f \<and> fd_text p = fd_text f)"
      using ex miss(1) by blast
    ultimately show ?case by metis
  qed
qed

theorem reconcile_rulings_accounted_witness:
  "map fd_id (rc_not_resurfaced (reconcile_judged (\<lambda>s. s) sample_fresh
      (findings_of_kind (dv_findings sample_report) FindingJudged) (dv_not_resurfaced sample_report)))
     = [''judged-a'', ''judged-c'']
   \<and> sample_finding ''judged-c'' ''gone'' FindingFixed \<in>
      set (rc_not_resurfaced (reconcile_judged (\<lambda>s. s) sample_fresh
        (findings_of_kind (dv_findings sample_report) FindingJudged) (dv_not_resurfaced sample_report)))"
proof
  show "map fd_id (rc_not_resurfaced (reconcile_judged (\<lambda>s. s) sample_fresh
      (findings_of_kind (dv_findings sample_report) FindingJudged) (dv_not_resurfaced sample_report)))
     = [''judged-a'', ''judged-c'']" by code_simp
  have "sample_finding ''judged-c'' ''gone'' FindingFixed \<in> set (prior_rulings sample_report)"
    "\<not> (\<exists>f \<in> set (rc_findings (reconcile_judged (\<lambda>s. s) sample_fresh
        (findings_of_kind (dv_findings sample_report) FindingJudged) (dv_not_resurfaced sample_report))).
          fd_id f = ''judged-c'' \<and> fd_text f = ''gone'')"
    by code_simp+
  with reconcile_rulings_accounted[OF sample_fresh_output sample_separates]
  show "sample_finding ''judged-c'' ''gone'' FindingFixed \<in>
      set (rc_not_resurfaced (reconcile_judged (\<lambda>s. s) sample_fresh
        (findings_of_kind (dv_findings sample_report) FindingJudged) (dv_not_resurfaced sample_report)))"
    by (simp add: sample_finding_def)
qed

text \<open>The archive is the rulings that did not reproduce: those of the live findings, then those
  of the old archive.\<close>

lemma not_resurfaced_split:
  "\<exists>P. rc_not_resurfaced (reconcile_judged h fresh existing archived) = filter P existing @ filter P archived"
  by (simp add: reconcile_judged_def Let_def rulings_def filter_filter) blast

lemma distinct_key_filter:
  assumes "distinct (map f xs)"
  shows "filter (\<lambda>x. f x = i) (filter P xs) = [] \<or> (\<exists>x \<in> set xs. filter (\<lambda>x. f x = i) (filter P xs) = [x])"
  using assms by (induction xs) (auto simp: filter_empty_conv image_iff)

text \<open>C28. Regenerating keeps the report well-formed, as far as the code does: from a prior
  report that validates and fresh findings of the mint, every finding of the new report is
  valid and no two share an id, although colliding slugs were split into new ids; every archived
  entry is valid, dispositioned and obeys the backing-record rule against the new findings; and
  archived ids are unique but for one case, a collision id under which a live ruling and
  an archived one both failed to reproduce, which leaves exactly these two entries (the residual
  the source discloses; the validator then refuses the report: \<open>collision_residual\<close>).\<close>

theorem reconcile_keeps_valid:
  assumes "deviation_validate fm = None" "judge_output fresh"
    and "existing = findings_of_kind (dv_findings fm) FindingJudged" "archived = dv_not_resurfaced fm"
    and "hash_separates h fresh existing archived"
    and "rc = reconcile_judged h fresh existing archived"
  shows "distinct (map fd_id (rc_findings rc))
    \<and> (\<forall>f \<in> set (rc_findings rc). finding_validate f = None)
    \<and> (\<forall>p \<in> set (rc_not_resurfaced rc). archived_ok (dispositioned_kinds (rc_findings rc)) p)
    \<and> distinct (map fd_id (filter (\<lambda>p. \<not> is_collision_machinery_id (fd_id p)) (rc_not_resurfaced rc)))
    \<and> (\<forall>i. length (filter (\<lambda>p. fd_id p = i) (rc_not_resurfaced rc)) \<le> 1
         \<or> is_collision_machinery_id i
           \<and> (\<exists>p \<in> set existing. \<exists>q \<in> set archived. filter (\<lambda>p. fd_id p = i) (rc_not_resurfaced rc) = [p, q]))"
proof (intro conjI ballI allI)
  fix i
  obtain P where split: "rc_not_resurfaced rc = filter P existing @ filter P archived"
    using not_resurfaced_split[of h fresh existing archived] by (auto simp: assms(6))
  have ids: "distinct (map fd_id existing)" "distinct (map fd_id archived)"
    using deviation_valid_iff[OF assms(1)] by (simp_all add: assms(3,4) findings_of_kind_def distinct_map_filter)
  have "is_collision_machinery_id i" if "1 < length (filter (\<lambda>p. fd_id p = i) (rc_not_resurfaced rc))"
  proof (rule ccontr)
    assume n: "\<not> is_collision_machinery_id i"
    have d: "distinct (map fd_id (filter (\<lambda>p. \<not> is_collision_machinery_id (fd_id p)) (rc_not_resurfaced rc)))"
      using distinct_map_filter_sub[OF prior_rulings_distinct[OF assms(1)]]
      by (simp add: assms(3,4,6) reconcile_judged_def Let_def)
    have "filter (\<lambda>p. fd_id p = i) (filter (\<lambda>p. \<not> is_collision_machinery_id (fd_id p)) (rc_not_resurfaced rc))
        = filter (\<lambda>p. fd_id p = i) (rc_not_resurfaced rc)"
      unfolding filter_filter by (rule filter_cong) (use n in auto)
    then show False using distinct_key_filter[OF d, of i "\<lambda>_. True"] that by auto
  qed
  then show "length (filter (\<lambda>p. fd_id p = i) (rc_not_resurfaced rc)) \<le> 1
      \<or> is_collision_machinery_id i
        \<and> (\<exists>p \<in> set existing. \<exists>q \<in> set archived. filter (\<lambda>p. fd_id p = i) (rc_not_resurfaced rc) = [p, q])"
    using distinct_key_filter[OF ids(1), of i P] distinct_key_filter[OF ids(2), of i P] unfolding split filter_append
    by (elim disjE bexE) auto
next
  have d: "distinct (map fd_id (emitted fresh existing archived))"
    by (rule emitted_distinct[OF judge_output_minted[OF assms(2)]])
  have "map fd_id (rc_findings rc) = map fd_id (emitted fresh existing archived)"
    by (simp add: assms(6) reconcile_findings carried_content)
  with d show dist: "distinct (map fd_id (rc_findings rc))" by simp
  show "finding_validate f = None" if "f \<in> set (rc_findings rc)" for f
    using that carried_valid[OF assms(1,2)] by (auto simp: assms(3,4,6) reconcile_findings)
  show "distinct (map fd_id (filter (\<lambda>p. \<not> is_collision_machinery_id (fd_id p)) (rc_not_resurfaced rc)))"
    using distinct_map_filter_sub[OF prior_rulings_distinct[OF assms(1)]]
    by (simp add: assms(3,4,6) reconcile_judged_def Let_def)
  fix p :: finding assume "p \<in> set (rc_not_resurfaced rc)"
  then have p: "p \<in> set (rc_not_resurfaced (reconcile_judged h fresh existing archived))"
    "p \<in> set (rulings existing archived)" by (auto simp: assms(6) reconcile_kept)
  show "archived_ok (dispositioned_kinds (rc_findings rc)) p"
    unfolding archived_ok_def
  proof (intro conjI impI)
    show "finding_validate p = None" using prior_ruling_valid[OF assms(1)] p(2) assms(3,4) by simp
    show "dispositioned p" using p(2) by (auto simp: rulings_def is_ruling_def)
    assume "dispositioned_kinds (rc_findings rc) (fd_id p) = Some (fd_kind p)"
    then obtain f where f: "f \<in> set (rc_findings rc)" "dispositioned f" "fd_id f = fd_id p"
      using kinds_lookup[OF dist] by blast
    then obtain f0 where f0: "f0 \<in> set (emitted fresh existing archived)" "f = carried h existing archived f0"
      by (auto simp: assms(6) reconcile_findings)
    show "is_collision_machinery_id (fd_id p)"
    proof (rule ccontr)
      assume n: "\<not> is_collision_machinery_id (fd_id p)"
      from f(2) f0 carried_dispositioned[OF assms(2) f0(1), of h] obtain q
        where q: "q \<in> set (rulings existing archived)" "identity h f0 = identity h q" by auto
      then have "fd_id q = fd_id p" using exact_match_iff[OF assms(2,5) f0(1) q(1)] f(3) f0(2) carried_content
        by metis
      then have "q = p" using prior_ruling_unique[OF assms(1)] q(1) p(2) n assms(3,4) by metis
      with q(2) p(1) f0(1) show False unfolding reconcile_kept by blast
    qed
  qed
qed

theorem reconcile_keeps_valid_witness:
  "distinct (map fd_id (rc_findings (reconcile_judged (\<lambda>s. s) sample_fresh
      (findings_of_kind (dv_findings sample_report) FindingJudged) (dv_not_resurfaced sample_report))))
   \<and> length (rc_findings (reconcile_judged (\<lambda>s. s) sample_fresh
      (findings_of_kind (dv_findings sample_report) FindingJudged) (dv_not_resurfaced sample_report))) = 5"
  by (rule conjI[OF conjunct1[OF reconcile_keeps_valid[OF sample_report_valid sample_fresh_output refl refl sample_separates refl]]])
    code_simp

text \<open>The residual: a live collision member and its backing record under one suffixed id, and a
  round that reproduces neither text.\<close>

lemma collision_residual:
  "map (\<lambda>p. (fd_id p, fd_text p)) (rc_not_resurfaced (reconcile_judged (\<lambda>s. s)
      [sample_finding ''judged-dup'' ''m'' undispositioned, sample_finding ''judged-dup'' ''t'' undispositioned]
      [sample_finding ''judged-dup-collision-2'' ''a'' FindingAcceptedDeviation]
      [sample_finding ''judged-dup-collision-2'' ''b'' FindingAcceptedDeviation]))
    = [(''judged-dup-collision-2'', ''a''), (''judged-dup-collision-2'', ''b'')]"
  by code_simp

text \<open>The pre-fill is exact and never a disposition: under an ordinary id, an archived
  ruling and a live finding coexist only as a candidate and its backing record, the
  live finding undispositioned and the candidate quoting that ruling; and every
  candidate the reconciliation offers stands for such a pair, under an ordinary id
  that no other fresh finding of the run shares.\<close>

theorem reconcile_candidates_exact:
  assumes "deviation_validate fm = None" "judge_output fresh"
    and "existing = findings_of_kind (dv_findings fm) FindingJudged" "archived = dv_not_resurfaced fm"
    and "hash_separates h fresh existing archived"
    and "rc = reconcile_judged h fresh existing archived" "\<not> is_collision_machinery_id i"
  shows "(rc_candidates rc i = Some c \<longleftrightarrow>
       (\<exists>p \<in> set (rc_not_resurfaced rc). \<exists>f \<in> set (rc_findings rc).
          fd_id p = i \<and> fd_id f = i \<and> \<not> dispositioned f \<and> c = ruling_candidate p
          \<and> length (group_of fresh i) = 1))
     \<and> (\<forall>p \<in> set (rc_not_resurfaced rc). \<forall>f \<in> set (rc_findings rc). fd_id p = i \<longrightarrow> fd_id f = i \<longrightarrow>
          \<not> dispositioned f \<and> rc_candidates rc i = Some (ruling_candidate p))"
  using coexist_candidate[OF assms] candidate_backing[OF assms] by (auto; blast)

theorem reconcile_candidates_exact_witness:
  "rc_candidates (reconcile_judged (\<lambda>s. s) sample_fresh
      (findings_of_kind (dv_findings sample_report) FindingJudged) (dv_not_resurfaced sample_report)) ''judged-a''
     = Some (ruling_candidate (sample_finding ''judged-a'' ''old'' FindingFixed))
   \<and> rc_candidates (reconcile_judged (\<lambda>s. s) sample_fresh
      (findings_of_kind (dv_findings sample_report) FindingJudged) (dv_not_resurfaced sample_report)) ''judged-c''
     = None"
proof
  have m: "\<not> is_collision_machinery_id ''judged-a''" by code_simp
  have "sample_finding ''judged-a'' ''old'' FindingFixed \<in> set (rc_not_resurfaced (reconcile_judged (\<lambda>s. s)
      sample_fresh (findings_of_kind (dv_findings sample_report) FindingJudged) (dv_not_resurfaced sample_report)))"
    "sample_finding ''judged-a'' ''new'' undispositioned \<in> set (rc_findings (reconcile_judged (\<lambda>s. s)
      sample_fresh (findings_of_kind (dv_findings sample_report) FindingJudged) (dv_not_resurfaced sample_report)))"
    by code_simp+
  then show "rc_candidates (reconcile_judged (\<lambda>s. s) sample_fresh
      (findings_of_kind (dv_findings sample_report) FindingJudged) (dv_not_resurfaced sample_report)) ''judged-a''
     = Some (ruling_candidate (sample_finding ''judged-a'' ''old'' FindingFixed))"
    using reconcile_candidates_exact[OF sample_report_valid sample_fresh_output refl refl sample_separates refl m]
    by (fastforce simp: sample_finding_def)
qed code_simp

text \<open>The order in which the judge happens to emit its findings decides nothing: two
  runs with the same findings in another order produce the same findings with the
  same ids and dispositions (up to order), the same candidates and the same archive,
  even when slugs collide.\<close>

theorem reconcile_order_independent:
  assumes "judge_output fresh" "mset fresh = mset fresh'"
  shows "mset (rc_findings (reconcile_judged h fresh existing archived)) =
           mset (rc_findings (reconcile_judged h fresh' existing archived))
       \<and> rc_candidates (reconcile_judged h fresh existing archived) =
           rc_candidates (reconcile_judged h fresh' existing archived)
       \<and> rc_not_resurfaced (reconcile_judged h fresh existing archived) =
           rc_not_resurfaced (reconcile_judged h fresh' existing archived)"
proof -
  note e = emitted_order[OF assms, of existing archived]
  have "set (emitted fresh existing archived) = set (emitted fresh' existing archived)"
    using e by (rule mset_eq_setD)
  with e candidate_order[OF assms(2)] show ?thesis
    by (simp add: reconcile_findings reconcile_candidates) (simp add: reconcile_judged_def Let_def)
qed

theorem reconcile_order_independent_witness:
  "rc_not_resurfaced (reconcile_judged (\<lambda>s. s) sample_fresh [] []) =
     rc_not_resurfaced (reconcile_judged (\<lambda>s. s) (rev sample_fresh) [] [])
   \<and> map fd_id (rc_findings (reconcile_judged (\<lambda>s. s) (rev sample_fresh) [] [])) =
     [''judged-c'', ''judged-c-collision-2'', ''judged-contract-violation-c'', ''judged-b'', ''judged-a'']"
proof
  show "rc_not_resurfaced (reconcile_judged (\<lambda>s. s) sample_fresh [] []) =
     rc_not_resurfaced (reconcile_judged (\<lambda>s. s) (rev sample_fresh) [] [])"
    using reconcile_order_independent[OF sample_fresh_output, of "rev sample_fresh"] by simp
qed code_simp

text \<open>An archived ruling can be offered for a colliding slug: when two fresh findings
  share a slug that has no ruling of its own, the member with the least text keeps
  the bare slug, and an archived ruling under that slug then pre-fills a candidate
  for it and is seated as its backing record.\<close>

theorem archived_ruling_prefills_collision:
  "let rc = apply_archived_rulings
       (reconcile_judged h
          [sample_finding ''judged-c'' ''x'' undispositioned, sample_finding ''judged-c'' ''w'' undispositioned] [] [])
       [\<lparr>arch_finding = sample_finding ''judged-c'' ''other'' FindingFixed, arch_source = ''spec/s''\<rparr>]
   in map fd_id (rc_findings rc) = [''judged-c-collision-2'', ''judged-c'', ''judged-contract-violation-c'']
      \<and> map_option jc_archive_source (rc_candidates rc ''judged-c'') = Some ''spec/s''
      \<and> map fd_id (rc_not_resurfaced rc) = [''judged-c'']"
proof -
  define fresh where "fresh =
    [sample_finding ''judged-c'' ''x'' undispositioned, sample_finding ''judged-c'' ''w'' undispositioned]"
  define cv where "cv = contract_violation_finding ''judged-c'' fresh"
  have e: "emitted fresh [] [] = [sample_finding ''judged-c-collision-2'' ''x'' undispositioned,
      sample_finding ''judged-c'' ''w'' undispositioned, cv]"
    unfolding cv_def fresh_def by code_simp
  have i: "index_by (identity h) (rulings [] []) = Map.empty" by (simp add: index_by_def rulings_def)
  have r: "reconcile_judged h fresh [] [] =
      \<lparr>rc_findings = emitted fresh [] [], rc_candidates = Map.empty, rc_not_resurfaced = []\<rparr>"
    by (auto simp: reconcile_judged_def candidate_for_def carry_exact_match_def rulings_def index_by_def
          split: list.split)
  show ?thesis unfolding fresh_def[symmetric] r e unfolding cv_def fresh_def by code_simp
qed

end
