(* ===== verification/Stale.thy ===== *)
theory Stale
  imports Reconcile
begin

text \<open>
  The spec-stale flag of the amendment ladder (internal/evidence/specstale.go): the
  accepted-deviation budget, counted by unique content and collapsed by slug where a
  reaffirmation owns the slug, and its two triggers. What is shown: the two-pass count
  is the number of distinct budget keys, and regenerating the judged section of a
  report (theory Reconcile) neither drains nor inflates it.
\<close>

section \<open>The budget\<close>

definition defaultDeviationsStaleThreshold :: int where
  "defaultDeviationsStaleThreshold = 3"

definition is_accepted_deviation :: "finding \<Rightarrow> bool" where
  "is_accepted_deviation f \<longleftrightarrow> fd_disposition f = FindingAcceptedDeviation"

definition accepted_deviation_slug_key :: "finding \<Rightarrow> string" where
  "accepted_deviation_slug_key f = finding_kind_string (fd_kind f) @ CHR 0x00 # fd_id f"

definition carried_slugs :: "finding list list \<Rightarrow> string list" where
  "carried_slugs sets =
     map accepted_deviation_slug_key
       (filter (\<lambda>f. is_accepted_deviation f \<and> fd_carried_from f \<noteq> '''') (concat sets))"

fun count_pass ::
  "(string \<Rightarrow> string) \<Rightarrow> string list \<Rightarrow> string list \<Rightarrow> string list \<Rightarrow> finding list \<Rightarrow> nat" where
  "count_pass h carried_slug seen_slug seen_identity [] = 0"
| "count_pass h carried_slug seen_slug seen_identity (f # fs) =
     (if \<not> is_accepted_deviation f then count_pass h carried_slug seen_slug seen_identity fs
      else
        (let slug = accepted_deviation_slug_key f; i = identity h f in
         if slug \<in> set carried_slug then
           (if slug \<in> set seen_slug then count_pass h carried_slug seen_slug seen_identity fs
            else Suc (count_pass h carried_slug (slug # seen_slug) seen_identity fs))
         else if i \<in> set seen_identity then count_pass h carried_slug seen_slug seen_identity fs
         else Suc (count_pass h carried_slug seen_slug (i # seen_identity) fs)))"

definition count_accepted_deviations :: "(string \<Rightarrow> string) \<Rightarrow> finding list list \<Rightarrow> nat" where
  "count_accepted_deviations h sets = count_pass h (carried_slugs sets) [] [] (concat sets)"

section \<open>The flag\<close>

record stale_input =
  si_findings :: "finding list"
  si_story_acs :: "string \<Rightarrow> bool"
  si_threshold :: int
  si_own_not_resurfaced :: "finding list"
  si_additional :: "finding list list"

record stale_result =
  st_flagged :: bool
  st_own_text :: "string list"
  st_count :: nat
  st_by_threshold :: bool

definition spec_stale :: "(string \<Rightarrow> string) \<Rightarrow> stale_input \<Rightarrow> stale_result" where
  "spec_stale h inp =
     (let threshold = (if si_threshold inp \<le> 0 then defaultDeviationsStaleThreshold else si_threshold inp);
          own = map fd_id (filter (\<lambda>f. is_accepted_deviation f \<and> si_story_acs inp (fd_id f)) (si_findings inp));
          n = count_accepted_deviations h
                (si_findings inp # si_own_not_resurfaced inp # si_additional inp);
          by_threshold = int n > threshold
      in \<lparr>st_flagged = (own \<noteq> [] \<or> by_threshold), st_own_text = own, st_count = n,
          st_by_threshold = by_threshold\<rparr>)"

section \<open>The count in closed form\<close>

text \<open>What one accepted deviation is counted by: its slug where a reaffirmation owns it,
  its content identity otherwise.\<close>

definition budget_key :: "(string \<Rightarrow> string) \<Rightarrow> string set \<Rightarrow> finding \<Rightarrow> string + string" where
  "budget_key h owned f =
     (if accepted_deviation_slug_key f \<in> owned then Inl (accepted_deviation_slug_key f)
      else Inr (identity h f))"

definition accepted_in :: "finding list list \<Rightarrow> finding set" where
  "accepted_in sets = {f. is_accepted_deviation f \<and> (\<exists>fs \<in> set sets. f \<in> set fs)}"

definition reaffirmed_slugs :: "finding set \<Rightarrow> string set" where
  "reaffirmed_slugs F = accepted_deviation_slug_key ` {f \<in> F. fd_carried_from f \<noteq> ''''}"

definition budget :: "(string \<Rightarrow> string) \<Rightarrow> finding set \<Rightarrow> (string + string) set" where
  "budget h F = budget_key h (reaffirmed_slugs F) ` F"

lemma set_carried_slugs: "set (carried_slugs sets) = reaffirmed_slugs (accepted_in sets)"
  by (auto simp: carried_slugs_def reaffirmed_slugs_def accepted_in_def)

definition seen_keys :: "string list \<Rightarrow> string list \<Rightarrow> (string + string) set" where
  "seen_keys seen_slug seen_identity = Inl ` set seen_slug \<union> Inr ` set seen_identity"

lemma seen_keys_Cons [simp]:
  "seen_keys (s # ss) is = insert (Inl s) (seen_keys ss is)"
  "seen_keys ss (i # is) = insert (Inr i) (seen_keys ss is)"
  by (auto simp: seen_keys_def)

lemma seen_keys_iff [simp]:
  "Inl s \<in> seen_keys ss is \<longleftrightarrow> s \<in> set ss" "Inr i \<in> seen_keys ss is \<longleftrightarrow> i \<in> set is"
  by (auto simp: seen_keys_def)

lemma card_insert_minus:
  assumes "finite A" "k \<notin> S"
  shows "card (insert k A - S) = Suc (card (A - insert k S))"
proof -
  have "insert k A - S = insert k (A - insert k S)" using assms(2) by auto
  then show ?thesis using assms(1) by simp
qed

lemma count_pass_card:
  "count_pass h cs ss is fs =
     card (budget_key h (set cs) ` {f \<in> set fs. is_accepted_deviation f} - seen_keys ss is)"
proof (induction h cs ss "is" fs rule: count_pass.induct)
  case (2 h cs ss "is" f fs)
  let ?A = "budget_key h (set cs) ` {f \<in> set fs. is_accepted_deviation f}"
  let ?slug = "accepted_deviation_slug_key f"
  show ?case
  proof (cases "is_accepted_deviation f")
    case False
    then have "{g \<in> set (f # fs). is_accepted_deviation g} = {g \<in> set fs. is_accepted_deviation g}" by auto
    with False 2(1) show ?thesis by simp
  next
    case True
    then have ins: "budget_key h (set cs) ` {g \<in> set (f # fs). is_accepted_deviation g}
        = insert (budget_key h (set cs) f) ?A" by auto
    have fin: "finite ?A" by simp
    consider (slug_seen) "?slug \<in> set cs" "?slug \<in> set ss"
      | (slug_new) "?slug \<in> set cs" "?slug \<notin> set ss"
      | (id_seen) "?slug \<notin> set cs" "identity h f \<in> set is"
      | (id_new) "?slug \<notin> set cs" "identity h f \<notin> set is" by blast
    then show ?thesis
    proof cases
      case slug_seen
      then have "budget_key h (set cs) f = Inl ?slug" by (simp add: budget_key_def)
      with slug_seen True 2(2) show ?thesis unfolding ins by (simp add: insert_Diff_if)
    next
      case slug_new
      then have "budget_key h (set cs) f = Inl ?slug" by (simp add: budget_key_def)
      with slug_new True 2(3) show ?thesis unfolding ins by (simp add: card_insert_minus[OF fin])
    next
      case id_seen
      then have "budget_key h (set cs) f = Inr (identity h f)" by (simp add: budget_key_def)
      with id_seen True 2(4) show ?thesis unfolding ins by (simp add: insert_Diff_if)
    next
      case id_new
      then have "budget_key h (set cs) f = Inr (identity h f)" by (simp add: budget_key_def)
      with id_new True 2(5) show ?thesis unfolding ins by (simp add: card_insert_minus[OF fin])
    qed
  qed
qed (simp add: seen_keys_def)

lemma count_budget: "count_accepted_deviations h sets = card (budget h (accepted_in sets))"
proof -
  have "{f \<in> set (concat sets). is_accepted_deviation f} = accepted_in sets"
    by (auto simp: accepted_in_def)
  then show ?thesis
    by (simp add: count_accepted_deviations_def count_pass_card set_carried_slugs budget_def seen_keys_def)
qed

text \<open>The budget sees of an accepted deviation only this.\<close>

definition budget_view :: "finding \<Rightarrow> finding_kind \<times> string \<times> string \<times> string" where
  "budget_view f = (fd_kind f, fd_id f, fd_text f, fd_carried_from f)"

lemma budget_view_key:
  assumes "budget_view f = budget_view g"
  shows "budget_key h A f = budget_key h A g"
    and "accepted_deviation_slug_key f = accepted_deviation_slug_key g"
    and "fd_carried_from f = fd_carried_from g"
  using assms by (simp_all add: budget_view_def budget_key_def accepted_deviation_slug_key_def identity_def)

lemma reaffirmed_mono:
  assumes "budget_view ` F \<subseteq> budget_view ` G"
  shows "reaffirmed_slugs F \<subseteq> reaffirmed_slugs G"
proof
  fix s assume "s \<in> reaffirmed_slugs F"
  then obtain f where f: "f \<in> F" "fd_carried_from f \<noteq> ''''" "s = accepted_deviation_slug_key f"
    by (auto simp: reaffirmed_slugs_def)
  with assms obtain g where "g \<in> G" "budget_view f = budget_view g" by blast
  with f budget_view_key[of f g] show "s \<in> reaffirmed_slugs G" by (auto simp: reaffirmed_slugs_def)
qed

lemma budget_mono:
  assumes "budget_view ` F \<subseteq> budget_view ` G"
  shows "budget_key h A ` F \<subseteq> budget_key h A ` G"
proof
  fix k assume "k \<in> budget_key h A ` F"
  then obtain f where "f \<in> F" "k = budget_key h A f" by blast
  moreover with assms obtain g where "g \<in> G" "budget_view f = budget_view g" by blast
  ultimately show "k \<in> budget_key h A ` G" using budget_view_key(1)[of f g] by auto
qed

lemma budget_cong:
  assumes "budget_view ` F = budget_view ` G"
  shows "budget h F = budget h G"
  using reaffirmed_mono[of F G] reaffirmed_mono[of G F] budget_mono[of F G h] budget_mono[of G F h] assms
  unfolding budget_def by (metis order_antisym order_refl)

lemma accepted_in_Cons: "accepted_in (fs # sets) = {f \<in> set fs. is_accepted_deviation f} \<union> accepted_in sets"
  by (auto simp: accepted_in_def)

section \<open>Regeneration\<close>

text \<open>No two prior rulings on the same content disagree.\<close>

definition rulings_agree :: "finding list \<Rightarrow> finding list \<Rightarrow> bool" where
  "rulings_agree existing archived \<longleftrightarrow>
     (\<forall>p \<in> set (rulings existing archived). \<forall>q \<in> set (rulings existing archived).
        fd_id p = fd_id q \<and> fd_text p = fd_text q \<longrightarrow>
        fd_disposition p = fd_disposition q \<and> fd_carried_from p = fd_carried_from q)"

definition judged_only :: "finding list \<Rightarrow> bool" where
  "judged_only fs \<longleftrightarrow> list_all (\<lambda>f. fd_kind f = FindingJudged) fs"

lemma accepted_rulings:
  assumes "judged_only (existing @ archived)"
  shows "accepted_in [existing, archived] = {p \<in> set (rulings existing archived). is_accepted_deviation p}"
  using assms
  by (auto simp: accepted_in_def judged_only_def list_all_iff rulings_def is_ruling_def is_accepted_deviation_def
      dispositioned_def)

lemma regenerated_views:
  assumes "judge_output fresh" "hash_separates h fresh existing archived" "rulings_agree existing archived"
    "judged_only (existing @ archived)"
  defines "rc \<equiv> reconcile_judged h fresh existing archived"
  shows "budget_view ` accepted_in [rc_findings rc, rc_not_resurfaced rc] =
         budget_view ` accepted_in [existing, archived]"
proof -
  note match = exact_match_iff[OF assms(1,2)]
  let ?R = "set (rulings existing archived)"
  have k: "fd_kind p = FindingJudged" if "p \<in> ?R" for p using that by (auto simp: rulings_def is_ruling_def)
  have plain: "fd_kind f = FindingJudged" "\<not> is_accepted_deviation f"
    if "f \<in> set (emitted fresh existing archived)" for f
    using emitted_plain[OF assms(1) that] by (simp_all add: is_accepted_deviation_def)
  show ?thesis unfolding accepted_rulings[OF assms(4)]
  proof (rule equalityI; rule subsetI)
    fix v assume "v \<in> budget_view ` accepted_in [rc_findings rc, rc_not_resurfaced rc]"
    then obtain f where f: "v = budget_view f" "is_accepted_deviation f"
      "f \<in> set (rc_findings rc) \<or> f \<in> set (rc_not_resurfaced rc)" by (auto simp: accepted_in_def)
    show "v \<in> budget_view ` {p \<in> ?R. is_accepted_deviation p}"
    proof (cases "f \<in> set (rc_not_resurfaced rc)")
      case True
      then have "f \<in> ?R" unfolding rc_def reconcile_kept by simp
      with f show ?thesis by blast
    next
      case False
      with f obtain f0 where f0: "f0 \<in> set (emitted fresh existing archived)" "f = carried h existing archived f0"
        by (auto simp: rc_def reconcile_findings)
      show ?thesis
      proof (rule carried_cases[of existing archived h f0], goal_cases hit miss)
        case (hit p)
        then have "fd_id p = fd_id f0" "fd_text p = fd_text f0" using match[OF f0(1) hit(1)] by auto
        then have "budget_view f = budget_view p \<and> is_accepted_deviation p"
          using hit f0 f(2) k plain(1) by (simp add: budget_view_def is_accepted_deviation_def)
        with hit(1) f(1) show ?case by blast
      next
        case miss
        with f(2) f0 plain(2) show ?case by simp
      qed
    qed
  next
    fix v assume "v \<in> budget_view ` {p \<in> ?R. is_accepted_deviation p}"
    then obtain p where p: "v = budget_view p" "p \<in> ?R" "is_accepted_deviation p" by blast
    show "v \<in> budget_view ` accepted_in [rc_findings rc, rc_not_resurfaced rc]"
    proof (cases "p \<in> set (rc_not_resurfaced rc)")
      case True
      with p show ?thesis by (auto simp: accepted_in_def)
    next
      case False
      with p(2) obtain f0 where f0: "f0 \<in> set (emitted fresh existing archived)" "identity h f0 = identity h p"
        unfolding rc_def reconcile_kept by blast
      let ?f = "carried h existing archived f0"
      show ?thesis
      proof (rule carried_cases[of existing archived h f0], goal_cases hit miss)
        case (hit q)
        have same: "fd_id f0 = fd_id p \<and> fd_text f0 = fd_text p" "fd_id f0 = fd_id q \<and> fd_text f0 = fd_text q"
          using match[OF f0(1) p(2)] match[OF f0(1) hit(1)] f0(2) hit(2) by auto
        with assms(3) p(2) hit(1) have "fd_disposition q = fd_disposition p" "fd_carried_from q = fd_carried_from p"
          unfolding rulings_agree_def by metis+
        then have "budget_view ?f = v \<and> is_accepted_deviation ?f"
          using hit(4) same f0 p k plain(1) by (simp add: budget_view_def is_accepted_deviation_def)
        moreover have "?f \<in> set (rc_findings rc)" using f0(1) by (auto simp: rc_def reconcile_findings)
        ultimately show ?case by (force simp: accepted_in_def)
      next
        case miss
        with f0(2) p(2) show ?case by auto
      qed
    qed
  qed
qed

lemma regenerated_agree:
  assumes "judge_output fresh" "hash_separates h fresh existing archived" "rulings_agree existing archived"
  defines "rc \<equiv> reconcile_judged h fresh existing archived"
  shows "rulings_agree (rc_findings rc) (rc_not_resurfaced rc)"
proof -
  have d: "distinct (map fd_id (emitted fresh existing archived))"
    by (rule emitted_distinct[OF judge_output_minted[OF assms(1)]])
  have live: "\<exists>f \<in> set (emitted fresh existing archived). p = carried h existing archived f
      \<and> fd_id f = fd_id p \<and> fd_text f = fd_text p" if "p \<in> set (rc_findings rc)" for p
    using that by (auto simp: rc_def reconcile_findings carried_content)
  have one: "p = q" if "p \<in> set (rc_findings rc)" "q \<in> set (rc_findings rc)" "fd_id p = fd_id q" for p q
    using live[OF that(1)] live[OF that(2)] that(3) d by (metis distinct_map inj_on_eq_iff)
  have apart: False if "p \<in> set (rc_findings rc)" "q \<in> set (rc_not_resurfaced rc)"
    "fd_id p = fd_id q \<and> fd_text p = fd_text q" for p q
  proof -
    from that(2) have q: "q \<in> set (rulings existing archived)"
      "\<forall>f \<in> set (emitted fresh existing archived). identity h f \<noteq> identity h q"
      unfolding rc_def reconcile_kept by auto
    from live[OF that(1)] that(3) obtain f where "f \<in> set (emitted fresh existing archived)"
      "fd_id f = fd_id q \<and> fd_text f = fd_text q" by auto
    with exact_match_iff[OF assms(1,2) this(1) q(1)] q(2) show False by blast
  qed
  have old: "p \<in> set (rulings existing archived)" if "p \<in> set (rc_not_resurfaced rc)" for p
    using that unfolding rc_def reconcile_kept by simp
  show ?thesis unfolding rulings_agree_def
  proof (intro ballI impI)
    fix p q assume pq: "p \<in> set (rulings (rc_findings rc) (rc_not_resurfaced rc))"
      "q \<in> set (rulings (rc_findings rc) (rc_not_resurfaced rc))" "fd_id p = fd_id q \<and> fd_text p = fd_text q"
    then have "(p \<in> set (rc_findings rc) \<or> p \<in> set (rc_not_resurfaced rc))
        \<and> (q \<in> set (rc_findings rc) \<or> q \<in> set (rc_not_resurfaced rc))" by (auto simp: rulings_def)
    with pq(3) one[of p q] apart[of p q] apart[of q p] old[of p] old[of q] assms(3)
    show "fd_disposition p = fd_disposition q \<and> fd_carried_from p = fd_carried_from q"
      unfolding rulings_agree_def by metis
  qed
qed

section \<open>Properties\<close>

text \<open>The flag counts adjudications, not lines: a spec is stale exactly when an accepted
  deviation of its own report names one of its criteria, or the number of distinct
  budget keys of the accepted deviations over all the sets, a slug where some
  reaffirmation carries it and the content otherwise, exceeds the threshold, three when
  none is set; so the order, the grouping and the repetition of the findings are
  immaterial.\<close>

theorem spec_stale_exact:
  "st_count (spec_stale h inp) =
     card (budget h (accepted_in (si_findings inp # si_own_not_resurfaced inp # si_additional inp)))
   \<and> (st_flagged (spec_stale h inp) \<longleftrightarrow>
        (\<exists>f \<in> set (si_findings inp). is_accepted_deviation f \<and> si_story_acs inp (fd_id f))
        \<or> int (st_count (spec_stale h inp)) >
            (if si_threshold inp \<le> 0 then 3 else si_threshold inp))"
  by (auto simp: spec_stale_def Let_def count_budget defaultDeviationsStaleThreshold_def filter_empty_conv)

text \<open>C29. Regeneration neither launders nor inflates the budget: when a judge run
  regenerates the judged section, the count of accepted deviations over the new
  findings and the new archive is that over the old ones, whatever the judge emitted
  or failed to emit, whatever computed findings stand beside and whatever other sets
  are unioned; and agreement of the rulings, which this needs, is kept for the next run.\<close>

theorem budget_survives_regeneration:
  assumes "judge_output fresh" "hash_separates h fresh existing archived" "rulings_agree existing archived"
    "judged_only (existing @ archived)"
  shows "st_count (spec_stale h (inp
       \<lparr>si_findings := computed @ rc_findings (reconcile_judged h fresh existing archived),
        si_own_not_resurfaced := rc_not_resurfaced (reconcile_judged h fresh existing archived)\<rparr>)) =
     st_count (spec_stale h (inp\<lparr>si_findings := computed @ existing, si_own_not_resurfaced := archived\<rparr>))
   \<and> rulings_agree (rc_findings (reconcile_judged h fresh existing archived))
       (rc_not_resurfaced (reconcile_judged h fresh existing archived))"
proof -
  have split: "accepted_in ((computed @ fs) # gs # more) = accepted_in (computed # more) \<union> accepted_in [fs, gs]"
    for fs gs more by (auto simp: accepted_in_def)
  have "budget h (accepted_in ((computed @ rc_findings (reconcile_judged h fresh existing archived))
        # rc_not_resurfaced (reconcile_judged h fresh existing archived) # si_additional inp)) =
      budget h (accepted_in ((computed @ existing) # archived # si_additional inp))"
    by (rule budget_cong) (simp add: split image_Un regenerated_views[OF assms])
  then show ?thesis
    using regenerated_agree[OF assms(1-3)] by (simp add: spec_stale_def Let_def count_budget)
qed

definition sample_stale :: stale_input where
  "sample_stale = \<lparr>si_findings = [], si_story_acs = (\<lambda>i. i = ''ac-1''), si_threshold = 0,
     si_own_not_resurfaced = [], si_additional = []\<rparr>"

theorem budget_survives_regeneration_witness:
  "st_count (spec_stale (\<lambda>s. s) (sample_stale
     \<lparr>si_findings := rc_findings (reconcile_judged (\<lambda>s. s) sample_fresh
        (findings_of_kind (dv_findings sample_report) FindingJudged) (dv_not_resurfaced sample_report)),
      si_own_not_resurfaced := rc_not_resurfaced (reconcile_judged (\<lambda>s. s) sample_fresh
        (findings_of_kind (dv_findings sample_report) FindingJudged) (dv_not_resurfaced sample_report))\<rparr>)) = 1"
proof -
  have a: "rulings_agree (findings_of_kind (dv_findings sample_report) FindingJudged) (dv_not_resurfaced sample_report)"
    by code_simp
  have j: "judged_only (findings_of_kind (dv_findings sample_report) FindingJudged @ dv_not_resurfaced sample_report)"
    by code_simp
  have c: "st_count (spec_stale (\<lambda>s. s) (sample_stale
      \<lparr>si_findings := findings_of_kind (dv_findings sample_report) FindingJudged,
       si_own_not_resurfaced := dv_not_resurfaced sample_report\<rparr>)) = 1"
    by code_simp
  from budget_survives_regeneration[OF sample_fresh_output sample_separates a j, where inp = sample_stale and computed = "[]"] c
  show ?thesis by simp
qed

end
