(* ===== verification/Features.thy ===== *)
theory Features
  imports Fold
begin

text \<open>
  What a feature draws from its stories: the feature fold (internal/evidence,
  featurefold.go), stub reconciliation (stubreconcile.go), the cascade of a merged
  supersession and the advisory of a pending one (cascade.go, pendingsupersession.go),
  and criterion coverage (internal/featurecoverage). A Go map read by key is a
  function or an association list; class words of the operating model only occur in
  error prose and are left out.
\<close>

section \<open>The feature fold\<close>

record implementing_story =
  im_ref :: string
  im_acs :: "string list"
  im_closed :: bool
  im_eligible :: bool
  im_violated :: bool

record feature_input =
  ft_spec :: "spec option"
  ft_stories :: "string \<Rightarrow> implementing_story list"
  ft_records :: "evidence list"
  ft_preview :: bool
  ft_slug :: string

record floor_result =
  fl_satisfied :: bool
  fl_declares :: bool
  fl_attestation :: attestation_state
  fl_violating :: "evidence option"

record feature_ac_result =
  fa_id :: string
  fa_text :: string
  fa_status :: status
  fa_stories :: "string list"
  fa_summary :: string
  fa_floor :: floor_result

record feature_result =
  fr_ref :: string
  fr_acs :: "feature_ac_result list"
  fr_violated :: bool

datatype feature_error =
    FeatureSpecRequired
  | NotAFeature string spec_class
  | FeatureDeclaresNothing string
  | FeatureDangling evidence string
  | FeatureLoad load_error

fun verdict_text :: "verdict \<Rightarrow> string" where
  "verdict_text VerdictPass = ''pass''"
| "verdict_text VerdictFail = ''fail''"
| "verdict_text VerdictAbstain = ''abstain''"
| "verdict_text (VerdictUnknown s) = s"

definition present_absent :: "bool \<Rightarrow> string" where
  "present_absent b = (if b then ''present'' else ''absent'')"

definition summarize_feature_ac :: "evidence list \<Rightarrow> bool \<Rightarrow> string" where
  "summarize_feature_ac cur attested =
     join_with ''; ''
       ((''attestation:'' @ present_absent attested)
        # map (\<lambda>r. evidence_kind_string (e_kind r) @ '':'' @ verdict_text (e_verdict r))
            (filter (\<lambda>r. e_kind r \<noteq> EvidenceAttestation) cur))"

definition floor_of :: "acceptance_criterion \<Rightarrow> evidence list \<Rightarrow> attestation_state \<Rightarrow> floor_result" where
  "floor_of ac cur att =
     \<lparr>fl_satisfied = (att = AttestationAuthored \<or> list_ex (\<lambda>r. e_verdict r = VerdictPass) cur),
      fl_declares = declares_kind ac EvidenceAttestation, fl_attestation = att,
      fl_violating = first_failing cur\<rparr>"

definition fold_feature_ac ::
  "acceptance_criterion \<Rightarrow> implementing_story list \<Rightarrow> evidence list \<Rightarrow> attestation_state \<Rightarrow>
   status \<times> floor_result" where
  "fold_feature_ac ac stories cur att =
     (let fl = floor_of ac cur att in
      if list_ex im_violated stories then (StatusViolated, fl)
      else if list_ex (\<lambda>r. e_verdict r = VerdictFail) cur then (StatusViolated, fl)
      else if stories = [] then (StatusNoSignal, fl)
      else if list_all (\<lambda>s. im_closed s \<or> im_eligible s) stories \<and> fl_satisfied fl
      then (StatusEvidenced, fl)
      else (StatusPending, fl))"

definition feature_row ::
  "world \<Rightarrow> feature_input \<Rightarrow> evidence list \<Rightarrow> acceptance_criterion \<Rightarrow> feature_error + feature_ac_result" where
  "feature_row w inp candidates ac =
     (let stories = ft_stories inp (ac_id ac);
          cur = current (records_for_ac candidates (ac_id ac))
      in case (if declares_kind ac EvidenceAttestation
               then load_attestation_state w (ft_slug inp) (ac_id ac) else Inr AttestationAbsent) of
           Inl e \<Rightarrow> Inl (FeatureLoad e)
         | Inr att \<Rightarrow>
             (case fold_feature_ac ac stories cur att of (status, fl) \<Rightarrow>
                Inr \<lparr>fa_id = ac_id ac, fa_text = ac_text ac, fa_status = status,
                     fa_stories = map im_ref stories,
                     fa_summary = summarize_feature_ac cur (att = AttestationAuthored), fa_floor = fl\<rparr>))"

fun feature_rows ::
  "world \<Rightarrow> feature_input \<Rightarrow> evidence list \<Rightarrow> acceptance_criterion list \<Rightarrow>
   feature_error + feature_ac_result list" where
  "feature_rows w inp candidates [] = Inr []"
| "feature_rows w inp candidates (ac # acs) =
     (case feature_row w inp candidates ac of
        Inl e \<Rightarrow> Inl e
      | Inr r \<Rightarrow>
          (case feature_rows w inp candidates acs of
             Inl e \<Rightarrow> Inl e
           | Inr rs \<Rightarrow> Inr (r # rs)))"

definition fold_feature :: "world \<Rightarrow> feature_input \<Rightarrow> feature_error + feature_result" where
  "fold_feature w inp =
     (case ft_spec inp of
        None \<Rightarrow> Inl FeatureSpecRequired
      | Some sp \<Rightarrow>
          if s_class sp \<noteq> ClassFeature then Inl (NotAFeature (b_id (s_base sp)) (s_class sp))
          else if s_criteria sp = [] then Inl (FeatureDeclaresNothing (b_id (s_base sp)))
          else
            (case filter_candidates (ft_records inp) (ft_preview inp) (map ac_id (s_criteria sp))
                    FeatureDangling of
               Inl e \<Rightarrow> Inl e
             | Inr candidates \<Rightarrow>
                 (case feature_rows w inp candidates (s_criteria sp) of
                    Inl e \<Rightarrow> Inl e
                  | Inr rows \<Rightarrow>
                      Inr \<lparr>fr_ref = b_id (s_base sp), fr_acs = rows,
                           fr_violated = list_ex (\<lambda>r. fa_status r = StatusViolated) rows\<rparr>)))"

section \<open>Stub reconciliation\<close>

record stub_story =
  ss_ref :: string
  ss_acs :: "string list"
  ss_closed :: bool

datatype stub_bucket = StubRealized | StubWithdrawn | StubUnreconciled

record stub_result =
  sb_slug :: string
  sb_bucket :: stub_bucket
  sb_realized_by :: "string list"
  sb_note :: string

record stub_reconciliation =
  sy_stubs :: "stub_result list"
  sy_unplanned :: "(string \<times> string list) list"
  sy_blocked :: bool

datatype stub_error = StubSpecRequired | StubNotAFeature string spec_class

text \<open>A withdrawal is a (slug, note) pair; the map keeps the last one of a slug.\<close>

definition withdrawal_note :: "(string \<times> string) list \<Rightarrow> string \<Rightarrow> string" where
  "withdrawal_note ws slug = (case map_of (rev ws) slug of None \<Rightarrow> '''' | Some note \<Rightarrow> note)"

definition contributes :: "string list \<Rightarrow> stub_story \<Rightarrow> bool" where
  "contributes want s \<longleftrightarrow> ss_closed s \<and> list_ex (\<lambda>ac. ac \<in> set want) (ss_acs s)"

definition covered_acs :: "string list \<Rightarrow> stub_story list \<Rightarrow> string list" where
  "covered_acs want stories =
     remdups (filter (\<lambda>ac. ac \<in> set want) (concat (map ss_acs (filter ss_closed stories))))"

definition reconcile_stub :: "stub_story list \<Rightarrow> (string \<times> string) list \<Rightarrow> stub \<Rightarrow> stub_result" where
  "reconcile_stub stories ws st =
     (let want = remdups (st_criteria st);
          note = withdrawal_note ws (st_slug st)
      in if length (covered_acs want stories) = length want \<and> want \<noteq> [] then
           \<lparr>sb_slug = st_slug st, sb_bucket = StubRealized,
            sb_realized_by = map ss_ref (filter (contributes want) stories), sb_note = ''''\<rparr>
         else if note \<noteq> '''' then
           \<lparr>sb_slug = st_slug st, sb_bucket = StubWithdrawn, sb_realized_by = [], sb_note = note\<rparr>
         else
           \<lparr>sb_slug = st_slug st, sb_bucket = StubUnreconciled, sb_realized_by = [], sb_note = ''''\<rparr>)"

definition accounted_refs :: "stub list \<Rightarrow> stub_story list \<Rightarrow> string list" where
  "accounted_refs stubs stories =
     concat (map (\<lambda>st. map ss_ref (filter (contributes (st_criteria st)) stories)) stubs)"

definition reconcile_stubs ::
  "spec option \<Rightarrow> stub_story list \<Rightarrow> (string \<times> string) list \<Rightarrow> stub_error + stub_reconciliation" where
  "reconcile_stubs spec stories ws =
     (case spec of
        None \<Rightarrow> Inl StubSpecRequired
      | Some sp \<Rightarrow>
          if s_class sp \<noteq> ClassFeature then Inl (StubNotAFeature (b_id (s_base sp)) (s_class sp))
          else
            (let results = map (reconcile_stub stories ws) (s_stubs sp) in
             Inr \<lparr>sy_stubs = results,
                  sy_unplanned = map (\<lambda>s. (ss_ref s, ss_acs s))
                    (filter (\<lambda>s. ss_closed s \<and> ss_ref s \<notin> set (accounted_refs (s_stubs sp) stories)) stories),
                  sy_blocked = list_ex (\<lambda>r. sb_bucket r = StubUnreconciled) results\<rparr>))"

section \<open>The cascade of a supersession\<close>

record cascade_story =
  cs_ref :: string
  cs_objects :: "string list"

datatype cascade_verdict = CascadeUnaffected | CascadeStale | CascadeInvalidated

record cascade_result =
  cr_ref :: string
  cr_verdict :: cascade_verdict
  cr_amended :: "string list"
  cr_removed :: "string list"

datatype cascade_error = Unclassified string string

definition note_ids :: "supersession_note list \<Rightarrow> string list" where
  "note_ids ns = map sn_id ns"

fun cascade_objects ::
  "supersession \<Rightarrow> string list \<Rightarrow> string list \<Rightarrow> string list \<Rightarrow> string + (string list \<times> string list)" where
  "cascade_objects su amended removed [] = Inr (amended, removed)"
| "cascade_objects su amended removed (i # is) =
     (if i \<in> set (note_ids (su_removed su)) then cascade_objects su amended (removed @ [i]) is
      else if i \<in> set (note_ids (su_amended su)) then cascade_objects su (amended @ [i]) removed is
      else if i \<in> set (su_carried su) \<or> i \<in> set (note_ids (su_advisory su))
      then cascade_objects su amended removed is
      else Inl i)"

definition cascade_one :: "supersession \<Rightarrow> cascade_story \<Rightarrow> cascade_error + cascade_result" where
  "cascade_one su s =
     (case cascade_objects su [] [] (cs_objects s) of
        Inl i \<Rightarrow> Inl (Unclassified (cs_ref s) i)
      | Inr (amended, removed) \<Rightarrow>
          Inr \<lparr>cr_ref = cs_ref s,
               cr_verdict = (if removed \<noteq> [] then CascadeInvalidated
                             else if amended \<noteq> [] then CascadeStale else CascadeUnaffected),
               cr_amended = amended, cr_removed = removed\<rparr>)"

fun fold_cascade :: "supersession \<Rightarrow> cascade_story list \<Rightarrow> cascade_error + cascade_result list" where
  "fold_cascade su [] = Inr []"
| "fold_cascade su (s # ss) =
     (case cascade_one su s of
        Inl e \<Rightarrow> Inl e
      | Inr r \<Rightarrow> (case fold_cascade su ss of Inl e \<Rightarrow> Inl e | Inr rs \<Rightarrow> Inr (r # rs)))"

text \<open>An open merge request's confirmed candidate: its id and decoded spec.\<close>

record open_candidate =
  oc_mr :: string
  oc_spec :: "spec option"

definition supersedes_ref :: "spec \<Rightarrow> string \<Rightarrow> bool" where
  "supersedes_ref sp feature_ref \<longleftrightarrow>
     list_ex (\<lambda>l. l_type l = LinkSupersedes \<and> l_ref l = feature_ref) (b_links (s_base sp))"

fun implements_by_feature :: "string \<Rightarrow> link list \<Rightarrow> string list" where
  "implements_by_feature feature [] = []"
| "implements_by_feature feature (l # ls) =
     (if l_type l \<noteq> LinkImplements then implements_by_feature feature ls
      else
        (case parse_ref (l_ref l) of
           Inl e \<Rightarrow> implements_by_feature feature ls
         | Inr r \<Rightarrow>
             if ref_fragment r \<and> r_name r = feature then r_object r # implements_by_feature feature ls
             else implements_by_feature feature ls))"

record pending_result =
  pd_flagged :: bool
  pd_mrs :: "string list"
  pd_touched :: "string list"

definition add_new :: "'a \<Rightarrow> 'a list \<Rightarrow> 'a list" where
  "add_new x xs = (if x \<in> set xs then xs else xs @ [x])"

fun pending_objects :: "supersession \<Rightarrow> string \<Rightarrow> string list \<Rightarrow> pending_result \<Rightarrow> pending_result" where
  "pending_objects su mr [] r = r"
| "pending_objects su mr (i # is) r =
     pending_objects su mr is
       (if i \<in> set (note_ids (su_amended su)) \<or> i \<in> set (note_ids (su_removed su))
        then \<lparr>pd_flagged = True, pd_mrs = add_new mr (pd_mrs r), pd_touched = add_new i (pd_touched r)\<rparr>
        else r)"

fun pending_scan :: "string list \<Rightarrow> open_candidate list \<Rightarrow> pending_result \<Rightarrow> pending_result" where
  "pending_scan ids [] r = r"
| "pending_scan ids (c # cs) r =
     pending_scan ids cs
       (case Option.bind (oc_spec c) s_supersession of
          None \<Rightarrow> r
        | Some su \<Rightarrow> pending_objects su (oc_mr c) ids r)"

definition pending_supersession :: "string list \<Rightarrow> open_candidate list \<Rightarrow> pending_result" where
  "pending_supersession ids cs =
     pending_scan ids cs \<lparr>pd_flagged = False, pd_mrs = [], pd_touched = []\<rparr>"

section \<open>Coverage\<close>

record stub_decl =
  sd_slug :: string
  sd_criteria :: "string list"
  sd_unreadable :: string

record story_link =
  sl_criterion :: string
  sl_story :: string
  sl_unreadable :: string

record coverage =
  cv_stubs :: "string list"
  cv_stories :: "string list"
  cv_disclosed :: "string list"

definition uncovered :: "coverage \<Rightarrow> bool" where
  "uncovered c \<longleftrightarrow> cv_stubs c = [] \<and> cv_stories c = [] \<and> cv_disclosed c = []"

definition stub_decls :: "stub list \<Rightarrow> stub_decl list" where
  "stub_decls stubs =
     map (\<lambda>st. \<lparr>sd_slug = st_slug st, sd_criteria = st_criteria st, sd_unreadable = ''''\<rparr>)
       (filter (\<lambda>st. \<not> st_spike st) stubs)"

type_synonym coverage_map = "string \<rightharpoonup> coverage"

definition update_at :: "string \<Rightarrow> (coverage \<Rightarrow> coverage) \<Rightarrow> coverage_map \<Rightarrow> coverage_map" where
  "update_at i f m = (case m i of None \<Rightarrow> m | Some c \<Rightarrow> m(i \<mapsto> f c))"

definition cover_stub :: "string list \<Rightarrow> stub_decl \<Rightarrow> coverage_map \<Rightarrow> coverage_map" where
  "cover_stub ids sd m =
     (if sd_unreadable sd \<noteq> '''' then
        fold (\<lambda>i. update_at i (\<lambda>c. c\<lparr>cv_disclosed := cv_disclosed c @ [sd_unreadable sd]\<rparr>)) ids m
      else
        fold (\<lambda>i. update_at i (\<lambda>c. c\<lparr>cv_stubs := cv_stubs c @ [sd_slug sd]\<rparr>))
          (rev (remdups (rev (sd_criteria sd)))) m)"

text \<open>The stories counted for a criterion are exactly those its coverage already names.\<close>

definition cover_link :: "story_link \<Rightarrow> coverage_map \<Rightarrow> coverage_map" where
  "cover_link ln =
     update_at (sl_criterion ln)
       (\<lambda>c. if sl_unreadable ln \<noteq> '''' then c\<lparr>cv_disclosed := cv_disclosed c @ [sl_unreadable ln]\<rparr>
            else c\<lparr>cv_stories := add_new (sl_story ln) (cv_stories c)\<rparr>)"

definition compute_coverage :: "string list \<Rightarrow> stub_decl list \<Rightarrow> story_link list \<Rightarrow> coverage_map" where
  "compute_coverage ids stubs links =
     fold cover_link links
       (fold (cover_stub ids) stubs
         (fold (\<lambda>i m. m(i \<mapsto> \<lparr>cv_stubs = [], cv_stories = [], cv_disclosed = []\<rparr>)) ids Map.empty))"

section \<open>Rows of a feature fold\<close>

lemma feature_rows_in:
  "feature_rows w inp cands acs = Inr rows \<Longrightarrow> row \<in> set rows \<Longrightarrow>
     \<exists>ac \<in> set acs. feature_row w inp cands ac = Inr row"
  by (induction acs arbitrary: rows) (auto split: sum.splits)

lemma fold_feature_rows:
  assumes "fold_feature w inp = Inr res" "row \<in> set (fr_acs res)"
  shows "\<exists>sp ac. ft_spec inp = Some sp \<and> s_class sp = ClassFeature \<and> ac \<in> set (s_criteria sp)
     \<and> feature_row w inp (filter (keeps_source (ft_preview inp)) (ft_records inp)) ac = Inr row"
  using assms
  by (auto simp: fold_feature_def filter_candidates_def Let_def dest: feature_rows_in
      split: option.splits if_splits sum.splits)

definition floor_met :: "world \<Rightarrow> feature_input \<Rightarrow> string \<Rightarrow> bool" where
  "floor_met w inp ac \<longleftrightarrow>
     load_attestation_state w (ft_slug inp) ac = Inr AttestationAuthored
     \<or> (\<exists>r \<in> set (ft_records inp). keeps_source (ft_preview inp) r \<and> ac \<in> set (e_for r)
          \<and> e_verdict r = VerdictPass)"

lemma feature_row_fields:
  "feature_row w inp cands ac = Inr row \<Longrightarrow>
     fa_id row = ac_id ac \<and> fa_stories row = map im_ref (ft_stories inp (ac_id ac))
     \<and> (\<exists>att. (declares_kind ac EvidenceAttestation \<longrightarrow>
            load_attestation_state w (ft_slug inp) (ac_id ac) = Inr att)
          \<and> (\<not> declares_kind ac EvidenceAttestation \<longrightarrow> att = AttestationAbsent)
          \<and> fold_feature_ac ac (ft_stories inp (ac_id ac)) (current (records_for_ac cands (ac_id ac))) att
            = (fa_status row, fa_floor row))"
  by (auto simp: feature_row_def Let_def split: sum.splits prod.splits if_splits)

lemma fold_feature_ac_evidenced:
  "fold_feature_ac ac stories cur att = (StatusEvidenced, fl) \<Longrightarrow>
     stories \<noteq> [] \<and> (\<forall>s \<in> set stories. \<not> im_violated s \<and> (im_closed s \<or> im_eligible s))
     \<and> (\<forall>r \<in> set cur. e_verdict r \<noteq> VerdictFail)
     \<and> (att = AttestationAuthored \<or> (\<exists>r \<in> set cur. e_verdict r = VerdictPass))"
  by (auto simp: fold_feature_ac_def floor_of_def Let_def list_ex_iff list_all_iff split: if_splits)

lemma feature_row_evidenced:
  assumes "fold_feature w inp = Inr res" "row \<in> set (fr_acs res)" "fa_status row = StatusEvidenced"
  shows "ft_stories inp (fa_id row) \<noteq> []
     \<and> (\<forall>s \<in> set (ft_stories inp (fa_id row)). \<not> im_violated s \<and> (im_closed s \<or> im_eligible s))
     \<and> floor_met w inp (fa_id row)"
proof -
  let ?cands = "filter (keeps_source (ft_preview inp)) (ft_records inp)"
  obtain ac where row: "feature_row w inp ?cands ac = Inr row"
    using fold_feature_rows[OF assms(1,2)] by blast
  from feature_row_fields[OF row] assms(3) obtain att where
    att: "declares_kind ac EvidenceAttestation \<longrightarrow> load_attestation_state w (ft_slug inp) (ac_id ac) = Inr att"
      "\<not> declares_kind ac EvidenceAttestation \<longrightarrow> att = AttestationAbsent"
    and f: "fold_feature_ac ac (ft_stories inp (ac_id ac)) (current (records_for_ac ?cands (ac_id ac))) att
        = (StatusEvidenced, fa_floor row)" by metis
  have "set (current (records_for_ac ?cands (ac_id ac))) \<subseteq>
      {r \<in> set (ft_records inp). keeps_source (ft_preview inp) r \<and> ac_id ac \<in> set (e_for r)}"
    using cur.reduce_subset by (force simp: records_for_ac_def)
  with fold_feature_ac_evidenced[OF f] att feature_row_fields[OF row] show ?thesis
    by (auto simp: floor_met_def)
qed

section \<open>Stubs\<close>

lemma set_covered:
  "set (covered_acs want stories) = {ac \<in> set want. \<exists>s \<in> set stories. ss_closed s \<and> ac \<in> set (ss_acs s)}"
  by (auto simp: covered_acs_def)

lemma covered_full:
  "length (covered_acs (remdups want) stories) = length (remdups want) \<longleftrightarrow>
     (\<forall>ac \<in> set want. \<exists>s \<in> set stories. ss_closed s \<and> ac \<in> set (ss_acs s))"
proof -
  have sub: "set (covered_acs (remdups want) stories) \<subseteq> set want" by (auto simp: set_covered)
  have "distinct (covered_acs (remdups want) stories)" by (simp add: covered_acs_def)
  then have len: "length (covered_acs (remdups want) stories) = card (set (covered_acs (remdups want) stories))"
    by (simp add: distinct_card)
  have "length (remdups want) = card (set want)" by (simp add: length_remdups_card_conv)
  with len sub have "length (covered_acs (remdups want) stories) = length (remdups want) \<longleftrightarrow>
      set (covered_acs (remdups want) stories) = set want"
    using card_subset_eq[OF _ sub] by auto
  then show ?thesis by (auto simp: set_covered)
qed

definition stub_built :: "stub_story list \<Rightarrow> stub \<Rightarrow> bool" where
  "stub_built stories st \<longleftrightarrow>
     st_criteria st \<noteq> [] \<and> (\<forall>ac \<in> set (st_criteria st). \<exists>s \<in> set stories. ss_closed s \<and> ac \<in> set (ss_acs s))"

lemma contributes_remdups [simp]: "contributes (remdups want) = contributes want"
  by (simp add: contributes_def fun_eq_iff)

lemma reconcile_stub_bucket:
  "sb_bucket (reconcile_stub stories ws st) =
     (if stub_built stories st then StubRealized
      else if withdrawal_note ws (st_slug st) \<noteq> '''' then StubWithdrawn else StubUnreconciled)"
  using covered_full[of "st_criteria st" stories]
  by (auto simp: reconcile_stub_def stub_built_def Let_def)

lemma accounted_iff:
  "x \<in> set (accounted_refs stubs stories) \<longleftrightarrow>
     (\<exists>st \<in> set stubs. \<exists>s \<in> set stories. ss_ref s = x \<and> contributes (st_criteria st) s)"
  by (auto simp: accounted_refs_def)

lemma reconcile_stubs_Inr:
  assumes "reconcile_stubs (Some sp) stories ws = Inr r"
  shows "s_class sp = ClassFeature
     \<and> sy_stubs r = map (reconcile_stub stories ws) (s_stubs sp)
     \<and> (sy_blocked r \<longleftrightarrow> (\<exists>st \<in> set (s_stubs sp). \<not> stub_built stories st \<and> withdrawal_note ws (st_slug st) = ''''))"
  using assms
  by (auto simp: reconcile_stubs_def Let_def list_ex_iff reconcile_stub_bucket split: if_splits)

text \<open>C35. Stub reconciliation is complete in both directions: closure is blocked exactly
  when some stub is neither withdrawn with a note nor covered, criterion by criterion,
  by closed stories; a realized stub names every closed story that serves one of its
  criteria; and a closed story either shares its reference with one that serves a stub
  or is listed, with its criteria, as an unplanned addition.\<close>

theorem stub_reconciliation_complete:
  assumes "reconcile_stubs (Some sp) stories ws = Inr r"
  shows "(sy_blocked r \<longleftrightarrow> (\<exists>st \<in> set (s_stubs sp). \<not> stub_built stories st
            \<and> withdrawal_note ws (st_slug st) = ''''))
       \<and> (\<forall>b \<in> set (sy_stubs r). sb_bucket b = StubRealized \<longrightarrow>
            (\<exists>st \<in> set (s_stubs sp). sb_slug b = st_slug st \<and> stub_built stories st
               \<and> sb_realized_by b = map ss_ref (filter (contributes (st_criteria st)) stories)))
       \<and> (\<forall>s \<in> set stories. ss_closed s \<longrightarrow>
            ((ss_ref s, ss_acs s) \<in> set (sy_unplanned r) \<longleftrightarrow>
             \<not> (\<exists>st \<in> set (s_stubs sp). \<exists>t \<in> set stories. ss_ref t = ss_ref s \<and> contributes (st_criteria st) t)))"
proof -
  note inr = reconcile_stubs_Inr[OF assms]
  have unplanned: "sy_unplanned r = map (\<lambda>s. (ss_ref s, ss_acs s))
      (filter (\<lambda>s. ss_closed s \<and> ss_ref s \<notin> set (accounted_refs (s_stubs sp) stories)) stories)"
    using assms by (auto simp: reconcile_stubs_def Let_def split: if_splits)
  have "\<exists>st \<in> set (s_stubs sp). sb_slug b = st_slug st \<and> stub_built stories st
      \<and> sb_realized_by b = map ss_ref (filter (contributes (st_criteria st)) stories)"
    if "b \<in> set (sy_stubs r)" "sb_bucket b = StubRealized" for b
  proof -
    from that(1) inr obtain st where st: "st \<in> set (s_stubs sp)" "b = reconcile_stub stories ws st" by auto
    with that(2) have built: "stub_built stories st" by (auto simp: reconcile_stub_bucket split: if_splits)
    with st covered_full[of "st_criteria st" stories] show ?thesis
      by (auto simp: reconcile_stub_def stub_built_def Let_def intro!: bexI[of _ st])
  qed
  with inr unplanned show ?thesis by (auto simp: accounted_iff[symmetric])
qed

definition sample_stubbed :: spec where
  "sample_stubbed = sample_feature\<lparr>s_stubs :=
     [\<lparr>st_slug = ''pay-now'', st_spike = False, st_criteria = [''ac-1''], st_resolves = []\<rparr>,
      \<lparr>st_slug = ''which-bank'', st_spike = True, st_criteria = [], st_resolves = [''oq-1'']\<rparr>],
     s_questions := [\<lparr>oq_id = ''oq-1'', oq_text = ''q'', oq_anchor = ''q''\<rparr>]\<rparr>"

definition sample_stub_stories :: "stub_story list" where
  "sample_stub_stories =
     [\<lparr>ss_ref = ''spec/a'', ss_acs = [''ac-1''], ss_closed = True\<rparr>,
      \<lparr>ss_ref = ''spec/b'', ss_acs = [''ac-9''], ss_closed = True\<rparr>]"

lemma sample_reconciled:
  "reconcile_stubs (Some sample_stubbed) sample_stub_stories [] = Inr
     \<lparr>sy_stubs =
        [\<lparr>sb_slug = ''pay-now'', sb_bucket = StubRealized, sb_realized_by = [''spec/a''], sb_note = ''''\<rparr>,
         \<lparr>sb_slug = ''which-bank'', sb_bucket = StubUnreconciled, sb_realized_by = [], sb_note = ''''\<rparr>],
      sy_unplanned = [(''spec/b'', [''ac-9''])], sy_blocked = True\<rparr>"
  by code_simp

theorem stub_reconciliation_complete_witness:
  "\<exists>st \<in> set (s_stubs sample_stubbed). \<not> stub_built sample_stub_stories st
     \<and> withdrawal_note [] (st_slug st) = ''''"
  using stub_reconciliation_complete[OF sample_reconciled] by simp

text \<open>C40. A spike stub blocks its feature for good: an accepted feature that declares a
  spike stub is blocked at closure whatever stories were built and closed, unless a
  withdrawal of that stub is supplied.\<close>

theorem spike_stub_blocks:
  assumes "spec_validate sp = None" "st \<in> set (s_stubs sp)" "st_spike st"
    and "withdrawal_note ws (st_slug st) = ''''" "reconcile_stubs (Some sp) stories ws = Inr r"
  shows "sy_blocked r \<and> (\<exists>b \<in> set (sy_stubs r). sb_slug b = st_slug st \<and> sb_bucket b = StubUnreconciled)"
proof -
  have "validate_feature sp = None"
    using assms(1) reconcile_stubs_Inr[OF assms(5)] by (auto simp: spec_None)
  then have "stubs_scan (s_stubs sp) = None" by (simp add: feature_None)
  then have "stub_validate st = None" using assms(2) stubs.accepts_iff by blast
  then have "st_criteria st = []" using assms(3) by (auto simp: stub_validate_def Let_def split: if_splits)
  then have unbuilt: "\<not> stub_built stories st" by (simp add: stub_built_def)
  have "sb_slug (reconcile_stub stories ws st) = st_slug st" by (simp add: reconcile_stub_def Let_def)
  with unbuilt assms(2,4) reconcile_stubs_Inr[OF assms(5)] show ?thesis
    by (auto simp: reconcile_stub_bucket)
qed

lemma sample_stubbed_valid: "spec_validate sample_stubbed = None"
  by code_simp

theorem spike_stub_blocks_witness:
  "\<exists>r. reconcile_stubs (Some sample_stubbed) sample_stub_stories [] = Inr r \<and> sy_blocked r"
proof -
  have "s_stubs sample_stubbed ! 1 \<in> set (s_stubs sample_stubbed)" "st_spike (s_stubs sample_stubbed ! 1)"
    "withdrawal_note [] (st_slug (s_stubs sample_stubbed ! 1)) = ''''"
    by (simp_all add: sample_stubbed_def withdrawal_note_def)
  from spike_stub_blocks[OF sample_stubbed_valid this sample_reconciled] sample_reconciled
  show ?thesis by blast
qed

section \<open>Cascade\<close>

definition removes :: "supersession \<Rightarrow> string \<Rightarrow> bool" where
  "removes su i \<longleftrightarrow> i \<in> set (note_ids (su_removed su))"

definition amends :: "supersession \<Rightarrow> string \<Rightarrow> bool" where
  "amends su i \<longleftrightarrow> i \<notin> set (note_ids (su_removed su)) \<and> i \<in> set (note_ids (su_amended su))"

definition classified :: "supersession \<Rightarrow> string \<Rightarrow> bool" where
  "classified su i \<longleftrightarrow>
     i \<in> set (su_carried su) \<union> set (note_ids (su_amended su)) \<union> set (note_ids (su_advisory su))
       \<union> set (note_ids (su_removed su))"

lemma cascade_objects_Inr:
  "cascade_objects su am rm is = Inr (am', rm') \<longleftrightarrow>
     (\<forall>i \<in> set is. classified su i) \<and> am' = am @ filter (amends su) is \<and> rm' = rm @ filter (removes su) is"
  by (induction su am rm "is" rule: cascade_objects.induct) (auto simp: removes_def amends_def classified_def)

lemma cascade_objects_Inl:
  "cascade_objects su am rm is = Inl i \<Longrightarrow>
     \<exists>us vs. is = us @ i # vs \<and> \<not> classified su i \<and> (\<forall>j \<in> set us. classified su j)"
proof (induction su am rm "is" rule: cascade_objects.induct)
  case (2 su am rm j js)
  show ?case
  proof (cases "classified su j")
    case True
    with 2 have "\<exists>us vs. js = us @ i # vs \<and> \<not> classified su i \<and> (\<forall>j \<in> set us. classified su j)"
      by (auto simp: classified_def split: if_splits)
    then obtain us vs where "js = us @ i # vs" "\<not> classified su i" "\<forall>j \<in> set us. classified su j" by blast
    with True show ?thesis by (intro exI[of _ "j # us"] exI[of _ vs]) auto
  next
    case False
    with "2.prems" have "i = j" by (auto simp: classified_def split: if_splits)
    with False show ?thesis by (intro exI[of _ "[]"] exI[of _ js]) simp
  qed
qed simp

definition verdict_of :: "supersession \<Rightarrow> string list \<Rightarrow> cascade_verdict" where
  "verdict_of su is =
     (if \<exists>i \<in> set is. removes su i then CascadeInvalidated
      else if \<exists>i \<in> set is. amends su i then CascadeStale else CascadeUnaffected)"

lemma cascade_one_Inr:
  "cascade_one su s = Inr r \<longleftrightarrow>
     (\<forall>i \<in> set (cs_objects s). classified su i)
     \<and> r = \<lparr>cr_ref = cs_ref s, cr_verdict = verdict_of su (cs_objects s),
            cr_amended = filter (amends su) (cs_objects s), cr_removed = filter (removes su) (cs_objects s)\<rparr>"
proof (cases "cascade_objects su [] [] (cs_objects s)")
  case (Inl i)
  with cascade_objects_Inl[OF Inl] show ?thesis by (auto simp: cascade_one_def)
next
  case (Inr p)
  obtain am rm where p: "p = (am, rm)" by (cases p)
  from Inr[unfolded p cascade_objects_Inr] show ?thesis
    using Inr p by (auto simp: cascade_one_def verdict_of_def filter_empty_conv)
qed

lemma cascade_one_Inl:
  "cascade_one su s = Inl e \<Longrightarrow>
     \<exists>i \<in> set (cs_objects s). e = Unclassified (cs_ref s) i \<and> \<not> classified su i"
  by (auto simp: cascade_one_def split: sum.splits dest!: cascade_objects_Inl)

lemma fold_cascade_Inr: "fold_cascade su ss = Inr rs \<longleftrightarrow> map (cascade_one su) ss = map Inr rs"
proof
  show "fold_cascade su ss = Inr rs \<Longrightarrow> map (cascade_one su) ss = map Inr rs"
    by (induction ss arbitrary: rs) (auto split: sum.splits)
  show "map (cascade_one su) ss = map Inr rs \<Longrightarrow> fold_cascade su ss = Inr rs"
    by (induction ss arbitrary: rs) auto
qed

lemma fold_cascade_Inl: "fold_cascade su ss = Inl e \<Longrightarrow> \<exists>s \<in> set ss. cascade_one su s = Inl e"
  by (induction ss) (auto split: sum.splits)

text \<open>C38. The cascade never guesses: it fails exactly when some story names an object the
  supersession manifest does not classify, and names such a story and object; otherwise
  every story, in order, is invalidated if it touches a removed object, else stale if
  it touches an amended one, else unaffected, with the touched objects listed.\<close>

theorem cascade_exact:
  "case fold_cascade su ss of
     Inl (Unclassified ref i) \<Rightarrow>
       \<exists>s \<in> set ss. cs_ref s = ref \<and> i \<in> set (cs_objects s) \<and> \<not> classified su i
   | Inr rs \<Rightarrow>
       (\<forall>s \<in> set ss. \<forall>i \<in> set (cs_objects s). classified su i)
       \<and> map cr_ref rs = map cs_ref ss
       \<and> map cr_verdict rs = map (\<lambda>s. verdict_of su (cs_objects s)) ss
       \<and> map cr_removed rs = map (\<lambda>s. filter (removes su) (cs_objects s)) ss
       \<and> map cr_amended rs = map (\<lambda>s. filter (amends su) (cs_objects s)) ss"
proof (cases "fold_cascade su ss")
  case (Inl e)
  then show ?thesis by (cases e) (auto dest!: fold_cascade_Inl cascade_one_Inl)
next
  case (Inr rs)
  have "(\<forall>s \<in> set ss. \<forall>i \<in> set (cs_objects s). classified su i)
       \<and> map cr_ref rs = map cs_ref ss
       \<and> map cr_verdict rs = map (\<lambda>s. verdict_of su (cs_objects s)) ss
       \<and> map cr_removed rs = map (\<lambda>s. filter (removes su) (cs_objects s)) ss
       \<and> map cr_amended rs = map (\<lambda>s. filter (amends su) (cs_objects s)) ss"
    using Inr[unfolded fold_cascade_Inr]
    by (induction ss arbitrary: rs) (auto simp: cascade_one_Inr Cons_eq_map_conv)
  with Inr show ?thesis by simp
qed

definition sample_manifest :: supersession where
  "sample_manifest = \<lparr>su_carried = [''ac-1''], su_amended = [\<lparr>sn_id = ''ac-2'', sn_note = ''n''\<rparr>],
     su_advisory = [], su_removed = [\<lparr>sn_id = ''ac-3'', sn_note = ''n''\<rparr>], su_added = []\<rparr>"

definition sample_cascade_story :: "string list \<Rightarrow> cascade_story" where
  "sample_cascade_story objects = \<lparr>cs_ref = ''spec/a'', cs_objects = objects\<rparr>"

theorem cascade_exact_witness:
  "fold_cascade sample_manifest [sample_cascade_story [''ac-1''], sample_cascade_story [''ac-2'', ''ac-3'']] =
     Inr [\<lparr>cr_ref = ''spec/a'', cr_verdict = CascadeUnaffected, cr_amended = [], cr_removed = []\<rparr>,
          \<lparr>cr_ref = ''spec/a'', cr_verdict = CascadeInvalidated, cr_amended = [''ac-2''], cr_removed = [''ac-3'']\<rparr>]
   \<and> classified sample_manifest ''ac-3''"
proof -
  have e: "fold_cascade sample_manifest
      [sample_cascade_story [''ac-1''], sample_cascade_story [''ac-2'', ''ac-3'']] =
     Inr [\<lparr>cr_ref = ''spec/a'', cr_verdict = CascadeUnaffected, cr_amended = [], cr_removed = []\<rparr>,
          \<lparr>cr_ref = ''spec/a'', cr_verdict = CascadeInvalidated, cr_amended = [''ac-2''], cr_removed = [''ac-3'']\<rparr>]"
    by code_simp
  with cascade_exact[where su = sample_manifest
      and ss = "[sample_cascade_story [''ac-1''], sample_cascade_story [''ac-2'', ''ac-3'']]"]
  show ?thesis by (simp add: sample_cascade_story_def)
qed

section \<open>Pending supersession\<close>

lemma set_add_new [simp]: "set (add_new x xs) = insert x (set xs)"
  by (auto simp: add_new_def)

lemma pending_objects_fields:
  "pd_flagged (pending_objects su mr is r) = (pd_flagged r \<or> (\<exists>i \<in> set is. removes su i \<or> amends su i))
   \<and> set (pd_touched (pending_objects su mr is r)) =
       set (pd_touched r) \<union> {i \<in> set is. removes su i \<or> amends su i}"
  by (induction su mr "is" r rule: pending_objects.induct) (auto simp: removes_def amends_def)

lemma pending_scan_fields:
  "pd_flagged (pending_scan is cs r) \<longleftrightarrow> pd_flagged r
     \<or> (\<exists>c \<in> set cs. \<exists>sp su. oc_spec c = Some sp \<and> s_supersession sp = Some su
          \<and> (\<exists>i \<in> set is. removes su i \<or> amends su i))"
proof (induction "is" cs r rule: pending_scan.induct)
  case (2 ids c cs r)
  show ?case
    by (cases "oc_spec c"; cases "Option.bind (oc_spec c) s_supersession")
      (use 2 in \<open>auto simp: pending_objects_fields\<close>)
qed simp

lemma verdict_unaffected: "verdict_of su is \<noteq> CascadeUnaffected \<longleftrightarrow> (\<exists>i \<in> set is. removes su i \<or> amends su i)"
  by (auto simp: verdict_of_def)

text \<open>C37. The pending flag foretells the cascade: a story is flagged while superseding revisions
  are open exactly when merging one of them would give it a verdict other than unaffected, or
  would fail, because the manifest leaves an object of the story unclassified, while another
  object of it is amended or removed. Candidates that do not decode or carry no manifest
  never flag.\<close>

theorem pending_foretells_cascade:
  "pd_flagged (pending_supersession (cs_objects s) cs) \<longleftrightarrow>
     (\<exists>c \<in> set cs. \<exists>sp su. oc_spec c = Some sp \<and> s_supersession sp = Some su
        \<and> (case fold_cascade su [s] of
             Inr rs \<Rightarrow> \<exists>r. rs = [r] \<and> cr_verdict r \<noteq> CascadeUnaffected
           | Inl e \<Rightarrow> \<exists>i \<in> set (cs_objects s). i \<in> set (note_ids (su_amended su) @ note_ids (su_removed su))))"
proof -
  have one: "(case fold_cascade su [s] of
        Inr rs \<Rightarrow> \<exists>r. rs = [r] \<and> cr_verdict r \<noteq> CascadeUnaffected
      | Inl e \<Rightarrow> \<exists>i \<in> set (cs_objects s). i \<in> set (note_ids (su_amended su) @ note_ids (su_removed su)))
      \<longleftrightarrow> (\<exists>i \<in> set (cs_objects s). removes su i \<or> amends su i)" for su
  proof (cases "fold_cascade su [s]")
    case (Inl e)
    then show ?thesis by (auto simp: removes_def amends_def)
  next
    case (Inr rs)
    then show ?thesis using Inr[unfolded fold_cascade_Inr] by (auto simp: cascade_one_Inr verdict_unaffected)
  qed
  show ?thesis unfolding one by (simp add: pending_supersession_def pending_scan_fields)
qed

theorem pending_foretells_cascade_witness:
  "pd_flagged (pending_supersession (cs_objects (sample_cascade_story [''ac-2'']))
     [\<lparr>oc_mr = ''7'', oc_spec = Some (sample_feature\<lparr>s_supersession := Some sample_manifest\<rparr>)\<rparr>])
   \<and> pd_flagged (pending_supersession (cs_objects (sample_cascade_story [''ac-2'', ''ac-9'']))
     [\<lparr>oc_mr = ''7'', oc_spec = Some (sample_feature\<lparr>s_supersession := Some sample_manifest\<rparr>)\<rparr>])"
proof -
  have r: "fold_cascade sample_manifest [sample_cascade_story [''ac-2'']] =
      Inr [\<lparr>cr_ref = ''spec/a'', cr_verdict = CascadeStale, cr_amended = [''ac-2''], cr_removed = []\<rparr>]"
    "fold_cascade sample_manifest [sample_cascade_story [''ac-2'', ''ac-9'']] = Inl (Unclassified ''spec/a'' ''ac-9'')"
    by code_simp+
  have m: "''ac-2'' \<in> set (note_ids (su_amended sample_manifest) @ note_ids (su_removed sample_manifest))" by (simp add: sample_manifest_def note_ids_def)
  have o: "cs_objects (sample_cascade_story objs) = objs" for objs by (simp add: sample_cascade_story_def)
  show ?thesis
    unfolding pending_foretells_cascade using m by (simp add: r o del: fold_cascade.simps)
qed

section \<open>Coverage\<close>

lemma update_at_other: "i \<noteq> j \<Longrightarrow> update_at i f m j = m j"
  by (auto simp: update_at_def split: option.splits)

lemma update_at_same: "update_at i f m i = map_option f (m i)"
  by (auto simp: update_at_def split: option.splits)

lemma fold_update_at:
  "distinct is \<Longrightarrow> fold (\<lambda>i. update_at i f) is m j = (if j \<in> set is then map_option f (m j) else m j)"
  by (induction "is" arbitrary: m) (auto simp: update_at_def split: option.splits)

lemma fold_init:
  "fold (\<lambda>i m. m(i \<mapsto> c)) is m j = (if j \<in> set is then Some c else m j)"
  by (induction "is" arbitrary: m) auto

definition stub_covers :: "string \<Rightarrow> stub_decl \<Rightarrow> bool" where
  "stub_covers i sd \<longleftrightarrow> sd_unreadable sd = '''' \<and> i \<in> set (sd_criteria sd)"

definition link_covers :: "string \<Rightarrow> story_link \<Rightarrow> bool" where
  "link_covers i ln \<longleftrightarrow> sl_unreadable ln = '''' \<and> sl_criterion ln = i"

lemma cover_stub_at:
  assumes "distinct ids" "i \<in> set ids" "m i = Some c"
  shows "cover_stub ids sd m i = Some
     (if sd_unreadable sd \<noteq> '''' then c\<lparr>cv_disclosed := cv_disclosed c @ [sd_unreadable sd]\<rparr>
      else if i \<in> set (sd_criteria sd) then c\<lparr>cv_stubs := cv_stubs c @ [sd_slug sd]\<rparr> else c)"
  using assms by (simp add: cover_stub_def fold_update_at)

lemma fold_cover_stub:
  assumes "distinct ids" "i \<in> set ids"
  shows "m i = Some c \<Longrightarrow> fold (cover_stub ids) sds m i = Some
     (c\<lparr>cv_stubs := cv_stubs c @ map sd_slug (filter (stub_covers i) sds),
        cv_disclosed := cv_disclosed c @ map sd_unreadable (filter (\<lambda>sd. sd_unreadable sd \<noteq> '''') sds)\<rparr>)"
proof (induction sds arbitrary: m c)
  case (Cons sd sds)
  let ?c = "if sd_unreadable sd \<noteq> '''' then c\<lparr>cv_disclosed := cv_disclosed c @ [sd_unreadable sd]\<rparr>
      else if i \<in> set (sd_criteria sd) then c\<lparr>cv_stubs := cv_stubs c @ [sd_slug sd]\<rparr> else c"
  have "cover_stub ids sd m i = Some ?c"
    by (rule cover_stub_at) (rule assms Cons.prems)+
  from Cons.IH[of "cover_stub ids sd m" ?c, OF this] show ?case
    by (auto simp: stub_covers_def)
qed simp

lemma fold_cover_link:
  "m i = Some c \<Longrightarrow> \<exists>c'. fold cover_link links m i = Some c' \<and> cv_stubs c' = cv_stubs c
     \<and> set (cv_stories c') = set (cv_stories c) \<union> sl_story ` set (filter (link_covers i) links)
     \<and> (distinct (cv_stories c) \<longrightarrow> distinct (cv_stories c'))
     \<and> cv_disclosed c' = cv_disclosed c
         @ map sl_unreadable (filter (\<lambda>ln. sl_criterion ln = i \<and> sl_unreadable ln \<noteq> '''') links)"
proof (induction links arbitrary: m c)
  case (Cons ln links)
  show ?case
  proof (cases "sl_criterion ln = i")
    case True
    let ?c = "if sl_unreadable ln \<noteq> '''' then c\<lparr>cv_disclosed := cv_disclosed c @ [sl_unreadable ln]\<rparr>
        else c\<lparr>cv_stories := add_new (sl_story ln) (cv_stories c)\<rparr>"
    have "cover_link ln m i = Some ?c"
      using True Cons.prems by (auto simp: cover_link_def update_at_same)
    from Cons.IH[of "cover_link ln m" ?c, OF this] True show ?thesis
      by (auto simp: link_covers_def add_new_def)
  next
    case False
    then have "cover_link ln m i = Some c" using Cons.prems by (simp add: cover_link_def update_at_other)
    from Cons.IH[of "cover_link ln m" c, OF this] False show ?thesis by (auto simp: link_covers_def)
  qed
qed simp

text \<open>Coverage is the family structure and nothing else: every declared criterion has
  an entry, its stubs are, in order, the readable stubs that list it, its stories the
  distinct stories that link to it, an unreadable stub is disclosed on every criterion
  and an unreadable link on its own; so a criterion is uncovered exactly when nothing
  lists it, nothing links to it and nothing that might have was unreadable.\<close>

theorem coverage_exact:
  assumes "distinct ids" "i \<in> set ids"
  shows "\<exists>c. compute_coverage ids sds links i = Some c
       \<and> cv_stubs c = map sd_slug (filter (stub_covers i) sds)
       \<and> distinct (cv_stories c) \<and> set (cv_stories c) = sl_story ` {ln \<in> set links. link_covers i ln}
       \<and> (uncovered c \<longleftrightarrow> \<not> (\<exists>sd \<in> set sds. stub_covers i sd \<or> sd_unreadable sd \<noteq> '''')
            \<and> \<not> (\<exists>ln \<in> set links. sl_criterion ln = i))"
proof -
  let ?c0 = "\<lparr>cv_stubs = [], cv_stories = [], cv_disclosed = []\<rparr>"
  let ?c1 = "?c0\<lparr>cv_stubs := cv_stubs ?c0 @ map sd_slug (filter (stub_covers i) sds),
      cv_disclosed := cv_disclosed ?c0 @ map sd_unreadable (filter (\<lambda>sd. sd_unreadable sd \<noteq> '''') sds)\<rparr>"
  let ?m0 = "fold (\<lambda>i m. m(i \<mapsto> ?c0)) ids Map.empty"
  let ?m1 = "fold (cover_stub ids) sds ?m0"
  have "?m0 i = Some ?c0" using assms(2) by (simp add: fold_init)
  then have "?m1 i = Some ?c1" by (rule fold_cover_stub[OF assms])
  from fold_cover_link[of ?m1 i ?c1 links, OF this] obtain c where c:
    "compute_coverage ids sds links i = Some c" "cv_stubs c = map sd_slug (filter (stub_covers i) sds)"
    "set (cv_stories c) = sl_story ` set (filter (link_covers i) links)" "distinct (cv_stories c)"
    "cv_disclosed c = map sd_unreadable (filter (\<lambda>sd. sd_unreadable sd \<noteq> '''') sds)
       @ map sl_unreadable (filter (\<lambda>ln. sl_criterion ln = i \<and> sl_unreadable ln \<noteq> '''') links)"
    by (auto simp: compute_coverage_def)
  have "cv_stories c = [] \<longleftrightarrow> \<not> (\<exists>ln \<in> set links. link_covers i ln)"
    using c(3) by (metis (no_types, lifting) filter_empty_conv image_is_empty set_empty)
  with c show ?thesis
    by (auto simp: uncovered_def filter_empty_conv link_covers_def intro!: exI[of _ c])
qed

theorem coverage_exact_witness:
  "\<exists>c. compute_coverage [''ac-1'', ''ac-2''] (stub_decls (s_stubs sample_stubbed))
        [\<lparr>sl_criterion = ''ac-2'', sl_story = ''spec/a'', sl_unreadable = ''''\<rparr>] ''ac-1'' = Some c
      \<and> cv_stubs c = [''pay-now''] \<and> \<not> uncovered c"
proof -
  have d: "distinct [''ac-1'', ''ac-2'']" "''ac-1'' \<in> set [''ac-1'', ''ac-2'']" by simp_all
  show ?thesis
    using coverage_exact[OF d, of "stub_decls (s_stubs sample_stubbed)"
        "[\<lparr>sl_criterion = ''ac-2'', sl_story = ''spec/a'', sl_unreadable = ''''\<rparr>]"]
    by (auto simp: stub_decls_def sample_stubbed_def stub_covers_def)
qed

end
