(* ===== verification/CorpusCache.thy ===== *)
theory CorpusCache
  imports Prelude
begin

text \<open>
  The corpus cache of the lifecycle projector, internal/specstate/corpuscache.go:
  a bounded, most-recently-used-first table of scanned corpora with one shared
  scan per missing key. The critical sections of \<^verbatim>\<open>get\<close>, \<^verbatim>\<open>lead\<close>, \<^verbatim>\<open>lookupLocked\<close>
  and \<^verbatim>\<open>storeLocked\<close> are functions on the cache; the goroutines that run between
  them are the control points of a step relation, one per place where \<^verbatim>\<open>get\<close> can be
  preempted. A channel is a number, closed once it is in \<open>closed\<close>; the outcome of a
  scan is nondeterministic (\<open>outcome key r\<close>), and the contexts of the callers \<open>ends\<close>
  may end at any time.
\<close>

section \<open>The table\<close>

datatype ('c, 'e) scan_result = ScanOk 'c | ScanNil | ScanErr 'e | ScanPanic

record ('k, 'c) corpus_cache =
  cc_limit :: nat
  cc_entries :: "('k \<times> 'c) list"
  cc_flights :: "'k \<rightharpoonup> nat"
  cc_waiters :: nat

definition corpusCacheLimit :: nat where
  "corpusCacheLimit = 4"

definition new_corpus_cache :: "nat \<Rightarrow> ('k, 'c) corpus_cache" where
  "new_corpus_cache limit =
     \<lparr>cc_limit = limit, cc_entries = [], cc_flights = Map.empty, cc_waiters = 0\<rparr>"

fun lookup_from :: "'k \<Rightarrow> ('k \<times> 'c) list \<Rightarrow> ('k \<times> 'c) list \<Rightarrow> ('c \<times> ('k \<times> 'c) list) option" where
  "lookup_from key before [] = None"
| "lookup_from key before (e # es) =
     (if fst e = key then Some (snd e, e # before @ es) else lookup_from key (before @ [e]) es)"

definition lookup_locked :: "'k \<Rightarrow> ('k, 'c) corpus_cache \<Rightarrow> ('c \<times> ('k, 'c) corpus_cache) option" where
  "lookup_locked key c =
     map_option (\<lambda>(corpus, es). (corpus, c\<lparr>cc_entries := es\<rparr>)) (lookup_from key [] (cc_entries c))"

fun store_scan :: "nat \<Rightarrow> 'k \<Rightarrow> ('k \<times> 'c) list \<Rightarrow> ('k \<times> 'c) list \<Rightarrow> ('k \<times> 'c) list" where
  "store_scan limit key kept [] = kept"
| "store_scan limit key kept (e # es) =
     (if limit \<le> length kept then kept
      else store_scan limit key (if fst e \<noteq> key then kept @ [e] else kept) es)"

definition store_locked :: "'k \<Rightarrow> 'c \<Rightarrow> ('k, 'c) corpus_cache \<Rightarrow> ('k, 'c) corpus_cache" where
  "store_locked key corpus c =
     c\<lparr>cc_entries := store_scan (cc_limit c) key [(key, corpus)] (cc_entries c)\<rparr>"

text \<open>The first critical section of \<^verbatim>\<open>get\<close>: hit, lead a new scan (on the fresh
  channel), or join the one in flight.\<close>

datatype 'c entered = Hit 'c | Lead | Join nat

definition enter_locked :: "'k \<Rightarrow> nat \<Rightarrow> ('k, 'c) corpus_cache \<Rightarrow> 'c entered \<times> ('k, 'c) corpus_cache" where
  "enter_locked key fresh c =
     (case lookup_locked key c of
        Some (corpus, c') \<Rightarrow> (Hit corpus, c')
      | None \<Rightarrow>
          (case cc_flights c key of
             None \<Rightarrow> (Lead, c\<lparr>cc_flights := (cc_flights c)(key \<mapsto> fresh)\<rparr>)
           | Some f \<Rightarrow> (Join f, c\<lparr>cc_waiters := Suc (cc_waiters c)\<rparr>)))"

definition release_locked ::
  "'k \<Rightarrow> ('c, 'e) scan_result \<Rightarrow> ('k, 'c) corpus_cache \<Rightarrow> ('k, 'c) corpus_cache" where
  "release_locked key r c =
     (let c' = c\<lparr>cc_flights := (cc_flights c)(key := None)\<rparr> in
      case r of ScanOk corpus \<Rightarrow> store_locked key corpus c' | _ \<Rightarrow> c')"

definition leave_locked :: "('k, 'c) corpus_cache \<Rightarrow> ('k, 'c) corpus_cache" where
  "leave_locked c = c\<lparr>cc_waiters := cc_waiters c - 1\<rparr>"

section \<open>The callers\<close>

datatype ('k, 'c, 'e) caller =
    Calling 'k
  | Leading 'k nat
  | Releasing 'k nat "('c, 'e) scan_result"
  | Closing 'k nat "('c, 'e) scan_result"
  | Waiting 'k nat
  | Woken 'k
  | Cancelled 'k
  | Alone 'k
  | Returned 'k "('c, 'e) scan_result"

record ('k, 'c, 'e) cache_state =
  cache :: "('k, 'c) corpus_cache"
  closed :: "nat set"
  fresh :: nat
  callers :: "('k, 'c, 'e) caller list"

definition at_enter :: "'k \<Rightarrow> nat \<Rightarrow> 'c entered \<Rightarrow> ('k, 'c, 'e) caller" where
  "at_enter key f r =
     (case r of Hit corpus \<Rightarrow> Returned key (ScanOk corpus) | Lead \<Rightarrow> Leading key f | Join g \<Rightarrow> Waiting key g)"

inductive cache_step ::
  "('k \<Rightarrow> ('c, 'e) scan_result \<Rightarrow> bool) \<Rightarrow> nat set \<Rightarrow>
   ('k, 'c, 'e) cache_state \<Rightarrow> ('k, 'c, 'e) cache_state \<Rightarrow> bool"
  for outcome ends where
  enter: "i < length (callers s) \<Longrightarrow> callers s ! i = Calling key \<Longrightarrow>
    enter_locked key (fresh s) (cache s) = (r, c) \<Longrightarrow>
    cache_step outcome ends s
      (s\<lparr>cache := c, fresh := Suc (fresh s), callers := (callers s)[i := at_enter key (fresh s) r]\<rparr>)"
| scan: "i < length (callers s) \<Longrightarrow> callers s ! i = Leading key f \<Longrightarrow> outcome key r \<Longrightarrow>
    cache_step outcome ends s (s\<lparr>callers := (callers s)[i := Releasing key f r]\<rparr>)"
| release: "i < length (callers s) \<Longrightarrow> callers s ! i = Releasing key f r \<Longrightarrow>
    cache_step outcome ends s
      (s\<lparr>cache := release_locked key r (cache s), callers := (callers s)[i := Closing key f r]\<rparr>)"
| close: "i < length (callers s) \<Longrightarrow> callers s ! i = Closing key f r \<Longrightarrow>
    cache_step outcome ends s
      (s\<lparr>closed := insert f (closed s), callers := (callers s)[i := Returned key r]\<rparr>)"
| wake: "i < length (callers s) \<Longrightarrow> callers s ! i = Waiting key f \<Longrightarrow> f \<in> closed s \<Longrightarrow>
    cache_step outcome ends s (s\<lparr>callers := (callers s)[i := Woken key]\<rparr>)"
| cancel: "i < length (callers s) \<Longrightarrow> callers s ! i = Waiting key f \<Longrightarrow> i \<in> ends \<Longrightarrow>
    cache_step outcome ends s (s\<lparr>callers := (callers s)[i := Cancelled key]\<rparr>)"
| again: "i < length (callers s) \<Longrightarrow> callers s ! i = Woken key \<Longrightarrow>
    cache_step outcome ends s
      (s\<lparr>cache := leave_locked (cache s), callers := (callers s)[i := Calling key]\<rparr>)"
| give_up: "i < length (callers s) \<Longrightarrow> callers s ! i = Cancelled key \<Longrightarrow>
    cache_step outcome ends s
      (s\<lparr>cache := leave_locked (cache s), callers := (callers s)[i := Alone key]\<rparr>)"
| alone: "i < length (callers s) \<Longrightarrow> callers s ! i = Alone key \<Longrightarrow> outcome key r \<Longrightarrow>
    cache_step outcome ends s (s\<lparr>callers := (callers s)[i := Returned key r]\<rparr>)"

text \<open>Calls start on a cache with no scan in flight.\<close>

definition start :: "('k, 'c) corpus_cache \<Rightarrow> 'k list \<Rightarrow> ('k, 'c, 'e) cache_state" where
  "start c keys = \<lparr>cache = c, closed = {}, fresh = 0, callers = map Calling keys\<rparr>"

definition runs ::
  "('k \<Rightarrow> ('c, 'e) scan_result \<Rightarrow> bool) \<Rightarrow> nat set \<Rightarrow>
   ('k, 'c, 'e) cache_state \<Rightarrow> ('k, 'c, 'e) cache_state \<Rightarrow> bool" where
  "runs outcome ends = (cache_step outcome ends)\<^sup>*\<^sup>*"

section \<open>The table meets the contract of a memo table\<close>

text \<open>What the callers rely on: a lookup changes no binding, and a store adds its own
  binding and may only forget others.\<close>

locale memo_table =
  fixes find_in :: "'k \<Rightarrow> 't \<Rightarrow> 'c option"
    and touch :: "'k \<Rightarrow> 't \<Rightarrow> 't"
    and store :: "'k \<Rightarrow> 'c \<Rightarrow> 't \<Rightarrow> 't"
    and ok :: "'t \<Rightarrow> bool"
  assumes touch_ok: "ok t \<Longrightarrow> ok (touch key t)"
    and store_ok: "ok t \<Longrightarrow> ok (store key corpus t)"
    and find_touch: "ok t \<Longrightarrow> find_in key' (touch key t) = find_in key' t"
    and find_store_same: "ok t \<Longrightarrow> find_in key (store key corpus t) = Some corpus"
    and find_store_other: "ok t \<Longrightarrow> key' \<noteq> key \<Longrightarrow> find_in key' (store key corpus t) = Some d \<Longrightarrow>
      find_in key' t = Some d"
begin

definition sound :: "('k \<Rightarrow> 'c \<Rightarrow> bool) \<Rightarrow> 't \<Rightarrow> bool" where
  "sound valid t \<longleftrightarrow> ok t \<and> (\<forall>key corpus. find_in key t = Some corpus \<longrightarrow> valid key corpus)"

lemma sound_ok: "sound valid t \<Longrightarrow> ok t"
  by (simp add: sound_def)

lemma sound_find: "sound valid t \<Longrightarrow> find_in key t = Some corpus \<Longrightarrow> valid key corpus"
  by (simp add: sound_def)

lemma touch_sound: "sound valid t \<Longrightarrow> sound valid (touch key t)"
  by (simp add: sound_def touch_ok find_touch)

lemma store_sound: "sound valid t \<Longrightarrow> valid key corpus \<Longrightarrow> sound valid (store key corpus t)"
  unfolding sound_def by (metis store_ok find_store_same find_store_other option.inject)

end

definition table_ok :: "('k, 'c) corpus_cache \<Rightarrow> bool" where
  "table_ok c \<longleftrightarrow> distinct (map fst (cc_entries c)) \<and> length (cc_entries c) \<le> max 1 (cc_limit c)"

definition find_corpus :: "'k \<Rightarrow> ('k, 'c) corpus_cache \<Rightarrow> 'c option" where
  "find_corpus key c = map_of (cc_entries c) key"

definition touch_corpus :: "'k \<Rightarrow> ('k, 'c) corpus_cache \<Rightarrow> ('k, 'c) corpus_cache" where
  "touch_corpus key c = (case lookup_locked key c of Some (corpus, c') \<Rightarrow> c' | None \<Rightarrow> c)"

lemma lookup_from_None: "lookup_from key before es = None \<longleftrightarrow> map_of es key = None"
  by (induction key before es rule: lookup_from.induct) auto

lemma lookup_from_Some:
  assumes "lookup_from key before es = Some (corpus, es')" "distinct (map fst es)"
  shows "map_of es key = Some corpus \<and> es' = (key, corpus) # before @ filter (\<lambda>e. fst e \<noteq> key) es"
  using assms
proof (induction key before es rule: lookup_from.induct)
  case (2 key before e es)
  show ?case
  proof (cases "fst e = key")
    case True
    with 2 have "filter (\<lambda>e. fst e \<noteq> key) es = es"
      by (auto simp: filter_id_conv image_iff intro!: filter_True)
    with True 2 show ?thesis by (cases e) auto
  qed (use 2 in auto)
qed simp

lemma lookup_locked_None: "lookup_locked key c = None \<longleftrightarrow> find_corpus key c = None"
  by (simp add: lookup_locked_def lookup_from_None find_corpus_def)

lemma lookup_locked_touch: "lookup_locked key c = Some (corpus, c') \<Longrightarrow> c' = touch_corpus key c"
  by (simp add: touch_corpus_def)

lemma lookup_locked_Some:
  "lookup_locked key c = Some (corpus, c') \<Longrightarrow> table_ok c \<Longrightarrow>
     find_corpus key c = Some corpus
     \<and> c' = c\<lparr>cc_entries := (key, corpus) # filter (\<lambda>e. fst e \<noteq> key) (cc_entries c)\<rparr>"
  by (auto simp: lookup_locked_def find_corpus_def table_ok_def dest!: lookup_from_Some)

lemma store_scan_take:
  "store_scan limit key kept es = kept @ take (limit - length kept) (filter (\<lambda>e. fst e \<noteq> key) es)"
proof (induction limit key kept es rule: store_scan.induct)
  case (2 limit key kept e es)
  then show ?case
    by (cases "limit - length kept") (auto simp: diff_Suc split: nat.splits)
qed simp

lemma store_locked_entries:
  "cc_entries (store_locked key corpus c) =
     (key, corpus) # take (cc_limit c - 1) (filter (\<lambda>e. fst e \<noteq> key) (cc_entries c))"
  by (simp add: store_locked_def store_scan_take)

lemma map_of_filter_other: "map_of (filter (\<lambda>e. fst e \<noteq> key) es) k = (if k = key then None else map_of es k)"
  by (induction es) auto

lemma map_of_take: "distinct (map fst es) \<Longrightarrow> map_of (take n es) k = Some c \<Longrightarrow> map_of es k = Some c"
  by (metis in_set_takeD map_of_is_SomeI map_of_SomeD)

lemma touch_corpus_entries:
  assumes "table_ok c"
  shows "touch_corpus key c = c\<lparr>cc_entries :=
     (case find_corpus key c of None \<Rightarrow> cc_entries c
      | Some corpus \<Rightarrow> (key, corpus) # filter (\<lambda>e. fst e \<noteq> key) (cc_entries c))\<rparr>"
proof (cases "lookup_locked key c")
  case None
  then have "find_corpus key c = None" by (simp add: lookup_locked_None)
  with None show ?thesis by (simp add: touch_corpus_def)
next
  case (Some p)
  obtain corpus c' where p: "p = (corpus, c')" by (cases p)
  with Some assms show ?thesis using lookup_locked_Some[of key c corpus c'] by (simp add: touch_corpus_def)
qed

lemma length_filter_other:
  "map_of es key = Some corpus \<Longrightarrow> length (filter (\<lambda>e. fst e \<noteq> key) es) < length es"
  by (rule length_filter_less[of "(key, corpus)"]) (auto dest: map_of_SomeD)

lemma touch_table_ok: "table_ok c \<Longrightarrow> table_ok (touch_corpus key c)"
  using length_filter_other[of "cc_entries c" key]
  by (fastforce simp: touch_corpus_entries table_ok_def find_corpus_def distinct_map_filter
      simp del: map_of_eq_Some_iff split: option.splits)

lemma store_table_ok: "table_ok c \<Longrightarrow> table_ok (store_locked key corpus c)"
  by (auto simp: table_ok_def store_locked_entries distinct_map_filter distinct_take
      simp flip: take_map dest: in_set_takeD)
     (auto simp: store_locked_def)

interpretation corpora: memo_table find_corpus touch_corpus store_locked table_ok
proof
  fix key key' :: 'k and corpus d :: 'c and t :: "('k, 'c) corpus_cache"
  show "table_ok t \<Longrightarrow> table_ok (touch_corpus key t)" by (rule touch_table_ok)
  show "table_ok t \<Longrightarrow> table_ok (store_locked key corpus t)" by (rule store_table_ok)
  show "table_ok t \<Longrightarrow> find_corpus key' (touch_corpus key t) = find_corpus key' t"
    by (auto simp: touch_corpus_entries find_corpus_def map_of_filter_other split: option.splits)
  show "find_corpus key (store_locked key corpus t) = Some corpus"
    by (simp add: find_corpus_def store_locked_entries)
  show "table_ok t \<Longrightarrow> key' \<noteq> key \<Longrightarrow> find_corpus key' (store_locked key corpus t) = Some d \<Longrightarrow>
      find_corpus key' t = Some d"
    using map_of_take[of "filter (\<lambda>e. fst e \<noteq> key) (cc_entries t)" "cc_limit t - 1" key' d]
    by (simp add: find_corpus_def store_locked_entries table_ok_def distinct_map_filter map_of_filter_other)
qed

section \<open>What holds between the critical sections\<close>

fun owner :: "('k, 'c, 'e) caller \<Rightarrow> nat option" where
  "owner (Leading key f) = Some f"
| "owner (Releasing key f r) = Some f"
| "owner (Closing key f r) = Some f"
| "owner p = None"

fun leads :: "('k, 'c, 'e) caller \<Rightarrow> ('k \<times> nat) option" where
  "leads (Leading key f) = Some (key, f)"
| "leads (Releasing key f r) = Some (key, f)"
| "leads p = None"

fun holds_flight :: "('k, 'c, 'e) caller \<Rightarrow> bool" where
  "holds_flight (Waiting key f) = True"
| "holds_flight (Woken key) = True"
| "holds_flight (Cancelled key) = True"
| "holds_flight p = False"

fun result_of :: "('k, 'c, 'e) caller \<Rightarrow> ('k \<times> ('c, 'e) scan_result) option" where
  "result_of (Releasing key f r) = Some (key, r)"
| "result_of (Closing key f r) = Some (key, r)"
| "result_of (Returned key r) = Some (key, r)"
| "result_of p = None"

lemma leads_owner: "leads p = Some (key, f) \<Longrightarrow> owner p = Some f"
  by (cases p) auto

definition flights_owned :: "('k, 'c, 'e) cache_state \<Rightarrow> bool" where
  "flights_owned s \<longleftrightarrow>
     (\<forall>key f. cc_flights (cache s) key = Some f \<longleftrightarrow> Some (key, f) \<in> set (map leads (callers s)))"

definition owners_apart :: "('k, 'c, 'e) cache_state \<Rightarrow> bool" where
  "owners_apart s \<longleftrightarrow> distinct (filter (\<lambda>x. x \<noteq> None) (map owner (callers s)))"

definition owners_open :: "('k, 'c, 'e) cache_state \<Rightarrow> bool" where
  "owners_open s \<longleftrightarrow>
     closed s \<subseteq> {..<fresh s}
     \<and> (\<forall>f. Some f \<in> set (map owner (callers s)) \<longrightarrow> f < fresh s \<and> f \<notin> closed s)"

definition no_lost_wakeup :: "('k, 'c, 'e) cache_state \<Rightarrow> bool" where
  "no_lost_wakeup s \<longleftrightarrow>
     (\<forall>key f. Waiting key f \<in> set (callers s) \<longrightarrow> f \<in> closed s \<or> Some f \<in> set (map owner (callers s)))"

definition waiters_counted :: "('k, 'c, 'e) cache_state \<Rightarrow> bool" where
  "waiters_counted s \<longleftrightarrow> cc_waiters (cache s) = length (filter holds_flight (callers s))"

definition results_real ::
  "('k \<Rightarrow> ('c, 'e) scan_result \<Rightarrow> bool) \<Rightarrow> ('k, 'c, 'e) cache_state \<Rightarrow> bool" where
  "results_real outcome s \<longleftrightarrow>
     corpora.sound (\<lambda>key corpus. outcome key (ScanOk corpus)) (cache s)
     \<and> (\<forall>key r. Some (key, r) \<in> set (map result_of (callers s)) \<longrightarrow> outcome key r)"

lemmas cache_inv_defs = flights_owned_def owners_apart_def owners_open_def no_lost_wakeup_def
  waiters_counted_def results_real_def

lemma enter_cases:
  assumes "enter_locked key f c = (r, c')"
  obtains corpus where "r = Hit corpus" "c' = touch_corpus key c" "lookup_locked key c = Some (corpus, c')"
  | "r = Lead" "c' = c\<lparr>cc_flights := (cc_flights c)(key \<mapsto> f)\<rparr>" "cc_flights c key = None"
  | g where "r = Join g" "c' = c\<lparr>cc_waiters := Suc (cc_waiters c)\<rparr>" "cc_flights c key = Some g"
  using assms unfolding enter_locked_def
  by (auto split: option.splits dest: lookup_locked_touch)

lemma touch_corpus_fields [simp]:
  "cc_flights (touch_corpus key c) = cc_flights c" "cc_waiters (touch_corpus key c) = cc_waiters c"
  "cc_limit (touch_corpus key c) = cc_limit c"
  by (auto simp: touch_corpus_def lookup_locked_def split: option.splits)

lemma release_fields [simp]:
  "cc_flights (release_locked key r c) = (cc_flights c)(key := None)"
  "cc_waiters (release_locked key r c) = cc_waiters c"
  "cc_limit (release_locked key r c) = cc_limit c"
  by (auto simp: release_locked_def Let_def store_locked_def split: scan_result.splits)

text \<open>Channels: every flight in the table has exactly one leader, and a waiter's channel
  is closed or still owned by a caller that will close it.\<close>

definition channels_ok :: "('k, 'c, 'e) cache_state \<Rightarrow> bool" where
  "channels_ok s \<longleftrightarrow> flights_owned s \<and> owners_apart s \<and> owners_open s \<and> no_lost_wakeup s"

text \<open>Every step rewrites one caller; the rest of the list is its context.\<close>

lemma split_at: "i < length xs \<Longrightarrow> xs ! i = x \<Longrightarrow> \<exists>us vs. xs = us @ x # vs \<and> (\<forall>y. xs[i := y] = us @ y # vs)"
  by (metis id_take_nth_drop upd_conv_take_nth_drop)

lemma step_cases:
  assumes "cache_step outcome ends s t"
  obtains (enter) us key vs r c where "callers s = us @ Calling key # vs"
      "enter_locked key (fresh s) (cache s) = (r, c)"
      "t = s\<lparr>cache := c, fresh := Suc (fresh s), callers := us @ at_enter key (fresh s) r # vs\<rparr>"
  | (scan) us key f vs r where "callers s = us @ Leading key f # vs" "outcome key r"
      "t = s\<lparr>callers := us @ Releasing key f r # vs\<rparr>"
  | (release) us key f r vs where "callers s = us @ Releasing key f r # vs"
      "t = s\<lparr>cache := release_locked key r (cache s), callers := us @ Closing key f r # vs\<rparr>"
  | (close) us key f r vs where "callers s = us @ Closing key f r # vs"
      "t = s\<lparr>closed := insert f (closed s), callers := us @ Returned key r # vs\<rparr>"
  | (wake) us key f vs where "callers s = us @ Waiting key f # vs" "f \<in> closed s"
      "t = s\<lparr>callers := us @ Woken key # vs\<rparr>"
  | (cancel) us key f vs where "callers s = us @ Waiting key f # vs"
      "t = s\<lparr>callers := us @ Cancelled key # vs\<rparr>"
  | (again) us key vs where "callers s = us @ Woken key # vs"
      "t = s\<lparr>cache := leave_locked (cache s), callers := us @ Calling key # vs\<rparr>"
  | (give_up) us key vs where "callers s = us @ Cancelled key # vs"
      "t = s\<lparr>cache := leave_locked (cache s), callers := us @ Alone key # vs\<rparr>"
  | (alone) us key r vs where "callers s = us @ Alone key # vs" "outcome key r"
      "t = s\<lparr>callers := us @ Returned key r # vs\<rparr>"
  using assms by cases (metis split_at)+

lemma leave_fields [simp]:
  "cc_flights (leave_locked c) = cc_flights c" "cc_entries (leave_locked c) = cc_entries c"
  "cc_limit (leave_locked c) = cc_limit c" "cc_waiters (leave_locked c) = cc_waiters c - 1"
  by (simp_all add: leave_locked_def)

lemma leads_in_owner: "Some (key, f) \<in> leads ` set xs \<Longrightarrow> Some f \<in> owner ` set xs"
  by (force dest: leads_owner[OF sym])

lemma flights_owned_step:
  assumes "cache_step outcome ends s t" "channels_ok s"
  shows "flights_owned t"
  using assms(1)
proof (cases rule: step_cases)
  case (release us key f r vs)
  have owned: "cc_flights (cache s) k = Some g \<longleftrightarrow> Some (k, g) \<in> leads ` set (callers s)" for k g
    using assms(2) by (simp add: channels_ok_def flights_owned_def)
  have "g = f" if "Some (key, g) \<in> leads ` set (us @ vs)" for g
  proof -
    have "cc_flights (cache s) key = Some g" "cc_flights (cache s) key = Some f"
      using owned that release(1) by auto
    then show ?thesis by simp
  qed
  moreover have "Some f \<notin> owner ` set (us @ vs)"
    using assms(2) release unfolding channels_ok_def owners_apart_def by auto
  ultimately have "Some (key, g) \<notin> leads ` set (us @ vs)" for g
    using leads_in_owner by metis
  then show ?thesis
    using assms(2) release unfolding channels_ok_def flights_owned_def by auto
next
  case (enter us key vs r c)
  have owned: "cc_flights (cache s) k = Some g \<longleftrightarrow> Some (k, g) \<in> leads ` set (us @ vs)" for k g
    using assms(2) enter(1) by (simp add: channels_ok_def flights_owned_def image_Un)
  have unled: "\<forall>g. Some (key, g) \<notin> leads ` set (us @ vs)" if "cc_flights (cache s) key = None"
    using that owned[of key] by simp
  from enter(2) show ?thesis
    by (cases rule: enter_cases)
      (use enter(1,3) owned unled in \<open>auto simp: flights_owned_def at_enter_def simp del: image_iff\<close>)
qed (use assms(2) in \<open>auto simp: channels_ok_def flights_owned_def\<close>)

lemma owners_apart_step:
  assumes "cache_step outcome ends s t" "channels_ok s"
  shows "owners_apart t"
  using assms(1)
proof (cases rule: step_cases)
  case (enter us key vs r c)
  have "Some (fresh s) \<notin> owner ` set (us @ vs)"
    using assms(2) enter unfolding channels_ok_def owners_open_def by auto
  then show ?thesis
    using enter(1,3) assms(2)
    by (cases r) (auto simp: channels_ok_def owners_apart_def at_enter_def)
qed (use assms(2) in \<open>auto simp: channels_ok_def owners_apart_def\<close>)

lemma owners_open_step:
  assumes "cache_step outcome ends s t" "channels_ok s"
  shows "owners_open t"
  using assms(1)
proof (cases rule: step_cases)
  case (enter us key vs r c)
  then show ?thesis
    using assms(2)
    by (cases r) (auto simp: channels_ok_def owners_open_def at_enter_def less_Suc_eq)
next
  case (close us key f r vs)
  then show ?thesis
    using assms(2) by (auto simp: channels_ok_def owners_open_def owners_apart_def)
qed (use assms(2) in \<open>auto simp: channels_ok_def owners_open_def\<close>)

lemma no_lost_wakeup_step:
  assumes "cache_step outcome ends s t" "channels_ok s"
  shows "no_lost_wakeup t"
  using assms(1)
proof (cases rule: step_cases)
  case (enter us key vs r c)
  from enter(2) show ?thesis
  proof (cases rule: enter_cases)
    case (3 g)
    then have "Some (key, g) \<in> leads ` set (callers s)"
      using assms(2) by (auto simp: channels_ok_def flights_owned_def)
    then have "Some g \<in> owner ` set (callers s)" by (rule leads_in_owner)
    with 3 enter(1,3) assms(2) show ?thesis
      by (auto simp: channels_ok_def no_lost_wakeup_def at_enter_def)
  qed (use enter(1,3) assms(2) in \<open>auto simp: channels_ok_def no_lost_wakeup_def at_enter_def\<close>)
qed (use assms(2) in \<open>auto simp: channels_ok_def no_lost_wakeup_def\<close>)

lemma channels_ok_step: "cache_step outcome ends s t \<Longrightarrow> channels_ok s \<Longrightarrow> channels_ok t"
  by (simp add: channels_ok_def flights_owned_step owners_apart_step owners_open_step no_lost_wakeup_step)

lemma waiters_counted_step:
  assumes "cache_step outcome ends s t" "waiters_counted s"
  shows "waiters_counted t"
  using assms(1)
proof (cases rule: step_cases)
  case (enter us key vs r c)
  from enter(2) show ?thesis
    by (cases rule: enter_cases)
      (use enter(1,3) assms(2) in \<open>auto simp: waiters_counted_def at_enter_def\<close>)
qed (use assms(2) in \<open>auto simp: waiters_counted_def\<close>)

lemma sound_entries:
  "corpora.sound valid c \<longleftrightarrow>
     table_ok c \<and> (\<forall>key corpus. map_of (cc_entries c) key = Some corpus \<longrightarrow> valid key corpus)"
  by (simp add: corpora.sound_def find_corpus_def)

lemma sound_fields:
  assumes "corpora.sound valid c" "cc_entries d = cc_entries c" "cc_limit d = cc_limit c"
  shows "corpora.sound valid d"
  using assms by (simp add: sound_entries table_ok_def)

lemma release_sound:
  assumes "corpora.sound (\<lambda>key corpus. outcome key (ScanOk corpus)) c" "outcome key r"
  shows "corpora.sound (\<lambda>key corpus. outcome key (ScanOk corpus)) (release_locked key r c)"
proof -
  let ?c = "c\<lparr>cc_flights := (cc_flights c)(key := None)\<rparr>"
  have "corpora.sound (\<lambda>key corpus. outcome key (ScanOk corpus)) ?c"
    by (rule sound_fields[OF assms(1)]) simp_all
  with assms(2) show ?thesis
    by (cases r) (auto simp: release_locked_def Let_def intro: corpora.store_sound)
qed

lemma enter_sound:
  assumes "enter_locked key f c = (r, c')" "corpora.sound valid c"
  shows "corpora.sound valid c' \<and> (\<forall>corpus. r = Hit corpus \<longrightarrow> valid key corpus)"
  using assms(1)
proof (cases rule: enter_cases)
  case (1 corpus)
  then have "find_corpus key c = Some corpus"
    using corpora.sound_ok[OF assms(2)] by (auto dest: lookup_locked_Some)
  with 1 assms(2) show ?thesis by (auto intro: corpora.touch_sound dest: corpora.sound_find)
qed (use sound_fields[OF assms(2)] in auto)

lemma results_real_step:
  assumes "cache_step outcome ends s t" "results_real outcome s"
  shows "results_real outcome t"
  using assms(1)
proof (cases rule: step_cases)
  case (enter us key vs r c)
  from enter_sound[OF enter(2)] assms(2) have
    "corpora.sound (\<lambda>key corpus. outcome key (ScanOk corpus)) c"
    "\<forall>corpus. r = Hit corpus \<longrightarrow> outcome key (ScanOk corpus)"
    by (auto simp: results_real_def)
  with enter(1,3) assms(2) show ?thesis
    by (cases r) (auto simp: results_real_def at_enter_def)
next
  case (release us key f r vs)
  then have "outcome key r" using assms(2) by (auto simp: results_real_def)
  with release assms(2) show ?thesis by (auto simp: results_real_def intro: release_sound)
next
  case (again us key vs)
  with assms(2) show ?thesis by (auto simp: results_real_def intro: sound_fields)
next
  case (give_up us key vs)
  with assms(2) show ?thesis by (auto simp: results_real_def intro: sound_fields)
qed (use assms(2) in \<open>auto simp: results_real_def\<close>)

definition quiet :: "('k \<Rightarrow> ('c, 'e) scan_result \<Rightarrow> bool) \<Rightarrow> ('k, 'c) corpus_cache \<Rightarrow> bool" where
  "quiet outcome c \<longleftrightarrow>
     corpora.sound (\<lambda>key corpus. outcome key (ScanOk corpus)) c
     \<and> cc_flights c = Map.empty \<and> cc_waiters c = 0"

definition cache_inv ::
  "('k \<Rightarrow> ('c, 'e) scan_result \<Rightarrow> bool) \<Rightarrow> ('k, 'c, 'e) cache_state \<Rightarrow> bool" where
  "cache_inv outcome s \<longleftrightarrow> channels_ok s \<and> waiters_counted s \<and> results_real outcome s"

lemma cache_inv_step: "cache_step outcome ends s t \<Longrightarrow> cache_inv outcome s \<Longrightarrow> cache_inv outcome t"
  by (simp add: cache_inv_def channels_ok_step waiters_counted_step results_real_step)

lemma cache_inv_start: "quiet outcome c \<Longrightarrow> cache_inv outcome (start c keys)"
  by (induction keys)
    (auto simp: quiet_def cache_inv_def channels_ok_def cache_inv_defs start_def)

lemma cache_inv_runs:
  assumes "runs outcome ends (start c keys) s" "quiet outcome c"
  shows "cache_inv outcome s"
  using assms(1) unfolding runs_def
  by (induction rule: rtranclp_induct) (auto intro: cache_inv_start[OF assms(2)] cache_inv_step)

section \<open>The cache against scanning every time\<close>

text \<open>The specification: every caller runs its own scan, once, at some moment.\<close>

datatype ('k, 'c, 'e) request = Pending 'k | Finished 'k "('c, 'e) scan_result"

inductive uncached ::
  "('k \<Rightarrow> ('c, 'e) scan_result \<Rightarrow> bool) \<Rightarrow> ('k, 'c, 'e) request list \<Rightarrow> ('k, 'c, 'e) request list \<Rightarrow> bool"
  for outcome where
  "outcome key r \<Longrightarrow> uncached outcome (us @ Pending key # vs) (us @ Finished key r # vs)"

fun as_request :: "('k, 'c, 'e) caller \<Rightarrow> ('k, 'c, 'e) request" where
  "as_request (Calling key) = Pending key"
| "as_request (Leading key f) = Pending key"
| "as_request (Releasing key f r) = Finished key r"
| "as_request (Closing key f r) = Finished key r"
| "as_request (Waiting key f) = Pending key"
| "as_request (Woken key) = Pending key"
| "as_request (Cancelled key) = Pending key"
| "as_request (Alone key) = Pending key"
| "as_request (Returned key r) = Finished key r"

definition requests :: "('k, 'c, 'e) cache_state \<Rightarrow> ('k, 'c, 'e) request list" where
  "requests s = map as_request (callers s)"

lemma step_simulates:
  assumes "cache_step outcome ends s t" "cache_inv outcome s"
  shows "requests t = requests s \<or> uncached outcome (requests s) (requests t)"
  using assms(1)
proof (cases rule: step_cases)
  case (enter us key vs r c)
  have "\<forall>corpus. r = Hit corpus \<longrightarrow> outcome key (ScanOk corpus)"
    using enter_sound[OF enter(2)] assms(2) by (auto simp: cache_inv_def results_real_def)
  with enter(1,3) show ?thesis
    by (cases r) (auto simp: requests_def at_enter_def intro: uncached.intros)
qed (auto simp: requests_def intro: uncached.intros)

lemma runs_simulate:
  assumes "runs outcome ends (start c keys) s" "quiet outcome c"
  shows "(uncached outcome)\<^sup>*\<^sup>* (map Pending keys) (requests s)"
  using assms(1) unfolding runs_def
proof (induction rule: rtranclp_induct)
  case base
  show ?case by (simp add: requests_def start_def comp_def)
next
  case (step s t)
  then have "cache_inv outcome s"
    using assms(2) cache_inv_runs[of outcome ends c keys s] by (simp add: runs_def)
  with step.hyps(2) have "requests t = requests s \<or> uncached outcome (requests s) (requests t)"
    by (rule step_simulates)
  with step.IH show ?case by (metis rtranclp.rtrancl_into_rtrancl)
qed

section \<open>Every get returns\<close>

fun may_close :: "('k, 'c, 'e) caller \<Rightarrow> nat" where
  "may_close (Cancelled key) = 0"
| "may_close (Alone key) = 0"
| "may_close (Returned key r) = 0"
| "may_close p = 1"

fun work :: "nat set \<Rightarrow> ('k, 'c, 'e) caller \<Rightarrow> nat" where
  "work cl (Waiting key f) = (if f \<in> cl then 7 else 3)"
| "work cl (Woken key) = 6"
| "work cl (Calling key) = 5"
| "work cl (Leading key f) = 4"
| "work cl (Releasing key f r) = 3"
| "work cl (Closing key f r) = 2"
| "work cl (Cancelled key) = 2"
| "work cl (Alone key) = 1"
| "work cl (Returned key r) = 0"

definition remaining :: "('k, 'c, 'e) cache_state \<Rightarrow> nat" where
  "remaining s =
     8 * length (callers s) * sum_list (map may_close (callers s))
     + sum_list (map (work (closed s)) (callers s))"

lemma work_insert: "sum_list (map (work (insert f cl)) ps) \<le> sum_list (map (work cl) ps) + 4 * length ps"
proof (induction ps)
  case (Cons p ps)
  have "work (insert f cl) p \<le> work cl p + 4" by (cases p) auto
  with Cons show ?case by simp
qed simp

lemma remaining_step:
  assumes "cache_step outcome ends s t" "cache_inv outcome s"
  shows "remaining t < remaining s"
  using assms(1)
proof (cases rule: step_cases)
  case (enter us key vs r c)
  from enter(2) show ?thesis
  proof (cases rule: enter_cases)
    case (3 g)
    then have "Some (key, g) \<in> leads ` set (callers s)"
      using assms(2) by (auto simp: cache_inv_def channels_ok_def flights_owned_def)
    then have "g \<notin> closed s"
      using assms(2) leads_in_owner[of key g "callers s"]
      by (auto simp: cache_inv_def channels_ok_def owners_open_def)
    with 3 enter(1,3) show ?thesis by (simp add: remaining_def at_enter_def)
  qed (use enter(1,3) in \<open>auto simp: remaining_def at_enter_def algebra_simps\<close>)
next
  case (close us key f r vs)
  then show ?thesis
    using work_insert[of f "closed s" us] work_insert[of f "closed s" vs]
    by (simp add: remaining_def algebra_simps)
qed (auto simp: remaining_def algebra_simps)

lemma run_bound:
  assumes "(cache_step outcome ends ^^ n) (start c keys) s" "quiet outcome c"
  shows "n + remaining s \<le> 8 * length keys * length keys + 5 * length keys"
  using assms(1)
proof (induction n arbitrary: s)
  case 0
  have "sum_list (map may_close (map Calling keys :: ('a, 'b, 'c) caller list)) = length keys"
    and "sum_list (map (work {}) (map Calling keys :: ('a, 'b, 'c) caller list)) = 5 * length keys"
    by (induction keys) auto
  with 0 show ?case by (auto simp: remaining_def start_def)
next
  case (Suc n)
  then obtain s' where s': "(cache_step outcome ends ^^ n) (start c keys) s'" "cache_step outcome ends s' s"
    by auto
  have "cache_inv outcome s'"
    using cache_inv_runs[OF _ assms(2)] s'(1) unfolding runs_def by (metis relpowp_imp_rtranclp)
  with s'(2) have "remaining s < remaining s'" by (rule remaining_step)
  with Suc.IH[OF s'(1)] show ?case by simp
qed

definition answered :: "('k, 'c, 'e) caller \<Rightarrow> bool" where
  "answered p \<longleftrightarrow> (case p of Returned key r \<Rightarrow> True | _ \<Rightarrow> False)"

lemma owner_moves:
  assumes "j < length (callers s)" "owner (callers s ! j) = Some f" "\<forall>key. \<exists>r. outcome key r"
  shows "\<exists>t. cache_step outcome ends s t"
proof (cases "callers s ! j")
  case (Leading key g)
  with assms show ?thesis by (metis cache_step.scan)
next
  case (Releasing key g r)
  with assms show ?thesis by (metis cache_step.release)
next
  case (Closing key g r)
  with assms show ?thesis by (metis cache_step.close)
qed (use assms(2) in auto)

lemma caller_moves:
  assumes "i < length (callers s)" "\<forall>key. \<exists>r. outcome key r"
    and "\<not> answered (callers s ! i)" "\<forall>key f. callers s ! i \<noteq> Waiting key f"
  shows "\<exists>t. cache_step outcome ends s t"
proof (cases "owner (callers s ! i)")
  case (Some f)
  with assms show ?thesis using owner_moves by metis
next
  case None
  show ?thesis
  proof (cases "callers s ! i")
    case (Calling key)
    with assms(1) show ?thesis by (metis cache_step.enter surj_pair)
  next
    case (Woken key)
    with assms(1) show ?thesis by (metis cache_step.again)
  next
    case (Cancelled key)
    with assms(1) show ?thesis by (metis cache_step.give_up)
  next
    case (Alone key)
    with assms(1,2) show ?thesis by (metis cache_step.alone)
  qed (use None assms(3,4) in \<open>auto simp: answered_def\<close>)
qed

lemma progress:
  assumes "cache_inv outcome s" "\<forall>key. \<exists>r. outcome key r" "\<nexists>t. cache_step outcome ends s t"
    and i: "i < length (callers s)"
  shows "answered (callers s ! i)"
proof (cases "callers s ! i")
  case (Waiting key f)
  with i have "Waiting key f \<in> set (callers s)" by (metis nth_mem)
  with assms(1) consider "f \<in> closed s" | "Some f \<in> set (map owner (callers s))"
    unfolding cache_inv_def channels_ok_def no_lost_wakeup_def by blast
  then show ?thesis
  proof cases
    case 1
    with assms(3) Waiting i show ?thesis by (metis cache_step.wake)
  next
    case 2
    then obtain j where "j < length (callers s)" "owner (callers s ! j) = Some f"
      by (auto simp: in_set_conv_nth)
    with assms(2,3) show ?thesis using owner_moves by metis
  qed
qed (use caller_moves[OF i assms(2)] assms(3) in fastforce)+

section \<open>Running a schedule\<close>

text \<open>One step of caller \<open>i\<close>, its scan returning \<open>pick key\<close>: the executable side of the
  relation, for a schedule given as a list of caller indices.\<close>

definition advance ::
  "('k \<Rightarrow> ('c, 'e) scan_result) \<Rightarrow> nat \<Rightarrow> ('k, 'c, 'e) cache_state \<Rightarrow> ('k, 'c, 'e) cache_state" where
  "advance pick i s =
     (if length (callers s) \<le> i then s
      else
        (case callers s ! i of
           Calling key \<Rightarrow>
             (case enter_locked key (fresh s) (cache s) of (r, c) \<Rightarrow>
                s\<lparr>cache := c, fresh := Suc (fresh s), callers := (callers s)[i := at_enter key (fresh s) r]\<rparr>)
         | Leading key f \<Rightarrow> s\<lparr>callers := (callers s)[i := Releasing key f (pick key)]\<rparr>
         | Releasing key f r \<Rightarrow>
             s\<lparr>cache := release_locked key r (cache s), callers := (callers s)[i := Closing key f r]\<rparr>
         | Closing key f r \<Rightarrow>
             s\<lparr>closed := insert f (closed s), callers := (callers s)[i := Returned key r]\<rparr>
         | Waiting key f \<Rightarrow> if f \<in> closed s then s\<lparr>callers := (callers s)[i := Woken key]\<rparr> else s
         | Woken key \<Rightarrow> s\<lparr>cache := leave_locked (cache s), callers := (callers s)[i := Calling key]\<rparr>
         | Cancelled key \<Rightarrow> s\<lparr>cache := leave_locked (cache s), callers := (callers s)[i := Alone key]\<rparr>
         | Alone key \<Rightarrow> s\<lparr>callers := (callers s)[i := Returned key (pick key)]\<rparr>
         | Returned key r \<Rightarrow> s))"

definition scheduled ::
  "('k \<Rightarrow> ('c, 'e) scan_result) \<Rightarrow> nat list \<Rightarrow> ('k, 'c, 'e) cache_state \<Rightarrow> ('k, 'c, 'e) cache_state" where
  "scheduled pick is s = fold (advance pick) is s"

lemma advance_step:
  assumes "\<forall>key. outcome key (pick key)"
  shows "advance pick i s = s \<or> cache_step outcome ends s (advance pick i s)"
proof (cases "i < length (callers s)")
  case True
  with assms show ?thesis
    by (cases "callers s ! i")
      (auto simp: advance_def split: prod.splits intro: cache_step.intros)
qed (simp add: advance_def)

lemma scheduled_runs: "\<forall>key. outcome key (pick key) \<Longrightarrow> runs outcome ends s (scheduled pick is s)"
proof (induction "is" arbitrary: s)
  case Nil
  show ?case by (simp add: runs_def scheduled_def)
next
  case (Cons i "is")
  have "runs outcome ends s (advance pick i s)"
    using advance_step[of outcome pick i s ends] Cons.prems by (auto simp: runs_def)
  moreover have "runs outcome ends (advance pick i s) (scheduled pick is (advance pick i s))"
    using Cons.prems by (rule Cons.IH)
  ultimately show ?case by (simp add: runs_def scheduled_def)
qed

lemma quiet_new: "quiet outcome (new_corpus_cache limit)"
  by (simp add: quiet_def new_corpus_cache_def sound_entries table_ok_def)

definition sample_scan :: "nat \<Rightarrow> (nat, unit) scan_result" where
  "sample_scan key = (if key = 0 then ScanErr () else ScanOk (key + 10))"

definition sample_run :: "nat list \<Rightarrow> nat list \<Rightarrow> (nat, nat, unit) cache_state" where
  "sample_run keys is = scheduled sample_scan is (start (new_corpus_cache corpusCacheLimit) keys)"

lemma sample_runs: "runs (\<lambda>key r. r = sample_scan key) {} (start (new_corpus_cache corpusCacheLimit) keys)
    (sample_run keys is)"
  unfolding sample_run_def by (rule scheduled_runs) simp

section \<open>What a caller sees\<close>

text \<open>C14. The cache refines scanning on every call: in any interleaving of any number of
  gets, started on a cache that holds only corpora their scans can return, the calls
  and their results are those of callers that each ran a scan of their own; what the
  cache holds at any time is such a corpus, under distinct keys, at most the limit.\<close>

theorem cache_refines_scans:
  assumes "quiet outcome c" "runs outcome ends (start c keys) s"
  shows "(uncached outcome)\<^sup>*\<^sup>* (map Pending keys) (requests s)
       \<and> (\<forall>(key, corpus) \<in> set (cc_entries (cache s)). outcome key (ScanOk corpus))
       \<and> distinct (map fst (cc_entries (cache s)))
       \<and> length (cc_entries (cache s)) \<le> max 1 (cc_limit (cache s))"
proof -
  have "corpora.sound (\<lambda>key corpus. outcome key (ScanOk corpus)) (cache s)"
    using cache_inv_runs[OF assms(2,1)] by (simp add: cache_inv_def results_real_def)
  then have "table_ok (cache s)"
    and "\<And>key corpus. map_of (cc_entries (cache s)) key = Some corpus \<Longrightarrow> outcome key (ScanOk corpus)"
    by (auto simp: sound_entries)
  then show ?thesis
    using runs_simulate[OF assms(2,1)] by (auto simp: table_ok_def)
qed

theorem cache_refines_scans_witness:
  "callers (sample_run [1, 1, 2] [0, 1, 2, 0, 0, 0, 1, 1, 1]) =
     [Returned 1 (ScanOk 11), Returned 1 (ScanOk 11), Leading 2 2]
   \<and> (uncached (\<lambda>key r. r = sample_scan key))\<^sup>*\<^sup>* (map Pending [1, 1, 2])
       (requests (sample_run [1, 1, 2] [0, 1, 2, 0, 0, 0, 1, 1, 1]))"
proof
  show "callers (sample_run [1, 1, 2] [0, 1, 2, 0, 0, 0, 1, 1, 1]) =
     [Returned 1 (ScanOk 11), Returned 1 (ScanOk 11), Leading 2 2]"
    by code_simp
  show "(uncached (\<lambda>key r. r = sample_scan key))\<^sup>*\<^sup>* (map Pending [1, 1, 2])
       (requests (sample_run [1, 1, 2] [0, 1, 2, 0, 0, 0, 1, 1, 1]))"
    using cache_refines_scans[OF quiet_new sample_runs] by blast
qed

text \<open>C16. Every get returns: a run of any number of concurrent gets has a bounded length
  however it is scheduled and whatever the scans return, and when no caller can move
  any more every one of them has its result, so no wake-up is ever lost.\<close>

theorem gets_return:
  assumes "quiet outcome c" "(cache_step outcome ends ^^ n) (start c keys) s"
    and "\<forall>key. \<exists>r. outcome key r"
  shows "n \<le> 8 * length keys * length keys + 5 * length keys
       \<and> ((\<nexists>t. cache_step outcome ends s t) \<longrightarrow> (\<forall>p \<in> set (callers s). answered p))"
proof -
  have "cache_inv outcome s"
    using cache_inv_runs[OF _ assms(1)] assms(2) unfolding runs_def by (metis relpowp_imp_rtranclp)
  then have "(\<nexists>t. cache_step outcome ends s t) \<longrightarrow> (\<forall>p \<in> set (callers s). answered p)"
    using progress[OF _ assms(3)] by (metis in_set_conv_nth)
  with run_bound[OF assms(2,1)] show ?thesis by simp
qed

theorem gets_return_witness:
  "(\<exists>n \<le> 8 * length [1 :: nat, 0] * length [1 :: nat, 0] + 5 * length [1 :: nat, 0].
      (cache_step (\<lambda>key r. r = sample_scan key) {} ^^ n) (start (new_corpus_cache corpusCacheLimit) [1, 0])
        (sample_run [1, 0] [0, 1, 1, 0, 0, 1, 0, 1]))
   \<and> list_all answered (callers (sample_run [1, 0] [0, 1, 1, 0, 0, 1, 0, 1]))"
proof
  obtain n where n: "(cache_step (\<lambda>key r. r = sample_scan key) {} ^^ n)
      (start (new_corpus_cache corpusCacheLimit) [1, 0]) (sample_run [1, 0] [0, 1, 1, 0, 0, 1, 0, 1])"
    using sample_runs unfolding runs_def by (metis rtranclp_imp_relpowp)
  then show "\<exists>n \<le> 8 * length [1 :: nat, 0] * length [1 :: nat, 0] + 5 * length [1 :: nat, 0].
      (cache_step (\<lambda>key r. r = sample_scan key) {} ^^ n) (start (new_corpus_cache corpusCacheLimit) [1, 0])
        (sample_run [1, 0] [0, 1, 1, 0, 0, 1, 0, 1])"
    using gets_return[OF quiet_new n] by blast
  show "list_all answered (callers (sample_run [1, 0] [0, 1, 1, 0, 0, 1, 0, 1]))" by code_simp
qed

text \<open>One scan at a time: at most one caller is running the shared scan of a key, the
  table of flights names exactly those scans, and the waiter count is the number of
  callers that hold a flight.\<close>

theorem single_flight:
  assumes "quiet outcome c" "runs outcome ends (start c keys) s"
  shows "(\<forall>key f. cc_flights (cache s) key = Some f \<longleftrightarrow> Some (key, f) \<in> set (map leads (callers s)))
       \<and> (\<forall>us p vs q ws key f g. callers s = us @ p # vs @ q # ws \<longrightarrow>
            leads p = Some (key, f) \<longrightarrow> leads q \<noteq> Some (key, g))
       \<and> cc_waiters (cache s) = length (filter holds_flight (callers s))"
proof -
  have inv: "cache_inv outcome s" by (rule cache_inv_runs[OF assms(2,1)])
  have "leads q \<noteq> Some (key, g)" if s: "callers s = us @ p # vs @ q # ws" and p: "leads p = Some (key, f)"
    for us p vs q ws key f g
  proof
    assume q: "leads q = Some (key, g)"
    have flights: "cc_flights (cache s) key = Some h \<longleftrightarrow> Some (key, h) \<in> leads ` set (callers s)" for h
      using inv by (simp add: cache_inv_def channels_ok_def flights_owned_def)
    have "Some (key, f) \<in> leads ` set (callers s)" "Some (key, g) \<in> leads ` set (callers s)"
      using s p q by (auto simp: image_iff)
    then have "f = g" using flights by (metis option.inject)
    then show False
      using inv s leads_owner[OF p] leads_owner[OF q]
      by (simp add: cache_inv_def channels_ok_def owners_apart_def)
  qed
  with inv show ?thesis
    by (auto simp: cache_inv_def channels_ok_def flights_owned_def waiters_counted_def)
qed

theorem single_flight_witness:
  "callers (sample_run [1, 1] [0, 1]) = [Leading 1 0, Waiting 1 0]
   \<and> cc_waiters (cache (sample_run [1, 1] [0, 1])) =
       length (filter holds_flight (callers (sample_run [1, 1] [0, 1])))"
proof
  show "callers (sample_run [1, 1] [0, 1]) = [Leading 1 0, Waiting 1 0]" by code_simp
  show "cc_waiters (cache (sample_run [1, 1] [0, 1])) =
       length (filter holds_flight (callers (sample_run [1, 1] [0, 1])))"
    using single_flight[OF quiet_new sample_runs] by blast
qed

end
