(* ===== verification/Corpus.thy ===== *)
theory Corpus
  imports Docs Kinds Findings CorpusCache
begin

text \<open>
  The successor corpus of the default branch (internal/specstate/resolve.go,
  storysupersession.go): which tree paths are listed, how every spec and every
  conflict record at one revision is read and decoded, and the queries the
  lifecycle projection asks of the result.

  Git is a port of the package (\<^verbatim>\<open>gitReader\<close>), so it is the record \<open>git\<close> of the calls
  the package makes, each a result or an error text. The YAML layer and the texts
  of decode errors are the record \<open>decoders\<close>; the frontmatter split and the validators
  are the ones of the artifact theories.
\<close>

section \<open>The ports\<close>

record git =
  g_show :: "string \<Rightarrow> string \<Rightarrow> string \<Rightarrow> string + string"
  g_blob :: "string \<Rightarrow> string \<Rightarrow> string \<Rightarrow> string + string option"
  g_landing :: "string \<Rightarrow> string \<Rightarrow> string \<Rightarrow> string \<Rightarrow> string + string option"
  g_ls_tree :: "string \<Rightarrow> string \<Rightarrow> string \<Rightarrow> string + string list"
  g_entries :: "string \<Rightarrow> string \<Rightarrow> string + string list"
  g_prefix :: "string \<Rightarrow> string + string"
  g_rev_parse :: "string \<Rightarrow> string \<Rightarrow> string + string"

datatype decode_failure =
    SplitFailed split_error
  | SpecFailed "string + spec_error"
  | ConflictFailed "string + conflict_error"

record decoders =
  dk_spec :: "string \<Rightarrow> string + spec"
  dk_conflict :: "string \<Rightarrow> string + conflict"
  dk_text :: "decode_failure \<Rightarrow> string"

definition decode_spec_document :: "decoders \<Rightarrow> string \<Rightarrow> decode_failure + spec" where
  "decode_spec_document d content =
     (case split_frontmatter content of
        Inl e \<Rightarrow> Inl (SplitFailed e)
      | Inr (fm, body) \<Rightarrow>
          (case decode_spec (dk_spec d) fm of Inl e \<Rightarrow> Inl (SpecFailed e) | Inr sp \<Rightarrow> Inr sp))"

definition decode_conflict_document :: "decoders \<Rightarrow> string \<Rightarrow> decode_failure + conflict" where
  "decode_conflict_document d content =
     (case split_frontmatter content of
        Inl e \<Rightarrow> Inl (SplitFailed e)
      | Inr (fm, body) \<Rightarrow>
          (case decode_validated (dk_conflict d) conflict_validate fm of
             Inl e \<Rightarrow> Inl (ConflictFailed e) | Inr c \<Rightarrow> Inr c))"

section \<open>Listed paths\<close>

definition specZonesPrefix :: string where
  "specZonesPrefix = ''.verdi/specs''"

definition conflictsDir :: string where
  "conflictsDir = ''.verdi/conflicts''"

definition path_base :: "string \<Rightarrow> string" where
  "path_base p =
     (if p = '''' then ''.''
      else
        (let t = rev (dropWhile (\<lambda>c. c = CHR ''/'') (rev p)) in
         if t = '''' then ''/'' else last (split_on CHR ''/'' t)))"

definition is_conflict_file :: "string \<Rightarrow> bool" where
  "is_conflict_file p \<longleftrightarrow>
     has_prefix p ''.verdi/'' \<and> classify_path (trim_prefix p ''.verdi/'') = Some ''conflict''"

definition is_conflict_record_path :: "string \<Rightarrow> bool" where
  "is_conflict_record_path p \<longleftrightarrow>
     (let base = path_base p in
      has_suffix base ''.md'' \<and> trim_suffix base ''.md'' \<noteq> ''''
      \<and> p = conflictsDir @ ''/'' @ trim_suffix base ''.md'' @ ''.md'')"

definition quote_char :: char where "quote_char = CHR 0x22"

definition is_git_quoted :: "string \<Rightarrow> bool" where
  "is_git_quoted p \<longleftrightarrow> has_prefix p [quote_char]"

definition full_oid :: "string \<Rightarrow> bool" where
  "full_oid v \<longleftrightarrow>
     (length v = 40 \<or> length v = 64) \<and> list_all (\<lambda>c. byte_in 48 57 c \<or> byte_in 97 102 c) v"

definition under :: "string \<Rightarrow> string \<Rightarrow> bool" where
  "under p dir \<longleftrightarrow> p = dir \<or> has_prefix p (dir @ ''/'')"

text \<open>\<^verbatim>\<open>strings.EqualFold\<close> against an ASCII string: outside ASCII only U+017F and U+212A
  fold to ASCII letters.\<close>

definition lower_byte :: "char \<Rightarrow> char" where
  "lower_byte c = (if byte_in 65 90 c then char_of (of_char c + 32 :: nat) else c)"

fun equal_fold :: "string \<Rightarrow> string \<Rightarrow> bool" where
  "equal_fold p [] = (p = [])"
| "equal_fold p (d # ds) =
     (case p of
        [] \<Rightarrow> False
      | c # cs \<Rightarrow>
          if has_prefix p [CHR 0xC5, CHR 0xBF] then lower_byte d = CHR ''s'' \<and> equal_fold (drop 2 p) ds
          else if has_prefix p [CHR 0xE2, CHR 0x84, CHR 0xAA]
          then lower_byte d = CHR ''k'' \<and> equal_fold (drop 3 p) ds
          else lower_byte c = lower_byte d \<and> equal_fold cs ds)"

definition under_folded :: "string \<Rightarrow> string \<Rightarrow> bool" where
  "under_folded p dir \<longleftrightarrow>
     equal_fold p dir
     \<or> (length p > length dir \<and> p ! length dir = CHR ''/'' \<and> equal_fold (take (length dir) p) dir)"

definition plain_listing_quotes :: "string \<Rightarrow> bool" where
  "plain_listing_quotes p \<longleftrightarrow>
     list_ex (\<lambda>c. of_char c < (0x20 :: nat) \<or> of_char c = (0x7F :: nat) \<or> c = quote_char
        \<or> c = CHR 0x5C \<or> (0x80 :: nat) \<le> of_char c) p"

definition plainly_listed :: "string \<Rightarrow> bool" where
  "plainly_listed p \<longleftrightarrow> \<not> plain_listing_quotes p \<and> p = trim_space p"

fun tree_scan :: "string list \<Rightarrow> string list \<Rightarrow> string list \<Rightarrow> (string list \<times> string list) option" where
  "tree_scan specs conflicts [] = Some (specs, conflicts)"
| "tree_scan specs conflicts (p # ps) =
     (if under p specZonesPrefix then
        (if plainly_listed p then tree_scan (specs @ [p]) conflicts ps else None)
      else if under p conflictsDir then
        (if plainly_listed p then tree_scan specs (conflicts @ [p]) ps else None)
      else if under_folded p specZonesPrefix \<or> under_folded p conflictsDir then None
      else tree_scan specs conflicts ps)"

definition store_tree_paths :: "git \<Rightarrow> string \<Rightarrow> string \<Rightarrow> (string list \<times> string list) option" where
  "store_tree_paths g root rv =
     (if \<not> full_oid rv then None
      else if g_prefix g root \<noteq> Inr '''' then None
      else (case g_entries g root rv of Inl e \<Rightarrow> None | Inr ps \<Rightarrow> tree_scan [] [] ps))"

text \<open>\<^verbatim>\<open>strconv.Unquote\<close> on a double-quoted literal.\<close>

definition unhex :: "char \<Rightarrow> nat option" where
  "unhex c =
     (if byte_in 48 57 c then Some (of_char c - 48)
      else if byte_in 97 102 c then Some (of_char c - 87)
      else if byte_in 65 70 c then Some (of_char c - 55)
      else None)"

fun digits_value :: "(char \<Rightarrow> nat option) \<Rightarrow> nat \<Rightarrow> nat \<Rightarrow> string \<Rightarrow> nat option" where
  "digits_value dig base acc [] = Some acc"
| "digits_value dig base acc (c # cs) =
     (case dig c of None \<Rightarrow> None | Some v \<Rightarrow> digits_value dig base (acc * base + v) cs)"

definition octal_digit :: "char \<Rightarrow> nat option" where
  "octal_digit c = (if byte_in 48 55 c then Some (of_char c - 48) else None)"

definition encode_rune :: "nat \<Rightarrow> string" where
  "encode_rune v =
     map char_of
       (if v < 0x80 then [v]
        else if v < 0x800 then [0xC0 + v div 64, 0x80 + v mod 64]
        else if v < 0x10000 then [0xE0 + v div 4096, 0x80 + v div 64 mod 64, 0x80 + v mod 64]
        else [0xF0 + v div 262144, 0x80 + v div 4096 mod 64, 0x80 + v div 64 mod 64, 0x80 + v mod 64])"

definition valid_rune :: "nat \<Rightarrow> bool" where
  "valid_rune v \<longleftrightarrow> v < 0xD800 \<or> (0xE000 \<le> v \<and> v \<le> 0x10FFFF)"

definition simple_escapes :: "(char \<times> char) list" where
  "simple_escapes =
     [(CHR ''a'', CHR 0x07), (CHR ''b'', CHR 0x08), (CHR ''f'', CHR 0x0C), (CHR ''n'', CHR 0x0A),
      (CHR ''r'', CHR 0x0D), (CHR ''t'', CHR 0x09), (CHR ''v'', CHR 0x0B), (CHR 0x5C, CHR 0x5C),
      (quote_char, quote_char)]"

definition unquote_hex :: "nat \<Rightarrow> bool \<Rightarrow> string \<Rightarrow> (string \<times> string) option" where
  "unquote_hex n rune s =
     (if length s < n then None
      else
        (case digits_value unhex 16 0 (take n s) of
           None \<Rightarrow> None
         | Some v \<Rightarrow>
             if \<not> rune then Some ([char_of v], drop n s)
             else if valid_rune v then Some (encode_rune v, drop n s)
             else None))"

definition unquote_escape :: "string \<Rightarrow> (string \<times> string) option" where
  "unquote_escape s =
     (case s of
        [] \<Rightarrow> None
      | c # r \<Rightarrow>
          (case map_of simple_escapes c of
             Some b \<Rightarrow> Some ([b], r)
           | None \<Rightarrow>
               if c = CHR ''x'' then unquote_hex 2 False r
               else if c = CHR ''u'' then unquote_hex 4 True r
               else if c = CHR ''U'' then unquote_hex 8 True r
               else if octal_digit c \<noteq> None then
                 (if length r < 2 then None
                  else
                    (case digits_value octal_digit 8 0 (take 3 s) of
                       None \<Rightarrow> None
                     | Some v \<Rightarrow> if 255 < v then None else Some ([char_of v], drop 2 r)))
               else None))"

definition unquote_char :: "string \<Rightarrow> (string \<times> string) option" where
  "unquote_char s =
     (case s of
        [] \<Rightarrow> None
      | c # r \<Rightarrow>
          if c = quote_char \<or> c = CHR 0x0A then None
          else if (0x80 :: nat) \<le> of_char c then
            (let n = rune_width s in
             Some (if n = 1 then [CHR 0xEF, CHR 0xBF, CHR 0xBD] else take n s, drop n s))
          else if c \<noteq> CHR 0x5C then Some ([c], r)
          else unquote_escape r)"

lemma unquote_hex_shorter: "unquote_hex n rune s = Some (b, t) \<Longrightarrow> length t \<le> length s"
  by (auto simp: unquote_hex_def split: if_splits option.splits)

lemma unquote_escape_shorter: "unquote_escape s = Some (b, t) \<Longrightarrow> length t < length s"
  by (cases s) (auto simp: unquote_escape_def split: if_splits option.splits dest: unquote_hex_shorter)

lemma unquote_char_shorter: "unquote_char s = Some (b, t) \<Longrightarrow> length t < length s"
  using rune_width_pos[of s]
  by (cases s) (auto simp: unquote_char_def Let_def split: if_splits dest: unquote_escape_shorter)

function unquote_body :: "string \<Rightarrow> string option" where
  "unquote_body s =
     (if s = [quote_char] then Some ''''
      else
        (case unquote_char s of
           None \<Rightarrow> None
         | Some (b, t) \<Rightarrow> map_option ((@) b) (unquote_body t)))"
  by auto

termination
  by (relation "measure length") (auto dest: unquote_char_shorter)

declare unquote_body.simps [simp del]

definition unquote :: "string \<Rightarrow> string option" where
  "unquote s = (if is_git_quoted s then unquote_body (tl s) else None)"

definition is_quoted_conflict_file :: "string \<Rightarrow> bool" where
  "is_quoted_conflict_file listed =
     (case unquote listed of None \<Rightarrow> True | Some p \<Rightarrow> is_conflict_file p)"

section \<open>Scanning the specs\<close>

definition is_rung3_story :: "spec \<Rightarrow> bool" where
  "is_rung3_story sp \<longleftrightarrow> s_class sp = ClassStory \<and> \<not> s_spike sp"

text \<open>A map from names to lists of paths is the list of its (name, path) additions; the
  two maps from paths to messages keep one message per path.\<close>

record corpus =
  cp_supersedes :: "(string \<times> string) list"
  cp_link_only :: "(string \<times> string) list"
  cp_failures :: "(string \<times> string) list"
  cp_stories :: "string list"
  cp_resolved :: "(string \<times> string) list"
  cp_conflict_failures :: "(string \<times> string) list"

definition empty_corpus :: corpus where
  "empty_corpus = \<lparr>cp_supersedes = [], cp_link_only = [], cp_failures = [], cp_stories = [],
     cp_resolved = [], cp_conflict_failures = []\<rparr>"

definition upsert :: "'k \<Rightarrow> 'v \<Rightarrow> ('k \<times> 'v) list \<Rightarrow> ('k \<times> 'v) list" where
  "upsert k v xs = filter (\<lambda>e. fst e \<noteq> k) xs @ [(k, v)]"

definition paths_of :: "(string \<times> string) list \<Rightarrow> string \<Rightarrow> string list" where
  "paths_of xs name = map snd (filter (\<lambda>e. fst e = name) xs)"

datatype scan_error =
    ListSpecsFailed string
  | ReadSpecFailed string string
  | ListConflictsFailed string
  | ReadConflictFailed string string

definition spec_failure_text :: "decoders \<Rightarrow> string \<Rightarrow> decode_failure \<Rightarrow> string" where
  "spec_failure_text d path e =
     ''default-branch spec '' @ path @ '' failed to decode: '' @ dk_text d e"

definition scan_spec :: "decoders \<Rightarrow> string \<Rightarrow> string \<Rightarrow> corpus \<Rightarrow> corpus" where
  "scan_spec d path content c =
     (case decode_spec_document d content of
        Inl e \<Rightarrow> c\<lparr>cp_failures := upsert path (spec_failure_text d path e) (cp_failures c)\<rparr>
      | Inr sp \<Rightarrow>
          (let c1 = (if is_rung3_story sp then c\<lparr>cp_stories := cp_stories c @ [path]\<rparr> else c);
               named = map (\<lambda>r. (r_name r, path)) (whole_spec_supersedes_refs (b_links (s_base sp)))
           in if s_supersession sp \<noteq> None
              then c1\<lparr>cp_supersedes := cp_supersedes c1 @ named\<rparr>
              else c1\<lparr>cp_link_only := cp_link_only c1 @ named\<rparr>))"

fun scan_specs :: "git \<Rightarrow> decoders \<Rightarrow> string \<Rightarrow> string \<Rightarrow> string list \<Rightarrow> corpus \<Rightarrow> scan_error + corpus" where
  "scan_specs g d root rv [] c = Inr c"
| "scan_specs g d root rv (p # ps) c =
     (if \<not> has_suffix p ''/spec.md'' then scan_specs g d root rv ps c
      else
        (case g_show g root rv p of
           Inl e \<Rightarrow> Inl (ReadSpecFailed p e)
         | Inr content \<Rightarrow> scan_specs g d root rv ps (scan_spec d p content c)))"

section \<open>Scanning the conflicts\<close>

definition em_dash :: string where "em_dash = [CHR 0xE2, CHR 0x80, CHR 0x94]"

definition quoted_entry_text :: "string \<Rightarrow> string" where
  "quoted_entry_text cp =
     ''default-branch conflicts entry '' @ cp
     @ '' is listed git-quoted, so the scan cannot read it by its real name '' @ em_dash
     @ '' never read, never credited''"

definition misplaced_text :: "string \<Rightarrow> string" where
  "misplaced_text cp =
     ''default-branch conflict file '' @ cp @ '' is not at a conflict record path ('' @ conflictsDir
     @ ''/<name>.md) '' @ em_dash @ '' never read, never credited''"

definition conflict_failure_text :: "decoders \<Rightarrow> string \<Rightarrow> decode_failure \<Rightarrow> string" where
  "conflict_failure_text d cp e =
     ''default-branch conflict '' @ cp @ '' failed to decode: '' @ dk_text d e"

fun whole_spec_challenge_names :: "string list \<Rightarrow> link list \<Rightarrow> string list" where
  "whole_spec_challenge_names seen [] = []"
| "whole_spec_challenge_names seen (l # ls) =
     (if l_type l \<noteq> LinkChallenges then whole_spec_challenge_names seen ls
      else
        (case parse_ref (l_ref l) of
           Inl e \<Rightarrow> whole_spec_challenge_names seen ls
         | Inr r \<Rightarrow>
             if r_kind r \<noteq> KindSpec \<or> ref_fragment r \<or> r_name r \<in> set seen
             then whole_spec_challenge_names seen ls
             else r_name r # whole_spec_challenge_names (r_name r # seen) ls))"

definition conflict_failed :: "string \<Rightarrow> string \<Rightarrow> corpus \<Rightarrow> corpus" where
  "conflict_failed cp msg c = c\<lparr>cp_conflict_failures := upsert cp msg (cp_conflict_failures c)\<rparr>"

definition scan_conflict :: "decoders \<Rightarrow> string \<Rightarrow> string \<Rightarrow> corpus \<Rightarrow> corpus" where
  "scan_conflict d cp content c =
     (case decode_conflict_document d content of
        Inl e \<Rightarrow> conflict_failed cp (conflict_failure_text d cp e) c
      | Inr fm \<Rightarrow>
          if c_status fm \<noteq> ''superseded'' then c
          else c\<lparr>cp_resolved := cp_resolved c
                  @ map (\<lambda>n. (n, cp)) (whole_spec_challenge_names [] (b_links (c_base fm)))\<rparr>)"

fun scan_conflicts ::
  "git \<Rightarrow> decoders \<Rightarrow> string \<Rightarrow> string \<Rightarrow> string list \<Rightarrow> corpus \<Rightarrow> scan_error + corpus" where
  "scan_conflicts g d root rv [] c = Inr c"
| "scan_conflicts g d root rv (cp # cps) c =
     (if is_git_quoted cp then
        scan_conflicts g d root rv cps
          (if is_quoted_conflict_file cp then conflict_failed cp (quoted_entry_text cp) c else c)
      else if \<not> is_conflict_file cp then scan_conflicts g d root rv cps c
      else if \<not> is_conflict_record_path cp then
        scan_conflicts g d root rv cps (conflict_failed cp (misplaced_text cp) c)
      else
        (case g_show g root rv cp of
           Inl e \<Rightarrow> Inl (ReadConflictFailed cp e)
         | Inr content \<Rightarrow> scan_conflicts g d root rv cps (scan_conflict d cp content c)))"

definition scan_successors ::
  "git \<Rightarrow> decoders \<Rightarrow> string \<Rightarrow> string \<Rightarrow> bool \<Rightarrow> scan_error + corpus" where
  "scan_successors g d root rv pinned =
     (let listed = (if pinned then store_tree_paths g root rv else None) in
      case (case listed of
              Some (specs, conflicts) \<Rightarrow> Inr specs
            | None \<Rightarrow> g_ls_tree g root rv specZonesPrefix) of
        Inl e \<Rightarrow> Inl (ListSpecsFailed e)
      | Inr paths \<Rightarrow>
          (case scan_specs g d root rv (sort paths) empty_corpus of
             Inl e \<Rightarrow> Inl e
           | Inr c \<Rightarrow>
               (case (case listed of
                        Some (specs, conflicts) \<Rightarrow> Inr conflicts
                      | None \<Rightarrow> g_ls_tree g root rv conflictsDir) of
                  Inl e \<Rightarrow> Inl (ListConflictsFailed e)
                | Inr conflict_paths \<Rightarrow> scan_conflicts g d root rv (sort conflict_paths) c)))"

section \<open>Queries\<close>

definition supersessors_for :: "corpus \<Rightarrow> string \<Rightarrow> string \<Rightarrow> string list" where
  "supersessors_for c path name =
     filter (\<lambda>p. p \<noteq> path) (sort (paths_of (cp_supersedes c) name))"

definition link_only_supersessors_for :: "corpus \<Rightarrow> string \<Rightarrow> string \<Rightarrow> string list" where
  "link_only_supersessors_for c path name =
     filter (\<lambda>p. p \<noteq> path) (sort (paths_of (cp_link_only c) name))"

definition failures_excluding :: "corpus \<Rightarrow> string \<Rightarrow> string list" where
  "failures_excluding c path = sort (map snd (filter (\<lambda>e. fst e \<noteq> path) (cp_failures c)))"

definition conflict_failure_messages :: "corpus \<Rightarrow> string list" where
  "conflict_failure_messages c = sort (map snd (cp_conflict_failures c))"

section \<open>What a scan records\<close>

definition spec_leaf :: "string \<Rightarrow> bool" where
  "spec_leaf p = has_suffix p ''/spec.md''"

definition spec_at :: "git \<Rightarrow> decoders \<Rightarrow> string \<Rightarrow> string \<Rightarrow> string \<Rightarrow> spec \<Rightarrow> bool" where
  "spec_at g d root rv p sp \<longleftrightarrow>
     spec_leaf p
     \<and> (\<exists>content. g_show g root rv p = Inr content \<and> decode_spec_document d content = Inr sp)"

definition spec_undecoded :: "git \<Rightarrow> decoders \<Rightarrow> string \<Rightarrow> string \<Rightarrow> string \<Rightarrow> bool" where
  "spec_undecoded g d root rv p \<longleftrightarrow>
     spec_leaf p
     \<and> (\<exists>content e. g_show g root rv p = Inr content \<and> decode_spec_document d content = Inl e)"

definition names_spec :: "spec \<Rightarrow> string \<Rightarrow> bool" where
  "names_spec sp name \<longleftrightarrow> name \<in> r_name ` set (whole_spec_supersedes_refs (b_links (s_base sp)))"

lemma keys_upsert [simp]: "fst ` set (upsert k v xs) = insert k (fst ` set xs)"
  by (auto simp: upsert_def)

lemma set_paths_of: "p \<in> set (paths_of xs name) \<longleftrightarrow> (name, p) \<in> set xs"
  by (force simp: paths_of_def)

lemma scan_spec_fields:
  "decode_spec_document d content = Inr sp \<Longrightarrow>
     set (cp_supersedes (scan_spec d p content c)) =
       set (cp_supersedes c) \<union> {(n, p) | n. s_supersession sp \<noteq> None \<and> names_spec sp n}
     \<and> set (cp_link_only (scan_spec d p content c)) =
       set (cp_link_only c) \<union> {(n, p) | n. s_supersession sp = None \<and> names_spec sp n}
     \<and> set (cp_stories (scan_spec d p content c)) =
       set (cp_stories c) \<union> {q. q = p \<and> is_rung3_story sp}
     \<and> cp_failures (scan_spec d p content c) = cp_failures c"
  by (auto simp: scan_spec_def Let_def names_spec_def)

lemma scan_spec_failed:
  "decode_spec_document d content = Inl e \<Longrightarrow>
     scan_spec d p content c =
       c\<lparr>cp_failures := upsert p (spec_failure_text d p e) (cp_failures c)\<rparr>"
  by (simp add: scan_spec_def)

lemma scan_spec_conflicts [simp]:
  "cp_resolved (scan_spec d p content c) = cp_resolved c"
  "cp_conflict_failures (scan_spec d p content c) = cp_conflict_failures c"
  by (auto simp: scan_spec_def Let_def split: sum.splits)

text \<open>One path of the scan, as what the loop does when it does not stop.\<close>

lemma scan_specs_step:
  assumes "scan_specs g d root rv (p # ps) c = Inr c'"
  obtains (skipped) "\<not> spec_leaf p" "scan_specs g d root rv ps c = Inr c'"
  | (decoded) content sp where "spec_leaf p" "g_show g root rv p = Inr content"
      "decode_spec_document d content = Inr sp"
      "scan_specs g d root rv ps (scan_spec d p content c) = Inr c'"
  | (failed) content e where "spec_leaf p" "g_show g root rv p = Inr content"
      "decode_spec_document d content = Inl e"
      "scan_specs g d root rv ps (scan_spec d p content c) = Inr c'"
  using assms
  by (cases "g_show g root rv p"; cases "decode_spec_document d (projr (g_show g root rv p))")
    (auto simp: spec_leaf_def split: if_splits)

lemma scan_specs_records:
  "scan_specs g d root rv ps c = Inr c' \<Longrightarrow>
     set (cp_supersedes c') = set (cp_supersedes c)
       \<union> {(n, p) | n p sp. p \<in> set ps \<and> spec_at g d root rv p sp \<and> s_supersession sp \<noteq> None \<and> names_spec sp n}
     \<and> set (cp_link_only c') = set (cp_link_only c)
       \<union> {(n, p) | n p sp. p \<in> set ps \<and> spec_at g d root rv p sp \<and> s_supersession sp = None \<and> names_spec sp n}
     \<and> set (cp_stories c') = set (cp_stories c)
       \<union> {p. p \<in> set ps \<and> (\<exists>sp. spec_at g d root rv p sp \<and> is_rung3_story sp)}
     \<and> fst ` set (cp_failures c') = fst ` set (cp_failures c)
       \<union> {p. p \<in> set ps \<and> spec_undecoded g d root rv p}"
proof (induction ps arbitrary: c)
  case (Cons p ps)
  from Cons.prems show ?case
  proof (cases rule: scan_specs_step)
    case skipped
    then show ?thesis using Cons.IH[of c] by (auto simp: spec_at_def spec_undecoded_def)
  next
    case (decoded content sp)
    then have at: "spec_at g d root rv p q \<longleftrightarrow> q = sp" and un: "\<not> spec_undecoded g d root rv p" for q
      by (auto simp: spec_at_def spec_undecoded_def)
    show ?thesis
      unfolding Cons.IH[OF decoded(4), THEN conjunct1]
        Cons.IH[OF decoded(4), THEN conjunct2, THEN conjunct1]
        Cons.IH[OF decoded(4), THEN conjunct2, THEN conjunct2, THEN conjunct1]
        Cons.IH[OF decoded(4), THEN conjunct2, THEN conjunct2, THEN conjunct2]
      using scan_spec_fields[OF decoded(3), of p c] at un by auto
  next
    case (failed content e)
    then have at: "\<not> spec_at g d root rv p q" and un: "spec_undecoded g d root rv p" for q
      by (auto simp: spec_at_def spec_undecoded_def)
    show ?thesis
      unfolding Cons.IH[OF failed(4), THEN conjunct1]
        Cons.IH[OF failed(4), THEN conjunct2, THEN conjunct1]
        Cons.IH[OF failed(4), THEN conjunct2, THEN conjunct2, THEN conjunct1]
        Cons.IH[OF failed(4), THEN conjunct2, THEN conjunct2, THEN conjunct2]
      using scan_spec_failed[OF failed(3), of p c] at un by auto
  qed
qed auto

lemma scan_specs_frame:
  "scan_specs g d root rv ps c = Inr c' \<Longrightarrow>
     cp_resolved c' = cp_resolved c \<and> cp_conflict_failures c' = cp_conflict_failures c"
  by (induction ps arbitrary: c) (auto split: if_splits sum.splits)

lemma scan_specs_reads:
  "scan_specs g d root rv ps c = Inr c' \<Longrightarrow> p \<in> set ps \<Longrightarrow> spec_leaf p \<Longrightarrow>
     (\<exists>sp. spec_at g d root rv p sp) \<or> spec_undecoded g d root rv p"
proof (induction ps arbitrary: c)
  case (Cons q ps)
  from Cons.prems(1) show ?case
    by (cases rule: scan_specs_step)
      (use Cons.prems(2,3) Cons.IH in \<open>auto simp: spec_at_def spec_undecoded_def\<close>)
qed simp

definition challenges_spec :: "conflict \<Rightarrow> string \<Rightarrow> bool" where
  "challenges_spec fm name \<longleftrightarrow>
     (\<exists>l \<in> set (b_links (c_base fm)). l_type l = LinkChallenges
        \<and> (\<exists>r. parse_ref (l_ref l) = Inr r \<and> r_kind r = KindSpec \<and> \<not> ref_fragment r \<and> r_name r = name))"

definition conflict_at :: "git \<Rightarrow> decoders \<Rightarrow> string \<Rightarrow> string \<Rightarrow> string \<Rightarrow> conflict \<Rightarrow> bool" where
  "conflict_at g d root rv cp fm \<longleftrightarrow>
     \<not> is_git_quoted cp \<and> is_conflict_file cp \<and> is_conflict_record_path cp
     \<and> (\<exists>content. g_show g root rv cp = Inr content \<and> decode_conflict_document d content = Inr fm)"

definition conflict_unread :: "git \<Rightarrow> decoders \<Rightarrow> string \<Rightarrow> string \<Rightarrow> string \<Rightarrow> bool" where
  "conflict_unread g d root rv cp \<longleftrightarrow>
     (if is_git_quoted cp then is_quoted_conflict_file cp
      else is_conflict_file cp
           \<and> (is_conflict_record_path cp \<longrightarrow>
                (\<exists>content e. g_show g root rv cp = Inr content \<and> decode_conflict_document d content = Inl e)))"

lemma set_challenge_names:
  "set (whole_spec_challenge_names seen ls) =
     {name. (\<exists>l \<in> set ls. l_type l = LinkChallenges
        \<and> (\<exists>r. parse_ref (l_ref l) = Inr r \<and> r_kind r = KindSpec \<and> \<not> ref_fragment r \<and> r_name r = name))}
       - set seen"
  by (induction seen ls rule: whole_spec_challenge_names.induct) (auto split: sum.splits)

lemma challenge_names_spec: "set (whole_spec_challenge_names [] (b_links (c_base fm))) = {n. challenges_spec fm n}"
  by (simp add: set_challenge_names challenges_spec_def)

lemma scan_conflict_fields:
  "decode_conflict_document d content = Inr fm \<Longrightarrow>
     set (cp_resolved (scan_conflict d cp content c)) =
       set (cp_resolved c) \<union> {(n, cp) | n. c_status fm = ''superseded'' \<and> challenges_spec fm n}
     \<and> cp_conflict_failures (scan_conflict d cp content c) = cp_conflict_failures c"
  by (auto simp: scan_conflict_def challenge_names_spec)

lemma scan_conflict_failed:
  "decode_conflict_document d content = Inl e \<Longrightarrow>
     scan_conflict d cp content c = conflict_failed cp (conflict_failure_text d cp e) c"
  by (simp add: scan_conflict_def)

lemma conflict_failed_fields [simp]:
  "cp_resolved (conflict_failed cp msg c) = cp_resolved c"
  "fst ` set (cp_conflict_failures (conflict_failed cp msg c)) = insert cp (fst ` set (cp_conflict_failures c))"
  "cp_supersedes (conflict_failed cp msg c) = cp_supersedes c"
  "cp_link_only (conflict_failed cp msg c) = cp_link_only c"
  "cp_failures (conflict_failed cp msg c) = cp_failures c"
  "cp_stories (conflict_failed cp msg c) = cp_stories c"
  by (simp_all add: conflict_failed_def)

lemma scan_conflict_frame [simp]:
  "cp_supersedes (scan_conflict d cp content c) = cp_supersedes c"
  "cp_link_only (scan_conflict d cp content c) = cp_link_only c"
  "cp_failures (scan_conflict d cp content c) = cp_failures c"
  "cp_stories (scan_conflict d cp content c) = cp_stories c"
  by (auto simp: scan_conflict_def split: sum.splits)

lemma scan_conflicts_frame:
  "scan_conflicts g d root rv cps c = Inr c' \<Longrightarrow>
     cp_supersedes c' = cp_supersedes c \<and> cp_link_only c' = cp_link_only c
     \<and> cp_failures c' = cp_failures c \<and> cp_stories c' = cp_stories c"
proof (induction cps arbitrary: c)
  case (Cons cp cps)
  then show ?case by (fastforce split: if_splits sum.splits)
qed simp

lemma scan_conflicts_step:
  assumes "scan_conflicts g d root rv (cp # cps) c = Inr c'"
  obtains (unread) msg where "conflict_unread g d root rv cp" "\<And>fm. \<not> conflict_at g d root rv cp fm"
      "scan_conflicts g d root rv cps (conflict_failed cp msg c) = Inr c'"
  | (other) "\<not> conflict_unread g d root rv cp" "\<And>fm. \<not> conflict_at g d root rv cp fm"
      "scan_conflicts g d root rv cps c = Inr c'"
  | (decoded) content fm where "\<not> conflict_unread g d root rv cp" "\<And>q. conflict_at g d root rv cp q \<longleftrightarrow> q = fm"
      "decode_conflict_document d content = Inr fm"
      "scan_conflicts g d root rv cps (scan_conflict d cp content c) = Inr c'"
proof (cases "is_git_quoted cp \<or> \<not> is_conflict_file cp \<or> \<not> is_conflict_record_path cp")
  case True
  with assms that(1,2) show ?thesis
    by (auto simp: conflict_unread_def conflict_at_def split: if_splits)
next
  case False
  with assms obtain content where c: "g_show g root rv cp = Inr content"
    "scan_conflicts g d root rv cps (scan_conflict d cp content c) = Inr c'"
    by (auto split: sum.splits)
  show ?thesis
  proof (cases "decode_conflict_document d content")
    case (Inl e)
    with c False that(1) show ?thesis
      by (auto simp: conflict_unread_def conflict_at_def scan_conflict_failed)
  next
    case (Inr fm)
    with c False that(3) show ?thesis by (auto simp: conflict_unread_def conflict_at_def)
  qed
qed

lemma scan_conflicts_records:
  "scan_conflicts g d root rv cps c = Inr c' \<Longrightarrow>
     set (cp_resolved c') = set (cp_resolved c)
       \<union> {(n, cp) | n cp fm. cp \<in> set cps \<and> conflict_at g d root rv cp fm \<and> c_status fm = ''superseded''
            \<and> challenges_spec fm n}
     \<and> fst ` set (cp_conflict_failures c') = fst ` set (cp_conflict_failures c)
       \<union> {cp. cp \<in> set cps \<and> conflict_unread g d root rv cp}"
proof (induction cps arbitrary: c)
  case (Cons cp cps)
  from Cons.prems show ?case
  proof (cases rule: scan_conflicts_step)
    case (unread msg)
    then show ?thesis using Cons.IH[OF unread(3)] by auto
  next
    case other
    then show ?thesis using Cons.IH[OF other(3)] by auto
  next
    case (decoded content fm)
    then show ?thesis using Cons.IH[OF decoded(4)] scan_conflict_fields[OF decoded(3), of cp c] by auto
  qed
qed auto

section \<open>A successful scan\<close>

text \<open>The two listings a scan read.\<close>

definition listings :: "git \<Rightarrow> string \<Rightarrow> string \<Rightarrow> string list \<Rightarrow> string list \<Rightarrow> bool" where
  "listings g root rv specs conflicts \<longleftrightarrow>
     g_ls_tree g root rv specZonesPrefix = Inr specs \<and> g_ls_tree g root rv conflictsDir = Inr conflicts"

lemma scan_successors_plain:
  "scan_successors g d root rv False = Inr c \<longleftrightarrow>
     (\<exists>specs conflicts c1. listings g root rv specs conflicts
        \<and> scan_specs g d root rv (sort specs) empty_corpus = Inr c1
        \<and> scan_conflicts g d root rv (sort conflicts) c1 = Inr c)"
  by (auto simp: scan_successors_def listings_def split: sum.splits)

lemma scan_successors_records:
  assumes "scan_successors g d root rv False = Inr c"
  obtains specs conflicts where "listings g root rv specs conflicts"
    and "\<And>n p. (n, p) \<in> set (cp_supersedes c) \<longleftrightarrow>
          p \<in> set specs \<and> (\<exists>sp. spec_at g d root rv p sp \<and> s_supersession sp \<noteq> None \<and> names_spec sp n)"
    and "\<And>n p. (n, p) \<in> set (cp_link_only c) \<longleftrightarrow>
          p \<in> set specs \<and> (\<exists>sp. spec_at g d root rv p sp \<and> s_supersession sp = None \<and> names_spec sp n)"
    and "\<And>p. p \<in> set (cp_stories c) \<longleftrightarrow>
          p \<in> set specs \<and> (\<exists>sp. spec_at g d root rv p sp \<and> is_rung3_story sp)"
    and "\<And>p. p \<in> fst ` set (cp_failures c) \<longleftrightarrow> p \<in> set specs \<and> spec_undecoded g d root rv p"
    and "\<And>n cp. (n, cp) \<in> set (cp_resolved c) \<longleftrightarrow>
          cp \<in> set conflicts \<and> (\<exists>fm. conflict_at g d root rv cp fm \<and> c_status fm = ''superseded''
            \<and> challenges_spec fm n)"
    and "\<And>cp. cp \<in> fst ` set (cp_conflict_failures c) \<longleftrightarrow> cp \<in> set conflicts \<and> conflict_unread g d root rv cp"
    and "\<And>p. p \<in> set specs \<Longrightarrow> spec_leaf p \<Longrightarrow>
          (\<exists>sp. spec_at g d root rv p sp) \<or> spec_undecoded g d root rv p"
proof -
  from assms obtain specs conflicts c1 where l: "listings g root rv specs conflicts"
    and s: "scan_specs g d root rv (sort specs) empty_corpus = Inr c1"
    and k: "scan_conflicts g d root rv (sort conflicts) c1 = Inr c"
    by (auto simp: scan_successors_plain)
  note sr = scan_specs_records[OF s, unfolded empty_corpus_def, simplified]
  note kr = scan_conflicts_records[OF k] scan_conflicts_frame[OF k] scan_specs_frame[OF s]
  show ?thesis
    by (rule that[OF l])
      (use sr kr scan_specs_reads[OF s] in \<open>auto simp: empty_corpus_def\<close>)
qed

section \<open>A pinned scan lists what a plain scan lists\<close>

text \<open>Documented behaviour of \<^verbatim>\<open>git ls-tree\<close>: where no listed path has a byte to quote,
  surrounding whitespace or the directory in another letter case, the listing of a
  directory is the part of the whole-tree listing under it.\<close>

definition listing_law :: "git \<Rightarrow> string \<Rightarrow> bool" where
  "listing_law g root \<longleftrightarrow>
     (\<forall>rv es dir. full_oid rv \<longrightarrow> g_prefix g root = Inr '''' \<longrightarrow> g_entries g root rv = Inr es \<longrightarrow>
        dir \<in> {specZonesPrefix, conflictsDir} \<longrightarrow>
        (\<forall>p \<in> set es. (under p dir \<longrightarrow> plainly_listed p)
           \<and> (under_folded p dir \<longrightarrow> under p dir)) \<longrightarrow>
        g_ls_tree g root rv dir = Inr (filter (\<lambda>p. under p dir) es))"

lemma not_folded: "\<not> equal_fold (''.verdi/s'' @ t) conflictsDir" "\<not> equal_fold (''.verdi/c'' @ t) specZonesPrefix"
  by (simp_all add: conflictsDir_def specZonesPrefix_def has_prefix_def lower_byte_def byte_in_def)

lemma under_specsE: "under p specZonesPrefix \<Longrightarrow> \<exists>t. p = ''.verdi/s'' @ t"
  by (auto simp: under_def specZonesPrefix_def has_prefix_iff)

lemma under_conflictsE: "under p conflictsDir \<Longrightarrow> \<exists>t. p = ''.verdi/c'' @ t"
  by (auto simp: under_def conflictsDir_def has_prefix_iff)

lemma under_specs_apart:
  assumes "under p specZonesPrefix"
  shows "\<not> under_folded p conflictsDir" "\<not> under p conflictsDir"
proof -
  obtain t where t: "p = ''.verdi/s'' @ t" using under_specsE[OF assms] by blast
  have "\<exists>u. take (length conflictsDir) p = ''.verdi/s'' @ u" by (simp add: t conflictsDir_def)
  with t show "\<not> under_folded p conflictsDir" by (auto simp only: under_folded_def not_folded)
  show "\<not> under p conflictsDir" using under_conflictsE[of p] t by auto
qed

lemma under_conflicts_apart:
  assumes "under p conflictsDir"
  shows "\<not> under_folded p specZonesPrefix"
proof -
  obtain t where t: "p = ''.verdi/c'' @ t" using under_conflictsE[OF assms] by blast
  have "\<exists>u. take (length specZonesPrefix) p = ''.verdi/c'' @ u" by (simp add: t specZonesPrefix_def)
  with t show ?thesis by (auto simp only: under_folded_def not_folded)
qed

lemma tree_scan_listing:
  "tree_scan specs conflicts es = Some (specs', conflicts') \<Longrightarrow>
     specs' = specs @ filter (\<lambda>p. under p specZonesPrefix) es
     \<and> conflicts' = conflicts @ filter (\<lambda>p. under p conflictsDir) es
     \<and> (\<forall>p \<in> set es. (under p specZonesPrefix \<or> under p conflictsDir \<longrightarrow> plainly_listed p)
          \<and> (under_folded p specZonesPrefix \<longrightarrow> under p specZonesPrefix)
          \<and> (under_folded p conflictsDir \<longrightarrow> under p conflictsDir))"
proof (induction specs conflicts es rule: tree_scan.induct)
  case (2 specs conflicts p ps)
  consider "under p specZonesPrefix" | "\<not> under p specZonesPrefix" "under p conflictsDir"
    | "\<not> under p specZonesPrefix" "\<not> under p conflictsDir" by blast
  then show ?case
  proof cases
    case 1
    then have p: "plainly_listed p" and r: "tree_scan (specs @ [p]) conflicts ps = Some (specs', conflicts')"
      using "2.prems" by (simp_all split: if_splits)
    show ?thesis using "2.IH"(1)[OF 1 p r] 1 p under_specs_apart[OF 1] by simp
  next
    case 2
    then have p: "plainly_listed p" and r: "tree_scan specs (conflicts @ [p]) ps = Some (specs', conflicts')"
      using "2.prems" by (simp_all split: if_splits)
    show ?thesis using "2.IH"(2)[OF 2 p r] 2 p under_conflicts_apart[OF 2(2)] by simp
  next
    case 3
    then have f: "\<not> (under_folded p specZonesPrefix \<or> under_folded p conflictsDir)"
      and r: "tree_scan specs conflicts ps = Some (specs', conflicts')"
      using "2.prems" by (simp_all split: if_splits)
    show ?thesis using "2.IH"(3)[OF 3 f r] 3 f by simp
  qed
qed simp

lemma store_tree_paths_listings:
  assumes "listing_law g root" "store_tree_paths g root rv = Some (specs, conflicts)"
  shows "listings g root rv specs conflicts"
proof -
  from assms(2) obtain es where r: "full_oid rv" "g_prefix g root = Inr ''''" "g_entries g root rv = Inr es"
    and t: "tree_scan [] [] es = Some (specs, conflicts)"
    by (auto simp: store_tree_paths_def split: if_splits sum.splits)
  note law = assms(1)[unfolded listing_law_def, rule_format, OF r]
  from tree_scan_listing[OF t] law[of specZonesPrefix] law[of conflictsDir]
  show ?thesis by (auto simp: listings_def)
qed

lemma pinned_scan_plain:
  assumes "listing_law g root"
  shows "scan_successors g d root rv True = scan_successors g d root rv False"
proof (cases "store_tree_paths g root rv")
  case (Some p)
  obtain specs conflicts where p: "p = (specs, conflicts)" by (cases p)
  with store_tree_paths_listings[OF assms] Some have "listings g root rv specs conflicts" by simp
  with Some p show ?thesis
    by (auto simp: scan_successors_def listings_def Let_def split: sum.splits)
qed (simp add: scan_successors_def)

end
