(* ===== verification/SpecState.thy ===== *)
theory SpecState
  imports Corpus
begin

text \<open>
  The lifecycle projection, internal/specstate (state.go, resolve.go,
  storysupersession.go, defaultbranch.go, accepted.go): the effective state of a
  spec revision, from its exact bytes and what Git says of the default branch.
  A disclosure is one constructor per message template of the source. The cache of
  corpora is threaded through the calls of one projector; \<open>cache_get\<close> is one \<^verbatim>\<open>get\<close>
  with no other caller running (lemma \<open>cache_get_runs\<close>).
\<close>

section \<open>Results\<close>

datatype state = Proposed | AcceptedPendingBuild | Superseded | Closed | Unproven

datatype relation = RelationNew | RelationExact | RelationDiverged | RelationUnproven

record branch =
  br_name :: string
  br_ref :: string
  br_tip :: string
  br_commit :: string

definition branch_rev :: "branch \<Rightarrow> string" where
  "branch_rev b = (if br_commit b \<noteq> '''' then br_commit b else br_ref b)"

record baseline =
  bl_path :: string
  bl_blob :: string
  bl_landing :: string

record candidate =
  ca_path :: string
  ca_content :: string

datatype disclosure =
    Message string
  | NoDefaultBranch string
  | NoLanding string string string
  | SupersededByStory string string "string list"
  | LinkOnly string string
  | MissingConflict string string bool
  | MissingSuccessor string string bool
  | ConflictScanIncomplete string
  | SpecScanIncomplete string
  | LegacyTerminal string string state
  | LegacyDraft string

record state_result =
  rs_state :: state
  rs_relation :: relation
  rs_baseline :: "baseline option"
  rs_disclosures :: "disclosure list"

definition artifact_status :: "state_result \<Rightarrow> string" where
  "artifact_status r =
     (case rs_state r of
        AcceptedPendingBuild \<Rightarrow> ''accepted-pending-build''
      | Superseded \<Rightarrow> ''superseded''
      | Closed \<Rightarrow> ''closed''
      | Proposed \<Rightarrow> ''draft''
      | Unproven \<Rightarrow> ''unproven'')"

definition unproven :: "disclosure list \<Rightarrow> state_result" where
  "unproven ds = \<lparr>rs_state = Unproven, rs_relation = RelationUnproven, rs_baseline = None,
     rs_disclosures = ds\<rparr>"

definition exact :: "state \<Rightarrow> baseline \<Rightarrow> disclosure list \<Rightarrow> state_result" where
  "exact st bl ds = \<lparr>rs_state = st, rs_relation = RelationExact, rs_baseline = Some bl,
     rs_disclosures = ds\<rparr>"

section \<open>The default branch\<close>

text \<open>The reads of the branch resolution: the CI variable, the remote's recorded default,
  and whether a remote-tracking or a local branch exists.\<close>

record branch_port =
  bp_env :: string
  bp_default :: "string + string"
  bp_remote :: "string \<Rightarrow> string + bool"
  bp_local :: "string \<Rightarrow> string + bool"
  bp_rev_parse :: "string \<Rightarrow> string + string"

definition fallback_default_branch_name :: "branch_port \<Rightarrow> string option" where
  "fallback_default_branch_name p =
     (case (bp_remote p ''main'', bp_remote p ''master'') of
        (Inr has_main, Inr has_master) \<Rightarrow>
          if has_main \<and> has_master then None
          else if has_main then Some ''main''
          else if has_master then Some ''master''
          else None
      | _ \<Rightarrow> None)"

definition resolve_default_branch_name :: "branch_port \<Rightarrow> string option" where
  "resolve_default_branch_name p =
     (if bp_env p \<noteq> '''' then Some (bp_env p)
      else
        (case bp_default p of
           Inr b \<Rightarrow> if b \<noteq> '''' then Some b else fallback_default_branch_name p
         | Inl e \<Rightarrow> fallback_default_branch_name p))"

definition resolve_branch_ref :: "branch_port \<Rightarrow> string \<Rightarrow> string option" where
  "resolve_branch_ref p name =
     (case bp_remote p name of
        Inl e \<Rightarrow> None
      | Inr True \<Rightarrow> Some (''origin/'' @ name)
      | Inr False \<Rightarrow>
          (case bp_local p name of Inl e \<Rightarrow> None | Inr has \<Rightarrow> if has then Some name else None))"

definition resolve_default_branch :: "branch_port \<Rightarrow> branch option" where
  "resolve_default_branch p =
     (case resolve_default_branch_name p of
        None \<Rightarrow> None
      | Some name \<Rightarrow>
          (case resolve_branch_ref p name of
             None \<Rightarrow> None
           | Some r \<Rightarrow> Some \<lparr>br_name = name, br_ref = r, br_tip = '''', br_commit = ''''\<rparr>))"

definition resolve_accepted_head :: "branch_port \<Rightarrow> branch option" where
  "resolve_accepted_head p =
     (case resolve_default_branch p of
        None \<Rightarrow> None
      | Some b \<Rightarrow>
          (case bp_rev_parse p (br_ref b) of
             Inl e \<Rightarrow> Some b
           | Inr tip \<Rightarrow>
               (case bp_rev_parse p (tip @ ''^{commit}'') of
                  Inl e \<Rightarrow> Some b
                | Inr cm \<Rightarrow> Some (b\<lparr>br_tip := tip, br_commit := cm\<rparr>))))"

section \<open>The verdict on an active, landed spec\<close>

definition probe_spec :: "decoders \<Rightarrow> string \<Rightarrow> spec option" where
  "probe_spec d content = (case decode_spec_document d content of Inl e \<Rightarrow> None | Inr sp \<Rightarrow> Some sp)"

definition probe_legacy_status :: "decoders \<Rightarrow> string \<Rightarrow> string" where
  "probe_legacy_status d content =
     (case probe_spec d content of None \<Rightarrow> '''' | Some sp \<Rightarrow> s_status sp)"

definition migration_disclosures :: "decoders \<Rightarrow> string \<Rightarrow> string \<Rightarrow> disclosure list" where
  "migration_disclosures d path content =
     (if probe_legacy_status d content \<noteq> ''draft'' then [] else [LegacyDraft path])"

definition story_disclosures :: "corpus \<Rightarrow> string \<Rightarrow> string \<Rightarrow> disclosure list" where
  "story_disclosures c path name =
     (let link_only = link_only_supersessors_for c path name;
          stories = filter (\<lambda>p. p \<in> set (cp_stories c)) link_only;
          complete = (cp_conflict_failures c = []);
          spec_failures = failures_excluding c path;
          conflict_failures = conflict_failure_messages c
      in map (\<lambda>p. if p \<notin> set (cp_stories c) then LinkOnly path p else MissingConflict path p complete)
           link_only
         @ (if stories = [] then
              map (\<lambda>cf. MissingSuccessor path cf (spec_failures = [])) (paths_of (cp_resolved c) name)
            else [])
         @ (if conflict_failures \<noteq> [] then
              ConflictScanIncomplete path # map Message conflict_failures
            else []))"

definition story_verdict :: "corpus \<Rightarrow> string \<Rightarrow> string \<Rightarrow> baseline \<Rightarrow> state_result option" where
  "story_verdict c path name bl =
     (let stories = filter (\<lambda>p. p \<in> set (cp_stories c)) (link_only_supersessors_for c path name);
          resolved = paths_of (cp_resolved c) name;
          spec_failures = failures_excluding c path
      in if stories \<noteq> [] \<and> resolved \<noteq> [] then
           Some (exact Superseded bl (map (\<lambda>p. SupersededByStory path p resolved) stories))
         else
           (let ds = story_disclosures c path name in
            if ds = [] then None
            else Some (unproven
              (ds @ (if spec_failures \<noteq> [] then SpecScanIncomplete path # map Message spec_failures
                     else [])))))"

text \<open>The tail of \<^verbatim>\<open>resolveOne\<close>: the scan-incompleteness fallback, then acceptance.\<close>

definition accept_or_incomplete :: "corpus \<Rightarrow> decoders \<Rightarrow> candidate \<Rightarrow> baseline \<Rightarrow> state_result" where
  "accept_or_incomplete c d ca bl =
     (let failures = failures_excluding c (ca_path ca) in
      if failures \<noteq> [] then unproven (SpecScanIncomplete (ca_path ca) # map Message failures)
      else exact AcceptedPendingBuild bl (migration_disclosures d (ca_path ca) (ca_content ca)))"

definition active_verdict ::
  "corpus \<Rightarrow> decoders \<Rightarrow> candidate \<Rightarrow> string \<Rightarrow> baseline \<Rightarrow> state_result" where
  "active_verdict c d ca name bl =
     (if supersessors_for c (ca_path ca) name \<noteq> [] then exact Superseded bl []
      else
        (case map_of (cp_failures c) (ca_path ca) of
           Some msg \<Rightarrow> unproven [Message msg]
         | None \<Rightarrow>
             (let legacy = probe_legacy_status d (ca_content ca) in
              if legacy = ''superseded'' \<or> legacy = ''closed'' then
                (let st = (if legacy = ''closed'' then Closed else Superseded) in
                 exact st bl [LegacyTerminal (ca_path ca) legacy st])
              else if (case probe_spec d (ca_content ca) of None \<Rightarrow> False | Some sp \<Rightarrow> is_rung3_story sp) then
                (case story_verdict c (ca_path ca) name bl of
                   Some r \<Rightarrow> r
                 | None \<Rightarrow> accept_or_incomplete c d ca bl)
              else
                (let link_only = link_only_supersessors_for c (ca_path ca) name in
                 if link_only \<noteq> [] then unproven (map (LinkOnly (ca_path ca)) link_only)
                 else accept_or_incomplete c d ca bl))))"

section \<open>One candidate\<close>

datatype zone = ZoneActive | ZoneArchive

definition candidate_in :: "zone \<Rightarrow> string \<Rightarrow> string \<Rightarrow> (zone \<times> string) option" where
  "candidate_in z prefix p =
     (let rest = drop (length prefix) p;
          name = take (length rest - length ''/spec.md'') rest
      in if has_prefix p prefix \<and> has_suffix rest ''/spec.md'' \<and> rx_match nameSegment name
         then Some (z, name) else None)"

definition parse_candidate_path :: "string \<Rightarrow> (zone \<times> string) option" where
  "parse_candidate_path p =
     (case candidate_in ZoneActive ''.verdi/specs/active/'' p of
        Some r \<Rightarrow> Some r
      | None \<Rightarrow> candidate_in ZoneArchive ''.verdi/specs/archive/'' p)"

datatype state_error =
    BadCandidatePath string
  | ScanFailed scan_error
  | BlobFailed string string string
  | ReadFailed string string string
  | LandingFailed string string string

definition at_ref :: "branch \<Rightarrow> (string \<Rightarrow> 'e + 'a) \<Rightarrow> 'e + 'a" where
  "at_ref b read =
     (case read (branch_rev b) of
        Inr v \<Rightarrow> Inr v
      | Inl e \<Rightarrow>
          if branch_rev b = br_ref b then Inl e
          else (case read (br_ref b) of Inl e' \<Rightarrow> Inl e' | Inr v \<Rightarrow> Inl e))"

datatype located = Decided state_result | Active string baseline

definition locate ::
  "git \<Rightarrow> string \<Rightarrow> branch \<Rightarrow> candidate \<Rightarrow> state_error + located" where
  "locate g root b ca =
     (case parse_candidate_path (ca_path ca) of
        None \<Rightarrow> Inl (BadCandidatePath (ca_path ca))
      | Some (zn, name) \<Rightarrow>
          (case at_ref b (\<lambda>rv. g_blob g root rv (ca_path ca)) of
             Inl e \<Rightarrow> Inl (BlobFailed (ca_path ca) (br_ref b) e)
           | Inr None \<Rightarrow> Inr (Decided \<lparr>rs_state = Proposed, rs_relation = RelationNew,
               rs_baseline = None, rs_disclosures = []\<rparr>)
           | Inr (Some oid) \<Rightarrow>
               (case at_ref b (\<lambda>rv. g_show g root rv (ca_path ca)) of
                  Inl e \<Rightarrow> Inl (ReadFailed (ca_path ca) (br_ref b) e)
                | Inr content \<Rightarrow>
                    if content \<noteq> ca_content ca then
                      Inr (Decided \<lparr>rs_state = Proposed, rs_relation = RelationDiverged,
                        rs_baseline = Some \<lparr>bl_path = ca_path ca, bl_blob = oid, bl_landing = ''''\<rparr>,
                        rs_disclosures = []\<rparr>)
                    else
                      (case at_ref b (\<lambda>rv. g_landing g root rv (ca_path ca) oid) of
                         Inl e \<Rightarrow> Inl (LandingFailed (ca_path ca) oid e)
                       | Inr None \<Rightarrow> Inr (Decided (unproven [NoLanding (ca_path ca) oid (br_ref b)]))
                       | Inr (Some landing) \<Rightarrow>
                           (let bl = \<lparr>bl_path = ca_path ca, bl_blob = oid, bl_landing = landing\<rparr> in
                            if zn = ZoneArchive then Inr (Decided (exact Closed bl []))
                            else Inr (Active name bl))))))"

section \<open>The corpus of a call\<close>

type_synonym corpora = "(string \<times> string, corpus) corpus_cache"

definition cache_get ::
  "'k \<Rightarrow> 'e + 'c \<Rightarrow> ('k, 'c) corpus_cache \<Rightarrow> ('e + 'c) \<times> ('k, 'c) corpus_cache" where
  "cache_get key scanned c =
     (case enter_locked key 0 c of
        (Hit x, c') \<Rightarrow> (Inr x, c')
      | (Lead, c') \<Rightarrow>
          (scanned,
           release_locked key (case scanned of Inl e \<Rightarrow> ScanErr e | Inr x \<Rightarrow> ScanOk x) c')
      | (Join f, c') \<Rightarrow> (scanned, c))"

definition corpus_commit :: "git \<Rightarrow> string \<Rightarrow> branch \<Rightarrow> string option" where
  "corpus_commit g root b =
     (if br_commit b \<noteq> '''' then Some (br_commit b)
      else
        (case g_rev_parse g root (br_ref b @ ''^{commit}'') of
           Inl e \<Rightarrow> None
         | Inr cm \<Rightarrow> if cm = '''' then None else Some cm))"

definition successors ::
  "git \<Rightarrow> decoders \<Rightarrow> string \<Rightarrow> branch \<Rightarrow> corpora option \<Rightarrow> (scan_error + corpus) \<times> corpora option" where
  "successors g d root b cch =
     (let plain = scan_successors g d root (br_ref b) False;
          pinned = (br_commit b \<noteq> '''')
      in case cch of
           None \<Rightarrow> (plain, None)
         | Some cc \<Rightarrow>
             (case corpus_commit g root b of
                None \<Rightarrow> (plain, cch)
              | Some cm \<Rightarrow>
                  (case cache_get (root, cm) (scan_successors g d root cm pinned) cc of
                     (Inr c, cc') \<Rightarrow> (Inr c, Some cc')
                   | (Inl e, cc') \<Rightarrow>
                       if \<not> pinned then (plain, Some cc')
                       else (case plain of Inl e' \<Rightarrow> (Inl e', Some cc') | Inr c \<Rightarrow> (Inl e, Some cc')))))"

text \<open>The corpus is built when the first candidate needs it and kept for the call.\<close>

definition get_corpus ::
  "git \<Rightarrow> decoders \<Rightarrow> string \<Rightarrow> branch \<Rightarrow> corpus option \<times> corpora option \<Rightarrow>
   (scan_error + corpus) \<times> corpus option \<times> corpora option" where
  "get_corpus g d root b st =
     (case st of
        (Some c, cch) \<Rightarrow> (Inr c, st)
      | (None, cch) \<Rightarrow>
          (case successors g d root b cch of
             (Inl e, cch') \<Rightarrow> (Inl e, None, cch')
           | (Inr c, cch') \<Rightarrow> (Inr c, Some c, cch')))"

definition resolve_one ::
  "git \<Rightarrow> decoders \<Rightarrow> string \<Rightarrow> branch \<Rightarrow> candidate \<Rightarrow> corpus option \<times> corpora option \<Rightarrow>
   (state_error + state_result) \<times> corpus option \<times> corpora option" where
  "resolve_one g d root b ca st =
     (case locate g root b ca of
        Inl e \<Rightarrow> (Inl e, st)
      | Inr (Decided r) \<Rightarrow> (Inr r, st)
      | Inr (Active name bl) \<Rightarrow>
          (case get_corpus g d root b st of
             (Inl e, st') \<Rightarrow> (Inl (ScanFailed e), st')
           | (Inr c, st') \<Rightarrow> (Inr (active_verdict c d ca name bl), st')))"

fun resolve_loop ::
  "git \<Rightarrow> decoders \<Rightarrow> string \<Rightarrow> branch \<Rightarrow> candidate list \<Rightarrow> corpus option \<times> corpora option \<Rightarrow>
   (state_error + state_result list) \<times> corpora option" where
  "resolve_loop g d root b [] st = (Inr [], snd st)"
| "resolve_loop g d root b (ca # cas) st =
     (case resolve_one g d root b ca st of
        (Inl e, st') \<Rightarrow> (Inl e, snd st')
      | (Inr r, st') \<Rightarrow>
          (case resolve_loop g d root b cas st' of
             (Inl e, cch) \<Rightarrow> (Inl e, cch)
           | (Inr rs, cch) \<Rightarrow> (Inr (r # rs), cch)))"

definition resolve_many ::
  "git \<Rightarrow> decoders \<Rightarrow> string \<Rightarrow> branch option \<Rightarrow> candidate list \<Rightarrow> corpora option \<Rightarrow>
   (state_error + state_result list) \<times> corpora option" where
  "resolve_many g d root branch cas cch =
     (case branch of
        None \<Rightarrow> (Inr (map (\<lambda>ca. unproven [NoDefaultBranch root]) cas), cch)
      | Some b \<Rightarrow> resolve_loop g d root b cas (None, cch))"

definition resolve ::
  "git \<Rightarrow> decoders \<Rightarrow> string \<Rightarrow> branch option \<Rightarrow> candidate \<Rightarrow> corpora option \<Rightarrow>
   (state_error + state_result) \<times> corpora option" where
  "resolve g d root branch ca cch =
     (case resolve_many g d root branch [ca] cch of
        (Inl e, cch') \<Rightarrow> (Inl e, cch')
      | (Inr rs, cch') \<Rightarrow> (Inr (hd rs), cch'))"

section \<open>Reads of the default branch\<close>

lemma at_ref_Inr: "at_ref b read = Inr v \<longleftrightarrow> read (branch_rev b) = Inr v"
  by (auto simp: at_ref_def split: sum.splits)

lemma locate_Active:
  assumes "locate g root b ca = Inr (Active name bl)"
  shows "parse_candidate_path (ca_path ca) = Some (ZoneActive, name)
       \<and> g_show g root (branch_rev b) (ca_path ca) = Inr (ca_content ca)
       \<and> g_blob g root (branch_rev b) (ca_path ca) = Inr (Some (bl_blob bl))
       \<and> g_landing g root (branch_rev b) (ca_path ca) (bl_blob bl) = Inr (Some (bl_landing bl))
       \<and> bl_path bl = ca_path ca"
  using assms
  by (auto simp: locate_def at_ref_Inr Let_def
      split: option.splits prod.splits sum.splits if_splits zone.splits)
    (metis zone.exhaust)

lemma locate_Decided:
  assumes "locate g root b ca = Inr (Decided r)"
  shows "rs_state r \<in> {Proposed, Closed, Unproven}
       \<and> (rs_state r = Closed \<longrightarrow>
            (\<exists>name oid landing. parse_candidate_path (ca_path ca) = Some (ZoneArchive, name)
              \<and> g_show g root (branch_rev b) (ca_path ca) = Inr (ca_content ca)
              \<and> g_landing g root (branch_rev b) (ca_path ca) oid = Inr (Some landing)))"
  using assms
  by (auto simp: locate_def at_ref_Inr Let_def exact_def unproven_def
      split: option.splits prod.splits sum.splits if_splits)

section \<open>The verdict\<close>

lemma exact_fields [simp]:
  "rs_state (exact st bl ds) = st" "rs_baseline (exact st bl ds) = Some bl"
  "rs_relation (exact st bl ds) = RelationExact" "rs_disclosures (exact st bl ds) = ds"
  by (simp_all add: exact_def)

lemma unproven_fields [simp]:
  "rs_state (unproven ds) = Unproven" "rs_baseline (unproven ds) = None" "rs_disclosures (unproven ds) = ds"
  by (simp_all add: unproven_def)

lemma accept_or_incomplete_state:
  "rs_state (accept_or_incomplete c d ca bl) =
     (if failures_excluding c (ca_path ca) = [] then AcceptedPendingBuild else Unproven)"
  by (simp add: accept_or_incomplete_def Let_def)

lemma story_verdict_state:
  "story_verdict c path name bl = Some r \<Longrightarrow>
     rs_state r = (if (\<exists>p \<in> set (link_only_supersessors_for c path name). p \<in> set (cp_stories c))
                      \<and> paths_of (cp_resolved c) name \<noteq> [] then Superseded else Unproven)"
  by (auto simp: story_verdict_def Let_def filter_empty_conv split: if_splits)

lemma sort_Nil [simp]: "sort xs = [] \<longleftrightarrow> xs = []"
  by (metis length_0_conv length_sort)

lemma story_verdict_None:
  "story_verdict c path name bl = None \<Longrightarrow>
     link_only_supersessors_for c path name = [] \<and> paths_of (cp_resolved c) name = []
     \<and> cp_conflict_failures c = []"
  by (auto simp: story_verdict_def story_disclosures_def conflict_failure_messages_def Let_def
      filter_empty_conv split: if_splits)

lemma active_verdict_Superseded:
  assumes "rs_state (active_verdict c d ca name bl) = Superseded"
  shows "supersessors_for c (ca_path ca) name \<noteq> []
       \<or> probe_legacy_status d (ca_content ca) = ''superseded''
       \<or> ((\<exists>p \<in> set (link_only_supersessors_for c (ca_path ca) name). p \<in> set (cp_stories c))
          \<and> paths_of (cp_resolved c) name \<noteq> []
          \<and> (\<exists>sp. probe_spec d (ca_content ca) = Some sp \<and> is_rung3_story sp))"
  using assms
  by (auto simp: active_verdict_def Let_def accept_or_incomplete_state
      split: if_splits option.splits dest: story_verdict_state)

lemma active_verdict_Accepted:
  assumes "rs_state (active_verdict c d ca name bl) = AcceptedPendingBuild"
  shows "supersessors_for c (ca_path ca) name = []
       \<and> link_only_supersessors_for c (ca_path ca) name = []
       \<and> ca_path ca \<notin> fst ` set (cp_failures c)
       \<and> failures_excluding c (ca_path ca) = []
       \<and> probe_legacy_status d (ca_content ca) \<notin> {''superseded'', ''closed''}
       \<and> ((\<exists>sp. probe_spec d (ca_content ca) = Some sp \<and> is_rung3_story sp) \<longrightarrow>
            paths_of (cp_resolved c) name = [] \<and> cp_conflict_failures c = [])"
  using assms
  by (auto simp: active_verdict_def Let_def accept_or_incomplete_state map_of_eq_None_iff
      split: if_splits option.splits dest: story_verdict_state story_verdict_None)

lemma active_verdict_Closed:
  "rs_state (active_verdict c d ca name bl) = Closed \<Longrightarrow>
     probe_legacy_status d (ca_content ca) = ''closed''"
  by (auto simp: active_verdict_def Let_def accept_or_incomplete_state
      split: if_splits option.splits dest: story_verdict_state)

lemma active_verdict_not_Proposed: "rs_state (active_verdict c d ca name bl) \<noteq> Proposed"
  by (auto simp: active_verdict_def Let_def accept_or_incomplete_state
      split: if_splits option.splits dest: story_verdict_state)

section \<open>The corpus of a call\<close>

definition corpus_outcome ::
  "git \<Rightarrow> decoders \<Rightarrow> string \<times> string \<Rightarrow> (corpus, scan_error) scan_result \<Rightarrow> bool" where
  "corpus_outcome g d key r =
     (case r of
        ScanOk c \<Rightarrow> scan_successors g d (fst key) (snd key) False = Inr c
      | ScanErr e \<Rightarrow> scan_successors g d (fst key) (snd key) False = Inl e
      | _ \<Rightarrow> False)"

abbreviation trusted :: "git \<Rightarrow> decoders \<Rightarrow> corpora \<Rightarrow> bool" where
  "trusted g d cc \<equiv> quiet (corpus_outcome g d) cc"

lemma cache_get_sound:
  assumes "quiet outcome cc" "cache_get key scanned cc = (r, cc')"
    and "outcome key (case scanned of Inl e \<Rightarrow> ScanErr e | Inr x \<Rightarrow> ScanOk x)"
  shows "quiet outcome cc' \<and> (r = scanned \<or> (\<exists>c. r = Inr c \<and> outcome key (ScanOk c)))"
proof (cases "enter_locked key 0 cc")
  case (Pair a c')
  from Pair show ?thesis
  proof (cases rule: enter_cases)
    case (1 corpus)
    then have "cc_flights c' = cc_flights cc" "cc_waiters c' = cc_waiters cc" by simp_all
    with 1 Pair assms(1,2) enter_sound[OF Pair, of "\<lambda>key corpus. outcome key (ScanOk corpus)"]
    show ?thesis by (auto simp: cache_get_def quiet_def)
  next
    case 2
    let ?r = "case scanned of Inl e \<Rightarrow> ScanErr e | Inr x \<Rightarrow> ScanOk x"
    from enter_sound[OF Pair] assms(1)
    have "corpora.sound (\<lambda>key corpus. outcome key (ScanOk corpus)) c'" by (auto simp: quiet_def)
    from release_sound[OF this assms(3)] 2 Pair assms(1,2) show ?thesis
      by (auto simp: cache_get_def quiet_def)
  next
    case (3 g)
    with assms(1) show ?thesis by (simp add: quiet_def)
  qed
qed

definition scanned_as :: "'e + 'c \<Rightarrow> ('c, 'e) scan_result" where
  "scanned_as r = (case r of Inl e \<Rightarrow> ScanErr e | Inr x \<Rightarrow> ScanOk x)"

lemma runs_refl: "runs outcome ends s s"
  by (simp add: runs_def)

lemma runs_step: "cache_step outcome ends s t \<Longrightarrow> runs outcome ends t u \<Longrightarrow> runs outcome ends s u"
  unfolding runs_def by (rule converse_rtranclp_into_rtranclp)

text \<open>Without other callers \<open>cache_get\<close> is a run of the concurrent cache.\<close>

lemma cache_get_runs:
  assumes "cc_flights cc = Map.empty" "cache_get key scanned cc = (r, cc')" "outcome key (scanned_as scanned)"
  shows "\<exists>s. runs outcome ends (start cc [key]) s \<and> cache s = cc' \<and> callers s = [Returned key (scanned_as r)]"
proof (cases "enter_locked key 0 cc")
  case (Pair a c')
  let ?s = "start cc [key]"
  let ?s1 = "?s\<lparr>cache := c', fresh := Suc 0, callers := [at_enter key 0 a]\<rparr>"
  have enter: "cache_step outcome ends ?s ?s1"
    using cache_step.enter[of 0 ?s key a c' outcome ends] Pair by (simp add: start_def)
  from Pair show ?thesis
  proof (cases rule: enter_cases)
    case (1 corpus)
    with assms(2) Pair enter show ?thesis
      by (intro exI[of _ ?s1])
        (auto simp: cache_get_def at_enter_def scanned_as_def runs_def)
  next
    case 2
    let ?x = "scanned_as scanned"
    let ?s2 = "?s1\<lparr>callers := [Releasing key 0 ?x]\<rparr>"
    let ?s3 = "?s2\<lparr>cache := release_locked key ?x c', callers := [Closing key 0 ?x]\<rparr>"
    let ?s4 = "?s3\<lparr>closed := {0}, callers := [Returned key ?x]\<rparr>"
    have steps: "cache_step outcome ends ?s1 ?s2" "cache_step outcome ends ?s2 ?s3"
      "cache_step outcome ends ?s3 ?s4"
      using cache_step.scan[of 0 ?s1 key 0 outcome ?x ends] cache_step.release[of 0 ?s2 key 0 ?x outcome ends]
        cache_step.close[of 0 ?s3 key 0 ?x outcome ends] assms(3) 2(1)
      by (simp_all add: at_enter_def start_def)
    have "runs outcome ends ?s ?s4"
      by (rule runs_step[OF enter], rule runs_step[OF steps(1)], rule runs_step[OF steps(2)],
          rule runs_step[OF steps(3)], rule runs_refl)
    with 2 assms(2) Pair show ?thesis
      by (intro exI[of _ ?s4]) (auto simp: cache_get_def scanned_as_def[abs_def])
  next
    case (3 g)
    with assms(1) show ?thesis by simp
  qed
qed

section \<open>What a projection answers\<close>

text \<open>The answer for one candidate on its own, over a corpus scanned for it.\<close>

definition branch_corpus :: "git \<Rightarrow> decoders \<Rightarrow> string \<Rightarrow> branch \<Rightarrow> scan_error + corpus" where
  "branch_corpus g d root b = fst (successors g d root b (Some (new_corpus_cache corpusCacheLimit)))"

definition project :: "git \<Rightarrow> decoders \<Rightarrow> string \<Rightarrow> branch \<Rightarrow> candidate \<Rightarrow> state_error + state_result" where
  "project g d root b ca =
     (case locate g root b ca of
        Inl e \<Rightarrow> Inl e
      | Inr (Decided r) \<Rightarrow> Inr r
      | Inr (Active name bl) \<Rightarrow>
          (case branch_corpus g d root b of
             Inl e \<Rightarrow> Inl (ScanFailed e)
           | Inr c \<Rightarrow> Inr (active_verdict c d ca name bl)))"

lemma scan_outcome:
  assumes "listing_law g root"
  shows "corpus_outcome g d (root, cm)
     (case scan_successors g d root cm pinned of Inl e \<Rightarrow> ScanErr e | Inr x \<Rightarrow> ScanOk x)"
  using pinned_scan_plain[OF assms, of d cm]
  by (cases pinned) (auto simp: corpus_outcome_def split: sum.splits)

lemma successors_trusted:
  assumes "listing_law g root" "trusted g d cc"
  shows "\<exists>cc'. successors g d root b (Some cc) = (branch_corpus g d root b, Some cc') \<and> trusted g d cc'"
proof (cases "corpus_commit g root b")
  case None
  with assms(2) show ?thesis by (auto simp: successors_def branch_corpus_def)
next
  case (Some cm)
  let ?scan = "scan_successors g d root cm (br_commit b \<noteq> '''')"
  obtain r cc' where get: "cache_get (root, cm) ?scan cc = (r, cc')" by fastforce
  obtain q cc'' where new: "cache_get (root, cm) ?scan (new_corpus_cache corpusCacheLimit) = (q, cc'')"
    by fastforce
  have plain: "scan_successors g d root cm False = ?scan"
    using pinned_scan_plain[OF assms(1), of d cm] by (cases "br_commit b \<noteq> ''''") auto
  have same: "t = ?scan" if "trusted g d cx" "cache_get (root, cm) ?scan cx = (t, cy)" for t cx cy
    using cache_get_sound[OF that scan_outcome[OF assms(1)]] plain by (auto simp: corpus_outcome_def)
  have "r = ?scan" "q = ?scan" using same[OF assms(2) get] same[OF quiet_new new] .
  moreover have "trusted g d cc'"
    using cache_get_sound[OF assms(2) get scan_outcome[OF assms(1)]] by simp
  ultimately show ?thesis
    using Some get new
    by (auto simp: successors_def branch_corpus_def Let_def split: sum.splits)
qed

fun collect :: "('e + 'a) list \<Rightarrow> 'e + 'a list" where
  "collect [] = Inr []"
| "collect (r # rs) =
     (case r of Inl e \<Rightarrow> Inl e
      | Inr x \<Rightarrow> (case collect rs of Inl e \<Rightarrow> Inl e | Inr xs \<Rightarrow> Inr (x # xs)))"

lemma collect_map_Inr [simp]: "collect (map Inr xs) = Inr xs"
  by (induction xs) auto

lemma collect_InrD: "collect rs = Inr xs \<Longrightarrow> rs = map Inr xs"
  by (induction rs arbitrary: xs) (auto split: sum.splits)

lemma collect_Inr: "collect rs = Inr xs \<longleftrightarrow> rs = map Inr xs"
  using collect_InrD by fastforce

definition memo_ok :: "git \<Rightarrow> decoders \<Rightarrow> string \<Rightarrow> branch \<Rightarrow> corpus option \<times> corpora option \<Rightarrow> bool" where
  "memo_ok g d root b st \<longleftrightarrow>
     (\<forall>c. fst st = Some c \<longrightarrow> branch_corpus g d root b = Inr c)
     \<and> (\<exists>cc. snd st = Some cc \<and> trusted g d cc)"

lemma get_corpus_memo:
  assumes "listing_law g root" "memo_ok g d root b st"
  shows "\<exists>st'. get_corpus g d root b st = (branch_corpus g d root b, st') \<and> memo_ok g d root b st'"
proof -
  obtain m cch where st: "st = (m, cch)" by (cases st)
  from assms(2) obtain cc where cc: "cch = Some cc" "trusted g d cc" by (auto simp: st memo_ok_def)
  from successors_trusted[OF assms(1) cc(2), of b] obtain cc' where
    "successors g d root b (Some cc) = (branch_corpus g d root b, Some cc')" "trusted g d cc'" by blast
  with st cc assms(2) show ?thesis
    by (cases m) (auto simp: get_corpus_def memo_ok_def split: sum.splits)
qed

lemma resolve_one_memo:
  assumes "listing_law g root" "memo_ok g d root b st"
  shows "\<exists>st'. resolve_one g d root b ca st = (project g d root b ca, st') \<and> memo_ok g d root b st'"
proof -
  obtain st' where "get_corpus g d root b st = (branch_corpus g d root b, st')" "memo_ok g d root b st'"
    using get_corpus_memo[OF assms] by blast
  with assms(2) show ?thesis
    by (auto simp: resolve_one_def project_def simp del: split_paired_Ex split: sum.splits located.splits)
qed

lemma resolve_loop_memo:
  assumes "listing_law g root"
  shows "memo_ok g d root b st \<Longrightarrow>
    \<exists>cc. resolve_loop g d root b cas st = (collect (map (project g d root b) cas), Some cc) \<and> trusted g d cc"
proof (induction cas arbitrary: st)
  case Nil
  then show ?case by (auto simp: memo_ok_def)
next
  case (Cons ca cas)
  obtain st' where one: "resolve_one g d root b ca st = (project g d root b ca, st')"
    and m: "memo_ok g d root b st'"
    using resolve_one_memo[OF assms Cons.prems] by blast
  obtain cc where "resolve_loop g d root b cas st' = (collect (map (project g d root b) cas), Some cc)"
    "trusted g d cc"
    using Cons.IH[OF m] by blast
  with one m show ?case by (auto simp: memo_ok_def split: sum.splits)
qed

lemma resolve_many_exact:
  assumes "listing_law g root" "trusted g d cc"
  shows "\<exists>cc'. resolve_many g d root (Some b) cas (Some cc) = (collect (map (project g d root b) cas), Some cc')
             \<and> trusted g d cc'"
  using resolve_loop_memo[OF assms(1), of d b "(None, Some cc)" cas] assms(2)
  by (simp add: resolve_many_def memo_ok_def)

lemma resolve_exact:
  assumes "listing_law g root" "trusted g d cc"
  shows "fst (resolve g d root (Some b) ca (Some cc)) = project g d root b ca"
  using resolve_many_exact[OF assms, of b "[ca]"]
  by (auto simp: resolve_def split: sum.splits)

text \<open>The corpus a projection used is the scan of the branch's commit or, unpinned, of its ref.\<close>

definition corpus_rev :: "git \<Rightarrow> string \<Rightarrow> branch \<Rightarrow> string \<Rightarrow> bool" where
  "corpus_rev g root b rv \<longleftrightarrow>
     corpus_commit g root b = Some rv \<or> (br_commit b = '''' \<and> rv = br_ref b)"

lemma branch_corpus_scan:
  assumes "listing_law g root" "branch_corpus g d root b = Inr c"
  shows "\<exists>rv. corpus_rev g root b rv \<and> scan_successors g d root rv False = Inr c"
proof (cases "corpus_commit g root b")
  case None
  then have "br_commit b = ''''" by (auto simp: corpus_commit_def split: if_splits)
  with None assms(2) show ?thesis
    by (auto simp: branch_corpus_def successors_def corpus_rev_def)
next
  case (Some cm)
  have plain: "scan_successors g d root cm (br_commit b \<noteq> '''') = scan_successors g d root cm False"
    using pinned_scan_plain[OF assms(1), of d cm] by (cases "br_commit b \<noteq> ''''") auto
  obtain q cc where new: "cache_get (root, cm) (scan_successors g d root cm (br_commit b \<noteq> ''''))
      (new_corpus_cache corpusCacheLimit) = (q, cc)" by fastforce
  have "trusted g d (new_corpus_cache corpusCacheLimit)" by (rule quiet_new)
  from cache_get_sound[OF this new scan_outcome[OF assms(1)]]
  have "q = scan_successors g d root cm False"
    using plain
    by (auto simp: corpus_outcome_def)
  with Some new assms(2) show ?thesis
    by (auto simp: branch_corpus_def successors_def corpus_rev_def Let_def split: sum.splits if_splits)
qed

lemma project_active:
  assumes "project g d root b ca = Inr r" "rs_state r \<in> {Superseded, AcceptedPendingBuild}"
  obtains name bl c where "locate g root b ca = Inr (Active name bl)" "branch_corpus g d root b = Inr c"
    "r = active_verdict c d ca name bl"
  using assms
  by (auto simp: project_def split: sum.splits located.splits dest: locate_Decided)

section \<open>Reads at a pinned commit\<close>

definition agree_at :: "git \<Rightarrow> git \<Rightarrow> string \<Rightarrow> string \<Rightarrow> bool" where
  "agree_at g g' root rv \<longleftrightarrow>
     g_prefix g root = g_prefix g' root \<and> g_entries g root rv = g_entries g' root rv
     \<and> (\<forall>p. g_show g root rv p = g_show g' root rv p \<and> g_blob g root rv p = g_blob g' root rv p
          \<and> g_ls_tree g root rv p = g_ls_tree g' root rv p
          \<and> (\<forall>oid. g_landing g root rv p oid = g_landing g' root rv p oid))"

lemma scan_specs_agree: "agree_at g g' root rv \<Longrightarrow> scan_specs g d root rv ps c = scan_specs g' d root rv ps c"
  by (induction ps arbitrary: c) (auto simp: agree_at_def split: sum.splits)

lemma scan_conflicts_agree:
  "agree_at g g' root rv \<Longrightarrow> scan_conflicts g d root rv cps c = scan_conflicts g' d root rv cps c"
  by (induction cps arbitrary: c) (auto simp: agree_at_def split: sum.splits)

lemma scan_successors_agree:
  assumes "agree_at g g' root rv"
  shows "scan_successors g d root rv pinned = scan_successors g' d root rv pinned"
proof -
  have "store_tree_paths g root rv = store_tree_paths g' root rv"
    and "g_ls_tree g root rv = g_ls_tree g' root rv"
    using assms by (auto simp: store_tree_paths_def agree_at_def)
  then show ?thesis
    by (simp add: scan_successors_def scan_specs_agree[OF assms] scan_conflicts_agree[OF assms, abs_def]
        cong: option.case_cong sum.case_cong)
qed

lemma successors_agree:
  assumes "br_commit b \<noteq> ''''" "agree_at g g' root (br_commit b)"
    "successors g d root b (Some cc) = (Inr c, cch)"
  shows "successors g' d root b (Some cc) = (Inr c, cch)"
  using assms(1,3) scan_successors_agree[OF assms(2), of d True]
  by (auto simp: successors_def corpus_commit_def Let_def split: prod.splits sum.splits)

lemma locate_agree:
  assumes "br_commit b \<noteq> ''''" "agree_at g g' root (br_commit b)" "locate g root b ca = Inr l"
  shows "locate g' root b ca = Inr l"
proof -
  have rv: "branch_rev b = br_commit b" using assms(1) by (simp add: branch_rev_def)
  have blob: "at_ref b (\<lambda>rv. g_blob g root rv p) = Inr v \<Longrightarrow> at_ref b (\<lambda>rv. g_blob g' root rv p) = Inr v" for p v
    using assms(2) rv by (simp add: at_ref_Inr agree_at_def)
  have show': "at_ref b (\<lambda>rv. g_show g root rv p) = Inr v \<Longrightarrow> at_ref b (\<lambda>rv. g_show g' root rv p) = Inr v" for p v
    using assms(2) rv by (simp add: at_ref_Inr agree_at_def)
  have landing: "at_ref b (\<lambda>rv. g_landing g root rv p oid) = Inr v \<Longrightarrow>
      at_ref b (\<lambda>rv. g_landing g' root rv p oid) = Inr v" for p oid v
    using assms(2) rv by (simp add: at_ref_Inr agree_at_def)
  from assms(3) show ?thesis
    by (auto simp: locate_def Let_def blob show' landing
        split: option.splits prod.splits sum.splits if_splits)
qed

lemma resolve_loop_agree:
  assumes "br_commit b \<noteq> ''''" "agree_at g g' root (br_commit b)"
  shows "resolve_loop g d root b cas (m, Some cc) = (Inr rs, cch) \<Longrightarrow>
    resolve_loop g' d root b cas (m, Some cc) = (Inr rs, cch)"
proof (induction cas arbitrary: m cc rs)
  case (Cons ca cas)
  from Cons.prems obtain r m' cch' where one: "resolve_one g d root b ca (m, Some cc) = (Inr r, m', cch')"
    by (auto split: prod.splits sum.splits)
  have "\<exists>cc'. cch' = Some cc'"
    using one by (auto simp: resolve_one_def get_corpus_def successors_def Let_def
        split: sum.splits located.splits option.splits prod.splits if_splits)
  then obtain cc' where cc': "cch' = Some cc'" by blast
  have "resolve_one g' d root b ca (m, Some cc) = (Inr r, m', Some cc')"
    using one[unfolded cc']
    by (auto simp: resolve_one_def get_corpus_def locate_agree[OF assms] successors_agree[OF assms]
        split: sum.splits located.splits option.splits prod.splits)
  with Cons one cc' show ?case by (auto split: prod.splits sum.splits)
qed simp

section \<open>The lifecycle states\<close>

definition spec_on_branch ::
  "git \<Rightarrow> decoders \<Rightarrow> string \<Rightarrow> string \<Rightarrow> string \<Rightarrow> spec \<Rightarrow> bool" where
  "spec_on_branch g d root rv p sp \<longleftrightarrow>
     (\<exists>specs. g_ls_tree g root rv specZonesPrefix = Inr specs \<and> p \<in> set specs) \<and> spec_at g d root rv p sp"

definition conflict_on_branch ::
  "git \<Rightarrow> decoders \<Rightarrow> string \<Rightarrow> string \<Rightarrow> string \<Rightarrow> conflict \<Rightarrow> bool" where
  "conflict_on_branch g d root rv cp fm \<longleftrightarrow>
     (\<exists>cps. g_ls_tree g root rv conflictsDir = Inr cps \<and> cp \<in> set cps) \<and> conflict_at g d root rv cp fm"

definition landed :: "git \<Rightarrow> string \<Rightarrow> branch \<Rightarrow> candidate \<Rightarrow> bool" where
  "landed g root b ca \<longleftrightarrow>
     g_show g root (branch_rev b) (ca_path ca) = Inr (ca_content ca)
     \<and> (\<exists>oid landing. g_blob g root (branch_rev b) (ca_path ca) = Inr (Some oid)
          \<and> g_landing g root (branch_rev b) (ca_path ca) oid = Inr (Some landing))"

lemma locate_landed:
  "locate g root b ca = Inr (Active name bl) \<Longrightarrow>
     parse_candidate_path (ca_path ca) = Some (ZoneActive, name) \<and> landed g root b ca"
  unfolding landed_def by (metis locate_Active)

lemma resolve_many_nth:
  assumes "listing_law g root" "trusted g d cc"
    "resolve_many g d root (Some b) cas (Some cc) = (Inr rs, cch)" "i < length rs"
  shows "length rs = length cas \<and> project g d root b (cas ! i) = Inr (rs ! i)"
proof -
  have "collect (map (project g d root b) cas) = Inr rs"
    using resolve_many_exact[OF assms(1,2), of b cas] assms(3) by auto
  then have eq: "map (project g d root b) cas = map Inr rs" by (rule collect_InrD)
  then have "length rs = length cas" using map_eq_imp_length_eq by fastforce
  with arg_cong[OF eq, of "\<lambda>xs. xs ! i"] assms(4) show ?thesis by simp
qed

text \<open>What proves that another spec at revision \<open>rv\<close> replaced the spec \<open>name\<close> at \<open>path\<close>.\<close>

definition proven_successor :: "git \<Rightarrow> decoders \<Rightarrow> string \<Rightarrow> string \<Rightarrow> string \<Rightarrow> string \<Rightarrow> bool" where
  "proven_successor g d root rv path name \<longleftrightarrow>
     (\<exists>p sp. spec_on_branch g d root rv p sp \<and> p \<noteq> path \<and> names_spec sp name
        \<and> (s_supersession sp \<noteq> None
           \<or> is_rung3_story sp
             \<and> (\<exists>cp fm. conflict_on_branch g d root rv cp fm \<and> c_status fm = ''superseded''
                  \<and> challenges_spec fm name)))"

lemma block_successor:
  assumes "scan_successors g d root rv False = Inr c" "p \<in> set (supersessors_for c path name)"
  shows "\<exists>sp. spec_on_branch g d root rv p sp \<and> p \<noteq> path \<and> names_spec sp name \<and> s_supersession sp \<noteq> None"
  using assms(1)
proof (rule scan_successors_records)
  fix specs conflicts
  assume "listings g root rv specs conflicts"
    and "\<And>n p. (n, p) \<in> set (cp_supersedes c) \<longleftrightarrow>
          p \<in> set specs \<and> (\<exists>sp. spec_at g d root rv p sp \<and> s_supersession sp \<noteq> None \<and> names_spec sp n)"
  with assms(2) show ?thesis
    by (auto simp: supersessors_for_def set_paths_of listings_def spec_on_branch_def)
qed

lemma link_successor:
  assumes "scan_successors g d root rv False = Inr c" "p \<in> set (link_only_supersessors_for c path name)"
  shows "\<exists>sp. spec_on_branch g d root rv p sp \<and> p \<noteq> path \<and> names_spec sp name \<and> s_supersession sp = None
           \<and> (p \<in> set (cp_stories c) \<longleftrightarrow> is_rung3_story sp)"
  using assms(1)
proof (rule scan_successors_records)
  fix specs conflicts
  assume l: "listings g root rv specs conflicts"
    and lnk: "\<And>n p. (n, p) \<in> set (cp_link_only c) \<longleftrightarrow>
          p \<in> set specs \<and> (\<exists>sp. spec_at g d root rv p sp \<and> s_supersession sp = None \<and> names_spec sp n)"
    and str: "\<And>p. p \<in> set (cp_stories c) \<longleftrightarrow>
          p \<in> set specs \<and> (\<exists>sp. spec_at g d root rv p sp \<and> is_rung3_story sp)"
  from assms(2) lnk obtain sp where sp: "p \<in> set specs" "spec_at g d root rv p sp" "p \<noteq> path"
    "s_supersession sp = None" "names_spec sp name"
    by (auto simp: link_only_supersessors_for_def set_paths_of)
  moreover have "p \<in> set (cp_stories c) \<longleftrightarrow> is_rung3_story sp"
    using sp(1,2) str by (auto simp: spec_at_def)
  ultimately show ?thesis using l by (auto simp: listings_def spec_on_branch_def)
qed

lemma resolved_conflict:
  assumes "scan_successors g d root rv False = Inr c"
  shows "cp \<in> set (paths_of (cp_resolved c) name) \<longleftrightarrow>
     (\<exists>fm. conflict_on_branch g d root rv cp fm \<and> c_status fm = ''superseded'' \<and> challenges_spec fm name)"
  using assms
proof (rule scan_successors_records)
  fix specs conflicts
  assume l: "listings g root rv specs conflicts"
    and res: "\<And>n cp. (n, cp) \<in> set (cp_resolved c) \<longleftrightarrow>
          cp \<in> set conflicts \<and> (\<exists>fm. conflict_at g d root rv cp fm \<and> c_status fm = ''superseded''
            \<and> challenges_spec fm n)"
  show ?thesis
    unfolding set_paths_of res conflict_on_branch_def using l by (auto simp: listings_def)
qed

text \<open>A store whose feature pay replaces old-pay, pinned at a commit.\<close>

definition sample_paths :: "string list" where
  "sample_paths = [''.verdi/specs/active/old-pay/spec.md'', ''.verdi/specs/active/pay/spec.md'']"

definition spec_text :: "string \<Rightarrow> string" where
  "spec_text fm = ''---'' @ [newline] @ fm @ [newline] @ ''---'' @ [newline]"

definition sample_git :: git where
  "sample_git =
     \<lparr>g_show = (\<lambda>root rv p.
        if p = sample_paths ! 0 then Inr (spec_text ''old'')
        else if p = sample_paths ! 1 then Inr (spec_text ''new'') else Inl ''no such path''),
      g_blob = (\<lambda>root rv p. Inr (if p \<in> set sample_paths then Some p else None)),
      g_landing = (\<lambda>root rv p oid. Inr (Some ''c1'')),
      g_ls_tree = (\<lambda>root rv dir. Inr (filter (\<lambda>p. under p dir) sample_paths)),
      g_entries = (\<lambda>root rv. Inr sample_paths), g_prefix = (\<lambda>root. Inr ''''),
      g_rev_parse = (\<lambda>root rv. Inr (replicate 40 CHR ''a''))\<rparr>"

definition sample_decoders :: decoders where
  "sample_decoders =
     \<lparr>dk_spec = (\<lambda>fm. Inr (if has_prefix fm ''new'' then sample_feature
        else sample_feature\<lparr>s_base := sample_base KindSpec ''spec/old-pay'' [], s_supersession := None\<rparr>)),
      dk_conflict = (\<lambda>fm. Inl ''no conflicts''), dk_text = (\<lambda>e. '''')\<rparr>"

definition sample_branch :: branch where
  "sample_branch = \<lparr>br_name = ''main'', br_ref = ''origin/main'', br_tip = replicate 40 CHR ''a'',
     br_commit = replicate 40 CHR ''a''\<rparr>"

definition sample_candidates :: "candidate list" where
  "sample_candidates =
     [\<lparr>ca_path = sample_paths ! 0, ca_content = spec_text ''old''\<rparr>,
      \<lparr>ca_path = sample_paths ! 1, ca_content = spec_text ''new''\<rparr>]"

abbreviation sample_resolution :: "(state_error + state_result list) \<times> corpora option" where
  "sample_resolution \<equiv> resolve_many sample_git sample_decoders '''' (Some sample_branch) sample_candidates
     (Some (new_corpus_cache corpusCacheLimit))"

lemma sample_listing: "listing_law sample_git ''''"
  by (simp add: listing_law_def sample_git_def)

lemma sample_states:
  "(case fst sample_resolution of Inl e \<Rightarrow> [] | Inr rs \<Rightarrow> map rs_state rs) = [Superseded, AcceptedPendingBuild]"
  by code_simp

lemma sample_result:
  obtains rs cch where "sample_resolution = (Inr rs, cch)" "length rs = 2"
    "rs_state (rs ! 0) = Superseded" "rs_state (rs ! 1) = AcceptedPendingBuild"
proof -
  obtain q cch where q: "sample_resolution = (q, cch)" by (cases sample_resolution)
  then obtain rs where rs: "q = Inr rs" using sample_states by (cases q) auto
  with q sample_states have st: "map rs_state rs = [Superseded, AcceptedPendingBuild]" by simp
  then have "length rs = 2" by (metis length_map length_Cons list.size(3) numeral_2_eq_2)
  moreover have "rs_state (rs ! 0) = Superseded" "rs_state (rs ! 1) = AcceptedPendingBuild"
    using st by (auto simp: map_eq_Cons_conv Cons_eq_map_conv)
  ultimately show ?thesis using that q rs by blast
qed

text \<open>C4. Superseded is never inferred from one signal: a spec reported superseded is
  landed byte for byte in the active zone, and either its own frontmatter says so, or
  another spec of the default branch names it as a whole-spec predecessor and carries
  a supersession block, or a story there names it and a conflict record with status
  superseded challenges the whole spec.\<close>

theorem superseded_proven:
  assumes "listing_law g root" "trusted g d cc"
    "resolve_many g d root (Some b) cas (Some cc) = (Inr rs, cch)"
    "i < length rs" "rs_state (rs ! i) = Superseded"
  shows "\<exists>name. parse_candidate_path (ca_path (cas ! i)) = Some (ZoneActive, name)
       \<and> landed g root b (cas ! i)
       \<and> (probe_legacy_status d (ca_content (cas ! i)) = ''superseded''
          \<or> (\<exists>rv. corpus_rev g root b rv \<and> proven_successor g d root rv (ca_path (cas ! i)) name))"
proof -
  let ?ca = "cas ! i"
  have "project g d root b ?ca = Inr (rs ! i)" using resolve_many_nth[OF assms(1-4)] by simp
  then obtain name bl c where loc: "locate g root b ?ca = Inr (Active name bl)"
    and c: "branch_corpus g d root b = Inr c" and v: "rs ! i = active_verdict c d ?ca name bl"
    using assms(5) by (rule_tac project_active) auto
  obtain rv where rv: "corpus_rev g root b rv" and scan: "scan_successors g d root rv False = Inr c"
    using branch_corpus_scan[OF assms(1) c] by blast
  have ex: "\<And>xs :: string list. xs \<noteq> [] \<Longrightarrow> \<exists>x. x \<in> set xs" by (auto simp: neq_Nil_conv)
  have "rs_state (active_verdict c d ?ca name bl) = Superseded" using v assms(5) by simp
  from active_verdict_Superseded[OF this]
  have "probe_legacy_status d (ca_content ?ca) = ''superseded''
      \<or> proven_successor g d root rv (ca_path ?ca) name"
  proof (elim disjE conjE)
    assume "supersessors_for c (ca_path ?ca) name \<noteq> []"
    then obtain p where "p \<in> set (supersessors_for c (ca_path ?ca) name)" using ex by blast
    from block_successor[OF scan this] show ?thesis unfolding proven_successor_def by blast
  next
    assume "\<exists>p \<in> set (link_only_supersessors_for c (ca_path ?ca) name). p \<in> set (cp_stories c)"
    then obtain p where p: "p \<in> set (link_only_supersessors_for c (ca_path ?ca) name)"
      and story: "p \<in> set (cp_stories c)" by blast
    assume "paths_of (cp_resolved c) name \<noteq> []"
    then obtain cp where "cp \<in> set (paths_of (cp_resolved c) name)" using ex by blast
    then show ?thesis
      using link_successor[OF scan p] story resolved_conflict[OF scan]
      unfolding proven_successor_def by blast
  qed simp
  with locate_landed[OF loc] rv show ?thesis by blast
qed

theorem superseded_proven_witness:
  "\<exists>name. parse_candidate_path (ca_path (sample_candidates ! 0)) = Some (ZoneActive, name)
     \<and> landed sample_git '''' sample_branch (sample_candidates ! 0)
     \<and> (probe_legacy_status sample_decoders (ca_content (sample_candidates ! 0)) = ''superseded''
        \<or> (\<exists>rv. corpus_rev sample_git '''' sample_branch rv
             \<and> proven_successor sample_git sample_decoders '''' rv (ca_path (sample_candidates ! 0)) name))"
proof (rule sample_result)
  fix rs cch
  assume r: "sample_resolution = (Inr rs, cch)" "length rs = 2" "rs_state (rs ! 0) = Superseded"
  have "0 < length rs" using r(2) by simp
  from superseded_proven[OF sample_listing quiet_new r(1) this r(3)] show ?thesis .
qed

text \<open>C6. Accepted-pending-build is never a default for missing knowledge: a spec reported
  so is landed byte for byte in the active zone, decodes with no terminal status, every
  other spec of the default branch was read and decodes, none of them names it as a
  whole-spec predecessor in any form, and for a story every conflict record was read
  and none that is superseded challenges the whole spec.\<close>

theorem accepted_unchallenged:
  assumes "listing_law g root" "trusted g d cc"
    "resolve_many g d root (Some b) cas (Some cc) = (Inr rs, cch)"
    "i < length rs" "rs_state (rs ! i) = AcceptedPendingBuild"
  shows "\<exists>name rv specs conflicts. parse_candidate_path (ca_path (cas ! i)) = Some (ZoneActive, name)
       \<and> landed g root b (cas ! i)
       \<and> probe_legacy_status d (ca_content (cas ! i)) \<notin> {''superseded'', ''closed''}
       \<and> corpus_rev g root b rv \<and> listings g root rv specs conflicts
       \<and> (\<forall>p \<in> set specs. spec_leaf p \<longrightarrow> (\<exists>sp. spec_at g d root rv p sp
             \<and> (p \<noteq> ca_path (cas ! i) \<longrightarrow> \<not> names_spec sp name)))
       \<and> ((\<exists>sp. probe_spec d (ca_content (cas ! i)) = Some sp \<and> is_rung3_story sp) \<longrightarrow>
            (\<forall>cp \<in> set conflicts. \<not> conflict_unread g d root rv cp
               \<and> (\<forall>fm. conflict_at g d root rv cp fm \<longrightarrow> c_status fm = ''superseded'' \<longrightarrow>
                    \<not> challenges_spec fm name)))"
proof -
  let ?ca = "cas ! i"
  have "project g d root b ?ca = Inr (rs ! i)" using resolve_many_nth[OF assms(1-4)] by simp
  then obtain name bl c where loc: "locate g root b ?ca = Inr (Active name bl)"
    and c: "branch_corpus g d root b = Inr c" and v: "rs ! i = active_verdict c d ?ca name bl"
    using assms(5) by (rule_tac project_active) auto
  obtain rv where rv: "corpus_rev g root b rv" and scan: "scan_successors g d root rv False = Inr c"
    using branch_corpus_scan[OF assms(1) c] by blast
  note acc = active_verdict_Accepted[of c d ?ca name bl, folded v, OF assms(5)]
  from scan show ?thesis
  proof (rule scan_successors_records)
    fix specs conflicts
    assume l: "listings g root rv specs conflicts"
      and sup: "\<And>n p. (n, p) \<in> set (cp_supersedes c) \<longleftrightarrow>
          p \<in> set specs \<and> (\<exists>sp. spec_at g d root rv p sp \<and> s_supersession sp \<noteq> None \<and> names_spec sp n)"
      and lnk: "\<And>n p. (n, p) \<in> set (cp_link_only c) \<longleftrightarrow>
          p \<in> set specs \<and> (\<exists>sp. spec_at g d root rv p sp \<and> s_supersession sp = None \<and> names_spec sp n)"
      and fls: "\<And>p. p \<in> fst ` set (cp_failures c) \<longleftrightarrow> p \<in> set specs \<and> spec_undecoded g d root rv p"
      and res: "\<And>n cp. (n, cp) \<in> set (cp_resolved c) \<longleftrightarrow>
          cp \<in> set conflicts \<and> (\<exists>fm. conflict_at g d root rv cp fm \<and> c_status fm = ''superseded''
            \<and> challenges_spec fm n)"
      and cfl: "\<And>cp. cp \<in> fst ` set (cp_conflict_failures c) \<longleftrightarrow>
          cp \<in> set conflicts \<and> conflict_unread g d root rv cp"
      and reads: "\<And>p. p \<in> set specs \<Longrightarrow> spec_leaf p \<Longrightarrow>
          (\<exists>sp. spec_at g d root rv p sp) \<or> spec_undecoded g d root rv p"
    have clean: "p \<notin> fst ` set (cp_failures c)" for p
      using acc by (auto simp: failures_excluding_def filter_empty_conv)
    have unnamed: "(name, p) \<notin> set (cp_supersedes c) \<and> (name, p) \<notin> set (cp_link_only c)"
      if "p \<noteq> ca_path ?ca" for p
      using acc that set_paths_of[of p _ name]
      by (fastforce simp: supersessors_for_def link_only_supersessors_for_def filter_empty_conv)
    have "\<exists>sp. spec_at g d root rv p sp \<and> (p \<noteq> ca_path ?ca \<longrightarrow> \<not> names_spec sp name)"
      if p: "p \<in> set specs" and leaf: "spec_leaf p" for p
    proof -
      obtain sp where sp: "spec_at g d root rv p sp" using reads[OF p leaf] fls[of p] clean[of p] p by blast
      with unnamed[of p] sup[of name p] lnk[of name p] p have "p \<noteq> ca_path ?ca \<longrightarrow> \<not> names_spec sp name" by blast
      with sp show ?thesis by blast
    qed
    moreover have "\<not> conflict_unread g d root rv cp
        \<and> (\<forall>fm. conflict_at g d root rv cp fm \<longrightarrow> c_status fm = ''superseded'' \<longrightarrow> \<not> challenges_spec fm name)"
      if "\<exists>sp. probe_spec d (ca_content ?ca) = Some sp \<and> is_rung3_story sp" "cp \<in> set conflicts" for cp
      using acc that cfl[of cp] res[of name cp] set_paths_of[of cp "cp_resolved c" name] by auto
    ultimately show ?thesis using locate_landed[OF loc] acc rv l by blast
  qed
qed

theorem accepted_unchallenged_witness:
  "\<exists>name rv specs conflicts. parse_candidate_path (ca_path (sample_candidates ! 1)) = Some (ZoneActive, name)
     \<and> landed sample_git '''' sample_branch (sample_candidates ! 1)
     \<and> corpus_rev sample_git '''' sample_branch rv \<and> listings sample_git '''' rv specs conflicts"
proof (rule sample_result)
  fix rs cch
  assume r: "sample_resolution = (Inr rs, cch)" "length rs = 2" "rs_state (rs ! 1) = AcceptedPendingBuild"
  have "1 < length rs" using r(2) by simp
  from accepted_unchallenged[OF sample_listing quiet_new r(1) this r(3)] show ?thesis by blast
qed

text \<open>C30. Batches and the cache change nothing: the results of a batch are those of
  resolving every candidate alone, whatever sound cache each call runs on.\<close>

theorem resolve_many_batch_free:
  assumes "listing_law g root" "trusted g d cc" "\<forall>i < length cas. trusted g d (ccs i)"
  shows "fst (resolve_many g d root (Some b) cas (Some cc)) = Inr rs \<longleftrightarrow>
       length rs = length cas
       \<and> (\<forall>i < length cas. fst (resolve g d root (Some b) (cas ! i) (Some (ccs i))) = Inr (rs ! i))"
proof -
  have "fst (resolve_many g d root (Some b) cas (Some cc)) = collect (map (project g d root b) cas)"
    using resolve_many_exact[OF assms(1,2), of b cas] by auto
  moreover have "fst (resolve g d root (Some b) (cas ! i) (Some (ccs i))) = project g d root b (cas ! i)"
    if "i < length cas" for i
    using resolve_exact[OF assms(1)] assms(3) that by blast
  moreover have "map (project g d root b) cas = map Inr rs \<longleftrightarrow>
      length rs = length cas \<and> (\<forall>i < length cas. project g d root b (cas ! i) = Inr (rs ! i))"
    by (auto simp: list_eq_iff_nth_eq)
  ultimately show ?thesis by (simp add: collect_Inr)
qed

theorem resolve_many_batch_free_witness:
  "\<exists>r. fst (resolve sample_git sample_decoders '''' (Some sample_branch) (sample_candidates ! 0)
         (Some (new_corpus_cache 1))) = Inr r \<and> rs_state r = Superseded"
proof (rule sample_result)
  fix rs cch
  assume r: "sample_resolution = (Inr rs, cch)" "rs_state (rs ! 0) = Superseded"
  have caches: "\<forall>i < length sample_candidates. trusted sample_git sample_decoders (new_corpus_cache 1)"
    by (simp add: quiet_new)
  have "fst sample_resolution = Inr rs" using r(1) by simp
  from this[unfolded resolve_many_batch_free[OF sample_listing quiet_new caches]] r(2)
  show ?thesis by (auto simp: sample_candidates_def)
qed

text \<open>C31. A pinned projection reads one commit: when the request pinned its accepted head,
  an answer depends only on what Git says of that commit, so a branch that moves while
  the projection runs can turn an answer into an error but never into another answer.\<close>

theorem pinned_projection_ignores_ref:
  assumes "br_commit b \<noteq> ''''" "agree_at g g' root (br_commit b)"
    "resolve_many g d root (Some b) cas (Some cc) = (Inr rs, cch)"
  shows "resolve_many g' d root (Some b) cas (Some cc) = (Inr rs, cch)"
  using resolve_loop_agree[OF assms(1,2)] assms(3) by (simp add: resolve_many_def)

theorem pinned_projection_ignores_ref_witness:
  "\<exists>rs cch. resolve_many
       (sample_git\<lparr>g_show := (\<lambda>root rv p. if rv = br_ref sample_branch then Inl ''the ref has moved''
          else g_show sample_git root rv p)\<rparr>)
       sample_decoders '''' (Some sample_branch) sample_candidates (Some (new_corpus_cache corpusCacheLimit))
       = (Inr rs, cch) \<and> rs_state (rs ! 0) = Superseded"
proof (rule sample_result)
  fix rs cch
  assume r: "sample_resolution = (Inr rs, cch)" "rs_state (rs ! 0) = Superseded"
  have "br_commit sample_branch \<noteq> ''''" by (simp add: sample_branch_def)
  moreover have "agree_at sample_git
      (sample_git\<lparr>g_show := (\<lambda>root rv p. if rv = br_ref sample_branch then Inl ''the ref has moved''
         else g_show sample_git root rv p)\<rparr>) '''' (br_commit sample_branch)"
    by (simp add: agree_at_def sample_branch_def numeral_eq_Suc)
  ultimately show ?thesis using pinned_projection_ignores_ref r by blast
qed

end
