(* ===== verification/Discovery.thy ===== *)
theory Discovery
  imports Features SpecState
begin

text \<open>
  From a store to a feature's verdict: the backlink index (internal/index), the
  discovery of a feature's implementing stories and the projection of a feature
  (internal/matrixprojection/project.go), and the confirmed candidates of a pending
  supersession (internal/evidence/pendingsupersession.go). Reading a derived
  directory's records is the argument \<open>records\<close>, from the slug of the spec; the forge is
  the record \<open>forge\<close> and SHA-256 in hex the argument \<open>h\<close>.
\<close>

section \<open>Backlinks\<close>

record index_entry =
  ie_ref :: string
  ie_links :: "link list"

record backlink =
  bk_from :: string
  bk_type :: string

fun inverse_of :: "link_type \<Rightarrow> string option" where
  "inverse_of LinkImplements = Some ''implemented-by''"
| "inverse_of LinkSupersedes = Some ''superseded-by''"
| "inverse_of LinkVerifies = Some ''verified-by''"
| "inverse_of LinkDerivedFrom = Some ''source-of''"
| "inverse_of LinkAnnotates = Some ''annotated-by''"
| "inverse_of LinkDependsOn = Some ''depended-on-by''"
| "inverse_of LinkImpacts = Some ''impacted-by''"
| "inverse_of LinkChallenges = Some ''challenged-by''"
| "inverse_of LinkResolves = Some ''resolved-by''"
| "inverse_of LinkExempts = Some ''exempted-by''"
| "inverse_of _ = None"

fun entry_backlinks :: "string \<Rightarrow> string \<Rightarrow> link list \<Rightarrow> backlink list" where
  "entry_backlinks ref src [] = []"
| "entry_backlinks ref src (l # ls) =
     (case inverse_of (l_type l) of
        None \<Rightarrow> entry_backlinks ref src ls
      | Some iv \<Rightarrow>
          if l_ref l = ref then \<lparr>bk_from = src, bk_type = iv\<rparr> # entry_backlinks ref src ls
          else entry_backlinks ref src ls)"

definition backlinks :: "index_entry list \<Rightarrow> string \<Rightarrow> backlink list" where
  "backlinks entries ref =
     sort_key (\<lambda>b. (bk_type b, bk_from b))
       (concat (map (\<lambda>e. entry_backlinks ref (ie_ref e) (ie_links e)) entries))"

fun duplicate_ref :: "string list \<Rightarrow> index_entry list \<Rightarrow> string option" where
  "duplicate_ref seen [] = None"
| "duplicate_ref seen (e # es) =
     (if ie_ref e \<in> set seen then Some (ie_ref e) else duplicate_ref (ie_ref e # seen) es)"

section \<open>Loading an implementing story\<close>

datatype discovery_error =
    DuplicateRef string
  | BadImplementer string ref_error
  | StoryRead string
  | StoryDecode string decode_failure
  | StoryNotFound string
  | StateFailed string state_error
  | StateCount nat nat
  | StateUnproven string "disclosure list"
  | StoryRecords string string
  | StoryFold string fold_error
  | TargetRef string ref_error
  | TargetRecords string
  | TargetFold feature_error
  | TargetStubs stub_error

definition spec_rel_path :: "string \<Rightarrow> string \<Rightarrow> string" where
  "spec_rel_path zn name = ''.verdi/specs/'' @ zn @ ''/'' @ name @ ''/spec.md''"

fun load_spec_from ::
  "world \<Rightarrow> decoders \<Rightarrow> string \<Rightarrow> string list \<Rightarrow> discovery_error + (spec \<times> candidate) option" where
  "load_spec_from w d name [] = Inr None"
| "load_spec_from w d name (zn # zns) =
     (let path = spec_rel_path zn name in
      case w_read w path of
        ReadMissing \<Rightarrow> load_spec_from w d name zns
      | read_result.ReadFailed \<Rightarrow> Inl (StoryRead path)
      | ReadOk content \<Rightarrow>
          (case decode_spec_document d content of
             Inl e \<Rightarrow> Inl (StoryDecode path e)
           | Inr sp \<Rightarrow> Inr (Some (sp, \<lparr>ca_path = path, ca_content = content\<rparr>))))"

definition load_spec_with_zone ::
  "world \<Rightarrow> decoders \<Rightarrow> string \<Rightarrow> discovery_error + (spec \<times> candidate) option" where
  "load_spec_with_zone w d name = load_spec_from w d name [''active'', ''archive'']"

definition load_implementer ::
  "world \<Rightarrow> decoders \<Rightarrow> string \<Rightarrow> discovery_error + (spec \<times> candidate)" where
  "load_implementer w d story_ref =
     (case parse_ref story_ref of
        Inl e \<Rightarrow> Inl (BadImplementer story_ref e)
      | Inr r \<Rightarrow>
          (case load_spec_with_zone w d (r_name r) of
             Inl e \<Rightarrow> Inl e
           | Inr None \<Rightarrow> Inl (StoryNotFound story_ref)
           | Inr (Some p) \<Rightarrow> Inr p))"

section \<open>Discovering the implementing stories\<close>

definition criterion_key :: "string \<Rightarrow> string \<Rightarrow> string" where
  "criterion_key feature ac = ''spec/'' @ feature @ ''#'' @ ac"

text \<open>The (story, criterion) pairs in the order the two loops meet them.\<close>

definition implementing_pairs ::
  "index_entry list \<Rightarrow> string \<Rightarrow> acceptance_criterion list \<Rightarrow> (string \<times> string) list" where
  "implementing_pairs entries feature acs =
     concat (map (\<lambda>ac. map (\<lambda>b. (bk_from b, ac_id ac))
         (filter (\<lambda>b. bk_type b = ''implemented-by'') (backlinks entries (criterion_key feature (ac_id ac)))))
       acs)"

definition implementer_order :: "(string \<times> string) list \<Rightarrow> string list" where
  "implementer_order pairs = sort (remdups (map fst pairs))"

definition implementer_acs :: "(string \<times> string) list \<Rightarrow> string \<Rightarrow> string list" where
  "implementer_acs pairs story = sort (remdups (map snd (filter (\<lambda>p. fst p = story) pairs)))"

type_synonym record_source = "string \<Rightarrow> string + evidence list"

definition fold_implementing_story ::
  "world \<Rightarrow> record_source \<Rightarrow> string \<Rightarrow> spec \<Rightarrow> state_result \<Rightarrow> discovery_error + story_result" where
  "fold_implementing_story w records commit sp st =
     (let spec_id = b_id (s_base sp) in
      case records (ref_slug spec_id) of
        Inl e \<Rightarrow> Inl (StoryRecords spec_id e)
      | Inr rs \<Rightarrow>
          (case fold_story w
             \<lparr>fi_spec = Some sp, fi_records = rs, fi_preview = False, fi_slug = ref_slug (s_story sp),
              fi_evaluation = commit,
              fi_landing = (case rs_baseline st of None \<Rightarrow> '''' | Some bl \<Rightarrow> bl_landing bl)\<rparr> of
             Inl e \<Rightarrow> Inl (StoryFold spec_id e)
           | Inr res \<Rightarrow> Inr res))"

text \<open>One implementer with its resolved state: an error, a superseded story, or the
  contribution it makes to every criterion it implements.\<close>

definition classify_implementer ::
  "world \<Rightarrow> record_source \<Rightarrow> string \<Rightarrow> (string \<times> string) list \<Rightarrow> string \<Rightarrow> spec \<Rightarrow> state_result \<Rightarrow>
   discovery_error + implementing_story option" where
  "classify_implementer w records commit pairs story sp st =
     (if rs_state st = Unproven then Inl (StateUnproven story (rs_disclosures st))
      else if rs_state st = Superseded then Inr None
      else
        (case fold_implementing_story w records commit sp st of
           Inl e \<Rightarrow> Inl e
         | Inr res \<Rightarrow>
             Inr (Some \<lparr>im_ref = story, im_acs = implementer_acs pairs story,
                        im_closed = (rs_state st = Closed), im_eligible = sr_eligible res,
                        im_violated = sr_violated res\<rparr>)))"

fun load_implementers ::
  "world \<Rightarrow> decoders \<Rightarrow> string list \<Rightarrow> discovery_error + (spec \<times> candidate) list" where
  "load_implementers w d [] = Inr []"
| "load_implementers w d (r # rs) =
     (case load_implementer w d r of
        Inl e \<Rightarrow> Inl e
      | Inr p \<Rightarrow> (case load_implementers w d rs of Inl e \<Rightarrow> Inl e | Inr ps \<Rightarrow> Inr (p # ps)))"

fun classify_all ::
  "world \<Rightarrow> record_source \<Rightarrow> string \<Rightarrow> (string \<times> string) list \<Rightarrow> (string \<times> spec \<times> state_result) list \<Rightarrow>
   discovery_error + (string \<times> implementing_story option) list" where
  "classify_all w records commit pairs [] = Inr []"
| "classify_all w records commit pairs ((story, sp, st) # rest) =
     (case classify_implementer w records commit pairs story sp st of
        Inl e \<Rightarrow> Inl e
      | Inr c \<Rightarrow>
          (case classify_all w records commit pairs rest of
             Inl e \<Rightarrow> Inl e
           | Inr cs \<Rightarrow> Inr ((story, c) # cs)))"

text \<open>The stories that count, in order, and per criterion the superseded ones.\<close>

definition live_stories :: "(string \<times> implementing_story option) list \<Rightarrow> implementing_story list" where
  "live_stories cs = concat (map (\<lambda>c. case snd c of None \<Rightarrow> [] | Some s \<Rightarrow> [s]) cs)"

definition stories_by_ac :: "implementing_story list \<Rightarrow> string \<Rightarrow> implementing_story list" where
  "stories_by_ac stories ac = filter (\<lambda>s. ac \<in> set (im_acs s)) stories"

definition superseded_by_ac ::
  "(string \<times> string) list \<Rightarrow> (string \<times> implementing_story option) list \<Rightarrow> string \<Rightarrow> string list" where
  "superseded_by_ac pairs cs ac =
     map fst (filter (\<lambda>c. snd c = None \<and> ac \<in> set (implementer_acs pairs (fst c))) cs)"

record discovered =
  ds_stories :: "implementing_story list"
  ds_by_ac :: "string \<Rightarrow> implementing_story list"
  ds_superseded :: "string \<Rightarrow> string list"

definition discover_implementing_stories ::
  "world \<Rightarrow> decoders \<Rightarrow> record_source \<Rightarrow> string \<Rightarrow>
   (candidate list \<Rightarrow> state_error + state_result list) \<Rightarrow> string \<Rightarrow> spec \<Rightarrow> index_entry list \<Rightarrow>
   discovery_error + discovered" where
  "discover_implementing_stories w d records commit resolver feature sp entries =
     (let pairs = implementing_pairs entries feature (s_criteria sp);
          order = implementer_order pairs
      in case load_implementers w d order of
           Inl e \<Rightarrow> Inl e
         | Inr loaded \<Rightarrow>
             (case resolver (map snd loaded) of
                Inl e \<Rightarrow> Inl (StateFailed feature e)
              | Inr sts \<Rightarrow>
                  if length sts \<noteq> length order then Inl (StateCount (length sts) (length order))
                  else
                    (case classify_all w records commit pairs (zip order (zip (map fst loaded) sts)) of
                       Inl e \<Rightarrow> Inl e
                     | Inr cs \<Rightarrow>
                         Inr \<lparr>ds_stories = live_stories cs, ds_by_ac = stories_by_ac (live_stories cs),
                              ds_superseded = superseded_by_ac pairs cs\<rparr>)))"

section \<open>Projecting a feature\<close>

record feature_projection =
  fp_result :: feature_result
  fp_stubs :: stub_reconciliation
  fp_discovered :: discovered

definition project_feature ::
  "world \<Rightarrow> decoders \<Rightarrow> record_source \<Rightarrow> string \<Rightarrow>
   (candidate list \<Rightarrow> state_error + state_result list) \<Rightarrow> bool \<Rightarrow> index_entry list \<Rightarrow> spec \<Rightarrow>
   discovery_error + feature_projection" where
  "project_feature w d records commit resolver preview entries sp =
     (let spec_id = b_id (s_base sp) in
      case parse_ref spec_id of
        Inl e \<Rightarrow> Inl (TargetRef spec_id e)
      | Inr r \<Rightarrow>
          (case duplicate_ref [] entries of
             Some dup \<Rightarrow> Inl (DuplicateRef dup)
           | None \<Rightarrow>
               (case discover_implementing_stories w d records commit resolver (r_name r) sp entries of
                  Inl e \<Rightarrow> Inl e
                | Inr ds \<Rightarrow>
                    (case records (ref_slug spec_id) of
                       Inl e \<Rightarrow> Inl (TargetRecords e)
                     | Inr rs \<Rightarrow>
                         (case fold_feature w
                            \<lparr>ft_spec = Some sp, ft_stories = ds_by_ac ds, ft_records = rs,
                             ft_preview = preview, ft_slug = r_name r\<rparr> of
                            Inl e \<Rightarrow> Inl (TargetFold e)
                          | Inr res \<Rightarrow>
                              (case reconcile_stubs (Some sp)
                                 (map (\<lambda>s. \<lparr>ss_ref = im_ref s, ss_acs = im_acs s, ss_closed = im_closed s\<rparr>)
                                   (ds_stories ds)) [] of
                                 Inl e \<Rightarrow> Inl (TargetStubs e)
                               | Inr sy \<Rightarrow>
                                   Inr \<lparr>fp_result = res, fp_stubs = sy, fp_discovered = ds\<rparr>))))))"

section \<open>Candidates of a pending supersession\<close>

datatype fetched = Fetched string | NotOnBranch | FetchFailed string

record forge =
  fg_open :: "string \<Rightarrow> string + (string \<times> string) list"
  fg_fetch :: "string \<Rightarrow> string \<Rightarrow> fetched"

datatype pending_error = ListingFailed string | FetchError string string string

record supersession_candidate =
  sc_mr :: string
  sc_spec :: spec
  sc_digest :: string

fun pending_candidates ::
  "forge \<Rightarrow> decoders \<Rightarrow> (string \<Rightarrow> string) \<Rightarrow> string \<Rightarrow> string \<Rightarrow> (string \<times> string) list \<Rightarrow>
   pending_error + supersession_candidate list" where
  "pending_candidates f d h feature_ref path [] = Inr []"
| "pending_candidates f d h feature_ref path ((mr, source_branch) # mrs) =
     (case fg_fetch f source_branch path of
        NotOnBranch \<Rightarrow> pending_candidates f d h feature_ref path mrs
      | FetchFailed e \<Rightarrow> Inl (FetchError path source_branch e)
      | Fetched content \<Rightarrow>
          (case decode_spec_document d content of
             Inl e \<Rightarrow> pending_candidates f d h feature_ref path mrs
           | Inr sp \<Rightarrow>
               if s_supersession sp = None \<or> \<not> supersedes_ref sp feature_ref
               then pending_candidates f d h feature_ref path mrs
               else
                 (case pending_candidates f d h feature_ref path mrs of
                    Inl e \<Rightarrow> Inl e
                  | Inr cs \<Rightarrow>
                      Inr (\<lparr>sc_mr = mr, sc_spec = sp, sc_digest = ''sha256:'' @ h content\<rparr> # cs))))"

definition load_pending_supersession_candidates ::
  "forge \<Rightarrow> decoders \<Rightarrow> (string \<Rightarrow> string) \<Rightarrow> string \<Rightarrow> string \<Rightarrow> string \<Rightarrow>
   pending_error + supersession_candidate list" where
  "load_pending_supersession_candidates f d h target feature_ref path =
     (case fg_open f target of
        Inl e \<Rightarrow> Inl (ListingFailed e)
      | Inr mrs \<Rightarrow> pending_candidates f d h feature_ref path mrs)"

section \<open>What discovery returns\<close>

lemma inverse_implemented [simp]: "inverse_of t = Some ''implemented-by'' \<longleftrightarrow> t = LinkImplements"
  by (cases t) auto

definition implements_criterion :: "string \<Rightarrow> string \<Rightarrow> index_entry \<Rightarrow> bool" where
  "implements_criterion feature ac e \<longleftrightarrow>
     list_ex (\<lambda>l. l_type l = LinkImplements \<and> l_ref l = criterion_key feature ac) (ie_links e)"

lemma set_entry_backlinks:
  "b \<in> set (entry_backlinks ref src ls) \<longleftrightarrow>
     bk_from b = src \<and> (\<exists>l \<in> set ls. inverse_of (l_type l) = Some (bk_type b) \<and> l_ref l = ref)"
  by (induction ref src ls rule: entry_backlinks.induct) (auto split: option.splits)

lemma set_implementing_pairs:
  "(story, ac) \<in> set (implementing_pairs entries feature acs) \<longleftrightarrow>
     ac \<in> ac_id ` set acs \<and> (\<exists>e \<in> set entries. ie_ref e = story \<and> implements_criterion feature ac e)"
proof -
  have "(\<exists>b \<in> set (backlinks entries (criterion_key feature ac)). bk_type b = ''implemented-by'' \<and> bk_from b = story)
      \<longleftrightarrow> (\<exists>e \<in> set entries. ie_ref e = story \<and> implements_criterion feature ac e)"
    (is "?L \<longleftrightarrow> ?R") for ac
  proof
    assume ?L then show ?R
      by (auto simp: backlinks_def set_entry_backlinks implements_criterion_def list_ex_iff)
  next
    assume ?R
    then obtain e where e: "e \<in> set entries" "ie_ref e = story" "implements_criterion feature ac e" by blast
    then have "\<lparr>bk_from = story, bk_type = ''implemented-by''\<rparr>
        \<in> set (entry_backlinks (criterion_key feature ac) (ie_ref e) (ie_links e))"
      by (auto simp: set_entry_backlinks implements_criterion_def list_ex_iff)
    with e(1) show ?L by (force simp: backlinks_def)
  qed
  moreover have "(story, ac) \<in> set (implementing_pairs entries feature acs) \<longleftrightarrow> ac \<in> ac_id ` set acs
      \<and> (\<exists>b \<in> set (backlinks entries (criterion_key feature ac)). bk_type b = ''implemented-by'' \<and> bk_from b = story)"
    by (auto simp: implementing_pairs_def)
  ultimately show ?thesis by simp
qed

lemma load_implementers_Inr:
  "load_implementers w d rs = Inr ps \<longleftrightarrow> map (load_implementer w d) rs = map Inr ps"
proof
  show "load_implementers w d rs = Inr ps \<Longrightarrow> map (load_implementer w d) rs = map Inr ps"
    by (induction rs arbitrary: ps) (auto split: sum.splits)
  show "map (load_implementer w d) rs = map Inr ps \<Longrightarrow> load_implementers w d rs = Inr ps"
    by (induction rs arbitrary: ps) auto
qed

lemma classify_all_Inr:
  "classify_all w records commit pairs rows = Inr cs \<Longrightarrow>
     map (\<lambda>(story, sp, st). (story, classify_implementer w records commit pairs story sp st)) rows
       = map (\<lambda>(story, c). (story, Inr c)) cs"
  by (induction w records commit pairs rows arbitrary: cs rule: classify_all.induct)
    (auto split: sum.splits)

definition implementer_class ::
  "world \<Rightarrow> decoders \<Rightarrow> record_source \<Rightarrow> string \<Rightarrow> (string \<times> string) list \<Rightarrow>
   (candidate \<Rightarrow> state_result \<Rightarrow> bool) \<Rightarrow> string \<Rightarrow> implementing_story option \<Rightarrow> bool" where
  "implementer_class w d records commit pairs answers story c \<longleftrightarrow>
     (\<exists>sp ca st. load_implementer w d story = Inr (sp, ca) \<and> answers ca st
        \<and> classify_implementer w records commit pairs story sp st = Inr c)"

text \<open>A resolver that answers each candidate of a batch on its own.\<close>

definition pointwise ::
  "(candidate list \<Rightarrow> state_error + state_result list) \<Rightarrow> (candidate \<Rightarrow> state_result \<Rightarrow> bool) \<Rightarrow> bool" where
  "pointwise resolver answers \<longleftrightarrow>
     (\<forall>cas sts. resolver cas = Inr sts \<longrightarrow> (\<forall>i < length sts. answers (cas ! i) (sts ! i)))"

lemma discovered_stories:
  assumes "discover_implementing_stories w d records commit resolver feature sp entries = Inr ds"
    "pointwise resolver answers"
  defines "pairs \<equiv> implementing_pairs entries feature (s_criteria sp)"
  shows "\<exists>cs. map fst cs = implementer_order pairs
     \<and> (\<forall>(story, c) \<in> set cs. implementer_class w d records commit pairs answers story c)
     \<and> ds_by_ac ds = stories_by_ac (live_stories cs)"
proof -
  let ?order = "implementer_order pairs"
  from assms(1) obtain loaded sts cs where
    l: "load_implementers w d ?order = Inr loaded" and r: "resolver (map snd loaded) = Inr sts"
    and n: "length sts = length ?order"
    and c: "classify_all w records commit pairs (zip ?order (zip (map fst loaded) sts)) = Inr cs"
    and ds: "ds_by_ac ds = stories_by_ac (live_stories cs)"
    by (auto simp: discover_implementing_stories_def pairs_def Let_def split: sum.splits if_splits)
  let ?rows = "zip ?order (zip (map fst loaded) sts)"
  from l have le: "map (load_implementer w d) ?order = map Inr loaded" by (simp add: load_implementers_Inr)
  then have len: "length loaded = length ?order" by (metis length_map)
  have eq: "map (\<lambda>(story, sp, st). (story, classify_implementer w records commit pairs story sp st)) ?rows
      = map (\<lambda>(story, c). (story, Inr c)) cs" by (rule classify_all_Inr[OF c])
  then have lc: "length cs = length ?order" using len n by (auto dest: map_eq_imp_length_eq)
  have at: "fst (cs ! i) = ?order ! i
      \<and> implementer_class w d records commit pairs answers (fst (cs ! i)) (snd (cs ! i))"
    if i: "i < length cs" for i
  proof -
    have "load_implementer w d (?order ! i) = Inr (fst (loaded ! i), snd (loaded ! i))"
      using arg_cong[OF le, of "\<lambda>xs. xs ! i"] i lc len by simp
    moreover have "answers (snd (loaded ! i)) (sts ! i)"
      using assms(2) r i lc n len unfolding pointwise_def by (metis nth_map)
    moreover have "fst (cs ! i) = ?order ! i \<and>
        classify_implementer w records commit pairs (?order ! i) (fst (loaded ! i)) (sts ! i) = Inr (snd (cs ! i))"
      using arg_cong[OF eq, of "\<lambda>xs. xs ! i"] i lc len n by (auto split: prod.splits)
    ultimately show ?thesis by (cases "loaded ! i") (auto simp: implementer_class_def)
  qed
  have "map fst cs = ?order" by (rule nth_equalityI) (use at lc in auto)
  moreover have "\<forall>(story, c) \<in> set cs. implementer_class w d records commit pairs answers story c"
    using at by (auto simp: in_set_conv_nth) (metis fst_conv snd_conv)
  ultimately show ?thesis using ds by blast
qed

lemma set_implementer_order: "story \<in> set (implementer_order pairs) \<longleftrightarrow> (\<exists>ac. (story, ac) \<in> set pairs)"
  by (force simp: implementer_order_def)

lemma set_implementer_acs: "ac \<in> set (implementer_acs pairs story) \<longleftrightarrow> (story, ac) \<in> set pairs"
  by (force simp: implementer_acs_def)

lemma classify_Some:
  "classify_implementer w records commit pairs story sp st = Inr (Some im) \<Longrightarrow>
     rs_state st \<notin> {Unproven, Superseded} \<and> im_ref im = story \<and> im_acs im = implementer_acs pairs story
     \<and> (im_closed im \<longleftrightarrow> rs_state st = Closed)
     \<and> (\<exists>res. fold_implementing_story w records commit sp st = Inr res
          \<and> im_eligible im = sr_eligible res \<and> im_violated im = sr_violated res)"
  by (auto simp: classify_implementer_def split: if_splits sum.splits)

lemma classify_None:
  "classify_implementer w records commit pairs story sp st = Inr None \<Longrightarrow> rs_state st = Superseded"
  by (auto simp: classify_implementer_def split: if_splits sum.splits)

text \<open>A story that stands behind a criterion: proven at its own candidate, folded from its
  own records without a violated row, and closed or eligible.\<close>

definition stands ::
  "world \<Rightarrow> decoders \<Rightarrow> record_source \<Rightarrow> string \<Rightarrow> (candidate \<Rightarrow> state_result \<Rightarrow> bool) \<Rightarrow> string \<Rightarrow> bool" where
  "stands w d records commit answers story \<longleftrightarrow>
     (\<exists>sp ca st res. load_implementer w d story = Inr (sp, ca) \<and> answers ca st
        \<and> rs_state st \<notin> {Unproven, Superseded}
        \<and> fold_implementing_story w records commit sp st = Inr res
        \<and> (\<forall>a \<in> set (sr_acs res). ar_status a \<noteq> StatusViolated)
        \<and> (rs_state st = Closed \<or> (\<forall>a \<in> set (sr_acs res). ar_status a \<in> {StatusEvidenced, StatusWaived})))"

definition replaced :: "world \<Rightarrow> decoders \<Rightarrow> (candidate \<Rightarrow> state_result \<Rightarrow> bool) \<Rightarrow> string \<Rightarrow> bool" where
  "replaced w d answers story \<longleftrightarrow>
     (\<exists>sp ca st. load_implementer w d story = Inr (sp, ca) \<and> answers ca st \<and> rs_state st = Superseded)"

lemma fold_implementing_story_flags:
  assumes "fold_implementing_story w records commit sp st = Inr res"
  shows "sr_violated res \<longleftrightarrow> (\<exists>a \<in> set (sr_acs res). ar_status a = StatusViolated)"
    and "sr_eligible res \<longleftrightarrow> (\<forall>a \<in> set (sr_acs res). ar_status a \<in> {StatusEvidenced, StatusWaived})"
proof -
  from assms obtain inp where "fold_story w inp = Inr res"
    by (auto simp: fold_implementing_story_def Let_def split: sum.splits)
  from fold_story_flags[OF this]
  show "sr_violated res \<longleftrightarrow> (\<exists>a \<in> set (sr_acs res). ar_status a = StatusViolated)"
    and "sr_eligible res \<longleftrightarrow> (\<forall>a \<in> set (sr_acs res). ar_status a \<in> {StatusEvidenced, StatusWaived})" .
qed

lemma implementer_class_Some:
  assumes "implementer_class w d records commit pairs answers story (Some im)"
    "\<not> im_violated im" "im_closed im \<or> im_eligible im"
  shows "stands w d records commit answers story"
proof -
  from assms(1) obtain sp ca st where
    l: "load_implementer w d story = Inr (sp, ca)" "answers ca st"
    and c: "classify_implementer w records commit pairs story sp st = Inr (Some im)"
    by (auto simp: implementer_class_def)
  from classify_Some[OF c] obtain res where
    f: "fold_implementing_story w records commit sp st = Inr res"
    and m: "im_eligible im = sr_eligible res" "im_violated im = sr_violated res"
      "im_closed im \<longleftrightarrow> rs_state st = Closed" "rs_state st \<notin> {Unproven, Superseded}" by blast
  from l m f assms(2,3) fold_implementing_story_flags[OF f] show ?thesis
    unfolding stands_def by blast
qed

lemma implementer_class_None:
  "implementer_class w d records commit pairs answers story None \<Longrightarrow> replaced w d answers story"
  by (auto simp: implementer_class_def replaced_def dest: classify_None)

text \<open>When every story discovery lists for a criterion is in good standing, every index
  entry that implements the criterion stands behind it or was replaced.\<close>

lemma discovered_standing:
  assumes "discover_implementing_stories w d records commit resolver feature sp entries = Inr ds"
    "pointwise resolver answers" "ac \<in> ac_id ` set (s_criteria sp)"
    "\<forall>s \<in> set (ds_by_ac ds ac). \<not> im_violated s \<and> (im_closed s \<or> im_eligible s)"
  shows "\<forall>e \<in> set entries. implements_criterion feature ac e \<longrightarrow>
       stands w d records commit answers (ie_ref e) \<or> replaced w d answers (ie_ref e)"
    and "ds_by_ac ds ac \<noteq> [] \<Longrightarrow>
       \<exists>e \<in> set entries. implements_criterion feature ac e \<and> stands w d records commit answers (ie_ref e)"
proof -
  let ?pairs = "implementing_pairs entries feature (s_criteria sp)"
  from discovered_stories[OF assms(1,2)] obtain cs where
    order: "map fst cs = implementer_order ?pairs"
    and cls: "\<And>story c. (story, c) \<in> set cs \<Longrightarrow> implementer_class w d records commit ?pairs answers story c"
    and ds: "ds_by_ac ds = stories_by_ac (live_stories cs)" by blast
  have live: "im \<in> set (ds_by_ac ds ac) \<longleftrightarrow>
      (\<exists>story. (story, Some im) \<in> set cs \<and> ac \<in> set (im_acs im))" for im
    by (force simp: ds stories_by_ac_def live_stories_def split: option.splits)
  have acs: "im_acs im = implementer_acs ?pairs story" if "(story, Some im) \<in> set cs" for story im
    using cls[OF that] by (auto simp: implementer_class_def dest: classify_Some)
  show "\<forall>e \<in> set entries. implements_criterion feature ac e \<longrightarrow>
       stands w d records commit answers (ie_ref e) \<or> replaced w d answers (ie_ref e)"
  proof (intro ballI impI)
    fix e assume e: "e \<in> set entries" "implements_criterion feature ac e"
    then have p: "(ie_ref e, ac) \<in> set ?pairs" using assms(3) by (auto simp: set_implementing_pairs)
    then have "ie_ref e \<in> set (map fst cs)" unfolding order set_implementer_order by blast
    then obtain c where c: "(ie_ref e, c) \<in> set cs" by auto
    show "stands w d records commit answers (ie_ref e) \<or> replaced w d answers (ie_ref e)"
    proof (cases c)
      case None
      with cls[OF c] show ?thesis by (auto dest: implementer_class_None)
    next
      case (Some im)
      have "im \<in> set (ds_by_ac ds ac)"
        using live[of im] c[unfolded Some] acs[OF c[unfolded Some]] p by (auto simp: set_implementer_acs)
      with assms(4) implementer_class_Some[OF cls[OF c[unfolded Some]]] show ?thesis by blast
    qed
  qed
  show "\<exists>e \<in> set entries. implements_criterion feature ac e \<and> stands w d records commit answers (ie_ref e)"
    if ne: "ds_by_ac ds ac \<noteq> []"
  proof -
    from ne obtain im where im: "im \<in> set (ds_by_ac ds ac)" using list.set_sel(1) by blast
    then obtain story where s: "(story, Some im) \<in> set cs" "ac \<in> set (im_acs im)" by (auto simp: live)
    then have "(story, ac) \<in> set ?pairs" using acs[OF s(1)] by (simp add: set_implementer_acs)
    then obtain e where "e \<in> set entries" "ie_ref e = story" "implements_criterion feature ac e"
      by (auto simp: set_implementing_pairs)
    with assms(4) im implementer_class_Some[OF cls[OF s(1)]] show ?thesis by blast
  qed
qed

section \<open>From the store to the verdict\<close>

lemma resolver_pointwise:
  assumes "listing_law g root" "trusted g d cc"
  shows "pointwise (\<lambda>cas. fst (resolve_many g d root (Some b) cas (Some cc)))
           (\<lambda>ca st. project g d root b ca = Inr st)"
proof -
  have "project g d root b (cas ! i) = Inr (sts ! i)"
    if "fst (resolve_many g d root (Some b) cas (Some cc)) = Inr sts" "i < length sts" for cas sts i
    using resolve_many_nth[OF assms, of b cas sts _ i] that by (metis prod.collapse)
  then show ?thesis by (simp add: pointwise_def)
qed

lemma project_feature_parts:
  assumes "project_feature w d records commit resolver preview entries sp = Inr pr"
  obtains r ds rs where "parse_ref (b_id (s_base sp)) = Inr r"
    "discover_implementing_stories w d records commit resolver (r_name r) sp entries = Inr ds"
    "records (ref_slug (b_id (s_base sp))) = Inr rs"
    "fold_feature w \<lparr>ft_spec = Some sp, ft_stories = ds_by_ac ds, ft_records = rs,
       ft_preview = preview, ft_slug = r_name r\<rparr> = Inr (fp_result pr)"
  using assms by (auto simp: project_feature_def Let_def split: sum.splits option.splits)

text \<open>C2. An evidenced feature criterion is evidenced all the way down. When the matrix
  calls a criterion of a feature evidenced, at least one story of the index implements
  it and stands; every story that implements it either stands, that is, its state was
  proven on the default branch, its own records fold to no violated criterion and it is
  closed or every criterion of it is evidenced or waived, or it was proven superseded;
  and the feature has its own floor: an authored attestation or a passing record from
  CI (or local in a preview) that names the criterion.\<close>

theorem feature_evidenced_chain:
  assumes "listing_law g root" "trusted g d cc"
    "project_feature w d records commit (\<lambda>cas. fst (resolve_many g d root (Some b) cas (Some cc)))
       preview entries sp = Inr pr"
    "row \<in> set (fr_acs (fp_result pr))" "fa_status row = StatusEvidenced"
  defines "answers \<equiv> \<lambda>ca st. project g d root b ca = Inr st"
  shows "\<exists>r rs. parse_ref (b_id (s_base sp)) = Inr r \<and> records (ref_slug (b_id (s_base sp))) = Inr rs
     \<and> (\<exists>e \<in> set entries. implements_criterion (r_name r) (fa_id row) e
          \<and> stands w d records commit answers (ie_ref e))
     \<and> (\<forall>e \<in> set entries. implements_criterion (r_name r) (fa_id row) e \<longrightarrow>
          stands w d records commit answers (ie_ref e) \<or> replaced w d answers (ie_ref e))
     \<and> (load_attestation_state w (r_name r) (fa_id row) = Inr AttestationAuthored
        \<or> (\<exists>rec \<in> set rs. keeps_source preview rec \<and> fa_id row \<in> set (e_for rec)
             \<and> e_verdict rec = VerdictPass))"
proof -
  from assms(3) obtain r ds rs where
    r: "parse_ref (b_id (s_base sp)) = Inr r"
    and ds: "discover_implementing_stories w d records commit
        (\<lambda>cas. fst (resolve_many g d root (Some b) cas (Some cc))) (r_name r) sp entries = Inr ds"
    and rs: "records (ref_slug (b_id (s_base sp))) = Inr rs"
    and f: "fold_feature w \<lparr>ft_spec = Some sp, ft_stories = ds_by_ac ds, ft_records = rs,
       ft_preview = preview, ft_slug = r_name r\<rparr> = Inr (fp_result pr)"
    by (rule project_feature_parts)
  note ev = feature_row_evidenced[OF f assms(4,5), unfolded floor_met_def, simplified]
  have ac: "fa_id row \<in> ac_id ` set (s_criteria sp)"
    using fold_feature_rows[OF f assms(4)] by (auto dest: feature_row_fields)
  note pw = resolver_pointwise[OF assms(1,2), of b, folded answers_def]
  have good: "\<forall>s \<in> set (ds_by_ac ds (fa_id row)). \<not> im_violated s \<and> (im_closed s \<or> im_eligible s)"
    using ev by blast
  note all = discovered_standing(1)[OF ds pw ac good]
  have "ds_by_ac ds (fa_id row) \<noteq> []" using ev by blast
  note one = discovered_standing(2)[OF ds pw ac good this]
  show ?thesis using r rs all one ev by blast
qed

definition sample_implementer :: spec where
  "sample_implementer = sample_story
     \<lparr>s_criteria := [\<lparr>ac_id = ''ac-1'', ac_text = ''x'', ac_evidence = [EvidenceStatic], ac_anchor = ''a''\<rparr>]\<rparr>"

definition sample_store :: world where
  "sample_store = sample_world
     \<lparr>w_read := (\<lambda>p. if p = ''.verdi/specs/archive/step/spec.md'' then ReadOk (spec_text ''story'') else ReadMissing)\<rparr>"

definition sample_store_git :: git where
  "sample_store_git = sample_git
     \<lparr>g_show := (\<lambda>root rv p. Inr (spec_text ''story'')), g_blob := (\<lambda>root rv p. Inr (Some p))\<rparr>"

definition sample_store_decoders :: decoders where
  "sample_store_decoders = sample_decoders\<lparr>dk_spec := (\<lambda>fm. Inr sample_implementer)\<rparr>"

definition sample_index :: "index_entry list" where
  "sample_index = [\<lparr>ie_ref = ''spec/step'', ie_links = b_links (s_base sample_implementer)\<rparr>]"

abbreviation sample_projection :: "discovery_error + feature_projection" where
  "sample_projection \<equiv> project_feature sample_store sample_store_decoders
     (\<lambda>slug. Inr [sample_record ''1'' VerdictPass]) ''''
     (\<lambda>cas. fst (resolve_many sample_store_git sample_store_decoders '''' (Some sample_branch) cas
        (Some (new_corpus_cache corpusCacheLimit)))) False sample_index sample_feature"

lemma sample_projection_rows:
  "(case sample_projection of Inl e \<Rightarrow> [] | Inr pr \<Rightarrow>
      map (\<lambda>row. (fa_id row, fa_status row)) (fr_acs (fp_result pr))) = [(''ac-1'', StatusEvidenced)]"
  by code_simp

lemma sample_store_listing: "listing_law sample_store_git ''''"
  using sample_listing by (simp add: listing_law_def sample_store_git_def)

theorem feature_evidenced_chain_witness:
  "stands sample_store sample_store_decoders (\<lambda>slug. Inr [sample_record ''1'' VerdictPass]) ''''
     (\<lambda>ca st. project sample_store_git sample_store_decoders '''' sample_branch ca = Inr st) ''spec/step''"
proof -
  obtain pr where pr: "sample_projection = Inr pr" using sample_projection_rows by (cases sample_projection) auto
  with sample_projection_rows obtain row where
    row: "row \<in> set (fr_acs (fp_result pr))" "fa_status row = StatusEvidenced"
    by (auto simp: map_eq_Cons_conv Cons_eq_map_conv)
  from feature_evidenced_chain[OF sample_store_listing quiet_new pr row] show ?thesis
    by (auto simp: sample_index_def)
qed

end
