(* ===== verification/GitReads.thy ===== *)
theory GitReads
  imports Docs
begin

text \<open>
  The Git reads (internal/gitx): the per-request read session with its memo of
  deterministic commands, its one \<^verbatim>\<open>cat-file --batch\<close> process, its tree parser and
  its reachability walk (readsession.go); the reads that use it, \<^verbatim>\<open>Show\<close>, \<^verbatim>\<open>BlobAt\<close>,
  \<^verbatim>\<open>FirstParentBlobLanding\<close> and \<^verbatim>\<open>ReachableFromHEAD\<close> (show.go, blob.go, reachable.go),
  and \<^verbatim>\<open>CommitExists\<close> and \<^verbatim>\<open>IsAncestor\<close>.

  Git is the record \<open>git_port\<close>: the outcome of running one command line in the
  repository's directory, whether the batch process starts, and the bytes it writes
  for one request line. What the session keeps is explicit state, the unread bytes of
  the batch process included, so that losing step with it is expressible.
\<close>

section \<open>Git as a process\<close>

datatype git_out = GitOk string | GitExit nat | GitFail

record git_port =
  gp_exec :: "string list \<Rightarrow> git_out"
  gp_start :: bool
  gp_batch :: "string \<Rightarrow> string option"

definition tab :: char where
  "tab = CHR 0x09"

definition is_hex :: "char \<Rightarrow> bool" where
  "is_hex c \<longleftrightarrow> is_digit c \<or> CHR ''a'' \<le> c \<and> c \<le> CHR ''f''"

definition full_oid_pattern :: "string \<Rightarrow> bool" where
  "full_oid_pattern s \<longleftrightarrow> (length s = 40 \<or> length s = 64) \<and> list_all is_hex s"

definition has_control :: "string \<Rightarrow> bool" where
  "has_control name \<longleftrightarrow> list_ex (\<lambda>c. c < CHR 0x20 \<or> c = CHR 0x7F) name"

section \<open>One answer of the batch process\<close>

record batch_object =
  bo_oid :: string
  bo_type :: string
  bo_data :: string

definition batch_read :: "string \<Rightarrow> string \<Rightarrow> (batch_object option \<times> string) option" where
  "batch_read name out =
     (case cut_at newline out of (header, rest, found) \<Rightarrow>
        if \<not> found then None
        else if header = name @ '' missing'' \<or> header = name @ '' ambiguous'' then Some (None, rest)
        else
          (case split_on CHR '' '' header of
             [sha, typ, sz] \<Rightarrow>
               if \<not> full_oid_pattern sha then None
               else
                 (case atoi sz of
                    None \<Rightarrow> None
                  | Some n \<Rightarrow>
                      if n < 0 \<or> length rest < Suc (nat n) \<or> rest ! nat n \<noteq> newline then None
                      else Some (Some \<lparr>bo_oid = sha, bo_type = typ, bo_data = take (nat n) rest\<rparr>,
                                 drop (Suc (nat n)) rest))
           | _ \<Rightarrow> None))"

section \<open>Tree objects\<close>

record tree_entry =
  te_mode :: string
  te_oid :: string

definition hex_digit :: "nat \<Rightarrow> char" where
  "hex_digit n = (if n < 10 then char_of (48 + n) else char_of (87 + n))"

definition hex_of :: "string \<Rightarrow> string" where
  "hex_of bs = concat (map (\<lambda>b. [hex_digit (of_char b div 16), hex_digit (of_char b mod 16)]) bs)"

definition next_entry :: "string \<Rightarrow> nat \<Rightarrow> (string \<times> tree_entry \<times> string) option" where
  "next_entry data n =
     (case (index_byte CHR '' '' data, index_byte CHR 0x00 data) of
        (Some sp, Some nul) \<Rightarrow>
          if sp = 0 \<or> nul \<le> Suc sp \<or> length data < Suc nul + n then None
          else Some (take (nul - Suc sp) (drop (Suc sp) data),
                     \<lparr>te_mode = take sp data, te_oid = hex_of (take n (drop (Suc nul) data))\<rparr>,
                     drop (Suc nul + n) data)
      | _ \<Rightarrow> None)"

lemma next_entry_shorter: "next_entry data n = Some (name, e, rest) \<Longrightarrow> length rest < length data"
  by (auto simp: next_entry_def split: option.splits if_splits)

function parse_tree_from ::
  "string \<Rightarrow> nat \<Rightarrow> (string \<rightharpoonup> tree_entry) \<Rightarrow> (string \<rightharpoonup> tree_entry) option" where
  "parse_tree_from data n m =
     (if data = [] then Some m
      else
        (case next_entry data n of
           None \<Rightarrow> None
         | Some (name, e, rest) \<Rightarrow> parse_tree_from rest n (m(name \<mapsto> e))))"
  by pat_completeness auto

termination
  by (relation "measure (\<lambda>(data, n, m). length data)") (auto dest: next_entry_shorter)

declare parse_tree_from.simps [simp del]

definition parse_tree :: "string \<Rightarrow> nat \<Rightarrow> (string \<rightharpoonup> tree_entry) option" where
  "parse_tree data oid_len =
     (if oid_len \<noteq> 20 \<and> oid_len \<noteq> 32 then None else parse_tree_from data oid_len Map.empty)"

section \<open>The read session\<close>

record session =
  se_memo :: "string \<rightharpoonup> git_out"
  se_batch :: bool
  se_broken :: bool
  se_unread :: string
  se_top :: "bool option"
  se_reach :: "string \<rightharpoonup> string list option"

definition new_session :: session where
  "new_session = \<lparr>se_memo = Map.empty, se_batch = False, se_broken = False, se_unread = '''',
     se_top = None, se_reach = Map.empty\<rparr>"

text \<open>What a caller holds: a session or none, and the process-wide shallow answer.\<close>

record reads =
  rd_session :: "session option"
  rd_shallow :: "bool option"

fun memoizable :: "string list \<Rightarrow> bool" where
  "memoizable [a, b] \<longleftrightarrow> a = ''rev-parse'' \<and> b = ''--show-prefix''"
| "memoizable [a, b, c] \<longleftrightarrow> a = ''rev-parse'' \<and> b = ''--verify''"
| "memoizable [a, b, c, d] \<longleftrightarrow>
     a = ''ls-tree'' \<and> b = ''-rz'' \<and> c = ''--full-tree'' \<and> full_oid_pattern d
     \<or> a = ''symbolic-ref'' \<and> b = ''--short'' \<and> c = ''-q''
     \<or> a = ''show-ref'' \<and> b = ''--verify'' \<and> c = ''--quiet''
     \<or> a = ''rev-parse'' \<and> b = ''--verify'' \<and> c = ''-q''"
| "memoizable _ \<longleftrightarrow> False"

definition memo_key :: "string \<Rightarrow> string list \<Rightarrow> string" where
  "memo_key root args = root @ CHR 0x00 # join_with [CHR 0x00] args"

definition memoized :: "git_port \<Rightarrow> string \<Rightarrow> session \<Rightarrow> string list \<Rightarrow> git_out \<times> session" where
  "memoized g root s args =
     (case se_memo s (memo_key root args) of
        Some out \<Rightarrow> (out, s)
      | None \<Rightarrow> (let out = gp_exec g args in (out, s\<lparr>se_memo := (se_memo s)(memo_key root args \<mapsto> out)\<rparr>)))"

definition run_git :: "git_port \<Rightarrow> string \<Rightarrow> reads \<Rightarrow> string list \<Rightarrow> git_out \<times> reads" where
  "run_git g root st args =
     (case rd_session st of
        Some s \<Rightarrow>
          if memoizable args then
            (case memoized g root s args of (out, s') \<Rightarrow> (out, st\<lparr>rd_session := Some s'\<rparr>))
          else (gp_exec g args, st)
      | None \<Rightarrow> (gp_exec g args, st))"

text \<open>One object through the batch process; an unexpected answer stops it for good.\<close>

definition session_object :: "git_port \<Rightarrow> session \<Rightarrow> string \<Rightarrow> batch_object option \<times> session" where
  "session_object g s name =
     (if has_control name \<or> se_broken s then (None, s)
      else if \<not> se_batch s \<and> \<not> gp_start g then (None, s\<lparr>se_broken := True\<rparr>)
      else
        (case gp_batch g name of
           None \<Rightarrow> (None, s\<lparr>se_batch := False, se_broken := True\<rparr>)
         | Some response \<Rightarrow>
             (case batch_read name (se_unread s @ response) of
                None \<Rightarrow> (None, s\<lparr>se_batch := False, se_broken := True\<rparr>)
              | Some (obj, rest) \<Rightarrow> (obj, s\<lparr>se_batch := True, se_unread := rest\<rparr>))))"

definition session_blob :: "git_port \<Rightarrow> session \<Rightarrow> string \<Rightarrow> string \<Rightarrow> string option \<times> session" where
  "session_blob g s rv p =
     (if has_prefix p ''./'' \<or> has_prefix p ''../'' then (None, s)
      else
        (case session_object g s (rv @ '':'' @ p) of
           (None, s') \<Rightarrow> (None, s')
         | (Some obj, s') \<Rightarrow> (if bo_type obj = ''blob'' then Some (bo_data obj) else None, s')))"

definition plain_repo_path :: "string \<Rightarrow> bool" where
  "plain_repo_path p \<longleftrightarrow>
     p \<noteq> '''' \<and> \<not> list_ex (\<lambda>c. c \<in> set [CHR ''*'', CHR ''?'', CHR ''['', CHR 0x5C, CHR '':'']) p
     \<and> \<not> has_control p \<and> list_all (\<lambda>seg. seg \<noteq> '''' \<and> seg \<noteq> ''.'' \<and> seg \<noteq> ''..'') (split_on CHR ''/'' p)"

definition is_top_level :: "git_port \<Rightarrow> string \<Rightarrow> session \<Rightarrow> bool \<times> session" where
  "is_top_level g root s =
     (case se_top s of
        Some b \<Rightarrow> (b, s)
      | None \<Rightarrow>
          (case memoized g root s [''rev-parse'', ''--show-prefix''] of
             (out, s') \<Rightarrow>
               (let b = (case out of GitOk t \<Rightarrow> trim_space t = '''' | _ \<Rightarrow> False)
                in (b, s'\<lparr>se_top := Some b\<rparr>))))"

text \<open>\<^verbatim>\<open>path.Split\<close>: everything up to the last slash, and the rest.\<close>

definition split_base :: "string \<Rightarrow> string" where
  "split_base p = rev (takeWhile (\<lambda>c. c \<noteq> CHR ''/'') (rev p))"

definition split_dir :: "string \<Rightarrow> string" where
  "split_dir p = take (length p - length (split_base p)) p"

text \<open>An answer of the session, or that it cannot answer (\<^verbatim>\<open>ok\<close> false).\<close>

datatype tree_answer = NoAnswer | Absent | Present string

definition session_blob_at_tree :: "batch_object \<Rightarrow> string \<Rightarrow> tree_answer" where
  "session_blob_at_tree tree base =
     (if bo_type tree \<noteq> ''tree'' \<or> length (bo_oid tree) \<noteq> 40 then NoAnswer
      else
        (case parse_tree (bo_data tree) (length (bo_oid tree) div 2) of
           None \<Rightarrow> NoAnswer
         | Some entries \<Rightarrow>
             (case entries base of
                None \<Rightarrow> Absent
              | Some e \<Rightarrow>
                  if te_mode e \<noteq> ''100644'' \<and> te_mode e \<noteq> ''100755'' then NoAnswer else Present (te_oid e))))"

definition session_blob_at ::
  "git_port \<Rightarrow> string \<Rightarrow> session \<Rightarrow> string \<Rightarrow> string \<Rightarrow> tree_answer \<times> session" where
  "session_blob_at g root s ref p =
     (if \<not> plain_repo_path p then (NoAnswer, s)
      else
        (case is_top_level g root s of
           (False, s') \<Rightarrow> (NoAnswer, s')
         | (True, s') \<Rightarrow>
             (case session_object g s' (ref @ '':'' @ trim_suffix (split_dir p) ''/'') of
                (None, s'') \<Rightarrow> (NoAnswer, s'')
              | (Some tree, s'') \<Rightarrow> (session_blob_at_tree tree (split_base p), s''))))"

section \<open>Show and BlobAt\<close>

datatype read_error = RunFailed "string list" git_out | ManyEntries string nat | NotAPlainFile string

definition exec_text :: "git_port \<Rightarrow> string \<Rightarrow> reads \<Rightarrow> string list \<Rightarrow> (read_error + string) \<times> reads" where
  "exec_text g root st args =
     (case run_git g root st args of
        (GitOk out, st') \<Rightarrow> (Inr out, st')
      | (out, st') \<Rightarrow> (Inl (RunFailed args out), st'))"

definition show_file ::
  "git_port \<Rightarrow> string \<Rightarrow> reads \<Rightarrow> string \<Rightarrow> string \<Rightarrow> (read_error + string) \<times> reads" where
  "show_file g root st commit p =
     (case (case rd_session st of
              None \<Rightarrow> (None, st)
            | Some s \<Rightarrow> (case session_blob g s commit p of (r, s') \<Rightarrow> (r, st\<lparr>rd_session := Some s'\<rparr>))) of
        (Some content, st') \<Rightarrow> (Inr content, st')
      | (None, st') \<Rightarrow> exec_text g root st' [''show'', commit @ '':'' @ p])"

definition blob_record :: "string \<Rightarrow> string option" where
  "blob_record line =
     (let sha = take 40 (drop 12 line) in
      if (has_prefix line ''100644 blob '' \<or> has_prefix line ''100755 blob '')
         \<and> length sha = 40 \<and> list_all is_hex sha \<and> has_prefix (drop 52 line) [tab]
      then Some sha else None)"

definition ls_tree_answer :: "string \<Rightarrow> read_error + string option" where
  "ls_tree_answer out =
     (let trimmed = trim_space out in
      if trimmed = '''' then Inr None
      else
        (let ls = split_on newline trimmed in
         if length ls \<noteq> 1 then Inl (ManyEntries trimmed (length ls))
         else
           (case blob_record (hd ls) of
              None \<Rightarrow> Inl (NotAPlainFile (hd ls))
            | Some sha \<Rightarrow> Inr (Some sha))))"

definition blob_at ::
  "git_port \<Rightarrow> string \<Rightarrow> reads \<Rightarrow> string \<Rightarrow> string \<Rightarrow> (read_error + string option) \<times> reads" where
  "blob_at g root st ref p =
     (case (case rd_session st of
              None \<Rightarrow> (NoAnswer, st)
            | Some s \<Rightarrow>
                (case session_blob_at g root s ref p of (r, s') \<Rightarrow> (r, st\<lparr>rd_session := Some s'\<rparr>))) of
        (Absent, st') \<Rightarrow> (Inr None, st')
      | (Present sha, st') \<Rightarrow> (Inr (Some sha), st')
      | (NoAnswer, st') \<Rightarrow>
          (case exec_text g root st' [''ls-tree'', ref, ''--'', p] of
             (Inl e, st'') \<Rightarrow> (Inl e, st'')
           | (Inr out, st'') \<Rightarrow> (ls_tree_answer out, st'')))"

section \<open>The landing of a blob\<close>

fun landing_loop ::
  "git_port \<Rightarrow> string \<Rightarrow> string \<Rightarrow> string \<Rightarrow> string \<Rightarrow> string list \<Rightarrow> reads \<Rightarrow> (read_error + string) \<times> reads" where
  "landing_loop g root p sha candidate [] st = (Inr candidate, st)"
| "landing_loop g root p sha candidate (c # cs) st =
     (case blob_at g root st c p of
        (Inl e, st') \<Rightarrow> (Inl e, st')
      | (Inr found, st') \<Rightarrow>
          landing_loop g root p sha
            (if found = Some sha then (if candidate = '''' then c else candidate) else '''') cs st')"

definition first_parent_blob_landing ::
  "git_port \<Rightarrow> string \<Rightarrow> reads \<Rightarrow> string \<Rightarrow> string \<Rightarrow> string \<Rightarrow> (read_error + string option) \<times> reads" where
  "first_parent_blob_landing g root st ref p sha =
     (case exec_text g root st [''rev-list'', ''--first-parent'', ''--reverse'', ref, ''--'', p] of
        (Inl e, st') \<Rightarrow> (Inl e, st')
      | (Inr out, st') \<Rightarrow>
          (let trimmed = trim_space out in
           if trimmed = '''' then (Inr None, st')
           else
             (case landing_loop g root p sha '''' (split_on newline trimmed) st' of
                (Inl e, st'') \<Rightarrow> (Inl e, st'')
              | (Inr candidate, st'') \<Rightarrow> (Inr (if candidate = '''' then None else Some candidate), st''))))"

section \<open>Reachability\<close>

datatype reachability = Unreachable | Reachable | UnprovableShallow

definition commit_exists :: "git_port \<Rightarrow> string \<Rightarrow> reads \<Rightarrow> string \<Rightarrow> (read_error + bool) \<times> reads" where
  "commit_exists g root st commit =
     (let args = [''rev-parse'', ''--verify'', ''-q'', commit @ ''^{commit}''] in
      case run_git g root st args of
        (GitOk out, st') \<Rightarrow> (Inr True, st')
      | (GitExit n, st') \<Rightarrow>
          (case run_git g root st' [''rev-parse'', ''--git-dir''] of
             (GitOk out, st'') \<Rightarrow> (Inr False, st'')
           | (out, st'') \<Rightarrow> (Inl (RunFailed args (GitExit n)), st''))
      | (GitFail, st') \<Rightarrow> (Inl (RunFailed args GitFail), st'))"

definition is_ancestor ::
  "git_port \<Rightarrow> string \<Rightarrow> reads \<Rightarrow> string \<Rightarrow> string \<Rightarrow> (read_error + bool) \<times> reads" where
  "is_ancestor g root st ancestor commit =
     (let args = [''merge-base'', ''--is-ancestor'', ancestor, commit] in
      case run_git g root st args of
        (GitOk out, st') \<Rightarrow> (Inr True, st')
      | (out, st') \<Rightarrow> (if out = GitExit 1 then Inr False else Inl (RunFailed args out), st'))"

definition shallow_repository :: "git_port \<Rightarrow> string \<Rightarrow> reads \<Rightarrow> (read_error + bool) \<times> reads" where
  "shallow_repository g root st =
     (case rd_shallow st of
        Some b \<Rightarrow> (Inr b, st)
      | None \<Rightarrow>
          (case exec_text g root st [''rev-parse'', ''--is-shallow-repository''] of
             (Inl e, st') \<Rightarrow> (Inl e, st')
           | (Inr out, st') \<Rightarrow>
               (let b = (trim_space out = ''true'') in (Inr b, st'\<lparr>rd_shallow := Some b\<rparr>))))"

definition walk_lines :: "string \<Rightarrow> string list" where
  "walk_lines out = filter (\<lambda>l. l \<noteq> '''') (split_on newline (trim_space out))"

definition session_reachable :: "git_port \<Rightarrow> session \<Rightarrow> string \<Rightarrow> string \<Rightarrow> bool \<times> session" where
  "session_reachable g s commit head =
     (case (case se_reach s head of
              Some w \<Rightarrow> (w, s)
            | None \<Rightarrow>
                (let w = (case gp_exec g [''rev-list'', head, ''--''] of
                            GitOk out \<Rightarrow> Some (walk_lines out) | _ \<Rightarrow> None)
                 in (w, s\<lparr>se_reach := (se_reach s)(head \<mapsto> w)\<rparr>))) of
        (Some commits, s') \<Rightarrow> (commit \<in> set commits, s')
      | (None, s') \<Rightarrow> (False, s'))"

definition direct_reachable ::
  "git_port \<Rightarrow> string \<Rightarrow> reads \<Rightarrow> string \<Rightarrow> string \<Rightarrow> (read_error + reachability) \<times> reads" where
  "direct_reachable g root st commit head =
     (case (case commit_exists g root st commit of
              (Inl e, st') \<Rightarrow> (Inl e, st')
            | (Inr False, st') \<Rightarrow> (Inr False, st')
            | (Inr True, st') \<Rightarrow> is_ancestor g root st' commit head) of
        (Inl e, st') \<Rightarrow> (Inl e, st')
      | (Inr True, st') \<Rightarrow> (Inr Reachable, st')
      | (Inr False, st') \<Rightarrow>
          (case shallow_repository g root st' of
             (Inl e, st'') \<Rightarrow> (Inl e, st'')
           | (Inr shallow, st'') \<Rightarrow> (Inr (if shallow then UnprovableShallow else Unreachable), st'')))"

definition reachable_from_head ::
  "git_port \<Rightarrow> string \<Rightarrow> reads \<Rightarrow> string \<Rightarrow> string \<Rightarrow> (read_error + reachability) \<times> reads" where
  "reachable_from_head g root st commit head =
     (case (case rd_session st of
              None \<Rightarrow> (False, st)
            | Some s \<Rightarrow>
                if full_oid_pattern commit then
                  (case session_reachable g s commit head of (r, s') \<Rightarrow> (r, st\<lparr>rd_session := Some s'\<rparr>))
                else (False, st)) of
        (True, st') \<Rightarrow> (Inr Reachable, st')
      | (False, st') \<Rightarrow> direct_reachable g root st' commit head)"

section \<open>The batch process keeps step\<close>

text \<open>The documented answers of \<^verbatim>\<open>git cat-file --batch\<close> to one request line.\<close>

definition frame :: "string \<Rightarrow> batch_object option \<Rightarrow> string" where
  "frame name answer =
     (case answer of
        None \<Rightarrow> name @ '' missing'' @ [newline]
      | Some obj \<Rightarrow>
          bo_oid obj @ '' '' @ bo_type obj @ '' '' @ show_nat (length (bo_data obj)) @ [newline]
            @ bo_data obj @ [newline])"

definition object_ok :: "batch_object \<Rightarrow> bool" where
  "object_ok obj \<longleftrightarrow> full_oid_pattern (bo_oid obj)
     \<and> CHR '' '' \<notin> set (bo_type obj) \<and> newline \<notin> set (bo_type obj) \<and> length (bo_data obj) < 2 ^ 63"

definition serves :: "git_port \<Rightarrow> (string \<Rightarrow> batch_object option) \<Rightarrow> bool" where
  "serves g answer \<longleftrightarrow> gp_start g
     \<and> (\<forall>name. \<not> has_control name \<longrightarrow> gp_batch g name = Some (frame name (answer name))
          \<and> (\<forall>obj. answer name = Some obj \<longrightarrow> object_ok obj))"

lemma digit_free: "is_digit c \<Longrightarrow> c \<noteq> CHR '' '' \<and> c \<noteq> newline \<and> c \<noteq> CHR ''g'' \<and> c \<noteq> CHR ''s''"
  by (auto simp: is_digit_def newline_def less_eq_char_def)

lemma hex_free: "is_hex c \<Longrightarrow> c \<noteq> CHR '' '' \<and> c \<noteq> newline"
  by (auto simp: is_hex_def is_digit_def newline_def less_eq_char_def)

lemma show_nat_free: "CHR '' '' \<notin> set (show_nat n) \<and> newline \<notin> set (show_nat n)"
  using show_nat_digits[of n] digit_free by (auto simp: list_all_iff)

lemma show_nat_last: "is_digit (last (show_nat n))"
  using show_nat_digits[of n] by (metis last_in_set list_all_iff)

lemma full_oid_free: "full_oid_pattern s \<Longrightarrow> CHR '' '' \<notin> set s \<and> newline \<notin> set s"
  using hex_free by (auto simp: full_oid_pattern_def list_all_iff)

lemma control_free: "\<not> has_control name \<Longrightarrow> newline \<notin> set name \<and> CHR 0x00 \<notin> set name"
proof -
  assume f: "\<not> has_control name"
  have "newline < CHR 0x20" "(CHR 0x00 :: char) < CHR 0x20" by (simp_all add: newline_def less_char_def)
  with f show ?thesis unfolding has_control_def list_ex_iff by blast
qed

lemma batch_read_frame:
  assumes "newline \<notin> set name" "\<And>obj. answer = Some obj \<Longrightarrow> object_ok obj"
  shows "batch_read name (frame name answer @ rest) = Some (answer, rest)"
proof (cases answer)
  case None
  have "cut_at newline ((name @ '' missing'') @ newline # rest) = (name @ '' missing'', rest, True)"
    using assms(1) by (intro cut_append) (auto simp: newline_def)
  with None show ?thesis by (simp add: batch_read_def frame_def)
next
  case (Some obj)
  let ?n = "length (bo_data obj)"
  let ?header = "bo_oid obj @ '' '' @ bo_type obj @ '' '' @ show_nat ?n"
  from assms(2)[OF Some] have ok: "full_oid_pattern (bo_oid obj)" "CHR '' '' \<notin> set (bo_type obj)"
    "newline \<notin> set (bo_type obj)" "?n < 2 ^ 63" by (auto simp: object_ok_def)
  have free: "newline \<notin> set ?header"
    using ok full_oid_free[OF ok(1)] show_nat_free[of ?n] by (auto simp: newline_def)
  have cut: "cut_at newline (?header @ newline # bo_data obj @ newline # rest)
      = (?header, bo_data obj @ newline # rest, True)"
    using cut_append[OF free] by blast
  have fields: "split_on CHR '' '' ?header = [bo_oid obj, bo_type obj, show_nat ?n]"
    using split_on_join[of "[bo_oid obj, bo_type obj, show_nat ?n]" "CHR '' ''"] ok(2)
      full_oid_free[OF ok(1)] show_nat_free[of ?n] by simp
  have "last ?header = last (show_nat ?n)" using show_nat_digits[of ?n] by simp
  then have "is_digit (last ?header)" using show_nat_last[of ?n] by simp
  then have "?header \<noteq> name @ '' missing''" "?header \<noteq> name @ '' ambiguous''"
    by (auto dest!: arg_cong[where f = last] simp: is_digit_def less_eq_char_def)
  with cut fields ok(1) atoi_show_nat[OF ok(4)] Some show ?thesis
    by (simp add: batch_read_def frame_def nth_append)
qed

definition in_step :: "session \<Rightarrow> bool" where
  "in_step s \<longleftrightarrow> \<not> se_broken s \<and> se_unread s = ''''"

lemma session_object_serves:
  assumes "serves g answer" "in_step s"
  shows "\<exists>s'. session_object g s name = (if has_control name then None else answer name, s')
     \<and> in_step s' \<and> se_memo s' = se_memo s \<and> se_top s' = se_top s \<and> se_reach s' = se_reach s"
proof (cases "has_control name")
  case True
  with assms(2) show ?thesis by (simp add: session_object_def)
next
  case False
  with assms(1) have r: "gp_start g" "gp_batch g name = Some (frame name (answer name))"
    "\<And>obj. answer name = Some obj \<Longrightarrow> object_ok obj" by (auto simp: serves_def)
  have "batch_read name (frame name (answer name) @ []) = Some (answer name, [])"
    by (rule batch_read_frame) (use control_free[OF False] r(3) in auto)
  with False r(1,2) assms(2) show ?thesis by (simp add: session_object_def in_step_def)
qed

fun session_objects :: "git_port \<Rightarrow> session \<Rightarrow> string list \<Rightarrow> batch_object option list \<times> session" where
  "session_objects g s [] = ([], s)"
| "session_objects g s (name # names) =
     (case session_object g s name of (r, s') \<Rightarrow>
        (case session_objects g s' names of (rs, s'') \<Rightarrow> (r # rs, s'')))"

section \<open>Trees\<close>

text \<open>The documented bytes of a tree object: mode, space, name, NUL and the raw object id.\<close>

record raw_entry =
  re_mode :: string
  re_name :: string
  re_raw :: string

definition tree_bytes :: "raw_entry list \<Rightarrow> string" where
  "tree_bytes es = concat (map (\<lambda>e. re_mode e @ '' '' @ re_name e @ [CHR 0x00] @ re_raw e) es)"

definition raw_ok :: "nat \<Rightarrow> raw_entry \<Rightarrow> bool" where
  "raw_ok n e \<longleftrightarrow> re_mode e \<noteq> '''' \<and> CHR '' '' \<notin> set (re_mode e) \<and> CHR 0x00 \<notin> set (re_mode e)
     \<and> re_name e \<noteq> '''' \<and> CHR 0x00 \<notin> set (re_name e) \<and> length (re_raw e) = n"

definition entry_of :: "raw_entry \<Rightarrow> tree_entry" where
  "entry_of e = \<lparr>te_mode = re_mode e, te_oid = hex_of (re_raw e)\<rparr>"

lemma next_entry_bytes:
  assumes "raw_ok n e"
  shows "next_entry (tree_bytes (e # es)) n = Some (re_name e, entry_of e, tree_bytes es)"
proof -
  let ?m = "length (re_mode e)"
  let ?t = "re_name e @ [CHR 0x00] @ re_raw e @ tree_bytes es"
  have data: "tree_bytes (e # es) = re_mode e @ CHR '' '' # ?t" by (simp add: tree_bytes_def)
  have sp: "index_byte CHR '' '' (tree_bytes (e # es)) = Some ?m"
    unfolding data using assms by (intro index_byte_first) (simp add: raw_ok_def)
  have "tree_bytes (e # es) = (re_mode e @ CHR '' '' # re_name e) @ CHR 0x00 # (re_raw e @ tree_bytes es)"
    by (simp add: data)
  then have nul: "index_byte CHR 0x00 (tree_bytes (e # es)) = Some (Suc (?m + length (re_name e)))"
    using assms index_byte_first[of "CHR 0x00" "re_mode e @ CHR '' '' # re_name e"] by (simp add: raw_ok_def)
  have "take n (drop (Suc (Suc (?m + length (re_name e)))) (tree_bytes (e # es))) = re_raw e"
    and "drop (Suc (Suc (?m + length (re_name e))) + n) (tree_bytes (e # es)) = tree_bytes es"
    and "take (length (re_name e)) (drop (Suc ?m) (tree_bytes (e # es))) = re_name e"
    and "take ?m (tree_bytes (e # es)) = re_mode e"
    and "length (tree_bytes (e # es)) = Suc (Suc (?m + length (re_name e))) + n + length (tree_bytes es)"
    using assms by (simp_all add: data raw_ok_def)
  with sp nul assms show ?thesis
    by (simp add: next_entry_def entry_of_def raw_ok_def)
qed

lemma parse_tree_from_bytes:
  assumes "\<forall>e \<in> set es. raw_ok n e"
  shows "parse_tree_from (tree_bytes es) n m = Some (m ++ map_of (map (\<lambda>e. (re_name e, entry_of e)) (rev es)))"
  using assms
proof (induction es arbitrary: m)
  case Nil
  then show ?case by (simp add: tree_bytes_def parse_tree_from.simps)
next
  case (Cons e es)
  then have ok: "raw_ok n e" by simp
  then have "tree_bytes (e # es) \<noteq> []" by (simp add: tree_bytes_def raw_ok_def)
  then have "parse_tree_from (tree_bytes (e # es)) n m = parse_tree_from (tree_bytes es) n (m(re_name e \<mapsto> entry_of e))"
    by (subst parse_tree_from.simps) (simp add: next_entry_bytes[OF ok])
  also have "\<dots> = Some (m(re_name e \<mapsto> entry_of e) ++ map_of (map (\<lambda>e. (re_name e, entry_of e)) (rev es)))"
    using Cons by simp
  also have "m(re_name e \<mapsto> entry_of e) ++ map_of (map (\<lambda>e. (re_name e, entry_of e)) (rev es))
      = m ++ map_of (map (\<lambda>e. (re_name e, entry_of e)) (rev (e # es)))"
    by (simp add: map_add_assoc)
  finally show ?case .
qed

lemma parse_tree_bytes:
  assumes "\<forall>e \<in> set es. raw_ok n e" "n = 20 \<or> n = 32"
  shows "parse_tree (tree_bytes es) n = Some (map_of (map (\<lambda>e. (re_name e, entry_of e)) (rev es)))"
  using assms parse_tree_from_bytes[OF assms(1), of Map.empty] by (auto simp: parse_tree_def)

section \<open>What Git documents\<close>

definition at_top :: "git_port \<Rightarrow> bool" where
  "at_top g \<longleftrightarrow> (case gp_exec g [''rev-parse'', ''--show-prefix''] of GitOk t \<Rightarrow> trim_space t = '''' | _ \<Rightarrow> False)"

definition walk_of :: "git_port \<Rightarrow> string \<Rightarrow> string list option" where
  "walk_of g head = (case gp_exec g [''rev-list'', head, ''--''] of GitOk out \<Rightarrow> Some (walk_lines out) | _ \<Rightarrow> None)"

definition show_law :: "git_port \<Rightarrow> (string \<Rightarrow> batch_object option) \<Rightarrow> bool" where
  "show_law g answer \<longleftrightarrow>
     (\<forall>rv p obj. answer (rv @ '':'' @ p) = Some obj \<and> bo_type obj = ''blob''
        \<and> \<not> has_prefix p ''./'' \<and> \<not> has_prefix p ''../'' \<longrightarrow>
        gp_exec g [''show'', rv @ '':'' @ p] = GitOk (bo_data obj))"

text \<open>One listing line of \<^verbatim>\<open>git ls-tree\<close>; \<open>q\<close> is the path as Git quotes it.\<close>

definition listing_line :: "raw_entry \<Rightarrow> string \<Rightarrow> string" where
  "listing_line e q = re_mode e @ '' blob '' @ hex_of (re_raw e) @ [tab] @ q @ [newline]"

definition tree_law :: "git_port \<Rightarrow> (string \<Rightarrow> batch_object option) \<Rightarrow> bool" where
  "tree_law g answer \<longleftrightarrow>
     (\<forall>ref p obj. answer (ref @ '':'' @ trim_suffix (split_dir p) ''/'') = Some obj \<and> bo_type obj = ''tree''
        \<and> length (bo_oid obj) = 40 \<and> at_top g \<and> plain_repo_path p \<longrightarrow>
        (\<exists>es. bo_data obj = tree_bytes es \<and> (\<forall>e \<in> set es. raw_ok 20 e) \<and> distinct (map re_name es)
           \<and> (split_base p \<notin> re_name ` set es \<longrightarrow> gp_exec g [''ls-tree'', ref, ''--'', p] = GitOk '''')
           \<and> (\<forall>e \<in> set es. re_name e = split_base p \<and> re_mode e \<in> {''100644'', ''100755''} \<longrightarrow>
                (\<exists>q. gp_exec g [''ls-tree'', ref, ''--'', p] = GitOk (listing_line e q)
                   \<and> q \<noteq> '''' \<and> newline \<notin> set q \<and> (graphic (last p) \<longrightarrow> graphic (last q))))))"

definition walk_law :: "git_port \<Rightarrow> bool" where
  "walk_law g \<longleftrightarrow>
     (\<forall>head w commit. walk_of g head = Some w \<and> commit \<in> set w \<and> full_oid_pattern commit \<longrightarrow>
        (\<exists>out. gp_exec g [''rev-parse'', ''--verify'', ''-q'', commit @ ''^{commit}''] = GitOk out)
        \<and> (\<exists>out. gp_exec g [''merge-base'', ''--is-ancestor'', commit, head] = GitOk out))"

definition git_laws :: "git_port \<Rightarrow> (string \<Rightarrow> batch_object option) \<Rightarrow> bool" where
  "git_laws g answer \<longleftrightarrow> serves g answer \<and> show_law g answer \<and> tree_law g answer \<and> walk_law g"

section \<open>What a session may hold\<close>

definition plain :: "string list \<Rightarrow> bool" where
  "plain args \<longleftrightarrow> args \<noteq> [] \<and> list_all (\<lambda>a. CHR 0x00 \<notin> set a) args"

lemma memo_key_inj: "plain as \<Longrightarrow> plain bs \<Longrightarrow> memo_key root as = memo_key root bs \<Longrightarrow> as = bs"
proof -
  assume p: "plain as" "plain bs" and k: "memo_key root as = memo_key root bs"
  have "split_on CHR 0x00 (join_with [CHR 0x00] xs) = xs" if "plain xs" for xs
    by (rule split_on_join) (use that in \<open>simp_all add: plain_def list_all_iff\<close>)
  from this[OF p(1)] this[OF p(2)] k show "as = bs" unfolding memo_key_def by (metis append_same_eq list.inject same_append_eq)
qed

definition session_ok :: "git_port \<Rightarrow> string \<Rightarrow> session \<Rightarrow> bool" where
  "session_ok g root s \<longleftrightarrow> in_step s
     \<and> (\<forall>args out. plain args \<and> se_memo s (memo_key root args) = Some out \<longrightarrow> gp_exec g args = out)
     \<and> (\<forall>b. se_top s = Some b \<longrightarrow> b = at_top g)
     \<and> (\<forall>head w. se_reach s head = Some w \<longrightarrow> w = walk_of g head)"

definition reads_ok :: "git_port \<Rightarrow> string \<Rightarrow> reads \<Rightarrow> bool" where
  "reads_ok g root st \<longleftrightarrow> (\<forall>s. rd_session st = Some s \<longrightarrow> session_ok g root s)
     \<and> (\<forall>b. rd_shallow st = Some b \<longrightarrow>
          (\<exists>out. gp_exec g [''rev-parse'', ''--is-shallow-repository''] = GitOk out \<and> b = (trim_space out = ''true'')))"

definition cold :: reads where
  "cold = \<lparr>rd_session = None, rd_shallow = None\<rparr>"

lemma new_session_ok: "session_ok g root new_session"
  by (simp add: session_ok_def new_session_def in_step_def)

lemma memoized_ok:
  assumes "session_ok g root s" "plain args"
  shows "\<exists>s'. memoized g root s args = (gp_exec g args, s') \<and> session_ok g root s'"
proof (cases "se_memo s (memo_key root args)")
  case (Some out)
  with assms show ?thesis by (auto simp: memoized_def session_ok_def)
next
  case None
  let ?s = "s\<lparr>se_memo := (se_memo s)(memo_key root args \<mapsto> gp_exec g args)\<rparr>"
  have "gp_exec g as = out" if "plain as" "se_memo ?s (memo_key root as) = Some out" for as out
    using that assms memo_key_inj[OF that(1) assms(2)]
    by (cases "memo_key root as = memo_key root args") (auto simp: session_ok_def)
  then have "session_ok g root ?s" using assms(1) by (simp add: session_ok_def in_step_def)
  with None show ?thesis by (simp add: memoized_def Let_def)
qed

lemma run_git_ok:
  assumes "reads_ok g root st" "memoizable args \<longrightarrow> plain args"
  shows "\<exists>st'. run_git g root st args = (gp_exec g args, st') \<and> reads_ok g root st'
     \<and> rd_shallow st' = rd_shallow st"
proof (cases "rd_session st")
  case None
  with assms show ?thesis by (simp add: run_git_def)
next
  case (Some s)
  show ?thesis
  proof (cases "memoizable args")
    case False
    with Some assms(1) show ?thesis by (simp add: run_git_def)
  next
    case True
    from Some assms(1) have "session_ok g root s" by (simp add: reads_ok_def)
    from memoized_ok[OF this] True assms(2) obtain s' where
      "memoized g root s args = (gp_exec g args, s')" "session_ok g root s'" by blast
    with Some True assms(1) show ?thesis by (auto simp: run_git_def reads_ok_def)
  qed
qed

lemma run_git_cold [simp]: "run_git g root cold args = (gp_exec g args, cold)"
  by (simp add: run_git_def cold_def)

lemma exec_text_ok:
  assumes "reads_ok g root st" "memoizable args \<longrightarrow> plain args"
  shows "\<exists>st'. exec_text g root st args = (fst (exec_text g root cold args), st') \<and> reads_ok g root st'
     \<and> rd_shallow st' = rd_shallow st"
  using run_git_ok[OF assms] by (cases "gp_exec g args") (auto simp: exec_text_def)

lemma session_object_ok:
  assumes "serves g answer" "session_ok g root s"
  shows "\<exists>s'. session_object g s name = (if has_control name then None else answer name, s') \<and> session_ok g root s'"
  using session_object_serves[OF assms(1), of s name] assms(2) unfolding session_ok_def by metis

lemma is_top_level_ok:
  assumes "session_ok g root s"
  shows "\<exists>s'. is_top_level g root s = (at_top g, s') \<and> session_ok g root s'"
proof (cases "se_top s")
  case (Some b)
  with assms show ?thesis by (simp add: is_top_level_def session_ok_def)
next
  case None
  have "plain [''rev-parse'', ''--show-prefix'']" by (simp add: plain_def)
  from memoized_ok[OF assms this] obtain s' where
    m: "memoized g root s [''rev-parse'', ''--show-prefix''] = (gp_exec g [''rev-parse'', ''--show-prefix''], s')"
    "session_ok g root s'" by blast
  then have "session_ok g root (s'\<lparr>se_top := Some (at_top g)\<rparr>)" by (simp add: session_ok_def in_step_def)
  with None m show ?thesis by (auto simp: is_top_level_def at_top_def Let_def)
qed

section \<open>The session answers as Git does\<close>

lemma session_blob_ok:
  assumes "git_laws g answer" "session_ok g root s"
  shows "\<exists>r s'. session_blob g s rv p = (r, s') \<and> session_ok g root s'
     \<and> (\<forall>content. r = Some content \<longrightarrow> gp_exec g [''show'', rv @ '':'' @ p] = GitOk content)"
proof (cases "has_prefix p ''./'' \<or> has_prefix p ''../''")
  case True
  with assms(2) show ?thesis by (auto simp: session_blob_def)
next
  case False
  from assms(1) have l: "serves g answer" "show_law g answer" by (auto simp: git_laws_def)
  from session_object_ok[OF l(1) assms(2)] obtain s' where
    o: "session_object g s (rv @ '':'' @ p) = (if has_control (rv @ '':'' @ p) then None else answer (rv @ '':'' @ p), s')"
    and s': "session_ok g root s'" by blast
  show ?thesis
  proof (cases "if has_control (rv @ '':'' @ p) then None else answer (rv @ '':'' @ p)")
    case None
    with o False s' show ?thesis by (auto simp: session_blob_def)
  next
    case (Some obj)
    then have a: "answer (rv @ '':'' @ p) = Some obj" by (auto split: if_splits)
    have "gp_exec g [''show'', rv @ '':'' @ p] = GitOk (bo_data obj)" if "bo_type obj = ''blob''"
      using l(2) a that False unfolding show_law_def by blast
    with o[unfolded Some] False s' show ?thesis by (simp add: session_blob_def)
  qed
qed

lemma show_file_ok:
  assumes "git_laws g answer" "reads_ok g root st"
  shows "\<exists>st'. show_file g root st rv p = (fst (show_file g root cold rv p), st') \<and> reads_ok g root st'"
proof -
  let ?args = "[''show'', rv @ '':'' @ p]"
  have direct: "fst (show_file g root cold rv p) = fst (exec_text g root cold ?args)"
    by (simp add: show_file_def cold_def split: prod.split)
  have run: "\<exists>st'. exec_text g root st ?args = (fst (exec_text g root cold ?args), st') \<and> reads_ok g root st'"
    if "reads_ok g root st" for st using exec_text_ok[OF that, of ?args] by auto
  show ?thesis
  proof (cases "rd_session st")
    case None
    with run[OF assms(2)] direct show ?thesis by (simp add: show_file_def)
  next
    case (Some s)
    with assms(2) have "session_ok g root s" by (simp add: reads_ok_def)
    from session_blob_ok[OF assms(1) this, of rv p] obtain r s' where
      b: "session_blob g s rv p = (r, s')" "session_ok g root s'"
        "\<And>content. r = Some content \<Longrightarrow> gp_exec g ?args = GitOk content" by blast
    let ?st = "st\<lparr>rd_session := Some s'\<rparr>"
    have st: "reads_ok g root ?st" using assms(2) b(2) by (simp add: reads_ok_def)
    show ?thesis
    proof (cases r)
      case None
      with run[OF st] direct Some b(1) show ?thesis by (simp add: show_file_def)
    next
      case (Some content)
      from b(3)[OF this] have "fst (exec_text g root cold ?args) = Inr content" by (simp add: exec_text_def)
      with direct Some \<open>rd_session st = Some s\<close> b(1) st show ?thesis by (simp add: show_file_def)
    qed
  qed
qed

lemma hex_digit_hex: "n < 16 \<Longrightarrow> is_hex (hex_digit n)"
  by (auto simp: hex_digit_def is_hex_def is_digit_def less_eq_char_def)

lemma hex_of_shape: "list_all is_hex (hex_of bs) \<and> length (hex_of bs) = 2 * length bs"
proof (induction bs)
  case (Cons b bs)
  have "(of_char b :: nat) < 256" by (metis char_of_mod_256 mod_less_divisor of_char_of of_char_mod_256 zero_less_numeral)
  then have "of_char b div 16 < (16 :: nat)" "of_char b mod 16 < (16 :: nat)"
    by (simp_all add: less_mult_imp_div_less)
  with Cons hex_digit_hex show ?case by (simp add: hex_of_def)
qed (simp add: hex_of_def)

lemma ls_tree_answer_line:
  assumes "re_mode e \<in> {''100644'', ''100755''}" "length (re_raw e) = 20" "q \<noteq> ''''" "newline \<notin> set q"
    "graphic (last q)"
  shows "ls_tree_answer (listing_line e q) = Inr (Some (hex_of (re_raw e)))"
proof -
  let ?h = "hex_of (re_raw e)"
  let ?s = "re_mode e @ '' blob '' @ ?h @ [tab] @ q"
  have h: "list_all is_hex ?h" "length ?h = 40" using hex_of_shape[of "re_raw e"] assms(2) by auto
  have "hd ?s = CHR ''1''" using assms(1) by auto
  then have "graphic (hd ?s)" by (simp add: graphic_def less_eq_char_def)
  moreover have "graphic (last ?s)" using assms(3,5) by simp
  ultimately have trim: "trim_space (listing_line e q) = ?s"
    using trim_space_graphic(2)[of ?s] by (simp add: listing_line_def newline_def)
  have "newline \<notin> set ?h" using h(1) hex_free by (auto simp: list_all_iff)
  then have "newline \<notin> set ?s" using assms(1,4) by (auto simp: newline_def tab_def)
  then have lines: "split_on newline ?s = [?s]" using split_on_join[of "[?s]" newline] by simp
  have "has_prefix ?s ''100644 blob '' \<or> has_prefix ?s ''100755 blob ''"
    using assms(1) by (auto simp: has_prefix_iff)
  moreover have "take 40 (drop 12 ?s) = ?h" "drop 52 ?s = [tab] @ q" using assms(1) h(2) by auto
  moreover have "blob_record t = Some ?h" if "has_prefix t ''100644 blob '' \<or> has_prefix t ''100755 blob ''"
    "take 40 (drop 12 t) = ?h" "drop 52 t = [tab] @ q" for t
    using that h has_prefix_append[of "[tab]" q] by (simp add: blob_record_def Let_def)
  ultimately have "blob_record ?s = Some ?h" by blast
  with trim lines assms(3) show ?thesis by (simp add: ls_tree_answer_def)
qed

lemma split_base_free: "q = split_base p \<Longrightarrow> CHR ''/'' \<notin> set q"
  using set_takeWhileD by (fastforce simp: split_base_def)

lemma session_blob_at_ok:
  assumes "git_laws g answer" "session_ok g root s" "graphic (last p)"
  shows "\<exists>r s'. session_blob_at g root s ref p = (r, s') \<and> session_ok g root s'
     \<and> (r = Absent \<longrightarrow> gp_exec g [''ls-tree'', ref, ''--'', p] = GitOk '''')
     \<and> (\<forall>sha. r = Present sha \<longrightarrow>
          (\<exists>out. gp_exec g [''ls-tree'', ref, ''--'', p] = GitOk out \<and> ls_tree_answer out = Inr (Some sha)))"
proof (cases "plain_repo_path p \<and> at_top g")
  case False
  with is_top_level_ok[OF assms(2)] assms(2) show ?thesis by (auto simp: session_blob_at_def)
next
  case True
  let ?name = "ref @ '':'' @ trim_suffix (split_dir p) ''/''"
  let ?ls = "[''ls-tree'', ref, ''--'', p]"
  from assms(1) have l: "serves g answer" "tree_law g answer" by (auto simp: git_laws_def)
  from is_top_level_ok[OF assms(2)] True obtain s1 where
    t: "is_top_level g root s = (True, s1)" "session_ok g root s1" by auto
  from session_object_ok[OF l(1) t(2), of ?name] obtain s2 where
    o: "session_object g s1 ?name = (if has_control ?name then None else answer ?name, s2)"
    and s2: "session_ok g root s2" by blast
  show ?thesis
  proof (cases "if has_control ?name then None else answer ?name")
    case None
    with o t True s2 show ?thesis by (simp add: session_blob_at_def)
  next
    case (Some obj)
    then have a: "answer ?name = Some obj" by (auto split: if_splits)
    have val: "session_blob_at g root s ref p = (session_blob_at_tree obj (split_base p), s2)"
      using o[unfolded Some] t True by (simp add: session_blob_at_def)
    show ?thesis
    proof (cases "bo_type obj = ''tree'' \<and> length (bo_oid obj) = 40")
      case False
      with val s2 show ?thesis by (auto simp: session_blob_at_tree_def)
    next
      case tree: True
      from l(2) a tree True obtain es where
        es: "bo_data obj = tree_bytes es" "\<forall>e \<in> set es. raw_ok 20 e" "distinct (map re_name es)"
        and gone: "split_base p \<notin> re_name ` set es \<longrightarrow> gp_exec g ?ls = GitOk ''''"
        and here: "\<forall>e \<in> set es. re_name e = split_base p \<and> re_mode e \<in> {''100644'', ''100755''} \<longrightarrow>
            (\<exists>q. gp_exec g ?ls = GitOk (listing_line e q) \<and> q \<noteq> '''' \<and> newline \<notin> set q
              \<and> (graphic (last p) \<longrightarrow> graphic (last q)))"
        unfolding tree_law_def by blast
      let ?m = "map_of (map (\<lambda>e. (re_name e, entry_of e)) (rev es))"
      have parse: "parse_tree (bo_data obj) (length (bo_oid obj) div 2) = Some ?m"
        using parse_tree_bytes[OF es(2)] tree es(1) by simp
      show ?thesis
      proof (cases "?m (split_base p)")
        case None
        then have "split_base p \<notin> re_name ` set es" by (force simp: map_of_eq_None_iff)
        with gone None parse tree val s2 show ?thesis by (simp add: session_blob_at_tree_def)
      next
        case (Some te)
        then obtain e where e: "e \<in> set es" "re_name e = split_base p" "te = entry_of e"
          by (auto dest!: map_of_SomeD)
        show ?thesis
        proof (cases "re_mode e \<in> {''100644'', ''100755''}")
          case False
          with Some e parse tree val s2 show ?thesis by (auto simp: session_blob_at_tree_def entry_of_def)
        next
          case mode: True
          with here e obtain q where q: "gp_exec g ?ls = GitOk (listing_line e q)" "q \<noteq> ''''"
            "newline \<notin> set q" "graphic (last q)" using assms(3) by blast
          have "length (re_raw e) = 20" using es(2) e(1) by (auto simp: raw_ok_def)
          from ls_tree_answer_line[OF mode this q(2-4)] q(1) mode Some e parse tree val s2
          show ?thesis by (auto simp: session_blob_at_tree_def entry_of_def)
        qed
      qed
    qed
  qed
qed

lemma blob_at_ok:
  assumes "git_laws g answer" "reads_ok g root st" "graphic (last p)"
  shows "\<exists>st'. blob_at g root st ref p = (fst (blob_at g root cold ref p), st') \<and> reads_ok g root st'"
proof -
  let ?args = "[''ls-tree'', ref, ''--'', p]"
  let ?direct = "case fst (exec_text g root cold ?args) of Inl e \<Rightarrow> Inl e | Inr out \<Rightarrow> ls_tree_answer out"
  have direct: "fst (blob_at g root cold ref p) = ?direct"
    by (simp add: blob_at_def cold_def split: prod.split sum.split)
  have "\<not> memoizable ?args" by simp
  then have run: "\<exists>st'. exec_text g root st ?args = (fst (exec_text g root cold ?args), st') \<and> reads_ok g root st'"
    if "reads_ok g root st" for st using exec_text_ok[OF that, of ?args] by metis
  show ?thesis
  proof (cases "rd_session st")
    case None
    from run[OF assms(2)] obtain st' where
      "exec_text g root st ?args = (fst (exec_text g root cold ?args), st')" "reads_ok g root st'" by blast
    with None direct show ?thesis by (auto simp: blob_at_def split: sum.split)
  next
    case (Some s)
    with assms(2) have "session_ok g root s" by (simp add: reads_ok_def)
    from session_blob_at_ok[OF assms(1) this assms(3), of ref] obtain r s' where
      b: "session_blob_at g root s ref p = (r, s')" "session_ok g root s'"
      and absent: "r = Absent \<longrightarrow> gp_exec g ?args = GitOk ''''"
      and present: "\<And>sha. r = Present sha \<Longrightarrow>
         \<exists>out. gp_exec g ?args = GitOk out \<and> ls_tree_answer out = Inr (Some sha)" by blast
    let ?st = "st\<lparr>rd_session := Some s'\<rparr>"
    have st: "reads_ok g root ?st" using assms(2) b(2) by (simp add: reads_ok_def)
    show ?thesis
    proof (cases r)
      case NoAnswer
      from run[OF st] obtain st' where
        "exec_text g root ?st ?args = (fst (exec_text g root cold ?args), st')" "reads_ok g root st'" by blast
      with NoAnswer direct Some b(1) show ?thesis by (auto simp: blob_at_def split: sum.split)
    next
      case Absent
      then have "?direct = Inr None" using absent by (simp add: exec_text_def ls_tree_answer_def)
      with Absent direct Some b(1) st show ?thesis by (simp add: blob_at_def)
    next
      case (Present sha)
      then have "?direct = Inr (Some sha)" using present by (auto simp: exec_text_def)
      with Present direct Some b(1) st show ?thesis by (simp add: blob_at_def)
    qed
  qed
qed

lemma exec_text_cold [simp]: "snd (exec_text g root cold args) = cold"
  by (simp add: exec_text_def split: git_out.split)

lemma blob_at_cold: "blob_at g root cold ref p = (fst (blob_at g root cold ref p), cold)"
proof -
  have "snd (blob_at g root cold ref p) = cold"
    using exec_text_cold[of g root "[''ls-tree'', ref, ''--'', p]"]
    by (auto simp: blob_at_def cold_def split: prod.split sum.split)
  then show ?thesis by (metis prod.collapse)
qed

lemma landing_loop_ok:
  assumes "git_laws g answer" "graphic (last p)"
  shows "reads_ok g root st \<Longrightarrow>
    \<exists>st'. landing_loop g root p sha cand cs st = (fst (landing_loop g root p sha cand cs cold), st') \<and> reads_ok g root st'"
proof (induction cs arbitrary: st cand)
  case (Cons c cs)
  obtain st' where b: "blob_at g root st c p = (fst (blob_at g root cold c p), st')" "reads_ok g root st'"
    using blob_at_ok[OF assms(1) Cons.prems assms(2)] by blast
  let ?cand = "\<lambda>found. if found = Some sha then (if cand = '''' then c else cand) else ''''"
  have direct: "landing_loop g root p sha cand (c # cs) cold =
      (case fst (blob_at g root cold c p) of
         Inl e \<Rightarrow> (Inl e, cold) | Inr found \<Rightarrow> landing_loop g root p sha (?cand found) cs cold)"
    by (subst landing_loop.simps, subst blob_at_cold) (simp split: sum.split)
  show ?case
  proof (cases "fst (blob_at g root cold c p)")
    case (Inl e)
    with b direct show ?thesis by simp
  next
    case (Inr found)
    from Cons.IH[OF b(2), of "?cand found"] b(1) Inr direct show ?thesis by (auto simp: Let_def)
  qed
qed simp

lemma first_parent_blob_landing_ok:
  assumes "git_laws g answer" "reads_ok g root st" "graphic (last p)"
  shows "\<exists>st'. first_parent_blob_landing g root st ref p sha =
      (fst (first_parent_blob_landing g root cold ref p sha), st') \<and> reads_ok g root st'"
proof -
  let ?args = "[''rev-list'', ''--first-parent'', ''--reverse'', ref, ''--'', p]"
  obtain st1 where r: "exec_text g root st ?args = (fst (exec_text g root cold ?args), st1)" "reads_ok g root st1"
    using exec_text_ok[OF assms(2), of ?args] by auto
  have c: "exec_text g root cold ?args = (fst (exec_text g root cold ?args), cold)"
    using exec_text_cold by (metis prod.collapse)
  show ?thesis
  proof (cases "fst (exec_text g root cold ?args)")
    case (Inl e)
    with r c show ?thesis by (simp add: first_parent_blob_landing_def)
  next
    case (Inr out)
    let ?cs = "split_on newline (trim_space out)"
    obtain st2 where "landing_loop g root p sha '''' ?cs st1 = (fst (landing_loop g root p sha '''' ?cs cold), st2)"
      "reads_ok g root st2"
      using landing_loop_ok[OF assms(1,3) r(2)] by blast
    moreover obtain x y where "landing_loop g root p sha '''' ?cs cold = (x, y)" by fastforce
    ultimately show ?thesis
      using r c Inr by (cases x) (auto simp: first_parent_blob_landing_def Let_def)
  qed
qed

lemma commit_exists_ok:
  assumes "reads_ok g root st" "CHR 0x00 \<notin> set commit"
  shows "\<exists>st'. commit_exists g root st commit = (fst (commit_exists g root cold commit), st')
     \<and> reads_ok g root st' \<and> rd_shallow st' = rd_shallow st"
proof -
  let ?args = "[''rev-parse'', ''--verify'', ''-q'', commit @ ''^{commit}'']"
  have "plain ?args" using assms(2) by (simp add: plain_def)
  from run_git_ok[OF assms(1), of ?args] this obtain st1 where
    a: "run_git g root st ?args = (gp_exec g ?args, st1)" "reads_ok g root st1" "rd_shallow st1 = rd_shallow st" by blast
  from run_git_ok[OF a(2), of "[''rev-parse'', ''--git-dir'']"] obtain st2 where
    b: "run_git g root st1 [''rev-parse'', ''--git-dir''] = (gp_exec g [''rev-parse'', ''--git-dir''], st2)"
    "reads_ok g root st2" "rd_shallow st2 = rd_shallow st1" by auto
  show ?thesis
    using a b by (cases "gp_exec g ?args"; cases "gp_exec g [''rev-parse'', ''--git-dir'']")
      (auto simp: commit_exists_def Let_def)
qed

lemma is_ancestor_ok:
  assumes "reads_ok g root st"
  shows "\<exists>st'. is_ancestor g root st a c = (fst (is_ancestor g root cold a c), st')
     \<and> reads_ok g root st' \<and> rd_shallow st' = rd_shallow st"
proof -
  let ?args = "[''merge-base'', ''--is-ancestor'', a, c]"
  from run_git_ok[OF assms, of ?args] obtain st1 where
    "run_git g root st ?args = (gp_exec g ?args, st1)" "reads_ok g root st1" "rd_shallow st1 = rd_shallow st" by auto
  then show ?thesis by (cases "gp_exec g ?args") (auto simp: is_ancestor_def Let_def)
qed

lemma shallow_repository_ok:
  assumes "reads_ok g root st"
  shows "\<exists>st'. shallow_repository g root st = (fst (shallow_repository g root cold), st') \<and> reads_ok g root st'"
proof -
  let ?args = "[''rev-parse'', ''--is-shallow-repository'']"
  have cold: "fst (shallow_repository g root cold) =
      (case fst (exec_text g root cold ?args) of Inl e \<Rightarrow> Inl e | Inr out \<Rightarrow> Inr (trim_space out = ''true''))"
    by (simp add: shallow_repository_def cold_def Let_def split: prod.split sum.split)
  show ?thesis
  proof (cases "rd_shallow st")
    case (Some b)
    with assms cold show ?thesis by (auto simp: shallow_repository_def reads_ok_def exec_text_def)
  next
    case None
    obtain st1 where r: "exec_text g root st ?args = (fst (exec_text g root cold ?args), st1)" "reads_ok g root st1"
      using exec_text_ok[OF assms, of ?args] by auto
    show ?thesis
    proof (cases "gp_exec g ?args")
      case (GitOk out)
      then have "reads_ok g root (st1\<lparr>rd_shallow := Some (trim_space out = ''true'')\<rparr>)"
        using r(2) by (simp add: reads_ok_def)
      with GitOk None r cold show ?thesis by (simp add: shallow_repository_def exec_text_def Let_def)
    qed (use None r cold in \<open>simp_all add: shallow_repository_def exec_text_def Let_def\<close>)
  qed
qed

lemma direct_reachable_ok:
  assumes "reads_ok g root st" "CHR 0x00 \<notin> set commit"
  shows "\<exists>st'. direct_reachable g root st commit head = (fst (direct_reachable g root cold commit head), st')
     \<and> reads_ok g root st'"
proof -
  have colds: "snd (commit_exists g root cold commit) = cold" "snd (is_ancestor g root cold commit head) = cold"
    by (auto simp: commit_exists_def is_ancestor_def Let_def split: git_out.split)
  obtain st1 where e: "commit_exists g root st commit = (fst (commit_exists g root cold commit), st1)"
    "reads_ok g root st1" using commit_exists_ok[OF assms] by blast
  obtain st2 where a: "is_ancestor g root st1 commit head = (fst (is_ancestor g root cold commit head), st2)"
    "reads_ok g root st2" using is_ancestor_ok[OF e(2)] by blast
  obtain st3 where s1: "shallow_repository g root st1 = (fst (shallow_repository g root cold), st3)"
    "reads_ok g root st3" using shallow_repository_ok[OF e(2)] by blast
  obtain st4 where s2: "shallow_repository g root st2 = (fst (shallow_repository g root cold), st4)"
    "reads_ok g root st4" using shallow_repository_ok[OF a(2)] by blast
  obtain x where x: "commit_exists g root cold commit = (x, cold)" using colds(1) by (metis prod.collapse)
  obtain y where y: "is_ancestor g root cold commit head = (y, cold)" using colds(2) by (metis prod.collapse)
  obtain z t where z: "shallow_repository g root cold = (z, t)" by fastforce
  show ?thesis
    using e a s1 s2 x y z
    by (cases x; cases "projr x"; cases y; cases "projr y"; cases z)
      (simp_all add: direct_reachable_def split: bool.split)
qed

lemma session_reachable_ok:
  assumes "session_ok g root s"
  shows "\<exists>s'. session_reachable g s commit head =
      ((\<exists>w. walk_of g head = Some w \<and> commit \<in> set w), s') \<and> session_ok g root s'"
proof (cases "se_reach s head")
  case (Some w)
  with assms have "w = walk_of g head" by (simp add: session_ok_def)
  with Some assms show ?thesis by (cases "walk_of g head") (simp_all add: session_reachable_def)
next
  case None
  let ?s = "s\<lparr>se_reach := (se_reach s)(head \<mapsto> walk_of g head)\<rparr>"
  have "session_ok g root ?s" using assms by (auto simp: session_ok_def in_step_def)
  moreover have "session_reachable g s commit head = ((\<exists>w. walk_of g head = Some w \<and> commit \<in> set w), ?s)"
    using None by (cases "gp_exec g [''rev-list'', head, ''--'']")
      (auto simp: session_reachable_def walk_of_def Let_def)
  ultimately show ?thesis by blast
qed

lemma reachable_from_head_ok:
  assumes "git_laws g answer" "reads_ok g root st" "CHR 0x00 \<notin> set commit"
  shows "\<exists>st'. reachable_from_head g root st commit head =
      (fst (reachable_from_head g root cold commit head), st') \<and> reads_ok g root st'"
proof -
  have direct: "fst (reachable_from_head g root cold commit head) = fst (direct_reachable g root cold commit head)"
    by (simp add: reachable_from_head_def cold_def)
  show ?thesis
  proof (cases "\<exists>s. rd_session st = Some s \<and> full_oid_pattern commit")
    case False
    with direct direct_reachable_ok[OF assms(2,3)] show ?thesis
      by (auto simp: reachable_from_head_def split: option.split)
  next
    case True
    then obtain s where s: "rd_session st = Some s" "full_oid_pattern commit" by blast
    with assms(2) have "session_ok g root s" by (simp add: reads_ok_def)
    from session_reachable_ok[OF this, of commit head] obtain s' where
      w: "session_reachable g s commit head = ((\<exists>w. walk_of g head = Some w \<and> commit \<in> set w), s')"
      "session_ok g root s'" by blast
    let ?st = "st\<lparr>rd_session := Some s'\<rparr>"
    have st: "reads_ok g root ?st" using assms(2) w(2) by (simp add: reads_ok_def)
    show ?thesis
    proof (cases "\<exists>w. walk_of g head = Some w \<and> commit \<in> set w")
      case False
      with direct direct_reachable_ok[OF st assms(3)] s w(1) show ?thesis
        by (simp add: reachable_from_head_def)
    next
      case walked: True
      with assms(1) s(2) obtain o1 o2 where
        "gp_exec g [''rev-parse'', ''--verify'', ''-q'', commit @ ''^{commit}''] = GitOk o1"
        "gp_exec g [''merge-base'', ''--is-ancestor'', commit, head] = GitOk o2"
        unfolding git_laws_def walk_law_def by metis
      then have "fst (direct_reachable g root cold commit head) = Inr Reachable"
        by (simp add: direct_reachable_def commit_exists_def is_ancestor_def Let_def)
      with direct s w(1) walked st show ?thesis by (simp add: reachable_from_head_def)
    qed
  qed
qed

section \<open>A streak of a blob\<close>

text \<open>The first-parent chain of a ref, oldest first: every commit, its blob at the path,
  and whether the path-limited listing names it. It names at least the changes.\<close>

type_synonym chain = "(string \<times> string option \<times> bool) list"

fun changes_listed :: "string option \<Rightarrow> chain \<Rightarrow> bool" where
  "changes_listed prev [] = True"
| "changes_listed prev ((c, b, l) # cs) = ((b \<noteq> prev \<longrightarrow> l) \<and> changes_listed b cs)"

definition listed_commits :: "chain \<Rightarrow> string list" where
  "listed_commits chain = map fst (filter (\<lambda>(c, b, l). l) chain)"

definition rev_list_text :: "chain \<Rightarrow> string" where
  "rev_list_text chain = concat (map (\<lambda>c. c @ [newline]) (listed_commits chain))"

definition last_blob :: "chain \<Rightarrow> string option" where
  "last_blob chain = (if chain = [] then None else fst (snd (last chain)))"

definition streak_step :: "string \<Rightarrow> string \<Rightarrow> string \<times> string option \<Rightarrow> string" where
  "streak_step sha cand cb =
     (if snd cb = Some sha then (if cand = '''' then fst cb else cand) else '''')"

lemma changes_listed_snoc:
  "changes_listed prev (us @ [(c, b, l)]) \<longleftrightarrow> changes_listed prev us
     \<and> (b \<noteq> (if us = [] then prev else fst (snd (last us))) \<longrightarrow> l)"
  by (induction prev us rule: changes_listed.induct) auto

definition streak_start :: "string \<Rightarrow> chain \<Rightarrow> string \<Rightarrow> bool" where
  "streak_start sha chain c \<longleftrightarrow>
     (\<exists>us l vs. chain = us @ (c, Some sha, l) # vs \<and> (\<forall>(d, b, k) \<in> set vs. b = Some sha)
        \<and> last_blob us \<noteq> Some sha)"

definition on_chain :: "chain \<Rightarrow> (string \<times> string option) list" where
  "on_chain chain = map (\<lambda>(c, b, l). (c, b)) chain"

lemma streak_full:
  "\<forall>(c, b, l) \<in> set chain. c \<noteq> '''' \<Longrightarrow>
     (foldl (streak_step sha) '''' (on_chain chain) = '''' \<longleftrightarrow> last_blob chain \<noteq> Some sha)
     \<and> (foldl (streak_step sha) '''' (on_chain chain) \<noteq> '''' \<longrightarrow>
          streak_start sha chain (foldl (streak_step sha) '''' (on_chain chain)))"
proof (induction chain rule: rev_induct)
  case Nil
  then show ?case by (simp add: on_chain_def last_blob_def)
next
  case (snoc x us)
  obtain c b l where x: "x = (c, b, l)" by (cases x)
  let ?cand = "foldl (streak_step sha) '''' (on_chain us)"
  have eq: "foldl (streak_step sha) '''' (on_chain (us @ [x])) = streak_step sha ?cand (c, b)"
    by (simp add: on_chain_def x)
  from snoc have IH: "?cand = '''' \<longleftrightarrow> last_blob us \<noteq> Some sha"
    "?cand \<noteq> '''' \<longrightarrow> streak_start sha us ?cand" and c: "c \<noteq> ''''" by (auto simp: x)
  have lastb: "last_blob (us @ [x]) = b" by (simp add: last_blob_def x)
  show ?case
  proof (cases "b = Some sha")
    case False
    then show ?thesis unfolding eq lastb by (simp add: streak_step_def)
  next
    case True
    show ?thesis
    proof (cases "?cand = ''''")
      case new: True
      have "streak_start sha (us @ [x]) c"
        unfolding streak_start_def using IH(1) new True
        by (intro exI[of _ us] exI[of _ l] exI[of _ "[]"]) (simp add: x)
      with new True c show ?thesis unfolding eq lastb by (simp add: streak_step_def)
    next
      case False
      then obtain us' l' vs where "us = us' @ (?cand, Some sha, l') # vs"
        "\<forall>(d, b, k) \<in> set vs. b = Some sha" "last_blob us' \<noteq> Some sha"
        using IH(2) unfolding streak_start_def by blast
      then have "streak_start sha (us @ [x]) ?cand"
        unfolding streak_start_def using True x
        by (intro exI[of _ us'] exI[of _ l'] exI[of _ "vs @ [x]"]) auto
      with False True show ?thesis unfolding eq lastb by (simp add: streak_step_def)
    qed
  qed
qed

lemma streak_listed:
  "changes_listed None chain \<Longrightarrow> \<forall>(c, b, l) \<in> set chain. c \<noteq> '''' \<Longrightarrow>
     foldl (streak_step sha) '''' (on_chain (filter (\<lambda>(c, b, l). l) chain)) = foldl (streak_step sha) '''' (on_chain chain)"
proof (induction chain rule: rev_induct)
  case (snoc x us)
  obtain c b l where x: "x = (c, b, l)" by (cases x)
  from snoc.prems have ch: "changes_listed None us" "b \<noteq> last_blob us \<longrightarrow> l"
    and ne: "\<forall>(c, b, l) \<in> set us. c \<noteq> ''''"
    by (auto simp: x changes_listed_snoc last_blob_def split: if_splits)
  note IH = snoc.IH[OF ch(1) ne]
  show ?case
  proof (cases l)
    case True
    then show ?thesis using IH by (simp add: x on_chain_def)
  next
    case False
    with ch(2) have "b = last_blob us" by blast
    with streak_full[OF ne, of sha]
    have "streak_step sha (foldl (streak_step sha) '''' (on_chain us)) (c, b) = foldl (streak_step sha) '''' (on_chain us)"
      by (auto simp: streak_step_def)
    with False IH show ?thesis by (simp add: x on_chain_def)
  qed
qed simp

definition commit_text :: "string \<Rightarrow> bool" where
  "commit_text c \<longleftrightarrow> c \<noteq> '''' \<and> list_all graphic c"

lemma graphic_newline: "\<not> graphic newline"
  by (simp add: graphic_def newline_def less_eq_char_def)

lemma commit_lines:
  assumes "cs \<noteq> []" "\<forall>c \<in> set cs. commit_text c"
  shows "trim_space (concat (map (\<lambda>c. c @ [newline]) cs)) = join_with [newline] cs"
    and "split_on newline (join_with [newline] cs) = cs" and "join_with [newline] cs \<noteq> ''''"
proof -
  have joined: "concat (map (\<lambda>c. c @ [newline]) cs) = join_with [newline] cs @ [newline]" if "cs \<noteq> []" for cs
    using that
  proof (induction cs)
    case (Cons c cs)
    then show ?case by (cases cs) auto
  qed simp
  have hd_last: "join_with [newline] cs \<noteq> [] \<and> hd (join_with [newline] cs) = hd (hd cs)
      \<and> last (join_with [newline] cs) = last (last cs)"
    if "cs \<noteq> []" "\<forall>c \<in> set cs. commit_text c" for cs
    using that
  proof (induction cs)
    case (Cons c cs)
    then show ?case by (cases cs) (auto simp: commit_text_def)
  qed simp
  have g: "graphic (hd c) \<and> graphic (last c)" if "commit_text c" for c
    using that by (auto simp: commit_text_def list_all_iff)
  note hl = hd_last[OF assms]
  have "graphic (hd (join_with [newline] cs))" "graphic (last (join_with [newline] cs))"
    using hl g assms by auto
  then show "trim_space (concat (map (\<lambda>c. c @ [newline]) cs)) = join_with [newline] cs"
    using joined[OF assms(1)] trim_space_graphic(2)[of "join_with [newline] cs"] hl by (simp add: newline_def)
  show "split_on newline (join_with [newline] cs) = cs"
    using assms graphic_newline by (intro split_on_join) (auto simp: commit_text_def list_all_iff)
  show "join_with [newline] cs \<noteq> ''''" using hl by simp
qed

lemma landing_loop_pure:
  assumes "\<forall>(c, b) \<in> set cbs. fst (blob_at g root cold c p) = Inr b"
  shows "landing_loop g root p sha cand (map fst cbs) cold = (Inr (foldl (streak_step sha) cand cbs), cold)"
  using assms
proof (induction cbs arbitrary: cand)
  case (Cons cb cbs)
  obtain c b where cb: "cb = (c, b)" by (cases cb)
  with Cons.prems have "blob_at g root cold c p = (Inr b, cold)" using blob_at_cold[of g root c p] by auto
  with Cons cb show ?case by (simp add: streak_step_def)
qed simp

section \<open>A sample repository\<close>

definition sample_raw :: raw_entry where
  "sample_raw = \<lparr>re_mode = ''100644'', re_name = ''f'', re_raw = replicate 20 CHR ''A''\<rparr>"

definition sample_blob :: string where
  "sample_blob = ''one'' @ [newline] @ ''two missing'' @ [newline]"

definition sample_answer :: "string \<Rightarrow> batch_object option" where
  "sample_answer name =
     (if name = ''c1:d'' then Some \<lparr>bo_oid = replicate 40 CHR ''b'', bo_type = ''tree'', bo_data = tree_bytes [sample_raw]\<rparr>
      else if name = ''c1:d/f'' then
        Some \<lparr>bo_oid = hex_of (re_raw sample_raw), bo_type = ''blob'', bo_data = sample_blob\<rparr>
      else None)"

fun sample_exec :: "string list \<Rightarrow> git_out" where
  "sample_exec [a, b] =
     (if a = ''show'' then (if b = ''c1:d/f'' then GitOk sample_blob else GitExit 128)
      else GitOk (if b = ''--is-shallow-repository'' then ''false'' else [newline]))"
| "sample_exec [a, b, c] = GitOk (replicate 40 CHR ''a'' @ [newline])"
| "sample_exec [a, b, c, d] =
     (if a = ''ls-tree'' then
        (if split_base d = ''f'' \<and> b \<noteq> ''c0'' then GitOk (listing_line sample_raw d) else GitOk '''')
      else GitOk '''')"
| "sample_exec _ = GitOk (''c1'' @ [newline])"

definition sample_port :: git_port where
  "sample_port = \<lparr>gp_exec = sample_exec, gp_start = True, gp_batch = (\<lambda>name. Some (frame name (sample_answer name)))\<rparr>"

lemma sample_serves: "serves sample_port sample_answer"
proof -
  have "object_ok obj" if "sample_answer name = Some obj" for name obj
  proof -
    have o: "full_oid_pattern (replicate 40 CHR ''b'')" "full_oid_pattern (hex_of (re_raw sample_raw))"
      by code_simp+
    have l: "length (tree_bytes [sample_raw]) < 100" "length sample_blob < 100" by code_simp+
    have "object_ok \<lparr>bo_oid = replicate 40 CHR ''b'', bo_type = ''tree'', bo_data = tree_bytes [sample_raw]\<rparr>"
      "object_ok \<lparr>bo_oid = hex_of (re_raw sample_raw), bo_type = ''blob'', bo_data = sample_blob\<rparr>"
      using o l by (simp_all add: object_ok_def newline_def del: length_replicate)
    with that show ?thesis by (auto simp: sample_answer_def split: if_splits)
  qed
  then show ?thesis by (simp add: serves_def sample_port_def)
qed

lemma sample_tree_law: "tree_law sample_port sample_answer"
proof -
  have raw: "raw_ok 20 sample_raw" by code_simp
  have mode: "re_mode sample_raw \<in> {''100644'', ''100755''}" "re_name sample_raw = ''f''"
    by (simp_all add: sample_raw_def)
  show ?thesis unfolding tree_law_def
  proof (intro allI impI, elim conjE)
    fix ref p obj
    assume a: "sample_answer (ref @ '':'' @ trim_suffix (split_dir p) ''/'') = Some obj" "bo_type obj = ''tree''"
      "length (bo_oid obj) = 40" "at_top sample_port" "plain_repo_path p"
    have d: "ref @ '':'' @ trim_suffix (split_dir p) ''/'' = ''c1:d''"
      and obj: "bo_data obj = tree_bytes [sample_raw]"
      using a(1,2) by (auto simp: sample_answer_def split: if_splits)
    then have "ref \<noteq> ''c0''" by auto
    moreover have "p \<noteq> ''''" "newline \<notin> set p"
      using a(5) control_free by (auto simp: plain_repo_path_def)
    ultimately show "\<exists>es. bo_data obj = tree_bytes es \<and> (\<forall>e \<in> set es. raw_ok 20 e) \<and> distinct (map re_name es)
        \<and> (split_base p \<notin> re_name ` set es \<longrightarrow> gp_exec sample_port [''ls-tree'', ref, ''--'', p] = GitOk '''')
        \<and> (\<forall>e \<in> set es. re_name e = split_base p \<and> re_mode e \<in> {''100644'', ''100755''} \<longrightarrow>
             (\<exists>q. gp_exec sample_port [''ls-tree'', ref, ''--'', p] = GitOk (listing_line e q)
                \<and> q \<noteq> '''' \<and> newline \<notin> set q \<and> (graphic (last p) \<longrightarrow> graphic (last q))))"
      using obj raw mode by (intro exI[of _ "[sample_raw]"]) (auto simp: sample_port_def)
  qed
qed

lemma sample_laws: "git_laws sample_port sample_answer"
  unfolding git_laws_def
proof (intro conjI sample_serves sample_tree_law)
  show "show_law sample_port sample_answer"
    by (auto simp: show_law_def sample_answer_def sample_port_def split: if_splits)
  show "walk_law sample_port" by (simp add: walk_law_def sample_port_def)
qed

section \<open>Properties\<close>

text \<open>The batch process never loses step: whatever the objects contain, header-like
  lines and newlines included, a sequence of requests through one session reads, for
  each name Git can be asked, exactly the object Git answers it with, and leaves no
  byte of the stream unread.\<close>

theorem batch_keeps_step:
  assumes "serves g answer" "in_step s"
  shows "\<exists>s'. session_objects g s names = (map (\<lambda>name. if has_control name then None else answer name) names, s')
     \<and> in_step s'"
  using assms(2)
proof (induction names arbitrary: s)
  case (Cons name names)
  obtain s1 where s1: "session_object g s name = (if has_control name then None else answer name, s1)" "in_step s1"
    using session_object_serves[OF assms(1) Cons.prems] by blast
  from Cons.IH[OF s1(2)] s1(1) show ?case by auto
qed simp

theorem batch_keeps_step_witness:
  "\<exists>s'. session_objects sample_port new_session [''c1:d/f'', ''c1:e'', ''c1:d/f''] =
     ([sample_answer ''c1:d/f'', None, sample_answer ''c1:d/f''], s') \<and> in_step s'"
proof -
  have "in_step new_session" by (simp add: in_step_def new_session_def)
  from batch_keeps_step[OF sample_serves this, of "[''c1:d/f'', ''c1:e'', ''c1:d/f'']"]
  show ?thesis by (simp add: has_control_def sample_answer_def less_char_def)
qed

lemma next_entry_raw:
  assumes "next_entry data n = Some (name, e, rest)"
  obtains r where "raw_ok n r" "data = re_mode r @ '' '' @ re_name r @ [CHR 0x00] @ re_raw r @ rest"
    "name = re_name r" "e = entry_of r"
proof -
  from assms obtain sp nul where i: "index_byte CHR '' '' data = Some sp" "index_byte CHR 0x00 data = Some nul"
    and b: "sp \<noteq> 0" "Suc sp < nul" "Suc nul + n \<le> length data"
    and r: "name = take (nul - Suc sp) (drop (Suc sp) data)"
      "e = \<lparr>te_mode = take sp data, te_oid = hex_of (take n (drop (Suc nul) data))\<rparr>"
      "rest = drop (Suc nul + n) data"
    by (auto simp: next_entry_def split: option.splits if_splits)
  have first: "index_byte c s = Some k \<Longrightarrow> k < length s \<and> s ! k = c \<and> (\<forall>j < k. s ! j \<noteq> c)" for c s k
    by (induction c s arbitrary: k rule: index_byte.induct) (auto simp: nth_Cons split: if_splits nat.splits)
  note sp = first[OF i(1)] and nul = first[OF i(2)]
  let ?r = "\<lparr>re_mode = take sp data, re_name = name, re_raw = take n (drop (Suc nul) data)\<rparr>"
  have "raw_ok n ?r"
    using sp nul b r by (auto simp: raw_ok_def in_set_conv_nth)
  moreover have "data = re_mode ?r @ '' '' @ re_name ?r @ [CHR 0x00] @ re_raw ?r @ rest"
  proof -
    have "data = take sp data @ [data ! sp] @ drop (Suc sp) data" using sp id_take_nth_drop by force
    also have "drop (Suc sp) data = take (nul - Suc sp) (drop (Suc sp) data) @ drop nul data"
      using b by (metis append_take_drop_id drop_drop le_add_diff_inverse2 less_imp_le_nat)
    also have "drop nul data = [data ! nul] @ drop (Suc nul) data" using nul by (metis Cons_nth_drop_Suc append_Cons append_Nil)
    also have "drop (Suc nul) data = take n (drop (Suc nul) data) @ drop (Suc nul + n) data"
      by (metis add.commute append_take_drop_id drop_drop)
    finally show ?thesis using r sp nul by simp
  qed
  ultimately show ?thesis using that[of ?r] r by (simp add: entry_of_def)
qed

lemma parse_tree_from_raw:
  "parse_tree_from data n m = Some m' \<Longrightarrow>
     \<exists>es. data = tree_bytes es \<and> (\<forall>e \<in> set es. raw_ok n e)"
proof (induction data n m rule: parse_tree_from.induct)
  case (1 data n m)
  show ?case
  proof (cases "data = []")
    case True
    then show ?thesis by (intro exI[of _ "[]"]) (simp add: tree_bytes_def)
  next
    case False
    with 1(2) obtain name e rest where ne: "next_entry data n = Some (name, e, rest)"
      and p: "parse_tree_from rest n (m(name \<mapsto> e)) = Some m'"
      by (subst (asm) parse_tree_from.simps) (auto split: option.splits)
    from 1(1)[OF False ne _ _ p] obtain es where es: "rest = tree_bytes es" "\<forall>e \<in> set es. raw_ok n e" by auto
    from next_entry_raw[OF ne] obtain r where "raw_ok n r"
      "data = re_mode r @ '' '' @ re_name r @ [CHR 0x00] @ re_raw r @ rest" by metis
    with es show ?thesis by (intro exI[of _ "r # es"]) (simp add: tree_bytes_def)
  qed
qed

text \<open>The tree parser is the inverse of Git's tree encoding: it accepts exactly the
  concatenations of well-formed entries with 20 or 32 byte ids, nothing truncated or
  malformed, and returns for every name the mode and the hex id of its last entry.\<close>

theorem parse_tree_inverse:
  assumes "n = 20 \<or> n = 32"
  shows "((\<exists>m. parse_tree data n = Some m) \<longleftrightarrow> (\<exists>es. data = tree_bytes es \<and> (\<forall>e \<in> set es. raw_ok n e)))
    \<and> (\<forall>es. (\<forall>e \<in> set es. raw_ok n e) \<longrightarrow>
         parse_tree (tree_bytes es) n = Some (map_of (map (\<lambda>e. (re_name e, entry_of e)) (rev es))))"
proof -
  have roundtrip: "parse_tree (tree_bytes es) n = Some (map_of (map (\<lambda>e. (re_name e, entry_of e)) (rev es)))"
    if "\<forall>e \<in> set es. raw_ok n e" for es using parse_tree_bytes[OF that assms] .
  have "(\<exists>m. parse_tree data n = Some m) \<longleftrightarrow> (\<exists>es. data = tree_bytes es \<and> (\<forall>e \<in> set es. raw_ok n e))"
    using roundtrip parse_tree_from_raw[of data n Map.empty] assms by (auto simp: parse_tree_def)
  with roundtrip show ?thesis by blast
qed

theorem parse_tree_inverse_witness:
  "(\<exists>m. parse_tree (tree_bytes [sample_raw]) 20 = Some m)
   \<and> parse_tree (tree_bytes [sample_raw]) 20 = Some (map_of [(''f'', entry_of sample_raw)])"
proof -
  have ok: "\<forall>e \<in> set [sample_raw]. raw_ok 20 e" by code_simp
  have n: "(20 :: nat) = 20 \<or> (20 :: nat) = 32" by simp
  have "parse_tree (tree_bytes [sample_raw]) 20
      = Some (map_of (map (\<lambda>e. (re_name e, entry_of e)) (rev [sample_raw])))"
    using parse_tree_inverse[OF n, of "tree_bytes [sample_raw]"] ok by blast
  then show ?thesis by (simp add: sample_raw_def)
qed

text \<open>The reads of one request, answered one after the other on the state they share.\<close>

datatype read_request =
    AskShow string string
  | AskBlob string string
  | AskLanding string string string
  | AskReachable string string

datatype read_answer =
    Content "read_error + string"
  | Blob "read_error + string option"
  | Reach "read_error + reachability"

fun ask :: "git_port \<Rightarrow> string \<Rightarrow> reads \<Rightarrow> read_request \<Rightarrow> read_answer \<times> reads" where
  "ask g root st (AskShow rv p) = (case show_file g root st rv p of (r, st') \<Rightarrow> (Content r, st'))"
| "ask g root st (AskBlob ref p) = (case blob_at g root st ref p of (r, st') \<Rightarrow> (Blob r, st'))"
| "ask g root st (AskLanding ref p sha) =
     (case first_parent_blob_landing g root st ref p sha of (r, st') \<Rightarrow> (Blob r, st'))"
| "ask g root st (AskReachable commit head) =
     (case reachable_from_head g root st commit head of (r, st') \<Rightarrow> (Reach r, st'))"

fun ask_all :: "git_port \<Rightarrow> string \<Rightarrow> reads \<Rightarrow> read_request list \<Rightarrow> read_answer list" where
  "ask_all g root st [] = []"
| "ask_all g root st (q # qs) = (case ask g root st q of (a, st') \<Rightarrow> a # ask_all g root st' qs)"

text \<open>Paths end in a printing character, and commit names have no NUL byte.\<close>

fun well_asked :: "read_request \<Rightarrow> bool" where
  "well_asked (AskShow rv p) = True"
| "well_asked (AskBlob ref p) = graphic (last p)"
| "well_asked (AskLanding ref p sha) = graphic (last p)"
| "well_asked (AskReachable commit head) = (CHR 0x00 \<notin> set commit)"

lemma ask_ok:
  assumes "git_laws g answer" "reads_ok g root st" "well_asked q"
  shows "\<exists>st'. ask g root st q = (fst (ask g root cold q), st') \<and> reads_ok g root st'"
proof (cases q)
  case (AskShow rv p)
  with show_file_ok[OF assms(1,2), of rv p] show ?thesis by (auto split: prod.split)
next
  case (AskBlob ref p)
  with blob_at_ok[OF assms(1,2), of p ref] assms(3) show ?thesis by (auto split: prod.split)
next
  case (AskLanding ref p sha)
  with first_parent_blob_landing_ok[OF assms(1,2), of p ref sha] assms(3) show ?thesis by (auto split: prod.split)
next
  case (AskReachable commit head)
  with reachable_from_head_ok[OF assms(1,2), of commit head] assms(3) show ?thesis by (auto split: prod.split)
qed

text \<open>C13. A read session changes no answer: a request that shares one session, its memo,
  its batch process and its walks over any sequence of reads gets, read by read and
  errors included, the answers of a process that asks Git afresh each time, provided
  Git answers as documented while the request lasts.\<close>

theorem session_changes_no_answer:
  assumes "git_laws g answer" "\<forall>q \<in> set qs. well_asked q" "reads_ok g root st"
  shows "ask_all g root st qs = map (\<lambda>q. fst (ask g root cold q)) qs"
  using assms(2,3)
proof (induction qs arbitrary: st)
  case (Cons q qs)
  then obtain st' where "ask g root st q = (fst (ask g root cold q), st')" "reads_ok g root st'"
    using ask_ok[OF assms(1)] by (metis list.set_intros(1))
  with Cons show ?case by simp
qed simp

definition one_session :: reads where
  "one_session = \<lparr>rd_session = Some new_session, rd_shallow = None\<rparr>"

lemma one_session_ok: "reads_ok g root one_session"
  by (simp add: reads_ok_def one_session_def new_session_ok)

lemma sample_blob_at:
  "fst (blob_at sample_port '''' cold c ''d/f'') =
     Inr (if c = ''c0'' then None else Some (hex_of (re_raw sample_raw)))"
proof -
  have "ls_tree_answer (listing_line sample_raw ''d/f'') = Inr (Some (hex_of (re_raw sample_raw)))"
    by (rule ls_tree_answer_line) (simp_all add: sample_raw_def newline_def graphic_def less_eq_char_def)
  moreover have "split_base ''d/f'' = ''f''" by code_simp
  ultimately show ?thesis
    by (simp add: blob_at_def cold_def exec_text_def run_git_def sample_port_def ls_tree_answer_def[of "''''"])
qed

lemma sample_reachable: "fst (reachable_from_head sample_port '''' cold commit head) = Inr Reachable"
  by (simp add: reachable_from_head_def direct_reachable_def commit_exists_def is_ancestor_def run_git_def cold_def
      sample_port_def)

theorem session_changes_no_answer_witness:
  "ask_all sample_port '''' one_session
     [AskShow ''c1'' ''d/f'', AskBlob ''c1'' ''d/f'', AskBlob ''c2'' ''d/f'', AskReachable (replicate 40 CHR ''a'') ''c1'']
   = [Content (Inr sample_blob), Blob (Inr (Some (hex_of (re_raw sample_raw)))),
      Blob (Inr (Some (hex_of (re_raw sample_raw)))), Reach (Inr Reachable)]"
proof -
  let ?qs = "[AskShow ''c1'' ''d/f'', AskBlob ''c1'' ''d/f'', AskBlob ''c2'' ''d/f'',
     AskReachable (replicate 40 CHR ''a'') ''c1'']"
  have "\<forall>q \<in> set ?qs. well_asked q" by (simp add: graphic_def less_eq_char_def)
  from session_changes_no_answer[OF sample_laws this one_session_ok]
  have "ask_all sample_port '''' one_session ?qs = map (\<lambda>q. fst (ask sample_port '''' cold q)) ?qs" .
  moreover have "map (\<lambda>q. fst (ask sample_port '''' cold q)) ?qs =
      [Content (Inr sample_blob), Blob (Inr (Some (hex_of (re_raw sample_raw)))),
       Blob (Inr (Some (hex_of (re_raw sample_raw)))), Reach (Inr Reachable)]"
    using sample_blob_at[of "''c1''"] sample_blob_at[of "''c2''"] sample_reachable[of "replicate 40 CHR ''a''" "''c1''"]
    by (simp add: split_beta show_file_def exec_text_def run_git_def cold_def sample_port_def)
  ultimately show ?thesis by simp
qed

text \<open>The landing of a blob is the start of its present streak: over any first-parent
  chain of which the path-limited listing names at least the commits that change the
  path, the answer is none exactly when the blob is not what the chain ends in, and
  otherwise the commit after which every commit of the chain has the blob and before
  which the last one had not, so a reverted and re-added blob lands at its return.\<close>

theorem blob_landing_starts_streak:
  assumes "git_laws g answer" "reads_ok g root st" "graphic (last p)"
    and "gp_exec g [''rev-list'', ''--first-parent'', ''--reverse'', ref, ''--'', p] = GitOk (rev_list_text chain)"
    and "changes_listed None chain"
    and "\<forall>(c, b, l) \<in> set chain. commit_text c \<and> fst (blob_at g root cold c p) = Inr b"
  shows "\<exists>r. fst (first_parent_blob_landing g root st ref p sha) = Inr r
     \<and> (r = None \<longleftrightarrow> last_blob chain \<noteq> Some sha) \<and> (\<forall>c. r = Some c \<longrightarrow> streak_start sha chain c)"
proof -
  let ?cbs = "on_chain (filter (\<lambda>(c, b, l). l) chain)"
  let ?cand = "foldl (streak_step sha) '''' (on_chain chain)"
  have ne: "\<forall>(c, b, l) \<in> set chain. c \<noteq> ''''" using assms(6) by (auto simp: commit_text_def)
  have listed: "listed_commits chain = map fst ?cbs"
    by (simp add: listed_commits_def on_chain_def comp_def split_def)
  have "\<forall>(c, b) \<in> set ?cbs. fst (blob_at g root cold c p) = Inr b" using assms(6) by (force simp: on_chain_def)
  then have loop: "landing_loop g root p sha '''' (listed_commits chain) cold = (Inr ?cand, cold)"
    unfolding listed streak_listed[OF assms(5) ne, of sha, symmetric] by (rule landing_loop_pure)
  have run: "exec_text g root cold [''rev-list'', ''--first-parent'', ''--reverse'', ref, ''--'', p]
      = (Inr (rev_list_text chain), cold)" using assms(4) by (simp add: exec_text_def)
  have "fst (first_parent_blob_landing g root cold ref p sha) = Inr (if ?cand = '''' then None else Some ?cand)"
  proof (cases "listed_commits chain = []")
    case True
    then have "?cand = ''''" using loop by simp
    with True run show ?thesis by (simp add: first_parent_blob_landing_def rev_list_text_def)
  next
    case False
    have "\<forall>c \<in> set (listed_commits chain). commit_text c"
      using assms(6) by (auto simp: listed_commits_def)
    from commit_lines[OF False this] run loop show ?thesis
      by (simp add: first_parent_blob_landing_def rev_list_text_def)
  qed
  moreover obtain st' where "first_parent_blob_landing g root st ref p sha
      = (fst (first_parent_blob_landing g root cold ref p sha), st')"
    using first_parent_blob_landing_ok[OF assms(1-3)] by blast
  ultimately have "fst (first_parent_blob_landing g root st ref p sha) = Inr (if ?cand = '''' then None else Some ?cand)"
    by simp
  with streak_full[OF ne, of sha] show ?thesis by auto
qed

definition sample_chain :: chain where
  "sample_chain = [(''c0'', None, False), (''c1'', Some (hex_of (re_raw sample_raw)), True),
     (''c2'', Some (hex_of (re_raw sample_raw)), False)]"

theorem blob_landing_starts_streak_witness:
  "\<exists>c. fst (first_parent_blob_landing sample_port '''' one_session ''main'' ''d/f'' (hex_of (re_raw sample_raw)))
     = Inr (Some c) \<and> streak_start (hex_of (re_raw sample_raw)) sample_chain c"
proof -
  have e: "gp_exec sample_port [''rev-list'', ''--first-parent'', ''--reverse'', ''main'', ''--'', ''d/f'']
      = GitOk (rev_list_text sample_chain)" by code_simp
  have g: "graphic (last ''d/f'')" by (simp add: graphic_def less_eq_char_def)
  have l: "changes_listed None sample_chain" by code_simp
  have c: "\<forall>(c, b, l) \<in> set sample_chain. commit_text c \<and> fst (blob_at sample_port '''' cold c ''d/f'') = Inr b"
    by (simp add: sample_blob_at sample_chain_def commit_text_def graphic_def less_eq_char_def)
  from blob_landing_starts_streak[OF sample_laws one_session_ok g e l c]
  obtain r where r: "fst (first_parent_blob_landing sample_port '''' one_session ''main'' ''d/f''
      (hex_of (re_raw sample_raw))) = Inr r"
    "r = None \<longleftrightarrow> last_blob sample_chain \<noteq> Some (hex_of (re_raw sample_raw))"
    "\<forall>c. r = Some c \<longrightarrow> streak_start (hex_of (re_raw sample_raw)) sample_chain c" by blast
  then have "r \<noteq> None" by (simp add: last_blob_def sample_chain_def)
  with r show ?thesis by blast
qed

end
