(* ===== verification/Records.thy ===== *)
theory Records
  imports GitReads Obligations "HOL-Library.Multiset"
begin

text \<open>
  Loading evidence records (internal/evidence/records.go): the authoritative set of a
  derived root, and the passes that disclose what it excludes, the quarantined and
  unreachable records, the undecodable files and the records a shallow clone cannot
  place. A derived root is the tree of its files; \<^verbatim>\<open>ReachableFromHEAD\<close> (theory
  GitReads) is the argument \<open>reach\<close>, from a commit; \<open>dec\<close> holds the JSON parser and
  \<open>h\<close> is SHA-256 in hex.
\<close>

section \<open>The derived root\<close>

datatype node = File read_result | Folder "(string \<times> node) list" | Broken

record record_decoders =
  rj_array :: "string \<Rightarrow> string list option"
  rj_record :: "string \<Rightarrow> string + evidence"

datatype records_error =
    ReadingRoot
  | ReadingFile string
  | CheckingAncestry string read_error
  | CheckingProvenance string read_error
  | WalkingRoot string

type_synonym reach_test = "string \<Rightarrow> read_error + reachability"

definition recordFileNames :: "string list" where
  "recordFileNames = [''verdicts.json'', ''runtime.json'']"

definition is_record_file_name :: "string \<Rightarrow> bool" where
  "is_record_file_name name \<longleftrightarrow> list_ex (\<lambda>rn. name = rn) recordFileNames"

fun is_folder :: "node \<Rightarrow> bool" where
  "is_folder (File r) = False"
| "is_folder _ = True"

text \<open>\<^verbatim>\<open>os.ReadDir\<close> and \<^verbatim>\<open>os.ReadFile\<close>; a folder is not a readable file.\<close>

fun read_dir :: "node option \<Rightarrow> (string \<times> node) list option + unit" where
  "read_dir None = Inl None"
| "read_dir (Some (Folder es)) = Inl (Some es)"
| "read_dir (Some _) = Inr ()"

fun read_child :: "node \<Rightarrow> string \<Rightarrow> read_result" where
  "read_child (Folder es) name =
     (case map_of es name of None \<Rightarrow> ReadMissing | Some (File r) \<Rightarrow> r | Some _ \<Rightarrow> ReadFailed)"
| "read_child _ name = ReadFailed"

definition commit_dirs :: "(string \<times> node) list \<Rightarrow> (string \<times> node) list" where
  "commit_dirs es = filter (\<lambda>e. is_folder (snd e) \<and> rx_match commitRe (fst e)) es"

section \<open>One record file\<close>

datatype array_result =
    ArrayAbsent
  | ArrayUnreadable
  | ArrayUndecodable string
  | ArrayOk "evidence list" string

fun decode_records :: "record_decoders \<Rightarrow> nat \<Rightarrow> string list \<Rightarrow> string + evidence list" where
  "decode_records dec i [] = Inr []"
| "decode_records dec i (rm # rms) =
     (case rj_record dec rm of
        Inl e \<Rightarrow> Inl (''record '' @ show_nat i @ '': '' @ e)
      | Inr r \<Rightarrow>
          if evidence_validate r \<noteq> None then Inl (''record '' @ show_nat i)
          else (case decode_records dec (Suc i) rms of Inl e \<Rightarrow> Inl e | Inr rs \<Rightarrow> Inr (r # rs)))"

definition load_evidence_array :: "record_decoders \<Rightarrow> (string \<Rightarrow> string) \<Rightarrow> read_result \<Rightarrow> array_result" where
  "load_evidence_array dec h file =
     (case file of
        ReadMissing \<Rightarrow> ArrayAbsent
      | read_result.ReadFailed \<Rightarrow> ArrayUnreadable
      | ReadOk content \<Rightarrow>
          (case rj_array dec content of
             None \<Rightarrow> ArrayUndecodable ''unmarshaling''
           | Some raw \<Rightarrow>
               (case decode_records dec 0 raw of
                  Inl e \<Rightarrow> ArrayUndecodable e
                | Inr rs \<Rightarrow> ArrayOk rs (''sha256:'' @ h content))))"

definition record_provenance_reachable ::
  "reach_test \<Rightarrow> string \<Rightarrow> string \<Rightarrow> string \<Rightarrow> reachability \<Rightarrow> read_error + reachability" where
  "record_provenance_reachable reach provenance_commit dir_commit commit dir_reach =
     (if provenance_commit = commit then Inr Reachable
      else if provenance_commit = dir_commit then Inr dir_reach
      else reach provenance_commit)"

fun source_string :: "source \<Rightarrow> string" where
  "source_string SourceCI = ''ci''"
| "source_string SourceLocal = ''local''"
| "source_string (SourceUnknown s) = s"

definition record_sort_key :: "evidence \<Rightarrow> string" where
  "record_sort_key r =
     join_with [CHR 0x00]
       [evidence_kind_string (e_kind r), source_string (ep_source (e_provenance r)),
        ep_commit (e_provenance r), ep_pipeline (e_provenance r), ep_job (e_provenance r),
        e_producer r, e_witness r]"

section \<open>The passes\<close>

text \<open>A pass over a list whose body can fail and yields any number of results.\<close>

fun for_each :: "('a \<Rightarrow> 'e + 'b list) \<Rightarrow> 'a list \<Rightarrow> 'e + 'b list" where
  "for_each f [] = Inr []"
| "for_each f (x # xs) =
     (case f x of
        Inl e \<Rightarrow> Inl e
      | Inr ys \<Rightarrow> (case for_each f xs of Inl e \<Rightarrow> Inl e | Inr zs \<Rightarrow> Inr (ys @ zs)))"

text \<open>What the body of a pass yields: a record, a source file, or an undecodable file.\<close>

datatype found = Rec evidence | Source string string | Undecodable string string

fun recs_of :: "found list \<Rightarrow> evidence list" where
  "recs_of [] = []"
| "recs_of (Rec r # fs) = r # recs_of fs"
| "recs_of (_ # fs) = recs_of fs"

fun sources_of :: "found list \<Rightarrow> (string \<times> string) list" where
  "sources_of [] = []"
| "sources_of (Source p d # fs) = (p, d) # sources_of fs"
| "sources_of (_ # fs) = sources_of fs"

fun undecodable_of :: "found list \<Rightarrow> (string \<times> string) list" where
  "undecodable_of [] = []"
| "undecodable_of (Undecodable p e # fs) = (p, e) # undecodable_of fs"
| "undecodable_of (_ # fs) = undecodable_of fs"

definition load_record ::
  "reach_test \<Rightarrow> string \<Rightarrow> string \<Rightarrow> reachability \<Rightarrow> evidence \<Rightarrow> records_error + found list" where
  "load_record reach commit dir dir_reach r =
     (if e_quarantine r \<noteq> None then Inr []
      else
        (case record_provenance_reachable reach (ep_commit (e_provenance r)) dir commit dir_reach of
           Inl e \<Rightarrow> Inl (CheckingProvenance (ep_commit (e_provenance r)) e)
         | Inr Unreachable \<Rightarrow> Inr []
         | Inr _ \<Rightarrow> Inr [Rec r]))"

definition load_file ::
  "reach_test \<Rightarrow> record_decoders \<Rightarrow> (string \<Rightarrow> string) \<Rightarrow> string \<Rightarrow> string \<times> node \<Rightarrow> reachability \<Rightarrow> string \<Rightarrow>
   records_error + found list" where
  "load_file reach dec h commit d dir_reach name =
     (case load_evidence_array dec h (read_child (snd d) name) of
        ArrayAbsent \<Rightarrow> Inr []
      | ArrayUndecodable e \<Rightarrow> Inr []
      | ArrayUnreadable \<Rightarrow> Inl (ReadingFile (fst d @ ''/'' @ name))
      | ArrayOk rs digest \<Rightarrow>
          (case for_each (load_record reach commit (fst d) dir_reach) rs of
             Inl e \<Rightarrow> Inl e
           | Inr fs \<Rightarrow> Inr (Source (fst d @ ''/'' @ name) digest # fs)))"

definition load_dir ::
  "reach_test \<Rightarrow> record_decoders \<Rightarrow> (string \<Rightarrow> string) \<Rightarrow> string \<Rightarrow> string \<times> node \<Rightarrow>
   records_error + found list" where
  "load_dir reach dec h commit d =
     (case reach (fst d) of
        Inl e \<Rightarrow> Inl (CheckingAncestry (fst d) e)
      | Inr dir_reach \<Rightarrow>
          if dir_reach = Unreachable then Inr []
          else for_each (load_file reach dec h commit d dir_reach) recordFileNames)"

definition load_records_with_sources ::
  "reach_test \<Rightarrow> record_decoders \<Rightarrow> (string \<Rightarrow> string) \<Rightarrow> string \<Rightarrow> node option \<Rightarrow>
   records_error + (evidence list \<times> (string \<times> string) list)" where
  "load_records_with_sources reach dec h commit root =
     (case read_dir root of
        Inr _ \<Rightarrow> Inl ReadingRoot
      | Inl None \<Rightarrow> Inr ([], [])
      | Inl (Some es) \<Rightarrow>
          (case for_each (load_dir reach dec h commit) (commit_dirs es) of
             Inl e \<Rightarrow> Inl e
           | Inr fs \<Rightarrow> Inr (sort_key record_sort_key (recs_of fs), sources_of fs)))"

definition load_records ::
  "reach_test \<Rightarrow> record_decoders \<Rightarrow> (string \<Rightarrow> string) \<Rightarrow> string \<Rightarrow> node option \<Rightarrow> records_error + evidence list" where
  "load_records reach dec h commit root =
     (case load_records_with_sources reach dec h commit root of Inl e \<Rightarrow> Inl e | Inr (rs, ss) \<Rightarrow> Inr rs)"

definition excluded_commit_dirs ::
  "reach_test \<Rightarrow> node option \<Rightarrow> records_error + string list" where
  "excluded_commit_dirs reach root =
     (case read_dir root of
        Inr _ \<Rightarrow> Inl ReadingRoot
      | Inl None \<Rightarrow> Inr []
      | Inl (Some es) \<Rightarrow>
          (case for_each (\<lambda>d. case reach (fst d) of
                  Inl e \<Rightarrow> Inl (CheckingAncestry (fst d) e)
                | Inr r \<Rightarrow> Inr (if r = Unreachable then [fst d] else [])) (commit_dirs es) of
             Inl e \<Rightarrow> Inl e
           | Inr ds \<Rightarrow> Inr (sort ds)))"

section \<open>Disclosure of what is excluded\<close>

definition quarantined_record ::
  "reach_test \<Rightarrow> string \<Rightarrow> string \<Rightarrow> reachability \<Rightarrow> evidence \<Rightarrow> records_error + found list" where
  "quarantined_record reach commit dir dir_reach r =
     (if dir_reach = Unreachable \<or> e_quarantine r \<noteq> None then Inr [Rec r]
      else
        (case record_provenance_reachable reach (ep_commit (e_provenance r)) dir commit dir_reach of
           Inl e \<Rightarrow> Inl (CheckingProvenance (ep_commit (e_provenance r)) e)
         | Inr Unreachable \<Rightarrow> Inr [Rec r]
         | Inr _ \<Rightarrow> Inr []))"

definition quarantined_file ::
  "reach_test \<Rightarrow> record_decoders \<Rightarrow> (string \<Rightarrow> string) \<Rightarrow> string \<Rightarrow> string \<times> node \<Rightarrow> reachability \<Rightarrow> string \<Rightarrow>
   records_error + found list" where
  "quarantined_file reach dec h commit d dir_reach name =
     (case load_evidence_array dec h (read_child (snd d) name) of
        ArrayAbsent \<Rightarrow> Inr []
      | ArrayUndecodable e \<Rightarrow> Inr [Undecodable (fst d @ ''/'' @ name) e]
      | ArrayUnreadable \<Rightarrow> Inr [Undecodable (fst d @ ''/'' @ name) ''reading'']
      | ArrayOk rs digest \<Rightarrow> for_each (quarantined_record reach commit (fst d) dir_reach) rs)"

definition quarantined_dir ::
  "reach_test \<Rightarrow> record_decoders \<Rightarrow> (string \<Rightarrow> string) \<Rightarrow> string \<Rightarrow> string \<times> node \<Rightarrow>
   records_error + found list" where
  "quarantined_dir reach dec h commit d =
     (case reach (fst d) of
        Inl e \<Rightarrow> Inl (CheckingAncestry (fst d) e)
      | Inr dir_reach \<Rightarrow> for_each (quarantined_file reach dec h commit d dir_reach) recordFileNames)"

text \<open>\<^verbatim>\<open>filepath.WalkDir\<close> over the record files, with their paths from the root.\<close>

fun walk_node :: "string list \<Rightarrow> string \<Rightarrow> node \<Rightarrow> records_error + (string list \<times> read_result) list"
  and walk_entries :: "string list \<Rightarrow> (string \<times> node) list \<Rightarrow> records_error + (string list \<times> read_result) list" where
  "walk_node pre name (File r) = Inr (if is_record_file_name name then [(pre @ [name], r)] else [])"
| "walk_node pre name (Folder es) = walk_entries (pre @ [name]) es"
| "walk_node pre name Broken = Inl (WalkingRoot (join_with ''/'' (pre @ [name])))"
| "walk_entries pre [] = Inr []"
| "walk_entries pre ((name, n) # es) =
     (case walk_node pre name n of
        Inl e \<Rightarrow> Inl e
      | Inr fs \<Rightarrow> (case walk_entries pre es of Inl e \<Rightarrow> Inl e | Inr gs \<Rightarrow> Inr (fs @ gs)))"

definition in_commit_dir :: "string list \<Rightarrow> bool" where
  "in_commit_dir parts \<longleftrightarrow> length parts = 2 \<and> rx_match commitRe (hd parts)"

definition undecodable_under_non_commit_paths ::
  "record_decoders \<Rightarrow> (string \<Rightarrow> string) \<Rightarrow> (string \<times> node) list \<Rightarrow> records_error + (string \<times> string) list" where
  "undecodable_under_non_commit_paths dec h es =
     (case walk_entries [] es of
        Inl e \<Rightarrow> Inl e
      | Inr files \<Rightarrow>
          for_each (\<lambda>(parts, r). Inr
            (if in_commit_dir parts then []
             else
               (case load_evidence_array dec h r of
                  ArrayUndecodable e \<Rightarrow> [(join_with ''/'' parts, e)]
                | ArrayUnreadable \<Rightarrow> [(join_with ''/'' parts, ''reading'')]
                | _ \<Rightarrow> []))) files)"

definition quarantined_records ::
  "reach_test \<Rightarrow> record_decoders \<Rightarrow> (string \<Rightarrow> string) \<Rightarrow> string \<Rightarrow> node option \<Rightarrow>
   records_error + (evidence list \<times> (string \<times> string) list)" where
  "quarantined_records reach dec h commit root =
     (case read_dir root of
        Inr _ \<Rightarrow> Inl ReadingRoot
      | Inl None \<Rightarrow> Inr ([], [])
      | Inl (Some es) \<Rightarrow>
          (case for_each (quarantined_dir reach dec h commit) (commit_dirs es) of
             Inl e \<Rightarrow> Inl e
           | Inr fs \<Rightarrow>
               (case undecodable_under_non_commit_paths dec h es of
                  Inl e \<Rightarrow> Inl e
                | Inr deep \<Rightarrow>
                    Inr (sort_key record_sort_key (recs_of fs), sort_key fst (undecodable_of fs @ deep)))))"

definition unprovable_record ::
  "reach_test \<Rightarrow> string \<Rightarrow> string \<Rightarrow> reachability \<Rightarrow> evidence \<Rightarrow> records_error + found list" where
  "unprovable_record reach commit dir dir_reach r =
     (if e_quarantine r \<noteq> None then Inr []
      else
        (case record_provenance_reachable reach (ep_commit (e_provenance r)) dir commit dir_reach of
           Inl e \<Rightarrow> Inl (CheckingProvenance (ep_commit (e_provenance r)) e)
         | Inr UnprovableShallow \<Rightarrow> Inr [Rec r]
         | Inr _ \<Rightarrow> Inr []))"

definition unprovable_dir ::
  "reach_test \<Rightarrow> record_decoders \<Rightarrow> (string \<Rightarrow> string) \<Rightarrow> string \<Rightarrow> string \<times> node \<Rightarrow>
   records_error + found list" where
  "unprovable_dir reach dec h commit d =
     (case reach (fst d) of
        Inl e \<Rightarrow> Inl (CheckingAncestry (fst d) e)
      | Inr dir_reach \<Rightarrow>
          if dir_reach = Unreachable then Inr []
          else
            for_each (\<lambda>name.
              case load_evidence_array dec h (read_child (snd d) name) of
                ArrayOk rs digest \<Rightarrow> for_each (unprovable_record reach commit (fst d) dir_reach) rs
              | _ \<Rightarrow> Inr []) recordFileNames)"

definition unprovable_records ::
  "reach_test \<Rightarrow> record_decoders \<Rightarrow> (string \<Rightarrow> string) \<Rightarrow> string \<Rightarrow> node option \<Rightarrow> records_error + evidence list" where
  "unprovable_records reach dec h commit root =
     (case read_dir root of
        Inr _ \<Rightarrow> Inl ReadingRoot
      | Inl None \<Rightarrow> Inr []
      | Inl (Some es) \<Rightarrow>
          (case for_each (unprovable_dir reach dec h commit) (commit_dirs es) of
             Inl e \<Rightarrow> Inl e
           | Inr fs \<Rightarrow> Inr (sort_key record_sort_key (recs_of fs))))"

section \<open>Passes side by side\<close>

lemma recs_of_append [simp]: "recs_of (fs @ gs) = recs_of fs @ recs_of gs"
  by (induction fs rule: recs_of.induct) auto

lemma undecodable_of_append [simp]: "undecodable_of (fs @ gs) = undecodable_of fs @ undecodable_of gs"
  by (induction fs rule: undecodable_of.induct) auto

lemma for_each_Cons_Inr:
  "for_each f (x # xs) = Inr ys \<longleftrightarrow> (\<exists>a b. f x = Inr a \<and> for_each f xs = Inr b \<and> ys = a @ b)"
  by (auto split: sum.splits)

lemma for_each_split:
  assumes "for_each f xs = Inr A" "for_each g xs = Inr B"
    "\<And>x a b. x \<in> set xs \<Longrightarrow> f x = Inr a \<Longrightarrow> g x = Inr b \<Longrightarrow> mset (recs_of a) + mset (recs_of b) = mset (k x)"
  shows "mset (recs_of A) + mset (recs_of B) = mset (concat (map k xs))"
  using assms
proof (induction xs arbitrary: A B)
  case (Cons x xs)
  obtain a A' where a: "f x = Inr a" "for_each f xs = Inr A'" "A = a @ A'"
    using Cons.prems(1) by (auto simp del: for_each.simps simp: for_each_Cons_Inr)
  obtain b B' where b: "g x = Inr b" "for_each g xs = Inr B'" "B = b @ B'"
    using Cons.prems(2) by (auto simp del: for_each.simps simp: for_each_Cons_Inr)
  have "mset (recs_of a) + mset (recs_of b) = mset (k x)" using Cons.prems(3) a(1) b(1) by simp
  moreover have "mset (recs_of A') + mset (recs_of B') = mset (concat (map k xs))"
    using Cons.IH[OF a(2) b(2)] Cons.prems(3) by simp
  ultimately show ?case
    unfolding a(3) b(3) recs_of_append mset_append list.map concat.simps by (metis union_assoc union_commute)
qed simp

lemma for_each_sub:
  assumes "for_each f xs = Inr A" "for_each g xs = Inr B"
    "\<And>x a b. x \<in> set xs \<Longrightarrow> f x = Inr a \<Longrightarrow> g x = Inr b \<Longrightarrow> mset (recs_of a) \<subseteq># mset (recs_of b)"
  shows "mset (recs_of A) \<subseteq># mset (recs_of B)"
  using assms
proof (induction xs arbitrary: A B)
  case (Cons x xs)
  obtain a A' where a: "f x = Inr a" "for_each f xs = Inr A'" "A = a @ A'"
    using Cons.prems(1) by (auto simp del: for_each.simps simp: for_each_Cons_Inr)
  obtain b B' where b: "g x = Inr b" "for_each g xs = Inr B'" "B = b @ B'"
    using Cons.prems(2) by (auto simp del: for_each.simps simp: for_each_Cons_Inr)
  have "mset (recs_of a) \<subseteq># mset (recs_of b)" using Cons.prems(3)[of x a b] a(1) b(1) by simp
  moreover have "mset (recs_of A') \<subseteq># mset (recs_of B')"
    by (rule Cons.IH[OF a(2) b(2)], rule Cons.prems(3)) simp_all
  ultimately show ?case unfolding a(3) b(3) recs_of_append mset_append by (rule subset_mset.add_mono)
qed simp

lemma for_each_member:
  "for_each f xs = Inr A \<Longrightarrow> r \<in> set (recs_of A) \<Longrightarrow> \<exists>x \<in> set xs. \<exists>a. f x = Inr a \<and> r \<in> set (recs_of a)"
proof (induction xs arbitrary: A)
  case (Cons x xs)
  then show ?case by (auto simp del: for_each.simps simp: for_each_Cons_Inr)
qed simp

section \<open>The records on disk\<close>

fun decoded :: "array_result \<Rightarrow> evidence list" where
  "decoded (ArrayOk rs d) = rs"
| "decoded _ = []"

definition dir_records :: "record_decoders \<Rightarrow> (string \<Rightarrow> string) \<Rightarrow> string \<times> node \<Rightarrow> evidence list" where
  "dir_records dec h d =
     concat (map (\<lambda>name. decoded (load_evidence_array dec h (read_child (snd d) name))) recordFileNames)"

definition root_dirs :: "node option \<Rightarrow> (string \<times> node) list" where
  "root_dirs root = (case root of Some (Folder es) \<Rightarrow> commit_dirs es | _ \<Rightarrow> [])"

definition disk_records :: "record_decoders \<Rightarrow> (string \<Rightarrow> string) \<Rightarrow> node option \<Rightarrow> evidence list" where
  "disk_records dec h root = concat (map (dir_records dec h) (root_dirs root))"

text \<open>Whether a record placed in a commit directory is within the history of the commit.\<close>

definition authoritative :: "reach_test \<Rightarrow> string \<Rightarrow> string \<Rightarrow> evidence \<Rightarrow> bool" where
  "authoritative reach commit dir r \<longleftrightarrow> e_quarantine r = None
     \<and> (\<exists>dr. reach dir = Inr dr \<and> dr \<noteq> Unreachable
          \<and> (\<exists>pr. record_provenance_reachable reach (ep_commit (e_provenance r)) dir commit dr = Inr pr
               \<and> pr \<noteq> Unreachable))"

definition excluded :: "reach_test \<Rightarrow> string \<Rightarrow> string \<Rightarrow> evidence \<Rightarrow> bool" where
  "excluded reach commit dir r \<longleftrightarrow> e_quarantine r \<noteq> None \<or> reach dir = Inr Unreachable
     \<or> (\<exists>dr. reach dir = Inr dr
          \<and> record_provenance_reachable reach (ep_commit (e_provenance r)) dir commit dr = Inr Unreachable)"

lemma file_split:
  assumes "load_file reach dec h commit d dr name = Inr a" "quarantined_file reach dec h commit d dr name = Inr b"
    "dr \<noteq> Unreachable"
  shows "mset (recs_of a) + mset (recs_of b) = mset (decoded (load_evidence_array dec h (read_child (snd d) name)))"
proof (cases "load_evidence_array dec h (read_child (snd d) name)")
  case (ArrayOk rs digest)
  with assms obtain fs where fs: "for_each (load_record reach commit (fst d) dr) rs = Inr fs"
    "a = Source (fst d @ ''/'' @ name) digest # fs"
    by (auto simp: load_file_def split: sum.splits)
  have q: "for_each (quarantined_record reach commit (fst d) dr) rs = Inr b"
    using assms(2) ArrayOk by (simp add: quarantined_file_def)
  have "mset (recs_of fs) + mset (recs_of b) = mset (concat (map (\<lambda>r. [r]) rs))"
    by (rule for_each_split[OF fs(1) q])
      (use assms(3) in \<open>auto simp: load_record_def quarantined_record_def split: if_splits sum.splits reachability.splits\<close>)
  with fs(2) ArrayOk show ?thesis by simp
qed (use assms in \<open>auto simp: load_file_def quarantined_file_def\<close>)

lemma quarantined_all:
  "for_each (quarantined_record reach commit dir Unreachable) rs = Inr b \<Longrightarrow> recs_of b = rs"
  by (induction rs arbitrary: b) (auto simp: quarantined_record_def split: sum.splits)

lemma file_unreachable:
  "quarantined_file reach dec h commit d Unreachable name = Inr b \<Longrightarrow>
     recs_of b = decoded (load_evidence_array dec h (read_child (snd d) name))"
  by (auto simp: quarantined_file_def quarantined_all split: array_result.splits)

lemma for_each_recs:
  assumes "for_each g xs = Inr B" "\<And>x b. x \<in> set xs \<Longrightarrow> g x = Inr b \<Longrightarrow> recs_of b = k x"
  shows "recs_of B = concat (map k xs)"
  using assms
proof (induction xs arbitrary: B)
  case (Cons x xs)
  obtain b B' where b: "g x = Inr b" "for_each g xs = Inr B'" "B = b @ B'"
    using Cons.prems(1) by (auto simp del: for_each.simps simp: for_each_Cons_Inr)
  have "recs_of b = k x" using Cons.prems(2) b(1) by simp
  moreover have "recs_of B' = concat (map k xs)" using Cons.IH[OF b(2)] Cons.prems(2) by simp
  ultimately show ?case by (simp add: b(3))
qed simp

lemma dir_split:
  assumes "load_dir reach dec h commit d = Inr a" "quarantined_dir reach dec h commit d = Inr b"
  shows "mset (recs_of a) + mset (recs_of b) = mset (dir_records dec h d)"
proof -
  from assms(1) obtain dr where dr: "reach (fst d) = Inr dr" by (auto simp: load_dir_def split: sum.splits)
  with assms(2) have q: "for_each (quarantined_file reach dec h commit d dr) recordFileNames = Inr b"
    by (simp add: quarantined_dir_def)
  show ?thesis
  proof (cases "dr = Unreachable")
    case True
    then have "a = []" using assms(1) dr by (simp add: load_dir_def)
    moreover have "recs_of b = dir_records dec h d"
      unfolding dir_records_def by (rule for_each_recs[OF q[unfolded True]], erule file_unreachable)
    ultimately show ?thesis by simp
  next
    case False
    then have "for_each (load_file reach dec h commit d dr) recordFileNames = Inr a"
      using assms(1) dr by (simp add: load_dir_def)
    from this q show ?thesis unfolding dir_records_def
      by (rule for_each_split) (rule file_split[OF _ _ False])
  qed
qed

lemma unprovable_loaded:
  assumes "unprovable_dir reach dec h commit d = Inr a" "load_dir reach dec h commit d = Inr b"
  shows "mset (recs_of a) \<subseteq># mset (recs_of b)"
proof -
  from assms(1) obtain dr where dr: "reach (fst d) = Inr dr" by (auto simp: unprovable_dir_def split: sum.splits)
  show ?thesis
  proof (cases "dr = Unreachable")
    case True
    then show ?thesis using assms dr by (simp add: unprovable_dir_def)
  next
    case False
    let ?u = "\<lambda>name. case load_evidence_array dec h (read_child (snd d) name) of
        ArrayOk rs digest \<Rightarrow> for_each (unprovable_record reach commit (fst d) dr) rs | _ \<Rightarrow> Inr []"
    have u: "for_each ?u recordFileNames = Inr a"
      and l: "for_each (load_file reach dec h commit d dr) recordFileNames = Inr b"
      using assms dr False by (simp_all add: unprovable_dir_def load_dir_def)
    show ?thesis
    proof (rule for_each_sub[OF u l])
      fix name x y
      assume x: "?u name = Inr x" and y: "load_file reach dec h commit d dr name = Inr y"
      show "mset (recs_of x) \<subseteq># mset (recs_of y)"
      proof (cases "load_evidence_array dec h (read_child (snd d) name)")
        case (ArrayOk rs digest)
        with y obtain fs where fs: "for_each (load_record reach commit (fst d) dr) rs = Inr fs"
          "recs_of y = recs_of fs" by (auto simp: load_file_def split: sum.splits)
        have "for_each (unprovable_record reach commit (fst d) dr) rs = Inr x" using x ArrayOk by simp
        from this fs(1) have "mset (recs_of x) \<subseteq># mset (recs_of fs)"
          by (rule for_each_sub)
            (auto simp: unprovable_record_def load_record_def split: if_splits sum.splits reachability.splits)
        with fs(2) show ?thesis by simp
      qed (use x in auto)
    qed
  qed
qed

lemma load_dir_member:
  assumes "load_dir reach dec h commit d = Inr a" "r \<in> set (recs_of a)"
  shows "authoritative reach commit (fst d) r"
proof -
  from assms obtain dr where dr: "reach (fst d) = Inr dr" "dr \<noteq> Unreachable"
    "for_each (load_file reach dec h commit d dr) recordFileNames = Inr a"
    by (auto simp: load_dir_def split: sum.splits if_splits)
  from for_each_member[OF dr(3) assms(2)] obtain name b where
    b: "load_file reach dec h commit d dr name = Inr b" "r \<in> set (recs_of b)" by blast
  then obtain rs fs where fs: "for_each (load_record reach commit (fst d) dr) rs = Inr fs" "r \<in> set (recs_of fs)"
    by (auto simp: load_file_def split: array_result.splits sum.splits)
  from for_each_member[OF this] obtain x c where "load_record reach commit (fst d) dr x = Inr c" "r \<in> set (recs_of c)"
    by blast
  with dr show ?thesis
    by (auto simp: load_record_def authoritative_def split: if_splits sum.splits reachability.splits)
qed

lemma quarantined_dir_member:
  assumes "quarantined_dir reach dec h commit d = Inr a" "r \<in> set (recs_of a)"
  shows "excluded reach commit (fst d) r"
proof -
  from assms obtain dr where dr: "reach (fst d) = Inr dr"
    "for_each (quarantined_file reach dec h commit d dr) recordFileNames = Inr a"
    by (auto simp: quarantined_dir_def split: sum.splits)
  from for_each_member[OF dr(2) assms(2)] obtain name b where
    b: "quarantined_file reach dec h commit d dr name = Inr b" "r \<in> set (recs_of b)" by blast
  then obtain rs where fs: "for_each (quarantined_record reach commit (fst d) dr) rs = Inr b"
    by (auto simp: quarantined_file_def split: array_result.splits)
  from for_each_member[OF this b(2)] obtain x c where
    "quarantined_record reach commit (fst d) dr x = Inr c" "r \<in> set (recs_of c)" by blast
  with dr show ?thesis
    by (auto simp: quarantined_record_def excluded_def split: if_splits sum.splits reachability.splits)
qed

section \<open>Undecodable files\<close>

definition at_entry :: "string list \<Rightarrow> string list \<Rightarrow> read_result \<Rightarrow> string \<Rightarrow> node \<Rightarrow> bool" where
  "at_entry pre parts r name n \<longleftrightarrow>
     (\<exists>rest. parts = pre @ name # rest
        \<and> (rest = [] \<longrightarrow> n = File r \<and> is_record_file_name name)
        \<and> (\<forall>x. rest = [x] \<longrightarrow> (\<exists>es. n = Folder es \<and> (x, File r) \<in> set es \<and> is_record_file_name x)))"

lemma walk_at:
  "walk_node pre name n = Inr fs \<Longrightarrow> (parts, r) \<in> set fs \<Longrightarrow> at_entry pre parts r name n"
  "walk_entries pre es = Inr fs \<Longrightarrow> (parts, r) \<in> set fs \<Longrightarrow> \<exists>(name, n) \<in> set es. at_entry pre parts r name n"
proof (induction pre name n and pre es arbitrary: fs and fs rule: walk_node_walk_entries.induct)
  case (2 pre name es)
  then obtain name' n' where e: "(name', n') \<in> set es" "at_entry (pre @ [name]) parts r name' n'" by auto
  then obtain rest where r: "parts = (pre @ [name]) @ name' # rest"
    "rest = [] \<longrightarrow> n' = File r \<and> is_record_file_name name'" by (auto simp: at_entry_def)
  show ?case unfolding at_entry_def by (rule exI[of _ "name' # rest"]) (use r e(1) in auto)
next
  case (5 pre name n es)
  from 5(3) obtain as bs where ab: "walk_node pre name n = Inr as" "walk_entries pre es = Inr bs" "fs = as @ bs"
    by (auto split: sum.splits)
  show ?case
  proof (cases "(parts, r) \<in> set as")
    case True
    with 5(1)[OF ab(1)] show ?thesis by auto
  next
    case False
    then have "(parts, r) \<in> set bs" using 5(4) ab(3) by simp
    from 5(2)[OF ab(1) ab(2) this] show ?thesis by auto
  qed
qed (auto simp: at_entry_def split: if_splits)

lemma for_each_pure: "for_each (\<lambda>x. Inr (f x)) xs = Inr (concat (map f xs))"
  by (induction xs) auto

lemma for_each_in:
  "for_each f xs = Inr A \<Longrightarrow> x \<in> set xs \<Longrightarrow> \<exists>a. f x = Inr a \<and> set (undecodable_of a) \<subseteq> set (undecodable_of A)"
proof (induction xs arbitrary: A)
  case (Cons y ys)
  obtain a A' where a: "f y = Inr a" "for_each f ys = Inr A'" "A = a @ A'"
    using Cons.prems(1) by (auto simp del: for_each.simps simp: for_each_Cons_Inr)
  with Cons.IH[OF a(2)] Cons.prems(2) show ?case by auto
qed simp

definition undecoded :: "record_decoders \<Rightarrow> (string \<Rightarrow> string) \<Rightarrow> read_result \<Rightarrow> bool" where
  "undecoded dec h r \<longleftrightarrow> (case load_evidence_array dec h r of
     ArrayUndecodable e \<Rightarrow> True | ArrayUnreadable \<Rightarrow> True | _ \<Rightarrow> False)"

lemma quarantined_dir_undecoded:
  assumes "quarantined_dir reach dec h commit d = Inr a" "name \<in> set recordFileNames"
    "undecoded dec h (read_child (snd d) name)"
  shows "fst d @ ''/'' @ name \<in> fst ` set (undecodable_of a)"
proof -
  from assms(1) obtain dr where dr: "for_each (quarantined_file reach dec h commit d dr) recordFileNames = Inr a"
    by (auto simp: quarantined_dir_def split: sum.splits)
  from for_each_in[OF dr assms(2)] obtain b where
    b: "quarantined_file reach dec h commit d dr name = Inr b" "set (undecodable_of b) \<subseteq> set (undecodable_of a)" by blast
  from b(1) assms(3) have "fst d @ ''/'' @ name \<in> fst ` set (undecodable_of b)"
    by (auto simp: quarantined_file_def undecoded_def split: array_result.splits)
  with b(2) show ?thesis by blast
qed

section \<open>Properties\<close>

text \<open>No record file fails in silence: whatever the shape of its path under the derived
  root, a verdicts or runtime file that cannot be read or decoded is listed, by that
  path, among the undecodable files of the disclosure.\<close>

theorem undecodable_disclosed:
  assumes "quarantined_records reach dec h commit (Some (Folder es)) = Inr (quarantined, bad)"
    "walk_entries [] es = Inr files" "(parts, r) \<in> set files" "undecoded dec h r"
    "\<forall>(d, n) \<in> set es. \<forall>ns. n = Folder ns \<longrightarrow> distinct (map fst ns)"
  shows "join_with ''/'' parts \<in> fst ` set bad"
proof -
  from assms(1) obtain gs deep where q: "for_each (quarantined_dir reach dec h commit) (commit_dirs es) = Inr gs"
    and deep: "undecodable_under_non_commit_paths dec h es = Inr deep"
    and bad: "bad = sort_key fst (undecodable_of gs @ deep)"
    by (auto simp: quarantined_records_def split: sum.splits)
  show ?thesis
  proof (cases "in_commit_dir parts")
    case False
    with assms(2-4) deep have "join_with ''/'' parts \<in> fst ` set deep"
      by (force simp: undecodable_under_non_commit_paths_def for_each_pure split_def undecoded_def
          split: array_result.splits)
    with bad show ?thesis by auto
  next
    case True
    then obtain d name where parts: "parts = [d, name]" "rx_match commitRe d"
      by (cases parts rule: list.exhaust; cases "tl parts") (auto simp: in_commit_dir_def length_Suc_conv numeral_2_eq_2)
    from walk_at(2)[OF assms(2,3)] parts(1) obtain n where
      "(d, n) \<in> set es" "at_entry [] [d, name] r d n" by (auto simp: at_entry_def)
    then obtain ns where ns: "(d, Folder ns) \<in> set es" "(name, File r) \<in> set ns" "is_record_file_name name"
      by (auto simp: at_entry_def)
    with assms(5) have "map_of ns name = Some (File r)" by (intro map_of_is_SomeI) auto
    then have "undecoded dec h (read_child (snd (d, Folder ns)) name)" using assms(4) by simp
    moreover have "name \<in> set recordFileNames" using ns(3) by (auto simp: is_record_file_name_def list_ex_iff)
    moreover have "(d, Folder ns) \<in> set (commit_dirs es)" using ns(1) parts(2) by (simp add: commit_dirs_def)
    then obtain a where "quarantined_dir reach dec h commit (d, Folder ns) = Inr a"
      "set (undecodable_of a) \<subseteq> set (undecodable_of gs)" using for_each_in[OF q] by blast
    ultimately have "d @ ''/'' @ name \<in> fst ` set (undecodable_of gs)"
      using quarantined_dir_undecoded[of reach dec h commit "(d, Folder ns)" a name] by auto
    with bad parts show ?thesis by auto
  qed
qed

lemma records_partition_dirs:
  assumes "load_records reach dec h commit root = Inr recs"
    "quarantined_records reach dec h commit root = Inr (quarantined, bad)"
    "unprovable_records reach dec h commit root = Inr unprovable"
  shows "mset recs + mset quarantined = mset (disk_records dec h root)
     \<and> mset unprovable \<subseteq># mset recs
     \<and> (\<forall>r \<in> set recs. \<exists>d \<in> set (root_dirs root). authoritative reach commit (fst d) r)
     \<and> (\<forall>r \<in> set quarantined. \<exists>d \<in> set (root_dirs root). excluded reach commit (fst d) r)"
proof (cases "read_dir root")
  case (Inr u)
  with assms(1) show ?thesis by (simp add: load_records_def load_records_with_sources_def)
next
  case (Inl dir)
  show ?thesis
  proof (cases dir)
    case None
    then have "root = None" using Inl by (cases root; cases "the root") auto
    with assms show ?thesis
      by (simp add: load_records_def load_records_with_sources_def quarantined_records_def unprovable_records_def
          disk_records_def root_dirs_def)
  next
    case (Some es)
    then have root: "root = Some (Folder es)" using Inl by (cases root; cases "the root") auto
    from assms(1) root obtain fs where l: "for_each (load_dir reach dec h commit) (commit_dirs es) = Inr fs"
      "recs = sort_key record_sort_key (recs_of fs)"
      by (auto simp: load_records_def load_records_with_sources_def split: sum.splits)
    from assms(2) root obtain gs where q: "for_each (quarantined_dir reach dec h commit) (commit_dirs es) = Inr gs"
      "quarantined = sort_key record_sort_key (recs_of gs)"
      by (auto simp: quarantined_records_def split: sum.splits)
    from assms(3) root obtain us where u: "for_each (unprovable_dir reach dec h commit) (commit_dirs es) = Inr us"
      "unprovable = sort_key record_sort_key (recs_of us)"
      by (auto simp: unprovable_records_def split: sum.splits)
    have "mset recs + mset quarantined = mset (disk_records dec h root)"
      using for_each_split[OF l(1) q(1) dir_split] l(2) q(2) by (simp add: disk_records_def root_dirs_def root)
    moreover have "mset unprovable \<subseteq># mset recs"
      using for_each_sub[OF u(1) l(1) unprovable_loaded] l(2) u(2) by simp
    moreover have "\<exists>d \<in> set (commit_dirs es). authoritative reach commit (fst d) r" if "r \<in> set recs" for r
      using for_each_member[OF l(1), of r] that l(2) load_dir_member by (metis set_sort)
    moreover have "\<exists>d \<in> set (commit_dirs es). excluded reach commit (fst d) r" if "r \<in> set quarantined" for r
      using for_each_member[OF q(1), of r] that q(2) quarantined_dir_member by (metis set_sort)
    ultimately show ?thesis by (simp add: root root_dirs_def)
  qed
qed

text \<open>No folder below the root holds two entries of one name.\<close>

definition names_distinct :: "node option \<Rightarrow> bool" where
  "names_distinct root \<longleftrightarrow>
     (\<forall>es. root = Some (Folder es) \<longrightarrow> (\<forall>(d, n) \<in> set es. \<forall>ns. n = Folder ns \<longrightarrow> distinct (map fst ns)))"

text \<open>A verdicts or runtime file somewhere below the root that cannot be read or decoded.\<close>

definition damaged :: "record_decoders \<Rightarrow> (string \<Rightarrow> string) \<Rightarrow> node option \<Rightarrow> string list \<Rightarrow> bool" where
  "damaged dec h root parts \<longleftrightarrow>
     (\<exists>es files r. root = Some (Folder es) \<and> walk_entries [] es = Inr files \<and> (parts, r) \<in> set files \<and> undecoded dec h r)"

text \<open>C7. A record in a commit directory of the derived root is used or disclosed, never both
  and never neither: the loaded records and the quarantined ones are together, with
  multiplicity, the records of every decodable verdicts or runtime file of the commit-named
  directories directly below the root; a loaded record carries no quarantine mark and
  neither its directory nor its provenance is known to lie outside the commit's history, a
  quarantined one fails one of these; the records a shallow clone cannot place are all
  among the loaded ones; and every verdicts or runtime file that cannot be read or decoded,
  at whatever depth below the root, is listed by its path. (A decodable file at any other path is
  outside the layout and is neither loaded nor listed, as in the source.)\<close>

theorem records_partition:
  assumes "load_records reach dec h commit root = Inr recs"
    "quarantined_records reach dec h commit root = Inr (quarantined, bad)"
    "unprovable_records reach dec h commit root = Inr unprovable"
    "names_distinct root"
  shows "mset recs + mset quarantined = mset (disk_records dec h root)
     \<and> mset unprovable \<subseteq># mset recs
     \<and> (\<forall>r \<in> set recs. \<exists>d \<in> set (root_dirs root). authoritative reach commit (fst d) r)
     \<and> (\<forall>r \<in> set quarantined. \<exists>d \<in> set (root_dirs root). excluded reach commit (fst d) r)
     \<and> (\<forall>parts. damaged dec h root parts \<longrightarrow> join_with ''/'' parts \<in> fst ` set bad)"
proof -
  have "join_with ''/'' parts \<in> fst ` set bad" if d: "damaged dec h root parts" for parts
  proof -
    obtain es files r where es: "root = Some (Folder es)" "walk_entries [] es = Inr files" "(parts, r) \<in> set files" "undecoded dec h r"
      using d by (auto simp: damaged_def)
    show ?thesis
      using undecodable_disclosed[OF assms(2)[unfolded es(1)] es(2-4)] assms(4) es(1) by (simp add: names_distinct_def)
  qed
  then show ?thesis using records_partition_dirs[OF assms(1-3)] by blast
qed

text \<open>A derived root with one fresh directory, one outside the history and a damaged file.\<close>

definition sample_dir :: "char \<Rightarrow> string" where
  "sample_dir c = replicate 8 c"

definition sample_record_decoders :: record_decoders where
  "sample_record_decoders =
     \<lparr>rj_array = (\<lambda>s. if s = ''damaged'' then None else Some [s]),
      rj_record = (\<lambda>s. Inr ((sample_record ''1'' VerdictPass)\<lparr>e_witness := s,
         e_provenance := (e_provenance (sample_record ''1'' VerdictPass))\<lparr>ep_commit := sample_dir (hd s)\<rparr>,
         e_digest := ''sha256:'' @ replicate 64 CHR ''0''\<rparr>))\<rparr>"

definition sample_root :: node where
  "sample_root = Folder
     [(sample_dir CHR ''a'', Folder [(''verdicts.json'', File (ReadOk ''a1''))]),
      (sample_dir CHR ''b'', Folder [(''runtime.json'', File (ReadOk ''damaged'')), (''verdicts.json'', File (ReadOk ''b1''))])]"

definition sample_reach :: reach_test where
  "sample_reach c = Inr (if c = sample_dir CHR ''a'' then Reachable else Unreachable)"

lemma sample_passes:
  "(case load_records sample_reach sample_record_decoders (\<lambda>s. s) ''cafe'' (Some sample_root) of
      Inl e \<Rightarrow> [] | Inr rs \<Rightarrow> map e_witness rs) = [''a1'']"
  "(case quarantined_records sample_reach sample_record_decoders (\<lambda>s. s) ''cafe'' (Some sample_root) of
      Inl e \<Rightarrow> ([], []) | Inr (rs, bad) \<Rightarrow> (map e_witness rs, map fst bad)) = ([''b1''], [''bbbbbbbb/runtime.json''])"
  "unprovable_records sample_reach sample_record_decoders (\<lambda>s. s) ''cafe'' (Some sample_root) = Inr []"
  by code_simp+

theorem records_partition_witness:
  "\<exists>recs quarantined. map e_witness recs = [''a1''] \<and> map e_witness quarantined = [''b1'']
     \<and> mset recs + mset quarantined = mset (disk_records sample_record_decoders (\<lambda>s. s) (Some sample_root))"
proof -
  let ?load = "load_records sample_reach sample_record_decoders (\<lambda>s. s) ''cafe'' (Some sample_root)"
  let ?quar = "quarantined_records sample_reach sample_record_decoders (\<lambda>s. s) ''cafe'' (Some sample_root)"
  obtain recs where l: "?load = Inr recs" using sample_passes(1) by (cases ?load) auto
  obtain quarantined bad where q: "?quar = Inr (quarantined, bad)" using sample_passes(2) by (cases ?quar) auto
  have "map e_witness recs = [''a1'']" "map e_witness quarantined = [''b1'']"
    using l q sample_passes(1,2) by simp_all
  moreover have "names_distinct (Some sample_root)" by (simp add: names_distinct_def sample_root_def)
  ultimately show ?thesis
    using records_partition[OF l q sample_passes(3)] by (intro exI[of _ recs] exI[of _ quarantined]) simp
qed

theorem undecodable_disclosed_witness:
  "\<exists>quarantined bad. quarantined_records sample_reach sample_record_decoders (\<lambda>s. s) ''cafe'' (Some sample_root)
     = Inr (quarantined, bad) \<and> join_with ''/'' [sample_dir CHR ''b'', ''runtime.json''] \<in> fst ` set bad"
proof -
  obtain es where es: "sample_root = Folder es" by (simp add: sample_root_def)
  let ?quar = "quarantined_records sample_reach sample_record_decoders (\<lambda>s. s) ''cafe'' (Some sample_root)"
  obtain quarantined bad where q: "?quar = Inr (quarantined, bad)" using sample_passes(2) by (cases ?quar) auto
  have w: "walk_entries [] es = Inr
      [([sample_dir CHR ''a'', ''verdicts.json''], ReadOk ''a1''),
       ([sample_dir CHR ''b'', ''runtime.json''], ReadOk ''damaged''),
       ([sample_dir CHR ''b'', ''verdicts.json''], ReadOk ''b1'')]"
    using es by (auto simp: sample_root_def is_record_file_name_def recordFileNames_def)
  have d: "\<forall>(d, n) \<in> set es. \<forall>ns. n = Folder ns \<longrightarrow> distinct (map fst ns)"
    using es by (auto simp: sample_root_def)
  have u: "undecoded sample_record_decoders (\<lambda>s. s) (ReadOk ''damaged'')" by code_simp
  from undecodable_disclosed[OF q[unfolded es] w _ u d, of "[sample_dir CHR ''b'', ''runtime.json'']"] q
  show ?thesis by simp
qed

end
