(* ===== verification/CanonJson.thy ===== *)
theory CanonJson
  imports Prelude
begin

text \<open>
  Canonical JSON (internal/canonjson): the encoding behind every digest and seal of
  the store. A value is the generic form \<^verbatim>\<open>json.Decoder\<close> yields (\<^verbatim>\<open>UseNumber\<close>: numbers
  keep their literal), an object an association list with distinct keys, so a Go map
  in some order. \<open>canon_marshal\<close> is \<^verbatim>\<open>Marshal\<close> from there on, \<open>canon_digest\<close> is \<^verbatim>\<open>Digest\<close>
  with SHA-256 in hex as the argument \<open>h\<close>; \<open>json_text\<close> is what the first encoding does to a
  Go string, which need not be UTF-8.
\<close>

section \<open>Values\<close>

datatype json =
    JNull
  | JBool bool
  | JNum string
  | JStr string
  | JArr "json list"
  | JObj "(string \<times> json) list"

definition low_digit :: "nat \<Rightarrow> char" where
  "low_digit n = (if n < 10 then char_of (48 + n) else char_of (87 + n))"

definition backslash :: char where
  "backslash = CHR 0x5C"

definition quote_mark :: char where
  "quote_mark = CHR 0x22"

section \<open>Scalars\<close>

text \<open>One byte below \<^verbatim>\<open>utf8.RuneSelf\<close>, or an invalid one, as \<^verbatim>\<open>encoding/json\<close> writes it
  with HTML escaping off.\<close>

definition escape_byte :: "char \<Rightarrow> string" where
  "escape_byte c =
     (if c = quote_mark \<or> c = backslash then [backslash, c]
      else if c = CHR 0x08 then [backslash, CHR ''b'']
      else if c = CHR 0x0C then [backslash, CHR ''f'']
      else if c = CHR 0x0A then [backslash, CHR ''n'']
      else if c = CHR 0x0D then [backslash, CHR ''r'']
      else if c = CHR 0x09 then [backslash, CHR ''t'']
      else if of_char c < (0x20 :: nat) then
        [backslash, CHR ''u'', CHR ''0'', CHR ''0'', low_digit (of_char c div 16), low_digit (of_char c mod 16)]
      else if of_char c < (0x80 :: nat) then [c]
      else [backslash, CHR ''u'', CHR ''f'', CHR ''f'', CHR ''f'', CHR ''d''])"

definition escape_rune :: "string \<Rightarrow> string" where
  "escape_rune r =
     (if r = [CHR 0xE2, CHR 0x80, CHR 0xA8] then [backslash, CHR ''u'', CHR ''2'', CHR ''0'', CHR ''2'', CHR ''8'']
      else if r = [CHR 0xE2, CHR 0x80, CHR 0xA9] then [backslash, CHR ''u'', CHR ''2'', CHR ''0'', CHR ''2'', CHR ''9'']
      else case r of [c] \<Rightarrow> escape_byte c | _ \<Rightarrow> r)"

function escape :: "string \<Rightarrow> string" where
  "escape [] = []"
| "escape (c # s) =
     escape_rune (take (rune_width (c # s)) (c # s)) @ escape (drop (rune_width (c # s)) (c # s))"
  by pat_completeness auto

termination
  by (relation "measure length") (auto simp: rune_width_pos)

text \<open>A Go string once it has been through \<^verbatim>\<open>json.Marshal\<close> and back: every invalid byte
  is U+FFFD.\<close>

function coerce_utf8 :: "string \<Rightarrow> string" where
  "coerce_utf8 [] = []"
| "coerce_utf8 (c # s) =
     (let r = take (rune_width (c # s)) (c # s) in
      if length r = 1 \<and> (0x80 :: nat) \<le> of_char c then [CHR 0xEF, CHR 0xBF, CHR 0xBD] else r)
     @ coerce_utf8 (drop (rune_width (c # s)) (c # s))"
  by pat_completeness auto

termination
  by (relation "measure length") (auto simp: rune_width_pos)

declare escape.simps(2) [simp del] coerce_utf8.simps(2) [simp del]

definition json_text :: "string \<Rightarrow> json" where
  "json_text s = JStr (coerce_utf8 s)"

definition json_nat :: "nat \<Rightarrow> json" where
  "json_nat n = JNum (show_nat n)"

definition quoted :: "string \<Rightarrow> string" where
  "quoted s = quote_mark # escape s @ [quote_mark]"

fun encode_scalar :: "json \<Rightarrow> string" where
  "encode_scalar JNull = ''null''"
| "encode_scalar (JBool b) = (if b then ''true'' else ''false'')"
| "encode_scalar (JNum n) = n"
| "encode_scalar (JStr s) = quoted s"
| "encode_scalar _ = ''''"

section \<open>The recursive encoder\<close>

fun encode_json :: "json \<Rightarrow> string" where
  "encode_json (JObj kvs) =
     ''{'' @ join_with '','' (map (\<lambda>(k, t). quoted k @ '':'' @ t)
       (sort_key fst (map (\<lambda>(k, v). (k, encode_json v)) kvs))) @ ''}''"
| "encode_json (JArr vs) = ''['' @ join_with '','' (map encode_json vs) @ '']''"
| "encode_json v = encode_scalar v"

definition canon_marshal :: "json \<Rightarrow> string" where
  "canon_marshal v = encode_json v @ [CHR 0x0A]"

definition canon_digest :: "(string \<Rightarrow> string) \<Rightarrow> json \<Rightarrow> string" where
  "canon_digest h v = ''sha256:'' @ h (canon_marshal v)"

section \<open>What is encoded\<close>

text \<open>The values the decoder can yield: valid strings, number literals, distinct keys.\<close>

definition num_char :: "char \<Rightarrow> bool" where
  "num_char c \<longleftrightarrow> is_digit c \<or> c \<in> {CHR ''-'', CHR ''+'', CHR ''.'', CHR ''e'', CHR ''E''}"

definition num_literal :: "string \<Rightarrow> bool" where
  "num_literal n \<longleftrightarrow> n \<noteq> '''' \<and> list_all num_char n \<and> (is_digit (hd n) \<or> hd n = CHR ''-'')"

fun json_ok :: "json \<Rightarrow> bool" where
  "json_ok (JNum n) = num_literal n"
| "json_ok (JStr s) = utf8_valid s"
| "json_ok (JArr vs) = list_all json_ok vs"
| "json_ok (JObj kvs) = (distinct (map fst kvs) \<and> list_all (\<lambda>(k, v). utf8_valid k \<and> json_ok v) kvs)"
| "json_ok _ = True"

text \<open>The same value with the keys of every object in order.\<close>

fun canon :: "json \<Rightarrow> json" where
  "canon (JArr vs) = JArr (map canon vs)"
| "canon (JObj kvs) = JObj (sort_key fst (map (\<lambda>(k, v). (k, canon v)) kvs))"
| "canon v = v"

fun plain_text :: "json \<Rightarrow> string" where
  "plain_text (JObj kvs) =
     ''{'' @ join_with '','' (map (\<lambda>(k, t). quoted k @ '':'' @ t) (map (\<lambda>(k, v). (k, plain_text v)) kvs)) @ ''}''"
| "plain_text (JArr vs) = ''['' @ join_with '','' (map plain_text vs) @ '']''"
| "plain_text v = encode_scalar v"

lemma insort_key_map: "insort_key f (g x) (map g xs) = map g (insort_key (f \<circ> g) x xs)"
  by (induction xs) auto

lemma sort_key_map: "sort_key f (map g xs) = map g (sort_key (f \<circ> g) xs)"
  by (induction xs) (simp_all add: insort_key_map comp_def)

lemma sort_key_map_snd: "sort_key fst (map (\<lambda>(k, v). (k, f v)) kvs) = map (\<lambda>(k, v). (k, f v)) (sort_key fst kvs)"
  by (subst sort_key_map) (simp add: comp_def split_def)

lemma encode_canon: "encode_json v = plain_text (canon v)"
proof (induction v rule: encode_json.induct)
  case (1 kvs)
  have *: "map (\<lambda>(k, v). (k, encode_json v)) kvs = map (\<lambda>(k, v). (k, plain_text v)) (map (\<lambda>(k, v). (k, canon v)) kvs)"
    using 1 by (auto simp: split_def)
  show ?case by (simp only: encode_json.simps canon.simps plain_text.simps * sort_key_map_snd)
next
  case (2 vs)
  then show ?case by (simp add: comp_def cong: map_cong)
qed simp_all

lemma json_ok_canon: "json_ok v \<Longrightarrow> json_ok (canon v)"
proof (induction v rule: json_ok.induct)
  case (3 vs)
  then show ?case by (simp add: list_all_iff)
next
  case (4 kvs)
  have "map fst (map (\<lambda>(k, v). (k, canon v)) kvs) = map fst kvs" by (simp add: split_def)
  then have d: "distinct (map fst (sort_key fst (map (\<lambda>(k, v). (k, canon v)) kvs)))"
    using 4(2) by (auto simp: distinct_map split_def inj_on_def)
  from 4 have "\<forall>(k, v) \<in> set kvs. utf8_valid k \<and> json_ok (canon v)" by (fastforce simp: list_all_iff)
  with d show ?case by (auto simp: list_all_iff)
qed simp_all

section \<open>Reading a string back\<close>

text \<open>One rune of an escaped text: its bytes and what follows.\<close>

fun hex_value :: "char \<Rightarrow> nat" where
  "hex_value c = (if is_digit c then of_char c - 48 else of_char c - 87)"

definition first_rune :: "string \<Rightarrow> (string \<times> string) option" where
  "first_rune t =
     (case t of
        [] \<Rightarrow> None
      | c # s \<Rightarrow>
          if c = quote_mark then None
          else if c = backslash then
            (case s of
               [] \<Rightarrow> None
             | e # s' \<Rightarrow>
                 if e = CHR ''b'' then Some ([CHR 0x08], s')
                 else if e = CHR ''f'' then Some ([CHR 0x0C], s')
                 else if e = CHR ''n'' then Some ([CHR 0x0A], s')
                 else if e = CHR ''r'' then Some ([CHR 0x0D], s')
                 else if e = CHR ''t'' then Some ([CHR 0x09], s')
                 else if e = CHR ''u'' then
                   (case s' of
                      a # b # c # d # r \<Rightarrow>
                        Some (if [a, b, c] = ''202'' then [CHR 0xE2, CHR 0x80, if d = CHR ''8'' then CHR 0xA8 else CHR 0xA9]
                              else [char_of (16 * hex_value c + hex_value d)], r)
                    | _ \<Rightarrow> None)
                 else Some ([e], s'))
          else Some (take (rune_width t) t, drop (rune_width t) t))"

lemma low_digit_value: "k < 16 \<Longrightarrow> hex_value (low_digit k) = k"
proof -
  have "list_all (\<lambda>k. hex_value (low_digit k) = k) [0..<16]" by code_simp
  then show "k < 16 \<Longrightarrow> hex_value (low_digit k) = k" by (simp add: list_all_iff)
qed

lemma first_rune_control:
  assumes "of_char c < (32 :: nat)"
  shows "first_rune (escape_byte c @ r) = Some ([c], r)"
proof -
  have "c \<noteq> quote_mark" "c \<noteq> backslash" using assms by (auto simp: quote_mark_def backslash_def)
  moreover have "hex_value (low_digit (of_char c mod 16)) = of_char c mod 16" by (rule low_digit_value) simp
  moreover have "hex_value (low_digit (of_char c div 16)) = of_char c div 16" by (rule low_digit_value) (use assms in simp)
  moreover have "of_char c div 16 * 16 + of_char c mod 16 = (of_char c :: nat)" by simp
  ultimately show ?thesis using assms
    by (auto simp: escape_byte_def first_rune_def quote_mark_def backslash_def mult.commute)
qed

lemma first_rune_ascii:
  assumes "of_char c < (128 :: nat)"
  shows "first_rune (escape_byte c @ r) = Some ([c], r)"
proof (cases "of_char c < (32 :: nat)")
  case True
  then show ?thesis by (rule first_rune_control)
next
  case False
  then have n: "c \<noteq> CHR 0x08" "c \<noteq> CHR 0x0C" "c \<noteq> CHR 0x0A" "c \<noteq> CHR 0x0D" "c \<noteq> CHR 0x09" by auto
  show ?thesis
  proof (cases "c = quote_mark \<or> c = backslash")
    case True
    then show ?thesis by (auto simp: escape_byte_def first_rune_def quote_mark_def backslash_def)
  next
    case q: False
    with n False assms have "escape_byte c = [c]" by (simp add: escape_byte_def)
    with q assms show ?thesis by (simp add: first_rune_def rune_width_ascii)
  qed
qed

lemma first_rune_wide:
  assumes "rune_width r = length r" "1 < length r"
  shows "first_rune (escape_rune r @ s) = Some (r, s)"
proof -
  have w: "rune_width (r @ s) = length r" by (rule rune_width_prefix[OF assms])
  obtain c b r' where r: "r = c # b # r'" using assms(2) by (cases r rule: remdups_adj.cases) auto
  have "\<not> of_char c < (194 :: nat)" using rune_width_low[of c "b # r'"] assms r by auto
  then have "c \<noteq> quote_mark" "c \<noteq> backslash" by (auto simp: quote_mark_def backslash_def)
  with w r have plain: "first_rune (r @ s) = Some (r, s)" by (simp add: first_rune_def)
  consider "r = [CHR 0xE2, CHR 0x80, CHR 0xA8]" | "r = [CHR 0xE2, CHR 0x80, CHR 0xA9]" | "escape_rune r = r"
    using r by (cases "r = [CHR 0xE2, CHR 0x80, CHR 0xA8]"; cases "r = [CHR 0xE2, CHR 0x80, CHR 0xA9]") (simp_all add: escape_rune_def)
  then show ?thesis
  proof cases
    case 3
    with plain show ?thesis by simp
  qed (simp_all add: escape_rune_def first_rune_def backslash_def quote_mark_def)
qed

lemma first_rune_quote: "first_rune (quote_mark # r) = None"
  by (simp add: first_rune_def)

lemma utf8_valid_Cons:
  assumes "utf8_valid (c # s)"
  obtains (ascii) "of_char c < (128 :: nat)" "rune_width (c # s) = 1" "utf8_valid s"
  | (wide) r t where "c # s = r @ t" "rune_width (c # s) = length r" "rune_width r = length r" "1 < length r" "utf8_valid t"
proof (cases "of_char c < (128 :: nat)")
  case True
  with assms ascii show ?thesis by (simp add: utf8_valid.simps(2) rune_width_ascii)
next
  case False
  let ?w = "rune_width (c # s)" and ?r = "take (rune_width (c # s)) (c # s)"
  have w: "1 < ?w" "utf8_valid (drop ?w (c # s))" using assms False by (simp_all add: utf8_valid.simps(2))
  have "?w \<le> length (c # s)" by (rule rune_width_le) simp
  then have l: "length ?r = ?w" by simp
  have "rune_width ?r = ?w" by (rule rune_width_take[OF w(1)])
  with w l show ?thesis using wide[of ?r "drop ?w (c # s)"] by (metis append_take_drop_id)
qed

lemma first_rune_escape:
  assumes "utf8_valid (c # s)"
  obtains r t where "c # s = r @ t" "r \<noteq> []" "utf8_valid t" "escape (c # s) = escape_rune r @ escape t"
    "\<And>q. first_rune (escape_rune r @ q) = Some (r, q)"
  using assms
proof (cases rule: utf8_valid_Cons)
  case ascii
  have "escape_rune [c] = escape_byte c" by (simp add: escape_rune_def)
  with ascii that[of "[c]" s] first_rune_ascii[of c] show ?thesis by (simp add: escape.simps(2))
next
  case (wide r t)
  have "escape (c # s) = escape_rune r @ escape t"
    using wide(1,2) by (metis append_eq_conv_conj escape.simps(2))
  moreover have "r \<noteq> []" using wide(4) by auto
  ultimately show ?thesis using wide first_rune_wide[of r] that[of r t] by metis
qed

lemma escape_inj:
  "utf8_valid s \<Longrightarrow> utf8_valid t \<Longrightarrow> escape s @ quote_mark # r = escape t @ quote_mark # q \<Longrightarrow> s = t \<and> r = q"
proof (induction s arbitrary: t rule: length_induct)
  case (1 s)
  show ?case
  proof (cases s)
    case Nil
    then have n: "first_rune (escape t @ quote_mark # q) = None"
      using 1(4) first_rune_quote[of r] by simp
    have "t = []"
    proof (cases t)
      case (Cons c t')
      with 1 obtain u v where "escape t = escape_rune u @ escape v" "\<And>x. first_rune (escape_rune u @ x) = Some (u, x)"
        using first_rune_escape[of c t'] by metis
      with n show ?thesis by simp
    qed
    with Nil 1 show ?thesis by simp
  next
    case (Cons c s')
    with 1 obtain u v where u: "s = u @ v" "u \<noteq> []" "utf8_valid v" "escape s = escape_rune u @ escape v"
      "\<And>x. first_rune (escape_rune u @ x) = Some (u, x)" using first_rune_escape[of c s'] by metis
    from u have f: "first_rune (escape t @ quote_mark # q) = Some (u, escape v @ quote_mark # r)"
      using 1 by (metis append.assoc)
    then obtain d t' where t: "t = d # t'" using first_rune_quote by (cases t) auto
    with 1 obtain x y where x: "t = x @ y" "utf8_valid y" "escape t = escape_rune x @ escape y"
      "\<And>z. first_rune (escape_rune x @ z) = Some (x, z)" using first_rune_escape[of d t'] by metis
    with f have "x = u" "escape y @ quote_mark # q = escape v @ quote_mark # r" by simp_all
    with 1 u x show ?thesis by (metis length_append length_greater_0_conv less_add_same_cancel2)
  qed
qed

section \<open>Reading a value back\<close>

text \<open>What may follow a value in a document.\<close>

definition stops :: "string \<Rightarrow> bool" where
  "stops r \<longleftrightarrow> r = [] \<or> hd r \<in> {CHR '','', CHR '']'', CHR ''}'', CHR 0x0A}"

lemma num_char_stop: "c \<in> {CHR '','', CHR '']'', CHR ''}'', CHR 0x0A} \<Longrightarrow> \<not> num_char c"
  by (auto simp: num_char_def is_digit_def)

lemma num_prefix:
  assumes "list_all num_char m" "list_all num_char n" "stops r" "stops q" "m @ r = n @ q"
  shows "m = n \<and> r = q"
proof -
  have t: "takeWhile num_char (k @ x) = k" if "list_all num_char k" "stops x" for k x
  proof -
    have "takeWhile num_char x = []" using that(2) num_char_stop by (cases x) (auto simp: stops_def)
    with that(1) show ?thesis by (simp add: takeWhile_append2 list_all_iff)
  qed
  have "m = n" using t[OF assms(1,3)] t[OF assms(2,4)] assms(5) by simp
  with assms(5) show ?thesis by simp
qed

lemma quoted_inj: "utf8_valid s \<Longrightarrow> utf8_valid t \<Longrightarrow> quoted s @ r = quoted t @ q \<Longrightarrow> s = t \<and> r = q"
  using escape_inj[of s t r q] by (simp add: quoted_def)

text \<open>The head of a value's text tells its kind.\<close>

fun kind_char :: "json \<Rightarrow> char \<Rightarrow> bool" where
  "kind_char JNull c = (c = CHR ''n'')"
| "kind_char (JBool b) c = (c = (if b then CHR ''t'' else CHR ''f''))"
| "kind_char (JNum n) c = (is_digit c \<or> c = CHR ''-'')"
| "kind_char (JStr s) c = (c = quote_mark)"
| "kind_char (JArr vs) c = (c = CHR ''['')"
| "kind_char (JObj kvs) c = (c = CHR ''{'')"

lemma plain_text_head: "json_ok v \<Longrightarrow> \<exists>c t. plain_text v = c # t \<and> kind_char v c"
proof (cases v)
  case (JBool b)
  then show ?thesis by (cases b) simp_all
qed (auto simp: quoted_def num_literal_def neq_Nil_conv)

lemma same_kind:
  assumes "json_ok v" "json_ok w" "plain_text v @ r = plain_text w @ q"
  shows "\<exists>c. kind_char v c \<and> kind_char w c"
  using plain_text_head[OF assms(1)] plain_text_head[OF assms(2)] assms(3) by force

definition members :: "('a \<Rightarrow> string) \<Rightarrow> char \<Rightarrow> 'a list \<Rightarrow> string" where
  "members f e xs = join_with '','' (map f xs) @ [e]"

fun rest_of :: "('a \<Rightarrow> string) \<Rightarrow> char \<Rightarrow> 'a list \<Rightarrow> string" where
  "rest_of f e [] = [e]"
| "rest_of f e (x # xs) = CHR '','' # f x @ rest_of f e xs"

lemma members_Cons: "members f e (x # xs) = f x @ rest_of f e xs"
proof -
  have "join_with '','' (map f (x # xs)) @ [e] = f x @ rest_of f e xs"
    by (induction xs arbitrary: x) simp_all
  then show ?thesis by (simp add: members_def)
qed

lemma rest_of_stops: "e \<in> {CHR '']'', CHR ''}''} \<Longrightarrow> stops (rest_of f e xs @ r)"
  by (cases xs) (auto simp: stops_def)

lemma rest_of_inj:
  assumes "\<And>x y r q. x \<in> set xs \<Longrightarrow> y \<in> set ys \<Longrightarrow> stops r \<Longrightarrow> stops q \<Longrightarrow> f x @ r = f y @ q \<Longrightarrow> x = y \<and> r = q"
    "e \<in> {CHR '']'', CHR ''}''}" "rest_of f e xs @ r = rest_of f e ys @ q"
  shows "xs = ys \<and> r = q"
  using assms
proof (induction xs arbitrary: ys)
  case Nil
  then show ?case by (cases ys) auto
next
  case (Cons x xs)
  obtain y ys' where ys: "ys = y # ys'" using Cons.prems(2,3) by (cases ys) auto
  have "f x @ rest_of f e xs @ r = f y @ rest_of f e ys' @ q" using Cons.prems(3) ys by simp
  then have *: "x = y" "rest_of f e xs @ r = rest_of f e ys' @ q"
    using Cons.prems(1)[of x y "rest_of f e xs @ r" "rest_of f e ys' @ q"] ys rest_of_stops[OF Cons.prems(2)] by auto
  have "xs = ys' \<and> r = q" by (rule Cons.IH[OF _ Cons.prems(2) *(2)]) (use Cons.prems(1) ys in auto)
  with * ys show ?case by simp
qed

lemma members_inj:
  assumes "\<And>x y r q. x \<in> set xs \<Longrightarrow> y \<in> set ys \<Longrightarrow> stops r \<Longrightarrow> stops q \<Longrightarrow> f x @ r = f y @ q \<Longrightarrow> x = y \<and> r = q"
    "e \<in> {CHR '']'', CHR ''}''}" "members f e xs @ r = members f e ys @ q"
    "\<And>x. x \<in> set xs \<union> set ys \<Longrightarrow> \<exists>c t. f x = c # t \<and> c \<noteq> e"
  shows "xs = ys \<and> r = q"
proof (cases xs)
  case Nil
  have "ys = []"
  proof (rule ccontr)
    assume "ys \<noteq> []"
    then obtain y ys' where ys: "ys = y # ys'" by (cases ys) auto
    have "members f e xs = [e]" using Nil by (simp add: members_def)
    with ys assms(4)[of y] assms(3) show False by (auto simp: members_Cons)
  qed
  with Nil assms(3) show ?thesis by (simp add: members_def)
next
  case (Cons x xs')
  have "members f e [] = [e]" by (simp add: members_def)
  then have "ys \<noteq> []" using assms(4)[of x] assms(3) Cons by (auto simp: members_Cons)
  then obtain y ys' where ys: "ys = y # ys'" by (cases ys) auto
  have "f x @ rest_of f e xs' @ r = f y @ rest_of f e ys' @ q" using assms(3) Cons ys by (simp add: members_Cons)
  then have *: "x = y" "rest_of f e xs' @ r = rest_of f e ys' @ q"
    using assms(1)[of x y "rest_of f e xs' @ r" "rest_of f e ys' @ q"] Cons ys rest_of_stops[OF assms(2)] by auto
  have "xs' = ys' \<and> r = q" by (rule rest_of_inj[OF _ assms(2) *(2)]) (use assms(1) Cons ys in auto)
  with * Cons ys show ?thesis by simp
qed

lemma kind_char_disjoint: "kind_char v c \<Longrightarrow> c \<notin> {CHR '']'', CHR ''}''}"
  by (cases v) (auto simp: is_digit_def quote_mark_def split: if_splits)

definition entry_text :: "string \<times> json \<Rightarrow> string" where
  "entry_text kv = quoted (fst kv) @ '':'' @ plain_text (snd kv)"

lemma plain_text_arr: "plain_text (JArr vs) = CHR ''['' # members plain_text (CHR '']'') vs"
  by (simp add: members_def)

lemma plain_text_obj: "plain_text (JObj kvs) = CHR ''{'' # members entry_text (CHR ''}'') kvs"
proof -
  have "entry_text = (\<lambda>x. quoted (fst x) @ CHR '':'' # plain_text (snd x))" by (rule ext) (simp add: entry_text_def)
  then show ?thesis by (simp add: members_def comp_def split_def)
qed

text \<open>The text of a value, followed by a delimiter, determines both.\<close>

lemma value_text_inj:
  "json_ok v \<Longrightarrow> json_ok w \<Longrightarrow> stops r \<Longrightarrow> stops q \<Longrightarrow> plain_text v @ r = plain_text w @ q \<Longrightarrow> v = w \<and> r = q"
proof (induction v arbitrary: w r q rule: json_ok.induct)
  case (1 n)
  obtain m where w: "w = JNum m" using same_kind[OF 1(1,2,5)]
    by (cases w) (auto simp: is_digit_def quote_mark_def split: if_splits)
  with 1 num_prefix[of n m r q] show ?case by (simp add: num_literal_def)
next
  case (2 s)
  obtain t where w: "w = JStr t" using same_kind[OF 2(1,2,5)]
    by (cases w) (auto simp: is_digit_def quote_mark_def split: if_splits)
  with 2 quoted_inj[of s t r q] show ?case by simp
next
  case (3 vs)
  obtain ws where w: "w = JArr ws"
    using same_kind[OF 3(2,3,6)] by (cases w) (auto simp: is_digit_def quote_mark_def split: if_splits)
  have ok: "\<forall>x \<in> set vs. json_ok x" "\<forall>x \<in> set ws. json_ok x" using 3(2,3) w by (auto simp: list_all_iff)
  have "vs = ws \<and> r = q"
  proof (rule members_inj[where f = plain_text and e = "CHR '']''"])
    show "members plain_text (CHR '']'') vs @ r = members plain_text (CHR '']'') ws @ q"
      using 3(6) w by (simp only: plain_text_arr append_Cons list.inject)
    show "\<exists>c t. plain_text x = c # t \<and> c \<noteq> CHR '']''" if "x \<in> set vs \<union> set ws" for x
      using that ok kind_char_disjoint[of x] plain_text_head[of x] by fastforce
  qed (use 3(1) ok in blast)+
  with w show ?case by simp
next
  case (4 kvs)
  obtain kws where w: "w = JObj kws"
    using same_kind[OF 4(2,3,6)] by (cases w) (auto simp: is_digit_def quote_mark_def split: if_splits)
  have ok: "\<forall>x \<in> set kvs. utf8_valid (fst x) \<and> json_ok (snd x)" "\<forall>x \<in> set kws. utf8_valid (fst x) \<and> json_ok (snd x)"
    using 4(2,3) w by (auto simp: list_all_iff)
  have "kvs = kws \<and> r = q"
  proof (rule members_inj[where f = entry_text and e = "CHR ''}''"])
    show "members entry_text (CHR ''}'') kvs @ r = members entry_text (CHR ''}'') kws @ q"
      using 4(6) w by (simp only: plain_text_obj append_Cons list.inject)
    show "\<exists>c t. entry_text x = c # t \<and> c \<noteq> CHR ''}''" for x
      by (simp add: entry_text_def quoted_def quote_mark_def)
    show "x = y \<and> a = b" if "x \<in> set kvs" "y \<in> set kws" "stops a" "stops b" "entry_text x @ a = entry_text y @ b" for x y a b
    proof -
      have k: "fst x = fst y \<and> CHR '':'' # plain_text (snd x) @ a = CHR '':'' # plain_text (snd y) @ b"
        using quoted_inj[of "fst x" "fst y" "CHR '':'' # plain_text (snd x) @ a" "CHR '':'' # plain_text (snd y) @ b"]
          ok that(1,2,5) by (simp add: entry_text_def)
      moreover have "snd x = snd y \<and> a = b"
        using 4(1)[OF that(1) prod.collapse] ok that(1-4) k by fastforce
      ultimately show ?thesis by (simp add: prod_eq_iff)
    qed
  qed simp
  with w show ?case by simp
next
  case "5_1"
  from same_kind[OF this(1,2,5)] show ?case
    using "5_1" by (cases w) (auto simp: is_digit_def quote_mark_def split: if_splits)
next
  case "5_2"
  from same_kind[OF this(1,2,5)] show ?case
    using "5_2" by (cases w) (auto simp: is_digit_def quote_mark_def split: if_splits)
qed

section \<open>The canonical form\<close>

lemma stops_newline: "stops [CHR 0x0A]"
  by (simp add: stops_def)

lemma canon_marshal_eq:
  assumes "json_ok v" "json_ok w"
  shows "canon_marshal v = canon_marshal w \<longleftrightarrow> canon v = canon w"
proof
  assume "canon_marshal v = canon_marshal w"
  then show "canon v = canon w"
    using value_text_inj[OF json_ok_canon[OF assms(1)] json_ok_canon[OF assms(2)] stops_newline stops_newline]
    by (simp add: canon_marshal_def encode_canon)
qed (simp add: canon_marshal_def encode_canon)

text \<open>The digest separates what the hash separates.\<close>

lemma canon_digest_inj:
  assumes "inj h" "json_ok v" "json_ok w"
  shows "canon_digest h v = canon_digest h w \<longleftrightarrow> canon v = canon w"
  using canon_marshal_eq[OF assms(2,3)] assms(1) by (simp add: canon_digest_def inj_eq)

text \<open>C17. Canonical JSON is canonical: two values the decoder can yield have the same
  bytes exactly when they are equal up to the order of object keys, at every depth. So a
  digest neither depends on how a Go map was iterated or a struct declared, nor
  identifies two different values short of a SHA-256 collision.\<close>

theorem canon_marshal_canonical:
  assumes "json_ok v" "json_ok w"
  shows "canon_marshal v = canon_marshal w \<longleftrightarrow> canon v = canon w"
  by (rule canon_marshal_eq[OF assms])

definition sample_value :: json where
  "sample_value = JObj [(''b'', JNum ''1''), (''a'', JArr [JStr [quote_mark], JNull])]"

definition sample_reordered :: json where
  "sample_reordered = JObj [(''a'', JArr [JStr [quote_mark], JNull]), (''b'', JNum ''1'')]"

theorem canon_marshal_canonical_witness: "canon_marshal sample_value = canon_marshal sample_reordered"
proof -
  have "json_ok sample_value" "json_ok sample_reordered" by code_simp+
  moreover have "canon sample_value = canon sample_reordered" by code_simp
  ultimately show ?thesis by (simp only: canon_marshal_canonical)
qed

end
