(* ===== verification/Principals.thy ===== *)
theory Principals
  imports CanonJson Refs
begin

text \<open>
  Governance principal identifiers (internal/governanceprincipal: ValidateID of profile.go,
  principal.go): the local id grammar, unpadded base64url as \<^verbatim>\<open>encoding/base64\<close> has it,
  and the canonical id of a trust source and subject.
\<close>

section \<open>Identifiers\<close>

definition idRe :: rx where
  "idRe = Cat (Cls [(CHR ''a'', CHR ''z'')])
     (Star (Cls [(CHR ''a'', CHR ''z''), (CHR ''0'', CHR ''9''), (CHR ''.'', CHR ''.''), (CHR ''_'', CHR ''_''), (CHR ''-'', CHR ''-'')]))"

definition valid_id :: "string \<Rightarrow> bool" where
  "valid_id s \<longleftrightarrow> rx_match idRe s"

section \<open>Unpadded base64url\<close>

text \<open>\<^verbatim>\<open>base64.RawURLEncoding\<close>: groups of three bytes as four letters of the alphabet,
  a last group of one or two bytes as two or three letters.\<close>

definition b64_letter :: "nat \<Rightarrow> char" where
  "b64_letter n =
     (if n < 26 then char_of (65 + n) else if n < 52 then char_of (71 + n)
      else if n < 62 then char_of (n - 4) else if n = 62 then CHR ''-'' else CHR ''_'')"

definition b64_value :: "char \<Rightarrow> nat option" where
  "b64_value c =
     (let n = of_char c in
      if 65 \<le> n \<and> n \<le> 90 then Some (n - 65)
      else if 97 \<le> n \<and> n \<le> 122 then Some (n - 71)
      else if 48 \<le> n \<and> n \<le> 57 then Some (n + 4)
      else if c = CHR ''-'' then Some 62 else if c = CHR ''_'' then Some 63 else None)"

fun b64_encode :: "string \<Rightarrow> string" where
  "b64_encode [] = []"
| "b64_encode [a] =
     (let x = of_char a in [b64_letter (x div 4), b64_letter (x mod 4 * 16)])"
| "b64_encode [a, b] =
     (let x = of_char a; y = of_char b in
      [b64_letter (x div 4), b64_letter (x mod 4 * 16 + y div 16), b64_letter (y mod 16 * 4)])"
| "b64_encode (a # b # c # s) =
     (let x = of_char a; y = of_char b; z = of_char c in
      [b64_letter (x div 4), b64_letter (x mod 4 * 16 + y div 16), b64_letter (y mod 16 * 4 + z div 64),
       b64_letter (z mod 64)] @ b64_encode s)"

text \<open>\<^verbatim>\<open>Strict\<close> decoding refuses trailing bits that are not zero. Go's decoder skips
  carriage returns and newlines.\<close>

definition b64_strip :: "string \<Rightarrow> string" where
  "b64_strip s = filter (\<lambda>c. c \<noteq> CHR 0x0A \<and> c \<noteq> CHR 0x0D) s"

fun b64_groups :: "nat list \<Rightarrow> string option" where
  "b64_groups [] = Some []"
| "b64_groups [a] = None"
| "b64_groups [a, b] = (if b mod 16 = 0 then Some [char_of (a * 4 + b div 16)] else None)"
| "b64_groups [a, b, c] =
     (if c mod 4 = 0 then Some [char_of (a * 4 + b div 16), char_of (b mod 16 * 16 + c div 4)] else None)"
| "b64_groups (a # b # c # d # s) =
     (case b64_groups s of
        None \<Rightarrow> None
      | Some t \<Rightarrow>
          Some ([char_of (a * 4 + b div 16), char_of (b mod 16 * 16 + c div 4), char_of (c mod 4 * 64 + d)] @ t))"

definition b64_decode :: "string \<Rightarrow> string option" where
  "b64_decode s =
     (let vs = map b64_value (b64_strip s) in
      if None \<in> set vs then None else b64_groups (map the vs))"

section \<open>Principal ids\<close>

datatype principal_error =
    BadSource string
  | EmptySubject
  | SubjectNotUtf8
  | BadShape string
  | NotBase64 string
  | NotCanonical string

definition principalIDPrefix :: string where
  "principalIDPrefix = ''principal''"

definition canonical_principal_id :: "string \<Rightarrow> string \<Rightarrow> principal_error + string" where
  "canonical_principal_id source_id subject =
     (if \<not> valid_id source_id then Inl (BadSource source_id)
      else if subject = '''' then Inl EmptySubject
      else if \<not> utf8_valid subject then Inl SubjectNotUtf8
      else Inr (principalIDPrefix @ ''/'' @ source_id @ ''/'' @ b64_encode subject))"

definition principal_id_validate :: "string \<Rightarrow> principal_error option" where
  "principal_id_validate pid =
     (case split_on CHR ''/'' pid of
        [p, src, seg] \<Rightarrow>
          if p \<noteq> principalIDPrefix then Some (BadShape pid)
          else if \<not> valid_id src then Some (BadSource src)
          else
            (case b64_decode seg of
               None \<Rightarrow> Some (NotBase64 pid)
             | Some raw \<Rightarrow>
                 if b64_encode raw \<noteq> seg then Some (NotCanonical pid)
                 else if raw = '''' then Some EmptySubject
                 else check (\<not> utf8_valid raw) SubjectNotUtf8)
      | _ \<Rightarrow> Some (BadShape pid))"

section \<open>Base64 round trip\<close>

lemma b64_letter_value: "n < 64 \<Longrightarrow> b64_value (b64_letter n) = Some n"
proof -
  assume "n < 64"
  then consider "n < 26" | "26 \<le> n" "n < 52" | "52 \<le> n" "n < 62" | "n = 62" | "n = 63" by linarith
  then show ?thesis by cases (auto simp: b64_letter_def b64_value_def Let_def)
qed

lemma b64_letter_plain: "n < 64 \<Longrightarrow> b64_letter n \<notin> {CHR 0x0A, CHR 0x0D, CHR ''/''}"
proof
  assume "n < 64" "b64_letter n \<in> {CHR 0x0A, CHR 0x0D, CHR ''/''}"
  moreover from this(2) have "b64_value (b64_letter n) = None" by (auto simp: b64_value_def)
  ultimately show False using b64_letter_value[of n] by simp
qed

fun sextets :: "nat list \<Rightarrow> nat list" where
  "sextets [] = []"
| "sextets [x] = [x div 4, x mod 4 * 16]"
| "sextets [x, y] = [x div 4, x mod 4 * 16 + y div 16, y mod 16 * 4]"
| "sextets (x # y # z # s) = [x div 4, x mod 4 * 16 + y div 16, y mod 16 * 4 + z div 64, z mod 64] @ sextets s"

lemma b64_encode_sextets: "b64_encode s = map b64_letter (sextets (map of_char s))"
  by (induction s rule: b64_encode.induct) (simp_all add: Let_def)

lemma sextets_small: "\<forall>x \<in> set xs. x < 256 \<Longrightarrow> \<forall>v \<in> set (sextets xs). v < 64"
  by (induction xs rule: sextets.induct) auto

lemma of_char_small: "of_char (c :: char) < (256 :: nat)"
  by (metis of_char_mod_256 mod_less_divisor zero_less_numeral)

lemma groups_sextets: "\<forall>x \<in> set xs. x < 256 \<Longrightarrow> b64_groups (sextets xs) = Some (map char_of xs)"
proof (induction xs rule: sextets.induct)
  case (3 x y)
  have "y div 16 < 16" using 3 by (simp add: less_mult_imp_div_less)
  then have "(x mod 4 * 16 + y div 16) div 16 = x mod 4" "(x mod 4 * 16 + y div 16) mod 16 = y div 16" by simp_all
  then show ?case by simp
next
  case (4 x y z s)
  have "y div 16 < 16" using 4 by (simp add: less_mult_imp_div_less)
  then have "(x mod 4 * 16 + y div 16) div 16 = x mod 4" "(x mod 4 * 16 + y div 16) mod 16 = y div 16" by simp_all
  moreover have "z div 64 < 4" using 4 by (simp add: less_mult_imp_div_less)
  then have "(y mod 16 * 4 + z div 64) div 4 = y mod 16" "(y mod 16 * 4 + z div 64) mod 4 = z div 64" by simp_all
  ultimately show ?case using 4 by simp
qed simp_all

lemma b64_roundtrip: "b64_decode (b64_encode s) = Some s"
proof -
  let ?vs = "sextets (map of_char s)"
  have small: "\<forall>v \<in> set ?vs. v < 64" by (rule sextets_small) (auto simp: of_char_small)
  then have "b64_strip (b64_encode s) = b64_encode s"
    using b64_letter_plain by (auto simp: b64_strip_def b64_encode_sextets filter_id_conv)
  moreover have "map b64_value (b64_encode s) = map Some ?vs"
    using small by (simp add: b64_encode_sextets b64_letter_value)
  moreover have "b64_groups ?vs = Some s"
    using groups_sextets[of "map of_char s"] by (simp add: of_char_small comp_def)
  ultimately show ?thesis by (auto simp: b64_decode_def Let_def comp_def)
qed

lemma b64_encode_inj: "b64_encode s = b64_encode t \<longleftrightarrow> s = t"
  using b64_roundtrip by (metis option.inject)

lemma b64_encode_free: "CHR ''/'' \<notin> set (b64_encode s)"
proof -
  have "\<forall>v \<in> set (sextets (map of_char s)). v < 64" by (rule sextets_small) (auto simp: of_char_small)
  then show ?thesis using b64_letter_plain by (fastforce simp: b64_encode_sextets)
qed

section \<open>Ids and subjects\<close>

lemma valid_id_free: "valid_id s \<Longrightarrow> CHR ''/'' \<notin> set s"
proof
  assume "valid_id s" "CHR ''/'' \<in> set s"
  then have "rx_allows idRe CHR ''/''" unfolding valid_id_def by (rule rx_match_allows)
  then show False by (simp add: idRe_def in_class_def)
qed

lemma principal_id_iff:
  "principal_id_validate pid = None \<longleftrightarrow> (\<exists>src subject. canonical_principal_id src subject = Inr pid)"
  (is "?l \<longleftrightarrow> ?r")
proof
  assume ?l
  then obtain src seg raw where p: "split_on CHR ''/'' pid = [principalIDPrefix, src, seg]" "valid_id src"
    "b64_encode raw = seg" "raw \<noteq> ''''" "utf8_valid raw"
    by (auto simp: principal_id_validate_def split: list.splits option.splits if_splits)
  have "pid = join_with ''/'' [principalIDPrefix, src, seg]" using join_split_on[of "CHR ''/''" pid] p(1) by simp
  with p have "canonical_principal_id src raw = Inr pid" by (simp add: canonical_principal_id_def)
  then show ?r by blast
next
  assume ?r
  then obtain src subject where c: "canonical_principal_id src subject = Inr pid" by blast
  then have v: "valid_id src" "subject \<noteq> ''''" "utf8_valid subject"
    and pid: "pid = join_with ''/'' [principalIDPrefix, src, b64_encode subject]"
    by (auto simp: canonical_principal_id_def split: if_splits)
  have "split_on CHR ''/'' pid = [principalIDPrefix, src, b64_encode subject]"
    unfolding pid using valid_id_free[OF v(1)] b64_encode_free
    by (intro split_on_join) (auto simp: principalIDPrefix_def)
  with v show ?l by (simp add: principal_id_validate_def b64_roundtrip)
qed

lemma split_at_first:
  fixes k :: char
  assumes "k \<notin> set a" "k \<notin> set b"
  shows "a @ k # x = b @ k # y \<longleftrightarrow> a = b \<and> x = y"
proof
  assume "a @ k # x = b @ k # y"
  then have "cut_at k (a @ k # x) = cut_at k (b @ k # y)" by simp
  then show "a = b \<and> x = y" using assms by simp
qed simp

lemma canonical_id_inj:
  assumes "canonical_principal_id src subject = Inr pid" "canonical_principal_id src' subject' = Inr pid"
  shows "src = src' \<and> subject = subject'"
proof -
  have v: "valid_id src" "valid_id src'" using assms by (auto simp: canonical_principal_id_def split: if_splits)
  have "src @ CHR ''/'' # b64_encode subject = src' @ CHR ''/'' # b64_encode subject'"
    using assms by (auto simp: canonical_principal_id_def split: if_splits)
  then show ?thesis using split_at_first[OF valid_id_free[OF v(1)] valid_id_free[OF v(2)]] b64_encode_inj by simp
qed

text \<open>A principal id names one subject of one source: \<open>principal_id_validate\<close> accepts
  exactly the ids that \<open>canonical_principal_id\<close> derives, and each of them from one source
  and subject only. No two spellings of base64 pass for the same principal, and no two
  principals share an id.\<close>

theorem principal_id_names_one_subject:
  "principal_id_validate pid = None \<longleftrightarrow> (\<exists>!c. canonical_principal_id (fst c) (snd c) = Inr pid)"
proof
  assume "principal_id_validate pid = None"
  then obtain src subject where c: "canonical_principal_id src subject = Inr pid" unfolding principal_id_iff by blast
  show "\<exists>!c. canonical_principal_id (fst c) (snd c) = Inr pid"
  proof (rule ex1I)
    show "canonical_principal_id (fst (src, subject)) (snd (src, subject)) = Inr pid" using c by simp
  next
    fix d assume "canonical_principal_id (fst d) (snd d) = Inr pid"
    then show "d = (src, subject)" using canonical_id_inj[OF c] by (cases d) simp
  qed
next
  assume "\<exists>!c. canonical_principal_id (fst c) (snd c) = Inr pid"
  then show "principal_id_validate pid = None" unfolding principal_id_iff by blast
qed

end
