(* ===== verification/Profiles.thy ===== *)
theory Profiles
  imports Principals Links "HOL-Library.Multiset"
begin

text \<open>
  Governance profiles (internal/governanceprincipal: profile.go, decode.go,
  validate.go, template.go): the strict document, its validation against an injected
  catalog, the normalization that makes every list a semantic set, and the seal that
  proves a profile is unmodified decoder output. The YAML layer is the argument \<open>yaml\<close>,
  SHA-256 in hex is \<open>h\<close>. The JSON of a profile, which the digest and the content order are
  taken of, follows the struct tags.
\<close>

section \<open>Vocabularies\<close>

datatype profile_class = ClassSolo | ClassTeam | ClassHighAssurance | ClassExperimental | ClassUnknown string

datatype trust_kind =
  TrustForge | TrustSignedCommit | TrustOwnership | TrustIdentityProvider | TrustLocalOperator | TrustUnknown string

datatype distinctness_relation = SamePrincipal | DifferentPrincipal | RelationUnknown string

fun class_valid :: "profile_class \<Rightarrow> bool" where
  "class_valid (ClassUnknown _) = False"
| "class_valid _ = True"

fun trust_kind_valid :: "trust_kind \<Rightarrow> bool" where
  "trust_kind_valid (TrustUnknown _) = False"
| "trust_kind_valid _ = True"

fun relation_valid :: "distinctness_relation \<Rightarrow> bool" where
  "relation_valid (RelationUnknown _) = False"
| "relation_valid _ = True"

fun class_string :: "profile_class \<Rightarrow> string" where
  "class_string ClassSolo = ''solo''"
| "class_string ClassTeam = ''team''"
| "class_string ClassHighAssurance = ''high-assurance''"
| "class_string ClassExperimental = ''experimental''"
| "class_string (ClassUnknown s) = s"

fun trust_kind_string :: "trust_kind \<Rightarrow> string" where
  "trust_kind_string TrustForge = ''forge''"
| "trust_kind_string TrustSignedCommit = ''signed-commit''"
| "trust_kind_string TrustOwnership = ''ownership''"
| "trust_kind_string TrustIdentityProvider = ''identity-provider''"
| "trust_kind_string TrustLocalOperator = ''local-operator''"
| "trust_kind_string (TrustUnknown s) = s"

fun relation_string :: "distinctness_relation \<Rightarrow> string" where
  "relation_string SamePrincipal = ''same-principal''"
| "relation_string DifferentPrincipal = ''different-principal''"
| "relation_string (RelationUnknown s) = s"

section \<open>The catalog\<close>

record catalog =
  ct_roles :: "string list"
  ct_transitions :: "string list"
  ct_evidence :: "string list"
  ct_metrics :: "string list"

datatype catalog_error = CatalogBadId string string | CatalogDuplicate string string

definition catalog_set :: "string \<Rightarrow> string list \<Rightarrow> catalog_error option" where
  "catalog_set name entries =
     scan_seen (\<lambda>e. e) (\<lambda>i e. e) (\<lambda>i e. CatalogDuplicate name e)
       (\<lambda>e. check (\<not> valid_id e) (CatalogBadId name e)) 0 [] entries"

definition catalog_validate :: "catalog \<Rightarrow> catalog_error option" where
  "catalog_validate c =
     first_error
       [catalog_set ''roles'' (ct_roles c), catalog_set ''transitions'' (ct_transitions c),
        catalog_set ''evidence sources'' (ct_evidence c), catalog_set ''escalation metrics'' (ct_metrics c)]"

section \<open>Profiles\<close>

record trust_source =
  ts_id :: string
  ts_kind :: trust_kind

record role_mapping =
  rm_role :: string
  rm_source :: string
  rm_subjects :: "string list"

record ownership_source =
  os_id :: string
  os_source :: string
  os_transitions :: "string list"
  os_roles :: "string list"

record signature_requirement =
  sg_transitions :: "string list"
  sg_roles :: "string list"
  sg_sources :: "string list"

record approver_requirement =
  aq_transitions :: "string list"
  aq_roles :: "string list"
  aq_minimum :: int

record distinctness_rule =
  dr_transitions :: "string list"
  dr_left :: string
  dr_right :: string
  dr_relation :: distinctness_relation

record evidence_restriction =
  er_transitions :: "string list"
  er_allowed :: "string list"

record escalation_threshold =
  et_transitions :: "string list"
  et_metric :: string
  et_at_least :: int
  et_roles :: "string list"

record template_record =
  tp_identity :: string
  tp_digest :: string

record profile =
  pf_schema :: string
  pf_id :: string
  pf_class :: profile_class
  pf_transitions :: "string list"
  pf_sources :: "trust_source list"
  pf_mappings :: "role_mapping list"
  pf_ownership :: "ownership_source list"
  pf_signatures :: "signature_requirement list"
  pf_approvers :: "approver_requirement list"
  pf_distinctness :: "distinctness_rule list"
  pf_evidence :: "evidence_restriction list"
  pf_escalation :: "escalation_threshold list"
  pf_template :: "template_record option"
  pf_seal :: string

definition schemaID :: string where
  "schemaID = ''verdi.governance-profile/v1''"

definition trust_source_of :: "profile \<Rightarrow> string \<Rightarrow> trust_source option" where
  "trust_source_of p ref = find (\<lambda>t. ts_id t = ref) (pf_sources p)"

section \<open>Validation\<close>

datatype profile_error =
    UnknownSchema string
  | BadProfileId string
  | UnknownClass string
  | NoTransitions
  | NotInCatalog string string
  | Repeated string string
  | EmptySet string
  | SourceBadId nat string
  | SourceUnknownKind nat string
  | LocalOperatorForbidden nat profile_class
  | Unresolved string string
  | WrongSourceKind string string
  | RepeatedMapping string string
  | NoSubjects nat
  | BadSubject nat
  | RepeatedSubject nat string
  | OwnershipBadId nat string
  | RepeatedOwnership string
  | RepeatedRule string "string list"
  | MinimumNotPositive nat int
  | SameRoles nat distinctness_relation
  | UnknownRelation nat string
  | NegativeThreshold nat int
  | NotCovered string string

text \<open>A loop over entries with a key each, refused when seen: what is checked of the
  entry before its key, and after.\<close>

fun keyed_scan ::
  "(nat \<Rightarrow> 'a \<Rightarrow> 'e option) \<Rightarrow> ('a \<Rightarrow> 'k) \<Rightarrow> ('a \<Rightarrow> 'e) \<Rightarrow> (nat \<Rightarrow> 'a \<Rightarrow> 'e option) \<Rightarrow> nat \<Rightarrow> 'k list \<Rightarrow> 'a list \<Rightarrow>
   'e option" where
  "keyed_scan pre key dup post i seen [] = None"
| "keyed_scan pre key dup post i seen (x # xs) =
     first_error
       [pre i x, check (key x \<in> set seen) (dup x), post i x,
        keyed_scan pre key dup post (Suc i) (key x # seen) xs]"

text \<open>A loop over rules, each with a list of keys none of which was seen before.\<close>

fun key_scan :: "('k \<Rightarrow> 'e) \<Rightarrow> 'k list \<Rightarrow> 'k list \<Rightarrow> 'e option" where
  "key_scan dup seen [] = None"
| "key_scan dup seen (k # ks) = (if k \<in> set seen then Some (dup k) else key_scan dup (k # seen) ks)"

fun rule_scan ::
  "(nat \<Rightarrow> 'r \<Rightarrow> 'e option) \<Rightarrow> ('r \<Rightarrow> 'k list) \<Rightarrow> ('k \<Rightarrow> 'e) \<Rightarrow> nat \<Rightarrow> 'k list \<Rightarrow> 'r list \<Rightarrow> 'e option" where
  "rule_scan chk ks dup i seen [] = None"
| "rule_scan chk ks dup i seen (r # rs) =
     first_error [chk i r, key_scan dup seen (ks r), rule_scan chk ks dup (Suc i) (rev (ks r) @ seen) rs]"

definition unique_catalog_set :: "string \<Rightarrow> string list \<Rightarrow> (string \<Rightarrow> bool) \<Rightarrow> profile_error option" where
  "unique_catalog_set field ms in_catalog =
     scan_seen (\<lambda>m. m) (\<lambda>i e. e) (\<lambda>i m. Repeated field m)
       (\<lambda>m. check (\<not> in_catalog m) (NotInCatalog field m)) 0 [] ms"

definition nonempty_unique_catalog_set :: "string \<Rightarrow> string list \<Rightarrow> (string \<Rightarrow> bool) \<Rightarrow> profile_error option" where
  "nonempty_unique_catalog_set field ms in_catalog =
     (if ms = [] then Some (EmptySet field) else unique_catalog_set field ms in_catalog)"

definition in_roles :: "catalog \<Rightarrow> string \<Rightarrow> bool" where
  "in_roles cat r \<longleftrightarrow> r \<in> set (ct_roles cat)"

definition in_transitions :: "catalog \<Rightarrow> string \<Rightarrow> bool" where
  "in_transitions cat t \<longleftrightarrow> t \<in> set (ct_transitions cat)"

definition trust_sources_validate :: "profile \<Rightarrow> profile_error option" where
  "trust_sources_validate p =
     keyed_scan
       (\<lambda>i t. first_error
          [check (\<not> valid_id (ts_id t)) (SourceBadId i (ts_id t)),
           check (\<not> trust_kind_valid (ts_kind t)) (SourceUnknownKind i (trust_kind_string (ts_kind t))),
           check (ts_kind t = TrustLocalOperator \<and> pf_class p \<noteq> ClassSolo) (LocalOperatorForbidden i (pf_class p))])
       ts_id (\<lambda>t. Repeated ''identity_trust_sources'' (ts_id t)) (\<lambda>i t. None) 0 [] (pf_sources p)"

definition resolve_trust_source :: "profile \<Rightarrow> string \<Rightarrow> string \<Rightarrow> trust_kind option \<Rightarrow> profile_error option" where
  "resolve_trust_source p field ref want =
     (case trust_source_of p ref of
        None \<Rightarrow> Some (Unresolved field ref)
      | Some t \<Rightarrow> (case want of None \<Rightarrow> None | Some k \<Rightarrow> check (ts_kind t \<noteq> k) (WrongSourceKind field ref)))"

definition role_mappings_validate :: "profile \<Rightarrow> catalog \<Rightarrow> profile_error option" where
  "role_mappings_validate p cat =
     keyed_scan
       (\<lambda>i m. first_error
          [check (\<not> in_roles cat (rm_role m)) (NotInCatalog ''role_mappings'' (rm_role m)),
           resolve_trust_source p ''role_mappings'' (rm_source m) None])
       (\<lambda>m. (rm_role m, rm_source m)) (\<lambda>m. RepeatedMapping (rm_role m) (rm_source m))
       (\<lambda>i m. first_error
          [check (rm_subjects m = []) (NoSubjects i),
           scan_seen (\<lambda>s. s) (\<lambda>j e. e) (\<lambda>j s. RepeatedSubject i s)
             (\<lambda>s. check (s = '''' \<or> \<not> utf8_valid s) (BadSubject i)) 0 [] (rm_subjects m)])
       0 [] (pf_mappings p)"

definition ownership_sources_validate :: "profile \<Rightarrow> catalog \<Rightarrow> profile_error option" where
  "ownership_sources_validate p cat =
     keyed_scan (\<lambda>i w. check (\<not> valid_id (os_id w)) (OwnershipBadId i (os_id w)))
       os_id (\<lambda>w. RepeatedOwnership (os_id w))
       (\<lambda>i w. first_error
          [resolve_trust_source p ''ownership_sources'' (os_source w) (Some TrustOwnership),
           nonempty_unique_catalog_set ''ownership_sources.transitions'' (os_transitions w) (in_transitions cat),
           nonempty_unique_catalog_set ''ownership_sources.roles'' (os_roles w) (in_roles cat)])
       0 [] (pf_ownership p)"

definition pairs :: "string list \<Rightarrow> string list \<Rightarrow> string list list" where
  "pairs ts rs = concat (map (\<lambda>t. map (\<lambda>r. [t, r]) rs) ts)"

definition signature_check :: "profile \<Rightarrow> catalog \<Rightarrow> nat \<Rightarrow> signature_requirement \<Rightarrow> profile_error option" where
  "signature_check p cat i s =
     first_error
       [nonempty_unique_catalog_set ''signature_requirements.transitions'' (sg_transitions s) (in_transitions cat),
        nonempty_unique_catalog_set ''signature_requirements.roles'' (sg_roles s) (in_roles cat),
        check (sg_sources s = []) (EmptySet ''signature_requirements.trust_sources''),
        scan_seen (\<lambda>r. r) (\<lambda>j e. e) (\<lambda>j r. Repeated ''signature_requirements'' r)
          (\<lambda>r. resolve_trust_source p ''signature_requirements'' r (Some TrustSignedCommit)) 0 [] (sg_sources s)]"

definition signature_requirements_validate :: "profile \<Rightarrow> catalog \<Rightarrow> profile_error option" where
  "signature_requirements_validate p cat =
     rule_scan (signature_check p cat) (\<lambda>s. pairs (sg_transitions s) (sg_roles s))
       (RepeatedRule ''signature_requirements'') 0 [] (pf_signatures p)"

definition approver_check :: "catalog \<Rightarrow> nat \<Rightarrow> approver_requirement \<Rightarrow> profile_error option" where
  "approver_check cat i a =
     first_error
       [nonempty_unique_catalog_set ''required_approvers.transitions'' (aq_transitions a) (in_transitions cat),
        nonempty_unique_catalog_set ''required_approvers.roles'' (aq_roles a) (in_roles cat),
        check (aq_minimum a \<le> 0) (MinimumNotPositive i (aq_minimum a))]"

definition required_approvers_validate :: "profile \<Rightarrow> catalog \<Rightarrow> profile_error option" where
  "required_approvers_validate p cat =
     rule_scan (approver_check cat) (\<lambda>a. pairs (aq_transitions a) (aq_roles a))
       (RepeatedRule ''required_approvers'') 0 [] (pf_approvers p)"

definition distinctness_check :: "catalog \<Rightarrow> nat \<Rightarrow> distinctness_rule \<Rightarrow> profile_error option" where
  "distinctness_check cat i d =
     first_error
       [nonempty_unique_catalog_set ''distinctness_rules.transitions'' (dr_transitions d) (in_transitions cat),
        check (\<not> in_roles cat (dr_left d)) (NotInCatalog ''distinctness_rules'' (dr_left d)),
        check (\<not> in_roles cat (dr_right d)) (NotInCatalog ''distinctness_rules'' (dr_right d)),
        check (dr_left d = dr_right d) (SameRoles i (dr_relation d)),
        check (\<not> relation_valid (dr_relation d)) (UnknownRelation i (relation_string (dr_relation d)))]"

definition distinctness_rules_validate :: "profile \<Rightarrow> catalog \<Rightarrow> profile_error option" where
  "distinctness_rules_validate p cat =
     rule_scan (distinctness_check cat) (\<lambda>d. map (\<lambda>t. [t, dr_left d, dr_right d]) (dr_transitions d))
       (RepeatedRule ''distinctness_rules'') 0 [] (pf_distinctness p)"

definition evidence_check :: "catalog \<Rightarrow> nat \<Rightarrow> evidence_restriction \<Rightarrow> profile_error option" where
  "evidence_check cat i e =
     first_error
       [nonempty_unique_catalog_set ''evidence_source_restrictions.transitions'' (er_transitions e) (in_transitions cat),
        unique_catalog_set ''evidence_source_restrictions.allowed_sources'' (er_allowed e)
          (\<lambda>s. s \<in> set (ct_evidence cat))]"

definition evidence_restrictions_validate :: "profile \<Rightarrow> catalog \<Rightarrow> profile_error option" where
  "evidence_restrictions_validate p cat =
     rule_scan (evidence_check cat) (\<lambda>e. map (\<lambda>t. [t]) (er_transitions e))
       (RepeatedRule ''evidence_source_restrictions'') 0 [] (pf_evidence p)"

definition escalation_check :: "catalog \<Rightarrow> nat \<Rightarrow> escalation_threshold \<Rightarrow> profile_error option" where
  "escalation_check cat i e =
     first_error
       [nonempty_unique_catalog_set ''escalation_thresholds.transitions'' (et_transitions e) (in_transitions cat),
        check (et_metric e \<notin> set (ct_metrics cat)) (NotInCatalog ''escalation_thresholds'' (et_metric e)),
        check (et_at_least e < 0) (NegativeThreshold i (et_at_least e)),
        nonempty_unique_catalog_set ''escalation_thresholds.required_roles'' (et_roles e) (in_roles cat)]"

definition escalation_thresholds_validate :: "profile \<Rightarrow> catalog \<Rightarrow> profile_error option" where
  "escalation_thresholds_validate p cat =
     rule_scan (escalation_check cat) (\<lambda>e. map (\<lambda>t. [t, et_metric e]) (et_transitions e))
       (RepeatedRule ''escalation_thresholds'') 0 [] (pf_escalation p)"

definition class_coverage_at :: "profile \<Rightarrow> string \<Rightarrow> profile_error option" where
  "class_coverage_at p t =
     first_error
       ([check (\<not> list_ex (\<lambda>a. t \<in> set (aq_transitions a)) (pf_approvers p)) (NotCovered ''approval'' t),
         check (\<not> list_ex (\<lambda>d. dr_relation d = DifferentPrincipal \<and> t \<in> set (dr_transitions d)) (pf_distinctness p))
           (NotCovered ''different-principal'' t)] @
        (if pf_class p \<noteq> ClassHighAssurance then []
         else
           [check (\<not> list_ex (\<lambda>s. t \<in> set (sg_transitions s)) (pf_signatures p)) (NotCovered ''signature'' t),
            check (\<not> list_ex (\<lambda>w. t \<in> set (os_transitions w)) (pf_ownership p)) (NotCovered ''ownership'' t),
            check (\<not> list_ex (\<lambda>e. t \<in> set (er_transitions e)) (pf_evidence p)) (NotCovered ''evidence-source'' t)]))"

definition class_coverage_validate :: "profile \<Rightarrow> profile_error option" where
  "class_coverage_validate p =
     (if pf_class p \<noteq> ClassTeam \<and> pf_class p \<noteq> ClassHighAssurance then None
      else first_error (map (class_coverage_at p) (pf_transitions p)))"

definition profile_validate :: "profile \<Rightarrow> catalog \<Rightarrow> profile_error option" where
  "profile_validate p cat =
     first_error
       [check (pf_schema p \<noteq> schemaID) (UnknownSchema (pf_schema p)),
        check (\<not> valid_id (pf_id p)) (BadProfileId (pf_id p)),
        check (\<not> class_valid (pf_class p)) (UnknownClass (class_string (pf_class p))),
        check (pf_transitions p = []) NoTransitions,
        unique_catalog_set ''applicable_transitions'' (pf_transitions p) (in_transitions cat),
        trust_sources_validate p, role_mappings_validate p cat, ownership_sources_validate p cat,
        signature_requirements_validate p cat, required_approvers_validate p cat, distinctness_rules_validate p cat,
        evidence_restrictions_validate p cat, escalation_thresholds_validate p cat, class_coverage_validate p]"

section \<open>Canonical JSON of a profile\<close>

definition json_strings :: "string list \<Rightarrow> json" where
  "json_strings xs = JArr (map json_text xs)"

definition json_int :: "int \<Rightarrow> json" where
  "json_int i = JNum (if i < 0 then CHR ''-'' # show_nat (nat (- i)) else show_nat (nat i))"

definition trust_source_json :: "trust_source \<Rightarrow> json" where
  "trust_source_json t = JObj [(''id'', json_text (ts_id t)), (''kind'', json_text (trust_kind_string (ts_kind t)))]"

definition role_mapping_json :: "role_mapping \<Rightarrow> json" where
  "role_mapping_json m =
     JObj [(''role'', json_text (rm_role m)), (''trust_source'', json_text (rm_source m)),
           (''subjects'', json_strings (rm_subjects m))]"

definition ownership_json :: "ownership_source \<Rightarrow> json" where
  "ownership_json w =
     JObj [(''id'', json_text (os_id w)), (''trust_source'', json_text (os_source w)),
           (''transitions'', json_strings (os_transitions w)), (''roles'', json_strings (os_roles w))]"

definition signature_json :: "signature_requirement \<Rightarrow> json" where
  "signature_json s =
     JObj [(''transitions'', json_strings (sg_transitions s)), (''roles'', json_strings (sg_roles s)),
           (''trust_sources'', json_strings (sg_sources s))]"

definition approver_json :: "approver_requirement \<Rightarrow> json" where
  "approver_json a =
     JObj [(''transitions'', json_strings (aq_transitions a)), (''roles'', json_strings (aq_roles a)),
           (''minimum'', json_int (aq_minimum a))]"

definition distinctness_json :: "distinctness_rule \<Rightarrow> json" where
  "distinctness_json d =
     JObj [(''transitions'', json_strings (dr_transitions d)), (''left_role'', json_text (dr_left d)),
           (''right_role'', json_text (dr_right d)), (''relation'', json_text (relation_string (dr_relation d)))]"

definition evidence_json :: "evidence_restriction \<Rightarrow> json" where
  "evidence_json e =
     JObj [(''transitions'', json_strings (er_transitions e)), (''allowed_sources'', json_strings (er_allowed e))]"

definition escalation_json :: "escalation_threshold \<Rightarrow> json" where
  "escalation_json e =
     JObj [(''transitions'', json_strings (et_transitions e)), (''metric'', json_text (et_metric e)),
           (''at_least'', json_int (et_at_least e)), (''required_roles'', json_strings (et_roles e))]"

definition template_json :: "template_record \<Rightarrow> json" where
  "template_json t = JObj [(''identity'', json_text (tp_identity t)), (''digest'', json_text (tp_digest t))]"

text \<open>The seal is not an exported field; an absent template is omitted.\<close>

definition profile_json :: "profile \<Rightarrow> json" where
  "profile_json p =
     JObj ([(''schema'', json_text (pf_schema p)), (''id'', json_text (pf_id p)),
            (''class'', json_text (class_string (pf_class p))),
            (''applicable_transitions'', json_strings (pf_transitions p)),
            (''identity_trust_sources'', JArr (map trust_source_json (pf_sources p))),
            (''role_mappings'', JArr (map role_mapping_json (pf_mappings p))),
            (''ownership_sources'', JArr (map ownership_json (pf_ownership p))),
            (''signature_requirements'', JArr (map signature_json (pf_signatures p))),
            (''required_approvers'', JArr (map approver_json (pf_approvers p))),
            (''distinctness_rules'', JArr (map distinctness_json (pf_distinctness p))),
            (''evidence_source_restrictions'', JArr (map evidence_json (pf_evidence p))),
            (''escalation_thresholds'', JArr (map escalation_json (pf_escalation p)))] @
           (case pf_template p of None \<Rightarrow> [] | Some t \<Rightarrow> [(''template'', template_json t)]))"

definition content_digest :: "(string \<Rightarrow> string) \<Rightarrow> profile \<Rightarrow> string" where
  "content_digest h p = canon_digest h (profile_json p)"

datatype seal_error = NotDecoded string | ModifiedAfterDecode string

definition check_seal :: "(string \<Rightarrow> string) \<Rightarrow> profile \<Rightarrow> seal_error option" where
  "check_seal h p =
     (if pf_seal p = '''' then Some (NotDecoded (pf_id p))
      else if content_digest h p \<noteq> pf_seal p then Some (ModifiedAfterDecode (pf_id p))
      else None)"

definition profile_digest :: "(string \<Rightarrow> string) \<Rightarrow> profile \<Rightarrow> seal_error + string" where
  "profile_digest h p = (case check_seal h p of Some e \<Rightarrow> Inl e | None \<Rightarrow> Inr (pf_seal p))"

section \<open>Normalization\<close>

text \<open>Entries without an id of their own are ordered by their canonical bytes.\<close>

definition sort_by_content :: "('a \<Rightarrow> json) \<Rightarrow> 'a list \<Rightarrow> 'a list" where
  "sort_by_content f xs = sort_key (\<lambda>x. canon_marshal (f x)) xs"

definition normal_mapping :: "role_mapping \<Rightarrow> role_mapping" where
  "normal_mapping m = m\<lparr>rm_subjects := sort (rm_subjects m)\<rparr>"

definition normal_ownership :: "ownership_source \<Rightarrow> ownership_source" where
  "normal_ownership w = w\<lparr>os_transitions := sort (os_transitions w), os_roles := sort (os_roles w)\<rparr>"

definition normal_signature :: "signature_requirement \<Rightarrow> signature_requirement" where
  "normal_signature s =
     s\<lparr>sg_transitions := sort (sg_transitions s), sg_roles := sort (sg_roles s), sg_sources := sort (sg_sources s)\<rparr>"

definition normal_approver :: "approver_requirement \<Rightarrow> approver_requirement" where
  "normal_approver a = a\<lparr>aq_transitions := sort (aq_transitions a), aq_roles := sort (aq_roles a)\<rparr>"

definition normal_distinctness :: "distinctness_rule \<Rightarrow> distinctness_rule" where
  "normal_distinctness d = d\<lparr>dr_transitions := sort (dr_transitions d)\<rparr>"

definition normal_evidence :: "evidence_restriction \<Rightarrow> evidence_restriction" where
  "normal_evidence e = e\<lparr>er_transitions := sort (er_transitions e), er_allowed := sort (er_allowed e)\<rparr>"

definition normal_escalation :: "escalation_threshold \<Rightarrow> escalation_threshold" where
  "normal_escalation e = e\<lparr>et_transitions := sort (et_transitions e), et_roles := sort (et_roles e)\<rparr>"

definition normalize_profile :: "profile \<Rightarrow> profile" where
  "normalize_profile p =
     p\<lparr>pf_transitions := sort (pf_transitions p),
       pf_sources := sort_key ts_id (pf_sources p),
       pf_mappings := sort_key (\<lambda>m. [rm_role m, rm_source m]) (map normal_mapping (pf_mappings p)),
       pf_ownership := sort_key os_id (map normal_ownership (pf_ownership p)),
       pf_signatures := sort_by_content signature_json (map normal_signature (pf_signatures p)),
       pf_approvers := sort_by_content approver_json (map normal_approver (pf_approvers p)),
       pf_distinctness := sort_by_content distinctness_json (map normal_distinctness (pf_distinctness p)),
       pf_evidence := sort_by_content evidence_json (map normal_evidence (pf_evidence p)),
       pf_escalation := sort_by_content escalation_json (map normal_escalation (pf_escalation p))\<rparr>"

section \<open>Decoding\<close>

text \<open>The strict decode target: every top-level field is optional, so omission shows.\<close>

record profile_doc =
  pd_schema :: "string option"
  pd_id :: "string option"
  pd_class :: "profile_class option"
  pd_transitions :: "string list option"
  pd_sources :: "trust_source list option"
  pd_mappings :: "role_mapping list option"
  pd_ownership :: "ownership_source list option"
  pd_signatures :: "signature_requirement list option"
  pd_approvers :: "approver_requirement list option"
  pd_distinctness :: "distinctness_rule list option"
  pd_evidence :: "(string list \<times> string list option) list option"
  pd_escalation :: "(string list \<times> string \<times> int option \<times> string list) list option"
  pd_template :: "template_record option"

datatype profile_decode_error =
    CatalogError catalog_error
  | YamlError string
  | MissingField string
  | TemplateIdentity
  | TemplateDigest string
  | AllowedMissing nat
  | AtLeastMissing nat
  | ProfileError profile_error

definition template_validate :: "template_record \<Rightarrow> profile_decode_error option" where
  "template_validate t =
     first_error
       [check (tp_identity t = '''') TemplateIdentity,
        check (\<not> rx_match sha256Re (tp_digest t)) (TemplateDigest (tp_digest t))]"

fun doc_evidence :: "nat \<Rightarrow> (string list \<times> string list option) list \<Rightarrow> profile_decode_error + evidence_restriction list" where
  "doc_evidence i [] = Inr []"
| "doc_evidence i ((ts, allowed) # es) =
     (case allowed of
        None \<Rightarrow> Inl (AllowedMissing i)
      | Some a \<Rightarrow>
          (case doc_evidence (Suc i) es of
             Inl e \<Rightarrow> Inl e | Inr rs \<Rightarrow> Inr (\<lparr>er_transitions = ts, er_allowed = a\<rparr> # rs)))"

fun doc_escalation ::
  "nat \<Rightarrow> (string list \<times> string \<times> int option \<times> string list) list \<Rightarrow> profile_decode_error + escalation_threshold list" where
  "doc_escalation i [] = Inr []"
| "doc_escalation i ((ts, m, at_least, roles) # es) =
     (case at_least of
        None \<Rightarrow> Inl (AtLeastMissing i)
      | Some n \<Rightarrow>
          (case doc_escalation (Suc i) es of
             Inl e \<Rightarrow> Inl e
           | Inr rs \<Rightarrow> Inr (\<lparr>et_transitions = ts, et_metric = m, et_at_least = n, et_roles = roles\<rparr> # rs)))"

definition missing_field :: "profile_doc \<Rightarrow> string option" where
  "missing_field d =
     first_error
       [check (pd_schema d = None) ''schema'', check (pd_id d = None) ''id'', check (pd_class d = None) ''class'',
        check (pd_transitions d = None) ''applicable_transitions'',
        check (pd_sources d = None) ''identity_trust_sources'', check (pd_mappings d = None) ''role_mappings'',
        check (pd_ownership d = None) ''ownership_sources'',
        check (pd_signatures d = None) ''signature_requirements'',
        check (pd_approvers d = None) ''required_approvers'', check (pd_distinctness d = None) ''distinctness_rules'',
        check (pd_evidence d = None) ''evidence_source_restrictions'',
        check (pd_escalation d = None) ''escalation_thresholds'']"

definition doc_to_profile :: "profile_doc \<Rightarrow> profile_decode_error + profile" where
  "doc_to_profile d =
     (case missing_field d of
        Some f \<Rightarrow> Inl (MissingField f)
      | None \<Rightarrow>
          (case (case pd_template d of None \<Rightarrow> None | Some t \<Rightarrow> template_validate t) of
             Some e \<Rightarrow> Inl e
           | None \<Rightarrow>
               (case doc_evidence 0 (the (pd_evidence d)) of
                  Inl e \<Rightarrow> Inl e
                | Inr ev \<Rightarrow>
                    (case doc_escalation 0 (the (pd_escalation d)) of
                       Inl e \<Rightarrow> Inl e
                     | Inr es \<Rightarrow>
                         Inr \<lparr>pf_schema = the (pd_schema d), pf_id = the (pd_id d), pf_class = the (pd_class d),
                              pf_transitions = the (pd_transitions d), pf_sources = the (pd_sources d),
                              pf_mappings = the (pd_mappings d), pf_ownership = the (pd_ownership d),
                              pf_signatures = the (pd_signatures d), pf_approvers = the (pd_approvers d),
                              pf_distinctness = the (pd_distinctness d), pf_evidence = ev, pf_escalation = es,
                              pf_template = pd_template d, pf_seal = ''''\<rparr>))))"

definition decode_profile ::
  "(string \<Rightarrow> string) \<Rightarrow> (string \<Rightarrow> string + profile_doc) \<Rightarrow> catalog \<Rightarrow> string \<Rightarrow> profile_decode_error + profile" where
  "decode_profile h yaml cat raw =
     (case catalog_validate cat of
        Some e \<Rightarrow> Inl (CatalogError e)
      | None \<Rightarrow>
          (case yaml raw of
             Inl e \<Rightarrow> Inl (YamlError e)
           | Inr doc \<Rightarrow>
               (case doc_to_profile doc of
                  Inl e \<Rightarrow> Inl e
                | Inr p \<Rightarrow>
                    (case profile_validate p cat of
                       Some e \<Rightarrow> Inl (ProfileError e)
                     | None \<Rightarrow>
                         (let n = normalize_profile p in Inr (n\<lparr>pf_seal := content_digest h n\<rparr>))))))"

section \<open>What validation accepts\<close>

lemma keyed_scan_None:
  assumes "\<And>j x. pre j x = None \<longleftrightarrow> A x" "\<And>j x. post j x = None \<longleftrightarrow> B x"
  shows "keyed_scan pre key dup post i seen xs = None \<longleftrightarrow>
     (\<forall>x \<in> set xs. A x \<and> B x) \<and> distinct (map key xs) \<and> key ` set xs \<inter> set seen = {}"
  by (induction xs arbitrary: i seen) (auto simp: assms)

lemma key_scan_None: "key_scan dup seen ks = None \<longleftrightarrow> distinct ks \<and> set ks \<inter> set seen = {}"
  by (induction ks arbitrary: seen) auto

lemma rule_scan_None:
  assumes "\<And>j r. chk j r = None \<longleftrightarrow> A r"
  shows "rule_scan chk ks dup i seen rs = None \<longleftrightarrow>
     (\<forall>r \<in> set rs. A r) \<and> distinct (concat (map ks rs)) \<and> set (concat (map ks rs)) \<inter> set seen = {}"
proof (induction rs arbitrary: i seen)
  case (Cons r rs)
  show ?case by (auto simp: assms key_scan_None Cons)
qed simp

lemma mset_concat_map: "mset (concat (map f xs)) = (\<Sum>x \<in># mset xs. mset (f x))"
  by (induction xs) auto

text \<open>Acceptance by such a loop is a fact about the multiset of normalized rules.\<close>

lemma rule_scan_normal:
  assumes "\<And>j r. chk j r = None \<longleftrightarrow> A r" "\<And>r. A (norm r) \<longleftrightarrow> A r" "\<And>r. mset (ks (norm r)) = mset (ks r)"
    and "mset (map norm rs) = mset (map norm qs)"
  shows "rule_scan chk ks dup i [] rs = None \<longleftrightarrow> rule_scan chk ks dup i [] qs = None"
proof -
  have "mset (concat (map ks xs)) = mset (concat (map ks (map norm xs)))" for xs
    by (simp add: mset_concat_map image_mset.compositionality comp_def assms(3) flip: mset_map)
  moreover have "mset (concat (map ks (map norm rs))) = mset (concat (map ks (map norm qs)))"
    by (simp only: mset_concat_map assms(4))
  ultimately have "mset (concat (map ks rs)) = mset (concat (map ks qs))" by simp
  then have "distinct (concat (map ks rs)) \<longleftrightarrow> distinct (concat (map ks qs))" by (rule mset_eq_imp_distinct_iff)
  moreover have "(\<forall>r \<in> set xs. A r) \<longleftrightarrow> (\<forall>r \<in> set (map norm xs). A r)" for xs using assms(2) by auto
  then have "(\<forall>r \<in> set rs. A r) \<longleftrightarrow> (\<forall>r \<in> set qs. A r)" using assms(4) by (metis mset_eq_setD)
  ultimately show ?thesis by (simp add: rule_scan_None[OF assms(1)])
qed

definition catalog_subset :: "string list \<Rightarrow> (string \<Rightarrow> bool) \<Rightarrow> bool" where
  "catalog_subset ms in_catalog \<longleftrightarrow> list_all in_catalog ms \<and> distinct ms"

lemma unique_catalog_set_None [scan_simps]:
  "unique_catalog_set field ms in_catalog = None \<longleftrightarrow> catalog_subset ms in_catalog"
  by (auto simp: unique_catalog_set_def scan_seen_None catalog_subset_def list_all_iff)

lemma nonempty_unique_catalog_set_None [scan_simps]:
  "nonempty_unique_catalog_set field ms in_catalog = None \<longleftrightarrow> ms \<noteq> [] \<and> catalog_subset ms in_catalog"
  by (simp add: nonempty_unique_catalog_set_def unique_catalog_set_None)

lemma catalog_subset_sort [simp]: "catalog_subset (sort ms) f \<longleftrightarrow> catalog_subset ms f"
  by (simp add: catalog_subset_def list_all_iff)

lemma sort_empty [simp]: "sort xs = [] \<longleftrightarrow> xs = []"
  by (metis set_empty set_sort)

definition signature_ok :: "profile \<Rightarrow> catalog \<Rightarrow> signature_requirement \<Rightarrow> bool" where
  "signature_ok p cat s \<longleftrightarrow>
     sg_transitions s \<noteq> [] \<and> catalog_subset (sg_transitions s) (in_transitions cat)
     \<and> sg_roles s \<noteq> [] \<and> catalog_subset (sg_roles s) (in_roles cat) \<and> sg_sources s \<noteq> [] \<and> distinct (sg_sources s)
     \<and> (\<forall>r \<in> set (sg_sources s). \<exists>t. trust_source_of p r = Some t \<and> ts_kind t = TrustSignedCommit)"

lemma resolve_trust_source_None [scan_simps]:
  "resolve_trust_source p field ref want = None \<longleftrightarrow>
     (\<exists>t. trust_source_of p ref = Some t \<and> (case want of None \<Rightarrow> True | Some k \<Rightarrow> ts_kind t = k))"
  by (auto simp: resolve_trust_source_def split: option.splits)

lemma signature_check_None: "signature_check p cat j s = None \<longleftrightarrow> signature_ok p cat s"
  by (auto simp: signature_check_def signature_ok_def scan_simps)

definition approver_ok :: "catalog \<Rightarrow> approver_requirement \<Rightarrow> bool" where
  "approver_ok cat a \<longleftrightarrow>
     aq_transitions a \<noteq> [] \<and> catalog_subset (aq_transitions a) (in_transitions cat)
     \<and> aq_roles a \<noteq> [] \<and> catalog_subset (aq_roles a) (in_roles cat) \<and> 0 < aq_minimum a"

lemma approver_check_None: "approver_check cat j a = None \<longleftrightarrow> approver_ok cat a"
  by (auto simp: approver_check_def approver_ok_def scan_simps)

definition distinctness_ok :: "catalog \<Rightarrow> distinctness_rule \<Rightarrow> bool" where
  "distinctness_ok cat d \<longleftrightarrow>
     dr_transitions d \<noteq> [] \<and> catalog_subset (dr_transitions d) (in_transitions cat)
     \<and> in_roles cat (dr_left d) \<and> in_roles cat (dr_right d) \<and> dr_left d \<noteq> dr_right d \<and> relation_valid (dr_relation d)"

lemma distinctness_check_None: "distinctness_check cat j d = None \<longleftrightarrow> distinctness_ok cat d"
  by (auto simp: distinctness_check_def distinctness_ok_def scan_simps)

definition evidence_ok :: "catalog \<Rightarrow> evidence_restriction \<Rightarrow> bool" where
  "evidence_ok cat e \<longleftrightarrow>
     er_transitions e \<noteq> [] \<and> catalog_subset (er_transitions e) (in_transitions cat)
     \<and> catalog_subset (er_allowed e) (\<lambda>s. s \<in> set (ct_evidence cat))"

lemma evidence_check_None: "evidence_check cat j e = None \<longleftrightarrow> evidence_ok cat e"
  by (auto simp: evidence_check_def evidence_ok_def scan_simps)

definition escalation_ok :: "catalog \<Rightarrow> escalation_threshold \<Rightarrow> bool" where
  "escalation_ok cat e \<longleftrightarrow>
     et_transitions e \<noteq> [] \<and> catalog_subset (et_transitions e) (in_transitions cat)
     \<and> et_metric e \<in> set (ct_metrics cat) \<and> 0 \<le> et_at_least e
     \<and> et_roles e \<noteq> [] \<and> catalog_subset (et_roles e) (in_roles cat)"

lemma escalation_check_None: "escalation_check cat j e = None \<longleftrightarrow> escalation_ok cat e"
  by (auto simp: escalation_check_def escalation_ok_def scan_simps)

definition source_ok :: "profile_class \<Rightarrow> trust_source \<Rightarrow> bool" where
  "source_ok c t \<longleftrightarrow>
     valid_id (ts_id t) \<and> trust_kind_valid (ts_kind t) \<and> (ts_kind t = TrustLocalOperator \<longrightarrow> c = ClassSolo)"

lemma trust_sources_None:
  "trust_sources_validate p = None \<longleftrightarrow>
     (\<forall>t \<in> set (pf_sources p). source_ok (pf_class p) t) \<and> distinct (map ts_id (pf_sources p))"
  by (subst trust_sources_validate_def, subst keyed_scan_None[where A = "source_ok (pf_class p)" and B = "\<lambda>x. True"])
    (auto simp: source_ok_def)

definition mapping_ok :: "profile \<Rightarrow> catalog \<Rightarrow> role_mapping \<Rightarrow> bool" where
  "mapping_ok p cat m \<longleftrightarrow>
     in_roles cat (rm_role m) \<and> (\<exists>t. trust_source_of p (rm_source m) = Some t)
     \<and> rm_subjects m \<noteq> [] \<and> distinct (rm_subjects m) \<and> (\<forall>s \<in> set (rm_subjects m). s \<noteq> '''' \<and> utf8_valid s)"

lemma role_mappings_None:
  "role_mappings_validate p cat = None \<longleftrightarrow>
     (\<forall>m \<in> set (pf_mappings p). mapping_ok p cat m) \<and> distinct (map (\<lambda>m. (rm_role m, rm_source m)) (pf_mappings p))"
  by (subst role_mappings_validate_def,
      subst keyed_scan_None[where A = "\<lambda>m. in_roles cat (rm_role m) \<and> (\<exists>t. trust_source_of p (rm_source m) = Some t)"
        and B = "\<lambda>m. rm_subjects m \<noteq> [] \<and> distinct (rm_subjects m) \<and> (\<forall>s \<in> set (rm_subjects m). s \<noteq> '''' \<and> utf8_valid s)"])
    (auto simp: mapping_ok_def scan_simps)

definition ownership_ok :: "profile \<Rightarrow> catalog \<Rightarrow> ownership_source \<Rightarrow> bool" where
  "ownership_ok p cat w \<longleftrightarrow>
     valid_id (os_id w) \<and> (\<exists>t. trust_source_of p (os_source w) = Some t \<and> ts_kind t = TrustOwnership)
     \<and> os_transitions w \<noteq> [] \<and> catalog_subset (os_transitions w) (in_transitions cat)
     \<and> os_roles w \<noteq> [] \<and> catalog_subset (os_roles w) (in_roles cat)"

lemma ownership_sources_None:
  "ownership_sources_validate p cat = None \<longleftrightarrow>
     (\<forall>w \<in> set (pf_ownership p). ownership_ok p cat w) \<and> distinct (map os_id (pf_ownership p))"
  by (subst ownership_sources_validate_def,
      subst keyed_scan_None[where A = "\<lambda>w. valid_id (os_id w)" and B = "\<lambda>w.
        (\<exists>t. trust_source_of p (os_source w) = Some t \<and> ts_kind t = TrustOwnership)
        \<and> os_transitions w \<noteq> [] \<and> catalog_subset (os_transitions w) (in_transitions cat)
        \<and> os_roles w \<noteq> [] \<and> catalog_subset (os_roles w) (in_roles cat)"])
    (auto simp: ownership_ok_def scan_simps)

section \<open>Lists as sets\<close>

text \<open>Two profiles that differ only in the order of their lists, at every depth.\<close>

definition same_sets :: "profile \<Rightarrow> profile \<Rightarrow> bool" where
  "same_sets p q \<longleftrightarrow>
     pf_schema p = pf_schema q \<and> pf_id p = pf_id q \<and> pf_class p = pf_class q \<and> pf_template p = pf_template q
     \<and> pf_seal p = pf_seal q
     \<and> mset (pf_transitions p) = mset (pf_transitions q) \<and> mset (pf_sources p) = mset (pf_sources q)
     \<and> mset (map normal_mapping (pf_mappings p)) = mset (map normal_mapping (pf_mappings q))
     \<and> mset (map normal_ownership (pf_ownership p)) = mset (map normal_ownership (pf_ownership q))
     \<and> mset (map normal_signature (pf_signatures p)) = mset (map normal_signature (pf_signatures q))
     \<and> mset (map normal_approver (pf_approvers p)) = mset (map normal_approver (pf_approvers q))
     \<and> mset (map normal_distinctness (pf_distinctness p)) = mset (map normal_distinctness (pf_distinctness q))
     \<and> mset (map normal_evidence (pf_evidence p)) = mset (map normal_evidence (pf_evidence q))
     \<and> mset (map normal_escalation (pf_escalation p)) = mset (map normal_escalation (pf_escalation q))"

lemmas normal_defs = normal_mapping_def normal_ownership_def normal_signature_def normal_approver_def
  normal_distinctness_def normal_evidence_def normal_escalation_def

lemma normal_ok [simp]:
  "mapping_ok p cat (normal_mapping m) \<longleftrightarrow> mapping_ok p cat m"
  "ownership_ok p cat (normal_ownership w) \<longleftrightarrow> ownership_ok p cat w"
  "signature_ok p cat (normal_signature s) \<longleftrightarrow> signature_ok p cat s"
  "approver_ok cat (normal_approver a) \<longleftrightarrow> approver_ok cat a"
  "distinctness_ok cat (normal_distinctness d) \<longleftrightarrow> distinctness_ok cat d"
  "evidence_ok cat (normal_evidence e) \<longleftrightarrow> evidence_ok cat e"
  "escalation_ok cat (normal_escalation t) \<longleftrightarrow> escalation_ok cat t"
  by (simp_all add: normal_defs mapping_ok_def ownership_ok_def signature_ok_def approver_ok_def distinctness_ok_def
      evidence_ok_def escalation_ok_def)

lemma normal_keys:
  "rm_role (normal_mapping m) = rm_role m" "rm_source (normal_mapping m) = rm_source m"
  "os_id (normal_ownership w) = os_id w"
  by (simp_all add: normal_defs)

lemma mset_pairs: "mset (pairs ts rs) = (\<Sum>t \<in># mset ts. image_mset (\<lambda>r. [t, r]) (mset rs))"
  by (simp add: pairs_def mset_concat_map)

lemma normal_rule_keys:
  "mset (pairs (sg_transitions (normal_signature s)) (sg_roles (normal_signature s))) = mset (pairs (sg_transitions s) (sg_roles s))"
  "mset (pairs (aq_transitions (normal_approver a)) (aq_roles (normal_approver a))) = mset (pairs (aq_transitions a) (aq_roles a))"
  "mset (map (\<lambda>t. [t, dr_left (normal_distinctness d), dr_right (normal_distinctness d)]) (dr_transitions (normal_distinctness d)))
     = mset (map (\<lambda>t. [t, dr_left d, dr_right d]) (dr_transitions d))"
  "mset (map (\<lambda>t. [t]) (er_transitions (normal_evidence e))) = mset (map (\<lambda>t. [t]) (er_transitions e))"
  "mset (map (\<lambda>t. [t, et_metric (normal_escalation x)]) (et_transitions (normal_escalation x)))
     = mset (map (\<lambda>t. [t, et_metric x]) (et_transitions x))"
  by (simp_all add: mset_pairs normal_defs)

lemma distinct_keys_mset:
  assumes "mset (map f xs) = mset (map f ys)" "\<And>x. key (f x) = key x"
  shows "distinct (map key xs) \<longleftrightarrow> distinct (map key ys)"
proof -
  have "mset (map key xs) = image_mset key (mset (map f xs))" for xs by (simp add: image_mset.compositionality comp_def assms(2))
  then have "mset (map key xs) = mset (map key ys)" using assms(1) by simp
  then show ?thesis by (rule mset_eq_imp_distinct_iff)
qed

lemma trust_source_of_set:
  assumes "distinct (map ts_id (pf_sources p))" "mset (pf_sources p) = mset (pf_sources q)"
  shows "trust_source_of p = trust_source_of q"
proof
  fix r
  have "distinct (map ts_id (pf_sources q))" using assms by (metis mset_eq_imp_distinct_iff mset_map)
  then have "trust_source_of p r = Some t \<longleftrightarrow> trust_source_of q r = Some t" for t
    using assms mset_eq_setD[OF assms(2)] by (simp add: trust_source_of_def find_key_iff)
  then show "trust_source_of p r = trust_source_of q r" by (metis not_Some_eq)
qed

lemma all_normal:
  assumes "mset (map f xs) = mset (map f ys)" "\<And>x. A (f x) \<longleftrightarrow> A x"
  shows "(\<forall>x \<in> set xs. A x) \<longleftrightarrow> (\<forall>x \<in> set ys. A x)"
  using mset_eq_setD[OF assms(1)] assms(2) by (metis (mono_tags, lifting) image_iff list.set_map)

lemma any_normal:
  assumes "mset (map f xs) = mset (map f ys)" "\<And>x. A (f x) \<longleftrightarrow> A x"
  shows "list_ex A xs \<longleftrightarrow> list_ex A ys"
  using all_normal[of f xs ys "\<lambda>x. \<not> A x"] assms by (auto simp: list_ex_iff)

lemma class_coverage_sets:
  assumes "same_sets p q"
  shows "class_coverage_validate p = None \<longleftrightarrow> class_coverage_validate q = None"
proof -
  have at: "class_coverage_at p t = None \<longleftrightarrow> class_coverage_at q t = None" for t
  proof -
    have "list_ex (\<lambda>a. t \<in> set (aq_transitions a)) (pf_approvers p) \<longleftrightarrow> list_ex (\<lambda>a. t \<in> set (aq_transitions a)) (pf_approvers q)"
      by (rule any_normal[of normal_approver]) (use assms in \<open>simp_all add: same_sets_def normal_defs\<close>)
    moreover have "list_ex (\<lambda>d. dr_relation d = DifferentPrincipal \<and> t \<in> set (dr_transitions d)) (pf_distinctness p) \<longleftrightarrow>
        list_ex (\<lambda>d. dr_relation d = DifferentPrincipal \<and> t \<in> set (dr_transitions d)) (pf_distinctness q)"
      by (rule any_normal[of normal_distinctness]) (use assms in \<open>simp_all add: same_sets_def normal_defs\<close>)
    moreover have "list_ex (\<lambda>s. t \<in> set (sg_transitions s)) (pf_signatures p) \<longleftrightarrow> list_ex (\<lambda>s. t \<in> set (sg_transitions s)) (pf_signatures q)"
      by (rule any_normal[of normal_signature]) (use assms in \<open>simp_all add: same_sets_def normal_defs\<close>)
    moreover have "list_ex (\<lambda>w. t \<in> set (os_transitions w)) (pf_ownership p) \<longleftrightarrow> list_ex (\<lambda>w. t \<in> set (os_transitions w)) (pf_ownership q)"
      by (rule any_normal[of normal_ownership]) (use assms in \<open>simp_all add: same_sets_def normal_defs\<close>)
    moreover have "list_ex (\<lambda>e. t \<in> set (er_transitions e)) (pf_evidence p) \<longleftrightarrow> list_ex (\<lambda>e. t \<in> set (er_transitions e)) (pf_evidence q)"
      by (rule any_normal[of normal_evidence]) (use assms in \<open>simp_all add: same_sets_def normal_defs\<close>)
    ultimately show ?thesis using assms by (simp add: class_coverage_at_def same_sets_def first_error_None)
  qed
  have "set (pf_transitions p) = set (pf_transitions q)" "pf_class p = pf_class q"
    using assms by (auto simp: same_sets_def dest: mset_eq_setD)
  with at show ?thesis by (simp add: class_coverage_validate_def first_error_None)
qed

text \<open>The order of a list is not seen by validation.\<close>

lemma profile_validate_sets:
  assumes s: "same_sets p q"
  shows "profile_validate p cat = None \<longleftrightarrow> profile_validate q cat = None"
proof -
  have sources: "trust_sources_validate p = None \<longleftrightarrow> trust_sources_validate q = None"
  proof -
    have m: "mset (pf_sources p) = mset (pf_sources q)" using s by (simp add: same_sets_def)
    then have "distinct (map ts_id (pf_sources p)) \<longleftrightarrow> distinct (map ts_id (pf_sources q))"
      by (metis mset_eq_imp_distinct_iff mset_map)
    moreover have "set (pf_sources p) = set (pf_sources q)" by (rule mset_eq_setD[OF m])
    ultimately show ?thesis using s by (simp add: trust_sources_None same_sets_def)
  qed
  have transitions: "unique_catalog_set f (pf_transitions p) c = None \<longleftrightarrow> unique_catalog_set f (pf_transitions q) c = None"
    "pf_transitions p = [] \<longleftrightarrow> pf_transitions q = []" for f c
    using s mset_eq_imp_distinct_iff[of "pf_transitions p" "pf_transitions q"] mset_eq_setD[of "pf_transitions p" "pf_transitions q"]
    by (auto simp: scan_simps catalog_subset_def list_all_iff same_sets_def)
  have "(trust_sources_validate p = None \<and> role_mappings_validate p cat = None \<and> ownership_sources_validate p cat = None
      \<and> signature_requirements_validate p cat = None) \<longleftrightarrow>
    (trust_sources_validate q = None \<and> role_mappings_validate q cat = None \<and> ownership_sources_validate q cat = None
      \<and> signature_requirements_validate q cat = None)"
  proof (cases "trust_sources_validate p = None")
    case True
    then have t: "trust_source_of p = trust_source_of q"
      using s by (intro trust_source_of_set) (simp_all add: trust_sources_None same_sets_def)
    then have ok: "mapping_ok p = mapping_ok q" "ownership_ok p = ownership_ok q" "signature_ok p = signature_ok q"
      by (auto simp: mapping_ok_def ownership_ok_def signature_ok_def fun_eq_iff)
    have "role_mappings_validate p cat = None \<longleftrightarrow> role_mappings_validate q cat = None"
      using all_normal[of normal_mapping "pf_mappings p" "pf_mappings q" "mapping_ok q cat"] s ok
        distinct_keys_mset[of normal_mapping "pf_mappings p" "pf_mappings q" "\<lambda>m. (rm_role m, rm_source m)"]
      by (simp add: role_mappings_None same_sets_def normal_keys)
    moreover have "ownership_sources_validate p cat = None \<longleftrightarrow> ownership_sources_validate q cat = None"
      using all_normal[of normal_ownership "pf_ownership p" "pf_ownership q" "ownership_ok q cat"] s ok
        distinct_keys_mset[of normal_ownership "pf_ownership p" "pf_ownership q" os_id]
      by (simp add: ownership_sources_None same_sets_def normal_keys)
    moreover have "signature_requirements_validate p cat = None \<longleftrightarrow> signature_requirements_validate q cat = None"
    proof -
      have "signature_requirements_validate p cat = None \<longleftrightarrow>
          rule_scan (signature_check q cat) (\<lambda>s. pairs (sg_transitions s) (sg_roles s))
            (RepeatedRule ''signature_requirements'') 0 [] (pf_signatures p) = None"
        by (simp add: signature_requirements_validate_def rule_scan_None[OF signature_check_None] ok)
      also have "\<dots> \<longleftrightarrow> signature_requirements_validate q cat = None"
        unfolding signature_requirements_validate_def
        by (rule rule_scan_normal[OF signature_check_None, where norm = normal_signature])
          (use s in \<open>simp_all add: same_sets_def normal_rule_keys\<close>)
      finally show ?thesis .
    qed
    ultimately show ?thesis using sources by blast
  next
    case False
    then show ?thesis using sources by metis
  qed
  moreover have "required_approvers_validate p cat = None \<longleftrightarrow> required_approvers_validate q cat = None"
    unfolding required_approvers_validate_def
    by (rule rule_scan_normal[OF approver_check_None, where norm = normal_approver])
      (use s in \<open>simp_all add: same_sets_def normal_rule_keys\<close>)
  moreover have "distinctness_rules_validate p cat = None \<longleftrightarrow> distinctness_rules_validate q cat = None"
    unfolding distinctness_rules_validate_def
    by (rule rule_scan_normal[OF distinctness_check_None, where norm = normal_distinctness])
      (use s in \<open>simp_all only: same_sets_def normal_ok normal_rule_keys\<close>)
  moreover have "evidence_restrictions_validate p cat = None \<longleftrightarrow> evidence_restrictions_validate q cat = None"
    unfolding evidence_restrictions_validate_def
    by (rule rule_scan_normal[OF evidence_check_None, where norm = normal_evidence])
      (use s in \<open>simp_all only: same_sets_def normal_ok normal_rule_keys\<close>)
  moreover have "escalation_thresholds_validate p cat = None \<longleftrightarrow> escalation_thresholds_validate q cat = None"
    unfolding escalation_thresholds_validate_def
    by (rule rule_scan_normal[OF escalation_check_None, where norm = normal_escalation])
      (use s in \<open>simp_all only: same_sets_def normal_ok normal_rule_keys\<close>)
  ultimately show ?thesis using transitions class_coverage_sets[OF s] s
    unfolding profile_validate_def by (simp add: same_sets_def) blast
qed

end
