(* ===== verification/ProfileSeal.thy ===== *)
theory ProfileSeal
  imports Profiles
begin

text \<open>
  What the bytes of a profile say. The canonical JSON of every entry determines the entry
  (its strings being UTF-8), so sorting by content gives a list that depends on the
  multiset of entries only; normalization, and the digest that seals a decoded profile,
  are then functions of the profile's contents, not of the order of the document.
\<close>

section \<open>The content order is an order of contents\<close>

lemma coerce_valid: "utf8_valid s \<Longrightarrow> coerce_utf8 s = s"
proof (induction s rule: coerce_utf8.induct)
  case (2 c s)
  let ?w = "rune_width (c # s)" and ?t = "drop (rune_width (c # s)) (c # s)"
  have v: "of_char c < (128 :: nat) \<or> 1 < ?w" "utf8_valid ?t" using 2(2) by (simp_all add: utf8_valid.simps(2))
  have "?w \<le> length (c # s)" by (rule rune_width_le) simp
  then have "length (take ?w (c # s)) = ?w" by simp
  with v(1) have "coerce_utf8 (c # s) = take ?w (c # s) @ coerce_utf8 ?t"
    by (auto simp: coerce_utf8.simps(2) Let_def)
  with 2(1)[OF v(2)] show ?case by simp
qed simp

lemma json_text_inj: "utf8_valid s \<Longrightarrow> utf8_valid t \<Longrightarrow> json_text s = json_text t \<longleftrightarrow> s = t"
  by (simp add: json_text_def coerce_valid)

lemma json_text_ok: "utf8_valid s \<Longrightarrow> json_ok (json_text s)"
  by (simp add: json_text_def coerce_valid)

lemma canon_text [simp]: "canon (json_text s) = json_text s" "canon (json_strings xs) = json_strings xs"
  by (simp_all add: json_text_def json_strings_def comp_def)

lemma json_strings_inj:
  "list_all utf8_valid xs \<Longrightarrow> list_all utf8_valid ys \<Longrightarrow> json_strings xs = json_strings ys \<longleftrightarrow> xs = ys"
  unfolding json_strings_def json.inject
  by (rule inj_on_map_eq_map, rule inj_onI) (auto simp: json_text_inj list_all_iff)

lemma json_strings_ok: "list_all utf8_valid xs \<Longrightarrow> json_ok (json_strings xs)"
  by (auto simp: json_strings_def list_all_iff json_text_ok)

lemma show_nat_literal: "num_literal (show_nat n)" "CHR ''-'' \<notin> set (show_nat n)"
proof -
  have d: "list_all is_digit (show_nat n)" "show_nat n \<noteq> ''''" using show_nat_digits by auto
  then show "num_literal (show_nat n)" by (cases "show_nat n") (auto simp: num_literal_def num_char_def list_all_iff)
  from d show "CHR ''-'' \<notin> set (show_nat n)" by (auto simp: list_all_iff is_digit_def)
qed

lemma json_int_ok: "json_ok (json_int i)"
proof -
  have "num_literal (CHR ''-'' # show_nat n)" for n
    using show_nat_literal(1)[of n] by (auto simp: num_literal_def num_char_def)
  then show ?thesis using show_nat_literal(1) by (simp add: json_int_def)
qed

lemma json_int_inj: "json_int i = json_int j \<longleftrightarrow> i = j"
proof -
  have "CHR ''-'' # s \<noteq> show_nat n" "show_nat n \<noteq> CHR ''-'' # s" for s n
    using show_nat_literal(2)[of n] by (metis list.set_intros(1))+
  then show ?thesis by (auto simp: json_int_def show_nat_inj)
qed

lemma canon_int [simp]: "canon (json_int i) = json_int i"
  by (simp add: json_int_def)

lemma canon_fields:
  assumes "canon (JObj kvs) = canon (JObj kws)" "distinct (map fst kvs)" "distinct (map fst kws)"
  shows "map_option canon (map_of kvs k) = map_option canon (map_of kws k)"
proof -
  let ?c = "\<lambda>(k, v). (k :: string, canon v)"
  have "mset (sort_key fst (map ?c kvs)) = mset (sort_key fst (map ?c kws))" using assms(1) by simp
  then have "mset (map ?c kvs) = mset (map ?c kws)" by simp
  then have "set (map ?c kvs) = set (map ?c kws)" by (rule mset_eq_setD)
  moreover have "distinct (map fst (map ?c kvs))" "distinct (map fst (map ?c kws))"
    using assms(2,3) by (simp_all add: split_def comp_def)
  ultimately have "map_of (map ?c kvs) k = Some v \<longleftrightarrow> map_of (map ?c kws) k = Some v" for v
    by (simp only: map_of_eq_Some_iff)
  then have "map_of (map ?c kvs) k = map_of (map ?c kws) k" by (metis not_Some_eq)
  moreover have "map_of (map ?c xs) k = map_option canon (map_of xs k)" for xs :: "(string \<times> json) list"
    by (simp add: map_of_map)
  ultimately show ?thesis by metis
qed

section \<open>Entries and their bytes\<close>

definition all_text :: "string list \<Rightarrow> bool" where
  "all_text xs \<longleftrightarrow> list_all utf8_valid xs"

text \<open>An enumeration value as the Go string holds it: a known string is its constructor.\<close>

definition class_named :: "string \<Rightarrow> profile_class" where
  "class_named s =
     (case find (\<lambda>c. class_string c = s) [ClassSolo, ClassTeam, ClassHighAssurance, ClassExperimental] of
        Some c \<Rightarrow> c | None \<Rightarrow> ClassUnknown s)"

definition trust_kind_named :: "string \<Rightarrow> trust_kind" where
  "trust_kind_named s =
     (case find (\<lambda>k. trust_kind_string k = s)
        [TrustForge, TrustSignedCommit, TrustOwnership, TrustIdentityProvider, TrustLocalOperator] of
        Some k \<Rightarrow> k | None \<Rightarrow> TrustUnknown s)"

definition relation_named :: "string \<Rightarrow> distinctness_relation" where
  "relation_named s =
     (case find (\<lambda>r. relation_string r = s) [SamePrincipal, DifferentPrincipal] of
        Some r \<Rightarrow> r | None \<Rightarrow> RelationUnknown s)"

lemma class_named_string [simp]: "class_valid c \<Longrightarrow> class_named (class_string c) = c"
  by (cases c) (simp_all add: class_named_def)

lemma trust_kind_named_string [simp]: "trust_kind_valid k \<Longrightarrow> trust_kind_named (trust_kind_string k) = k"
  by (cases k) (simp_all add: trust_kind_named_def)

lemma relation_named_string [simp]: "relation_valid r \<Longrightarrow> relation_named (relation_string r) = r"
  by (cases r) (simp_all add: relation_named_def)

lemma class_string_text: "class_valid c \<Longrightarrow> utf8_valid (class_string c)"
  by (cases c) (simp_all add: utf8_valid_ascii)

lemma trust_kind_string_text: "trust_kind_valid k \<Longrightarrow> utf8_valid (trust_kind_string k)"
  by (cases k) (simp_all add: utf8_valid_ascii)

lemma relation_string_text: "relation_valid r \<Longrightarrow> utf8_valid (relation_string r)"
  by (cases r) (simp_all add: utf8_valid_ascii)

lemma canon_object_inj:
  assumes "canon (JObj kvs) = canon (JObj kws)" "distinct (map fst kvs)" "map fst kws = map fst kvs"
    and "(k, v) \<in> set kvs" "(k, w) \<in> set kws"
  shows "canon v = canon w"
  using canon_fields[OF assms(1,2), of k] assms by (simp add: map_of_is_SomeI)

definition signature_text :: "signature_requirement \<Rightarrow> bool" where
  "signature_text s \<longleftrightarrow> all_text (sg_transitions s @ sg_roles s @ sg_sources s)"

definition approver_text :: "approver_requirement \<Rightarrow> bool" where
  "approver_text a \<longleftrightarrow> all_text (aq_transitions a @ aq_roles a)"

definition evidence_text :: "evidence_restriction \<Rightarrow> bool" where
  "evidence_text e \<longleftrightarrow> all_text (er_transitions e @ er_allowed e)"

definition escalation_text :: "escalation_threshold \<Rightarrow> bool" where
  "escalation_text e \<longleftrightarrow> all_text (et_transitions e @ et_metric e # et_roles e)"

definition mapping_text :: "role_mapping \<Rightarrow> bool" where
  "mapping_text m \<longleftrightarrow> all_text (rm_role m # rm_source m # rm_subjects m)"

definition ownership_text :: "ownership_source \<Rightarrow> bool" where
  "ownership_text w \<longleftrightarrow> all_text (os_id w # os_source w # os_transitions w @ os_roles w)"

definition template_text :: "template_record \<Rightarrow> bool" where
  "template_text t \<longleftrightarrow> all_text [tp_identity t, tp_digest t]"

lemmas entry_text_defs = all_text_def signature_text_def approver_text_def evidence_text_def escalation_text_def
  mapping_text_def ownership_text_def template_text_def

lemma signature_json_inj:
  assumes "canon (signature_json s) = canon (signature_json t)"
    "signature_text s" "signature_text t"
  shows "s = t"
  using canon_object_inj[OF assms(1)[unfolded signature_json_def], of "''transitions''"]
    canon_object_inj[OF assms(1)[unfolded signature_json_def], of "''roles''"]
    canon_object_inj[OF assms(1)[unfolded signature_json_def], of "''trust_sources''"] assms(2,3)
  by (cases s; cases t) (simp add: entry_text_defs json_strings_inj)

lemma approver_json_inj:
  assumes "canon (approver_json s) = canon (approver_json t)"
    "approver_text s" "approver_text t"
  shows "s = t"
  using canon_object_inj[OF assms(1)[unfolded approver_json_def], of "''transitions''"]
    canon_object_inj[OF assms(1)[unfolded approver_json_def], of "''roles''"]
    canon_object_inj[OF assms(1)[unfolded approver_json_def], of "''minimum''"] assms(2,3)
  by (cases s; cases t) (simp add: entry_text_defs json_strings_inj json_int_inj)

definition distinctness_text :: "distinctness_rule \<Rightarrow> bool" where
  "distinctness_text d \<longleftrightarrow>
     all_text (dr_transitions d @ [dr_left d, dr_right d, relation_string (dr_relation d)])
     \<and> relation_named (relation_string (dr_relation d)) = dr_relation d"

lemma distinctness_json_inj:
  assumes "canon (distinctness_json s) = canon (distinctness_json t)" "distinctness_text s" "distinctness_text t"
  shows "s = t"
proof -
  have "dr_transitions s = dr_transitions t \<and> dr_left s = dr_left t \<and> dr_right s = dr_right t
      \<and> relation_string (dr_relation s) = relation_string (dr_relation t)"
    using canon_object_inj[OF assms(1)[unfolded distinctness_json_def], of "''transitions''"]
      canon_object_inj[OF assms(1)[unfolded distinctness_json_def], of "''left_role''"]
      canon_object_inj[OF assms(1)[unfolded distinctness_json_def], of "''right_role''"]
      canon_object_inj[OF assms(1)[unfolded distinctness_json_def], of "''relation''"] assms(2,3)
    by (simp add: distinctness_text_def all_text_def json_strings_inj json_text_inj)
  moreover from this have "dr_relation s = dr_relation t"
    using assms(2,3) by (metis distinctness_text_def)
  ultimately show ?thesis by (cases s; cases t) simp
qed

lemma evidence_json_inj:
  assumes "canon (evidence_json s) = canon (evidence_json t)"
    "evidence_text s" "evidence_text t"
  shows "s = t"
  using canon_object_inj[OF assms(1)[unfolded evidence_json_def], of "''transitions''"]
    canon_object_inj[OF assms(1)[unfolded evidence_json_def], of "''allowed_sources''"] assms(2,3)
  by (cases s; cases t) (simp add: entry_text_defs json_strings_inj)

lemma escalation_json_inj:
  assumes "canon (escalation_json s) = canon (escalation_json t)"
    "escalation_text s" "escalation_text t"
  shows "s = t"
  using canon_object_inj[OF assms(1)[unfolded escalation_json_def], of "''transitions''"]
    canon_object_inj[OF assms(1)[unfolded escalation_json_def], of "''metric''"]
    canon_object_inj[OF assms(1)[unfolded escalation_json_def], of "''at_least''"]
    canon_object_inj[OF assms(1)[unfolded escalation_json_def], of "''required_roles''"] assms(2,3)
  by (cases s; cases t) (simp add: entry_text_defs json_strings_inj json_text_inj json_int_inj)

definition source_text :: "trust_source \<Rightarrow> bool" where
  "source_text t \<longleftrightarrow>
     all_text [ts_id t, trust_kind_string (ts_kind t)] \<and> trust_kind_named (trust_kind_string (ts_kind t)) = ts_kind t"

lemma trust_source_json_inj:
  assumes "canon (trust_source_json s) = canon (trust_source_json t)" "source_text s" "source_text t"
  shows "s = t"
proof -
  have "ts_id s = ts_id t \<and> trust_kind_string (ts_kind s) = trust_kind_string (ts_kind t)"
    using canon_object_inj[OF assms(1)[unfolded trust_source_json_def], of "''id''"]
      canon_object_inj[OF assms(1)[unfolded trust_source_json_def], of "''kind''"] assms(2,3)
    by (simp add: source_text_def all_text_def json_text_inj)
  moreover from this have "ts_kind s = ts_kind t" using assms(2,3) by (metis source_text_def)
  ultimately show ?thesis by (cases s; cases t) simp
qed

lemma role_mapping_json_inj:
  assumes "canon (role_mapping_json s) = canon (role_mapping_json t)"
    "mapping_text s" "mapping_text t"
  shows "s = t"
  using canon_object_inj[OF assms(1)[unfolded role_mapping_json_def], of "''role''"]
    canon_object_inj[OF assms(1)[unfolded role_mapping_json_def], of "''trust_source''"]
    canon_object_inj[OF assms(1)[unfolded role_mapping_json_def], of "''subjects''"] assms(2,3)
  by (cases s; cases t) (simp add: entry_text_defs json_strings_inj json_text_inj)

lemma ownership_json_inj:
  assumes "canon (ownership_json s) = canon (ownership_json t)"
    "ownership_text s"
    "ownership_text t"
  shows "s = t"
  using canon_object_inj[OF assms(1)[unfolded ownership_json_def], of "''id''"]
    canon_object_inj[OF assms(1)[unfolded ownership_json_def], of "''trust_source''"]
    canon_object_inj[OF assms(1)[unfolded ownership_json_def], of "''transitions''"]
    canon_object_inj[OF assms(1)[unfolded ownership_json_def], of "''roles''"] assms(2,3)
  by (cases s; cases t) (simp add: entry_text_defs json_strings_inj json_text_inj)

lemma template_json_inj:
  assumes "canon (template_json s) = canon (template_json t)"
    "template_text s" "template_text t"
  shows "s = t"
  using canon_object_inj[OF assms(1)[unfolded template_json_def], of "''identity''"]
    canon_object_inj[OF assms(1)[unfolded template_json_def], of "''digest''"] assms(2,3)
  by (cases s; cases t) (simp add: entry_text_defs json_text_inj)

text \<open>A profile's strings are UTF-8 and its enumerations are as decoded.\<close>

definition profile_text :: "profile \<Rightarrow> bool" where
  "profile_text p \<longleftrightarrow>
     all_text ([pf_schema p, pf_id p, class_string (pf_class p)] @ pf_transitions p)
     \<and> class_named (class_string (pf_class p)) = pf_class p
     \<and> (\<forall>t \<in> set (pf_sources p). source_text t)
     \<and> (\<forall>m \<in> set (pf_mappings p). mapping_text m)
     \<and> (\<forall>w \<in> set (pf_ownership p). ownership_text w)
     \<and> (\<forall>s \<in> set (pf_signatures p). signature_text s)
     \<and> (\<forall>a \<in> set (pf_approvers p). approver_text a)
     \<and> (\<forall>d \<in> set (pf_distinctness p). distinctness_text d)
     \<and> (\<forall>e \<in> set (pf_evidence p). evidence_text e)
     \<and> (\<forall>e \<in> set (pf_escalation p). escalation_text e)
     \<and> (\<forall>t. pf_template p = Some t \<longrightarrow> template_text t)"

section \<open>Normal forms\<close>

lemma sort_key_eq:
  assumes "inj_on f (set xs)" "mset xs = mset ys"
  shows "sort_key f xs = sort_key f ys"
proof -
  have "sort (map f ys) = map f (sort_key f xs)"
    by (rule properties_for_sort) (simp_all add: assms(2))
  moreover have "sort (map f ys) = map f (sort_key f ys)"
    by (rule properties_for_sort) simp_all
  ultimately have "map f (sort_key f xs) = map f (sort_key f ys)" by simp
  moreover have "set ys = set xs" using mset_eq_setD[OF assms(2)] by simp
  ultimately show ?thesis using inj_on_map_eq_map[of f "sort_key f xs" "sort_key f ys"] assms(1) by simp
qed

text \<open>Rules with text \<open>T\<close> sort by content to a list that only depends on their multiset.\<close>

lemma sort_by_content_eq:
  assumes "mset (map norm xs) = mset (map norm ys)" "\<forall>x \<in> set xs. T x" "\<And>x. T (norm x) \<longleftrightarrow> T x"
    "\<And>x. T x \<Longrightarrow> json_ok (f x)" "\<And>x y. canon (f x) = canon (f y) \<Longrightarrow> T x \<Longrightarrow> T y \<Longrightarrow> x = y"
  shows "sort_by_content f (map norm xs) = sort_by_content f (map norm ys)"
  unfolding sort_by_content_def
proof (rule sort_key_eq[OF inj_onI assms(1)])
  fix x y assume "x \<in> set (map norm xs)" "y \<in> set (map norm xs)" "canon_marshal (f x) = canon_marshal (f y)"
  moreover from this assms(2,3) have "T x" "T y" by auto
  ultimately show "x = y" using assms(4,5) canon_marshal_eq by blast
qed

lemma entry_json_ok:
  "signature_text s \<Longrightarrow> json_ok (signature_json s)"
  "approver_text a \<Longrightarrow> json_ok (approver_json a)"
  "distinctness_text d \<Longrightarrow> json_ok (distinctness_json d)"
  "evidence_text e \<Longrightarrow> json_ok (evidence_json e)"
  "escalation_text x \<Longrightarrow> json_ok (escalation_json x)"
  "source_text t \<Longrightarrow> json_ok (trust_source_json t)"
  "mapping_text m \<Longrightarrow> json_ok (role_mapping_json m)"
  "ownership_text w \<Longrightarrow> json_ok (ownership_json w)"
  "template_text r \<Longrightarrow> json_ok (template_json r)"
  by (simp_all add: entry_text_defs distinctness_text_def source_text_def signature_json_def approver_json_def
      distinctness_json_def evidence_json_def escalation_json_def trust_source_json_def role_mapping_json_def
      ownership_json_def template_json_def json_text_ok json_strings_ok json_int_ok utf8_valid_ascii)

lemma valid_id_text: "valid_id s \<Longrightarrow> utf8_valid s"
proof (rule utf8_valid_ascii, unfold list_all_iff, rule ballI)
  fix c assume "valid_id s" "c \<in> set s"
  then have "rx_allows idRe c" unfolding valid_id_def by (rule rx_match_allows)
  then show "of_char c < (128 :: nat)" by (auto simp: idRe_def in_class_def less_eq_char_def)
qed

lemma catalog_text:
  assumes "catalog_validate cat = None"
  shows "in_roles cat r \<Longrightarrow> utf8_valid r" "in_transitions cat t \<Longrightarrow> utf8_valid t"
    "e \<in> set (ct_evidence cat) \<Longrightarrow> utf8_valid e" "m \<in> set (ct_metrics cat) \<Longrightarrow> utf8_valid m"
  using assms valid_id_text
  by (auto simp: catalog_validate_def catalog_set_def scan_seen_None in_roles_def in_transitions_def)

lemma catalog_subset_text:
  assumes "catalog_validate cat = None"
  shows "catalog_subset ms (in_roles cat) \<Longrightarrow> list_all utf8_valid ms"
    "catalog_subset ms (in_transitions cat) \<Longrightarrow> list_all utf8_valid ms"
    "catalog_subset ms (\<lambda>s. s \<in> set (ct_evidence cat)) \<Longrightarrow> list_all utf8_valid ms"
  using catalog_text[OF assms] by (auto simp: catalog_subset_def list_all_iff)

lemma resolved_text:
  assumes "trust_sources_validate p = None" "trust_source_of p r = Some t"
  shows "utf8_valid r"
proof -
  have "t \<in> set (pf_sources p)" "ts_id t = r" using assms(2) by (auto simp: trust_source_of_def find_Some_iff)
  with assms(1) show ?thesis by (auto simp: trust_sources_None source_ok_def valid_id_text)
qed

lemma rule_text:
  assumes "catalog_validate cat = None"
  shows "trust_sources_validate p = None \<Longrightarrow> signature_ok p cat s \<Longrightarrow> signature_text s"
    "approver_ok cat a \<Longrightarrow> approver_text a"
    "distinctness_ok cat d \<Longrightarrow> distinctness_text d"
    "evidence_ok cat e \<Longrightarrow> evidence_text e"
    "escalation_ok cat x \<Longrightarrow> escalation_text x"
  using catalog_text[OF assms] catalog_subset_text[OF assms] resolved_text[of p]
  by (auto simp: entry_text_defs distinctness_text_def signature_ok_def approver_ok_def distinctness_ok_def evidence_ok_def
      escalation_ok_def relation_string_text list_all_iff)

lemma validated_rules:
  assumes "profile_validate p cat = None"
  shows "trust_sources_validate p = None" "\<forall>m \<in> set (pf_mappings p). mapping_ok p cat m"
    "distinct (map (\<lambda>m. (rm_role m, rm_source m)) (pf_mappings p))"
    "\<forall>w \<in> set (pf_ownership p). ownership_ok p cat w" "distinct (map os_id (pf_ownership p))"
    "\<forall>s \<in> set (pf_signatures p). signature_ok p cat s" "\<forall>a \<in> set (pf_approvers p). approver_ok cat a"
    "\<forall>d \<in> set (pf_distinctness p). distinctness_ok cat d" "\<forall>e \<in> set (pf_evidence p). evidence_ok cat e"
    "\<forall>e \<in> set (pf_escalation p). escalation_ok cat e"
  using assms unfolding profile_validate_def
  by (simp_all add: role_mappings_None ownership_sources_None signature_requirements_validate_def
      required_approvers_validate_def distinctness_rules_validate_def evidence_restrictions_validate_def
      escalation_thresholds_validate_def rule_scan_None[OF signature_check_None] rule_scan_None[OF approver_check_None]
      rule_scan_None[OF distinctness_check_None] rule_scan_None[OF evidence_check_None] rule_scan_None[OF escalation_check_None])

lemma normal_text:
  "signature_text (normal_signature s) = signature_text s" "approver_text (normal_approver a) = approver_text a"
  "distinctness_text (normal_distinctness d) = distinctness_text d" "evidence_text (normal_evidence e) = evidence_text e"
  "escalation_text (normal_escalation x) = escalation_text x" "mapping_text (normal_mapping m) = mapping_text m"
  "ownership_text (normal_ownership w) = ownership_text w"
  by (simp_all add: entry_text_defs list_all_iff normal_defs distinctness_text_def)

lemma inj_on_keys: "distinct (map f xs) \<Longrightarrow> inj_on f (set xs)"
  by (simp add: distinct_map)

lemma normalize_sets:
  assumes "catalog_validate cat = None" "profile_validate p cat = None" "same_sets p q"
  shows "normalize_profile p = normalize_profile q"
proof -
  note v = validated_rules[OF assms(2)]
  note rt = rule_text[OF assms(1)]
  have src: "distinct (map ts_id (pf_sources p))" using v(1) by (simp add: trust_sources_None)
  have 1: "sort (pf_transitions p) = sort (pf_transitions q)"
    by (rule sort_key_eq) (use assms(3) in \<open>simp_all add: same_sets_def\<close>)
  have 2: "sort_key ts_id (pf_sources p) = sort_key ts_id (pf_sources q)"
    by (rule sort_key_eq[OF inj_on_keys[OF src]]) (use assms(3) in \<open>simp add: same_sets_def\<close>)
  have 3: "sort_key (\<lambda>m. [rm_role m, rm_source m]) (map normal_mapping (pf_mappings p))
      = sort_key (\<lambda>m. [rm_role m, rm_source m]) (map normal_mapping (pf_mappings q))"
  proof (rule sort_key_eq)
    have "inj_on (\<lambda>m. [rm_role m, rm_source m]) (set (pf_mappings p))"
      using inj_on_keys[OF v(3)] by (auto simp: inj_on_def)
    then show "inj_on (\<lambda>m. [rm_role m, rm_source m]) (set (map normal_mapping (pf_mappings p)))"
      by (auto simp: inj_on_def normal_keys)
  qed (use assms(3) in \<open>simp add: same_sets_def\<close>)
  have 4: "sort_key os_id (map normal_ownership (pf_ownership p)) = sort_key os_id (map normal_ownership (pf_ownership q))"
    by (rule sort_key_eq[OF inj_on_keys]) (use assms(3) v(5) in \<open>simp_all add: same_sets_def normal_keys comp_def\<close>)
  have 5: "sort_by_content signature_json (map normal_signature (pf_signatures p))
      = sort_by_content signature_json (map normal_signature (pf_signatures q))"
    by (rule sort_by_content_eq[where norm = normal_signature and T = signature_text and f = signature_json,
        OF _ _ normal_text(1) entry_json_ok(1) signature_json_inj])
      (use assms(3) rt(1)[OF v(1)] v(6) in \<open>auto simp: same_sets_def simp del: mset_map\<close>)
  have 6: "sort_by_content approver_json (map normal_approver (pf_approvers p))
      = sort_by_content approver_json (map normal_approver (pf_approvers q))"
    by (rule sort_by_content_eq[where norm = normal_approver and T = approver_text and f = approver_json,
        OF _ _ normal_text(2) entry_json_ok(2) approver_json_inj])
      (use assms(3) rt(2) v(7) in \<open>auto simp: same_sets_def simp del: mset_map\<close>)
  have 7: "sort_by_content distinctness_json (map normal_distinctness (pf_distinctness p))
      = sort_by_content distinctness_json (map normal_distinctness (pf_distinctness q))"
    by (rule sort_by_content_eq[where norm = normal_distinctness and T = distinctness_text and f = distinctness_json,
        OF _ _ normal_text(3) entry_json_ok(3) distinctness_json_inj])
      (use assms(3) rt(3) v(8) in \<open>auto simp: same_sets_def simp del: mset_map\<close>)
  have 8: "sort_by_content evidence_json (map normal_evidence (pf_evidence p))
      = sort_by_content evidence_json (map normal_evidence (pf_evidence q))"
    by (rule sort_by_content_eq[where norm = normal_evidence and T = evidence_text and f = evidence_json,
        OF _ _ normal_text(4) entry_json_ok(4) evidence_json_inj])
      (use assms(3) rt(4) v(9) in \<open>auto simp: same_sets_def simp del: mset_map\<close>)
  have 9: "sort_by_content escalation_json (map normal_escalation (pf_escalation p))
      = sort_by_content escalation_json (map normal_escalation (pf_escalation q))"
    by (rule sort_by_content_eq[where norm = normal_escalation and T = escalation_text and f = escalation_json,
        OF _ _ normal_text(5) entry_json_ok(5) escalation_json_inj])
      (use assms(3) rt(5) v(10) in \<open>auto simp: same_sets_def simp del: mset_map\<close>)
  have 0: "pf_schema p = pf_schema q" "pf_id p = pf_id q" "pf_class p = pf_class q" "pf_template p = pf_template q"
    "pf_seal p = pf_seal q" using assms(3) by (simp_all only: same_sets_def)
  show ?thesis
    by (rule profile.equality) (simp_all add: normalize_profile_def 0 1 2 3 4 5 6 7 8 9)
qed

section \<open>The seal\<close>

lemma array_inj:
  assumes "canon (JArr (map f xs)) = canon (JArr (map f ys))" "\<forall>x \<in> set xs. T x" "\<forall>y \<in> set ys. T y"
    "\<And>x y. canon (f x) = canon (f y) \<Longrightarrow> T x \<Longrightarrow> T y \<Longrightarrow> x = y"
  shows "xs = ys"
  using assms(1-3)
proof (induction xs arbitrary: ys)
  case Nil
  then show ?case by simp
next
  case (Cons x xs)
  then obtain y ys' where "ys = y # ys'" by (cases ys) auto
  with Cons assms(4)[of x y] show ?case by simp
qed

definition profile_fields :: "profile \<Rightarrow> (string \<times> json) list" where
  "profile_fields p =
     [(''schema'', json_text (pf_schema p)), (''id'', json_text (pf_id p)),
      (''class'', json_text (class_string (pf_class p))),
      (''applicable_transitions'', json_strings (pf_transitions p)),
      (''identity_trust_sources'', JArr (map trust_source_json (pf_sources p))),
      (''role_mappings'', JArr (map role_mapping_json (pf_mappings p))),
      (''ownership_sources'', JArr (map ownership_json (pf_ownership p))),
      (''signature_requirements'', JArr (map signature_json (pf_signatures p))),
      (''required_approvers'', JArr (map approver_json (pf_approvers p))),
      (''distinctness_rules'', JArr (map distinctness_json (pf_distinctness p))),
      (''evidence_source_restrictions'', JArr (map evidence_json (pf_evidence p))),
      (''escalation_thresholds'', JArr (map escalation_json (pf_escalation p)))] @
     (case pf_template p of None \<Rightarrow> [] | Some t \<Rightarrow> [(''template'', template_json t)])"

lemma profile_json_fields: "profile_json p = JObj (profile_fields p)"
  by (simp only: profile_json_def profile_fields_def)

lemma profile_fields_distinct: "distinct (map fst (profile_fields p))"
  by (simp add: profile_fields_def split: option.split)

lemma profile_field_eq:
  assumes "canon (profile_json p) = canon (profile_json q)" "map_of (profile_fields p) k = Some v"
    "map_of (profile_fields q) k = Some w"
  shows "canon v = canon w"
  using canon_fields[OF assms(1)[unfolded profile_json_fields] profile_fields_distinct profile_fields_distinct, of k]
    assms(2,3) by simp

lemma profile_field:
  "map_of (profile_fields p) ''schema'' = Some (json_text (pf_schema p))"
  "map_of (profile_fields p) ''id'' = Some (json_text (pf_id p))"
  "map_of (profile_fields p) ''class'' = Some (json_text (class_string (pf_class p)))"
  "map_of (profile_fields p) ''applicable_transitions'' = Some (json_strings (pf_transitions p))"
  "map_of (profile_fields p) ''identity_trust_sources'' = Some (JArr (map trust_source_json (pf_sources p)))"
  "map_of (profile_fields p) ''role_mappings'' = Some (JArr (map role_mapping_json (pf_mappings p)))"
  "map_of (profile_fields p) ''ownership_sources'' = Some (JArr (map ownership_json (pf_ownership p)))"
  "map_of (profile_fields p) ''signature_requirements'' = Some (JArr (map signature_json (pf_signatures p)))"
  "map_of (profile_fields p) ''required_approvers'' = Some (JArr (map approver_json (pf_approvers p)))"
  "map_of (profile_fields p) ''distinctness_rules'' = Some (JArr (map distinctness_json (pf_distinctness p)))"
  "map_of (profile_fields p) ''evidence_source_restrictions'' = Some (JArr (map evidence_json (pf_evidence p)))"
  "map_of (profile_fields p) ''escalation_thresholds'' = Some (JArr (map escalation_json (pf_escalation p)))"
  "map_of (profile_fields p) ''template'' = map_option template_json (pf_template p)"
  by (simp_all add: profile_fields_def split: option.split)

lemma profile_textD:
  assumes "profile_text p"
  shows "all_text ([pf_schema p, pf_id p, class_string (pf_class p)] @ pf_transitions p)"
    "class_named (class_string (pf_class p)) = pf_class p"
    "\<forall>t \<in> set (pf_sources p). source_text t" "\<forall>m \<in> set (pf_mappings p). mapping_text m"
    "\<forall>w \<in> set (pf_ownership p). ownership_text w" "\<forall>s \<in> set (pf_signatures p). signature_text s"
    "\<forall>a \<in> set (pf_approvers p). approver_text a" "\<forall>d \<in> set (pf_distinctness p). distinctness_text d"
    "\<forall>e \<in> set (pf_evidence p). evidence_text e" "\<forall>e \<in> set (pf_escalation p). escalation_text e"
    "\<forall>t. pf_template p = Some t \<longrightarrow> template_text t"
  using assms unfolding profile_text_def by iprover+

lemma profile_json_inj:
  assumes c: "canon (profile_json p) = canon (profile_json q)" and p: "profile_text p" and q: "profile_text q"
  shows "p\<lparr>pf_seal := x\<rparr> = q\<lparr>pf_seal := x\<rparr>"
proof -
  note eq = profile_field_eq[OF c profile_field(1) profile_field(1)] profile_field_eq[OF c profile_field(2) profile_field(2)]
    profile_field_eq[OF c profile_field(3) profile_field(3)] profile_field_eq[OF c profile_field(4) profile_field(4)]
  note pt = profile_textD[OF p] and qt = profile_textD[OF q]
  have s: "pf_schema p = pf_schema q" "pf_id p = pf_id q" "class_string (pf_class p) = class_string (pf_class q)"
    "pf_transitions p = pf_transitions q"
    using eq pt(1) qt(1) by (simp_all add: all_text_def json_text_inj json_strings_inj)
  have k: "pf_class p = pf_class q" using arg_cong[OF s(3), of class_named] unfolding pt(2) qt(2) .
  have f5: "pf_sources p = pf_sources q"
    by (rule array_inj[OF profile_field_eq[OF c profile_field(5) profile_field(5)] pt(3) qt(3) trust_source_json_inj])
  have f6: "pf_mappings p = pf_mappings q"
    by (rule array_inj[OF profile_field_eq[OF c profile_field(6) profile_field(6)] pt(4) qt(4) role_mapping_json_inj])
  have f7: "pf_ownership p = pf_ownership q"
    by (rule array_inj[OF profile_field_eq[OF c profile_field(7) profile_field(7)] pt(5) qt(5) ownership_json_inj])
  have f8: "pf_signatures p = pf_signatures q"
    by (rule array_inj[OF profile_field_eq[OF c profile_field(8) profile_field(8)] pt(6) qt(6) signature_json_inj])
  have f9: "pf_approvers p = pf_approvers q"
    by (rule array_inj[OF profile_field_eq[OF c profile_field(9) profile_field(9)] pt(7) qt(7) approver_json_inj])
  have f10: "pf_distinctness p = pf_distinctness q"
    by (rule array_inj[OF profile_field_eq[OF c profile_field(10) profile_field(10)] pt(8) qt(8) distinctness_json_inj])
  have f11: "pf_evidence p = pf_evidence q"
    by (rule array_inj[OF profile_field_eq[OF c profile_field(11) profile_field(11)] pt(9) qt(9) evidence_json_inj])
  have f12: "pf_escalation p = pf_escalation q"
    by (rule array_inj[OF profile_field_eq[OF c profile_field(12) profile_field(12)] pt(10) qt(10) escalation_json_inj])
  have f13: "pf_template p = pf_template q"
  proof -
    have o: "map_option canon (map_option template_json (pf_template p))
        = map_option canon (map_option template_json (pf_template q))"
      using canon_fields[OF c[unfolded profile_json_fields] profile_fields_distinct profile_fields_distinct, of "''template''"]
      by (simp only: profile_field)
    show ?thesis
    proof (cases "pf_template p")
      case None
      then show ?thesis using o by simp
    next
      case (Some t)
      then obtain u where "pf_template q = Some u" "canon (template_json t) = canon (template_json u)"
        using o by (cases "pf_template q") auto
      then show ?thesis using template_json_inj[of t u] pt(11) qt(11) Some by simp
    qed
  qed
  show ?thesis
    by (rule profile.equality) (simp_all add: s k f5 f6 f7 f8 f9 f10 f11 f12 f13)
qed

lemma profile_json_ok:
  assumes "profile_text p"
  shows "json_ok (profile_json p)"
proof -
  have "json_ok v \<and> utf8_valid k" if "(k, v) \<in> set (profile_fields p)" for k v
    using that assms entry_json_ok
    by (auto simp: profile_fields_def profile_text_def all_text_def json_text_ok json_strings_ok list_all_iff
        utf8_valid_ascii split: option.splits)
  then show ?thesis using profile_fields_distinct by (auto simp: profile_json_fields list_all_iff)
qed

lemma normalized_text: "profile_text (normalize_profile p) \<longleftrightarrow> profile_text p"
  by (simp add: profile_text_def normalize_profile_def sort_by_content_def all_text_def list_all_iff normal_text)

lemma profile_text_seal [simp]: "profile_text (p\<lparr>pf_seal := x\<rparr>) \<longleftrightarrow> profile_text p"
  by (simp add: profile_text_def)

lemma content_digest_seal [simp]: "content_digest h (p\<lparr>pf_seal := x\<rparr>) = content_digest h p"
  by (simp add: content_digest_def profile_json_def)

lemma decode_profile_Inr:
  "decode_profile h yaml cat raw = Inr p \<longleftrightarrow>
     catalog_validate cat = None
     \<and> (\<exists>doc r. yaml raw = Inr doc \<and> doc_to_profile doc = Inr r \<and> profile_validate r cat = None
          \<and> p = (normalize_profile r)\<lparr>pf_seal := content_digest h (normalize_profile r)\<rparr>)"
  by (auto simp: decode_profile_def Let_def split: option.splits sum.splits)

lemma decode_of_same_sets:
  assumes "same_sets p q" "yaml raw = Inr d" "doc_to_profile d = Inr p" "yaml raw' = Inr e" "doc_to_profile e = Inr q"
    and "decode_profile h yaml cat raw = Inr r"
  shows "decode_profile h yaml cat raw' = Inr r"
  using assms(6) profile_validate_sets[OF assms(1)] normalize_sets[OF _ _ assms(1)]
  unfolding decode_profile_Inr using assms(2-5) by auto

lemma same_sets_sym: "same_sets p q \<Longrightarrow> same_sets q p"
  by (simp add: same_sets_def)

text \<open>C19. A profile means its contents, not the order it was written in: two documents whose
  profiles have the same entries, each with the same members, in any order at any depth,
  decode alike. Either both are refused, or both are accepted and the decoded profiles
  are equal, with the same seal, hence the same digest for every consumer that records it.\<close>

theorem profile_decoding_ignores_order:
  assumes "yaml raw = Inr d" "doc_to_profile d = Inr p" "yaml raw' = Inr e" "doc_to_profile e = Inr q" "same_sets p q"
  shows "decode_profile h yaml cat raw = Inr r \<longleftrightarrow> decode_profile h yaml cat raw' = Inr r"
proof
  show "decode_profile h yaml cat raw = Inr r \<Longrightarrow> decode_profile h yaml cat raw' = Inr r"
    by (rule decode_of_same_sets[OF assms(5,1-4)])
  show "decode_profile h yaml cat raw' = Inr r \<Longrightarrow> decode_profile h yaml cat raw = Inr r"
    by (rule decode_of_same_sets[OF same_sets_sym[OF assms(5)] assms(3,4,1,2)])
qed

lemma decoded_sealed: "decode_profile h yaml cat raw = Inr p \<Longrightarrow> pf_seal p = content_digest h p"
  by (auto simp: decode_profile_Inr)

lemma content_digest_inj:
  assumes "inj h" "profile_text p" "profile_text q"
  shows "content_digest h p = content_digest h q \<longleftrightarrow> p\<lparr>pf_seal := x\<rparr> = q\<lparr>pf_seal := x\<rparr>"
proof -
  have "content_digest h p = content_digest h q \<longleftrightarrow> canon (profile_json p) = canon (profile_json q)"
    using canon_digest_inj[OF assms(1) profile_json_ok[OF assms(2)] profile_json_ok[OF assms(3)]]
    by (simp only: content_digest_def)
  also have "\<dots> \<longleftrightarrow> p\<lparr>pf_seal := x\<rparr> = q\<lparr>pf_seal := x\<rparr>"
  proof
    assume "p\<lparr>pf_seal := x\<rparr> = q\<lparr>pf_seal := x\<rparr>"
    then have "profile_json (p\<lparr>pf_seal := x\<rparr>) = profile_json (q\<lparr>pf_seal := x\<rparr>)" by simp
    then show "canon (profile_json p) = canon (profile_json q)" by (simp add: profile_json_def)
  qed (use profile_json_inj assms(2,3) in blast)
  finally show ?thesis .
qed

section \<open>What the bytes tell of any profile\<close>

text \<open>\<^verbatim>\<open>json.Marshal\<close> writes every byte that is not UTF-8 as U+FFFD, so the digest sees a profile
  only up to that replacement.\<close>

lemma utf8_valid_coerce: "utf8_valid (coerce_utf8 s)"
proof (induction s rule: coerce_utf8.induct)
  case (2 c s)
  let ?w = "rune_width (c # s)" and ?rest = "coerce_utf8 (drop (rune_width (c # s)) (c # s))"
  have w: "?w \<le> length (c # s)" "0 < ?w" by (rule rune_width_le) (simp_all add: rune_width_pos)
  have l: "length (take ?w (c # s)) = ?w" using w(1) by simp
  consider (bad) "?w = 1" "128 \<le> (of_char c :: nat)" | (ascii) "?w = 1" "of_char c < (128 :: nat)" | (wide) "1 < ?w"
    using w(2) by linarith
  then show ?case
  proof cases
    case bad
    then have c: "coerce_utf8 (c # s) = CHR 0xEF # CHR 0xBF # CHR 0xBD # ?rest" using l by (simp add: coerce_utf8.simps(2))
    have "rune_width (CHR 0xEF # CHR 0xBF # CHR 0xBD # ?rest) = 3"
      by (simp add: rune_width_def two_bytes_def three_bytes_def byte_in_def)
    then show ?thesis unfolding c using 2 by (simp add: utf8_valid.simps(2))
  next
    case ascii
    then have c: "coerce_utf8 (c # s) = c # ?rest" using l by (simp add: coerce_utf8.simps(2))
    show ?thesis unfolding c using 2 ascii(2) by (simp add: utf8_valid.simps(2) rune_width_ascii)
  next
    case wide
    then have c: "coerce_utf8 (c # s) = take ?w (c # s) @ ?rest" using l by (auto simp: coerce_utf8.simps(2) Let_def)
    have p: "rune_width (take ?w (c # s) @ ?rest) = ?w"
      using rune_width_prefix[of "take ?w (c # s)"] rune_width_take[OF wide] wide unfolding l by simp
    obtain k where k: "?w = Suc k" using wide by (cases ?w) auto
    then have t: "take ?w (c # s) @ ?rest = c # (take k s @ ?rest)" by simp
    have "drop ?w (take ?w (c # s) @ ?rest) = ?rest" using l by simp
    then show ?thesis unfolding c using 2 p wide unfolding t by (simp only: utf8_valid.simps(2)) simp
  qed
qed simp

lemma coerce_coerce [simp]: "coerce_utf8 (coerce_utf8 s) = coerce_utf8 s"
  by (rule coerce_valid[OF utf8_valid_coerce])

lemma named_string [simp]:
  "class_string (class_named s) = s" "trust_kind_string (trust_kind_named s) = s" "relation_string (relation_named s) = s"
  by (auto simp: class_named_def trust_kind_named_def relation_named_def find_Some_iff split: option.split)

lemma json_coerced [simp]:
  "json_text (coerce_utf8 s) = json_text s" "json_strings (map coerce_utf8 xs) = json_strings xs"
  by (simp_all add: json_text_def json_strings_def)

definition as_text :: "profile \<Rightarrow> profile" where
  "as_text p = p\<lparr>
     pf_schema := coerce_utf8 (pf_schema p), pf_id := coerce_utf8 (pf_id p),
     pf_class := class_named (coerce_utf8 (class_string (pf_class p))),
     pf_transitions := map coerce_utf8 (pf_transitions p),
     pf_sources := map (\<lambda>t. \<lparr>ts_id = coerce_utf8 (ts_id t), ts_kind = trust_kind_named (coerce_utf8 (trust_kind_string (ts_kind t)))\<rparr>)
       (pf_sources p),
     pf_mappings := map (\<lambda>m. \<lparr>rm_role = coerce_utf8 (rm_role m), rm_source = coerce_utf8 (rm_source m),
       rm_subjects = map coerce_utf8 (rm_subjects m)\<rparr>) (pf_mappings p),
     pf_ownership := map (\<lambda>w. \<lparr>os_id = coerce_utf8 (os_id w), os_source = coerce_utf8 (os_source w),
       os_transitions = map coerce_utf8 (os_transitions w), os_roles = map coerce_utf8 (os_roles w)\<rparr>) (pf_ownership p),
     pf_signatures := map (\<lambda>s. \<lparr>sg_transitions = map coerce_utf8 (sg_transitions s), sg_roles = map coerce_utf8 (sg_roles s),
       sg_sources = map coerce_utf8 (sg_sources s)\<rparr>) (pf_signatures p),
     pf_approvers := map (\<lambda>a. \<lparr>aq_transitions = map coerce_utf8 (aq_transitions a), aq_roles = map coerce_utf8 (aq_roles a),
       aq_minimum = aq_minimum a\<rparr>) (pf_approvers p),
     pf_distinctness := map (\<lambda>d. \<lparr>dr_transitions = map coerce_utf8 (dr_transitions d), dr_left = coerce_utf8 (dr_left d),
       dr_right = coerce_utf8 (dr_right d), dr_relation = relation_named (coerce_utf8 (relation_string (dr_relation d)))\<rparr>)
       (pf_distinctness p),
     pf_evidence := map (\<lambda>e. \<lparr>er_transitions = map coerce_utf8 (er_transitions e), er_allowed = map coerce_utf8 (er_allowed e)\<rparr>)
       (pf_evidence p),
     pf_escalation := map (\<lambda>e. \<lparr>et_transitions = map coerce_utf8 (et_transitions e), et_metric = coerce_utf8 (et_metric e),
       et_at_least = et_at_least e, et_roles = map coerce_utf8 (et_roles e)\<rparr>) (pf_escalation p),
     pf_template := map_option (\<lambda>t. \<lparr>tp_identity = coerce_utf8 (tp_identity t), tp_digest = coerce_utf8 (tp_digest t)\<rparr>) (pf_template p)\<rparr>"

lemmas entry_json_defs = trust_source_json_def role_mapping_json_def ownership_json_def signature_json_def approver_json_def
  distinctness_json_def evidence_json_def escalation_json_def template_json_def

lemma as_text_json: "profile_json (as_text p) = profile_json p"
  unfolding profile_json_def as_text_def by (simp add: entry_json_defs comp_def split: option.split)

lemma as_text_text: "profile_text (as_text p)"
  by (auto simp: profile_text_def as_text_def entry_text_defs distinctness_text_def source_text_def list_all_iff utf8_valid_coerce)

lemma content_digest_as_text: "content_digest h (as_text p) = content_digest h p"
  by (simp add: content_digest_def as_text_json)

text \<open>A profile of UTF-8 strings is what its text says.\<close>

lemma map_coerce_valid: "list_all utf8_valid xs \<Longrightarrow> map coerce_utf8 xs = xs"
  by (induction xs) (simp_all add: coerce_valid)

lemma as_text_id: "profile_text p \<Longrightarrow> as_text p = p"
proof -
  assume "profile_text p"
  then have "(as_text p)\<lparr>pf_seal := pf_seal p\<rparr> = p\<lparr>pf_seal := pf_seal p\<rparr>"
    by (intro profile_json_inj as_text_text) (simp_all add: as_text_json)
  then show ?thesis by (simp add: as_text_def)
qed

text \<open>A subject that is U+FFFD and one that is an invalid byte have the same digest.\<close>

lemma seal_misses_invalid_byte:
  "check_seal h (p\<lparr>pf_mappings := [\<lparr>rm_role = r, rm_source = t, rm_subjects = [[CHR 0xFF]]\<rparr>]\<rparr>)
     = check_seal h (p\<lparr>pf_mappings := [\<lparr>rm_role = r, rm_source = t, rm_subjects = [[CHR 0xEF, CHR 0xBF, CHR 0xBD]]\<rparr>]\<rparr>)"
proof -
  have "json_strings [[CHR 0xFF]] = json_strings [[CHR 0xEF, CHR 0xBF, CHR 0xBD]]" by code_simp
  then show ?thesis by (simp add: check_seal_def content_digest_def profile_json_def role_mapping_json_def)
qed

text \<open>C10. A profile cannot be changed after it was decoded: under a hash without collisions,
  a profile that carries the seal of a decoded one passes the seal check only if it says
  what the decoded one says, in every field, once the bytes that are not UTF-8 are replaced as
  \<^verbatim>\<open>json.Marshal\<close> replaces them; between profiles of UTF-8 strings, only if it is that profile.
  (Replacing a U+FFFD of a decoded profile by an invalid byte is the change the seal misses:
  \<open>seal_misses_invalid_byte\<close>.)\<close>

theorem seal_detects_modification:
  assumes "inj h" "decode_profile h yaml cat raw = Inr p" "pf_seal q = pf_seal p"
  shows "(check_seal h q = None \<longleftrightarrow> as_text q = as_text p)
    \<and> (profile_text p \<and> profile_text q \<longrightarrow> (check_seal h q = None \<longleftrightarrow> q = p))"
proof -
  have p: "pf_seal p = content_digest h p" by (rule decoded_sealed[OF assms(2)])
  have ne: "content_digest h p \<noteq> ''''" by (simp add: content_digest_def canon_digest_def)
  have "check_seal h q = None \<longleftrightarrow> content_digest h (as_text q) = content_digest h (as_text p)"
    using assms(3) p ne by (simp add: check_seal_def content_digest_as_text)
  also have "\<dots> \<longleftrightarrow> (as_text q)\<lparr>pf_seal := pf_seal p\<rparr> = (as_text p)\<lparr>pf_seal := pf_seal p\<rparr>"
    by (rule content_digest_inj[OF assms(1) as_text_text as_text_text])
  also have "\<dots> \<longleftrightarrow> as_text q = as_text p"
  proof -
    have "(as_text q)\<lparr>pf_seal := pf_seal p\<rparr> = as_text q" unfolding assms(3)[symmetric] by (simp add: as_text_def)
    moreover have "(as_text p)\<lparr>pf_seal := pf_seal p\<rparr> = as_text p" by (simp add: as_text_def)
    ultimately show ?thesis by simp
  qed
  finally show ?thesis using as_text_id by auto
qed

section \<open>One profile, written twice\<close>

definition sample_catalog :: catalog where
  "sample_catalog =
     \<lparr>ct_roles = [''owner''], ct_transitions = [''accept'', ''close''], ct_evidence = [], ct_metrics = []\<rparr>"

definition order_doc :: "string list \<Rightarrow> string list \<Rightarrow> profile_doc" where
  "order_doc transitions subjects =
     \<lparr>pd_schema = Some schemaID, pd_id = Some ''p'', pd_class = Some ClassSolo, pd_transitions = Some transitions,
      pd_sources = Some [\<lparr>ts_id = ''forge'', ts_kind = TrustForge\<rparr>],
      pd_mappings = Some [\<lparr>rm_role = ''owner'', rm_source = ''forge'', rm_subjects = subjects\<rparr>],
      pd_ownership = Some [], pd_signatures = Some [],
      pd_approvers = Some [\<lparr>aq_transitions = transitions, aq_roles = [''owner''], aq_minimum = 1\<rparr>],
      pd_distinctness = Some [], pd_evidence = Some [], pd_escalation = Some [], pd_template = None\<rparr>"

definition sample_written :: "string list \<Rightarrow> string list \<Rightarrow> profile" where
  "sample_written transitions subjects =
     \<lparr>pf_schema = schemaID, pf_id = ''p'', pf_class = ClassSolo, pf_transitions = transitions,
      pf_sources = [\<lparr>ts_id = ''forge'', ts_kind = TrustForge\<rparr>],
      pf_mappings = [\<lparr>rm_role = ''owner'', rm_source = ''forge'', rm_subjects = subjects\<rparr>],
      pf_ownership = [], pf_signatures = [],
      pf_approvers = [\<lparr>aq_transitions = transitions, aq_roles = [''owner''], aq_minimum = 1\<rparr>],
      pf_distinctness = [], pf_evidence = [], pf_escalation = [], pf_template = None, pf_seal = ''''\<rparr>"

definition sample_yaml :: "string \<Rightarrow> string + profile_doc" where
  "sample_yaml raw =
     (if raw = ''one'' then Inr (order_doc [''accept'', ''close''] [''ann'', ''bob''])
      else Inr (order_doc [''close'', ''accept''] [''bob'', ''ann'']))"

lemma order_doc_profile: "doc_to_profile (order_doc ts ss) = Inr (sample_written ts ss)"
  by code_simp

lemma sample_valid:
  "catalog_validate sample_catalog = None"
  "profile_validate (sample_written [''accept'', ''close''] [''ann'', ''bob'']) sample_catalog = None"
  by code_simp+

lemma sample_sets:
  "same_sets (sample_written [''accept'', ''close''] [''ann'', ''bob''])
     (sample_written [''close'', ''accept''] [''bob'', ''ann''])"
  by (simp add: same_sets_def sample_written_def normal_mapping_def normal_approver_def add_mset_commute)

lemma sample_decodes:
  "decode_profile h sample_yaml sample_catalog ''one''
     = Inr ((normalize_profile (sample_written [''accept'', ''close''] [''ann'', ''bob'']))
         \<lparr>pf_seal := content_digest h (normalize_profile (sample_written [''accept'', ''close''] [''ann'', ''bob'']))\<rparr>)"
  unfolding decode_profile_Inr by (simp add: sample_valid order_doc_profile sample_yaml_def)

lemma profile_decoding_ignores_order_witness:
  "\<exists>r. decode_profile (\<lambda>s. s) sample_yaml sample_catalog ''one'' = Inr r
     \<and> decode_profile (\<lambda>s. s) sample_yaml sample_catalog ''two'' = Inr r"
  using profile_decoding_ignores_order[of sample_yaml "''one''" _ _ "''two''", OF _ order_doc_profile _ order_doc_profile sample_sets,
      of "\<lambda>s. s" sample_catalog] sample_decodes[of "\<lambda>s. s"]
  by (auto simp: sample_yaml_def)

lemma sample_text: "profile_text (sample_written [''accept'', ''close''] [''ann'', ''bob''])"
  by (simp add: profile_text_def sample_written_def entry_text_defs source_text_def utf8_valid_ascii class_named_def
      trust_kind_named_def schemaID_def)

lemma normalized_mappings: "length (pf_mappings (normalize_profile p)) = length (pf_mappings p)"
  by (simp add: normalize_profile_def)

lemma sample_mappings: "pf_mappings (normalize_profile (sample_written ts ss)) \<noteq> []"
  using normalized_mappings[of "sample_written ts ss"] by (auto simp: sample_written_def)

lemma seal_detects_modification_witness:
  "\<exists>p. decode_profile (\<lambda>s. s) sample_yaml sample_catalog ''one'' = Inr p \<and> check_seal (\<lambda>s. s) p = None
     \<and> check_seal (\<lambda>s. s) (p\<lparr>pf_mappings := []\<rparr>) \<noteq> None"
proof -
  obtain p where p: "decode_profile (\<lambda>s. s) sample_yaml sample_catalog ''one'' = Inr p" "profile_text p" "pf_mappings p \<noteq> []"
    using sample_decodes[of "\<lambda>s. s"] sample_text normalized_mappings by (simp add: normalized_text sample_mappings)
  have q: "profile_text (p\<lparr>pf_mappings := []\<rparr>)" using p(2) by (simp add: profile_text_def)
  have ne: "p\<lparr>pf_mappings := []\<rparr> \<noteq> p" using p(3) by (metis profile.select_convs(6) profile.surjective profile.update_convs(6))
  show ?thesis
    using seal_detects_modification[OF inj_on_id2 p(1) refl] seal_detects_modification[OF inj_on_id2 p(1), of "p\<lparr>pf_mappings := []\<rparr>"]
      p(1,2) q ne by auto
qed

end
