(* ===== verification/Resolution.thy ===== *)
theory Resolution
  imports ProfileSeal
begin

text \<open>
  From a claim to a principal (internal/governanceprincipal: resolve.go, relation.go,
  attribution.go). A claim names a trust source and a subject; the adapter's fact about
  it is evidence, and \<open>resolve_claim\<close> alone turns the two into a sealed resolution. Every
  consumer checks the seal, so what it reads is what \<open>resolve_claim\<close> said.

  The fact reader is a port, the argument \<open>facts\<close> (None where the Go field is nil): a
  contract error or a fact. SHA-256 is \<open>h\<close>. A nil list and an empty one are the same
  list here; a resolution from \<open>resolve_claim\<close> always has a witness.
\<close>

section \<open>Claims, facts and resolutions\<close>

record principal_claim =
  pc_source :: string
  pc_subject :: string

datatype resolution_state = Authenticated | Violated | Unproven | UnknownState string

fun resolution_state_string :: "resolution_state \<Rightarrow> string" where
  "resolution_state_string Authenticated = ''authenticated''"
| "resolution_state_string Violated = ''violated-with-witness''"
| "resolution_state_string Unproven = ''unproven''"
| "resolution_state_string (UnknownState s) = s"

fun resolution_state_valid :: "resolution_state \<Rightarrow> bool" where
  "resolution_state_valid (UnknownState _) = False"
| "resolution_state_valid _ = True"

record trust_fact =
  tf_source :: string
  tf_kind :: trust_kind
  tf_subjects :: "string list"
  tf_digest :: string
  tf_available :: bool
  tf_valid :: bool
  tf_reason :: string

record trust_witness =
  tw_code :: string
  tw_source :: string
  tw_digest :: string
  tw_detail :: string

record resolution =
  rs_claim :: principal_claim
  rs_principal :: string
  rs_state :: resolution_state
  rs_witnesses :: "trust_witness list"
  rs_seal :: string

datatype resolve_error =
    ProfileSeal seal_error
  | ClaimBadSource string
  | ClaimNoSubject
  | ClaimSubjectNotText
  | NoFactReader
  | FactUnreadable string string
  | FactWrongSource string string
  | FactWrongKind
  | FactNoSubject
  | FactSubjectNotText
  | FactDuplicateSubject string
  | UnavailableNoReason
  | UnavailableSubjects
  | UnavailableValid
  | UnavailableDigest
  | AvailableBadDigest string
  | InvalidNoReason
  | NoPrincipal principal_error
  | NotResolved principal_claim
  | ModifiedAfterResolve principal_claim

definition claim_validate :: "principal_claim \<Rightarrow> resolve_error option" where
  "claim_validate c =
     first_error
       [check (\<not> valid_id (pc_source c)) (ClaimBadSource (pc_source c)),
        check (pc_subject c = '''') ClaimNoSubject,
        check (\<not> utf8_valid (pc_subject c)) ClaimSubjectNotText]"

definition valid_evidence_digest :: "string \<Rightarrow> bool" where
  "valid_evidence_digest s \<longleftrightarrow> rx_match sha256Re s"

definition validate_trust_fact :: "trust_fact \<Rightarrow> trust_source \<Rightarrow> resolve_error option" where
  "validate_trust_fact f want =
     first_error
       [check (tf_source f \<noteq> ts_id want) (FactWrongSource (tf_source f) (ts_id want)),
        check (tf_kind f \<noteq> ts_kind want) FactWrongKind,
        scan_seen (\<lambda>s. s) (\<lambda>i e. e) (\<lambda>i s. FactDuplicateSubject s)
          (\<lambda>s. first_error [check (s = '''') FactNoSubject, check (\<not> utf8_valid s) FactSubjectNotText])
          0 [] (tf_subjects f),
        (if \<not> tf_available f then
           first_error
             [check (tf_reason f = '''') UnavailableNoReason,
              check (tf_subjects f \<noteq> []) UnavailableSubjects,
              check (tf_valid f) UnavailableValid,
              check (tf_digest f \<noteq> '''') UnavailableDigest]
         else
           first_error
             [check (\<not> valid_evidence_digest (tf_digest f)) (AvailableBadDigest (tf_digest f)),
              check (\<not> tf_valid f \<and> tf_reason f = '''') InvalidNoReason])]"

section \<open>Witnesses and the seal\<close>

text \<open>\<^verbatim>\<open>sortWitnesses\<close> orders by the four fields in turn; equal keys are equal witnesses.\<close>

definition witness_key :: "trust_witness \<Rightarrow> string list" where
  "witness_key w = [tw_code w, tw_source w, tw_digest w, tw_detail w]"

definition sort_witnesses :: "trust_witness list \<Rightarrow> trust_witness list" where
  "sort_witnesses ws = sort_key witness_key ws"

definition omit_empty :: "string \<Rightarrow> string \<Rightarrow> (string \<times> json) list" where
  "omit_empty k v = (if v = '''' then [] else [(k, json_text v)])"

definition witness_json :: "trust_witness \<Rightarrow> json" where
  "witness_json w =
     JObj ([(''code'', json_text (tw_code w)), (''source_id'', json_text (tw_source w))] @
       omit_empty ''evidence_digest'' (tw_digest w) @ omit_empty ''detail'' (tw_detail w))"

definition claim_json :: "principal_claim \<Rightarrow> json" where
  "claim_json c = JObj [(''trust_source'', json_text (pc_source c)), (''subject'', json_text (pc_subject c))]"

definition resolution_json :: "resolution \<Rightarrow> json" where
  "resolution_json r =
     JObj ([(''claim'', claim_json (rs_claim r))] @ omit_empty ''principal_id'' (rs_principal r) @
       [(''state'', json_text (resolution_state_string (rs_state r))),
        (''witnesses'', JArr (map witness_json (rs_witnesses r)))])"

definition resolution_digest :: "(string \<Rightarrow> string) \<Rightarrow> resolution \<Rightarrow> string" where
  "resolution_digest h r = canon_digest h (resolution_json r)"

definition check_resolution_seal :: "(string \<Rightarrow> string) \<Rightarrow> resolution \<Rightarrow> resolve_error option" where
  "check_resolution_seal h r =
     (if rs_seal r = '''' then Some (NotResolved (rs_claim r))
      else if resolution_digest h r \<noteq> rs_seal r then Some (ModifiedAfterResolve (rs_claim r))
      else None)"

definition seal_resolution :: "(string \<Rightarrow> string) \<Rightarrow> resolution \<Rightarrow> resolution" where
  "seal_resolution h r = r\<lparr>rs_seal := resolution_digest h r\<rparr>"

section \<open>Resolving a claim\<close>

text \<open>\<^verbatim>\<open>%q\<close> of an identifier: its letters need no escape.\<close>

definition quote_id :: "string \<Rightarrow> string" where
  "quote_id s = [quote_mark] @ s @ [quote_mark]"

definition role_mappings_bind :: "profile \<Rightarrow> string \<Rightarrow> string \<Rightarrow> bool" where
  "role_mappings_bind p src subject \<longleftrightarrow>
     list_ex (\<lambda>m. rm_source m = src \<and> subject \<in> set (rm_subjects m)) (pf_mappings p)"

definition observed :: "trust_source \<Rightarrow> trust_fact \<Rightarrow> string \<Rightarrow> string \<Rightarrow> trust_witness" where
  "observed t f code detail = \<lparr>tw_code = code, tw_source = ts_id t, tw_digest = tf_digest f, tw_detail = detail\<rparr>"

text \<open>The switch over a contract-respecting fact: the state, the principal id and the witness.\<close>

definition judge_fact ::
  "profile \<Rightarrow> principal_claim \<Rightarrow> trust_source \<Rightarrow> trust_fact
     \<Rightarrow> principal_error + (resolution_state \<times> string \<times> trust_witness)" where
  "judge_fact p c t f =
     (if \<not> tf_available f then
        Inr (Unproven, '''', \<lparr>tw_code = ''trust-evidence-unavailable'', tw_source = ts_id t, tw_digest = '''',
                             tw_detail = tf_reason f\<rparr>)
      else if \<not> tf_valid f then Inr (Violated, '''', observed t f ''trust-evidence-invalid'' (tf_reason f))
      else if pc_subject c \<notin> set (tf_subjects f) then
        Inr (Violated, '''', observed t f ''trust-subject-mismatch''
          (''valid evidence from '' @ quote_id (ts_id t) @ '' does not attest claimed subject''))
      else if ts_kind t = TrustLocalOperator then
        (if \<not> role_mappings_bind p (ts_id t) (pc_subject c) then
           Inr (Violated, '''', observed t f ''trust-subject-mismatch''
             (''self-asserted subject is not bound to any role by profile '' @ quote_id (pf_id p)
               @ [CHR 0x27] @ ''s role_mappings for source '' @ quote_id (ts_id t)))
         else
           (case canonical_principal_id (pc_source c) (pc_subject c) of
              Inl e \<Rightarrow> Inl e
            | Inr pid \<Rightarrow>
                Inr (Authenticated, pid, observed t f ''local-operator-asserted''
                  (''self-asserted subject is bound to a role by profile '' @ quote_id (pf_id p)
                    @ [CHR 0x27] @ ''s role_mappings for source '' @ quote_id (ts_id t)))))
      else
        (case canonical_principal_id (pc_source c) (pc_subject c) of
           Inl e \<Rightarrow> Inl e
         | Inr pid \<Rightarrow>
             Inr (Authenticated, pid, observed t f ''trust-subject-verified''
               (''claimed subject observed in valid evidence from '' @ quote_id (ts_id t)))))"

definition resolved ::
  "(string \<Rightarrow> string) \<Rightarrow> principal_claim \<Rightarrow> resolution_state \<times> string \<times> trust_witness \<Rightarrow> resolution" where
  "resolved h c r =
     (case r of (s, pid, w) \<Rightarrow>
        seal_resolution h
          \<lparr>rs_claim = c, rs_principal = pid, rs_state = s, rs_witnesses = sort_witnesses [w], rs_seal = ''''\<rparr>)"

definition resolve_claim ::
  "(string \<Rightarrow> string) \<Rightarrow> (trust_source \<Rightarrow> principal_claim \<Rightarrow> string + trust_fact) option \<Rightarrow> profile
     \<Rightarrow> principal_claim \<Rightarrow> resolve_error + resolution" where
  "resolve_claim h facts p c =
     (case check_seal h p of
        Some e \<Rightarrow> Inl (ProfileSeal e)
      | None \<Rightarrow>
     (case claim_validate c of
        Some e \<Rightarrow> Inl e
      | None \<Rightarrow>
     (case facts of
        None \<Rightarrow> Inl NoFactReader
      | Some read \<Rightarrow>
     (case trust_source_of p (pc_source c) of
        None \<Rightarrow>
          Inr (resolved h c (Violated, '''',
            \<lparr>tw_code = ''trust-source-forbidden'', tw_source = pc_source c, tw_digest = '''',
             tw_detail = ''trust source '' @ quote_id (pc_source c) @ '' is not permitted by profile '' @ quote_id (pf_id p)\<rparr>))
      | Some t \<Rightarrow>
     (case read t c of
        Inl e \<Rightarrow> Inl (FactUnreadable (ts_id t) e)
      | Inr f \<Rightarrow>
     (case validate_trust_fact f t of
        Some e \<Rightarrow> Inl e
      | None \<Rightarrow>
     (case judge_fact p c t f of
        Inl e \<Rightarrow> Inl (NoPrincipal e)
      | Inr r \<Rightarrow> Inr (resolved h c r))))))))"

section \<open>Relating two resolutions\<close>

datatype authorization_state = Authorized | AuthorizationViolated | AuthorizationUnproven

datatype operand_error =
    OperandState string
  | OperandClaim resolve_error
  | OperandDerive principal_error
  | OperandNoPrincipal
  | OperandPrincipal string string
  | OperandCarriesPrincipal
  | OperandSeal resolve_error

definition validate_relation_operand :: "(string \<Rightarrow> string) \<Rightarrow> resolution \<Rightarrow> operand_error option" where
  "validate_relation_operand h r =
     (if \<not> resolution_state_valid (rs_state r) then Some (OperandState (resolution_state_string (rs_state r)))
      else
        (case claim_validate (rs_claim r) of
           Some e \<Rightarrow> Some (OperandClaim e)
         | None \<Rightarrow>
        (case canonical_principal_id (pc_source (rs_claim r)) (pc_subject (rs_claim r)) of
           Inl e \<Rightarrow> Some (OperandDerive e)
         | Inr derived \<Rightarrow>
             (if rs_state r = Authenticated \<and> rs_principal r \<noteq> derived then
                Some (OperandPrincipal (rs_principal r) derived)
              else if rs_state r \<noteq> Authenticated \<and> rs_principal r \<noteq> '''' then Some OperandCarriesPrincipal
              else map_option OperandSeal (check_resolution_seal h r)))))"

datatype relation_error = RelationNotKnown string | LeftOperand operand_error | RightOperand operand_error

definition evaluate_relation ::
  "(string \<Rightarrow> string) \<Rightarrow> resolution \<Rightarrow> resolution \<Rightarrow> distinctness_relation \<Rightarrow> relation_error + authorization_state" where
  "evaluate_relation h l r rel =
     (if \<not> relation_valid rel then Inl (RelationNotKnown (relation_string rel))
      else
        (case validate_relation_operand h l of
           Some e \<Rightarrow> Inl (LeftOperand e)
         | None \<Rightarrow>
        (case validate_relation_operand h r of
           Some e \<Rightarrow> Inl (RightOperand e)
         | None \<Rightarrow>
             (if rs_state l = Violated \<or> rs_state r = Violated then Inr AuthorizationViolated
              else if rs_state l = Unproven \<or> rs_state r = Unproven then Inr AuthorizationUnproven
              else
                (let same = (rs_principal l = rs_principal r) in
                 if (rel = SamePrincipal \<and> same) \<or> (rel = DifferentPrincipal \<and> \<not> same) then Inr Authorized
                 else Inr AuthorizationViolated)))))"

section \<open>Attribution\<close>

record attribution =
  at_principal :: string
  at_unauthenticated :: bool

datatype attribution_error =
    NotExclusive
  | BadPrincipal principal_error
  | ResolutionState string
  | CarriesPrincipal
  | NoPrincipalId
  | ResolutionSeal resolve_error

definition attribution_validate :: "attribution \<Rightarrow> attribution_error option" where
  "attribution_validate a =
     (let named = (at_principal a \<noteq> '''') in
      if named = at_unauthenticated a then Some NotExclusive
      else if named then map_option BadPrincipal (principal_id_validate (at_principal a))
      else None)"

definition new_principal_attribution :: "string \<Rightarrow> attribution_error + attribution" where
  "new_principal_attribution pid =
     (case principal_id_validate pid of
        Some e \<Rightarrow> Inl (BadPrincipal e)
      | None \<Rightarrow> Inr \<lparr>at_principal = pid, at_unauthenticated = False\<rparr>)"

definition new_unauthenticated_attribution :: attribution where
  "new_unauthenticated_attribution = \<lparr>at_principal = '''', at_unauthenticated = True\<rparr>"

definition attribution_from_resolution ::
  "(string \<Rightarrow> string) \<Rightarrow> resolution \<Rightarrow> attribution_error + attribution" where
  "attribution_from_resolution h r =
     (if \<not> resolution_state_valid (rs_state r) then Inl (ResolutionState (resolution_state_string (rs_state r)))
      else if rs_state r \<noteq> Authenticated \<and> rs_principal r \<noteq> '''' then Inl CarriesPrincipal
      else if rs_state r = Authenticated \<and> rs_principal r = '''' then Inl NoPrincipalId
      else
        (case check_resolution_seal h r of
           Some e \<Rightarrow> Inl (ResolutionSeal e)
         | None \<Rightarrow>
             (if rs_state r = Authenticated then new_principal_attribution (rs_principal r)
              else Inr new_unauthenticated_attribution)))"

section \<open>What a resolution says\<close>

lemma resolution_digest_seal [simp]: "resolution_digest h (r\<lparr>rs_seal := x\<rparr>) = resolution_digest h r"
  by (simp add: resolution_digest_def resolution_json_def)

text \<open>A seal has its \<^verbatim>\<open>sha256:\<close> prefix, so no digest is the empty seal.\<close>

lemma digest_nonempty [simp]: "canon_digest h v \<noteq> ''''" "resolution_digest h r \<noteq> ''''" "content_digest h p \<noteq> ''''"
  by (simp_all add: canon_digest_def resolution_digest_def content_digest_def)

lemma sealed_checks [simp]: "check_resolution_seal h (seal_resolution h r) = None"
  by (simp add: check_resolution_seal_def seal_resolution_def)

lemma sealed_profile_checks [simp]: "check_seal h (p\<lparr>pf_seal := content_digest h p\<rparr>) = None"
  by (simp add: check_seal_def)

lemma sort_witnesses_one [simp]: "sort_witnesses [w] = [w]"
  by (simp add: sort_witnesses_def)

lemma resolved_fields [simp]:
  "rs_claim (resolved h c (s, pid, w)) = c" "rs_principal (resolved h c (s, pid, w)) = pid"
  "rs_state (resolved h c (s, pid, w)) = s" "rs_witnesses (resolved h c (s, pid, w)) = [w]"
  by (simp_all add: resolved_def seal_resolution_def)

lemma resolved_seal [simp]: "check_resolution_seal h (resolved h c r) = None"
  by (cases r) (simp add: resolved_def)

lemma claim_derives:
  "claim_validate c = None \<Longrightarrow>
     canonical_principal_id (pc_source c) (pc_subject c)
       = Inr (principalIDPrefix @ ''/'' @ pc_source c @ ''/'' @ b64_encode (pc_subject c))"
  by (auto simp: claim_validate_def canonical_principal_id_def scan_simps)

text \<open>The only way to an authenticated resolution: valid evidence of the permitted source
  that attests the subject, which a local operator's profile must also name.\<close>

definition attested :: "profile \<Rightarrow> principal_claim \<Rightarrow> trust_source \<Rightarrow> trust_fact \<Rightarrow> bool" where
  "attested p c t f \<longleftrightarrow>
     tf_available f \<and> tf_valid f \<and> pc_subject c \<in> set (tf_subjects f)
     \<and> (ts_kind t = TrustLocalOperator \<longrightarrow> role_mappings_bind p (ts_id t) (pc_subject c))"

lemma judge_fact_cases:
  assumes "claim_validate c = None"
  shows "\<exists>s pid w. judge_fact p c t f = Inr (s, pid, w)
    \<and> (if attested p c t f then s = Authenticated \<and> canonical_principal_id (pc_source c) (pc_subject c) = Inr pid
       else pid = '''' \<and> s = (if tf_available f then Violated else Unproven))
    \<and> tw_source w = ts_id t \<and> (tf_available f \<longrightarrow> tw_digest w = tf_digest f)"
  using claim_derives[OF assms] by (auto simp: judge_fact_def attested_def observed_def)

lemma resolve_Inr:
  "resolve_claim h facts p c = Inr r \<longleftrightarrow>
     check_seal h p = None \<and> claim_validate c = None
     \<and> (\<exists>read. facts = Some read
        \<and> (case trust_source_of p (pc_source c) of
             None \<Rightarrow>
               r = resolved h c (Violated, '''',
                 \<lparr>tw_code = ''trust-source-forbidden'', tw_source = pc_source c, tw_digest = '''',
                  tw_detail = ''trust source '' @ quote_id (pc_source c) @ '' is not permitted by profile '' @ quote_id (pf_id p)\<rparr>)
           | Some t \<Rightarrow>
               \<exists>f j. read t c = Inr f \<and> validate_trust_fact f t = None \<and> judge_fact p c t f = Inr j \<and> r = resolved h c j))"
  by (auto simp: resolve_claim_def split: option.splits sum.splits)

definition evidence_attests ::
  "(trust_source \<Rightarrow> principal_claim \<Rightarrow> string + trust_fact) option \<Rightarrow> profile \<Rightarrow> principal_claim \<Rightarrow> bool" where
  "evidence_attests facts p c \<longleftrightarrow>
     (case (facts, trust_source_of p (pc_source c)) of
        (Some read, Some t) \<Rightarrow>
          (case read t c of Inr f \<Rightarrow> validate_trust_fact f t = None \<and> attested p c t f | Inl _ \<Rightarrow> False)
      | _ \<Rightarrow> False)"

lemma resolve_outcome:
  assumes "resolve_claim h facts p c = Inr r"
  shows "rs_claim r = c \<and> claim_validate c = None
    \<and> (if evidence_attests facts p c
       then rs_state r = Authenticated \<and> canonical_principal_id (pc_source c) (pc_subject c) = Inr (rs_principal r)
       else rs_principal r = '''' \<and> rs_state r \<in> {Violated, Unproven})"
proof -
  from assms have c: "claim_validate c = None" by (simp add: resolve_Inr)
  from assms obtain read where read: "facts = Some read" by (auto simp: resolve_Inr)
  show ?thesis
  proof (cases "trust_source_of p (pc_source c)")
    case None
    then show ?thesis using assms c read by (simp add: resolve_Inr evidence_attests_def)
  next
    case (Some t)
    then obtain f j where f: "read t c = Inr f" "validate_trust_fact f t = None" "judge_fact p c t f = Inr j"
      "r = resolved h c j" using assms read by (auto simp: resolve_Inr)
    with judge_fact_cases[OF c, of p t f] Some c read show ?thesis
      by (auto simp: evidence_attests_def split: if_splits)
  qed
qed

lemma resolve_sealed:
  assumes "resolve_claim h facts p c = Inr r"
  shows "check_resolution_seal h r = None"
  using assms by (auto simp: resolve_Inr split: option.splits)

text \<open>What \<open>resolve_claim\<close> returns is what a consumer accepts.\<close>

lemma resolve_operand:
  assumes "resolve_claim h facts p c = Inr r"
  shows "validate_relation_operand h r = None"
  using resolve_outcome[OF assms] claim_derives[of c] resolve_sealed[OF assms]
  by (auto simp: validate_relation_operand_def split: if_splits)

lemma principal_id_inj:
  fixes c d :: principal_claim
  assumes "canonical_principal_id (pc_source c) (pc_subject c) = Inr pid"
    "canonical_principal_id (pc_source d) (pc_subject d) = Inr pid"
  shows "c = d"
  using assms canonical_id_inj[of "pc_source c" "pc_subject c" pid "pc_source d" "pc_subject d"] by (cases c; cases d) simp

text \<open>C8. Only attested evidence makes a principal: a resolution is authenticated exactly
  when its claim's trust source is one the profile permits and the fact the adapter read
  there respects the port's contract, is available and valid, names the claimed subject
  and, for a local operator, the profile's own role mappings name that subject too. Its
  principal id is then the one the claim derives; any other resolution is violated or
  unproven and has no principal. The claim is the one that was asked about, and the seal
  a consumer checks holds.\<close>

theorem resolve_authenticates_attested:
  assumes "resolve_claim h facts p c = Inr r"
  shows "rs_claim r = c
    \<and> (rs_state r = Authenticated \<longleftrightarrow> evidence_attests facts p c)
    \<and> (if rs_state r = Authenticated then canonical_principal_id (pc_source c) (pc_subject c) = Inr (rs_principal r)
       else rs_principal r = '''' \<and> rs_state r \<in> {Violated, Unproven})
    \<and> check_resolution_seal h r = None"
  using resolve_outcome[OF assms] resolve_sealed[OF assms] by (auto split: if_splits)

text \<open>Two resolutions are different principals exactly when they are of different
  claims: between two outputs of \<open>resolve_claim\<close> (whatever readers and profiles they came from)
  the different-principal relation is authorized if and only if both are authenticated
  and their source and subject differ, and same-principal if and only if both are
  authenticated and these agree.\<close>

theorem relation_compares_claims:
  assumes "resolve_claim h facts p c = Inr l" "resolve_claim h facts' q d = Inr r"
  shows "(evaluate_relation h l r DifferentPrincipal = Inr Authorized \<longleftrightarrow>
      rs_state l = Authenticated \<and> rs_state r = Authenticated \<and> c \<noteq> d)
    \<and> (evaluate_relation h l r SamePrincipal = Inr Authorized \<longleftrightarrow>
      rs_state l = Authenticated \<and> rs_state r = Authenticated \<and> c = d)"
proof -
  have v: "validate_relation_operand h l = None" "validate_relation_operand h r = None"
    using resolve_operand[OF assms(1)] resolve_operand[OF assms(2)] by auto
  note out = resolve_outcome[OF assms(1)] resolve_outcome[OF assms(2)]
  have eq: "rs_principal l = rs_principal r \<longleftrightarrow> c = d" if "rs_state l = Authenticated" "rs_state r = Authenticated"
    using out that principal_id_inj[of c _ d] by (auto split: if_splits)
  have st: "rs_state l \<in> {Authenticated, Violated, Unproven}" "rs_state r \<in> {Authenticated, Violated, Unproven}"
    using out by (auto split: if_splits)
  show ?thesis using eq st v by (auto simp: evaluate_relation_def)
qed

section \<open>A profile and two claims\<close>

definition sample_digest :: string where
  "sample_digest = ''sha256:'' @ replicate 64 CHR ''a''"

definition sample_claim :: "string \<Rightarrow> principal_claim" where
  "sample_claim subject = \<lparr>pc_source = ''forge'', pc_subject = subject\<rparr>"

text \<open>A solo profile with one forge source, sealed.\<close>

definition forge_base :: profile where
  "forge_base =
     \<lparr>pf_schema = schemaID, pf_id = ''p'', pf_class = ClassSolo, pf_transitions = [''accept''],
               pf_sources = [\<lparr>ts_id = ''forge'', ts_kind = TrustForge\<rparr>],
               pf_mappings = [\<lparr>rm_role = ''owner'', rm_source = ''forge'', rm_subjects = [''ann'', ''bob'']\<rparr>],
               pf_ownership = [], pf_signatures = [], pf_approvers = [], pf_distinctness = [], pf_evidence = [],
               pf_escalation = [], pf_template = None, pf_seal = ''''\<rparr>"

definition sample_profile :: "(string \<Rightarrow> string) \<Rightarrow> profile" where
  "sample_profile h = forge_base\<lparr>pf_seal := content_digest h forge_base\<rparr>"

definition sample_facts :: "trust_source \<Rightarrow> principal_claim \<Rightarrow> string + trust_fact" where
  "sample_facts t c =
     Inr \<lparr>tf_source = ts_id t, tf_kind = ts_kind t, tf_subjects = [''ann'', ''bob''], tf_digest = sample_digest,
          tf_available = True, tf_valid = True, tf_reason = ''''\<rparr>"

lemma sample_claim_ok: "claim_validate (sample_claim ''ann'') = None" "claim_validate (sample_claim ''bob'') = None"
  by code_simp+

lemma sample_fact_ok:
  "validate_trust_fact \<lparr>tf_source = ''forge'', tf_kind = TrustForge, tf_subjects = [''ann'', ''bob''], tf_digest = sample_digest,
     tf_available = True, tf_valid = True, tf_reason = ''''\<rparr> \<lparr>ts_id = ''forge'', ts_kind = TrustForge\<rparr> = None"
  by code_simp

lemma sample_resolve:
  assumes "subject \<in> {''ann'', ''bob''}"
  shows "resolve_claim h (Some sample_facts) (sample_profile h) (sample_claim subject)
    = Inr (resolved h (sample_claim subject) (Authenticated, principalIDPrefix @ ''/forge/'' @ b64_encode subject,
        \<lparr>tw_code = ''trust-subject-verified'', tw_source = ''forge'', tw_digest = sample_digest,
         tw_detail = ''claimed subject observed in valid evidence from '' @ quote_id ''forge''\<rparr>))"
proof -
  have c: "claim_validate (sample_claim subject) = None" using assms sample_claim_ok by auto
  have t: "trust_source_of (sample_profile h) (pc_source (sample_claim subject)) = Some \<lparr>ts_id = ''forge'', ts_kind = TrustForge\<rparr>"
    by (simp add: trust_source_of_def sample_profile_def forge_base_def sample_claim_def)
  show ?thesis
    using claim_derives[OF c] assms sample_fact_ok sealed_profile_checks[of h forge_base]
    by (auto simp: resolve_claim_def c t sample_facts_def sample_profile_def[symmetric] judge_fact_def observed_def)
      (auto simp: sample_claim_def)
qed

lemma resolve_authenticates_attested_witness:
  "\<exists>r. resolve_claim (\<lambda>s. s) (Some sample_facts) (sample_profile (\<lambda>s. s)) (sample_claim ''ann'') = Inr r
     \<and> rs_state r = Authenticated
     \<and> evidence_attests (Some sample_facts) (sample_profile (\<lambda>s. s)) (sample_claim ''ann'')"
proof -
  let ?h = "\<lambda>s. s"
  obtain r where r: "resolve_claim ?h (Some sample_facts) (sample_profile ?h) (sample_claim ''ann'') = Inr r" "rs_state r = Authenticated"
    using sample_resolve[of "''ann''" ?h] by simp
  then show ?thesis using resolve_authenticates_attested[OF r(1)] by auto
qed

lemma relation_compares_claims_witness:
  "\<exists>l r. resolve_claim (\<lambda>s. s) (Some sample_facts) (sample_profile (\<lambda>s. s)) (sample_claim ''ann'') = Inr l
     \<and> resolve_claim (\<lambda>s. s) (Some sample_facts) (sample_profile (\<lambda>s. s)) (sample_claim ''bob'') = Inr r
     \<and> evaluate_relation (\<lambda>s. s) l r DifferentPrincipal = Inr Authorized
     \<and> evaluate_relation (\<lambda>s. s) l r SamePrincipal \<noteq> Inr Authorized"
proof -
  let ?h = "\<lambda>s. s"
  obtain l r where lr: "resolve_claim ?h (Some sample_facts) (sample_profile ?h) (sample_claim ''ann'') = Inr l" "rs_state l = Authenticated"
      "resolve_claim ?h (Some sample_facts) (sample_profile ?h) (sample_claim ''bob'') = Inr r" "rs_state r = Authenticated"
    using sample_resolve[of "''ann''" ?h] sample_resolve[of "''bob''" ?h] by simp
  then show ?thesis using relation_compares_claims[OF lr(1,3)] by (auto simp: sample_claim_def)
qed

end
