(* ===== verification/Authorize.thy ===== *)
theory Authorize
  imports Resolution "HOL-Library.AList"
begin

text \<open>
  The interpretation of a governed transition (internal/governanceprincipal/authorize.go):
  who may fill which role, and whether a profile's approver, escalation, distinctness,
  signature, ownership and evidence rules hold of a request. Every shortfall is a finding,
  and the decision is authorized only when there is none.

  A request's metrics are the entries of the Go map (distinct keys). The map from roles to
  their fillers is an association list; a role it does not hold has no filler. Details are
  the Go strings: every operand of a \<^verbatim>\<open>%q\<close> or \<^verbatim>\<open>%v\<close> is an identifier the sealed profile
  or the validated request holds.
\<close>

section \<open>Requests and decisions\<close>

datatype posture = Authoritative | Advisory | UnknownPosture string

datatype rule_fact_kind = SignatureFact | OwnershipFact | UnknownFactKind string

datatype rule_fact_state = FactProven | FactViolated | FactUnproven | UnknownFactState string

fun posture_valid :: "posture \<Rightarrow> bool" where
  "posture_valid (UnknownPosture _) = False"
| "posture_valid _ = True"

fun fact_kind_valid :: "rule_fact_kind \<Rightarrow> bool" where
  "fact_kind_valid (UnknownFactKind _) = False"
| "fact_kind_valid _ = True"

fun fact_state_valid :: "rule_fact_state \<Rightarrow> bool" where
  "fact_state_valid (UnknownFactState _) = False"
| "fact_state_valid _ = True"

record rule_fact =
  rf_kind :: rule_fact_kind
  rf_source :: string
  rf_principal :: string
  rf_state :: rule_fact_state
  rf_digest :: string
  rf_reason :: string

record approval_record =
  ap_role :: string
  ap_principal :: string

record authorization_request =
  az_transition :: string
  az_posture :: posture
  az_resolutions :: "resolution list"
  az_approvals :: "approval_record list"
  az_facts :: "rule_fact list"
  az_evidence :: "string list"
  az_metrics :: "(string \<times> int) list"

record authorization_finding =
  af_code :: string
  af_state :: authorization_state
  af_role :: string
  af_roles :: "string list"
  af_source :: string
  af_principal :: string
  af_digest :: string
  af_detail :: string

record role_disclosure =
  rd_code :: string
  rd_principal :: string
  rd_roles :: "string list"
  rd_detail :: string

record authorization_decision =
  ad_transition :: string
  ad_posture :: posture
  ad_state :: authorization_state
  ad_findings :: "authorization_finding list"
  ad_disclosures :: "role_disclosure list"

datatype authorize_error =
    AuthorizeSeal seal_error
  | BadTransition string
  | BadPosture
  | BadResolution nat operand_error
  | ConflictingResolutions resolution
  | BadApprovalRole nat string
  | BadApprovalPrincipal nat principal_error
  | BadFactKind nat
  | BadFactState nat
  | BadFactSource nat string
  | BadFactPrincipal nat principal_error
  | ProvenNoDigest nat
  | BadFactDigest nat string
  | FactNoReason nat
  | ConflictingFacts rule_fact
  | BadEvidenceSource string
  | BadMetric string
  | NegativeMetric string int

section \<open>Checking and indexing a request\<close>

text \<open>The two indexing loops: an entry under a key already held must be the entry held.\<close>

fun index_checked ::
  "(nat \<Rightarrow> 'a \<Rightarrow> 'e option) \<Rightarrow> ('a \<Rightarrow> 'k) \<Rightarrow> ('a \<Rightarrow> 'e) \<Rightarrow> nat \<Rightarrow> ('k \<rightharpoonup> 'a) \<Rightarrow> 'a list \<Rightarrow> 'e + ('k \<rightharpoonup> 'a)" where
  "index_checked v key conflict i m [] = Inr m"
| "index_checked v key conflict i m (x # xs) =
     (case v i x of
        Some e \<Rightarrow> Inl e
      | None \<Rightarrow>
          (case m (key x) of
             Some prev \<Rightarrow> if prev \<noteq> x then Inl (conflict x) else index_checked v key conflict (Suc i) m xs
           | None \<Rightarrow> index_checked v key conflict (Suc i) (m(key x \<mapsto> x)) xs))"

definition resolution_record_validate :: "(string \<Rightarrow> string) \<Rightarrow> resolution \<Rightarrow> operand_error option" where
  "resolution_record_validate h r =
     (if \<not> resolution_state_valid (rs_state r) then Some (OperandState (resolution_state_string (rs_state r)))
      else
        (case claim_validate (rs_claim r) of
           Some e \<Rightarrow> Some (OperandClaim e)
         | None \<Rightarrow>
        (case canonical_principal_id (pc_source (rs_claim r)) (pc_subject (rs_claim r)) of
           Inl e \<Rightarrow> Some (OperandDerive e)
         | Inr derived \<Rightarrow>
             (if rs_state r = Authenticated \<and> rs_principal r = '''' then Some OperandNoPrincipal
              else if rs_state r = Authenticated \<and> rs_principal r \<noteq> derived then
                Some (OperandPrincipal (rs_principal r) derived)
              else if rs_state r \<noteq> Authenticated \<and> rs_principal r \<noteq> '''' then Some OperandCarriesPrincipal
              else map_option OperandSeal (check_resolution_seal h r)))))"

definition derived_id :: "resolution \<Rightarrow> string" where
  "derived_id r =
     (case canonical_principal_id (pc_source (rs_claim r)) (pc_subject (rs_claim r)) of Inl _ \<Rightarrow> '''' | Inr pid \<Rightarrow> pid)"

definition index_resolutions ::
  "(string \<Rightarrow> string) \<Rightarrow> resolution list \<Rightarrow> authorize_error + (string \<rightharpoonup> resolution)" where
  "index_resolutions h rs =
     index_checked (\<lambda>i r. map_option (BadResolution i) (resolution_record_validate h r)) derived_id ConflictingResolutions
       0 Map.empty rs"

fun scan_approvals ::
  "nat \<Rightarrow> approval_record list \<Rightarrow> approval_record list \<Rightarrow> authorize_error + approval_record list" where
  "scan_approvals i out [] = Inr out"
| "scan_approvals i out (a # as) =
     (if \<not> valid_id (ap_role a) then Inl (BadApprovalRole i (ap_role a))
      else
        (case principal_id_validate (ap_principal a) of
           Some e \<Rightarrow> Inl (BadApprovalPrincipal i e)
         | None \<Rightarrow> if a \<in> set out then scan_approvals (Suc i) out as else scan_approvals (Suc i) (out @ [a]) as))"

definition approval_key :: "approval_record \<Rightarrow> string list" where
  "approval_key a = [ap_role a, ap_principal a]"

definition normalize_approvals :: "approval_record list \<Rightarrow> authorize_error + approval_record list" where
  "normalize_approvals as = map_sum id (sort_key approval_key) (scan_approvals 0 [] as)"

definition fact_key :: "rule_fact \<Rightarrow> rule_fact_kind \<times> string \<times> string" where
  "fact_key f = (rf_kind f, rf_source f, rf_principal f)"

definition rule_fact_validate :: "nat \<Rightarrow> rule_fact \<Rightarrow> authorize_error option" where
  "rule_fact_validate i f =
     first_error
       [check (\<not> fact_kind_valid (rf_kind f)) (BadFactKind i),
        check (\<not> fact_state_valid (rf_state f)) (BadFactState i),
        check (\<not> valid_id (rf_source f)) (BadFactSource i (rf_source f)),
        map_option (BadFactPrincipal i) (principal_id_validate (rf_principal f)),
        check (rf_state f = FactProven \<and> rf_digest f = '''') (ProvenNoDigest i),
        check (rf_digest f \<noteq> '''' \<and> \<not> valid_evidence_digest (rf_digest f)) (BadFactDigest i (rf_digest f)),
        check (rf_state f \<noteq> FactProven \<and> rf_reason f = '''') (FactNoReason i)]"

definition index_rule_facts ::
  "rule_fact list \<Rightarrow> authorize_error + (rule_fact_kind \<times> string \<times> string \<rightharpoonup> rule_fact)" where
  "index_rule_facts fs = index_checked rule_fact_validate fact_key ConflictingFacts 0 Map.empty fs"

fun scan_evidence :: "string list \<Rightarrow> string list \<Rightarrow> authorize_error + string list" where
  "scan_evidence out [] = Inr out"
| "scan_evidence out (s # ss) =
     (if \<not> valid_id s then Inl (BadEvidenceSource s)
      else if s \<in> set out then scan_evidence out ss
      else scan_evidence (out @ [s]) ss)"

definition normalize_evidence_sources :: "string list \<Rightarrow> authorize_error + string list" where
  "normalize_evidence_sources ss = map_sum id sort (scan_evidence [] ss)"

definition metric_check :: "(string \<times> int) list \<Rightarrow> string \<Rightarrow> authorize_error option" where
  "metric_check ms k =
     first_error
       [check (\<not> valid_id k) (BadMetric k),
        check (the (map_of ms k) < 0) (NegativeMetric k (the (map_of ms k)))]"

definition validate_escalation_metrics :: "(string \<times> int) list \<Rightarrow> authorize_error option" where
  "validate_escalation_metrics ms = first_error (map (metric_check ms) (sort (map fst ms)))"

section \<open>Who fills a role\<close>

type_synonym fillers = "(string \<times> string list) list"

definition fillers_of :: "fillers \<Rightarrow> string \<Rightarrow> string list" where
  "fillers_of F role = (case map_of F role of None \<Rightarrow> [] | Some ps \<Rightarrow> ps)"

definition holds_role_in :: "profile \<Rightarrow> principal_claim \<Rightarrow> string \<Rightarrow> bool" where
  "holds_role_in p c role \<longleftrightarrow>
     list_ex (\<lambda>m. rm_role m = role \<and> rm_source m = pc_source c \<and> pc_subject c \<in> set (rm_subjects m)) (pf_mappings p)"

datatype role_query_error = QuerySeal seal_error | QueryClaim resolve_error | QueryRole string | QuerySource string | QueryKind

definition holds_role ::
  "(string \<Rightarrow> string) \<Rightarrow> profile \<Rightarrow> principal_claim \<Rightarrow> string \<Rightarrow> role_query_error + bool" where
  "holds_role h p c role =
     (case check_seal h p of
        Some e \<Rightarrow> Inl (QuerySeal e)
      | None \<Rightarrow>
          (case claim_validate c of
             Some e \<Rightarrow> Inl (QueryClaim e)
           | None \<Rightarrow> if \<not> valid_id role then Inl (QueryRole role) else Inr (holds_role_in p c role)))"

definition has_trust_source_kind ::
  "(string \<Rightarrow> string) \<Rightarrow> profile \<Rightarrow> string \<Rightarrow> trust_kind \<Rightarrow> role_query_error + bool" where
  "has_trust_source_kind h p src k =
     (case check_seal h p of
        Some e \<Rightarrow> Inl (QuerySeal e)
      | None \<Rightarrow>
          (if \<not> valid_id src then Inl (QuerySource src)
           else if \<not> trust_kind_valid k then Inl QueryKind
           else Inr (case trust_source_of p src of None \<Rightarrow> False | Some t \<Rightarrow> ts_kind t = k)))"

definition blank_finding :: "string \<Rightarrow> authorization_state \<Rightarrow> string \<Rightarrow> authorization_finding" where
  "blank_finding code st detail =
     \<lparr>af_code = code, af_state = st, af_role = '''', af_roles = [], af_source = '''', af_principal = '''',
      af_digest = '''', af_detail = detail\<rparr>"

definition approval_finding ::
  "string \<Rightarrow> authorization_state \<Rightarrow> approval_record \<Rightarrow> string \<Rightarrow> authorization_finding" where
  "approval_finding code st a detail =
     (blank_finding code st detail)\<lparr>af_role := ap_role a, af_principal := ap_principal a\<rparr>"

fun fill_roles ::
  "profile \<Rightarrow> (string \<rightharpoonup> resolution) \<Rightarrow> fillers \<Rightarrow> approval_record list \<Rightarrow> fillers \<times> authorization_finding list" where
  "fill_roles p rs F [] = (F, [])"
| "fill_roles p rs F (a # as) =
     (let found = (\<lambda>f. (case fill_roles p rs F as of (G, fs) \<Rightarrow> (G, f # fs))) in
      case rs (ap_principal a) of
        None \<Rightarrow>
          found (approval_finding ''principal-unproven'' AuthorizationUnproven a
            ''no principal resolution supplied for this approval'')
      | Some r \<Rightarrow>
          (case rs_state r of
             Violated \<Rightarrow>
               found (approval_finding ''principal-violated'' AuthorizationViolated a
                 ''principal resolution is violated-with-witness'')
           | Unproven \<Rightarrow>
               found (approval_finding ''principal-unproven'' AuthorizationUnproven a ''principal resolution is unproven'')
           | Authenticated \<Rightarrow>
               (if \<not> holds_role_in p (rs_claim r) (ap_role a) then
                  found (approval_finding ''role-not-authorized'' AuthorizationViolated a
                    (''no role mapping grants role '' @ quote_id (ap_role a) @ '' to this principal''))
                else if ap_principal a \<in> set (fillers_of F (ap_role a)) then fill_roles p rs F as
                else
                  fill_roles p rs (AList.update (ap_role a) (fillers_of F (ap_role a) @ [ap_principal a]) F) as)
           | UnknownState _ \<Rightarrow> fill_roles p rs F as))"

section \<open>The rules\<close>

definition show_int :: "int \<Rightarrow> string" where
  "show_int i = (if i < 0 then CHR ''-'' # show_nat (nat (- i)) else show_nat (nat i))"

text \<open>\<^verbatim>\<open>%v\<close> of a list of strings.\<close>

definition show_list :: "string list \<Rightarrow> string" where
  "show_list ss = ''['' @ join_with '' '' ss @ '']''"

definition evaluate_required_approvers :: "profile \<Rightarrow> string \<Rightarrow> fillers \<Rightarrow> authorization_finding list" where
  "evaluate_required_approvers p t F =
     concat (map (\<lambda>rule.
       (let n = length (remdups (concat (map (fillers_of F) (aq_roles rule)))) in
        if t \<in> set (aq_transitions rule) \<and> int n < aq_minimum rule then
          [blank_finding ''required-approver-missing'' AuthorizationUnproven
             (''transition '' @ quote_id t @ '' roles '' @ show_list (aq_roles rule) @ '': '' @ show_nat n @ '' of ''
               @ show_int (aq_minimum rule) @ '' required distinct authenticated approvers'')]
        else [])) (pf_approvers p))"

definition evaluate_escalation ::
  "profile \<Rightarrow> string \<Rightarrow> (string \<times> int) list \<Rightarrow> fillers \<Rightarrow> authorization_finding list" where
  "evaluate_escalation p t ms F =
     concat (map (\<lambda>e.
       (if t \<notin> set (et_transitions e) then []
        else
          (case map_of ms (et_metric e) of
             None \<Rightarrow>
               [blank_finding ''escalation-metric-unavailable'' AuthorizationUnproven
                  (''no value supplied for escalation metric '' @ quote_id (et_metric e))]
           | Some value \<Rightarrow>
               (if value < et_at_least e then []
                else
                  concat (map (\<lambda>role.
                    (if fillers_of F role = [] then
                       [(blank_finding ''escalation-role-missing'' AuthorizationUnproven
                          (''metric '' @ quote_id (et_metric e) @ '' is '' @ show_int value @ '' (threshold ''
                            @ show_int (et_at_least e) @ ''): role '' @ quote_id role @ '' requires an authenticated approver''))
                          \<lparr>af_role := role\<rparr>]
                     else [])) (et_roles e)))))) (pf_escalation p))"

definition sorted_role_pair :: "string \<Rightarrow> string \<Rightarrow> string list" where
  "sorted_role_pair a b = (if a > b then [b, a] else [a, b])"

definition distinctness_findings :: "fillers \<Rightarrow> distinctness_rule \<Rightarrow> authorization_finding list" where
  "distinctness_findings F rule =
     (let left = fillers_of F (dr_left rule); right = fillers_of F (dr_right rule);
          pair = sorted_role_pair (dr_left rule) (dr_right rule) in
      if left = [] \<or> right = [] then
        concat (map (\<lambda>role.
          (if fillers_of F role = [] then
             [(blank_finding ''distinctness-unproven'' AuthorizationUnproven
                (relation_string (dr_relation rule) @ '' rule between '' @ quote_id (dr_left rule) @ '' and ''
                  @ quote_id (dr_right rule) @ '': role '' @ quote_id role @ '' has no authenticated filler''))
                \<lparr>af_role := role, af_roles := pair\<rparr>]
           else [])) [dr_left rule, dr_right rule])
      else
        (case dr_relation rule of
           DifferentPrincipal \<Rightarrow>
             concat (map (\<lambda>q.
               (if q \<in> set right then
                  [(blank_finding ''distinctness-violated'' AuthorizationViolated
                     (''roles '' @ quote_id (dr_left rule) @ '' and '' @ quote_id (dr_right rule) @ '' require different principals''))
                     \<lparr>af_roles := pair, af_principal := q\<rparr>]
                else [])) left)
         | SamePrincipal \<Rightarrow>
             (if length (remdups (left @ right)) > 1 then
                [(blank_finding ''distinctness-violated'' AuthorizationViolated
                   (''roles '' @ quote_id (dr_left rule) @ '' and '' @ quote_id (dr_right rule) @ '' require the same principal''))
                   \<lparr>af_roles := pair\<rparr>]
              else [])
         | RelationUnknown _ \<Rightarrow> []))"

definition evaluate_distinctness :: "profile \<Rightarrow> string \<Rightarrow> fillers \<Rightarrow> authorization_finding list" where
  "evaluate_distinctness p t F =
     concat (map (\<lambda>rule. (if t \<notin> set (dr_transitions rule) then [] else distinctness_findings F rule)) (pf_distinctness p))"

type_synonym rule_facts = "rule_fact_kind \<times> string \<times> string \<rightharpoonup> rule_fact"

definition signature_findings ::
  "rule_facts \<Rightarrow> signature_requirement \<Rightarrow> string \<Rightarrow> string \<Rightarrow> authorization_finding list" where
  "signature_findings facts rule role q =
     (let fs = List.map_filter (\<lambda>src. facts (SignatureFact, src, q)) (sg_sources rule) in
      if list_ex (\<lambda>f. rf_state f = FactProven) fs then []
      else
        (case find (\<lambda>f. rf_state f = FactViolated) fs of
           Some f \<Rightarrow>
             [(blank_finding ''signature-violated'' AuthorizationViolated (rf_reason f))
                \<lparr>af_role := role, af_source := rf_source f, af_principal := q, af_digest := rf_digest f\<rparr>]
         | None \<Rightarrow>
             (case find (\<lambda>f. rf_state f = FactUnproven) fs of
                Some f \<Rightarrow>
                  [(blank_finding ''signature-unproven'' AuthorizationUnproven (rf_reason f))
                     \<lparr>af_role := role, af_source := rf_source f, af_principal := q\<rparr>]
              | None \<Rightarrow>
                  [(blank_finding ''signature-unproven'' AuthorizationUnproven
                     (''no signature fact supplied from sources '' @ show_list (sg_sources rule)))
                     \<lparr>af_role := role, af_principal := q\<rparr>])))"

definition evaluate_signatures :: "profile \<Rightarrow> string \<Rightarrow> fillers \<Rightarrow> rule_facts \<Rightarrow> authorization_finding list" where
  "evaluate_signatures p t F facts =
     concat (map (\<lambda>rule.
       (if t \<notin> set (sg_transitions rule) then []
        else
          concat (map (\<lambda>role.
            (if fillers_of F role = [] then
               [(blank_finding ''signature-unproven'' AuthorizationUnproven
                  (''signature rule applies to role '' @ quote_id role @ '' but no authenticated principal fills it''))
                  \<lparr>af_role := role\<rparr>]
             else concat (map (signature_findings facts rule role) (fillers_of F role)))) (sg_roles rule)))) (pf_signatures p))"

definition ownership_findings ::
  "rule_facts \<Rightarrow> ownership_source \<Rightarrow> string \<Rightarrow> string \<Rightarrow> authorization_finding list" where
  "ownership_findings facts w role q =
     (case facts (OwnershipFact, os_id w, q) of
        None \<Rightarrow>
          [(blank_finding ''ownership-unproven'' AuthorizationUnproven
             (''no ownership fact supplied from source '' @ quote_id (os_id w)))
             \<lparr>af_role := role, af_source := os_id w, af_principal := q\<rparr>]
      | Some f \<Rightarrow>
          (if rf_state f = FactProven then []
           else if rf_state f = FactViolated then
             [(blank_finding ''ownership-violated'' AuthorizationViolated (rf_reason f))
                \<lparr>af_role := role, af_source := os_id w, af_principal := q, af_digest := rf_digest f\<rparr>]
           else
             [(blank_finding ''ownership-unproven'' AuthorizationUnproven (rf_reason f))
                \<lparr>af_role := role, af_source := os_id w, af_principal := q\<rparr>]))"

definition evaluate_ownership :: "profile \<Rightarrow> string \<Rightarrow> fillers \<Rightarrow> rule_facts \<Rightarrow> authorization_finding list" where
  "evaluate_ownership p t F facts =
     concat (map (\<lambda>w.
       (if t \<notin> set (os_transitions w) then []
        else
          concat (map (\<lambda>role.
            (if fillers_of F role = [] then
               [(blank_finding ''ownership-unproven'' AuthorizationUnproven
                  (''ownership source '' @ quote_id (os_id w) @ '' applies to role '' @ quote_id role
                    @ '' but no authenticated principal fills it''))
                  \<lparr>af_role := role, af_source := os_id w\<rparr>]
             else concat (map (ownership_findings facts w role) (fillers_of F role)))) (os_roles w)))) (pf_ownership p))"

definition evaluate_evidence_sources :: "profile \<Rightarrow> string \<Rightarrow> string list \<Rightarrow> authorization_finding list" where
  "evaluate_evidence_sources p t presented =
     concat (map (\<lambda>r.
       (if t \<notin> set (er_transitions r) then []
        else if presented = [] then
          [blank_finding ''evidence-source-unproven'' AuthorizationUnproven
             (''transition '' @ quote_id t @ '' restricts evidence sources but none was presented'')]
        else
          concat (map (\<lambda>s.
            (if s \<notin> set (er_allowed r) then
               [(blank_finding ''evidence-source-forbidden'' AuthorizationViolated
                  (''evidence source '' @ quote_id s @ '' is not allowed for transition '' @ quote_id t))
                  \<lparr>af_source := s\<rparr>]
             else [])) presented))) (pf_evidence p))"

section \<open>The decision\<close>

definition roles_held :: "fillers \<Rightarrow> string list \<Rightarrow> string \<Rightarrow> string list" where
  "roles_held F roles q = concat (map (\<lambda>role. map (\<lambda>_. role) (filter (\<lambda>x. x = q) (fillers_of F role))) roles)"

definition solo_collapse_disclosures :: "fillers \<Rightarrow> role_disclosure list" where
  "solo_collapse_disclosures F =
     (let roles = sort (map fst F);
          principals = sort (filter (\<lambda>q. 1 < length (roles_held F roles q)) (remdups (concat (map (fillers_of F) roles)))) in
      map (\<lambda>q. \<lparr>rd_code = ''solo-role-collapse'', rd_principal = q, rd_roles = roles_held F roles q,
                rd_detail = ''one principal fills multiple roles under the solo profile''\<rparr>) principals)"

text \<open>\<^verbatim>\<open>findingLess\<close>: the fields in order, the role pair as a sequence.\<close>

fun authorization_state_string :: "authorization_state \<Rightarrow> string" where
  "authorization_state_string Authorized = ''authorized''"
| "authorization_state_string AuthorizationViolated = ''violated-with-witness''"
| "authorization_state_string AuthorizationUnproven = ''unproven''"

definition finding_key :: "authorization_finding \<Rightarrow> string list list" where
  "finding_key f =
     [[af_code f], [authorization_state_string (af_state f)], [af_role f], af_roles f, [af_source f],
      [af_principal f], [af_digest f], [af_detail f]]"

fun decision_state :: "authorization_state \<Rightarrow> authorization_finding list \<Rightarrow> authorization_state" where
  "decision_state st [] = st"
| "decision_state st (f # fs) =
     (if af_state f = AuthorizationViolated then AuthorizationViolated else decision_state AuthorizationUnproven fs)"

definition finish_decision ::
  "string \<Rightarrow> posture \<Rightarrow> authorization_finding list \<Rightarrow> role_disclosure list \<Rightarrow> authorization_decision" where
  "finish_decision t ps fs ds =
     (let deduped = remdups_adj (sort_key finding_key fs) in
      \<lparr>ad_transition = t, ad_posture = ps, ad_state = decision_state Authorized deduped, ad_findings = deduped,
       ad_disclosures = sort_key (\<lambda>d. [rd_code d, rd_principal d]) ds\<rparr>)"

text \<open>The interpretation proper, over the indexed request.\<close>

definition interpret_request ::
  "profile \<Rightarrow> authorization_request \<Rightarrow> (string \<rightharpoonup> resolution) \<Rightarrow> approval_record list \<Rightarrow> rule_facts \<Rightarrow> string list
     \<Rightarrow> authorization_decision" where
  "interpret_request p q rs as facts evidence =
     (let t = az_transition q;
          ps = (if pf_class p = ClassExperimental then Advisory else az_posture q);
          experimental =
            (if pf_class p = ClassExperimental \<and> az_posture q = Authoritative then
               [blank_finding ''experimental-authority-forbidden'' AuthorizationViolated
                  (''experimental profile '' @ quote_id (pf_id p) @ '' cannot produce an authoritative authorization'')]
             else []) in
      if t \<notin> set (pf_transitions p) then
        finish_decision t ps
          (experimental @
            [blank_finding ''transition-not-applicable'' AuthorizationViolated
               (''transition '' @ quote_id t @ '' is not among profile '' @ quote_id (pf_id p) @ '' applicable transitions'')])
          []
      else
        (case fill_roles p rs [] as of (F, principal_findings) \<Rightarrow>
           finish_decision t ps
             (experimental @ principal_findings @ evaluate_required_approvers p t F
               @ evaluate_escalation p t (az_metrics q) F @ evaluate_distinctness p t F
               @ evaluate_signatures p t F facts @ evaluate_ownership p t F facts
               @ evaluate_evidence_sources p t evidence)
             (if pf_class p = ClassSolo then solo_collapse_disclosures F else [])))"

definition authorize ::
  "(string \<Rightarrow> string) \<Rightarrow> profile \<Rightarrow> authorization_request \<Rightarrow> authorize_error + authorization_decision" where
  "authorize h p q =
     (case check_seal h p of
        Some e \<Rightarrow> Inl (AuthorizeSeal e)
      | None \<Rightarrow>
     (if \<not> valid_id (az_transition q) then Inl (BadTransition (az_transition q))
      else if \<not> posture_valid (az_posture q) then Inl BadPosture
      else
     (case index_resolutions h (az_resolutions q) of
        Inl e \<Rightarrow> Inl e
      | Inr rs \<Rightarrow>
     (case normalize_approvals (az_approvals q) of
        Inl e \<Rightarrow> Inl e
      | Inr as \<Rightarrow>
     (case index_rule_facts (az_facts q) of
        Inl e \<Rightarrow> Inl e
      | Inr facts \<Rightarrow>
     (case normalize_evidence_sources (az_evidence q) of
        Inl e \<Rightarrow> Inl e
      | Inr evidence \<Rightarrow>
     (case validate_escalation_metrics (az_metrics q) of
        Some e \<Rightarrow> Inl e
      | None \<Rightarrow> Inr (interpret_request p q rs as facts evidence))))))))"

section \<open>What indexing keeps\<close>

text \<open>Indexing succeeds when every entry is well-formed and no two share a key, and the index
  is then determined by the set of entries.\<close>

definition indexed :: "('a \<Rightarrow> bool) \<Rightarrow> ('a \<Rightarrow> 'k) \<Rightarrow> ('k \<rightharpoonup> 'a) \<Rightarrow> 'a list \<Rightarrow> ('k \<rightharpoonup> 'a) \<Rightarrow> bool" where
  "indexed ok key m xs m' \<longleftrightarrow>
     (\<forall>x \<in> set xs. ok x) \<and> (\<forall>x \<in> set xs. m' (key x) = Some x)
     \<and> (\<forall>k. k \<notin> key ` set xs \<longrightarrow> m' k = m k) \<and> (\<forall>x \<in> set xs. \<forall>y. m (key x) = Some y \<longrightarrow> y = x)"

lemma indexed_Cons:
  "indexed ok key m (x # xs) m' \<longleftrightarrow>
     ok x \<and> (\<forall>y. m (key x) = Some y \<longrightarrow> y = x) \<and> indexed ok key (m(key x \<mapsto> x)) xs m'"
proof
  assume l: "indexed ok key m (x # xs) m'"
  then have m': "\<forall>y \<in> set (x # xs). m' (key y) = Some y" unfolding indexed_def by (elim conjE)
  have "indexed ok key (m(key x \<mapsto> x)) xs m'"
    unfolding indexed_def
  proof (intro conjI)
    show "\<forall>k. k \<notin> key ` set xs \<longrightarrow> m' k = (m(key x \<mapsto> x)) k" using l m' by (simp add: indexed_def)
    show "\<forall>y \<in> set xs. \<forall>z. (m(key x \<mapsto> x)) (key y) = Some z \<longrightarrow> z = y"
    proof (intro ballI allI impI)
      fix y z assume y: "y \<in> set xs" "(m(key x \<mapsto> x)) (key y) = Some z"
      show "z = y"
      proof (cases "key y = key x")
        case True
        then have "Some y = Some x" using m' y(1) by (metis list.set_intros)
        then show ?thesis using y(2) True by simp
      qed (use l y in \<open>simp add: indexed_def\<close>)
    qed
  qed (use l in \<open>simp_all add: indexed_def\<close>)
  with l show "ok x \<and> (\<forall>y. m (key x) = Some y \<longrightarrow> y = x) \<and> indexed ok key (m(key x \<mapsto> x)) xs m'" by (simp add: indexed_def)
next
  assume r: "ok x \<and> (\<forall>y. m (key x) = Some y \<longrightarrow> y = x) \<and> indexed ok key (m(key x \<mapsto> x)) xs m'"
  have same: "y = x" if "y \<in> set xs" "key y = key x" for y
  proof -
    have "(m(key x \<mapsto> x)) (key y) = Some x" using that(2) by simp
    with r that(1) have "x = y" unfolding indexed_def by blast
    then show ?thesis by simp
  qed
  have x: "m' (key x) = Some x"
  proof (cases "key x \<in> key ` set xs")
    case True
    then obtain y where "y \<in> set xs" "key y = key x" by (metis image_iff)
    with r same[of y] show ?thesis by (simp add: indexed_def)
  qed (use r in \<open>simp add: indexed_def\<close>)
  have "z = y" if "y \<in> set xs" "m (key y) = Some z" for y z
    using r that same[of y] by (cases "key y = key x") (simp_all add: indexed_def)
  with r x show "indexed ok key m (x # xs) m'" by (simp add: indexed_def)
qed

lemma index_checked_Inr:
  assumes ok: "\<And>i x. v i x = None \<longleftrightarrow> ok x"
  shows "index_checked v key conflict i m xs = Inr m' \<longleftrightarrow> indexed ok key m xs m'"
proof (induction xs arbitrary: i m)
  case Nil
  then show ?case by (auto simp: indexed_def)
next
  case (Cons x xs)
  show ?case
  proof (cases "v i x")
    case None
    then have "ok x" using ok by blast
    moreover have "index_checked v key conflict i m (x # xs) = Inr m' \<longleftrightarrow>
        (\<forall>y. m (key x) = Some y \<longrightarrow> y = x) \<and> index_checked v key conflict (Suc i) (m(key x \<mapsto> x)) xs = Inr m'"
      using None by (cases "m (key x)") (simp_all add: fun_upd_idem)
    ultimately show ?thesis unfolding Cons.IH indexed_Cons by simp
  next
    case (Some e)
    then have "\<not> ok x" using ok[of i x] by simp
    with Some show ?thesis by (simp add: indexed_Cons)
  qed
qed

lemma index_checked_set:
  assumes "\<And>i x. v i x = None \<longleftrightarrow> ok x" "set xs = set ys"
  shows "index_checked v key conflict 0 Map.empty xs = Inr m \<longleftrightarrow> index_checked v key conflict 0 Map.empty ys = Inr m"
  by (simp add: index_checked_Inr[where ok = ok, OF assms(1)] indexed_def assms(2))

definition approval_record_ok :: "approval_record \<Rightarrow> bool" where
  "approval_record_ok a \<longleftrightarrow> valid_id (ap_role a) \<and> principal_id_validate (ap_principal a) = None"

lemma scan_approvals_Inr:
  "(\<exists>r. scan_approvals i out as = Inr r) \<longleftrightarrow> (\<forall>a \<in> set as. approval_record_ok a)"
  by (induction i out as rule: scan_approvals.induct) (auto simp: approval_record_ok_def split: option.splits)

lemma scan_approvals_set:
  "scan_approvals i out as = Inr r \<Longrightarrow> set r = set out \<union> set as \<and> (distinct out \<longrightarrow> distinct r)"
  by (induction i out as rule: scan_approvals.induct) (auto split: if_splits option.splits)

lemma approval_key_inj: "inj_on approval_key A"
  by (rule inj_onI) (auto simp: approval_key_def intro: approval_record.equality)

lemma map_sum_Inr: "map_sum id f s = Inr r \<longleftrightarrow> (\<exists>u. s = Inr u \<and> r = f u)"
  by (cases s) auto

lemma normalize_approvals_Inr:
  assumes "normalize_approvals as = Inr r"
  shows "set r = set as \<and> (\<forall>a \<in> set as. approval_record_ok a)"
proof -
  obtain u where u: "scan_approvals 0 [] as = Inr u" "r = sort_key approval_key u"
    using assms unfolding normalize_approvals_def map_sum_Inr by blast
  then show ?thesis using scan_approvals_set[OF u(1)] scan_approvals_Inr[of 0 "[]" as] by simp
qed

lemma normalize_approvals_set:
  assumes "set as = set bs"
  shows "normalize_approvals as = Inr r \<longleftrightarrow> normalize_approvals bs = Inr r"
proof (cases "\<forall>a \<in> set as. approval_record_ok a")
  case False
  then show ?thesis using normalize_approvals_Inr assms by metis
next
  case True
  then obtain u v where uv: "scan_approvals 0 [] as = Inr u" "scan_approvals 0 [] bs = Inr v"
    using scan_approvals_Inr assms by metis
  then have "mset u = mset v"
    using scan_approvals_set[OF uv(1)] scan_approvals_set[OF uv(2)] assms by (simp flip: set_eq_iff_mset_eq_distinct)
  then have "sort_key approval_key u = sort_key approval_key v" by (rule sort_key_eq[OF approval_key_inj])
  then show ?thesis by (simp add: normalize_approvals_def uv)
qed

lemma scan_evidence_Inr: "(\<exists>r. scan_evidence out ss = Inr r) \<longleftrightarrow> (\<forall>s \<in> set ss. valid_id s)"
  by (induction out ss rule: scan_evidence.induct) auto

lemma scan_evidence_set:
  "scan_evidence out ss = Inr r \<Longrightarrow> set r = set out \<union> set ss \<and> (distinct out \<longrightarrow> distinct r)"
  by (induction out ss rule: scan_evidence.induct) (auto split: if_splits)

lemma normalize_evidence_Inr:
  assumes "normalize_evidence_sources ss = Inr r"
  shows "set r = set ss"
proof -
  obtain u where u: "scan_evidence [] ss = Inr u" "r = sort u"
    using assms unfolding normalize_evidence_sources_def map_sum_Inr by blast
  then show ?thesis using scan_evidence_set[OF u(1)] by simp
qed

lemma normalize_evidence_set:
  assumes "set ss = set ts"
  shows "normalize_evidence_sources ss = Inr r \<longleftrightarrow> normalize_evidence_sources ts = Inr r"
proof (cases "\<forall>s \<in> set ss. valid_id s")
  case False
  have "normalize_evidence_sources us \<noteq> Inr r" if "\<not> (\<forall>s \<in> set us. valid_id s)" for us
    using that scan_evidence_Inr[of "[]" us] unfolding normalize_evidence_sources_def map_sum_Inr by blast
  with False assms show ?thesis by metis
next
  case True
  then obtain u v where uv: "scan_evidence [] ss = Inr u" "scan_evidence [] ts = Inr v"
    using scan_evidence_Inr assms by metis
  then have "mset u = mset v"
    using scan_evidence_set[OF uv(1)] scan_evidence_set[OF uv(2)] assms by (simp flip: set_eq_iff_mset_eq_distinct)
  then have "sort u = sort v" by (rule sort_key_eq[rotated]) simp
  then show ?thesis by (simp add: normalize_evidence_sources_def uv)
qed

lemma index_resolutions_set:
  "set rs = set ts \<Longrightarrow> index_resolutions h rs = Inr m \<longleftrightarrow> index_resolutions h ts = Inr m"
  unfolding index_resolutions_def by (rule index_checked_set[where ok = "\<lambda>r. resolution_record_validate h r = None"]) simp_all

definition rule_fact_ok :: "rule_fact \<Rightarrow> bool" where
  "rule_fact_ok f \<longleftrightarrow> rule_fact_validate 0 f = None"

lemma rule_fact_index: "rule_fact_validate i f = None \<longleftrightarrow> rule_fact_ok f"
  by (simp add: rule_fact_ok_def rule_fact_validate_def)

lemma index_rule_facts_set:
  "set fs = set gs \<Longrightarrow> index_rule_facts fs = Inr m \<longleftrightarrow> index_rule_facts gs = Inr m"
  unfolding index_rule_facts_def by (rule index_checked_set[OF rule_fact_index])

section \<open>When a rule has no finding\<close>

definition fills :: "profile \<Rightarrow> (string \<rightharpoonup> resolution) \<Rightarrow> approval_record \<Rightarrow> bool" where
  "fills p rs a \<longleftrightarrow>
     (case rs (ap_principal a) of
        None \<Rightarrow> False | Some r \<Rightarrow> rs_state r = Authenticated \<and> holds_role_in p (rs_claim r) (ap_role a))"

lemma fills_iff:
  "fills p rs a \<longleftrightarrow>
     (\<exists>r. rs (ap_principal a) = Some r \<and> rs_state r = Authenticated \<and> holds_role_in p (rs_claim r) (ap_role a))"
  by (simp add: fills_def split: option.split)

lemma fillers_update [simp]:
  "fillers_of (AList.update k v F) role = (if role = k then v else fillers_of F role)"
  by (simp add: fillers_of_def update_conv')

lemma fill_roles_spec:
  assumes "\<forall>r \<in> ran rs. resolution_state_valid (rs_state r)"
  shows "(\<forall>role. set (fillers_of (fst (fill_roles p rs F as)) role)
      = set (fillers_of F role) \<union> {ap_principal a |a. a \<in> set as \<and> ap_role a = role \<and> fills p rs a})
    \<and> (snd (fill_roles p rs F as) = [] \<longleftrightarrow> (\<forall>a \<in> set as. fills p rs a))"
proof (induction as arbitrary: F)
  case Nil
  then show ?case by simp
next
  case (Cons a as)
  show ?case
  proof (cases "rs (ap_principal a)")
    case None
    then show ?thesis using Cons.IH[of F] by (auto simp: fills_def split: prod.split)
  next
    case (Some r)
    then have "resolution_state_valid (rs_state r)" using assms by (auto simp: ran_def)
    then show ?thesis
      using Some Cons.IH[of F] Cons.IH[of "AList.update (ap_role a) (fillers_of F (ap_role a) @ [ap_principal a]) F"]
      by (cases "rs_state r") (auto simp: fills_def split: prod.split)
  qed
qed

lemma concat_map_Nil: "concat (map f xs) = [] \<longleftrightarrow> (\<forall>x \<in> set xs. f x = [])"
  by simp

lemma approvers_Nil:
  "evaluate_required_approvers p t F = [] \<longleftrightarrow>
     (\<forall>rule \<in> set (pf_approvers p). t \<in> set (aq_transitions rule) \<longrightarrow>
        aq_minimum rule \<le> int (card (\<Union>role \<in> set (aq_roles rule). set (fillers_of F role))))"
  unfolding evaluate_required_approvers_def concat_map_Nil Let_def length_remdups_card_conv
  by (auto simp: not_less)

lemma escalation_Nil:
  "evaluate_escalation p t ms F = [] \<longleftrightarrow>
     (\<forall>e \<in> set (pf_escalation p). t \<in> set (et_transitions e) \<longrightarrow>
        (\<exists>v. map_of ms (et_metric e) = Some v
           \<and> (et_at_least e \<le> v \<longrightarrow> (\<forall>role \<in> set (et_roles e). fillers_of F role \<noteq> []))))"
proof -
  have "evaluate_escalation p t ms F = [] \<longleftrightarrow>
      (\<forall>e \<in> set (pf_escalation p). t \<notin> set (et_transitions e)
        \<or> (case map_of ms (et_metric e) of
            None \<Rightarrow> False | Some v \<Rightarrow> v < et_at_least e \<or> (\<forall>role \<in> set (et_roles e). fillers_of F role \<noteq> [])))"
    unfolding evaluate_escalation_def concat_map_Nil
    by (intro ball_cong refl) (simp add: concat_map_Nil del: concat_eq_Nil_conv split: option.split)
  also have "\<dots> \<longleftrightarrow>
      (\<forall>e \<in> set (pf_escalation p). t \<in> set (et_transitions e) \<longrightarrow>
        (\<exists>v. map_of ms (et_metric e) = Some v
           \<and> (et_at_least e \<le> v \<longrightarrow> (\<forall>role \<in> set (et_roles e). fillers_of F role \<noteq> []))))"
    by (intro ball_cong refl) (auto split: option.split)
  finally show ?thesis .
qed

definition relation_met :: "distinctness_relation \<Rightarrow> string set \<Rightarrow> string set \<Rightarrow> bool" where
  "relation_met rel A B \<longleftrightarrow>
     (case rel of DifferentPrincipal \<Rightarrow> A \<inter> B = {} | SamePrincipal \<Rightarrow> card (A \<union> B) \<le> 1 | RelationUnknown _ \<Rightarrow> True)"

lemma distinctness_Nil:
  "distinctness_findings F rule = [] \<longleftrightarrow>
     fillers_of F (dr_left rule) \<noteq> [] \<and> fillers_of F (dr_right rule) \<noteq> []
     \<and> relation_met (dr_relation rule) (set (fillers_of F (dr_left rule))) (set (fillers_of F (dr_right rule)))"
  by (cases "dr_relation rule")
    (auto simp: distinctness_findings_def Let_def relation_met_def length_remdups_card_conv not_less split: if_splits)

lemma signature_Nil:
  "signature_findings facts rule role q = [] \<longleftrightarrow>
     (\<exists>src \<in> set (sg_sources rule). \<exists>f. facts (SignatureFact, src, q) = Some f \<and> rf_state f = FactProven)"
  by (auto simp: signature_findings_def Let_def list_ex_iff map_filter_def Bex_def split: option.splits)

lemma ownership_Nil:
  "ownership_findings facts w role q = [] \<longleftrightarrow>
     (\<exists>f. facts (OwnershipFact, os_id w, q) = Some f \<and> rf_state f = FactProven)"
  by (simp add: ownership_findings_def split: option.splits)

lemma signatures_Nil:
  "evaluate_signatures p t F facts = [] \<longleftrightarrow>
     (\<forall>rule \<in> set (pf_signatures p). t \<in> set (sg_transitions rule) \<longrightarrow>
        (\<forall>role \<in> set (sg_roles rule). fillers_of F role \<noteq> []
           \<and> (\<forall>q \<in> set (fillers_of F role). signature_findings facts rule role q = [])))"
  unfolding evaluate_signatures_def concat_map_Nil by (auto simp: concat_map_Nil simp del: concat_eq_Nil_conv)

lemma ownerships_Nil:
  "evaluate_ownership p t F facts = [] \<longleftrightarrow>
     (\<forall>w \<in> set (pf_ownership p). t \<in> set (os_transitions w) \<longrightarrow>
        (\<forall>role \<in> set (os_roles w). fillers_of F role \<noteq> []
           \<and> (\<forall>q \<in> set (fillers_of F role). ownership_findings facts w role q = [])))"
  unfolding evaluate_ownership_def concat_map_Nil by (auto simp: concat_map_Nil simp del: concat_eq_Nil_conv)

lemma evidence_Nil:
  "evaluate_evidence_sources p t presented = [] \<longleftrightarrow>
     (\<forall>r \<in> set (pf_evidence p). t \<in> set (er_transitions r) \<longrightarrow>
        presented \<noteq> [] \<and> set presented \<subseteq> set (er_allowed r))"
  unfolding evaluate_evidence_sources_def concat_map_Nil by (auto simp: concat_map_Nil simp del: concat_eq_Nil_conv)

section \<open>The state of a decision\<close>

lemma decision_state_authorized: "decision_state st fs = Authorized \<longleftrightarrow> st = Authorized \<and> fs = []"
  by (induction st fs rule: decision_state.induct) auto

lemma decision_state_violated:
  "decision_state st fs = AuthorizationViolated \<longleftrightarrow>
     st = AuthorizationViolated \<and> fs = [] \<or> (\<exists>f \<in> set fs. af_state f = AuthorizationViolated)"
  by (induction st fs rule: decision_state.induct) auto

lemma finish_fields [simp]:
  "ad_posture (finish_decision t ps fs ds) = ps" "ad_transition (finish_decision t ps fs ds) = t"
  "set (ad_findings (finish_decision t ps fs ds)) = set fs"
  by (simp_all add: finish_decision_def Let_def)

lemma finish_authorized: "ad_state (finish_decision t ps fs ds) = Authorized \<longleftrightarrow> fs = []"
  by (simp add: finish_decision_def Let_def decision_state_authorized) (metis remdups_adj_set set_empty set_sort)

lemma finish_none: "ad_findings (finish_decision t ps fs ds) = [] \<longleftrightarrow> fs = []"
  using finish_fields(3)[of t ps fs ds] by (metis set_empty)

lemma finish_violated:
  "ad_state (finish_decision t ps fs ds) = AuthorizationViolated \<longleftrightarrow>
     (\<exists>f \<in> set (ad_findings (finish_decision t ps fs ds)). af_state f = AuthorizationViolated)"
  by (simp add: finish_decision_def Let_def decision_state_violated)

section \<open>What a request must show\<close>

lemma indexed_lookup:
  assumes "indexed ok key Map.empty xs m"
  shows "m k = Some x \<longleftrightarrow> x \<in> set xs \<and> key x = k"
proof (cases "k \<in> key ` set xs")
  case True
  then obtain y where y: "y \<in> set xs" "key y = k" by blast
  then have "m k = Some y" using assms unfolding indexed_def by blast
  show ?thesis
  proof
    assume "m k = Some x"
    then have "x = y" using \<open>m k = Some y\<close> by simp
    then show "x \<in> set xs \<and> key x = k" using y by blast
  next
    assume "x \<in> set xs \<and> key x = k"
    then show "m k = Some x" using assms unfolding indexed_def by blast
  qed
next
  case False
  then have "m k = None" using assms unfolding indexed_def by blast
  with False show ?thesis by auto
qed

lemma resolution_index:
  "map_option (BadResolution i) (resolution_record_validate h r) = None \<longleftrightarrow> resolution_record_validate h r = None"
  by simp

lemma index_resolutions_lookup:
  assumes "index_resolutions h rs = Inr m"
  shows "m k = Some r \<longleftrightarrow> r \<in> set rs \<and> derived_id r = k"
    "\<forall>r \<in> ran m. resolution_state_valid (rs_state r)"
proof -
  have i: "indexed (\<lambda>r. resolution_record_validate h r = None) derived_id Map.empty rs m"
    using assms unfolding index_resolutions_def index_checked_Inr[OF resolution_index] .
  then show l: "m k = Some r \<longleftrightarrow> r \<in> set rs \<and> derived_id r = k" for k r by (rule indexed_lookup)
  show "\<forall>r \<in> ran m. resolution_state_valid (rs_state r)"
  proof
    fix r assume "r \<in> ran m"
    then have "r \<in> set rs" using l by (auto simp: ran_def)
    with i have "resolution_record_validate h r = None" by (simp add: indexed_def)
    then show "resolution_state_valid (rs_state r)" by (simp add: resolution_record_validate_def split: if_splits)
  qed
qed

lemma index_rule_facts_lookup:
  "index_rule_facts fs = Inr m \<Longrightarrow> m k = Some f \<longleftrightarrow> f \<in> set fs \<and> fact_key f = k"
  unfolding index_rule_facts_def index_checked_Inr[OF rule_fact_index] by (rule indexed_lookup)

definition approving :: "authorization_request \<Rightarrow> string \<Rightarrow> string set" where
  "approving q role = {ap_principal a |a. a \<in> set (az_approvals q) \<and> ap_role a = role}"

definition approval_resolved :: "profile \<Rightarrow> authorization_request \<Rightarrow> approval_record \<Rightarrow> bool" where
  "approval_resolved p q a \<longleftrightarrow>
     (\<exists>r \<in> set (az_resolutions q). derived_id r = ap_principal a \<and> rs_state r = Authenticated
        \<and> holds_role_in p (rs_claim r) (ap_role a))"

definition fact_shown :: "authorization_request \<Rightarrow> rule_fact_kind \<Rightarrow> string \<Rightarrow> string \<Rightarrow> bool" where
  "fact_shown q k src pid \<longleftrightarrow> (\<exists>f \<in> set (az_facts q). fact_key f = (k, src, pid) \<and> rf_state f = FactProven)"

text \<open>The conditions on the request itself, with no index, order or finding in them.\<close>

definition requirements_met :: "profile \<Rightarrow> authorization_request \<Rightarrow> bool" where
  "requirements_met p q \<longleftrightarrow>
     (let t = az_transition q in
      \<not> (pf_class p = ClassExperimental \<and> az_posture q = Authoritative)
      \<and> t \<in> set (pf_transitions p)
      \<and> (\<forall>a \<in> set (az_approvals q). approval_resolved p q a)
      \<and> (\<forall>rule \<in> set (pf_approvers p). t \<in> set (aq_transitions rule) \<longrightarrow>
           aq_minimum rule \<le> int (card (\<Union>role \<in> set (aq_roles rule). approving q role)))
      \<and> (\<forall>e \<in> set (pf_escalation p). t \<in> set (et_transitions e) \<longrightarrow>
           (\<exists>v. map_of (az_metrics q) (et_metric e) = Some v
              \<and> (et_at_least e \<le> v \<longrightarrow> (\<forall>role \<in> set (et_roles e). approving q role \<noteq> {}))))
      \<and> (\<forall>rule \<in> set (pf_distinctness p). t \<in> set (dr_transitions rule) \<longrightarrow>
           approving q (dr_left rule) \<noteq> {} \<and> approving q (dr_right rule) \<noteq> {}
           \<and> relation_met (dr_relation rule) (approving q (dr_left rule)) (approving q (dr_right rule)))
      \<and> (\<forall>rule \<in> set (pf_signatures p). t \<in> set (sg_transitions rule) \<longrightarrow>
           (\<forall>role \<in> set (sg_roles rule). approving q role \<noteq> {}
              \<and> (\<forall>x \<in> approving q role. \<exists>src \<in> set (sg_sources rule). fact_shown q SignatureFact src x)))
      \<and> (\<forall>w \<in> set (pf_ownership p). t \<in> set (os_transitions w) \<longrightarrow>
           (\<forall>role \<in> set (os_roles w). approving q role \<noteq> {}
              \<and> (\<forall>x \<in> approving q role. fact_shown q OwnershipFact (os_id w) x)))
      \<and> (\<forall>r \<in> set (pf_evidence p). t \<in> set (er_transitions r) \<longrightarrow>
           az_evidence q \<noteq> [] \<and> set (az_evidence q) \<subseteq> set (er_allowed r)))"

lemma authorize_Inr:
  "authorize h p q = Inr d \<longleftrightarrow>
     check_seal h p = None \<and> valid_id (az_transition q) \<and> posture_valid (az_posture q)
     \<and> (\<exists>rs as facts evidence. index_resolutions h (az_resolutions q) = Inr rs
          \<and> normalize_approvals (az_approvals q) = Inr as \<and> index_rule_facts (az_facts q) = Inr facts
          \<and> normalize_evidence_sources (az_evidence q) = Inr evidence
          \<and> validate_escalation_metrics (az_metrics q) = None \<and> d = interpret_request p q rs as facts evidence)"
  by (auto simp: authorize_def split: option.splits sum.splits)

lemma set_empty_iff: "set xs = A \<Longrightarrow> xs \<noteq> [] \<longleftrightarrow> A \<noteq> {}"
  by auto

lemma interpret_authorized:
  assumes rs: "index_resolutions h (az_resolutions q) = Inr rs"
    and as: "normalize_approvals (az_approvals q) = Inr as"
    and facts: "index_rule_facts (az_facts q) = Inr facts"
    and ev: "normalize_evidence_sources (az_evidence q) = Inr evidence"
  shows "ad_state (interpret_request p q rs as facts evidence) = Authorized \<longleftrightarrow> requirements_met p q"
proof -
  obtain F fs where Ff: "fill_roles p rs [] as = (F, fs)" by fastforce
  have fl: "fills p rs a \<longleftrightarrow> approval_resolved p q a" for a
    unfolding fills_iff index_resolutions_lookup(1)[OF rs] approval_resolved_def by blast
  have sets: "set as = set (az_approvals q)" using normalize_approvals_Inr[OF as] by blast
  note spec = fill_roles_spec[OF index_resolutions_lookup(2)[OF rs], of p "[]" as, unfolded Ff, simplified]
  have fs: "fs = [] \<longleftrightarrow> (\<forall>a \<in> set (az_approvals q). approval_resolved p q a)" using spec fl sets by simp
  have F: "set (fillers_of F role) = approving q role" if "\<forall>a \<in> set (az_approvals q). approval_resolved p q a" for role
    using spec that fl sets by (auto simp: approving_def fillers_of_def)
  have ne: "fillers_of F role \<noteq> [] \<longleftrightarrow> approving q role \<noteq> {}" if "\<forall>a \<in> set (az_approvals q). approval_resolved p q a" for role
    using F[OF that, of role] by auto
  have ft: "(\<exists>f. facts (k, src, x) = Some f \<and> rf_state f = FactProven) \<longleftrightarrow> fact_shown q k src x" for k src x
    using index_rule_facts_lookup[OF facts] by (auto simp: fact_shown_def)
  have es: "set evidence = set (az_evidence q)" by (rule normalize_evidence_Inr[OF ev])
  have en: "evidence \<noteq> [] \<longleftrightarrow> az_evidence q \<noteq> []" using es by (cases evidence; cases "az_evidence q") auto
  show ?thesis
  proof (cases "(\<forall>a \<in> set (az_approvals q). approval_resolved p q a) \<and> az_transition q \<in> set (pf_transitions p)")
    case True
    then have r: "\<forall>a \<in> set (az_approvals q). approval_resolved p q a" by blast
    have "fs = []" using fs r by blast
    then have "ad_state (interpret_request p q rs as facts evidence) = Authorized \<longleftrightarrow>
        \<not> (pf_class p = ClassExperimental \<and> az_posture q = Authoritative)
        \<and> evaluate_required_approvers p (az_transition q) F = [] \<and> evaluate_escalation p (az_transition q) (az_metrics q) F = []
        \<and> evaluate_distinctness p (az_transition q) F = [] \<and> evaluate_signatures p (az_transition q) F facts = []
        \<and> evaluate_ownership p (az_transition q) F facts = [] \<and> evaluate_evidence_sources p (az_transition q) evidence = []"
      using True by (simp add: interpret_request_def Let_def Ff finish_authorized)
    moreover have "evaluate_distinctness p (az_transition q) F = [] \<longleftrightarrow>
        (\<forall>rule \<in> set (pf_distinctness p). az_transition q \<in> set (dr_transitions rule) \<longrightarrow> distinctness_findings F rule = [])"
      by (auto simp: evaluate_distinctness_def)
    ultimately show ?thesis
      unfolding approvers_Nil escalation_Nil distinctness_Nil signatures_Nil signature_Nil ownerships_Nil ownership_Nil
        evidence_Nil F[OF r] ne[OF r] ft es en requirements_met_def Let_def
      using True by blast
  next
    case False
    then show ?thesis using fs by (auto simp: interpret_request_def Let_def Ff finish_authorized requirements_met_def)
  qed
qed

lemma authorize_authorized:
  assumes "authorize h p q = Inr d"
  shows "ad_state d = Authorized \<longleftrightarrow> requirements_met p q"
  using assms interpret_authorized unfolding authorize_Inr by blast

text \<open>C5. Authorized means that every requirement of the profile is met, and being met means
  authorized. A decision is authorized exactly when the posture is one the class may grant,
  the profile governs the transition, every approval is by a principal with an authenticated
  resolution in the request whose claim the role mappings grant the role, and for the rules
  that name the transition: the distinct approving principals reach the minimum, the
  escalation metrics are supplied and a reached threshold's roles are approved, both sides
  of a distinctness rule are approved and related as it says, every approver of a role
  under a signature requirement or an ownership source has a proven fact from a listed
  source, and the presented evidence is there and allowed.\<close>

theorem authorized_exactly_when_met:
  assumes "authorize h p q = Inr d"
  shows "ad_state d = Authorized \<longleftrightarrow> requirements_met p q"
  by (rule authorize_authorized[OF assms])

lemma interpret_shape:
  "\<exists>fs ds. interpret_request p q rs as facts evidence
     = finish_decision (az_transition q) (if pf_class p = ClassExperimental then Advisory else az_posture q) fs ds"
  by (auto simp: interpret_request_def Let_def split: prod.split)

text \<open>A decision's state is the worst of its findings, and an experimental profile has no
  authority: authorized means no finding, violated that some finding is a violation (an
  explicit contradiction outranks anything unproven), unproven that there are findings and
  none is a violation; under an experimental profile the effective posture is advisory.\<close>

lemma decision_state_ranks_findings:
  assumes "authorize h p q = Inr d"
  shows "(ad_state d = Authorized \<longleftrightarrow> ad_findings d = [])
    \<and> (ad_state d = AuthorizationViolated \<longleftrightarrow> (\<exists>f \<in> set (ad_findings d). af_state f = AuthorizationViolated))
    \<and> (pf_class p = ClassExperimental \<longrightarrow> ad_posture d = Advisory)"
proof -
  obtain fs ds where d: "d = finish_decision (az_transition q)
      (if pf_class p = ClassExperimental then Advisory else az_posture q) fs ds"
    using assms interpret_shape unfolding authorize_Inr by metis
  show ?thesis unfolding d finish_authorized finish_none finish_violated finish_fields by simp
qed

definition same_request :: "authorization_request \<Rightarrow> authorization_request \<Rightarrow> bool" where
  "same_request q r \<longleftrightarrow>
     az_transition q = az_transition r \<and> az_posture q = az_posture r \<and> az_metrics q = az_metrics r
     \<and> set (az_resolutions q) = set (az_resolutions r) \<and> set (az_approvals q) = set (az_approvals r)
     \<and> set (az_facts q) = set (az_facts r) \<and> set (az_evidence q) = set (az_evidence r)"

text \<open>C18. A decision depends on what a request presents, not on how it lists it: two requests
  with the same sets of resolutions, approvals, rule facts and evidence sources, in any
  order and with any repetition, get the same decision, finding for finding, or are both
  malformed.\<close>

theorem authorize_ignores_order:
  assumes "same_request q r"
  shows "authorize h p q = Inr d \<longleftrightarrow> authorize h p r = Inr d"
proof -
  have eq: "az_transition q = az_transition r" "az_posture q = az_posture r" "az_metrics q = az_metrics r"
    and sets: "set (az_resolutions q) = set (az_resolutions r)" "set (az_approvals q) = set (az_approvals r)"
      "set (az_facts q) = set (az_facts r)" "set (az_evidence q) = set (az_evidence r)"
    using assms by (simp_all add: same_request_def)
  have i: "interpret_request p q rs as facts ev = interpret_request p r rs as facts ev" for rs as facts ev
    unfolding interpret_request_def eq ..
  show ?thesis
    unfolding authorize_Inr eq i index_resolutions_set[OF sets(1)] normalize_approvals_set[OF sets(2)]
      index_rule_facts_set[OF sets(3)] normalize_evidence_set[OF sets(4)] ..
qed

section \<open>Team and high-assurance profiles\<close>

lemma decoded_class_coverage:
  assumes "decode_profile h yaml cat raw = Inr p" "pf_class p \<in> {ClassTeam, ClassHighAssurance}" "t \<in> set (pf_transitions p)"
  shows "\<exists>rule \<in> set (pf_distinctness p). dr_relation rule = DifferentPrincipal \<and> t \<in> set (dr_transitions rule)"
proof -
  obtain r where r: "profile_validate r cat = None"
      "p = (normalize_profile r)\<lparr>pf_seal := content_digest h (normalize_profile r)\<rparr>"
    using assms(1) unfolding decode_profile_Inr by blast
  have c: "pf_class r \<in> {ClassTeam, ClassHighAssurance}" "t \<in> set (pf_transitions r)"
    using assms(2,3) r(2) by (auto simp: normalize_profile_def)
  have "class_coverage_validate r = None" using r(1) by (simp add: profile_validate_def scan_simps)
  then have "class_coverage_at r t = None" using c by (auto simp: class_coverage_validate_def scan_simps split: if_splits)
  then obtain rule where rule: "rule \<in> set (pf_distinctness r)" "dr_relation rule = DifferentPrincipal"
      "t \<in> set (dr_transitions rule)"
    by (auto simp: class_coverage_at_def list_ex_iff)
  then have "normal_distinctness rule \<in> set (pf_distinctness p)"
    unfolding r(2) by (simp add: normalize_profile_def sort_by_content_def)
  moreover have "dr_relation (normal_distinctness rule) = DifferentPrincipal"
    "t \<in> set (dr_transitions (normal_distinctness rule))" using rule by (simp_all add: normal_distinctness_def)
  ultimately show ?thesis by blast
qed

text \<open>C9. No one alone passes a team: under a profile of class team or high-assurance that
  decoding accepted, every authorized decision rests on two authenticated resolutions of
  different claims, each by a principal who approved in a role the profile maps that
  claim to.\<close>

theorem team_needs_two_principals:
  assumes "decode_profile h yaml cat raw = Inr p" "pf_class p \<in> {ClassTeam, ClassHighAssurance}"
    "authorize h p q = Inr d" "ad_state d = Authorized"
  shows "\<exists>r \<in> set (az_resolutions q). \<exists>s \<in> set (az_resolutions q).
    rs_state r = Authenticated \<and> rs_state s = Authenticated \<and> rs_claim r \<noteq> rs_claim s
    \<and> (\<exists>a \<in> set (az_approvals q). ap_principal a = derived_id r \<and> holds_role_in p (rs_claim r) (ap_role a))
    \<and> (\<exists>b \<in> set (az_approvals q). ap_principal b = derived_id s \<and> holds_role_in p (rs_claim s) (ap_role b))"
proof -
  have m: "requirements_met p q" using authorize_authorized[OF assms(3)] assms(4) by blast
  then have t: "az_transition q \<in> set (pf_transitions p)"
    and ap: "\<forall>a \<in> set (az_approvals q). approval_resolved p q a"
    unfolding requirements_met_def Let_def by blast+
  obtain rule where rule: "rule \<in> set (pf_distinctness p)" "dr_relation rule = DifferentPrincipal"
      "az_transition q \<in> set (dr_transitions rule)"
    using decoded_class_coverage[OF assms(1,2) t] by blast
  then have ne: "approving q (dr_left rule) \<noteq> {}" "approving q (dr_right rule) \<noteq> {}"
    and met: "relation_met (dr_relation rule) (approving q (dr_left rule)) (approving q (dr_right rule))"
    using m unfolding requirements_met_def Let_def by blast+
  have disj: "approving q (dr_left rule) \<inter> approving q (dr_right rule) = {}"
    using met rule(2) by (simp add: relation_met_def)
  obtain a b where ab: "a \<in> set (az_approvals q)" "ap_role a = dr_left rule" "b \<in> set (az_approvals q)"
      "ap_role b = dr_right rule" using ne by (auto simp: approving_def)
  then have "ap_principal a \<noteq> ap_principal b" using disj by (auto simp: approving_def)
  moreover obtain r s where "r \<in> set (az_resolutions q)" "derived_id r = ap_principal a" "rs_state r = Authenticated"
      "holds_role_in p (rs_claim r) (ap_role a)" "s \<in> set (az_resolutions q)" "derived_id s = ap_principal b"
      "rs_state s = Authenticated" "holds_role_in p (rs_claim s) (ap_role b)"
    using ap ab(1,3) unfolding approval_resolved_def by blast
  ultimately show ?thesis using ab(1,3) unfolding derived_id_def by metis
qed

section \<open>Two people accept\<close>

definition team_catalog :: catalog where
  "team_catalog =
     \<lparr>ct_roles = [''author'', ''reviewer''], ct_transitions = [''accept''], ct_evidence = [], ct_metrics = []\<rparr>"

definition team_doc :: profile_doc where
  "team_doc =
     \<lparr>pd_schema = Some schemaID, pd_id = Some ''p'', pd_class = Some ClassTeam, pd_transitions = Some [''accept''],
      pd_sources = Some [\<lparr>ts_id = ''forge'', ts_kind = TrustForge\<rparr>],
      pd_mappings = Some [\<lparr>rm_role = ''author'', rm_source = ''forge'', rm_subjects = [''ann'']\<rparr>,
                          \<lparr>rm_role = ''reviewer'', rm_source = ''forge'', rm_subjects = [''bob'']\<rparr>],
      pd_ownership = Some [], pd_signatures = Some [],
      pd_approvers = Some [\<lparr>aq_transitions = [''accept''], aq_roles = [''reviewer''], aq_minimum = 1\<rparr>],
      pd_distinctness = Some [\<lparr>dr_transitions = [''accept''], dr_left = ''author'', dr_right = ''reviewer'',
                               dr_relation = DifferentPrincipal\<rparr>],
      pd_evidence = Some [], pd_escalation = Some [], pd_template = None\<rparr>"

definition team_written :: profile where
  "team_written =
     \<lparr>pf_schema = schemaID, pf_id = ''p'', pf_class = ClassTeam, pf_transitions = [''accept''],
      pf_sources = [\<lparr>ts_id = ''forge'', ts_kind = TrustForge\<rparr>],
      pf_mappings = [\<lparr>rm_role = ''author'', rm_source = ''forge'', rm_subjects = [''ann'']\<rparr>,
                     \<lparr>rm_role = ''reviewer'', rm_source = ''forge'', rm_subjects = [''bob'']\<rparr>],
      pf_ownership = [], pf_signatures = [],
      pf_approvers = [\<lparr>aq_transitions = [''accept''], aq_roles = [''reviewer''], aq_minimum = 1\<rparr>],
      pf_distinctness = [\<lparr>dr_transitions = [''accept''], dr_left = ''author'', dr_right = ''reviewer'',
                          dr_relation = DifferentPrincipal\<rparr>],
      pf_evidence = [], pf_escalation = [], pf_template = None, pf_seal = ''''\<rparr>"

lemma team_doc_reads: "doc_to_profile team_doc = Inr team_written"
  by code_simp

lemma team_catalog_valid: "catalog_validate team_catalog = None"
  by code_simp

lemma team_valid: "profile_validate team_written team_catalog = None"
  by code_simp

lemma team_normal: "normalize_profile team_written = team_written"
  by (simp add: normalize_profile_def team_written_def sort_by_content_def normal_defs)

lemmas team_reads = team_doc_reads team_catalog_valid team_valid team_normal

definition team_profile :: "(string \<Rightarrow> string) \<Rightarrow> profile" where
  "team_profile h = team_written\<lparr>pf_seal := content_digest h team_written\<rparr>"

lemma team_decodes: "decode_profile h (\<lambda>raw. Inr team_doc) team_catalog raw = Inr (team_profile h)"
  unfolding decode_profile_Inr by (simp add: team_reads team_profile_def)

definition team_resolution :: "(string \<Rightarrow> string) \<Rightarrow> string \<Rightarrow> string \<Rightarrow> resolution" where
  "team_resolution h subject pid =
     resolved h (sample_claim subject) (Authenticated, pid,
       \<lparr>tw_code = ''trust-subject-verified'', tw_source = ''forge'', tw_digest = sample_digest, tw_detail = ''''\<rparr>)"

definition team_request :: "(string \<Rightarrow> string) \<Rightarrow> authorization_request" where
  "team_request h =
     \<lparr>az_transition = ''accept'', az_posture = Authoritative,
      az_resolutions = [team_resolution h ''ann'' ''principal/forge/YW5u'', team_resolution h ''bob'' ''principal/forge/Ym9i''],
      az_approvals = [\<lparr>ap_role = ''author'', ap_principal = ''principal/forge/YW5u''\<rparr>,
                      \<lparr>ap_role = ''reviewer'', ap_principal = ''principal/forge/Ym9i''\<rparr>],
      az_facts = [], az_evidence = [], az_metrics = []\<rparr>"

lemma team_ids:
  "canonical_principal_id ''forge'' ''ann'' = Inr ''principal/forge/YW5u''"
  "canonical_principal_id ''forge'' ''bob'' = Inr ''principal/forge/Ym9i''"
  by code_simp+

lemma team_resolution_ok:
  assumes "canonical_principal_id ''forge'' subject = Inr pid" "claim_validate (sample_claim subject) = None" "pid \<noteq> ''''"
  shows "resolution_record_validate h (team_resolution h subject pid) = None"
    "derived_id (team_resolution h subject pid) = pid" "rs_state (team_resolution h subject pid) = Authenticated"
    "rs_claim (team_resolution h subject pid) = sample_claim subject"
proof -
  have "canonical_principal_id (pc_source (sample_claim subject)) (pc_subject (sample_claim subject)) = Inr pid"
    using assms(1) by (simp add: sample_claim_def)
  then show "resolution_record_validate h (team_resolution h subject pid) = None"
    "derived_id (team_resolution h subject pid) = pid"
    using assms(2,3) by (simp_all add: resolution_record_validate_def derived_id_def team_resolution_def)
qed (simp_all add: team_resolution_def)

lemmas team_resolutions = team_resolution_ok[OF team_ids(1) sample_claim_ok(1), simplified]
  team_resolution_ok[OF team_ids(2) sample_claim_ok(2), simplified]

lemma team_approvals_ok:
  "valid_id ''author''" "valid_id ''reviewer''" "valid_id ''accept''"
  "principal_id_validate ''principal/forge/YW5u'' = None" "principal_id_validate ''principal/forge/Ym9i'' = None"
  by code_simp+

lemma team_authorize:
  "\<exists>d. authorize h (team_profile h) (team_request h) = Inr d"
  by (simp add: authorize_Inr team_profile_def team_request_def team_approvals_ok index_resolutions_def team_resolutions
      normalize_approvals_def index_rule_facts_def normalize_evidence_sources_def validate_escalation_metrics_def)

lemma approving_list:
  "approving q role = set (map ap_principal (filter (\<lambda>a. ap_role a = role) (az_approvals q)))"
  by (auto simp: approving_def)

lemma team_met: "requirements_met (team_profile h) (team_request h)"
  by (simp add: requirements_met_def Let_def team_profile_def team_written_def team_request_def approval_resolved_def
      team_resolutions holds_role_in_def sample_claim_def approving_list relation_met_def)

lemma authorized_exactly_when_met_witness:
  "\<exists>d. authorize (\<lambda>s. s) (team_profile (\<lambda>s. s)) (team_request (\<lambda>s. s)) = Inr d \<and> ad_state d = Authorized"
  using team_authorize[of "\<lambda>s. s"] authorized_exactly_when_met team_met by blast

lemma authorize_ignores_order_witness:
  "\<exists>d. authorize (\<lambda>s. s) (team_profile (\<lambda>s. s)) (team_request (\<lambda>s. s)) = Inr d
     \<and> authorize (\<lambda>s. s) (team_profile (\<lambda>s. s))
         ((team_request (\<lambda>s. s))\<lparr>az_approvals := rev (az_approvals (team_request (\<lambda>s. s)))\<rparr>) = Inr d"
proof -
  have "same_request (team_request (\<lambda>s. s)) ((team_request (\<lambda>s. s))\<lparr>az_approvals := rev (az_approvals (team_request (\<lambda>s. s)))\<rparr>)"
    by (simp add: same_request_def)
  then show ?thesis using team_authorize[of "\<lambda>s. s"] authorize_ignores_order by blast
qed

lemma team_needs_two_principals_witness:
  "\<exists>d r s. authorize (\<lambda>s. s) (team_profile (\<lambda>s. s)) (team_request (\<lambda>s. s)) = Inr d \<and> ad_state d = Authorized
     \<and> rs_claim r \<noteq> rs_claim s \<and> {r, s} \<subseteq> set (az_resolutions (team_request (\<lambda>s. s)))"
proof -
  obtain d where d: "authorize (\<lambda>s. s) (team_profile (\<lambda>s. s)) (team_request (\<lambda>s. s)) = Inr d" "ad_state d = Authorized"
    using team_authorize[of "\<lambda>s. s"] authorize_authorized team_met by blast
  have "pf_class (team_profile (\<lambda>s. s)) \<in> {ClassTeam, ClassHighAssurance}"
    by (simp add: team_profile_def team_written_def)
  from team_needs_two_principals[OF team_decodes this d] d show ?thesis by blast
qed

end
