(* ===== verification/Floats.thy ===== *)
theory Floats
  imports Prelude "HOL-Library.Log_Nat"
begin

text \<open>
  Go's \<^verbatim>\<open>float64\<close> on finite values: a rational, every operation rounded to nearest with
  ties to even at 53 bits of significand (or at the least subnormal exponent). Values
  beyond the largest double, which Go turns into an infinity, keep their 53 bits here, and no
  product is fused with a sum (some targets may).
\<close>

section \<open>Rounding\<close>

definition round_even :: "rat \<Rightarrow> int" where
  "round_even x =
     (let n = \<lfloor>x\<rfloor>; d = x - of_int n in
      if d < 1 / 2 then n else if d > 1 / 2 then n + 1 else if even n then n else n + 1)"

text \<open>The exponent of the leading binary digit of a positive rational.\<close>

definition flog2 :: "rat \<Rightarrow> int" where
  "flog2 x =
     (case quotient_of x of (p, q) \<Rightarrow>
        let k = bitlen p - bitlen q in if 2 powi k \<le> x then k else k - 1)"

definition ulp_exp :: "rat \<Rightarrow> int" where
  "ulp_exp x = max (flog2 x - 52) (- 1074)"

definition rnd_pos :: "rat \<Rightarrow> rat" where
  "rnd_pos x = of_int (round_even (x / 2 powi ulp_exp x)) * 2 powi ulp_exp x"

definition rnd :: "rat \<Rightarrow> rat" where
  "rnd x = (if x = 0 then 0 else if 0 < x then rnd_pos x else - rnd_pos (- x))"

definition fadd :: "rat \<Rightarrow> rat \<Rightarrow> rat" where "fadd x y = rnd (x + y)"
definition fsub :: "rat \<Rightarrow> rat \<Rightarrow> rat" where "fsub x y = rnd (x - y)"
definition fmul :: "rat \<Rightarrow> rat \<Rightarrow> rat" where "fmul x y = rnd (x * y)"
definition fdiv :: "rat \<Rightarrow> rat \<Rightarrow> rat" where "fdiv x y = rnd (x / y)"

section \<open>Rounding is monotone and keeps what it can represent\<close>

lemma round_even_near: "\<bar>of_int (round_even x) - x\<bar> \<le> 1 / 2"
  using floor_correct[of x] by (auto simp: round_even_def Let_def abs_le_iff field_simps)

lemma round_even_ge: "of_int n \<le> x \<Longrightarrow> n \<le> round_even x"
  unfolding le_floor_iff[symmetric] by (auto simp: round_even_def Let_def)

lemma round_even_le: "x \<le> of_int n \<Longrightarrow> round_even x \<le> n"
proof -
  assume x: "x \<le> of_int n"
  show ?thesis
  proof (cases "\<lfloor>x\<rfloor> = n")
    case True
    then have "x - of_int \<lfloor>x\<rfloor> \<le> 0" using x by simp
    then show ?thesis using True by (simp add: round_even_def Let_def)
  next
    case False
    then have "\<lfloor>x\<rfloor> < n" using x by (metis floor_mono floor_of_int order_le_imp_less_or_eq)
    then show ?thesis by (auto simp: round_even_def Let_def)
  qed
qed

lemma round_even_int [simp]: "round_even (of_int n) = n"
  by (rule antisym[OF round_even_le round_even_ge]) simp_all

lemma round_even_mono: "x \<le> y \<Longrightarrow> round_even x \<le> round_even y"
proof -
  assume xy: "x \<le> y"
  show ?thesis
  proof (cases "\<lfloor>x\<rfloor> = \<lfloor>y\<rfloor>")
    case True
    then show ?thesis using xy by (auto simp: round_even_def Let_def)
  next
    case False
    then have "\<lfloor>x\<rfloor> + 1 \<le> \<lfloor>y\<rfloor>" using floor_mono[OF xy] by linarith
    moreover have "round_even x \<le> \<lfloor>x\<rfloor> + 1" by (simp add: round_even_def Let_def)
    moreover have "\<lfloor>y\<rfloor> \<le> round_even y" by (simp add: round_even_def Let_def)
    ultimately show ?thesis by linarith
  qed
qed

lemma bitlen_power:
  assumes "0 < p"
  shows "(2 :: rat) powi (bitlen p - 1) \<le> of_int p" "of_int p < (2 :: rat) powi bitlen p"
proof -
  have b: "1 \<le> bitlen p" "2 ^ nat (bitlen p - 1) \<le> p" "p < 2 ^ nat (bitlen p)"
    using bitlen_bounds[OF assms] bitlen_nonneg[of p] assms by (auto simp: bitlen_def floorlog_def)
  have "(2 :: rat) powi (bitlen p - 1) = of_int (2 ^ nat (bitlen p - 1))" using b(1) by (simp add: power_int_def)
  then show "(2 :: rat) powi (bitlen p - 1) \<le> of_int p" using b(2) by (simp only: of_int_le_iff)
  have "(2 :: rat) powi bitlen p = of_int (2 ^ nat (bitlen p))" using b(1) by (simp add: power_int_def)
  then show "of_int p < (2 :: rat) powi bitlen p" using b(3) by (simp only: of_int_less_iff)
qed

lemma flog2_bounds:
  assumes "0 < x"
  shows "2 powi flog2 x \<le> x" "x < 2 powi (flog2 x + 1)"
proof -
  obtain p q where pq: "quotient_of x = (p, q)" by fastforce
  have q: "0 < q" using quotient_of_denom_pos[OF pq] .
  have x: "x = of_int p / of_int q" using quotient_of_div[OF pq] .
  have p: "0 < p" using assms q unfolding x by (simp add: zero_less_divide_iff)
  note bp = bitlen_power[OF p] and bq = bitlen_power[OF q]
  have lo: "2 powi (bitlen p - bitlen q - 1) \<le> x"
  proof -
    have "(2 :: rat) powi (bitlen p - bitlen q - 1) * of_int q \<le> 2 powi (bitlen p - bitlen q - 1) * 2 powi bitlen q"
      by (rule mult_left_mono) (use bq in simp_all)
    also have "\<dots> = 2 powi (bitlen p - 1)" by (simp flip: power_int_add)
    also have "\<dots> \<le> of_int p" by (rule bp(1))
    finally show ?thesis unfolding x using q by (simp add: pos_le_divide_eq)
  qed
  have hi: "x < 2 powi (bitlen p - bitlen q + 1)"
  proof -
    have "of_int p < (2 :: rat) powi bitlen p" by (rule bp(2))
    also have "\<dots> = 2 powi (bitlen p - bitlen q + 1) * 2 powi (bitlen q - 1)" by (simp flip: power_int_add)
    also have "\<dots> \<le> 2 powi (bitlen p - bitlen q + 1) * of_int q"
      by (rule mult_left_mono) (use bq in simp_all)
    finally show ?thesis unfolding x using q by (simp add: pos_divide_less_eq)
  qed
  show "2 powi flog2 x \<le> x" "x < 2 powi (flog2 x + 1)"
    using lo hi by (auto simp: flog2_def pq Let_def)
qed

lemma powi_less_iff: "(2 :: rat) powi a < 2 powi b \<longleftrightarrow> a < b"
  using power_int_strict_increasing[of a b "2 :: rat"] power_int_increasing[of b a "2 :: rat"] by (auto simp: not_less[symmetric])

lemma flog2_mono: "0 < x \<Longrightarrow> x \<le> y \<Longrightarrow> flog2 x \<le> flog2 y"
proof -
  assume "0 < x" "x \<le> y"
  then have "(2 :: rat) powi flog2 x < 2 powi (flog2 y + 1)"
    using flog2_bounds[of x] flog2_bounds[of y] by linarith
  then show ?thesis unfolding powi_less_iff by simp
qed

lemma powi_le: "a \<le> b \<Longrightarrow> (2 :: rat) powi a \<le> 2 powi b"
  by (simp add: power_int_increasing)

lemma powi_pos: "0 < (2 :: rat) powi a"
  by simp

lemma ulp_exp_mono: "0 < x \<Longrightarrow> x \<le> y \<Longrightarrow> ulp_exp x \<le> ulp_exp y"
  using flog2_mono[of x y] by (simp add: ulp_exp_def)

lemma powi_int:
  assumes "0 \<le> k"
  shows "(2 :: rat) powi k = of_int (2 ^ nat k)"
  using assms by (simp add: power_int_def)

text \<open>A bound that is a multiple of the exponent at hand survives rounding.\<close>

lemma rnd_pos_le:
  assumes "x \<le> of_int n * 2 powi ulp_exp x"
  shows "rnd_pos x \<le> of_int n * 2 powi ulp_exp x"
proof -
  have "x / 2 powi ulp_exp x \<le> of_int n" using assms by (simp add: pos_divide_le_eq)
  then have "round_even (x / 2 powi ulp_exp x) \<le> n" by (rule round_even_le)
  then show ?thesis by (simp add: rnd_pos_def mult_right_mono)
qed

lemma rnd_pos_ge:
  assumes "of_int n * 2 powi ulp_exp x \<le> x"
  shows "of_int n * 2 powi ulp_exp x \<le> rnd_pos x"
proof -
  have "of_int n \<le> x / 2 powi ulp_exp x" using assms by (simp add: pos_le_divide_eq)
  then have "n \<le> round_even (x / 2 powi ulp_exp x)" by (rule round_even_ge)
  then show ?thesis by (simp add: rnd_pos_def mult_right_mono)
qed

lemma rnd_pos_nonneg: "0 < x \<Longrightarrow> 0 \<le> rnd_pos x"
  using rnd_pos_ge[of 0 x] by simp

lemma rnd_pos_mono:
  assumes "0 < x" "x \<le> y"
  shows "rnd_pos x \<le> rnd_pos y"
proof (cases "ulp_exp x = ulp_exp y")
  case True
  have "x / 2 powi ulp_exp y \<le> y / 2 powi ulp_exp y" using assms(2) by (simp add: divide_right_mono)
  then have "round_even (x / 2 powi ulp_exp y) \<le> round_even (y / 2 powi ulp_exp y)" by (rule round_even_mono)
  then show ?thesis by (simp add: rnd_pos_def True mult_right_mono)
next
  case False
  then have e: "ulp_exp x < ulp_exp y" using ulp_exp_mono[OF assms] by simp
  then have fy: "ulp_exp y = flog2 y - 52" and fx: "flog2 x < ulp_exp y + 52"
    by (auto simp: ulp_exp_def max_def split: if_splits)
  have y: "0 < y" using assms by linarith
  let ?b = "(2 :: rat) powi (ulp_exp y + 52)"
  have top: "?b = of_int (2 ^ 52) * 2 powi ulp_exp y" by (simp add: power_int_add)
  have "?b \<le> y" using flog2_bounds(1)[OF y] by (simp add: fy)
  then have "?b \<le> rnd_pos y" unfolding top by (rule rnd_pos_ge)
  moreover have "rnd_pos x \<le> ?b"
  proof -
    have b: "?b = of_int (2 ^ nat (ulp_exp y + 52 - ulp_exp x)) * 2 powi ulp_exp x"
      using e by (subst powi_int[symmetric]) (simp_all flip: power_int_add)
    have "x < 2 powi (flog2 x + 1)" by (rule flog2_bounds(2)[OF assms(1)])
    also have "\<dots> \<le> ?b" by (rule powi_le) (use fx in simp)
    finally have "x \<le> ?b" by simp
    then show ?thesis unfolding b by (rule rnd_pos_le)
  qed
  ultimately show ?thesis by linarith
qed

lemma rnd_mono: "x \<le> y \<Longrightarrow> rnd x \<le> rnd y"
proof -
  assume xy: "x \<le> y"
  consider "0 < x" | "x \<le> 0" "0 \<le> y" | "y < 0" by linarith
  then show ?thesis
  proof cases
    case 1
    then show ?thesis using rnd_pos_mono[OF _ xy] xy by (simp add: rnd_def)
  next
    case 2
    have "rnd x \<le> 0" using rnd_pos_nonneg[of "- x"] 2(1) by (auto simp: rnd_def)
    moreover have "0 \<le> rnd y" using rnd_pos_nonneg[of y] 2(2) by (auto simp: rnd_def)
    ultimately show ?thesis by linarith
  next
    case 3
    then show ?thesis using rnd_pos_mono[of "- y" "- x"] xy by (simp add: rnd_def)
  qed
qed

lemma rnd_0 [simp]: "rnd 0 = 0"
  by (simp add: rnd_def)

lemma rnd_minus: "rnd (- x) = - rnd x"
  by (simp add: rnd_def)

lemma rnd_powi_multiple:
  assumes "0 < n" "n < 2 ^ 53" "- 1074 \<le> e"
  shows "rnd_pos (of_int n * 2 powi e) = of_int n * 2 powi e"
proof -
  let ?x = "of_int n * (2 :: rat) powi e"
  have pos: "0 < ?x" using assms(1) by simp
  have "(2 :: rat) powi flog2 ?x < 2 powi (e + 53)"
  proof -
    have "(2 :: rat) powi flog2 ?x \<le> ?x" by (rule flog2_bounds(1)[OF pos])
    also have "?x < of_int (2 ^ 53) * 2 powi e" using assms(2) by (intro mult_strict_right_mono) (simp_all only: of_int_less_iff powi_pos)
    also have "\<dots> = 2 powi (e + 53)" by (simp add: power_int_add)
    finally show ?thesis .
  qed
  then have u: "ulp_exp ?x \<le> e" unfolding powi_less_iff using assms(3) by (simp add: ulp_exp_def)
  then have "(2 :: rat) powi e = of_int (2 ^ nat (e - ulp_exp ?x)) * 2 powi ulp_exp ?x"
    by (subst powi_int[symmetric]) (simp_all flip: power_int_add)
  then have x: "?x = of_int (n * 2 ^ nat (e - ulp_exp ?x)) * 2 powi ulp_exp ?x" by simp
  then have "?x / 2 powi ulp_exp ?x = of_int (n * 2 ^ nat (e - ulp_exp ?x))"
    by (metis nonzero_mult_div_cancel_right power_int_not_zero zero_neq_numeral)
  then have "rnd_pos ?x = of_int (n * 2 ^ nat (e - ulp_exp ?x)) * 2 powi ulp_exp ?x"
    by (simp only: rnd_pos_def round_even_int)
  then show ?thesis by (simp only: x[symmetric])
qed

text \<open>Rounding moves a value by at most half a unit in its last place.\<close>

lemma rnd_pos_near: "\<bar>rnd_pos x - x\<bar> \<le> 2 powi ulp_exp x / 2"
proof -
  let ?u = "(2 :: rat) powi ulp_exp x"
  have "rnd_pos x - x = (of_int (round_even (x / ?u)) - x / ?u) * ?u"
    by (simp add: rnd_pos_def left_diff_distrib)
  then have "\<bar>rnd_pos x - x\<bar> = \<bar>of_int (round_even (x / ?u)) - x / ?u\<bar> * ?u" by (simp add: abs_mult)
  also have "\<dots> \<le> 1 / 2 * ?u" by (rule mult_right_mono[OF round_even_near]) simp
  finally show ?thesis by simp
qed

lemma rnd_near:
  assumes "\<bar>x\<bar> < 2 powi (k + 1)" "- 1022 \<le> k"
  shows "\<bar>rnd x - x\<bar> \<le> 2 powi (k - 52) / 2"
proof -
  have pos: "\<bar>rnd_pos y - y\<bar> \<le> 2 powi (k - 52) / 2" if "0 < y" "y < 2 powi (k + 1)" for y
  proof -
    have "(2 :: rat) powi flog2 y < 2 powi (k + 1)" using flog2_bounds(1)[OF that(1)] that(2) by linarith
    then have "ulp_exp y \<le> k - 52" unfolding powi_less_iff using assms(2) by (simp add: ulp_exp_def)
    then have "(2 :: rat) powi ulp_exp y \<le> 2 powi (k - 52)" by (rule powi_le)
    then show ?thesis using rnd_pos_near[of y] by linarith
  qed
  consider "x = 0" | "0 < x" | "x < 0" by linarith
  then show ?thesis
  proof cases
    case 3
    then have "\<bar>rnd_pos (- x) - (- x)\<bar> \<le> 2 powi (k - 52) / 2" using assms(1) by (intro pos) simp_all
    then show ?thesis using 3 by (simp add: rnd_def abs_minus_commute add.commute)
  qed (use pos[of x] assms(1) in \<open>simp_all add: rnd_def\<close>)
qed

text \<open>Integers of at most 53 bits, and powers of two, are exact.\<close>

lemma rnd_int:
  assumes "\<bar>n\<bar> < 2 ^ 53"
  shows "rnd (of_int n) = of_int n"
proof -
  have pos: "rnd_pos (of_int m) = of_int m" if "0 < m" "m < 2 ^ 53" for m
    using rnd_powi_multiple[of m 0] that by simp
  show ?thesis
    using pos[of n] pos[of "- n"] assms by (cases n "0 :: int" rule: linorder_cases) (simp_all add: rnd_def)
qed

lemma rnd_two_power: "rnd (2 ^ k) = 2 ^ k"
  using rnd_powi_multiple[of 1 "int k"] by (simp add: rnd_def power_int_def)

definition is_double :: "rat \<Rightarrow> bool" where
  "is_double x \<longleftrightarrow> rnd x = x"

lemma rnd_le: "x \<le> y \<Longrightarrow> is_double y \<Longrightarrow> rnd x \<le> y"
  using rnd_mono[of x y] by (simp add: is_double_def)

lemma rnd_ge: "y \<le> x \<Longrightarrow> is_double y \<Longrightarrow> y \<le> rnd x"
  using rnd_mono[of y x] by (simp add: is_double_def)

lemma is_double_int [intro]: "\<bar>n\<bar> < 2 ^ 53 \<Longrightarrow> is_double (of_int n)"
  by (simp add: is_double_def rnd_int)

lemma is_double_0 [simp]: "is_double 0"
  by (simp add: is_double_def)

lemma is_double_1 [simp]: "is_double 1"
  using is_double_int[of 1] by simp

end
