(* ===== verification/Layout.thy ===== *)
theory Layout
  imports Refs Floats "HOL-Library.Product_Lexorder" "HOL-Library.Multiset"
begin

text \<open>
  The board layout (internal/boardlayout: layout.go, display.go, resolve.go; the sidecar
  record of internal/artifact/boardlayout.go). Cards without a stored position take the
  next free slot of their zone's column, stored positions are kept as they are, and for
  display a colliding stored card slides to a free place.

  Coordinates are \<^verbatim>\<open>float64\<close> (\<open>Floats\<close>). The Go map of stored positions is an
  association list with distinct keys, its iteration order an argument. A slot is a
  natural number, where Go counts in an int; the bound proved here (\<open>reach\<close>) is only that the search
  ends, and is beyond the range of an int for cards stored far away. Squared distances
  keep an unbounded exponent, where Go's overflow to infinity past about 1e154.
\<close>

section \<open>Zones, objects and rectangles\<close>

datatype board_zone =
    ZoneAC | ZoneConstraint | ZoneDecision | ZoneOpenQuestion | ZoneStub | ZoneReference | ZoneScratch | ZoneUnknown string

definition zoneOrder :: "board_zone list" where
  "zoneOrder = [ZoneAC, ZoneConstraint, ZoneDecision, ZoneOpenQuestion, ZoneStub, ZoneReference]"

fun zone_index :: "board_zone \<Rightarrow> nat option" where
  "zone_index ZoneAC = Some 0"
| "zone_index ZoneConstraint = Some 1"
| "zone_index ZoneDecision = Some 2"
| "zone_index ZoneOpenQuestion = Some 3"
| "zone_index ZoneStub = Some 4"
| "zone_index ZoneReference = Some 5"
| "zone_index _ = None"

record board_position =
  bp_x :: rat
  bp_y :: rat

record board_object =
  ob_kind :: board_zone
  ob_id :: string
  ob_order :: int
  ob_height :: rat

record rect =
  rc_x :: rat
  rc_y :: rat
  rc_w :: rat
  rc_h :: rat

definition cardWidth :: int where "cardWidth = 200"
definition cardHeight :: int where "cardHeight = 140"
definition refCardHeight :: int where "refCardHeight = 72"
definition stubCardHeight :: int where "stubCardHeight = cardHeight"
definition zoneOriginY :: int where "zoneOriginY = 40"
definition rowPitch :: int where "rowPitch = cardHeight + 36"
definition zoneMarginX :: int where "zoneMarginX = 40"
definition zonePitchX :: int where "zonePitchX = cardWidth + 28"

definition footprint_for :: "board_zone \<Rightarrow> rat \<times> rat" where
  "footprint_for k =
     (if k = ZoneReference then (of_int cardWidth, of_int refCardHeight)
      else if k = ZoneStub then (of_int cardWidth, of_int stubCardHeight)
      else (of_int cardWidth, of_int cardHeight))"

definition footprint :: "board_object \<Rightarrow> rat \<times> rat" where
  "footprint b = (case footprint_for (ob_kind b) of (w, h) \<Rightarrow> (w, if ob_height b > h then ob_height b else h))"

definition intersects :: "rect \<Rightarrow> rect \<Rightarrow> bool" where
  "intersects r s \<longleftrightarrow>
     rc_x r < fadd (rc_x s) (rc_w s) \<and> rc_x s < fadd (rc_x r) (rc_w r)
     \<and> rc_y r < fadd (rc_y s) (rc_h s) \<and> rc_y s < fadd (rc_y r) (rc_h r)"

definition rect_at :: "board_position \<Rightarrow> rat \<times> rat \<Rightarrow> rect" where
  "rect_at p wh = \<lparr>rc_x = bp_x p, rc_y = bp_y p, rc_w = fst wh, rc_h = snd wh\<rparr>"

definition overlaps :: "rect list \<Rightarrow> rect \<Rightarrow> bool" where
  "overlaps occupied r \<longleftrightarrow> list_ex (intersects r) occupied"

definition canonical_key :: "board_object \<Rightarrow> nat \<times> int \<times> string" where
  "canonical_key b = (case zone_index (ob_kind b) of None \<Rightarrow> 0 | Some i \<Rightarrow> i, ob_order b, ob_id b)"

section \<open>Slots\<close>

definition grid_position :: "int \<Rightarrow> nat \<Rightarrow> board_position" where
  "grid_position x slot = \<lparr>bp_x = rnd (of_int x), bp_y = rnd (of_int (zoneOriginY + int slot * rowPitch))\<rparr>"

definition zone_x :: "nat \<Rightarrow> int" where
  "zone_x zi = zoneMarginX + int zi * zonePitchX"

text \<open>Beyond \<open>reach\<close> rows everything occupied is above.\<close>

definition reach :: "rect list \<Rightarrow> nat" where
  "reach occupied = sum_list (map (\<lambda>r. 2 ^ nat \<lceil>fadd (rc_y r) (rc_h r)\<rceil>) occupied)"

lemma rat_less_two_power: "(x :: rat) < 2 ^ nat \<lceil>x\<rceil>"
proof -
  have "x \<le> of_nat (nat \<lceil>x\<rceil>)" by linarith
  also have "(of_nat (nat \<lceil>x\<rceil>) :: rat) < of_nat (2 ^ nat \<lceil>x\<rceil>)" by (simp only: of_nat_less_iff less_exp)
  finally show ?thesis by simp
qed

lemma row_below_reach:
  assumes "r \<in> set occupied" "bp_y (grid_position x slot) < fadd (rc_y r) (rc_h r)"
  shows "slot < reach occupied"
proof (rule ccontr)
  let ?k = "nat \<lceil>fadd (rc_y r) (rc_h r)\<rceil>"
  assume "\<not> slot < reach occupied"
  moreover have "(2 :: nat) ^ ?k \<le> reach occupied"
    unfolding reach_def by (rule member_le_sum_list) (use assms(1) in auto)
  ultimately have s: "2 ^ ?k \<le> slot" by linarith
  then have "(2 :: int) ^ ?k \<le> int slot" by (metis of_nat_le_iff of_nat_numeral of_nat_power)
  also have "int slot \<le> zoneOriginY + int slot * rowPitch"
    by (simp add: zoneOriginY_def rowPitch_def cardHeight_def)
  finally have "(2 :: int) ^ ?k \<le> zoneOriginY + int slot * rowPitch" .
  then have "(of_int (2 ^ ?k) :: rat) \<le> of_int (zoneOriginY + int slot * rowPitch)" by (simp only: of_int_le_iff)
  then have "rnd (2 ^ ?k) \<le> bp_y (grid_position x slot)" by (simp add: grid_position_def rnd_mono)
  then show False using assms(2) rat_less_two_power[of "fadd (rc_y r) (rc_h r)"] by (simp add: rnd_two_power)
qed

function slot_from :: "rect list \<Rightarrow> rat \<times> rat \<Rightarrow> int \<Rightarrow> nat \<Rightarrow> nat" where
  "slot_from occupied wh x next =
     (if overlaps occupied (rect_at (grid_position x next) wh) then slot_from occupied wh x (Suc next) else next)"
  by pat_completeness auto
termination
proof (relation "measure (\<lambda>(occupied, wh, x, next). reach occupied - next)")
  fix occupied wh x "next"
  assume "overlaps occupied (rect_at (grid_position x next) wh)"
  then obtain r where "r \<in> set occupied" "bp_y (grid_position x next) < fadd (rc_y r) (rc_h r)"
    by (auto simp: overlaps_def list_ex_iff intersects_def rect_at_def)
  then have "next < reach occupied" by (rule row_below_reach)
  then show "((occupied, wh, x, Suc next), occupied, wh, x, next) \<in> measure (\<lambda>(occupied, wh, x, next). reach occupied - next)"
    by simp
qed simp

declare slot_from.simps [simp del]

section \<open>Generation\<close>

datatype layout_error = UnknownKind board_zone string

text \<open>\<^verbatim>\<open>byID\<close>: of objects with one id, the last.\<close>

definition by_id :: "board_object list \<Rightarrow> string \<Rightarrow> board_object option" where
  "by_id objects i = find (\<lambda>b. ob_id b = i) (rev objects)"

definition claim_rect :: "board_object list \<Rightarrow> string \<Rightarrow> board_position \<Rightarrow> rect" where
  "claim_rect objects i p =
     rect_at p (case by_id objects i of None \<Rightarrow> footprint_for (ZoneUnknown '''') | Some b \<Rightarrow> footprint b)"

type_synonym placed = "(string \<rightharpoonup> board_position) \<times> rect list"

fun place_bucket ::
  "board_object list \<Rightarrow> (string \<times> board_position) list \<Rightarrow> int \<Rightarrow> nat \<Rightarrow> board_object list \<Rightarrow> placed \<Rightarrow> placed" where
  "place_bucket objects stored x next [] st = st"
| "place_bucket objects stored x next (b # bs) (out, occupied) =
     (case map_of stored (ob_id b) of
        Some p \<Rightarrow> place_bucket objects stored x next bs (out(ob_id b \<mapsto> p), occupied)
      | None \<Rightarrow>
          (let slot = slot_from occupied (footprint b) x next; p = grid_position x slot in
           place_bucket objects stored x (Suc slot) bs
             (out(ob_id b \<mapsto> p), occupied @ [claim_rect objects (ob_id b) p])))"

definition bucket :: "board_object list \<Rightarrow> nat \<Rightarrow> board_object list" where
  "bucket objects zi = sort_key canonical_key (filter (\<lambda>b. zone_index (ob_kind b) = Some zi) objects)"

definition place_zone ::
  "board_object list \<Rightarrow> (string \<times> board_position) list \<Rightarrow> nat \<Rightarrow> placed \<Rightarrow> placed" where
  "place_zone objects stored zi st = place_bucket objects stored (zone_x zi) 0 (bucket objects zi) st"

definition stored_claims :: "board_object list \<Rightarrow> (string \<times> board_position) list \<Rightarrow> rect list" where
  "stored_claims objects stored =
     map (\<lambda>(i, p). claim_rect objects i p) (filter (\<lambda>(i, p). i \<in> ob_id ` set objects) stored)"

definition unknown_kind :: "board_object list \<Rightarrow> layout_error option" where
  "unknown_kind objects =
     map_option (\<lambda>b. UnknownKind (ob_kind b) (ob_id b)) (find (\<lambda>b. zone_index (ob_kind b) = None) objects)"

definition generate ::
  "board_object list \<Rightarrow> (string \<times> board_position) list \<Rightarrow> layout_error + (string \<rightharpoonup> board_position)" where
  "generate objects stored =
     (case unknown_kind objects of
        Some e \<Rightarrow> Inl e
      | None \<Rightarrow>
          Inr (fst (fold (place_zone objects stored) [0 ..< length zoneOrder] (Map.empty, stored_claims objects stored))))"

section \<open>Dropping a card\<close>

definition dropClearance :: rat where "dropClearance = 12"

definition sq :: "rat \<Rightarrow> rat" where "sq v = fmul v v"

definition clamp :: "board_position \<Rightarrow> board_position" where
  "clamp p = \<lparr>bp_x = (if bp_x p < 0 then 0 else bp_x p), bp_y = (if bp_y p < 0 then 0 else bp_y p)\<rparr>"

definition is_free :: "rect list \<Rightarrow> rat \<times> rat \<Rightarrow> board_position \<Rightarrow> bool" where
  "is_free obstacles wh p \<longleftrightarrow> \<not> overlaps obstacles (rect_at p wh)"

definition slide_outs :: "board_position \<Rightarrow> rat \<times> rat \<Rightarrow> rect \<Rightarrow> board_position list" where
  "slide_outs p wh r =
     [\<lparr>bp_x = fsub (fsub (rc_x r) (fst wh)) dropClearance, bp_y = bp_y p\<rparr>,
      \<lparr>bp_x = fadd (fadd (rc_x r) (rc_w r)) dropClearance, bp_y = bp_y p\<rparr>,
      \<lparr>bp_x = bp_x p, bp_y = fsub (fsub (rc_y r) (snd wh)) dropClearance\<rparr>,
      \<lparr>bp_x = bp_x p, bp_y = fadd (fadd (rc_y r) (rc_h r)) dropClearance\<rparr>]"

definition drop_key :: "board_position \<Rightarrow> board_position \<Rightarrow> rat \<times> rat \<times> rat" where
  "drop_key p c = (fadd (sq (fsub (bp_x c) (bp_x p))) (sq (fsub (bp_y c) (bp_y p))), bp_y c, bp_x c)"

definition drop_candidates :: "board_position \<Rightarrow> rat \<times> rat \<Rightarrow> rect list \<Rightarrow> board_position list" where
  "drop_candidates p wh obstacles =
     filter (is_free obstacles wh) (map clamp (concat (map (slide_outs p wh) obstacles)))"

function drop_fallback :: "rect list \<Rightarrow> rat \<times> rat \<Rightarrow> nat \<Rightarrow> board_position" where
  "drop_fallback obstacles wh row =
     (case find (is_free obstacles wh) (map (\<lambda>col. grid_position (zone_x col) row) [0 ..< length zoneOrder]) of
        Some p \<Rightarrow> p
      | None \<Rightarrow> drop_fallback obstacles wh (Suc row))"
  by pat_completeness auto
termination
proof (relation "measure (\<lambda>(obstacles, wh, row). reach obstacles - row)")
  fix obstacles wh row
  assume "find (is_free obstacles wh) (map (\<lambda>col. grid_position (zone_x col) row) [0 ..< length zoneOrder]) = None"
  then have "\<not> is_free obstacles wh (grid_position (zone_x 0) row)"
    by (auto simp: find_None_iff zoneOrder_def)
  then obtain r where "r \<in> set obstacles" "bp_y (grid_position (zone_x 0) row) < fadd (rc_y r) (rc_h r)"
    by (auto simp: is_free_def overlaps_def list_ex_iff intersects_def rect_at_def)
  then have "row < reach obstacles" by (rule row_below_reach)
  then show "((obstacles, wh, Suc row), obstacles, wh, row) \<in> measure (\<lambda>(obstacles, wh, row). reach obstacles - row)"
    by simp
qed simp

declare drop_fallback.simps [simp del]

definition resolve_drop :: "board_position \<Rightarrow> rat \<times> rat \<Rightarrow> rect list \<Rightarrow> board_position" where
  "resolve_drop p0 wh obstacles =
     (let p = clamp p0 in
      if is_free obstacles wh p then p
      else
        (case sort_key (drop_key p) (drop_candidates p wh obstacles) of
           c # _ \<Rightarrow> c
         | [] \<Rightarrow> drop_fallback obstacles wh 0))"

section \<open>Display\<close>

fun resolve_stored ::
  "(string \<times> board_position) list \<Rightarrow> board_object list \<Rightarrow> rect list \<Rightarrow> (string \<times> board_position) list" where
  "resolve_stored stored [] claimed = []"
| "resolve_stored stored (b # bs) claimed =
     (let p0 = the (map_of stored (ob_id b));
          p = (if overlaps claimed (rect_at p0 (footprint b)) then resolve_drop p0 (footprint b) claimed else p0) in
      (ob_id b, p) # resolve_stored stored bs (claimed @ [rect_at p (footprint b)]))"

text \<open>A later entry of one id replaces an earlier one, as in the Go map.\<close>

definition resolve_display_overlaps ::
  "board_object list \<Rightarrow> (string \<times> board_position) list \<Rightarrow> layout_error + (string \<rightharpoonup> board_position)" where
  "resolve_display_overlaps objects stored =
     (case unknown_kind objects of
        Some e \<Rightarrow> Inl e
      | None \<Rightarrow>
          (let with_stored = filter (\<lambda>b. map_of stored (ob_id b) \<noteq> None) objects in
           generate objects (rev (resolve_stored stored (sort_key canonical_key with_stored) []))))"

definition prune :: "(string \<times> board_position) list \<Rightarrow> (string \<Rightarrow> bool) \<Rightarrow> (string \<times> board_position) list" where
  "prune stored live = filter (\<lambda>(i, p). live i) stored"

section \<open>The sidecar record\<close>

record board_layout =
  bl_schema :: string
  bl_positions :: "(string \<times> board_position) list"

datatype layout_file_error = LayoutSchema string | LayoutKey string

definition boardLayoutSchema :: string where
  "boardLayoutSchema = ''verdi.boardlayout/v1''"

definition stubPositionKeyRe :: rx where
  "stubPositionKeyRe = Cat (Lit ''stub:'') nameSegment"

definition board_layout_validate :: "board_layout \<Rightarrow> layout_file_error option" where
  "board_layout_validate bl =
     (if bl_schema bl \<noteq> boardLayoutSchema then Some (LayoutSchema (bl_schema bl))
      else
        map_option LayoutKey
          (find (\<lambda>k. \<not> (rx_match objectIDRe k \<or> rx_match stubPositionKeyRe k)) (map fst (bl_positions bl))))"

section \<open>The search for a slot\<close>

lemma intersects_sym: "intersects r s \<longleftrightarrow> intersects s r"
  by (auto simp: intersects_def)

lemma overlaps_iff: "overlaps occupied r \<longleftrightarrow> (\<exists>s \<in> set occupied. intersects r s)"
  by (simp add: overlaps_def list_ex_iff)

lemma overlaps_reach:
  assumes "overlaps occupied (rect_at (grid_position x slot) wh)"
  shows "slot < reach occupied"
proof -
  obtain r where "r \<in> set occupied" "bp_y (grid_position x slot) < fadd (rc_y r) (rc_h r)"
    using assms by (auto simp: overlaps_iff intersects_def rect_at_def)
  then show ?thesis by (rule row_below_reach)
qed

lemma slot_from_least:
  "next \<le> slot_from occupied wh x next
    \<and> \<not> overlaps occupied (rect_at (grid_position x (slot_from occupied wh x next)) wh)
    \<and> (\<forall>k. next \<le> k \<and> k < slot_from occupied wh x next \<longrightarrow> overlaps occupied (rect_at (grid_position x k) wh))"
proof (induction occupied wh x "next" rule: slot_from.induct)
  case (1 occupied wh x "next")
  show ?case
  proof (cases "overlaps occupied (rect_at (grid_position x next) wh)")
    case True
    then have eq: "slot_from occupied wh x next = slot_from occupied wh x (Suc next)" by (simp add: slot_from.simps[of _ _ _ "next"])
    show ?thesis unfolding eq using 1[OF True] True by (metis Suc_leD le_neq_implies_less Suc_leI)
  next
    case False
    then have "slot_from occupied wh x next = next" by (simp add: slot_from.simps[of _ _ _ "next"])
    then show ?thesis using False by auto
  qed
qed

lemma slot_from_bound: "slot_from occupied wh x next \<le> max next (reach occupied)"
proof (cases "slot_from occupied wh x next = next")
  case False
  then have k: "next \<le> slot_from occupied wh x next - 1" "slot_from occupied wh x next - 1 < slot_from occupied wh x next"
    using slot_from_least[of "next" occupied wh x] by linarith+
  then have "overlaps occupied (rect_at (grid_position x (slot_from occupied wh x next - 1)) wh)"
    using slot_from_least[of "next" occupied wh x] by blast
  then have "slot_from occupied wh x next - 1 < reach occupied" by (rule overlaps_reach)
  then show ?thesis by linarith
qed simp

text \<open>C33. The search for a place ends, and takes the first one: however the stored cards
  lie (their coordinates may be any doubles) the slot found is free, no earlier slot from
  the one tried first was, and it lies within the rows the occupied rectangles can reach.\<close>

theorem slot_search_finds_first:
  "\<exists>slot. slot_from occupied wh x next = slot \<and> next \<le> slot \<and> slot \<le> max next (reach occupied)
    \<and> is_free occupied wh (grid_position x slot)
    \<and> (\<forall>k \<in> {next ..< slot}. \<not> is_free occupied wh (grid_position x k))"
  using slot_from_least[of "next" occupied wh x] slot_from_bound[of occupied wh x "next"]
  by (auto simp: is_free_def)

lemma slot_from_agree:
  assumes "\<And>n. overlaps occupied (rect_at (grid_position x n) wh) \<longleftrightarrow> overlaps occupied' (rect_at (grid_position x n) wh)"
  shows "slot_from occupied wh x next = slot_from occupied' wh x next"
proof (rule antisym)
  have *: "slot_from a wh x next \<le> slot_from b wh x next"
    if "\<And>n. overlaps b (rect_at (grid_position x n) wh) \<longleftrightarrow> overlaps a (rect_at (grid_position x n) wh)" for a b
  proof (rule ccontr)
    assume "\<not> slot_from a wh x next \<le> slot_from b wh x next"
    then have "overlaps a (rect_at (grid_position x (slot_from b wh x next)) wh)"
      using slot_from_least[of "next" a wh x] slot_from_least[of "next" b wh x] by auto
    then show False using slot_from_least[of "next" b wh x] that by blast
  qed
  show "slot_from occupied wh x next \<le> slot_from occupied' wh x next" by (rule *) (use assms in auto)
  show "slot_from occupied' wh x next \<le> slot_from occupied wh x next" by (rule *) (use assms in auto)
qed

section \<open>Dropping\<close>

lemma drop_fallback_free: "is_free obstacles wh (drop_fallback obstacles wh row) \<and> bp_x (drop_fallback obstacles wh row) \<ge> 0
    \<and> bp_y (drop_fallback obstacles wh row) \<ge> 0"
proof (induction obstacles wh row rule: drop_fallback.induct)
  case (1 obstacles wh row)
  let ?cols = "map (\<lambda>col. grid_position (zone_x col) row) [0 ..< length zoneOrder]"
  show ?case
  proof (cases "find (is_free obstacles wh) ?cols")
    case None
    then show ?thesis using 1[OF None] by (subst (1 2 3) drop_fallback.simps) simp
  next
    case (Some p)
    then have "is_free obstacles wh p" "p \<in> set ?cols" by (auto simp: find_Some_iff in_set_conv_nth)
    moreover from this(2) have "0 \<le> bp_x p \<and> 0 \<le> bp_y p"
    proof -
      obtain col where p: "p = grid_position (zone_x col) row" using \<open>p \<in> set ?cols\<close> by auto
      have "rnd 0 \<le> rnd (of_int (zone_x col))" "rnd 0 \<le> rnd (of_int (zoneOriginY + int row * rowPitch))"
        by (rule rnd_mono, simp add: zone_x_def zoneMarginX_def zonePitchX_def cardWidth_def zoneOriginY_def rowPitch_def cardHeight_def)+
      then show ?thesis by (simp add: p grid_position_def)
    qed
    ultimately show ?thesis using Some by (subst (1 2 3) drop_fallback.simps) simp
  qed
qed

lemma resolve_drop_cases:
  "resolve_drop p wh obstacles =
     (if is_free obstacles wh (clamp p) then clamp p
      else if drop_candidates (clamp p) wh obstacles = [] then drop_fallback obstacles wh 0
      else hd (sort_key (drop_key (clamp p)) (drop_candidates (clamp p) wh obstacles)))"
proof (cases "sort_key (drop_key (clamp p)) (drop_candidates (clamp p) wh obstacles)")
  case Nil
  then have "drop_candidates (clamp p) wh obstacles = []" by (metis length_0_conv length_sort)
  then show ?thesis by (simp add: resolve_drop_def Let_def)
next
  case (Cons c cs)
  then have "drop_candidates (clamp p) wh obstacles \<noteq> []" by auto
  then show ?thesis using Cons by (simp add: resolve_drop_def Let_def)
qed

lemma clamp_nonneg [simp]: "0 \<le> bp_x (clamp p)" "0 \<le> bp_y (clamp p)"
  by (simp_all add: clamp_def)

lemma hd_sort_key:
  assumes "xs \<noteq> []"
  shows "hd (sort_key f xs) \<in> set xs \<and> (\<forall>y \<in> set xs. f (hd (sort_key f xs)) \<le> f y)"
proof (cases "sort_key f xs")
  case Nil
  then show ?thesis using assms by (metis length_0_conv length_sort)
next
  case (Cons z zs)
  have s: "set xs = insert z (set zs)" using set_sort[of f xs] Cons by simp
  have "sorted (map f (z # zs))" using sorted_sort_key[of f xs] Cons by simp
  then show ?thesis using Cons s by auto
qed

text \<open>What a drop is measured by, written on coordinates: the distance between two positions,
  and which of two places is nearer (the higher one, then the left one, when they are as far).\<close>

definition drop_distance :: "board_position \<Rightarrow> board_position \<Rightarrow> rat" where
  "drop_distance p c = rnd (rnd (rnd (bp_x c - bp_x p) ^ 2) + rnd (rnd (bp_y c - bp_y p) ^ 2))"

definition nearer :: "board_position \<Rightarrow> board_position \<Rightarrow> board_position \<Rightarrow> bool" where
  "nearer p c d \<longleftrightarrow>
     drop_distance p c < drop_distance p d
     \<or> drop_distance p c = drop_distance p d \<and> (bp_y c < bp_y d \<or> bp_y c = bp_y d \<and> bp_x c < bp_x d)"

text \<open>The card moved along one axis only, until it is twelve pixels past an edge of \<open>r\<close> or at the
  border of the canvas.\<close>

definition slid_off :: "board_position \<Rightarrow> rat \<times> rat \<Rightarrow> rect \<Rightarrow> board_position \<Rightarrow> bool" where
  "slid_off p wh r c \<longleftrightarrow>
     bp_y c = bp_y p \<and> bp_x c \<in> {max 0 (rnd (rnd (rc_x r - fst wh) - 12)), max 0 (rnd (rnd (rc_x r + rc_w r) + 12))}
     \<or> bp_x c = bp_x p \<and> bp_y c \<in> {max 0 (rnd (rnd (rc_y r - snd wh) - 12)), max 0 (rnd (rnd (rc_y r + rc_h r) + 12))}"

definition slide_place :: "board_position \<Rightarrow> rat \<times> rat \<Rightarrow> rect list \<Rightarrow> board_position \<Rightarrow> bool" where
  "slide_place p wh obstacles c \<longleftrightarrow> is_free obstacles wh c \<and> (\<exists>r \<in> set obstacles. slid_off p wh r c)"

text \<open>The first free slot of the grid, row by row.\<close>

definition first_slot :: "rect list \<Rightarrow> rat \<times> rat \<Rightarrow> board_position \<Rightarrow> bool" where
  "first_slot obstacles wh c \<longleftrightarrow>
     (\<exists>row. \<exists>col < length zoneOrder. c = grid_position (zone_x col) row \<and> is_free obstacles wh c
        \<and> (\<forall>row' col'. col' < length zoneOrder \<longrightarrow> row' < row \<or> row' = row \<and> col' < col \<longrightarrow>
             \<not> is_free obstacles wh (grid_position (zone_x col') row')))"

lemma drop_key_less: "drop_key p c < drop_key p d \<longleftrightarrow> nearer p c d"
  by (simp add: drop_key_def nearer_def drop_distance_def fadd_def fsub_def sq_def fmul_def power2_eq_square less_prod_def' less_le)

lemma slid_off_iff:
  assumes "0 \<le> bp_x p" "0 \<le> bp_y p"
  shows "slid_off p wh r c \<longleftrightarrow> c \<in> clamp ` set (slide_outs p wh r)"
proof -
  have m: "(if x < 0 then 0 else x) = max 0 x" for x :: rat by simp
  have k: "max 0 (bp_x p) = bp_x p" "max 0 (bp_y p) = bp_y p" using assms by simp_all
  show ?thesis
    by (cases c) (auto simp: slid_off_def slide_outs_def clamp_def m k fadd_def fsub_def dropClearance_def)
qed

lemma drop_candidates_iff:
  "c \<in> set (drop_candidates (clamp p) wh obstacles) \<longleftrightarrow> slide_place (clamp p) wh obstacles c"
  by (auto simp: drop_candidates_def slide_place_def slid_off_iff)

lemma drop_fallback_first:
  "(\<forall>row' col'. col' < length zoneOrder \<longrightarrow> row' < row \<longrightarrow> \<not> is_free obstacles wh (grid_position (zone_x col') row')) \<Longrightarrow>
   first_slot obstacles wh (drop_fallback obstacles wh row)"
proof (induction obstacles wh row rule: drop_fallback.induct)
  case (1 obstacles wh row)
  let ?cols = "map (\<lambda>col. grid_position (zone_x col) row) [0 ..< length zoneOrder]"
  show ?case
  proof (cases "find (is_free obstacles wh) ?cols")
    case None
    then have "\<forall>row' col'. col' < length zoneOrder \<longrightarrow> row' < Suc row \<longrightarrow> \<not> is_free obstacles wh (grid_position (zone_x col') row')"
      using 1(2) by (auto simp: find_None_iff less_Suc_eq)
    then show ?thesis using 1(1)[OF None] None by (subst drop_fallback.simps) simp
  next
    case (Some p)
    then obtain col where "col < length zoneOrder" "is_free obstacles wh p" "p = grid_position (zone_x col) row"
      "\<forall>k < col. \<not> is_free obstacles wh (grid_position (zone_x k) row)"
      by (auto simp: find_Some_iff)
    then have "first_slot obstacles wh p" unfolding first_slot_def using 1(2) by blast
    then show ?thesis using Some by (subst drop_fallback.simps) simp
  qed
qed

text \<open>C36. A dropped card never lands on another and takes the nearest place: the position a drop
  resolves to is free of every obstacle and on the canvas. It is the drop point, clamped, when
  that is free; otherwise, when the card can slide along one axis to a free place twelve
  pixels past an edge of an obstacle (or at the border), it is such a place and no other such
  place is nearer (of equally near ones it is the highest, then the leftmost); and when there is none, it
  is the first free slot of the grid, row by row.\<close>

theorem drop_lands_free:
  "is_free obstacles wh (resolve_drop p wh obstacles)
    \<and> 0 \<le> bp_x (resolve_drop p wh obstacles) \<and> 0 \<le> bp_y (resolve_drop p wh obstacles)
    \<and> (if is_free obstacles wh (clamp p) then resolve_drop p wh obstacles = clamp p
       else if \<exists>c. slide_place (clamp p) wh obstacles c then
         slide_place (clamp p) wh obstacles (resolve_drop p wh obstacles)
         \<and> \<not> (\<exists>c. slide_place (clamp p) wh obstacles c \<and> nearer (clamp p) c (resolve_drop p wh obstacles))
       else first_slot obstacles wh (resolve_drop p wh obstacles))"
proof (cases "is_free obstacles wh (clamp p)")
  case True
  then show ?thesis by (simp add: resolve_drop_cases)
next
  case False
  let ?cands = "drop_candidates (clamp p) wh obstacles"
  show ?thesis
  proof (cases "?cands = []")
    case True
    then have "\<not> (\<exists>c. slide_place (clamp p) wh obstacles c)" using drop_candidates_iff[of _ p wh obstacles] by simp
    then show ?thesis
      using True False drop_fallback_free[of obstacles wh 0] drop_fallback_first[of 0 obstacles wh]
      by (simp add: resolve_drop_cases)
  next
    case ne: False
    let ?h = "hd (sort_key (drop_key (clamp p)) ?cands)"
    have eq: "resolve_drop p wh obstacles = ?h" using False ne by (simp add: resolve_drop_cases)
    have h: "?h \<in> set ?cands" "\<forall>c \<in> set ?cands. \<not> nearer (clamp p) c ?h"
      using hd_sort_key[OF ne, of "drop_key (clamp p)"] by (auto simp: drop_key_less[symmetric])
    have "0 \<le> bp_x ?h \<and> 0 \<le> bp_y ?h" using h(1) by (auto simp: drop_candidates_def)
    moreover have "slide_place (clamp p) wh obstacles ?h" "\<not> (\<exists>c. slide_place (clamp p) wh obstacles c \<and> nearer (clamp p) c ?h)"
      using h by (simp_all only: drop_candidates_iff) (simp add: drop_candidates_iff[symmetric])
    moreover have "is_free obstacles wh ?h" using h(1) by (simp add: drop_candidates_def)
    ultimately show ?thesis using False unfolding eq by auto
  qed
qed

section \<open>What generation places\<close>

text \<open>The rectangle a card of the layout takes up.\<close>

definition card_rect :: "(string \<rightharpoonup> board_position) \<Rightarrow> board_object \<Rightarrow> rect" where
  "card_rect out b = rect_at (the (out (ob_id b))) (footprint b)"

definition unstored :: "(string \<times> board_position) list \<Rightarrow> board_object \<Rightarrow> bool" where
  "unstored stored b \<longleftrightarrow> map_of stored (ob_id b) = None"

text \<open>After the cards \<open>done\<close>: stored ones are where they were, the others are apart from
  every claim and from each other, and claimed.\<close>

definition placed_ok ::
  "(string \<times> board_position) list \<Rightarrow> rect list \<Rightarrow> board_object set \<Rightarrow> placed \<Rightarrow> bool" where
  "placed_ok stored claims Done st \<longleftrightarrow>
     (case st of (out, occupied) \<Rightarrow>
        dom out = ob_id ` Done
        \<and> (\<forall>b \<in> Done. \<forall>p. map_of stored (ob_id b) = Some p \<longrightarrow> out (ob_id b) = Some p)
        \<and> set occupied = set claims \<union> card_rect out ` {b \<in> Done. unstored stored b}
        \<and> (\<forall>b \<in> Done. unstored stored b \<longrightarrow> (\<forall>r \<in> set claims. \<not> intersects (card_rect out b) r))
        \<and> (\<forall>b \<in> Done. \<forall>c \<in> Done. unstored stored b \<longrightarrow> unstored stored c \<longrightarrow> b \<noteq> c \<longrightarrow>
             \<not> intersects (card_rect out b) (card_rect out c)))"

lemma by_id_unique:
  assumes "distinct (map ob_id objects)" "b \<in> set objects"
  shows "by_id objects (ob_id b) = Some b"
proof (cases "by_id objects (ob_id b)")
  case None
  then show ?thesis using assms(2) by (auto simp: by_id_def find_None_iff)
next
  case (Some c)
  then have "c \<in> set objects" "ob_id c = ob_id b" by (auto simp: by_id_def find_Some_iff in_set_conv_nth)
      (metis in_set_conv_nth length_rev nth_mem set_rev)
  then have "c = b" using assms by (meson eq_key_imp_eq_value inj_onD distinct_map)
  then show ?thesis using Some by simp
qed

lemma claim_rect_footprint:
  "distinct (map ob_id objects) \<Longrightarrow> b \<in> set objects \<Longrightarrow> claim_rect objects (ob_id b) p = rect_at p (footprint b)"
  by (simp add: claim_rect_def by_id_unique)

lemma card_rect_other: "ob_id c \<noteq> i \<Longrightarrow> card_rect (out(i \<mapsto> p)) c = card_rect out c"
  by (simp add: card_rect_def)

lemma other_id: "i \<notin> ob_id ` A \<Longrightarrow> c \<in> A \<Longrightarrow> ob_id c \<noteq> i"
  by auto

lemma placed_ok_stored:
  assumes ok: "placed_ok stored claims Done (out, occupied)" and new: "ob_id b \<notin> ob_id ` Done"
    and p: "map_of stored (ob_id b) = Some p"
  shows "placed_ok stored claims (insert b Done) (out(ob_id b \<mapsto> p), occupied)"
proof -
  have other: "card_rect (out(ob_id b \<mapsto> p)) c = card_rect out c" if "c \<in> Done" for c
    using card_rect_other other_id[OF new that] by blast
  have "{c \<in> insert b Done. unstored stored c} = {c \<in> Done. unstored stored c}" using p by (auto simp: unstored_def)
  moreover have "card_rect (out(ob_id b \<mapsto> p)) ` {c \<in> Done. unstored stored c} = card_rect out ` {c \<in> Done. unstored stored c}"
    using other by (intro image_cong) auto
  moreover have "\<not> unstored stored b" using p by (simp add: unstored_def)
  moreover have "\<forall>c \<in> Done. ob_id c \<noteq> ob_id b" using other_id[OF new] by blast
  ultimately show ?thesis using ok other p by (auto simp: placed_ok_def)
qed

lemma placed_ok_unstored:
  assumes ok: "placed_ok stored claims Done (out, occupied)" and new: "ob_id b \<notin> ob_id ` Done"
    and un: "unstored stored b" and free: "\<not> overlaps occupied (rect_at p (footprint b))"
  shows "placed_ok stored claims (insert b Done) (out(ob_id b \<mapsto> p), occupied @ [rect_at p (footprint b)])"
proof -
  let ?out = "out(ob_id b \<mapsto> p)"
  have b: "card_rect ?out b = rect_at p (footprint b)" by (simp add: card_rect_def)
  have other: "card_rect ?out c = card_rect out c" if "c \<in> Done" for c
    using card_rect_other other_id[OF new that] by blast
  have un_set: "{c \<in> insert b Done. unstored stored c} = insert b {c \<in> Done. unstored stored c}" using un by auto
  have im: "card_rect ?out ` {c \<in> Done. unstored stored c} = card_rect out ` {c \<in> Done. unstored stored c}"
    using other by (intro image_cong) auto
  have apart: "\<not> intersects (card_rect ?out b) r" if "r \<in> set occupied" for r
    using free that by (auto simp: overlaps_iff b)
  have occ: "set occupied = set claims \<union> card_rect out ` {b \<in> Done. unstored stored b}" using ok by (simp add: placed_ok_def)
  have apart_done: "\<not> intersects (card_rect ?out b) (card_rect ?out c)" "\<not> intersects (card_rect ?out c) (card_rect ?out b)"
    if "c \<in> Done" "unstored stored c" for c
    using apart[of "card_rect out c"] that occ other by (auto simp: intersects_sym[of _ "card_rect ?out b"])
  have ids: "\<forall>c \<in> Done. ob_id c \<noteq> ob_id b" using other_id[OF new] by blast
  show ?thesis
    unfolding placed_ok_def prod.case
  proof (intro conjI)
    show "dom ?out = ob_id ` insert b Done" using ok by (auto simp: placed_ok_def)
    show "\<forall>c \<in> insert b Done. \<forall>q. map_of stored (ob_id c) = Some q \<longrightarrow> ?out (ob_id c) = Some q"
      using ok un ids by (auto simp: placed_ok_def unstored_def)
    show "set (occupied @ [rect_at p (footprint b)]) = set claims \<union> card_rect ?out ` {c \<in> insert b Done. unstored stored c}"
      unfolding un_set using occ im b by auto
    show "\<forall>c \<in> insert b Done. unstored stored c \<longrightarrow> (\<forall>r \<in> set claims. \<not> intersects (card_rect ?out c) r)"
      using ok apart occ other by (auto simp: placed_ok_def)
    show "\<forall>c \<in> insert b Done. \<forall>d \<in> insert b Done. unstored stored c \<longrightarrow> unstored stored d \<longrightarrow> c \<noteq> d \<longrightarrow>
        \<not> intersects (card_rect ?out c) (card_rect ?out d)"
      using ok apart_done other by (auto simp: placed_ok_def)
  qed
qed

lemma place_bucket_ok:
  assumes "distinct (map ob_id objects)"
  shows "placed_ok stored claims Done st \<Longrightarrow> distinct (map ob_id bs) \<Longrightarrow> set bs \<subseteq> set objects \<Longrightarrow>
     ob_id ` set bs \<inter> ob_id ` Done = {} \<Longrightarrow>
     placed_ok stored claims (Done \<union> set bs) (place_bucket objects stored x next bs st)"
proof (induction bs arbitrary: Done st "next")
  case Nil
  then show ?case by simp
next
  case (Cons b bs)
  obtain out occupied where st: "st = (out, occupied)" by fastforce
  have new: "ob_id b \<notin> ob_id ` Done" and d: "distinct (map ob_id bs)" "set bs \<subseteq> set objects" "b \<in> set objects"
    and rest: "ob_id ` set bs \<inter> ob_id ` insert b Done = {}"
    using Cons.prems by (auto simp: image_iff)
  have un: "Done \<union> set (b # bs) = insert b Done \<union> set bs" by auto
  show ?case
  proof (cases "map_of stored (ob_id b)")
    case None
    let ?slot = "slot_from occupied (footprint b) x next"
    let ?p = "grid_position x ?slot"
    have "placed_ok stored claims (insert b Done)
        (out(ob_id b \<mapsto> ?p), occupied @ [rect_at ?p (footprint b)])"
      by (rule placed_ok_unstored[OF Cons.prems(1)[unfolded st] new])
        (use None slot_from_least[of "next" occupied "footprint b" x] in \<open>simp_all add: unstored_def\<close>)
    then show ?thesis
      unfolding un using Cons.IH[OF _ d(1,2) rest] None claim_rect_footprint[OF assms d(3)] by (simp add: st Let_def)
  next
    case (Some p)
    then show ?thesis
      unfolding un using Cons.IH[OF placed_ok_stored[OF Cons.prems(1)[unfolded st] new Some] d(1,2) rest] by (simp add: st)
  qed
qed

definition zone_objects :: "board_object list \<Rightarrow> nat \<Rightarrow> board_object set" where
  "zone_objects objects n = {b \<in> set objects. \<exists>i < n. zone_index (ob_kind b) = Some i}"

lemma place_zones_ok:
  assumes "distinct (map ob_id objects)"
  shows "placed_ok stored (stored_claims objects stored) (zone_objects objects n)
     (fold (place_zone objects stored) [0 ..< n] (Map.empty, stored_claims objects stored))"
proof (induction n)
  case 0
  then show ?case by (simp add: placed_ok_def zone_objects_def)
next
  case (Suc n)
  have b: "set (bucket objects n) = {b \<in> set objects. zone_index (ob_kind b) = Some n}" by (simp add: bucket_def)
  have z: "zone_objects objects (Suc n) = zone_objects objects n \<union> set (bucket objects n)"
    unfolding b by (auto simp: zone_objects_def less_Suc_eq)
  have inj: "inj_on ob_id (set objects)" using assms by (simp add: distinct_map)
  have "inj_on ob_id (set (bucket objects n))" by (rule inj_on_subset[OF inj]) (auto simp: b)
  then have "distinct (map ob_id (bucket objects n))"
    using assms by (simp add: distinct_map bucket_def)
  moreover have "ob_id ` set (bucket objects n) \<inter> ob_id ` zone_objects objects n = {}"
  proof -
    have "ob_id c \<noteq> ob_id d" if "c \<in> set (bucket objects n)" "d \<in> zone_objects objects n" for c d
    proof
      assume "ob_id c = ob_id d"
      moreover have "c \<in> set objects" "d \<in> set objects" using that by (auto simp: b zone_objects_def)
      ultimately have "c = d" using inj by (blast dest: inj_onD)
      then show False using that by (auto simp: b zone_objects_def)
    qed
    then show ?thesis by blast
  qed
  moreover have "set (bucket objects n) \<subseteq> set objects" using b by blast
  ultimately have "placed_ok stored (stored_claims objects stored) (zone_objects objects n \<union> set (bucket objects n))
      (place_bucket objects stored (zone_x n) 0 (bucket objects n)
        (fold (place_zone objects stored) [0 ..< n] (Map.empty, stored_claims objects stored)))"
    by (intro place_bucket_ok[OF assms Suc])
  moreover have "fold (place_zone objects stored) [0 ..< Suc n] (Map.empty, stored_claims objects stored)
      = place_bucket objects stored (zone_x n) 0 (bucket objects n)
          (fold (place_zone objects stored) [0 ..< n] (Map.empty, stored_claims objects stored))"
    by (simp add: place_zone_def[of objects stored n])
  ultimately show ?case by (simp only: z)
qed

lemma unknown_kind_None:
  "unknown_kind objects = None \<longleftrightarrow> (\<forall>b \<in> set objects. zone_index (ob_kind b) \<noteq> None)"
  by (auto simp: unknown_kind_def find_None_iff)

lemma zone_index_less: "zone_index k = Some i \<Longrightarrow> i < length zoneOrder"
  by (cases k) (auto simp: zoneOrder_def)

lemma generate_Inr:
  "generate objects stored = Inr out \<longleftrightarrow>
     (\<forall>b \<in> set objects. zone_index (ob_kind b) \<noteq> None)
     \<and> out = fst (fold (place_zone objects stored) [0 ..< length zoneOrder] (Map.empty, stored_claims objects stored))"
  unfolding unknown_kind_None[symmetric] by (auto simp: generate_def split: option.split)

lemma generate_placed:
  assumes "generate objects stored = Inr out" "distinct (map ob_id objects)"
  shows "\<exists>occupied. placed_ok stored (stored_claims objects stored) (set objects) (out, occupied)"
proof -
  have "zone_objects objects (length zoneOrder) = set objects"
    using assms(1) zone_index_less by (fastforce simp: zone_objects_def generate_Inr)
  then show ?thesis
    using place_zones_ok[OF assms(2), of stored "length zoneOrder"] assms(1)
    by (metis generate_Inr prod.collapse)
qed

lemma stored_claim:
  assumes "distinct (map ob_id objects)" "c \<in> set objects" "map_of stored (ob_id c) = Some p"
  shows "rect_at p (footprint c) \<in> set (stored_claims objects stored)"
proof -
  have "(ob_id c, p) \<in> set (filter (\<lambda>(i, p). i \<in> ob_id ` set objects) stored)"
    using map_of_SomeD[OF assms(3)] assms(2) by auto
  then have "(\<lambda>(i, p). claim_rect objects i p) (ob_id c, p) \<in> set (stored_claims objects stored)"
    unfolding stored_claims_def set_map by (rule imageI)
  then show ?thesis using claim_rect_footprint[OF assms(1,2)] by simp
qed

lemma generate_apart:
  assumes "generate objects stored = Inr out" "distinct (map ob_id objects)"
    "b \<in> set objects" "c \<in> set objects" "b \<noteq> c" "unstored stored b"
  shows "\<not> intersects (card_rect out b) (card_rect out c)"
proof -
  obtain occupied where ok: "placed_ok stored (stored_claims objects stored) (set objects) (out, occupied)"
    using generate_placed[OF assms(1,2)] by blast
  show ?thesis
  proof (cases "map_of stored (ob_id c)")
    case None
    then show ?thesis using ok assms(3-6) by (simp add: placed_ok_def unstored_def)
  next
    case (Some p)
    then have "out (ob_id c) = Some p" using ok assms(4) by (simp add: placed_ok_def)
    then have "card_rect out c \<in> set (stored_claims objects stored)"
      using stored_claim[OF assms(2,4) Some] by (simp add: card_rect_def)
    then show ?thesis using ok assms(3,6) by (simp add: placed_ok_def)
  qed
qed

text \<open>Generation moves nothing and covers nothing: every object gets a position and nothing
  else does, a stored position is kept as it is, and a card the layout places itself
  overlaps no other card, stored or placed.\<close>

lemma generate_keeps_and_avoids:
  assumes "generate objects stored = Inr out" "distinct (map ob_id objects)"
  shows "dom out = ob_id ` set objects
    \<and> (\<forall>b \<in> set objects. \<forall>p. map_of stored (ob_id b) = Some p \<longrightarrow> out (ob_id b) = Some p)
    \<and> (\<forall>b \<in> set objects. \<forall>c \<in> set objects. b \<noteq> c \<and> unstored stored b \<longrightarrow>
         \<not> intersects (card_rect out b) (card_rect out c))"
proof -
  obtain occupied where ok: "placed_ok stored (stored_claims objects stored) (set objects) (out, occupied)"
    using generate_placed[OF assms] by blast
  then show ?thesis using generate_apart[OF assms] by (simp add: placed_ok_def)
qed

section \<open>Display\<close>

lemma resolve_stored_ids: "map fst (resolve_stored stored bs claimed) = map ob_id bs"
  by (induction stored bs claimed rule: resolve_stored.induct) (simp_all add: Let_def)

lemma resolve_stored_step:
  "\<exists>p. resolve_stored stored (b # bs) claimed = (ob_id b, p) # resolve_stored stored bs (claimed @ [rect_at p (footprint b)])
     \<and> (\<forall>r \<in> set claimed. \<not> intersects (rect_at p (footprint b)) r)"
proof -
  let ?p0 = "the (map_of stored (ob_id b))"
  have "is_free claimed (footprint b) (resolve_drop ?p0 (footprint b) claimed)"
    using drop_fallback_free[of claimed "footprint b" 0] hd_sort_key[of "drop_candidates (clamp ?p0) (footprint b) claimed"]
    by (auto simp: resolve_drop_cases drop_candidates_def)
  then show ?thesis by (auto simp: Let_def is_free_def overlaps_iff)
qed

definition stored_rect :: "board_object \<times> (string \<times> board_position) \<Rightarrow> rect" where
  "stored_rect bp = rect_at (snd (snd bp)) (footprint (fst bp))"

lemma resolve_stored_apart:
  "i < length bs \<Longrightarrow>
     (\<forall>r \<in> set claimed. \<not> intersects (stored_rect (zip bs (resolve_stored stored bs claimed) ! i)) r)
     \<and> (\<forall>j < i. \<not> intersects (stored_rect (zip bs (resolve_stored stored bs claimed) ! i))
          (stored_rect (zip bs (resolve_stored stored bs claimed) ! j)))"
proof (induction bs arbitrary: claimed i)
  case Nil
  then show ?case by simp
next
  case (Cons b bs)
  obtain p where eq: "resolve_stored stored (b # bs) claimed = (ob_id b, p) # resolve_stored stored bs (claimed @ [rect_at p (footprint b)])"
    and free: "\<forall>r \<in> set claimed. \<not> intersects (rect_at p (footprint b)) r" using resolve_stored_step by blast
  show ?case
  proof (cases i)
    case 0
    then show ?thesis unfolding eq using free by (simp add: stored_rect_def)
  next
    case (Suc k)
    let ?z = "zip bs (resolve_stored stored bs (claimed @ [rect_at p (footprint b)]))"
    have IH: "\<forall>r \<in> set (claimed @ [rect_at p (footprint b)]). \<not> intersects (stored_rect (?z ! k)) r"
      "\<forall>j < k. \<not> intersects (stored_rect (?z ! k)) (stored_rect (?z ! j))"
      using Cons.IH[of k "claimed @ [rect_at p (footprint b)]"] Cons.prems Suc by simp_all
    have "\<not> intersects (stored_rect (?z ! k)) (stored_rect (((b, ob_id b, p) # ?z) ! j))" if "j < Suc k" for j
      using IH that by (cases j) (simp_all add: stored_rect_def)
    then show ?thesis unfolding eq Suc using IH(1) by simp
  qed
qed

text \<open>The stored cards in canonical order, and where they are drawn.\<close>

definition with_stored :: "board_object list \<Rightarrow> (string \<times> board_position) list \<Rightarrow> board_object list" where
  "with_stored objects stored = sort_key canonical_key (filter (\<lambda>b. map_of stored (ob_id b) \<noteq> None) objects)"

definition drawn :: "board_object list \<Rightarrow> (string \<times> board_position) list \<Rightarrow> (string \<times> board_position) list" where
  "drawn objects stored = resolve_stored stored (with_stored objects stored) []"

lemma display_generate:
  "resolve_display_overlaps objects stored = Inr out \<Longrightarrow> generate objects (rev (drawn objects stored)) = Inr out"
  by (simp add: resolve_display_overlaps_def drawn_def with_stored_def Let_def split: option.splits)

lemma with_stored_set: "set (with_stored objects stored) = {b \<in> set objects. \<not> unstored stored b}"
  by (auto simp: with_stored_def unstored_def)

lemma with_stored_distinct:
  assumes "distinct (map ob_id objects)"
  shows "distinct (map ob_id (with_stored objects stored))"
proof -
  have "distinct (with_stored objects stored)" using assms by (simp add: with_stored_def distinct_map)
  moreover have "inj_on ob_id (set (with_stored objects stored))"
    by (rule inj_on_subset[of _ "set objects"]) (use assms in \<open>auto simp: with_stored_set distinct_map\<close>)
  ultimately show ?thesis by (simp add: distinct_map)
qed

lemma drawn_length [simp]: "length (drawn objects stored) = length (with_stored objects stored)"
  using resolve_stored_ids[of stored "with_stored objects stored" "[]"] unfolding drawn_def by (metis length_map)

lemma drawn_nth:
  assumes "distinct (map ob_id objects)" "i < length (with_stored objects stored)"
  shows "map_of (rev (drawn objects stored)) (ob_id (with_stored objects stored ! i)) = Some (snd (drawn objects stored ! i))"
proof -
  let ?l = "drawn objects stored"
  have ids: "map fst ?l = map ob_id (with_stored objects stored)" by (simp add: drawn_def resolve_stored_ids)
  then have "distinct (map fst (rev ?l))" using with_stored_distinct[OF assms(1)] by (simp add: rev_map[symmetric])
  moreover have "fst (?l ! i) = ob_id (with_stored objects stored ! i)"
    using arg_cong[OF ids, of "\<lambda>xs. xs ! i"] assms(2) by simp
  then have "(ob_id (with_stored objects stored ! i), snd (?l ! i)) \<in> set (rev ?l)"
    using assms(2) by (metis drawn_length nth_mem prod.collapse set_rev)
  ultimately show ?thesis by (rule map_of_is_SomeI)
qed

lemma drawn_keys: "map_of (rev (drawn objects stored)) k \<noteq> None \<longleftrightarrow> k \<in> ob_id ` set (with_stored objects stored)"
proof -
  have "fst ` set (drawn objects stored) = ob_id ` set (with_stored objects stored)"
    using resolve_stored_ids[of stored "with_stored objects stored" "[]"] unfolding drawn_def by (metis list.set_map)
  then show ?thesis by (simp add: map_of_eq_None_iff)
qed

lemma drawn_rect:
  assumes "generate objects (rev (drawn objects stored)) = Inr out" "distinct (map ob_id objects)"
    "i < length (with_stored objects stored)"
  shows "card_rect out (with_stored objects stored ! i)
    = stored_rect (zip (with_stored objects stored) (drawn objects stored) ! i)"
proof -
  obtain occupied where ok: "placed_ok (rev (drawn objects stored)) (stored_claims objects (rev (drawn objects stored)))
      (set objects) (out, occupied)" using generate_placed[OF assms(1,2)] by blast
  have "with_stored objects stored ! i \<in> set objects" using nth_mem[OF assms(3)] by (simp add: with_stored_set)
  then have "out (ob_id (with_stored objects stored ! i)) = Some (snd (drawn objects stored ! i))"
    using ok drawn_nth[OF assms(2,3)] by (simp add: placed_ok_def)
  then show ?thesis using assms(3) by (simp add: card_rect_def stored_rect_def)
qed

text \<open>How far cards really overlap, in exact arithmetic: by more than \<open>e\<close> along both axes.\<close>

definition overlap_beyond :: "rat \<Rightarrow> rect \<Rightarrow> rect \<Rightarrow> bool" where
  "overlap_beyond e r s \<longleftrightarrow>
     rc_x r + e < rc_x s + rc_w s \<and> rc_x s + e < rc_x r + rc_w r
     \<and> rc_y r + e < rc_y s + rc_h s \<and> rc_y s + e < rc_y r + rc_h r"

text \<open>All edges lie within \<open>2 ^ 42\<close> pixels of the origin.\<close>

definition on_board :: "rect \<Rightarrow> bool" where
  "on_board r \<longleftrightarrow> \<bar>rc_x r\<bar> < 2 ^ 42 \<and> \<bar>rc_y r\<bar> < 2 ^ 42 \<and> \<bar>rc_x r + rc_w r\<bar> < 2 ^ 42 \<and> \<bar>rc_y r + rc_h r\<bar> < 2 ^ 42"

text \<open>The position and the size are whole numbers of pixels.\<close>

definition whole :: "rect \<Rightarrow> bool" where
  "whole r \<longleftrightarrow> rc_x r \<in> \<int> \<and> rc_y r \<in> \<int> \<and> rc_w r \<in> \<int> \<and> rc_h r \<in> \<int>"

lemma edge_near:
  assumes "\<bar>a + w\<bar> < 2 ^ 42"
  shows "a + w \<le> fadd a w + 1 / 1000"
proof -
  have "\<bar>rnd (a + w) - (a + w)\<bar> \<le> 1 / 4096"
    using rnd_near[of "a + w" 41] assms by (simp add: power_int_def power_divide)
  then have "a + w - rnd (a + w) \<le> 1 / 4096" by (simp only: abs_le_iff) linarith
  then show ?thesis by (simp add: fadd_def)
qed

lemma edge_exact:
  assumes "\<bar>a + w\<bar> < 2 ^ 42" "a \<in> \<int>" "w \<in> \<int>"
  shows "fadd a w = a + w"
proof -
  obtain n where n: "a + w = of_int n" using Ints_add[OF assms(2,3)] by (auto elim: Ints_cases)
  have "\<bar>of_int n :: rat\<bar> < of_int (2 ^ 42)" using assms(1) by (simp add: n)
  then have "\<bar>n\<bar> < 2 ^ 53" by (simp only: of_int_abs[symmetric] of_int_less_iff) simp
  then show ?thesis by (simp add: fadd_def n rnd_int)
qed

lemma apart_exactly:
  assumes "\<not> intersects r s" "on_board r" "on_board s"
  shows "\<not> overlap_beyond (1 / 1000) r s" "whole r \<Longrightarrow> whole s \<Longrightarrow> \<not> overlap_beyond 0 r s"
proof -
  have far: "\<not> overlap_beyond e r s"
    if "rc_x r + rc_w r \<le> fadd (rc_x r) (rc_w r) + e" "rc_y r + rc_h r \<le> fadd (rc_y r) (rc_h r) + e"
      "rc_x s + rc_w s \<le> fadd (rc_x s) (rc_w s) + e" "rc_y s + rc_h s \<le> fadd (rc_y s) (rc_h s) + e" for e
  proof
    assume "overlap_beyond e r s"
    then have "intersects r s" using that unfolding overlap_beyond_def intersects_def by (elim conjE) (intro conjI; linarith)
    then show False using assms(1) by contradiction
  qed
  have small: "\<bar>rc_x q + rc_w q\<bar> < 2 ^ 42 \<and> \<bar>rc_y q + rc_h q\<bar> < 2 ^ 42" if "q \<in> {r, s}" for q
    using assms(2,3) that by (auto simp: on_board_def)
  show "\<not> overlap_beyond (1 / 1000) r s" by (rule far; rule edge_near; use small in blast)
  show "\<not> overlap_beyond 0 r s" if "whole r" "whole s"
  proof -
    have "fadd (rc_x q) (rc_w q) = rc_x q + rc_w q \<and> fadd (rc_y q) (rc_h q) = rc_y q + rc_h q" if "q \<in> {r, s}" for q
    proof -
      have "whole q" using that \<open>whole r\<close> \<open>whole s\<close> by blast
      then show ?thesis using small[OF that] edge_exact by (simp add: whole_def)
    qed
    then show ?thesis by (intro far) simp_all
  qed
qed

lemma display_apart:
  assumes "resolve_display_overlaps objects stored = Inr out" "distinct (map ob_id objects)"
  shows "dom out = ob_id ` set objects
    \<and> (\<forall>b \<in> set objects. \<forall>c \<in> set objects. b \<noteq> c \<longrightarrow> \<not> intersects (card_rect out b) (card_rect out c))"
proof -
  let ?ws = "with_stored objects stored" and ?l = "drawn objects stored"
  note g = display_generate[OF assms(1)]
  obtain occupied where ok: "placed_ok (rev ?l) (stored_claims objects (rev ?l)) (set objects) (out, occupied)"
    using generate_placed[OF g assms(2)] by blast
  have un: "unstored (rev ?l) b \<longleftrightarrow> ob_id b \<notin> ob_id ` set ?ws" for b
    using drawn_keys[of objects stored "ob_id b"] by (auto simp: unstored_def)
  have inj: "inj_on ob_id (set objects)" using assms(2) by (simp add: distinct_map)
  have apart: "\<not> intersects (card_rect out (?ws ! i)) (card_rect out (?ws ! j))" if "j < i" "i < length ?ws" for i j
    using resolve_stored_apart[of i ?ws "[]" stored] that drawn_rect[OF g assms(2)] by (simp add: drawn_def)
  have "\<not> intersects (card_rect out b) (card_rect out c)" if bc: "b \<in> set objects" "c \<in> set objects" "b \<noteq> c" for b c
  proof (cases "unstored (rev ?l) b \<or> unstored (rev ?l) c")
    case True
    then show ?thesis
      using generate_apart[OF g assms(2) bc] generate_apart[OF g assms(2) bc(2,1) bc(3)[symmetric]] intersects_sym by blast
  next
    case False
    have "d \<in> set ?ws" if "d \<in> set objects" "\<not> unstored (rev ?l) d" for d
    proof -
      have "ob_id d \<in> ob_id ` set ?ws" using un that(2) by blast
      then obtain e where e: "e \<in> set ?ws" "ob_id d = ob_id e" by blast
      then have "e \<in> set objects" by (simp add: with_stored_set)
      then have "d = e" using inj that(1) e(2) by (blast dest: inj_onD)
      then show ?thesis using e(1) by simp
    qed
    then obtain i j where "i < length ?ws" "j < length ?ws" "b = ?ws ! i" "c = ?ws ! j"
      using bc False by (metis in_set_conv_nth)
    moreover from this have "i \<noteq> j" using bc(3) by blast
    ultimately show ?thesis using apart[of j i] apart[of i j] intersects_sym by (metis linorder_neqE_nat)
  qed
  then show ?thesis using ok by (simp add: placed_ok_def)
qed

text \<open>C15. No card is drawn under another, in exact arithmetic: whatever positions are stored,
  colliding or not, the displayed layout gives every object a position, and two cards whose
  edges lie within \<open>2 ^ 42\<close> pixels of the origin overlap by at most a thousandth of a pixel, and
  not at all when their positions and sizes are whole numbers of pixels. (Farther out the
  sums of the overlap test lose the card's size to rounding: \<open>far_cards_stack\<close>.)\<close>

theorem display_never_stacks:
  assumes "resolve_display_overlaps objects stored = Inr out" "distinct (map ob_id objects)"
  shows "dom out = ob_id ` set objects
    \<and> (\<forall>b \<in> set objects. \<forall>c \<in> set objects. b \<noteq> c \<and> on_board (card_rect out b) \<and> on_board (card_rect out c) \<longrightarrow>
         \<not> overlap_beyond (1 / 1000) (card_rect out b) (card_rect out c)
         \<and> (whole (card_rect out b) \<and> whole (card_rect out c) \<longrightarrow> \<not> overlap_beyond 0 (card_rect out b) (card_rect out c)))"
  using display_apart[OF assms] apart_exactly by blast

section \<open>Adding a card\<close>

lemma fadd_small: "\<bar>a + b\<bar> < 2 ^ 53 \<Longrightarrow> fadd (of_int a) (of_int b) = of_int (a + b)"
  unfolding fadd_def using rnd_int[of "a + b"] by simp

lemma footprint_width: "fst (footprint b) = of_int cardWidth"
  by (simp add: footprint_def footprint_for_def split: prod.split)

text \<open>Cards placed in different columns are apart, whatever their rows and heights.\<close>

lemma columns_apart:
  assumes "i < length zoneOrder" "j < length zoneOrder" "i \<noteq> j" "fst wh = of_int cardWidth" "fst wh' = of_int cardWidth"
  shows "\<not> intersects (rect_at (grid_position (zone_x i) m) wh) (rect_at (grid_position (zone_x j) n) wh')"
proof -
  have small: "\<bar>zone_x k\<bar> < 2 ^ 53" "\<bar>zone_x k + cardWidth\<bar> < 2 ^ 53" if "k < length zoneOrder" for k
    using that by (simp_all add: zone_x_def zoneMarginX_def zonePitchX_def cardWidth_def zoneOrder_def)
  have x: "rnd (of_int (zone_x k)) = of_int (zone_x k)"
    "fadd (rnd (of_int (zone_x k))) (of_int cardWidth) = of_int (zone_x k + cardWidth)" if "k < length zoneOrder" for k
    using rnd_int[OF small(1)[OF that]] fadd_small[OF small(2)[OF that]] by simp_all
  have "zone_x i + cardWidth \<le> zone_x j \<or> zone_x j + cardWidth \<le> zone_x i"
    using assms(3) by (auto simp: zone_x_def zonePitchX_def cardWidth_def)
  then have "(of_int (zone_x i + cardWidth) :: rat) \<le> of_int (zone_x j) \<or> (of_int (zone_x j + cardWidth) :: rat) \<le> of_int (zone_x i)"
    by (simp only: of_int_le_iff)
  then show ?thesis
    using x[OF assms(1)] x[OF assms(2)] by (auto simp: intersects_def rect_at_def grid_position_def assms(4,5))
qed

text \<open>Placing with one more rectangle claimed that lies outside the column changes nothing else.\<close>

lemma place_bucket_extra:
  assumes claims: "\<forall>b \<in> set bs. \<forall>p. claim_rect objects' (ob_id b) p = claim_rect objects (ob_id b) p"
    and away: "\<And>b n. b \<in> set bs \<Longrightarrow> \<not> intersects (rect_at (grid_position x n) (footprint b)) r"
    and i: "i \<notin> ob_id ` set bs"
  shows "set occ' = insert r (set occ) \<Longrightarrow>
     fst (place_bucket objects' stored x next bs (out(i \<mapsto> q), occ')) = (fst (place_bucket objects stored x next bs (out, occ)))(i \<mapsto> q)
     \<and> set (snd (place_bucket objects' stored x next bs (out(i \<mapsto> q), occ')))
         = insert r (set (snd (place_bucket objects stored x next bs (out, occ))))"
  using claims away i
proof (induction bs arbitrary: out occ occ' "next")
  case Nil
  then show ?case by simp
next
  case (Cons b bs)
  have ne: "ob_id b \<noteq> i" using Cons.prems(4) by auto
  have tl: "\<forall>b \<in> set bs. \<forall>p. claim_rect objects' (ob_id b) p = claim_rect objects (ob_id b) p"
    "\<And>b n. b \<in> set bs \<Longrightarrow> \<not> intersects (rect_at (grid_position x n) (footprint b)) r" "i \<notin> ob_id ` set bs"
    using Cons.prems by auto
  show ?case
  proof (cases "map_of stored (ob_id b)")
    case (Some p)
    have "place_bucket objects' stored x next (b # bs) (out(i \<mapsto> q), occ')
        = place_bucket objects' stored x next bs ((out(ob_id b \<mapsto> p))(i \<mapsto> q), occ')"
      "place_bucket objects stored x next (b # bs) (out, occ) = place_bucket objects stored x next bs (out(ob_id b \<mapsto> p), occ)"
      by (simp_all only: place_bucket.simps Some option.case fun_upd_twist[OF ne, of out "Some p" "Some q"])
    then show ?thesis using Cons.IH[OF Cons.prems(1) tl, of "next" "out(ob_id b \<mapsto> p)"] by (simp only:)
  next
    case None
    have "overlaps occ' (rect_at (grid_position x n) (footprint b)) \<longleftrightarrow> overlaps occ (rect_at (grid_position x n) (footprint b))" for n
      using Cons.prems(1,3) by (simp add: overlaps_iff)
    then have s: "slot_from occ' (footprint b) x next = slot_from occ (footprint b) x next" by (rule slot_from_agree)
    let ?p = "grid_position x (slot_from occ (footprint b) x next)"
    have "set (occ' @ [claim_rect objects (ob_id b) ?p]) = insert r (set (occ @ [claim_rect objects (ob_id b) ?p]))"
      using Cons.prems(1) by auto
    note IH = Cons.IH[OF this tl, of "Suc (slot_from occ (footprint b) x next)" "out(ob_id b \<mapsto> ?p)"]
    have c: "claim_rect objects' (ob_id b) ?p = claim_rect objects (ob_id b) ?p" using Cons.prems(2) by simp
    have "place_bucket objects' stored x next (b # bs) (out(i \<mapsto> q), occ')
        = place_bucket objects' stored x (Suc (slot_from occ (footprint b) x next)) bs
            ((out(ob_id b \<mapsto> ?p))(i \<mapsto> q), occ' @ [claim_rect objects (ob_id b) ?p])"
      "place_bucket objects stored x next (b # bs) (out, occ)
        = place_bucket objects stored x (Suc (slot_from occ (footprint b) x next)) bs
            (out(ob_id b \<mapsto> ?p), occ @ [claim_rect objects (ob_id b) ?p])"
      by (simp_all only: place_bucket.simps None option.case Let_def s c fun_upd_twist[OF ne, of out "Some ?p" "Some q"])
    then show ?thesis using IH by (simp only:)
  qed
qed

lemma place_bucket_cong:
  assumes "\<forall>b \<in> set bs. \<forall>p. claim_rect objects' (ob_id b) p = claim_rect objects (ob_id b) p"
  shows "place_bucket objects' stored x next bs st = place_bucket objects stored x next bs st"
  using assms
proof (induction bs arbitrary: st "next")
  case Nil
  then show ?case by simp
next
  case (Cons b bs)
  obtain out occ where st: "st = (out, occ)" by fastforce
  have c: "claim_rect objects' (ob_id b) p = claim_rect objects (ob_id b) p" for p using Cons.prems by simp
  have tl: "\<forall>b \<in> set bs. \<forall>p. claim_rect objects' (ob_id b) p = claim_rect objects (ob_id b) p" using Cons.prems by simp
  show ?case
    by (cases "map_of stored (ob_id b)") (simp_all only: st place_bucket.simps option.case Let_def c Cons.IH[OF tl])
qed

lemma place_bucket_last:
  assumes "map_of stored (ob_id b) = None"
  shows "\<exists>slot. place_bucket objects stored x next (bs @ [b]) st
    = (case place_bucket objects stored x next bs st of (out, occ) \<Rightarrow>
        (out(ob_id b \<mapsto> grid_position x slot), occ @ [claim_rect objects (ob_id b) (grid_position x slot)]))"
proof (induction bs arbitrary: st "next")
  case Nil
  obtain out occ where st: "st = (out, occ)" by fastforce
  show ?case
    by (rule exI[of _ "slot_from occ (footprint b) x next"]) (simp only: st assms place_bucket.simps append_Nil option.case Let_def prod.case)
next
  case (Cons c bs)
  obtain out occ where st: "st = (out, occ)" by fastforce
  show ?case
  proof (cases "map_of stored (ob_id c)")
    case None
    then show ?thesis using Cons.IH by (simp add: st Let_def)
  next
    case (Some p)
    then show ?thesis using Cons.IH by (simp add: st)
  qed
qed

lemma by_id_snoc: "ob_id b \<noteq> i \<Longrightarrow> by_id (objects @ [b]) i = by_id objects i"
  by (simp add: by_id_def)

lemma claim_rect_snoc: "ob_id b \<noteq> i \<Longrightarrow> claim_rect (objects @ [b]) i p = claim_rect objects i p"
  by (simp add: claim_rect_def by_id_snoc)

lemma stored_claims_snoc:
  assumes "map_of stored (ob_id b) = None"
  shows "stored_claims (objects @ [b]) stored = stored_claims objects stored"
proof -
  have k: "i \<noteq> ob_id b" if "(i, p) \<in> set stored" for i p
    using that assms by (metis map_of_eq_None_iff fst_conv image_eqI)
  have "filter (\<lambda>(i, p). i \<in> ob_id ` set (objects @ [b])) stored = filter (\<lambda>(i, p). i \<in> ob_id ` set objects) stored"
    by (rule filter_cong) (use k in auto)
  then show ?thesis
    unfolding stored_claims_def by (simp only:) (rule map_cong[OF refl], use k claim_rect_snoc in fastforce)
qed

lemma bucket_other:
  assumes "zone_index (ob_kind b) \<noteq> Some zi"
  shows "bucket (objects @ [b]) zi = bucket objects zi"
  using assms by (simp add: bucket_def)

lemma bucket_last:
  assumes "zone_index (ob_kind b) = Some zi"
    "\<forall>c \<in> set objects. zone_index (ob_kind c) = Some zi \<longrightarrow> canonical_key c < canonical_key b"
  shows "bucket (objects @ [b]) zi = bucket objects zi @ [b]"
  unfolding bucket_def
proof (rule properties_for_sort_key)
  let ?xs = "filter (\<lambda>b. zone_index (ob_kind b) = Some zi) objects"
  show "mset (sort_key canonical_key ?xs @ [b]) = mset (filter (\<lambda>b. zone_index (ob_kind b) = Some zi) (objects @ [b]))"
    using assms(1) by simp
  show "filter (\<lambda>x. canonical_key k = canonical_key x) (sort_key canonical_key ?xs @ [b])
      = filter (\<lambda>x. canonical_key k = canonical_key x) (filter (\<lambda>b. zone_index (ob_kind b) = Some zi) (objects @ [b]))" for k
    using sort_key_stable[of canonical_key "canonical_key k" ?xs] assms(1) by (simp add: eq_commute)
  show "sorted (map canonical_key (sort_key canonical_key ?xs @ [b]))"
    using assms(2) by (auto simp: sorted_append)
qed

lemma place_zones_extra:
  assumes ids: "distinct (map ob_id (objects @ [b]))" and z: "zone_index (ob_kind b) = Some z"
    and r: "r = rect_at (grid_position (zone_x z) slot) (footprint b)"
  shows "\<forall>zi \<in> set zs. zi < length zoneOrder \<and> zi \<noteq> z \<Longrightarrow>
     set (snd st') = insert r (set (snd st)) \<Longrightarrow> fst st' = (fst st)(ob_id b \<mapsto> q) \<Longrightarrow>
     fst (fold (place_zone (objects @ [b]) stored) zs st') = (fst (fold (place_zone objects stored) zs st))(ob_id b \<mapsto> q)"
proof (induction zs arbitrary: st st')
  case Nil
  then show ?case by simp
next
  case (Cons zi zs)
  have bk: "bucket (objects @ [b]) zi = bucket objects zi" by (rule bucket_other) (use Cons.prems(1) z in simp)
  have ne: "ob_id c \<noteq> ob_id b" if "c \<in> set (bucket objects zi)" for c
    using ids other_id[of "ob_id b" "set objects" c] that by (simp add: bucket_def)
  have st: "st' = ((fst st)(ob_id b \<mapsto> q), snd st')" using Cons.prems(3) by (metis prod.collapse)
  have step: "fst (place_zone (objects @ [b]) stored zi st') = (fst (place_zone objects stored zi st))(ob_id b \<mapsto> q)
      \<and> set (snd (place_zone (objects @ [b]) stored zi st')) = insert r (set (snd (place_zone objects stored zi st)))"
    unfolding place_zone_def bk
  proof (subst (1 2) st, rule place_bucket_extra[where out = "fst st" and occ = "snd st", unfolded prod.collapse])
    show "\<forall>c \<in> set (bucket objects zi). \<forall>p. claim_rect (objects @ [b]) (ob_id c) p = claim_rect objects (ob_id c) p"
      using ne claim_rect_snoc by metis
    show "\<not> intersects (rect_at (grid_position (zone_x zi) n) (footprint c)) r" for c n
      unfolding r by (rule columns_apart) (use Cons.prems(1) zone_index_less[OF z] in \<open>simp_all add: footprint_width\<close>)
    show "ob_id b \<notin> ob_id ` set (bucket objects zi)" using ne by force
    show "set (snd st') = insert r (set (snd st))" by (rule Cons.prems(2))
  qed
  then show ?case using Cons.IH[of "place_zone (objects @ [b]) stored zi st'" "place_zone objects stored zi st"] Cons.prems(1) by simp
qed

text \<open>C27. Adding a card never moves another: a new card that is last of its zone in document
  order and has no stored position is placed, and every card already there keeps the very
  position it had, in its own zone and in the others.\<close>

theorem adding_never_reflows:
  assumes "generate objects stored = Inr out" "generate (objects @ [b]) stored = Inr out'"
    "distinct (map ob_id (objects @ [b]))" "unstored stored b"
    "\<forall>c \<in> set objects. ob_kind c = ob_kind b \<longrightarrow> canonical_key c < canonical_key b"
  shows "\<exists>p. out' = out(ob_id b \<mapsto> p)"
proof -
  obtain z where z: "zone_index (ob_kind b) = Some z" using assms(2) by (auto simp: generate_Inr)
  have zl: "z < length zoneOrder" by (rule zone_index_less[OF z])
  have kind: "k = l" if "zone_index k = Some z" "zone_index l = Some z" for k l
    using that by (cases k; cases l) auto
  have un: "map_of stored (ob_id b) = None" using assms(4) by (simp add: unstored_def)
  have ids: "ob_id b \<notin> ob_id ` set objects" using assms(3) by simp
  have same: "fold (place_zone (objects @ [b]) stored) zs st = fold (place_zone objects stored) zs st"
    if "z \<notin> set zs" for zs st
    using that
  proof (induction zs arbitrary: st)
    case (Cons zi zs)
    have bk: "bucket (objects @ [b]) zi = bucket objects zi" by (rule bucket_other) (use Cons.prems z in auto)
    have "place_zone (objects @ [b]) stored zi st = place_zone objects stored zi st"
      unfolding place_zone_def bk
      by (rule place_bucket_cong) (use ids claim_rect_snoc other_id[OF ids] in \<open>simp add: bucket_def\<close>, metis)
    then show ?case using Cons.IH Cons.prems by simp
  qed simp
  let ?st0 = "(Map.empty, stored_claims objects stored)"
  let ?st = "fold (place_zone objects stored) [0 ..< z] ?st0"
  have bl: "bucket (objects @ [b]) z = bucket objects z @ [b]"
    by (rule bucket_last[OF z]) (use assms(5) kind z in blast)
  have cong: "place_bucket (objects @ [b]) stored (zone_x z) 0 (bucket objects z) ?st = place_zone objects stored z ?st"
    unfolding place_zone_def
    by (rule place_bucket_cong) (use ids claim_rect_snoc other_id[OF ids] in \<open>simp add: bucket_def\<close>, metis)
  obtain slot where last: "place_zone (objects @ [b]) stored z ?st
      = (case place_zone objects stored z ?st of (o1, occ) \<Rightarrow>
          (o1(ob_id b \<mapsto> grid_position (zone_x z) slot),
           occ @ [claim_rect (objects @ [b]) (ob_id b) (grid_position (zone_x z) slot)]))"
    using place_bucket_last[OF un, of "objects @ [b]" "zone_x z" 0 "bucket objects z" ?st]
    unfolding place_zone_def[of "objects @ [b]"] bl cong by blast
  have split: "[0 ..< length zoneOrder] = [0 ..< z] @ z # [Suc z ..< length zoneOrder]"
    using upt_add_eq_append[of 0 z "length zoneOrder - z"] upt_conv_Cons[OF zl] zl by simp
  have r: "claim_rect (objects @ [b]) (ob_id b) (grid_position (zone_x z) slot) = rect_at (grid_position (zone_x z) slot) (footprint b)"
    by (rule claim_rect_footprint[OF assms(3)]) simp
  have "fst (fold (place_zone (objects @ [b]) stored) [Suc z ..< length zoneOrder] (place_zone (objects @ [b]) stored z ?st))
      = (fst (fold (place_zone objects stored) [Suc z ..< length zoneOrder] (place_zone objects stored z ?st)))
          (ob_id b \<mapsto> grid_position (zone_x z) slot)"
    by (rule place_zones_extra[OF assms(3) z refl, of _ _ slot])
      (simp_all add: last r split: prod.split)
  moreover have "out' = fst (fold (place_zone (objects @ [b]) stored) [Suc z ..< length zoneOrder]
      (place_zone (objects @ [b]) stored z ?st))"
    using assms(2) same[of "[0 ..< z]"] by (simp add: generate_Inr split stored_claims_snoc[OF un])
  moreover have "out = fst (fold (place_zone objects stored) [Suc z ..< length zoneOrder] (place_zone objects stored z ?st))"
    using assms(1) by (simp add: generate_Inr split)
  ultimately show ?thesis by blast
qed

section \<open>A board with a collision\<close>

definition sample_card :: "board_zone \<Rightarrow> string \<Rightarrow> int \<Rightarrow> board_object" where
  "sample_card k i n = \<lparr>ob_kind = k, ob_id = i, ob_order = n, ob_height = 0\<rparr>"

definition sample_board :: "board_object list" where
  "sample_board = [sample_card ZoneAC ''ac-1'' 0, sample_card ZoneDecision ''dc-1'' 0, sample_card ZoneAC ''ac-2'' 1]"

definition sample_stored :: "(string \<times> board_position) list" where
  "sample_stored = [(''ac-1'', \<lparr>bp_x = 40, bp_y = 40\<rparr>), (''dc-1'', \<lparr>bp_x = 50, bp_y = 60\<rparr>)]"

lemma sample_collides:
  "intersects (rect_at \<lparr>bp_x = 40, bp_y = 40\<rparr> (footprint (sample_card ZoneAC ''ac-1'' 0)))
     (rect_at \<lparr>bp_x = 50, bp_y = 60\<rparr> (footprint (sample_card ZoneDecision ''dc-1'' 0)))"
  using fadd_small[of 40 200] fadd_small[of 40 140] fadd_small[of 50 200] fadd_small[of 60 140]
  by (simp add: intersects_def rect_at_def footprint_def footprint_for_def sample_card_def cardWidth_def cardHeight_def)

lemma sample_known: "\<forall>b \<in> set sample_board. zone_index (ob_kind b) \<noteq> None"
  by (simp add: sample_board_def sample_card_def)

lemma sample_ids: "distinct (map ob_id sample_board)"
  by (simp add: sample_board_def sample_card_def)

lemma sample_generates: "\<exists>out. generate sample_board stored = Inr out"
  using sample_known by (simp add: generate_Inr)

lemma sample_displays: "\<exists>out. resolve_display_overlaps sample_board sample_stored = Inr out"
proof -
  have "unknown_kind sample_board = None" using sample_known unfolding unknown_kind_None .
  then show ?thesis using sample_generates by (simp add: resolve_display_overlaps_def Let_def)
qed

lemma slot_search_finds_first_witness:
  "\<exists>slot. slot_from [rect_at \<lparr>bp_x = 40, bp_y = 40\<rparr> (200, 140)] (200, 140) 40 0 = slot \<and> 0 < slot
     \<and> is_free [rect_at \<lparr>bp_x = 40, bp_y = 40\<rparr> (200, 140)] (200, 140) (grid_position 40 slot)"
proof -
  have "rnd 40 = 40" using rnd_int[of 40] by simp
  then have "\<not> is_free [rect_at \<lparr>bp_x = 40, bp_y = 40\<rparr> (200, 140)] (200, 140) (grid_position 40 0)"
    using fadd_small[of 40 200] fadd_small[of 40 140]
    by (simp add: is_free_def overlaps_iff intersects_def rect_at_def grid_position_def zoneOriginY_def)
  then show ?thesis
    using slot_search_finds_first[of "[rect_at \<lparr>bp_x = 40, bp_y = 40\<rparr> (200, 140)]" "(200, 140)" 40 0] by (metis gr0I)
qed

lemma rnd_numeral: "(numeral n :: int) < 2 ^ 53 \<Longrightarrow> rnd (numeral n) = numeral n"
  using rnd_int[of "numeral n"] by simp

lemmas small_floats = fadd_def fsub_def fmul_def rnd_numeral rnd_minus

lemma sample_drop: "resolve_drop \<lparr>bp_x = 50, bp_y = 60\<rparr> (200, 140) [rect_at \<lparr>bp_x = 40, bp_y = 40\<rparr> (200, 140)] = \<lparr>bp_x = 50, bp_y = 192\<rparr>"
  by (simp add: resolve_drop_def is_free_def overlaps_def intersects_def rect_at_def clamp_def drop_candidates_def
      slide_outs_def dropClearance_def drop_key_def sq_def small_floats)

lemma drop_lands_free_witness:
  "resolve_drop \<lparr>bp_x = 50, bp_y = 60\<rparr> (200, 140) [rect_at \<lparr>bp_x = 40, bp_y = 40\<rparr> (200, 140)] = \<lparr>bp_x = 50, bp_y = 192\<rparr>
   \<and> \<not> nearer \<lparr>bp_x = 50, bp_y = 60\<rparr> \<lparr>bp_x = 252, bp_y = 60\<rparr>
       (resolve_drop \<lparr>bp_x = 50, bp_y = 60\<rparr> (200, 140) [rect_at \<lparr>bp_x = 40, bp_y = 40\<rparr> (200, 140)])"
proof
  let ?o = "[rect_at \<lparr>bp_x = 40, bp_y = 40\<rparr> (200, 140)]" and ?p = "\<lparr>bp_x = 50, bp_y = 60\<rparr>"
  show "resolve_drop ?p (200, 140) ?o = \<lparr>bp_x = 50, bp_y = 192\<rparr>" by (rule sample_drop)
  have c: "clamp ?p = ?p" by (simp add: clamp_def)
  have "\<not> is_free ?o (200, 140) ?p" "slide_place ?p (200, 140) ?o \<lparr>bp_x = 252, bp_y = 60\<rparr>"
    by (simp_all add: slide_place_def slid_off_def is_free_def overlaps_def intersects_def rect_at_def small_floats)
  then show "\<not> nearer ?p \<lparr>bp_x = 252, bp_y = 60\<rparr> (resolve_drop ?p (200, 140) ?o)"
    using drop_lands_free[of ?o "(200, 140)" ?p] unfolding c by metis
qed

lemma display_drawn:
  assumes "resolve_display_overlaps objects stored = Inr out" "distinct (map ob_id objects)" "b \<in> set objects"
    "map_of (rev (drawn objects stored)) (ob_id b) = Some p"
  shows "out (ob_id b) = Some p"
  using generate_keeps_and_avoids[OF display_generate[OF assms(1)] assms(2)] assms(3,4) by blast

lemma sample_drawn: "drawn sample_board sample_stored = [(''ac-1'', \<lparr>bp_x = 40, bp_y = 40\<rparr>), (''dc-1'', \<lparr>bp_x = 50, bp_y = 192\<rparr>)]"
  using sample_drop
  by (simp add: drawn_def with_stored_def sample_board_def sample_stored_def sample_card_def canonical_key_def
      overlaps_def intersects_def rect_at_def footprint_def footprint_for_def cardWidth_def cardHeight_def small_floats)

lemma display_never_stacks_witness:
  "\<exists>out. resolve_display_overlaps sample_board sample_stored = Inr out
     \<and> \<not> overlap_beyond 0 (card_rect out (sample_card ZoneAC ''ac-1'' 0)) (card_rect out (sample_card ZoneDecision ''dc-1'' 0))"
proof -
  let ?a = "sample_card ZoneAC ''ac-1'' 0" and ?d = "sample_card ZoneDecision ''dc-1'' 0"
  obtain out where out: "resolve_display_overlaps sample_board sample_stored = Inr out" using sample_displays by blast
  have mem: "?a \<in> set sample_board" "?d \<in> set sample_board" by (simp_all add: sample_board_def)
  have "card_rect out ?a = rect_at \<lparr>bp_x = 40, bp_y = 40\<rparr> (200, 140)" "card_rect out ?d = rect_at \<lparr>bp_x = 50, bp_y = 192\<rparr> (200, 140)"
    using display_drawn[OF out sample_ids mem(1)] display_drawn[OF out sample_ids mem(2)]
    by (simp_all add: sample_drawn sample_card_def card_rect_def footprint_def footprint_for_def cardWidth_def cardHeight_def)
  then have "on_board (card_rect out ?a) \<and> whole (card_rect out ?a)" "on_board (card_rect out ?d) \<and> whole (card_rect out ?d)"
    by (simp_all add: on_board_def whole_def rect_at_def)
  moreover have "?a \<noteq> ?d" by (simp add: sample_card_def)
  ultimately show ?thesis using out display_never_stacks[OF out sample_ids] mem by blast
qed

text \<open>Far out, the overlap test rounds the size of a card away and lets two cards share a place.\<close>

lemma far_cards_stack:
  "\<exists>out. resolve_display_overlaps [sample_card ZoneAC ''ac-1'' 0, sample_card ZoneAC ''ac-2'' 1]
       [(''ac-1'', \<lparr>bp_x = 10 ^ 19, bp_y = 40\<rparr>), (''ac-2'', \<lparr>bp_x = 10 ^ 19, bp_y = 40\<rparr>)] = Inr out
     \<and> out ''ac-1'' = Some \<lparr>bp_x = 10 ^ 19, bp_y = 40\<rparr> \<and> out ''ac-2'' = Some \<lparr>bp_x = 10 ^ 19, bp_y = 40\<rparr>"
proof -
  let ?bs = "[sample_card ZoneAC ''ac-1'' 0, sample_card ZoneAC ''ac-2'' 1]"
  let ?st = "[(''ac-1'', \<lparr>bp_x = 10 ^ 19, bp_y = 40\<rparr>), (''ac-2'', \<lparr>bp_x = 10 ^ 19, bp_y = 40\<rparr>)]"
  have far: "fadd (10 ^ 19) 200 = 10 ^ 19" by code_simp
  have "drawn ?bs ?st = ?st"
    using far by (simp add: Let_def drawn_def with_stored_def sample_card_def canonical_key_def overlaps_def intersects_def rect_at_def
        footprint_def footprint_for_def cardWidth_def cardHeight_def)
  moreover obtain out where out: "resolve_display_overlaps ?bs ?st = Inr out"
    using generate_Inr[of ?bs "rev (resolve_stored ?st (sort_key canonical_key (filter (\<lambda>b. map_of ?st (ob_id b) \<noteq> None) ?bs)) [])"]
    by (auto simp: resolve_display_overlaps_def unknown_kind_def sample_card_def Let_def)
  ultimately have "out (ob_id b) = Some \<lparr>bp_x = 10 ^ 19, bp_y = 40\<rparr>" if "b \<in> set ?bs" for b
    using that by (intro display_drawn[OF out]) (auto simp: sample_card_def)
  then show ?thesis using out by (force simp: sample_card_def)
qed

lemma adding_never_reflows_witness:
  "\<exists>out out'. generate [sample_card ZoneAC ''ac-1'' 0, sample_card ZoneDecision ''dc-1'' 0] [] = Inr out
     \<and> generate sample_board [] = Inr out' \<and> out' ''ac-1'' = out ''ac-1'' \<and> out' ''dc-1'' = out ''dc-1''"
proof -
  let ?old = "[sample_card ZoneAC ''ac-1'' 0, sample_card ZoneDecision ''dc-1'' 0]"
  obtain out' where new: "generate (?old @ [sample_card ZoneAC ''ac-2'' 1]) [] = Inr out'"
    using sample_generates[of "[]"] by (auto simp: sample_board_def)
  obtain out where old: "generate ?old [] = Inr out" by (auto simp: generate_Inr sample_card_def)
  have "\<exists>p. out' = out(ob_id (sample_card ZoneAC ''ac-2'' 1) \<mapsto> p)"
    by (rule adding_never_reflows[OF old new])
      (simp_all add: sample_card_def unstored_def canonical_key_def)
  then show ?thesis using old new by (auto simp: sample_board_def sample_card_def)
qed

end
