(* ===== verification/Doubles.thy ===== *)
theory Doubles
  imports Floats
begin

text \<open>
  Go's \<^verbatim>\<open>float64\<close> with its infinities and NaN: a sum, product or quotient of finite values is
  the rounded rational, or an infinity from \<open>2 ^ 1024\<close> on. The sign of a zero is not kept (no
  source here divides by one). \<open>parse_float\<close> is \<^verbatim>\<open>strconv.ParseFloat\<close> on JSON number literals.
\<close>

datatype f64 = Fin rat | PosInf | NegInf | NaN

text \<open>The order that sorts: NaN is greatest here, and never compared by the sources that sort.\<close>

instantiation f64 :: linorder
begin

fun less_eq_f64 :: "f64 \<Rightarrow> f64 \<Rightarrow> bool" where
  "less_eq_f64 NegInf _ = True"
| "less_eq_f64 _ NaN = True"
| "less_eq_f64 (Fin x) (Fin y) = (x \<le> y)"
| "less_eq_f64 (Fin x) PosInf = True"
| "less_eq_f64 PosInf PosInf = True"
| "less_eq_f64 _ _ = False"

definition less_f64 :: "f64 \<Rightarrow> f64 \<Rightarrow> bool" where
  "less_f64 a b \<longleftrightarrow> a \<le> b \<and> \<not> b \<le> (a :: f64)"

instance
proof
  fix a b c :: f64
  show "a < b \<longleftrightarrow> a \<le> b \<and> \<not> b \<le> a" by (simp add: less_f64_def)
  show "a \<le> a" by (cases a) auto
  show "a \<le> b \<Longrightarrow> b \<le> c \<Longrightarrow> a \<le> c" by (cases a; cases b; cases c) auto
  show "a \<le> b \<Longrightarrow> b \<le> a \<Longrightarrow> a = b" by (cases a; cases b) auto
  show "a \<le> b \<or> b \<le> a" by (cases a; cases b) auto
qed

end

section \<open>Arithmetic\<close>

definition is_fin :: "f64 \<Rightarrow> bool" where
  "is_fin a \<longleftrightarrow> (case a of Fin _ \<Rightarrow> True | _ \<Rightarrow> False)"

definition f_of :: "rat \<Rightarrow> f64" where
  "f_of x = (let r = rnd x in if 2 ^ 1024 \<le> r then PosInf else if r \<le> - (2 ^ 1024) then NegInf else Fin r)"

fun f_neg :: "f64 \<Rightarrow> f64" where
  "f_neg (Fin x) = Fin (- x)"
| "f_neg PosInf = NegInf"
| "f_neg NegInf = PosInf"
| "f_neg NaN = NaN"

fun f_add :: "f64 \<Rightarrow> f64 \<Rightarrow> f64" where
  "f_add (Fin x) (Fin y) = f_of (x + y)"
| "f_add NaN _ = NaN"
| "f_add _ NaN = NaN"
| "f_add PosInf NegInf = NaN"
| "f_add NegInf PosInf = NaN"
| "f_add PosInf _ = PosInf"
| "f_add _ PosInf = PosInf"
| "f_add NegInf _ = NegInf"
| "f_add _ NegInf = NegInf"

definition f_sub :: "f64 \<Rightarrow> f64 \<Rightarrow> f64" where
  "f_sub a b = f_add a (f_neg b)"

text \<open>The infinity of the sign of \<open>s\<close>, for a product or quotient by one.\<close>

definition inf_sign :: "rat \<Rightarrow> f64" where
  "inf_sign s = (if s = 0 then NaN else if 0 < s then PosInf else NegInf)"

fun f_mul :: "f64 \<Rightarrow> f64 \<Rightarrow> f64" where
  "f_mul (Fin x) (Fin y) = f_of (x * y)"
| "f_mul NaN _ = NaN"
| "f_mul _ NaN = NaN"
| "f_mul (Fin x) PosInf = inf_sign x"
| "f_mul (Fin x) NegInf = inf_sign (- x)"
| "f_mul PosInf (Fin y) = inf_sign y"
| "f_mul NegInf (Fin y) = inf_sign (- y)"
| "f_mul PosInf PosInf = PosInf"
| "f_mul NegInf NegInf = PosInf"
| "f_mul PosInf NegInf = NegInf"
| "f_mul NegInf PosInf = NegInf"

fun f_div :: "f64 \<Rightarrow> f64 \<Rightarrow> f64" where
  "f_div (Fin x) (Fin y) = (if y = 0 then inf_sign x else f_of (x / y))"
| "f_div NaN _ = NaN"
| "f_div _ NaN = NaN"
| "f_div (Fin x) _ = Fin 0"
| "f_div PosInf (Fin y) = (if y < 0 then NegInf else PosInf)"
| "f_div NegInf (Fin y) = (if y < 0 then PosInf else NegInf)"
| "f_div _ _ = NaN"

text \<open>IEEE comparisons: NaN compares with nothing.\<close>

definition f_le :: "f64 \<Rightarrow> f64 \<Rightarrow> bool" where
  "f_le a b \<longleftrightarrow> a \<noteq> NaN \<and> b \<noteq> NaN \<and> a \<le> b"

definition f_less :: "f64 \<Rightarrow> f64 \<Rightarrow> bool" where
  "f_less a b \<longleftrightarrow> a \<noteq> NaN \<and> b \<noteq> NaN \<and> a < b"

definition f_eq :: "f64 \<Rightarrow> f64 \<Rightarrow> bool" where
  "f_eq a b \<longleftrightarrow> a \<noteq> NaN \<and> a = b"

lemma is_fin_simps [simp]: "is_fin (Fin x)" "\<not> is_fin PosInf" "\<not> is_fin NegInf" "\<not> is_fin NaN"
  by (simp_all add: is_fin_def)

lemma is_fin_iff: "is_fin a \<longleftrightarrow> (\<exists>x. a = Fin x)"
  by (cases a) auto

lemma Fin_order [simp]: "Fin x \<le> Fin y \<longleftrightarrow> x \<le> y" "Fin x < Fin y \<longleftrightarrow> x < y"
  by (auto simp: less_f64_def)

lemma f_le_Fin [simp]: "f_le (Fin x) (Fin y) \<longleftrightarrow> x \<le> y" "f_less (Fin x) (Fin y) \<longleftrightarrow> x < y"
  "f_eq (Fin x) b \<longleftrightarrow> Fin x = b"
  by (auto simp: f_le_def f_less_def f_eq_def)

lemma f_le_trans: "f_le a b \<Longrightarrow> f_le b c \<Longrightarrow> f_le a c"
  by (auto simp: f_le_def)

lemma f_of_not_NaN [simp]: "f_of x \<noteq> NaN"
  by (simp add: f_of_def Let_def)

lemma f_of_mono: "x \<le> y \<Longrightarrow> f_of x \<le> f_of y"
proof -
  assume "x \<le> y"
  then have "rnd x \<le> rnd y" by (rule rnd_mono)
  then show ?thesis by (auto simp: f_of_def Let_def)
qed

text \<open>A finite double: a rational that rounding keeps.\<close>

definition fin_double :: "rat \<Rightarrow> bool" where
  "fin_double x \<longleftrightarrow> is_double x \<and> \<bar>x\<bar> < 2 ^ 1024"

lemma f_of_double: "fin_double x \<Longrightarrow> f_of x = Fin x"
  by (auto simp: fin_double_def is_double_def f_of_def)

lemma f_of_le: "x \<le> y \<Longrightarrow> fin_double y \<Longrightarrow> f_le (f_of x) (Fin y)"
  using f_of_mono[of x y] by (simp add: f_of_double f_le_def)

lemma f_of_ge: "y \<le> x \<Longrightarrow> fin_double y \<Longrightarrow> f_le (Fin y) (f_of x)"
  using f_of_mono[of y x] by (simp add: f_of_double f_le_def)

lemma fin_double_int: "\<bar>n\<bar> < 2 ^ 53 \<Longrightarrow> fin_double (of_int n)"
proof -
  assume n: "\<bar>n\<bar> < 2 ^ 53"
  have "\<bar>of_int n :: rat\<bar> = of_int \<bar>n\<bar>" by simp
  also have "\<dots> < of_int (2 ^ 53)" using n by (simp only: of_int_less_iff)
  also have "\<dots> \<le> (2 ^ 1024 :: rat)" by simp
  finally show ?thesis using n by (auto simp: fin_double_def)
qed

lemma fin_double_01 [simp]: "fin_double 0" "fin_double 1"
  using fin_double_int[of 0] fin_double_int[of 1] by simp_all

section \<open>Number literals\<close>

text \<open>The value of a JSON number literal; other texts have none.\<close>

definition digit_span :: "string \<Rightarrow> string \<times> string" where
  "digit_span s = (takeWhile is_digit s, dropWhile is_digit s)"

definition cut_sign :: "string \<Rightarrow> bool \<times> string" where
  "cut_sign s = (case s of c # t \<Rightarrow> if c = CHR ''-'' then (True, t) else (False, s) | [] \<Rightarrow> (False, s))"

definition exponent_part :: "string \<Rightarrow> int option" where
  "exponent_part s =
     (case s of
        [] \<Rightarrow> Some 0
      | c # t \<Rightarrow>
          if c = CHR ''e'' \<or> c = CHR ''E'' then
            (let (neg, u) = (case t of d # v \<Rightarrow> if d = CHR ''+'' then (False, v) else cut_sign t | [] \<Rightarrow> (False, t)) in
             if u \<noteq> [] \<and> list_all is_digit u then Some (if neg then - digits_value u else digits_value u) else None)
          else None)"

definition number_value :: "string \<Rightarrow> rat option" where
  "number_value s =
     (let (neg, s1) = cut_sign s; (whole, s2) = digit_span s1;
          (frac, s3, point) = (case s2 of c # t \<Rightarrow> if c = CHR ''.'' then (fst (digit_span t), snd (digit_span t), True) else ([], s2, False)
                         | [] \<Rightarrow> ([], s2, False)) in
      if whole = [] \<or> (1 < length whole \<and> hd whole = CHR ''0'') \<or> (point \<and> frac = []) then None
      else
        (case exponent_part s3 of
           None \<Rightarrow> None
         | Some e \<Rightarrow>
             (let v = of_int (digits_value (whole @ frac)) * 10 powi (e - int (length frac)) in
              Some (if neg then - v else v))))"

definition parse_float :: "string \<Rightarrow> rat option" where
  "parse_float s =
     (case number_value s of None \<Rightarrow> None | Some v \<Rightarrow> (case f_of v of Fin x \<Rightarrow> Some x | _ \<Rightarrow> None))"

lemma parse_float_Some: "parse_float s = Some x \<Longrightarrow> \<exists>v. f_of v = Fin x"
  by (auto simp: parse_float_def split: option.splits f64.splits)

text \<open>Rounding twice is rounding once, so what is parsed or computed is a double.\<close>

lemma rnd_pos_idem:
  assumes "0 < x"
  shows "rnd (rnd_pos x) = rnd_pos x"
proof -
  let ?u = "ulp_exp x"
  let ?m = "round_even (x / 2 powi ?u)"
  have u: "- 1074 \<le> ?u" "flog2 x + 1 \<le> ?u + 53" by (auto simp: ulp_exp_def)
  have "x < 2 powi (flog2 x + 1)" by (rule flog2_bounds(2)[OF assms])
  also have "\<dots> \<le> 2 powi (?u + 53)" by (rule powi_le[OF u(2)])
  also have "\<dots> = of_int (2 ^ 53) * 2 powi ?u" by (simp add: power_int_add)
  finally have "x / 2 powi ?u \<le> of_int (2 ^ 53)" by (simp add: pos_divide_le_eq)
  then have top: "?m \<le> 2 ^ 53" by (rule round_even_le)
  have "0 \<le> ?m" by (rule round_even_ge) (use assms in simp)
  then consider "?m = 0" | "0 < ?m" "?m < 2 ^ 53" | "?m = 2 ^ 53" using top by linarith
  then show ?thesis
  proof cases
    case 1
    then show ?thesis by (simp add: rnd_pos_def)
  next
    case 2
    then have "0 < of_int ?m * (2 :: rat) powi ?u" by simp
    then show ?thesis using rnd_powi_multiple[OF 2 u(1)] by (simp add: rnd_def rnd_pos_def[of x])
  next
    case 3
    then have "rnd_pos x = of_int 1 * 2 powi (?u + 53)" by (simp add: rnd_pos_def power_int_add)
    moreover have "rnd_pos (of_int 1 * 2 powi (?u + 53)) = of_int 1 * 2 powi (?u + 53)"
      by (rule rnd_powi_multiple) (use u in simp_all)
    ultimately show ?thesis by (simp add: rnd_def)
  qed
qed

lemma rnd_idem [simp]: "rnd (rnd x) = rnd x"
proof (cases x "0 :: rat" rule: linorder_cases)
  case less
  then have "rnd x = - rnd_pos (- x)" by (simp add: rnd_def)
  then show ?thesis using rnd_pos_idem[of "- x"] less by (simp add: rnd_minus)
next
  case greater
  then show ?thesis using rnd_pos_idem[of x] by (simp add: rnd_def[of x])
qed simp

lemma f_of_Fin: "f_of v = Fin x \<Longrightarrow> fin_double x"
  by (auto simp: f_of_def fin_double_def is_double_def Let_def split: if_splits)

lemma parse_float_double: "parse_float s = Some x \<Longrightarrow> fin_double x"
  using parse_float_Some f_of_Fin by blast

lemma f_of_finite: "is_fin (f_of v) \<longleftrightarrow> \<bar>rnd v\<bar> < 2 ^ 1024"
  by (auto simp: f_of_def Let_def)

end
