(* ===== verification/Experiments.thy ===== *)
theory Experiments
  imports Links Doubles
begin

text \<open>
  The experiment registration (internal/experiment: grammar.go, enums.go, candidate.go,
  definition.go, normalize.go): the definition of a comparison, its validation, its
  identity and its lock. The digest of the canonical JSON of a normalized definition is
  the argument \<open>dg\<close>. The YAML layer is not here; its numbers may be any \<^verbatim>\<open>float64\<close>.
\<close>

section \<open>Grammar\<close>

definition digestRe :: rx where
  "digestRe = Cat (Lit ''sha256:'') (Rep 64 hex_lower)"

definition ex_idRe :: rx where
  "ex_idRe = nameSegment"

definition ex_commitRe :: rx where
  "ex_commitRe = Rep 40 hex_lower"

definition spikeRe :: rx where
  "spikeRe = Cat (Lit ''spec/'') nameSegment"

definition questionRe :: rx where
  "questionRe = Cat (Lit ''spec/'') (Cat nameSegment (Cat (Lit ''#'') nameSegment))"

definition digest_ok :: "string \<Rightarrow> bool" where
  "digest_ok s \<longleftrightarrow> rx_match digestRe s"

definition id_ok :: "string \<Rightarrow> bool" where
  "id_ok s \<longleftrightarrow> rx_match ex_idRe s"

definition commit_ok :: "string \<Rightarrow> bool" where
  "commit_ok s \<longleftrightarrow> rx_match ex_commitRe s"

text \<open>White space and control characters, rune by rune.\<close>

definition rune_blank :: "string \<Rightarrow> bool" where
  "rune_blank r \<longleftrightarrow>
     (case r of
        [a] \<Rightarrow> of_char a < (33 :: nat) \<or> a = CHR 0x7F
      | [a, b] \<Rightarrow> a = CHR 0xC2 \<and> of_char b \<in> {0x80 ..< (0xA1 :: nat)}
      | [a, b, c] \<Rightarrow> space3 a b c
      | _ \<Rightarrow> False)"

function unit_runes_ok :: "string \<Rightarrow> bool" where
  "unit_runes_ok [] = True"
| "unit_runes_ok (c # s) =
     (\<not> rune_blank (take (rune_width (c # s)) (c # s)) \<and> unit_runes_ok (drop (rune_width (c # s)) (c # s)))"
  by pat_completeness auto

termination
  by (relation "measure length") (auto simp: rune_width_pos)

declare unit_runes_ok.simps(2) [simp del]

definition unit_ok :: "string \<Rightarrow> bool" where
  "unit_ok u \<longleftrightarrow> u \<noteq> '''' \<and> unit_runes_ok u"

datatype path_error = PathEmpty | PathLeadingSlash string | PathEmptySegment string | PathDotSegment string string

definition repo_path :: "string \<Rightarrow> path_error option" where
  "repo_path p = first_error
     [check (p = '''') PathEmpty,
      check (has_prefix p ''/'') (PathLeadingSlash p),
      scan_idx (\<lambda>_ e. e)
        (\<lambda>seg. first_error [check (seg = '''') (PathEmptySegment p),
                            check (seg = ''.'' \<or> seg = ''..'') (PathDotSegment p seg)])
        0 (split_on CHR ''/'' p)]"

section \<open>Vocabularies\<close>

datatype metric_type =
    MetricDuration | MetricBytes | MetricCount | MetricRatio | MetricScalar | MetricBoolean | MetricUnknown string

datatype aggregation = AggP50 | AggP95 | AggMaximum | AggMean | AggRate | AggUnknown string

datatype direction = DirLower | DirHigher | DirUnknown string

datatype order = OrderRotation | OrderUnknown string

datatype algorithm = AlgorithmV1 | AlgorithmUnknown string

fun metric_type_ok :: "metric_type \<Rightarrow> bool" where
  "metric_type_ok (MetricUnknown _) = False"
| "metric_type_ok _ = True"

fun aggregation_ok :: "aggregation \<Rightarrow> bool" where
  "aggregation_ok (AggUnknown _) = False"
| "aggregation_ok _ = True"

fun direction_ok :: "direction \<Rightarrow> bool" where
  "direction_ok (DirUnknown _) = False"
| "direction_ok _ = True"

fun order_ok :: "order \<Rightarrow> bool" where
  "order_ok OrderRotation = True"
| "order_ok _ = False"

fun algorithm_ok :: "algorithm \<Rightarrow> bool" where
  "algorithm_ok AlgorithmV1 = True"
| "algorithm_ok _ = False"

section \<open>Durations\<close>

text \<open>\<^verbatim>\<open>time.ParseDuration\<close>, in nanoseconds; its sums are of 64-bit unsigned words.\<close>

fun leading_int :: "nat \<Rightarrow> string \<Rightarrow> (nat \<times> string) option" where
  "leading_int x [] = Some (x, [])"
| "leading_int x (c # s) =
     (if \<not> is_digit c then Some (x, c # s)
      else if x > 2 ^ 63 div 10 then None
      else (let y = 10 * x + (of_char c - 48) in if y > 2 ^ 63 then None else leading_int y s))"

fun leading_fraction :: "nat \<Rightarrow> rat \<Rightarrow> bool \<Rightarrow> string \<Rightarrow> nat \<times> rat \<times> string" where
  "leading_fraction x scale over [] = (x, scale, [])"
| "leading_fraction x scale over (c # s) =
     (if \<not> is_digit c then (x, scale, c # s)
      else if over then leading_fraction x scale over s
      else if x > (2 ^ 63 - 1) div 10 then leading_fraction x scale True s
      else (let y = 10 * x + (of_char c - 48) in
            if y > 2 ^ 63 then leading_fraction x scale True s
            else leading_fraction y (fmul scale 10) over s))"

definition unit_size :: "string \<Rightarrow> nat option" where
  "unit_size u =
     (if u = ''ns'' then Some 1
      else if u = ''us'' \<or> u = [CHR 0xC2, CHR 0xB5, CHR ''s''] \<or> u = [CHR 0xCE, CHR 0xBC, CHR ''s''] then Some 1000
      else if u = ''ms'' then Some 1000000
      else if u = ''s'' then Some 1000000000
      else if u = ''m'' then Some 60000000000
      else if u = ''h'' then Some 3600000000000
      else None)"

definition unit_char :: "char \<Rightarrow> bool" where
  "unit_char c \<longleftrightarrow> \<not> (c = CHR ''.'' \<or> is_digit c)"

definition duration_unit :: "nat \<Rightarrow> nat \<Rightarrow> rat \<Rightarrow> string \<Rightarrow> (nat \<times> string) option" where
  "duration_unit v f scale s =
     (case unit_size (takeWhile unit_char s) of
        None \<Rightarrow> None
      | Some u \<Rightarrow>
          if v > 2 ^ 63 div u then None
          else (let w = v * u + (if 0 < f then nat \<lfloor>fmul (rnd (of_nat f)) (fdiv (of_nat u) scale)\<rfloor> else 0) in
                if w > 2 ^ 63 then None else Some (w, dropWhile unit_char s)))"

definition duration_term :: "string \<Rightarrow> (nat \<times> string) option" where
  "duration_term s =
     (if s = [] \<or> \<not> (hd s = CHR ''.'' \<or> is_digit (hd s)) then None
      else
        (case leading_int 0 s of
           None \<Rightarrow> None
         | Some (v, s1) \<Rightarrow>
             (case s1 of
                [] \<Rightarrow> None
              | c # t \<Rightarrow>
                  if c = CHR ''.'' then
                    (case leading_fraction 0 1 False t of (f, scale, s2) \<Rightarrow>
                       if length s1 = length s \<and> length s2 = length t then None else duration_unit v f scale s2)
                  else duration_unit v 0 1 s1)))"

lemma leading_int_shorter: "leading_int x s = Some (v, t) \<Longrightarrow> length t \<le> length s"
proof (induction s arbitrary: x)
  case (Cons c s)
  then show ?case by (fastforce simp: Let_def split: if_splits)
qed simp

lemma leading_fraction_shorter: "leading_fraction x k over s = (f, k', t) \<Longrightarrow> length t \<le> length s"
proof (induction s arbitrary: x k over)
  case (Cons c s)
  then show ?case by (fastforce simp: Let_def split: if_splits)
qed simp

lemma duration_unit_shorter: "duration_unit v f k s = Some (w, t) \<Longrightarrow> length t < length s"
proof -
  assume a: "duration_unit v f k s = Some (w, t)"
  then have t: "t = dropWhile unit_char s" and u: "takeWhile unit_char s \<noteq> []"
    by (auto simp: duration_unit_def unit_size_def Let_def split: option.splits if_splits)
  have "length s = length (takeWhile unit_char s) + length t"
    unfolding t by (metis length_append takeWhile_dropWhile_id)
  then show ?thesis using u by simp
qed

lemma duration_term_shorter: "duration_term s = Some (w, t) \<Longrightarrow> length t < length s"
  by (auto simp: duration_term_def split: if_splits option.splits list.splits prod.splits
      dest!: duration_unit_shorter leading_int_shorter leading_fraction_shorter)

function duration_sum :: "nat \<Rightarrow> string \<Rightarrow> nat option" where
  "duration_sum d s =
     (if s = [] then Some d
      else
        (case duration_term s of
           None \<Rightarrow> None
         | Some (v, t) \<Rightarrow>
             (let d' = (d + v) mod 2 ^ 64 in if d' > 2 ^ 63 then None else duration_sum d' t)))"
  by pat_completeness auto

termination
  by (relation "measure (\<lambda>(d, s). length s)") (auto dest: duration_term_shorter)

declare duration_sum.simps [simp del]

definition parse_duration :: "string \<Rightarrow> int option" where
  "parse_duration text =
     (let (neg, s) =
        (case text of c # t \<Rightarrow> if c = CHR ''-'' then (True, t) else if c = CHR ''+'' then (False, t) else (False, text)
         | [] \<Rightarrow> (False, text)) in
      if s = ''0'' then Some 0
      else if s = '''' then None
      else
        (case duration_sum 0 s of
           None \<Rightarrow> None
         | Some d \<Rightarrow> if neg then Some (- int d) else if d > 2 ^ 63 - 1 then None else Some (int d)))"

section \<open>The definition of an experiment\<close>

record exp_candidate =
  cd_id :: string
  cd_patch :: string
  cd_digest :: string
  cd_base :: string

record artifact_ref =
  xr_id :: string
  xr_digest :: string

record evaluator =
  vl_argv :: "string list"
  vl_digest :: string
  vl_capabilities :: string

record primary_metric =
  pm_id :: string
  pm_type :: metric_type
  pm_unit :: string
  pm_aggregation :: aggregation
  pm_direction :: direction

text \<open>The union of a relative and an absolute bar.\<close>

record threshold =
  th_relative :: "f64 option"
  th_absolute :: "f64 option"

record guard =
  gd_id :: string
  gd_bound :: "f64 option"

record decision_spec =
  ds_primary :: primary_metric
  ds_baseline :: string
  ds_improvement :: threshold
  ds_separation :: threshold
  ds_guards :: "guard list"
  ds_spread :: "f64 option"

record execution_spec =
  xs_warmups :: int
  xs_rounds :: int
  xs_order :: order
  xs_timeout :: string
  xs_environment :: string

record policy_ref =
  po_ref :: string
  po_digest :: "string option"

text \<open>The registered inputs, and the lock over them.\<close>

record normalized_definition =
  df_schema :: string
  df_class :: string
  df_reproduction :: "int option"
  df_id :: string
  df_spike :: string
  df_question :: string
  df_base :: string
  df_candidates :: "exp_candidate list"
  df_evaluator :: evaluator
  df_workload :: artifact_ref
  df_fixtures :: "artifact_ref list"
  df_contract :: artifact_ref
  df_decision :: decision_spec
  df_execution :: execution_spec
  df_algorithm :: algorithm
  df_retention :: string
  df_policy :: "policy_ref option"
  df_protected :: "string list"

record experiment_def = normalized_definition +
  df_lock :: "string option"

definition definitionSchemaV1 :: string where "definitionSchemaV1 = ''verdi.experiment/v1''"
definition definitionSchemaV2 :: string where "definitionSchemaV2 = ''verdi.experiment/v2''"

definition guard_bounded :: "guard \<Rightarrow> bool" where
  "guard_bounded g \<longleftrightarrow> gd_bound g \<noteq> None"

section \<open>Validation\<close>

datatype candidate_error = CandId string | CandPatch string | CandDigest string | CandBase string | CandOtherBase string string

definition candidate_validate :: "string \<Rightarrow> exp_candidate \<Rightarrow> candidate_error option" where
  "candidate_validate base c = first_error
     [check (\<not> id_ok (cd_id c)) (CandId (cd_id c)),
      check (cd_patch c \<noteq> ''candidates/'' @ cd_id c @ ''.patch'') (CandPatch (cd_patch c)),
      check (\<not> digest_ok (cd_digest c)) (CandDigest (cd_digest c)),
      check (\<not> commit_ok (cd_base c)) (CandBase (cd_base c)),
      check (cd_base c \<noteq> base) (CandOtherBase (cd_base c) base)]"

datatype artifact_ref_error = RefId string | RefDigest string

definition artifact_ref_validate :: "artifact_ref \<Rightarrow> artifact_ref_error option" where
  "artifact_ref_validate r = first_error
     [check (\<not> id_ok (xr_id r)) (RefId (xr_id r)), check (\<not> digest_ok (xr_digest r)) (RefDigest (xr_digest r))]"

datatype evaluator_error =
    ArgvShort | ArgvEmptyHead | ArgvPath path_error | ArgvEmpty nat | ArgvLast string | EvalDigest string | EvalCapabilities string

text \<open>The repository path of the executable; \<open>''''\<close> when it is outside.\<close>

definition evaluator_repo_path :: "string \<Rightarrow> evaluator_error + string" where
  "evaluator_repo_path argv0 =
     (if argv0 = '''' then Inl ArgvEmptyHead
      else if has_prefix argv0 ''/'' \<or> CHR ''/'' \<notin> set argv0 then Inr ''''
      else (case repo_path (trim_prefix argv0 ''./'') of
              Some e \<Rightarrow> Inl (ArgvPath e) | None \<Rightarrow> Inr (trim_prefix argv0 ''./'')))"

definition evaluator_validate :: "evaluator \<Rightarrow> evaluator_error option" where
  "evaluator_validate e =
     (if length (vl_argv e) < 2 then Some ArgvShort
      else first_error
        [check (hd (vl_argv e) = '''') ArgvEmptyHead,
         (case evaluator_repo_path (hd (vl_argv e)) of Inl f \<Rightarrow> Some f | Inr _ \<Rightarrow> None),
         scan_idx (\<lambda>i _. ArgvEmpty i) (\<lambda>a. check (a = '''') ()) 0 (vl_argv e),
         check (last (vl_argv e) \<noteq> ''run'') (ArgvLast (last (vl_argv e))),
         check (\<not> digest_ok (vl_digest e)) (EvalDigest (vl_digest e)),
         check (\<not> digest_ok (vl_capabilities e)) (EvalCapabilities (vl_capabilities e))])"

datatype metric_error = MetricId string | MetricType metric_type | MetricUnit string | MetricAgg aggregation | MetricDir direction

definition primary_metric_validate :: "primary_metric \<Rightarrow> metric_error option" where
  "primary_metric_validate pm = first_error
     [check (\<not> id_ok (pm_id pm)) (MetricId (pm_id pm)),
      check (\<not> metric_type_ok (pm_type pm)) (MetricType (pm_type pm)),
      check (\<not> unit_ok (pm_unit pm)) (MetricUnit (pm_unit pm)),
      check (\<not> aggregation_ok (pm_aggregation pm)) (MetricAgg (pm_aggregation pm)),
      check (\<not> direction_ok (pm_direction pm)) (MetricDir (pm_direction pm))]"

datatype number_error = NotFinite f64 | NotPositive f64

definition positive_number :: "f64 \<Rightarrow> number_error option" where
  "positive_number v = first_error [check (\<not> is_fin v) (NotFinite v), check (f_le v (Fin 0)) (NotPositive v)]"

datatype threshold_error = ThresholdArms | ThresholdRelative number_error | ThresholdAbsolute number_error

definition arm_validate :: "(number_error \<Rightarrow> 'e) \<Rightarrow> f64 option \<Rightarrow> 'e option" where
  "arm_validate wrap a = (case a of None \<Rightarrow> None | Some v \<Rightarrow> map_option wrap (positive_number v))"

definition threshold_validate :: "threshold \<Rightarrow> threshold_error option" where
  "threshold_validate t = first_error
     [check ((th_relative t \<noteq> None) = (th_absolute t \<noteq> None)) ThresholdArms,
      arm_validate ThresholdRelative (th_relative t),
      arm_validate ThresholdAbsolute (th_absolute t)]"

datatype guard_error = GuardId string | GuardBound string number_error

definition guard_validate :: "guard \<Rightarrow> guard_error option" where
  "guard_validate g = first_error
     [check (\<not> id_ok (gd_id g)) (GuardId (gd_id g)), arm_validate (GuardBound (gd_id g)) (gd_bound g)]"

datatype execution_error =
  ExecWarmups int | ExecRounds int | ExecOrder order | ExecTimeout string | ExecTimeoutSign string | ExecTimeoutSeconds string | ExecEnvironment

definition execution_validate :: "execution_spec \<Rightarrow> execution_error option" where
  "execution_validate e = first_error
     [check (xs_warmups e < 0) (ExecWarmups (xs_warmups e)),
      check (xs_rounds e < 1) (ExecRounds (xs_rounds e)),
      check (\<not> order_ok (xs_order e)) (ExecOrder (xs_order e)),
      (case parse_duration (xs_timeout e) of
         None \<Rightarrow> Some (ExecTimeout (xs_timeout e))
       | Some d \<Rightarrow> first_error
           [check (d \<le> 0) (ExecTimeoutSign (xs_timeout e)),
            check (d mod 1000000000 \<noteq> 0) (ExecTimeoutSeconds (xs_timeout e))]),
      check (xs_environment e = '''') ExecEnvironment]"

datatype policy_error = PolicyRefEmpty | PolicyRefDigest string

definition policy_ref_validate :: "policy_ref \<Rightarrow> policy_error option" where
  "policy_ref_validate p = first_error
     [check (po_ref p = '''') PolicyRefEmpty,
      (case po_digest p of None \<Rightarrow> None | Some d \<Rightarrow> check (\<not> digest_ok d) (PolicyRefDigest d))]"

datatype def_error =
    DefV1Class | DefV1Reproduction | DefClass string | DefReproduction int | DefSchema string
  | DefId string | DefSpike string | DefQuestion string | DefBase string
  | DefFewCandidates nat | DefCandidate nat candidate_error | DefCandidateTwice string
  | DefEvaluator evaluator_error | DefWorkload artifact_ref_error | DefContract artifact_ref_error
  | DefFixture nat artifact_ref_error | DefFixtureTwice string
  | DefPrimary metric_error | DefBaseline string | DefImprovement threshold_error | DefSeparation threshold_error
  | DefGuard guard_error | DefGuardTwice string | DefGuardPrimary string | DefSpread number_error
  | DefExecution execution_error | DefAlgorithm algorithm | DefRetention string | DefPolicy policy_error
  | DefProtected nat path_error | DefProtectedTwice string | DefLock string
  | DefLockMismatch string string

fun guards_scan :: "string \<Rightarrow> string list \<Rightarrow> guard list \<Rightarrow> def_error option" where
  "guards_scan primary seen [] = None"
| "guards_scan primary seen (g # gs) =
     (case guard_validate g of
        Some e \<Rightarrow> Some (DefGuard e)
      | None \<Rightarrow>
          if gd_id g \<in> set seen then Some (DefGuardTwice (gd_id g))
          else if gd_id g = primary then Some (DefGuardPrimary (gd_id g))
          else guards_scan primary (gd_id g # seen) gs)"

definition schema_validate :: "experiment_def \<Rightarrow> def_error option" where
  "schema_validate d =
     (if df_schema d = definitionSchemaV1 then
        first_error [check (df_class d \<noteq> '''') DefV1Class, check (df_reproduction d \<noteq> None) DefV1Reproduction]
      else if df_schema d = definitionSchemaV2 then
        first_error
          [check (\<not> id_ok (df_class d)) (DefClass (df_class d)),
           (case df_reproduction d of None \<Rightarrow> None | Some n \<Rightarrow> check (n < 2) (DefReproduction n))]
      else Some (DefSchema (df_schema d)))"

definition definition_validate :: "experiment_def \<Rightarrow> def_error option" where
  "definition_validate d =
     (let dc = df_decision d in
      first_error
       [schema_validate d,
        check (\<not> id_ok (df_id d)) (DefId (df_id d)),
        check (\<not> rx_match spikeRe (df_spike d)) (DefSpike (df_spike d)),
        check (\<not> rx_match questionRe (df_question d)) (DefQuestion (df_question d)),
        check (\<not> commit_ok (df_base d)) (DefBase (df_base d)),
        check (length (df_candidates d) < 2) (DefFewCandidates (length (df_candidates d))),
        scan_seen cd_id DefCandidate (\<lambda>_ c. DefCandidateTwice (cd_id c)) (candidate_validate (df_base d)) 0 []
          (df_candidates d),
        map_option DefEvaluator (evaluator_validate (df_evaluator d)),
        map_option DefWorkload (artifact_ref_validate (df_workload d)),
        map_option DefContract (artifact_ref_validate (df_contract d)),
        scan_seen xr_id DefFixture (\<lambda>_ f. DefFixtureTwice (xr_id f)) artifact_ref_validate 0 [] (df_fixtures d),
        map_option DefPrimary (primary_metric_validate (ds_primary dc)),
        check (ds_baseline dc \<notin> cd_id ` set (df_candidates d)) (DefBaseline (ds_baseline dc)),
        map_option DefImprovement (threshold_validate (ds_improvement dc)),
        map_option DefSeparation (threshold_validate (ds_separation dc)),
        guards_scan (pm_id (ds_primary dc)) [] (ds_guards dc),
        arm_validate DefSpread (ds_spread dc),
        map_option DefExecution (execution_validate (df_execution d)),
        check (\<not> algorithm_ok (df_algorithm d)) (DefAlgorithm (df_algorithm d)),
        check (\<not> id_ok (df_retention d)) (DefRetention (df_retention d)),
        (case df_policy d of None \<Rightarrow> None | Some p \<Rightarrow> map_option DefPolicy (policy_ref_validate p)),
        scan_seen (\<lambda>p. p) DefProtected (\<lambda>_ p. DefProtectedTwice p) repo_path 0 [] (df_protected d),
        (case df_lock d of None \<Rightarrow> None | Some l \<Rightarrow> check (\<not> digest_ok l) (DefLock l))])"

section \<open>Identity and lock\<close>

definition normalize_definition :: "experiment_def \<Rightarrow> def_error + normalized_definition" where
  "normalize_definition d =
     (case definition_validate d of Some e \<Rightarrow> Inl e | None \<Rightarrow> Inr (normalized_definition.truncate d))"

definition definition_digest :: "(normalized_definition \<Rightarrow> string) \<Rightarrow> experiment_def \<Rightarrow> def_error + string" where
  "definition_digest dg d = (case normalize_definition d of Inl e \<Rightarrow> Inl e | Inr n \<Rightarrow> Inr (dg n))"

definition locked :: "(normalized_definition \<Rightarrow> string) \<Rightarrow> experiment_def \<Rightarrow> def_error + bool" where
  "locked dg d =
     (case df_lock d of
        None \<Rightarrow> Inr False
      | Some l \<Rightarrow>
          (case definition_digest dg d of
             Inl e \<Rightarrow> Inl e
           | Inr want \<Rightarrow> if l \<noteq> want then Inl (DefLockMismatch l want) else Inr True))"

end
