(* ===== verification/Observations.thy ===== *)
theory Observations
  imports Experiments "HOL-Library.Product_Lexorder" "HOL-Library.Multiset"
begin

text \<open>
  The observations of a run (internal/experiment: measurementvalue.go, observation.go,
  observations_validation.go, observations_digest.go, the outcomes and fixed observers of
  evaluator_protocol.go): their validation, the integrity of a set against the locked
  definition, its completeness and its digest. Go's nil slices are \<open>None\<close>. Where a loop runs
  over a Go map the faults it can name are one constructor; the digest of the canonical
  JSON of the records is the argument \<open>od\<close>.
\<close>

section \<open>Measurements, guards and outcomes\<close>

datatype measure_source = SrcHarness | SrcEvaluator | SrcCandidate | SrcUnknown string

datatype outcome_kind = OutCompleted | OutCrash | OutTimeout | OutUnknown string

datatype guard_verdict = GuardPass | GuardFail | GuardVerdictUnknown string

text \<open>A number keeps its literal.\<close>

datatype measurement_value = ValueAbsent | ValueNumber string | ValueBoolean bool

fun measure_source_ok :: "measure_source \<Rightarrow> bool" where
  "measure_source_ok (SrcUnknown _) = False"
| "measure_source_ok _ = True"

fun decision_eligible :: "measure_source \<Rightarrow> bool" where
  "decision_eligible SrcHarness = True"
| "decision_eligible SrcEvaluator = True"
| "decision_eligible _ = False"

fun outcome_kind_ok :: "outcome_kind \<Rightarrow> bool" where
  "outcome_kind_ok (OutUnknown _) = False"
| "outcome_kind_ok _ = True"

fun guard_verdict_ok :: "guard_verdict \<Rightarrow> bool" where
  "guard_verdict_ok (GuardVerdictUnknown _) = False"
| "guard_verdict_ok _ = True"

fun value_float :: "measurement_value \<Rightarrow> rat option" where
  "value_float (ValueNumber s) = parse_float s"
| "value_float (ValueBoolean b) = Some (if b then 1 else 0)"
| "value_float ValueAbsent = None"

fun value_bool :: "measurement_value \<Rightarrow> bool" where
  "value_bool (ValueBoolean _) = True"
| "value_bool _ = False"

record outcome =
  oc_kind :: outcome_kind
  oc_witness :: "string option"

record guard_result =
  gr_id :: string
  gr_verdict :: guard_verdict
  gr_witness :: "string option"

record measurement =
  ms_id :: string
  ms_value :: measurement_value
  ms_unit :: string
  ms_source :: measure_source

text \<open>What the digest of a set binds of each record, and the rest of the record.\<close>

record observation_projection =
  on_candidate :: string
  on_round :: int
  on_outcome :: "outcome option"
  on_guards :: "guard_result list option"
  on_measurements :: "measurement list option"
  on_disclosures :: "string list option"

record observation = observation_projection +
  on_schema :: string
  on_digest :: string
  on_run :: string

definition observationSchema :: string where "observationSchema = ''verdi.experiment-observation/v1''"
definition observationSchemaV2 :: string where "observationSchemaV2 = ''verdi.experiment-observation/v2''"
definition wallDurationID :: string where "wallDurationID = ''verdi-evaluator-wall-duration''"
definition peakRSSID :: string where "peakRSSID = ''verdi-evaluator-peak-rss''"
definition peakRSSUnavailable :: string where "peakRSSUnavailable = ''peak-rss-unavailable''"

definition slice :: "'a list option \<Rightarrow> 'a list" where
  "slice xs = (case xs of None \<Rightarrow> [] | Some ys \<Rightarrow> ys)"

section \<open>Validation of a record\<close>

definition witness_ok :: "string option \<Rightarrow> bool" where
  "witness_ok w \<longleftrightarrow> (case w of None \<Rightarrow> False | Some t \<Rightarrow> t \<noteq> '''' \<and> utf8_valid t)"

datatype record_error =
    RecSchema string | RecNoDisclosures | RecOutcomeV1 | RecNoOutcome | RecOutcomeKind outcome_kind
  | RecOutcomeWitness outcome_kind | RecFailureArrays | RecFailureGuards | RecFailureSource string
  | RecFailureHarness string | RecFailureWallTwice | RecFailureRSSTwice | RecFailureForeign string
  | RecFailureWall | RecFailureDisclosed | RecFailureUndisclosed
  | RecDigest string | RecRun string | RecCandidate string | RecRound int
  | RecGuardId string | RecGuardVerdict string guard_verdict | RecGuardWitness string | RecGuardTwice string
  | RecMeasureId string | RecMeasureAbsent string | RecMeasureNumber string | RecMeasureUnit string
  | RecMeasureSource string measure_source | RecMeasureTwice string | RecDisclosure nat

definition outcome_validate :: "outcome \<Rightarrow> record_error option" where
  "outcome_validate oc =
     (if \<not> outcome_kind_ok (oc_kind oc) then Some (RecOutcomeKind (oc_kind oc))
      else if oc_kind oc = OutCompleted then check (oc_witness oc \<noteq> None) (RecOutcomeWitness (oc_kind oc))
      else check (\<not> witness_ok (oc_witness oc)) (RecOutcomeWitness (oc_kind oc)))"

definition guard_result_validate :: "guard_result \<Rightarrow> record_error option" where
  "guard_result_validate g = first_error
     [check (\<not> id_ok (gr_id g)) (RecGuardId (gr_id g)),
      check (\<not> guard_verdict_ok (gr_verdict g)) (RecGuardVerdict (gr_id g) (gr_verdict g)),
      check (gr_verdict g = GuardFail \<and> \<not> witness_ok (gr_witness g)) (RecGuardWitness (gr_id g)),
      check (gr_verdict g = GuardPass \<and> gr_witness g \<noteq> None) (RecGuardWitness (gr_id g))]"

definition measurement_validate :: "measurement \<Rightarrow> record_error option" where
  "measurement_validate m = first_error
     [check (\<not> id_ok (ms_id m)) (RecMeasureId (ms_id m)),
      check (ms_value m = ValueAbsent) (RecMeasureAbsent (ms_id m)),
      check (\<not> value_bool (ms_value m) \<and> value_float (ms_value m) = None) (RecMeasureNumber (ms_id m)),
      check (\<not> unit_ok (ms_unit m)) (RecMeasureUnit (ms_id m)),
      check (\<not> measure_source_ok (ms_source m)) (RecMeasureSource (ms_id m) (ms_source m))]"

text \<open>The fixed observers of the harness: their type and unit.\<close>

definition harness_metric :: "string \<Rightarrow> (metric_type \<times> string) option" where
  "harness_metric i =
     (if i = wallDurationID then Some (MetricDuration, ''ns'')
      else if i = peakRSSID then Some (MetricBytes, ''bytes'')
      else None)"

definition harness_ok :: "measurement \<Rightarrow> bool" where
  "harness_ok m =
     (case harness_metric (ms_id m) of
        None \<Rightarrow> False
      | Some (ty, u) \<Rightarrow> ms_unit m = u \<and> (ty = MetricBoolean \<or> \<not> value_bool (ms_value m)))"

fun failure_scan :: "bool \<Rightarrow> bool \<Rightarrow> string list \<Rightarrow> measurement list \<Rightarrow> record_error option" where
  "failure_scan wall rss disclosures [] =
     (if \<not> wall then Some RecFailureWall
      else if rss then check (disclosures \<noteq> []) RecFailureDisclosed
      else check (disclosures \<noteq> [peakRSSUnavailable]) RecFailureUndisclosed)"
| "failure_scan wall rss disclosures (m # ms) =
     (if ms_source m \<noteq> SrcHarness then Some (RecFailureSource (ms_id m))
      else if \<not> harness_ok m then Some (RecFailureHarness (ms_id m))
      else if ms_id m = wallDurationID then
        (if wall then Some RecFailureWallTwice else failure_scan True rss disclosures ms)
      else if ms_id m = peakRSSID then
        (if rss then Some RecFailureRSSTwice else failure_scan wall True disclosures ms)
      else Some (RecFailureForeign (ms_id m)))"

definition failure_evidence :: "('a observation_projection_scheme) \<Rightarrow> record_error option" where
  "failure_evidence ob =
     (if slice (on_guards ob) \<noteq> [] then Some RecFailureGuards
      else failure_scan False False (slice (on_disclosures ob)) (slice (on_measurements ob)))"

definition outcome_check :: "observation \<Rightarrow> record_error option" where
  "outcome_check ob =
     (if on_schema ob = observationSchema then check (on_outcome ob \<noteq> None) RecOutcomeV1
      else
        (case on_outcome ob of
           None \<Rightarrow> Some RecNoOutcome
         | Some oc \<Rightarrow>
             first_error
              [outcome_validate oc,
               (if oc_kind oc \<noteq> OutCompleted then
                  first_error
                   [check (on_guards ob = None \<or> on_measurements ob = None) RecFailureArrays, failure_evidence ob]
                else None)]))"

definition observation_validate :: "observation \<Rightarrow> record_error option" where
  "observation_validate ob = first_error
     [check (on_schema ob \<noteq> observationSchema \<and> on_schema ob \<noteq> observationSchemaV2) (RecSchema (on_schema ob)),
      check (on_disclosures ob = None) RecNoDisclosures,
      outcome_check ob,
      check (\<not> digest_ok (on_digest ob)) (RecDigest (on_digest ob)),
      check (\<not> id_ok (on_run ob)) (RecRun (on_run ob)),
      check (\<not> id_ok (on_candidate ob)) (RecCandidate (on_candidate ob)),
      check (on_round ob < 1) (RecRound (on_round ob)),
      scan_seen gr_id (\<lambda>_ e. e) (\<lambda>_ g. RecGuardTwice (gr_id g)) guard_result_validate 0 [] (slice (on_guards ob)),
      scan_seen ms_id (\<lambda>_ e. e) (\<lambda>_ m. RecMeasureTwice (ms_id m)) measurement_validate 0 [] (slice (on_measurements ob)),
      scan_idx (\<lambda>i _. RecDisclosure i) (\<lambda>d. check (d = '''' \<or> \<not> utf8_valid d) ()) 0 (slice (on_disclosures ob))]"

section \<open>Integrity of a set\<close>

text \<open>Only the primary metric has a registered type.\<close>

definition wants_bool :: "experiment_def \<Rightarrow> measurement \<Rightarrow> bool" where
  "wants_bool d m \<longleftrightarrow>
     ms_id m = pm_id (ds_primary (df_decision d)) \<and> pm_type (ds_primary (df_decision d)) = MetricBoolean"

definition value_kind_ok :: "experiment_def \<Rightarrow> measurement \<Rightarrow> bool" where
  "value_kind_ok d m \<longleftrightarrow> wants_bool d m = value_bool (ms_value m)"

definition required_guards :: "experiment_def \<Rightarrow> string list" where
  "required_guards d = map gd_id (filter (\<lambda>g. \<not> guard_bounded g) (ds_guards (df_decision d)))"

definition bound_guards :: "experiment_def \<Rightarrow> string list" where
  "bound_guards d = map gd_id (filter guard_bounded (ds_guards (df_decision d)))"

text \<open>The measurements of one id that may decide.\<close>

definition eligible_for :: "string \<Rightarrow> measurement \<Rightarrow> bool" where
  "eligible_for i m \<longleftrightarrow> ms_id m = i \<and> decision_eligible (ms_source m)"

definition run_completed :: "('a observation_projection_scheme) \<Rightarrow> bool" where
  "run_completed ob \<longleftrightarrow> (case on_outcome ob of None \<Rightarrow> True | Some oc \<Rightarrow> oc_kind oc = OutCompleted)"

datatype integrity_fault =
    FaultRecord record_error | FaultSchema string | FaultDigest string | FaultRun string | FaultCandidate string
  | FaultRound int | FaultTwice string int | FaultForeignGuard string | FaultGuardMissing
  | FaultHarness string | FaultValueKind string | FaultPrimaryUnit string | FaultPrimaryMissing | FaultBoundGuard

record scan_state =
  sc_schema :: string
  sc_run :: string
  sc_seen :: "(string \<times> int) list"
  sc_units :: "string \<rightharpoonup> string"

fun bound_scan :: "string \<Rightarrow> bool \<Rightarrow> (string \<rightharpoonup> string) \<Rightarrow> measurement list \<Rightarrow> (string \<rightharpoonup> string) option" where
  "bound_scan g found units [] = (if found then Some units else None)"
| "bound_scan g found units (m # ms) =
     (if \<not> eligible_for g m then bound_scan g found units ms
      else
        (case units g of
           Some want \<Rightarrow> if ms_unit m \<noteq> want then None else bound_scan g True units ms
         | None \<Rightarrow> bound_scan g True (units(g \<mapsto> ms_unit m)) ms))"

fun bounds_scan :: "measurement list \<Rightarrow> (string \<rightharpoonup> string) \<Rightarrow> string list \<Rightarrow> (string \<rightharpoonup> string) option" where
  "bounds_scan ms units [] = Some units"
| "bounds_scan ms units (g # gs) =
     (case bound_scan g False units ms of None \<Rightarrow> None | Some u \<Rightarrow> bounds_scan ms u gs)"

definition measurement_faults :: "experiment_def \<Rightarrow> observation \<Rightarrow> measurement \<Rightarrow> integrity_fault option" where
  "measurement_faults d ob m = first_error
     [check (on_schema ob = observationSchemaV2 \<and> ms_source m = SrcHarness \<and> \<not> harness_ok m) (FaultHarness (ms_id m)),
      check (\<not> value_kind_ok d m) (FaultValueKind (ms_id m))]"

text \<open>What a completed record owes the registration, before its bounds.\<close>

definition evidence_faults :: "experiment_def \<Rightarrow> observation \<Rightarrow> integrity_fault option" where
  "evidence_faults d ob =
     (let pm = ds_primary (df_decision d); ms = slice (on_measurements ob); gs = map gr_id (slice (on_guards ob)) in
      first_error
       [scan_idx (\<lambda>_ e. e) (\<lambda>g. check (g \<notin> set (required_guards d)) (FaultForeignGuard g)) 0 gs,
        check (\<not> set (required_guards d) \<subseteq> set gs) FaultGuardMissing,
        scan_idx (\<lambda>_ e. e) (measurement_faults d ob) 0 ms,
        check (list_ex (\<lambda>m. eligible_for (pm_id pm) m \<and> ms_unit m \<noteq> pm_unit pm) ms) (FaultPrimaryUnit (pm_id pm)),
        check (\<not> list_ex (eligible_for (pm_id pm)) ms) FaultPrimaryMissing])"

text \<open>A measured attempt of the candidate that did not complete.\<close>

definition failed_attempt :: "observation \<Rightarrow> bool" where
  "failed_attempt ob \<longleftrightarrow> on_schema ob = observationSchemaV2 \<and> \<not> run_completed ob"

definition or_first :: "string \<Rightarrow> string \<Rightarrow> string" where
  "or_first known s = (if known = '''' then s else known)"

definition step_fault :: "experiment_def \<Rightarrow> string \<Rightarrow> scan_state \<Rightarrow> observation \<Rightarrow> integrity_fault option" where
  "step_fault d dd st ob = first_error
     [map_option FaultRecord (observation_validate ob),
      check (on_schema ob \<noteq> or_first (sc_schema st) (on_schema ob)) (FaultSchema (on_schema ob)),
      check (on_digest ob \<noteq> dd) (FaultDigest (on_digest ob)),
      check (on_run ob \<noteq> or_first (sc_run st) (on_run ob)) (FaultRun (on_run ob)),
      check (on_candidate ob \<notin> cd_id ` set (df_candidates d)) (FaultCandidate (on_candidate ob)),
      check (on_round ob < 1 \<or> xs_rounds (df_execution d) < on_round ob) (FaultRound (on_round ob)),
      check ((on_candidate ob, on_round ob) \<in> set (sc_seen st)) (FaultTwice (on_candidate ob) (on_round ob)),
      (if failed_attempt ob then None else evidence_faults d ob)]"

definition seen_state :: "scan_state \<Rightarrow> observation \<Rightarrow> (string \<rightharpoonup> string) \<Rightarrow> scan_state" where
  "seen_state st ob u =
     \<lparr>sc_schema = or_first (sc_schema st) (on_schema ob), sc_run = or_first (sc_run st) (on_run ob),
      sc_seen = (on_candidate ob, on_round ob) # sc_seen st, sc_units = u\<rparr>"

definition record_step :: "experiment_def \<Rightarrow> string \<Rightarrow> scan_state \<Rightarrow> observation \<Rightarrow> integrity_fault + scan_state" where
  "record_step d dd st ob =
     (case step_fault d dd st ob of
        Some e \<Rightarrow> Inl e
      | None \<Rightarrow>
          if failed_attempt ob then Inr (seen_state st ob (sc_units st))
          else
            (case bounds_scan (slice (on_measurements ob)) (sc_units st) (bound_guards d) of
               None \<Rightarrow> Inl FaultBoundGuard
             | Some u \<Rightarrow> Inr (seen_state st ob u)))"

datatype observations_error =
    ObsDefinition def_error | ObsUnlocked | ObsNone | ObsIntegrity nat integrity_fault
  | ObsIncomplete "(string \<times> int) list"

fun records_scan :: "experiment_def \<Rightarrow> string \<Rightarrow> nat \<Rightarrow> scan_state \<Rightarrow> observation list \<Rightarrow> observations_error option" where
  "records_scan d dd i st [] = None"
| "records_scan d dd i st (ob # obs) =
     (case record_step d dd st ob of Inl e \<Rightarrow> Some (ObsIntegrity i e) | Inr st' \<Rightarrow> records_scan d dd (Suc i) st' obs)"

definition scan_start :: scan_state where
  "scan_start = \<lparr>sc_schema = '''', sc_run = '''', sc_seen = [], sc_units = Map.empty\<rparr>"

definition validate_observations ::
  "(normalized_definition \<Rightarrow> string) \<Rightarrow> experiment_def \<Rightarrow> observation list \<Rightarrow> observations_error option" where
  "validate_observations dg d obs =
     (case locked dg d of
        Inl e \<Rightarrow> Some (ObsDefinition e)
      | Inr l \<Rightarrow>
          if \<not> l then Some ObsUnlocked
          else if obs = [] then Some ObsNone
          else
            (case definition_digest dg d of
               Inl e \<Rightarrow> Some (ObsDefinition e)
             | Inr dd \<Rightarrow> records_scan d dd 0 scan_start obs))"

definition rounds :: "experiment_def \<Rightarrow> int list" where
  "rounds d = [1 .. xs_rounds (df_execution d)]"

definition matrix :: "experiment_def \<Rightarrow> (string \<times> int) list" where
  "matrix d = concat (map (\<lambda>c. map (\<lambda>r. (cd_id c, r)) (rounds d)) (df_candidates d))"

definition missing_observations :: "experiment_def \<Rightarrow> observation list \<Rightarrow> (string \<times> int) list" where
  "missing_observations d obs =
     filter (\<lambda>k. k \<notin> (\<lambda>ob. (on_candidate ob, on_round ob)) ` set obs) (matrix d)"

definition validate_complete ::
  "(normalized_definition \<Rightarrow> string) \<Rightarrow> experiment_def \<Rightarrow> observation list \<Rightarrow> observations_error option" where
  "validate_complete dg d obs =
     (case validate_observations dg d obs of
        Some e \<Rightarrow> Some e
      | None \<Rightarrow>
          check (missing_observations d obs \<noteq> []) (ObsIncomplete (missing_observations d obs)))"

section \<open>The digest of a set\<close>

definition candidate_rank :: "experiment_def \<Rightarrow> string \<Rightarrow> nat option" where
  "candidate_rank d i = map_of (rev (zip (map cd_id (df_candidates d)) [0 ..< length (df_candidates d)])) i"

definition projection_key :: "experiment_def \<Rightarrow> ('a observation_projection_scheme) \<Rightarrow> nat \<times> int" where
  "projection_key d p = (case candidate_rank d (on_candidate p) of None \<Rightarrow> 0 | Some k \<Rightarrow> k, on_round p)"

definition observations_digest ::
  "(observation_projection list \<Rightarrow> string) \<Rightarrow> experiment_def \<Rightarrow> observation list \<Rightarrow> string option" where
  "observations_digest od d obs =
     (if list_ex (\<lambda>ob. candidate_rank d (on_candidate ob) = None) obs then None
      else Some (od (sort_key (projection_key d) (map observation_projection.truncate obs))))"

section \<open>What an accepted set is\<close>

text \<open>The units a record gives to the bounded guards.\<close>

definition unit_claims :: "experiment_def \<Rightarrow> observation \<Rightarrow> (string \<times> string) set" where
  "unit_claims d ob =
     (if failed_attempt ob then {}
      else {(g, ms_unit m) | g m. g \<in> set (bound_guards d) \<and> m \<in> set (slice (on_measurements ob)) \<and> eligible_for g m})"

definition record_ok :: "experiment_def \<Rightarrow> string \<Rightarrow> observation \<Rightarrow> bool" where
  "record_ok d dd ob \<longleftrightarrow>
     observation_validate ob = None \<and> on_digest ob = dd \<and> on_candidate ob \<in> cd_id ` set (df_candidates d)
     \<and> 1 \<le> on_round ob \<and> on_round ob \<le> xs_rounds (df_execution d)
     \<and> (failed_attempt ob
        \<or> evidence_faults d ob = None
          \<and> (\<forall>g \<in> set (bound_guards d). \<exists>m \<in> set (slice (on_measurements ob)). eligible_for g m))"

definition set_ok :: "experiment_def \<Rightarrow> string \<Rightarrow> observation list \<Rightarrow> bool" where
  "set_ok d dd obs \<longleftrightarrow>
     (\<forall>ob \<in> set obs. record_ok d dd ob)
     \<and> (\<forall>ob \<in> set obs. \<forall>ob' \<in> set obs. on_schema ob = on_schema ob' \<and> on_run ob = on_run ob')
     \<and> distinct (map (\<lambda>ob. (on_candidate ob, on_round ob)) obs)
     \<and> single_valued (\<Union> (unit_claims d ` set obs))"

lemma set_ok_record: "set_ok d dd obs \<Longrightarrow> ob \<in> set obs \<Longrightarrow> record_ok d dd ob"
  unfolding set_ok_def by blast

lemma set_ok_same:
  "set_ok d dd obs \<Longrightarrow> ob \<in> set obs \<Longrightarrow> ob' \<in> set obs \<Longrightarrow> on_schema ob = on_schema ob' \<and> on_run ob = on_run ob'"
  unfolding set_ok_def by blast

definition units_of :: "(string \<rightharpoonup> string) \<Rightarrow> (string \<times> string) set" where
  "units_of u = {(g, w). u g = Some w}"

lemma units_of_upd: "u g = None \<Longrightarrow> units_of (u(g \<mapsto> w)) = insert (g, w) (units_of u)"
  by (auto simp: units_of_def split: if_splits)

lemma units_single: "single_valued (units_of u)"
  by (auto simp: units_of_def single_valued_def)

lemma units_of_surj: "single_valued S \<Longrightarrow> \<exists>u. units_of u = S"
proof
  assume S: "single_valued S"
  let ?u = "\<lambda>g. if \<exists>w. (g, w) \<in> S then Some (THE w. (g, w) \<in> S) else None"
  have "(THE w. (g, w) \<in> S) = w" if "(g, w) \<in> S" for g w
    using that S by (auto simp: single_valued_def)
  then show "units_of ?u = S" by (auto simp: units_of_def split: if_splits)
qed

lemma units_of_inj: "units_of u = units_of v \<Longrightarrow> u = v"
proof (rule ext)
  fix g
  assume "units_of u = units_of v"
  then have "u g = Some w \<longleftrightarrow> v g = Some w" for w by (auto simp: units_of_def)
  then show "u g = v g" by (metis not_None_eq)
qed

definition claims_of :: "measurement list \<Rightarrow> string \<Rightarrow> (string \<times> string) set" where
  "claims_of ms g = {(g, ms_unit m) | m. m \<in> set ms \<and> eligible_for g m}"

lemma claims_of_simps [simp]:
  "claims_of [] g = {}"
  "claims_of (m # ms) g = (if eligible_for g m then insert (g, ms_unit m) (claims_of ms g) else claims_of ms g)"
  by (auto simp: claims_of_def)

lemma bound_scan_Some:
  "bound_scan g found u ms = Some v \<longleftrightarrow>
     (found \<or> list_ex (eligible_for g) ms) \<and> single_valued (units_of u \<union> claims_of ms g)
     \<and> units_of v = units_of u \<union> claims_of ms g"
proof (induction ms arbitrary: found u)
  case Nil
  then show ?case by (auto simp: units_single dest: units_of_inj)
next
  case (Cons m ms)
  show ?case
  proof (cases "eligible_for g m")
    case False
    then show ?thesis by (simp add: Cons.IH)
  next
    case True
    show ?thesis
    proof (cases "u g")
      case None
      then show ?thesis using True by (simp add: Cons.IH units_of_upd del: fun_upd_apply)
    next
      case (Some w)
      then have w: "(g, w) \<in> units_of u" by (simp add: units_of_def)
      show ?thesis
      proof (cases "ms_unit m = w")
        case eq: True
        then have "units_of u \<union> insert (g, ms_unit m) (claims_of ms g) = units_of u \<union> claims_of ms g"
          using w by auto
        then show ?thesis using True Some eq by (simp add: Cons.IH)
      next
        case False
        then have "\<not> single_valued (units_of u \<union> claims_of (m # ms) g)"
          using w True by (auto simp: single_valued_def)
        then show ?thesis using True Some False by simp
      qed
    qed
  qed
qed

lemma bounds_scan_Some:
  "bounds_scan ms u gs = Some v \<longleftrightarrow>
     (\<forall>g \<in> set gs. list_ex (eligible_for g) ms) \<and> single_valued (units_of u \<union> (\<Union>g \<in> set gs. claims_of ms g))
     \<and> units_of v = units_of u \<union> (\<Union>g \<in> set gs. claims_of ms g)"
proof (induction gs arbitrary: u)
  case Nil
  then show ?case by (auto simp: units_single dest: units_of_inj)
next
  case (Cons g gs)
  let ?now = "units_of u \<union> claims_of ms g"
  show ?case
  proof (cases "bound_scan g False u ms")
    case None
    have "\<not> (list_ex (eligible_for g) ms \<and> single_valued ?now)"
    proof
      assume a: "list_ex (eligible_for g) ms \<and> single_valued ?now"
      then obtain w where "units_of w = ?now" using units_of_surj by blast
      then have "bound_scan g False u ms = Some w" using a by (simp add: bound_scan_Some)
      then show False using None by simp
    qed
    moreover have "single_valued ?now" if "single_valued (?now \<union> (\<Union>g \<in> set gs. claims_of ms g))"
      using that by (rule single_valued_subset[rotated]) simp
    ultimately show ?thesis using None by (auto simp: Un_assoc)
  next
    case (Some w)
    then have "list_ex (eligible_for g) ms" "single_valued ?now" "units_of w = ?now"
      unfolding bound_scan_Some by simp_all
    then show ?thesis by (simp add: Some Cons.IH Un_assoc)
  qed
qed

lemma record_run_schema:
  assumes "observation_validate ob = None"
  shows "on_schema ob \<noteq> ''''" "on_run ob \<noteq> ''''"
  using assms by (auto simp: observation_validate_def scan_simps observationSchema_def observationSchemaV2_def
      id_ok_def ex_idRe_def nameSegment_def Plus_def alnum_def)

lemma unit_claims_scan:
  "unit_claims d ob =
     (if failed_attempt ob then {}
      else (\<Union>g \<in> set (bound_guards d). claims_of (slice (on_measurements ob)) g))"
  by (auto simp: unit_claims_def claims_of_def)

text \<open>The state after a prefix.\<close>

definition scanned :: "experiment_def \<Rightarrow> observation list \<Rightarrow> scan_state \<Rightarrow> bool" where
  "scanned d obs st \<longleftrightarrow>
     sc_schema st = (case obs of [] \<Rightarrow> '''' | ob # _ \<Rightarrow> on_schema ob)
     \<and> sc_run st = (case obs of [] \<Rightarrow> '''' | ob # _ \<Rightarrow> on_run ob)
     \<and> set (sc_seen st) = (\<lambda>ob. (on_candidate ob, on_round ob)) ` set obs
     \<and> units_of (sc_units st) = \<Union> (unit_claims d ` set obs)"

lemma scanned_start: "scanned d [] scan_start"
  by (simp add: scanned_def scan_start_def units_of_def)

lemma agree_snoc:
  assumes "\<And>x y. x \<in> set xs \<Longrightarrow> y \<in> set xs \<Longrightarrow> f x = f y"
  shows "(\<forall>x \<in> set (xs @ [z]). \<forall>y \<in> set (xs @ [z]). f x = f y) \<longleftrightarrow> (\<forall>x \<in> set xs. f x = f z)"
proof
  assume r: "\<forall>x \<in> set xs. f x = f z"
  have "f x = f z" if "x \<in> set (xs @ [z])" for x using that r by auto
  then show "\<forall>x \<in> set (xs @ [z]). \<forall>y \<in> set (xs @ [z]). f x = f y" by metis
next
  assume l: "\<forall>x \<in> set (xs @ [z]). \<forall>y \<in> set (xs @ [z]). f x = f y"
  have "z \<in> set (xs @ [z])" "set xs \<subseteq> set (xs @ [z])" by auto
  with l show "\<forall>x \<in> set xs. f x = f z" by blast
qed

lemma set_ok_snoc:
  assumes "set_ok d dd obs" "scanned d obs st"
  shows "set_ok d dd (obs @ [ob]) \<longleftrightarrow>
     record_ok d dd ob \<and> (sc_schema st = '''' \<or> on_schema ob = sc_schema st) \<and> (sc_run st = '''' \<or> on_run ob = sc_run st)
     \<and> (on_candidate ob, on_round ob) \<notin> set (sc_seen st)
     \<and> single_valued (units_of (sc_units st) \<union> unit_claims d ob)"
proof -
  have u: "units_of (sc_units st) \<union> unit_claims d ob = \<Union> (unit_claims d ` set (obs @ [ob]))"
    using assms(2) by (auto simp: scanned_def)
  have "(\<forall>x \<in> set obs. on_schema x = on_schema ob \<and> on_run x = on_run ob)
      \<longleftrightarrow> (sc_schema st = '''' \<or> on_schema ob = sc_schema st) \<and> (sc_run st = '''' \<or> on_run ob = sc_run st)"
  proof (cases obs)
    case Nil
    then show ?thesis using assms(2) by (simp add: scanned_def)
  next
    case (Cons x xs)
    then have x: "x \<in> set obs" by simp
    have st: "sc_schema st = on_schema x" "sc_run st = on_run x" using assms(2) Cons by (simp_all add: scanned_def)
    have "record_ok d dd x" using set_ok_record[OF assms(1) x] .
    then have "on_schema x \<noteq> ''''" "on_run x \<noteq> ''''" using record_run_schema by (simp_all add: record_ok_def)
    then show ?thesis unfolding st using set_ok_same[OF assms(1) x] x by metis
  qed
  moreover have "set_ok d dd (obs @ [ob]) \<longleftrightarrow>
      record_ok d dd ob \<and> (\<forall>x \<in> set obs. on_schema x = on_schema ob \<and> on_run x = on_run ob)
      \<and> (on_candidate ob, on_round ob) \<notin> (\<lambda>ob. (on_candidate ob, on_round ob)) ` set obs
      \<and> single_valued (units_of (sc_units st) \<union> unit_claims d ob)"
  proof -
    have r: "(\<forall>x \<in> set (obs @ [ob]). record_ok d dd x) \<longleftrightarrow> record_ok d dd ob"
      using set_ok_record[OF assms(1)] by auto
    have p: "(\<forall>x \<in> set (obs @ [ob]). \<forall>y \<in> set (obs @ [ob]). on_schema x = on_schema y \<and> on_run x = on_run y)
        \<longleftrightarrow> (\<forall>x \<in> set obs. on_schema x = on_schema ob \<and> on_run x = on_run ob)"
    proof -
      have "(on_schema x, on_run x) = (on_schema y, on_run y)" if "x \<in> set obs" "y \<in> set obs" for x y
        using set_ok_same[OF assms(1) that] by simp
      from agree_snoc[of obs "\<lambda>x. (on_schema x, on_run x)" ob, OF this] show ?thesis by (simp only: prod.inject)
    qed
    have q: "distinct (map (\<lambda>ob. (on_candidate ob, on_round ob)) (obs @ [ob])) \<longleftrightarrow>
        (on_candidate ob, on_round ob) \<notin> (\<lambda>ob. (on_candidate ob, on_round ob)) ` set obs"
      using assms(1) by (simp add: set_ok_def)
    show ?thesis unfolding set_ok_def r p q u ..
  qed
  moreover have "set (sc_seen st) = (\<lambda>ob. (on_candidate ob, on_round ob)) ` set obs"
    using assms(2) by (simp add: scanned_def)
  ultimately show ?thesis by simp
qed

lemma set_ok_prefix: "set_ok d dd (obs @ rest) \<Longrightarrow> set_ok d dd obs"
proof -
  assume a: "set_ok d dd (obs @ rest)"
  have "single_valued (\<Union> (unit_claims d ` set obs))"
    using a unfolding set_ok_def by (elim conjE single_valued_subset[rotated]) auto
  then show ?thesis using a unfolding set_ok_def by auto
qed

lemma or_first_eq: "s = or_first known s \<longleftrightarrow> known = '''' \<or> s = known"
  by (simp add: or_first_def)

lemma step_fault_None:
  "step_fault d dd st ob = None \<longleftrightarrow>
     observation_validate ob = None \<and> (sc_schema st = '''' \<or> on_schema ob = sc_schema st) \<and> on_digest ob = dd
     \<and> (sc_run st = '''' \<or> on_run ob = sc_run st) \<and> on_candidate ob \<in> cd_id ` set (df_candidates d)
     \<and> 1 \<le> on_round ob \<and> on_round ob \<le> xs_rounds (df_execution d)
     \<and> (on_candidate ob, on_round ob) \<notin> set (sc_seen st) \<and> (failed_attempt ob \<or> evidence_faults d ob = None)"
  by (auto simp: step_fault_def or_first_eq not_less)

lemma record_step_ok:
  assumes "set_ok d dd obs" "scanned d obs st"
  shows "(\<exists>st'. record_step d dd st ob = Inr st') \<longleftrightarrow> set_ok d dd (obs @ [ob])"
proof (cases "failed_attempt ob")
  case True
  then have "(\<exists>st'. record_step d dd st ob = Inr st') \<longleftrightarrow> step_fault d dd st ob = None"
    by (simp add: record_step_def split: option.split)
  moreover have "single_valued (units_of (sc_units st) \<union> unit_claims d ob)"
    using True by (simp add: unit_claims_def units_single)
  ultimately show ?thesis
    unfolding set_ok_snoc[OF assms] record_ok_def step_fault_None using True by blast
next
  case False
  have "(\<exists>v. bounds_scan (slice (on_measurements ob)) (sc_units st) (bound_guards d) = Some v) \<longleftrightarrow>
      (\<forall>g \<in> set (bound_guards d). \<exists>m \<in> set (slice (on_measurements ob)). eligible_for g m)
      \<and> single_valued (units_of (sc_units st) \<union> unit_claims d ob)"
    using units_of_surj False by (auto simp: bounds_scan_Some unit_claims_scan list_ex_iff)
  moreover have "(\<exists>st'. record_step d dd st ob = Inr st') \<longleftrightarrow>
      step_fault d dd st ob = None \<and> (\<exists>v. bounds_scan (slice (on_measurements ob)) (sc_units st) (bound_guards d) = Some v)"
    using False by (simp add: record_step_def split: option.split)
  ultimately show ?thesis
    unfolding set_ok_snoc[OF assms] record_ok_def using False by (auto simp only: step_fault_None)
qed

lemma record_step_scanned:
  assumes "set_ok d dd obs" "scanned d obs st" "record_step d dd st ob = Inr st'"
  shows "scanned d (obs @ [ob]) st'"
proof -
  obtain u where st': "st' = seen_state st ob u" and u: "units_of u = units_of (sc_units st) \<union> unit_claims d ob"
    using assms(3) by (auto simp: record_step_def bounds_scan_Some unit_claims_scan split: option.splits if_splits)
  have "or_first (sc_schema st) (on_schema ob) = (case obs @ [ob] of [] \<Rightarrow> '''' | x # _ \<Rightarrow> on_schema x)"
    "or_first (sc_run st) (on_run ob) = (case obs @ [ob] of [] \<Rightarrow> '''' | x # _ \<Rightarrow> on_run x)"
  proof (atomize (full), cases obs)
    case (Cons x xs)
    have st: "sc_schema st = on_schema x" "sc_run st = on_run x" using assms(2) Cons by (simp_all add: scanned_def)
    have "record_ok d dd x" using set_ok_record[OF assms(1)] Cons by simp
    then show "or_first (sc_schema st) (on_schema ob) = (case obs @ [ob] of [] \<Rightarrow> '''' | x # _ \<Rightarrow> on_schema x)
      \<and> or_first (sc_run st) (on_run ob) = (case obs @ [ob] of [] \<Rightarrow> '''' | x # _ \<Rightarrow> on_run x)"
      using record_run_schema[of x] Cons st by (simp add: or_first_def record_ok_def)
  qed (use assms(2) in \<open>simp add: scanned_def or_first_def\<close>)
  moreover have "units_of u = \<Union> (unit_claims d ` set (obs @ [ob]))"
    using u assms(2) by (auto simp: scanned_def)
  ultimately show ?thesis
    using assms(2) unfolding st' scanned_def seen_state_def by simp
qed

lemma records_scan_None:
  "set_ok d dd pre \<Longrightarrow> scanned d pre st \<Longrightarrow> records_scan d dd i st obs = None \<longleftrightarrow> set_ok d dd (pre @ obs)"
proof (induction obs arbitrary: pre st i)
  case (Cons ob obs)
  show ?case
  proof (cases "record_step d dd st ob")
    case (Inl e)
    then have "\<not> set_ok d dd (pre @ [ob])" using record_step_ok[OF Cons.prems, of ob] by simp
    then have "\<not> set_ok d dd (pre @ ob # obs)"
      using set_ok_prefix[of d dd "pre @ [ob]" obs] by auto
    then show ?thesis using Inl by simp
  next
    case (Inr st')
    then have "set_ok d dd (pre @ [ob])" "scanned d (pre @ [ob]) st'"
      using record_step_ok[OF Cons.prems, of ob] record_step_scanned[OF Cons.prems] by simp_all
    then show ?thesis using Inr Cons.IH[of "pre @ [ob]" st'] by simp
  qed
qed simp

lemma set_ok_Nil: "set_ok d dd []"
  by (simp add: set_ok_def)

abbreviation definition_identity :: "(normalized_definition \<Rightarrow> string) \<Rightarrow> experiment_def \<Rightarrow> string" where
  "definition_identity dg d \<equiv> dg (normalized_definition.truncate d)"

lemma locked_iff: "locked dg d = Inr True \<longleftrightarrow> definition_validate d = None \<and> df_lock d = Some (definition_identity dg d)"
  by (auto simp: locked_def definition_digest_def normalize_definition_def split: option.splits sum.splits)

lemma locked_digest: "locked dg d = Inr True \<Longrightarrow> definition_digest dg d = Inr (definition_identity dg d)"
  by (simp add: locked_iff definition_digest_def normalize_definition_def)

lemma validate_observations_None:
  "validate_observations dg d obs = None \<longleftrightarrow> locked dg d = Inr True \<and> obs \<noteq> [] \<and> set_ok d (definition_identity dg d) obs"
proof (cases "locked dg d = Inr True")
  case True
  then show ?thesis
    using records_scan_None[OF set_ok_Nil scanned_start, of d "definition_identity dg d" 0 obs]
    by (simp add: validate_observations_def locked_digest)
next
  case False
  then show ?thesis by (auto simp: validate_observations_def split: sum.splits)
qed

abbreviation record_key :: "observation \<Rightarrow> string \<times> int" where
  "record_key ob \<equiv> (on_candidate ob, on_round ob)"

lemma set_matrix: "set (matrix d) = (cd_id ` set (df_candidates d)) \<times> {1 .. xs_rounds (df_execution d)}"
  by (auto simp: matrix_def rounds_def)

lemma distinct_matrix: "distinct (map cd_id (df_candidates d)) \<Longrightarrow> distinct (matrix d)"
proof -
  have "distinct (concat (map (\<lambda>c. map (\<lambda>r. (cd_id c, r)) rs) cs))"
    if "distinct (map cd_id cs)" "distinct rs" for cs and rs :: "int list"
    using that by (induction cs) (auto simp: distinct_map inj_on_def)
  then show "distinct (map cd_id (df_candidates d)) \<Longrightarrow> distinct (matrix d)"
    unfolding matrix_def rounds_def by (metis distinct_upto)
qed

lemma validate_complete_None:
  "validate_complete dg d obs = None \<longleftrightarrow>
     locked dg d = Inr True \<and> obs \<noteq> [] \<and> set_ok d (definition_identity dg d) obs \<and> set (matrix d) \<subseteq> record_key ` set obs"
proof -
  have "missing_observations d obs = [] \<longleftrightarrow> set (matrix d) \<subseteq> record_key ` set obs"
    unfolding missing_observations_def by (auto simp: filter_empty_conv)
  then show ?thesis
    using validate_observations_None[of dg d obs]
    by (cases "validate_observations dg d obs") (auto simp: validate_complete_def)
qed

lemma definition_candidates:
  "definition_validate d = None \<Longrightarrow>
     distinct (map cd_id (df_candidates d)) \<and> 2 \<le> length (df_candidates d)
     \<and> ds_baseline (df_decision d) \<in> cd_id ` set (df_candidates d)"
  unfolding definition_validate_def Let_def first_error_Cons by (simp add: scan_seen_None)

lemma set_ok_in_matrix: "set_ok d dd obs \<Longrightarrow> record_key ` set obs \<subseteq> set (matrix d)"
  by (auto simp: set_matrix record_ok_def dest: set_ok_record)

text \<open>C23. A set of observations passes the completeness check exactly when its definition is
  locked to its own digest, it holds one record for every registered candidate and round and
  no other, and its records are each in order, of one schema, one run and consistent units.\<close>

theorem complete_exactly_the_matrix:
  "validate_complete dg d obs = None \<longleftrightarrow>
     definition_validate d = None \<and> df_lock d = Some (definition_identity dg d) \<and> obs \<noteq> []
     \<and> mset (map record_key obs) = mset (matrix d)
     \<and> list_all (record_ok d (definition_identity dg d)) obs
     \<and> (\<exists>schema run. list_all (\<lambda>ob. on_schema ob = schema \<and> on_run ob = run) obs)
     \<and> single_valued (\<Union> (unit_claims d ` set obs))"
proof -
  have same: "(\<exists>schema run. list_all (\<lambda>ob. on_schema ob = schema \<and> on_run ob = run) obs) \<longleftrightarrow>
      (\<forall>ob \<in> set obs. \<forall>ob' \<in> set obs. on_schema ob = on_schema ob' \<and> on_run ob = on_run ob')"
    unfolding list_all_iff by metis
  have keys: "mset (map record_key obs) = mset (matrix d) \<longleftrightarrow>
      distinct (map record_key obs) \<and> set (matrix d) \<subseteq> record_key ` set obs"
    if "definition_validate d = None" "list_all (record_ok d (definition_identity dg d)) obs"
  proof -
    have dm: "distinct (matrix d)" using definition_candidates[OF that(1)] by (simp add: distinct_matrix)
    have sub: "record_key ` set obs \<subseteq> set (matrix d)"
      using that(2) by (auto simp: set_matrix record_ok_def list_all_iff)
    show ?thesis
    proof
      assume m: "mset (map record_key obs) = mset (matrix d)"
      then have "distinct (map record_key obs)" using dm mset_eq_imp_distinct_iff by blast
      then show "distinct (map record_key obs) \<and> set (matrix d) \<subseteq> record_key ` set obs"
        using mset_eq_setD[OF m] by simp
    next
      assume "distinct (map record_key obs) \<and> set (matrix d) \<subseteq> record_key ` set obs"
      then show "mset (map record_key obs) = mset (matrix d)"
        using dm sub by (subst set_eq_iff_mset_eq_distinct[symmetric]) auto
    qed
  qed
  show ?thesis
    unfolding validate_complete_None locked_iff set_ok_def same using keys by (auto simp only: list_all_iff)
qed

end
