(* ===== verification/Decision.thy ===== *)
theory Decision
  imports Observations
begin

text \<open>
  The recommendation engine (internal/experimentdecision: engine.go, aggregate.go,
  attestation.go; the result record and its validation in internal/experiment/result.go).
  A locked definition, the complete observations of one run and the execution layer's
  attestation give one result: a proven winner, a violated premise, or why neither.

  The maps of the evaluation, keyed by the distinct ids of the candidates, are functions of
  the id. A number of the result, written by \<^verbatim>\<open>formatFloat\<close> and never read here, is the
  \<^verbatim>\<open>float64\<close> it denotes; the fixed sentence of a reason is a constructor over what it names.
\<close>

section \<open>Aggregation\<close>

definition percentile :: "rat list \<Rightarrow> rat \<Rightarrow> rat" where
  "percentile values p =
     (let sorted_values = sort values; n = int (length values);
          k0 = \<lceil>fmul (fdiv p 100) (rnd (of_int n))\<rceil>;
          k1 = (if k0 < 1 then 1 else k0);
          k = (if k1 > n then n else k1) in
      sorted_values ! nat (k - 1))"

definition maximum :: "rat list \<Rightarrow> rat" where
  "maximum values = foldl (\<lambda>m v. if v > m then v else m) (hd values) (tl values)"

definition minimum :: "rat list \<Rightarrow> rat" where
  "minimum values = foldl (\<lambda>m v. if v < m then v else m) (hd values) (tl values)"

definition mean :: "rat list \<Rightarrow> f64" where
  "mean values = f_div (foldl f_add (Fin 0) (map Fin values)) (Fin (of_nat (length values)))"

fun aggregate :: "aggregation \<Rightarrow> rat list \<Rightarrow> f64" where
  "aggregate AggP50 values = Fin (percentile values 50)"
| "aggregate AggP95 values = Fin (percentile values 95)"
| "aggregate AggMaximum values = Fin (maximum values)"
| "aggregate AggMean values = mean values"
| "aggregate AggRate values = mean values"
| "aggregate (AggUnknown _) values = Fin 0"

section \<open>Results\<close>

datatype decision_verdict = ProvenWinner | ViolatedWithWitness | DisclosedUnproven | VerdictUnknown string

datatype reason_code =
    BaselineGuardViolation | BaselineCandidateFailure | NoEligibleCandidate | InsufficientBaselineImprovement
  | InsufficientSeparation | PracticalTie | ExcessiveVariance | ConflictingBounds | ReasonUnknown string

datatype reason_detail =
    NoDetail | DetailBound string | DetailBaseline | DetailTie string | DetailRunnerUp string f64
  | DetailSeparation string | DetailP50 | DetailSpread

record reason_entry =
  rn_code :: reason_code
  rn_detail :: reason_detail
  rn_guard :: string
  rn_candidate :: string
  rn_witness :: "string option"
  rn_outcome :: "outcome_kind option"
  rn_round :: int

record execution_failure =
  xf_round :: int
  xf_kind :: outcome_kind
  xf_witness :: string

record guard_violation =
  vi_guard :: string
  vi_round :: int
  vi_witness :: string

record primary_result =
  pr_aggregation :: aggregation
  pr_unit :: string
  pr_value :: f64
  pr_rounds :: nat

record bound_outcome =
  bd_guard :: string
  bd_value :: f64
  bd_limit :: f64
  bd_pass :: bool

record candidate_result =
  cr_id :: string
  cr_baseline :: bool
  cr_eligible :: bool
  cr_violations :: "guard_violation list"
  cr_primary :: "primary_result option"
  cr_bounds :: "bound_outcome list"

record decision_result =
  rs_experiment :: string
  rs_definition :: string
  rs_run :: string
  rs_algorithm :: algorithm
  rs_verdict :: decision_verdict
  rs_winner :: string
  rs_reasons :: "reason_entry list"
  rs_candidates :: "candidate_result list"
  rs_observations :: string

definition reason :: "reason_code \<Rightarrow> string \<Rightarrow> reason_detail \<Rightarrow> reason_entry" where
  "reason code cand detail =
     \<lparr>rn_code = code, rn_detail = detail, rn_guard = '''', rn_candidate = cand, rn_witness = None,
      rn_outcome = None, rn_round = 0\<rparr>"

fun verdict_ok :: "decision_verdict \<Rightarrow> bool" where
  "verdict_ok (VerdictUnknown _) = False"
| "verdict_ok _ = True"

fun reason_code_ok :: "reason_code \<Rightarrow> bool" where
  "reason_code_ok (ReasonUnknown _) = False"
| "reason_code_ok _ = True"

text \<open>The id a sentence quotes; the rest of it is ASCII.\<close>

fun detail_id :: "reason_detail \<Rightarrow> string" where
  "detail_id (DetailBound g) = g"
| "detail_id (DetailTie c) = c"
| "detail_id (DetailRunnerUp c _) = c"
| "detail_id (DetailSeparation c) = c"
| "detail_id _ = ''''"

datatype result_error =
    ResExperiment string | ResDefinition string | ResRun string | ResAlgorithm algorithm | ResVerdict decision_verdict
  | ResWinnerMissing | ResWinnerExtra string | ResWinnerId string | ResReasonsExtra | ResReasonsMissing
  | ResReasonCode reason_code | ResReasonGuard string | ResReasonCandidate string | ResReasonDetail | ResReasonWitness
  | ResReasonFailure | ResReasonOutcome | ResNoCandidates | ResCandidateId string | ResViolationGuard string
  | ResViolationRound int | ResViolationWitness string | ResPrimaryAggregation aggregation | ResPrimaryUnit string
  | ResPrimaryValue f64 | ResPrimaryRounds | ResBoundGuard string | ResBoundValue f64 | ResBoundLimit f64
  | ResCandidateTwice string | ResBaselines nat | ResWinnerForeign string | ResWinnerIneligible string
  | ResWinnerBaseline string | ResObservations string

definition reason_validate :: "reason_entry \<Rightarrow> result_error option" where
  "reason_validate r = first_error
     [check (\<not> reason_code_ok (rn_code r)) (ResReasonCode (rn_code r)),
      check (rn_guard r \<noteq> '''' \<and> \<not> id_ok (rn_guard r)) (ResReasonGuard (rn_guard r)),
      check (rn_candidate r \<noteq> '''' \<and> \<not> id_ok (rn_candidate r)) (ResReasonCandidate (rn_candidate r)),
      check (\<not> utf8_valid (detail_id (rn_detail r))) ResReasonDetail,
      check (rn_witness r \<noteq> None \<and> \<not> witness_ok (rn_witness r)) ResReasonWitness,
      (if rn_code r = BaselineCandidateFailure then
         check (rn_candidate r = '''' \<or> rn_round r < 1
                \<or> (rn_outcome r \<noteq> Some OutCrash \<and> rn_outcome r \<noteq> Some OutTimeout) \<or> rn_witness r = None)
           ResReasonFailure
       else check (rn_outcome r \<noteq> None \<or> rn_round r \<noteq> 0) ResReasonOutcome)]"

definition violation_validate :: "guard_violation \<Rightarrow> result_error option" where
  "violation_validate v = first_error
     [check (\<not> id_ok (vi_guard v)) (ResViolationGuard (vi_guard v)),
      check (vi_round v < 1) (ResViolationRound (vi_round v)),
      check (vi_witness v = '''') (ResViolationWitness (vi_guard v))]"

definition primary_validate :: "primary_result \<Rightarrow> result_error option" where
  "primary_validate p = first_error
     [check (\<not> aggregation_ok (pr_aggregation p)) (ResPrimaryAggregation (pr_aggregation p)),
      check (\<not> unit_ok (pr_unit p)) (ResPrimaryUnit (pr_unit p)),
      check (\<not> is_fin (pr_value p)) (ResPrimaryValue (pr_value p)),
      check (pr_rounds p < 1) ResPrimaryRounds]"

definition bound_validate :: "bound_outcome \<Rightarrow> result_error option" where
  "bound_validate b = first_error
     [check (\<not> id_ok (bd_guard b)) (ResBoundGuard (bd_guard b)),
      check (\<not> is_fin (bd_value b)) (ResBoundValue (bd_value b)),
      check (\<not> is_fin (bd_limit b)) (ResBoundLimit (bd_limit b))]"

definition candidate_result_validate :: "candidate_result \<Rightarrow> result_error option" where
  "candidate_result_validate c = first_error
     [check (\<not> id_ok (cr_id c)) (ResCandidateId (cr_id c)),
      scan_idx (\<lambda>_ e. e) violation_validate 0 (cr_violations c),
      (case cr_primary c of None \<Rightarrow> None | Some p \<Rightarrow> primary_validate p),
      scan_idx (\<lambda>_ e. e) bound_validate 0 (cr_bounds c)]"

definition winner_validate :: "string \<Rightarrow> candidate_result list \<Rightarrow> result_error option" where
  "winner_validate w cs =
     (if w = '''' then None
      else
        (case find (\<lambda>c. cr_id c = w) (rev cs) of
           None \<Rightarrow> Some (ResWinnerForeign w)
         | Some c \<Rightarrow> first_error
             [check (\<not> cr_eligible c) (ResWinnerIneligible w), check (cr_baseline c) (ResWinnerBaseline w)]))"

definition result_validate :: "decision_result \<Rightarrow> result_error option" where
  "result_validate r =
     (let proven = (rs_verdict r = ProvenWinner); baselines = length (filter cr_baseline (rs_candidates r)) in
      first_error
       [check (\<not> id_ok (rs_experiment r)) (ResExperiment (rs_experiment r)),
        check (\<not> digest_ok (rs_definition r)) (ResDefinition (rs_definition r)),
        check (\<not> id_ok (rs_run r)) (ResRun (rs_run r)),
        check (\<not> algorithm_ok (rs_algorithm r)) (ResAlgorithm (rs_algorithm r)),
        check (\<not> verdict_ok (rs_verdict r)) (ResVerdict (rs_verdict r)),
        check (proven \<and> rs_winner r = '''') ResWinnerMissing,
        check (\<not> proven \<and> rs_winner r \<noteq> '''') (ResWinnerExtra (rs_winner r)),
        check (rs_winner r \<noteq> '''' \<and> \<not> id_ok (rs_winner r)) (ResWinnerId (rs_winner r)),
        check (proven \<and> rs_reasons r \<noteq> []) ResReasonsExtra,
        check (\<not> proven \<and> rs_reasons r = []) ResReasonsMissing,
        scan_idx (\<lambda>_ e. e) reason_validate 0 (rs_reasons r),
        check (rs_candidates r = []) ResNoCandidates,
        scan_seen cr_id (\<lambda>_ e. e) (\<lambda>_ c. ResCandidateTwice (cr_id c)) candidate_result_validate 0 [] (rs_candidates r),
        check (baselines \<noteq> 1) (ResBaselines baselines),
        winner_validate (rs_winner r) (rs_candidates r),
        check (\<not> digest_ok (rs_observations r)) (ResObservations (rs_observations r))])"

section \<open>Evidence by candidate and round\<close>

type_synonym lookup = "string \<Rightarrow> int \<Rightarrow> observation"

text \<open>What a Go map returns for a key it does not hold.\<close>

definition no_observation :: observation where
  "no_observation =
     \<lparr>on_candidate = '''', on_round = 0, on_outcome = None, on_guards = None, on_measurements = None,
      on_disclosures = None, on_schema = '''', on_digest = '''', on_run = ''''\<rparr>"

definition observation_at :: "observation list \<Rightarrow> lookup" where
  "observation_at obs i r =
     (case map_of (rev (map (\<lambda>ob. (record_key ob, ob)) obs)) (i, r) of None \<Rightarrow> no_observation | Some ob \<Rightarrow> ob)"

text \<open>The dereference of a witness that validation requires.\<close>

definition deref :: "string option \<Rightarrow> string" where
  "deref w = (case w of Some t \<Rightarrow> t | None \<Rightarrow> '''')"

definition baseline_of :: "experiment_def \<Rightarrow> string" where
  "baseline_of d = ds_baseline (df_decision d)"

definition candidate_ids :: "experiment_def \<Rightarrow> string list" where
  "candidate_ids d = map cd_id (df_candidates d)"

definition execution_failures :: "experiment_def \<Rightarrow> lookup \<Rightarrow> string \<Rightarrow> execution_failure list" where
  "execution_failures d ev i =
     concat (map (\<lambda>r. case on_outcome (ev i r) of
                        None \<Rightarrow> []
                      | Some oc \<Rightarrow>
                          if oc_kind oc = OutCompleted then []
                          else [\<lparr>xf_round = r, xf_kind = oc_kind oc, xf_witness = deref (oc_witness oc)\<rparr>])
              (rounds d))"

definition value_or_zero :: "measurement \<Rightarrow> rat" where
  "value_or_zero m = (case value_float (ms_value m) of None \<Rightarrow> 0 | Some v \<Rightarrow> v)"

definition guard_round_values :: "experiment_def \<Rightarrow> lookup \<Rightarrow> string \<Rightarrow> string \<Rightarrow> rat list" where
  "guard_round_values d ev i g =
     concat (map (\<lambda>r. if \<not> run_completed (ev i r) then []
                      else map value_or_zero (filter (eligible_for g) (slice (on_measurements (ev i r)))))
              (rounds d))"

definition primary_round_values :: "experiment_def \<Rightarrow> lookup \<Rightarrow> string \<Rightarrow> rat list" where
  "primary_round_values d ev i = guard_round_values d ev i (pm_id (ds_primary (df_decision d)))"

definition guard_violations :: "experiment_def \<Rightarrow> lookup \<Rightarrow> string \<Rightarrow> guard_violation list" where
  "guard_violations d ev i =
     concat (map (\<lambda>r.
       concat (map (\<lambda>g. map (\<lambda>gr. \<lparr>vi_guard = g, vi_round = r, vi_witness = deref (gr_witness gr)\<rparr>)
                     (filter (\<lambda>gr. gr_id gr = g \<and> gr_verdict gr = GuardFail) (slice (on_guards (ev i r)))))
         (required_guards d)))
       (rounds d))"

definition primary_value :: "experiment_def \<Rightarrow> lookup \<Rightarrow> string \<Rightarrow> f64" where
  "primary_value d ev i =
     (if i \<in> set (candidate_ids d) \<and> primary_round_values d ev i \<noteq> []
      then aggregate (pm_aggregation (ds_primary (df_decision d))) (primary_round_values d ev i) else Fin 0)"

definition primary_of :: "experiment_def \<Rightarrow> lookup \<Rightarrow> string \<Rightarrow> primary_result option" where
  "primary_of d ev i =
     (if i \<in> set (candidate_ids d) \<and> primary_round_values d ev i \<noteq> []
      then Some \<lparr>pr_aggregation = pm_aggregation (ds_primary (df_decision d)), pr_unit = pm_unit (ds_primary (df_decision d)),
                 pr_value = primary_value d ev i, pr_rounds = length (primary_round_values d ev i)\<rparr>
      else None)"

definition guard_max :: "experiment_def \<Rightarrow> lookup \<Rightarrow> string \<Rightarrow> string \<Rightarrow> rat option" where
  "guard_max d ev i g =
     (if i \<in> set (candidate_ids d) \<and> guard_round_values d ev i g \<noteq> [] then Some (maximum (guard_round_values d ev i g)) else None)"

definition or_zero :: "rat option \<Rightarrow> rat" where
  "or_zero v = (case v of None \<Rightarrow> 0 | Some x \<Rightarrow> x)"

text \<open>The bar a registered bound sets over the baseline's aggregate.\<close>

definition bound_limit :: "rat \<Rightarrow> f64 \<Rightarrow> f64" where
  "bound_limit base m = f_mul (Fin base) (f_add (Fin 1) m)"

section \<open>The evaluation\<close>

record evaluation =
  ev_def :: experiment_def
  ev_definition_digest :: string
  ev_observations_digest :: string
  ev_run :: string
  ev_at :: lookup
  ev_failures :: "string \<Rightarrow> execution_failure list"
  ev_violations :: "string \<Rightarrow> guard_violation list"
  ev_primary :: "string \<Rightarrow> primary_result option"
  ev_value :: "string \<Rightarrow> f64"
  ev_bounds :: "string \<Rightarrow> bound_outcome list"
  ev_eligible :: "string \<Rightarrow> bool"
  ev_bound_reasons :: "reason_entry list"

datatype evaluate_error =
    EvalLock def_error | EvalUnlocked | AttestationEmpty | AttestationOther string string
  | EvalObservations observations_error | EvalDefinition def_error | EvalUnregistered | EvalInternal result_error | EvalPanic

type_synonym evaluated = "evaluate_error + decision_result"

definition assemble :: "evaluation \<Rightarrow> decision_verdict \<Rightarrow> string \<Rightarrow> reason_entry list \<Rightarrow> evaluated" where
  "assemble e v winner reasons =
     (let d = ev_def e;
          res = \<lparr>rs_experiment = df_id d, rs_definition = ev_definition_digest e, rs_run = ev_run e,
                 rs_algorithm = df_algorithm d, rs_verdict = v, rs_winner = winner, rs_reasons = reasons,
                 rs_candidates =
                   map (\<lambda>c. \<lparr>cr_id = cd_id c, cr_baseline = (cd_id c = baseline_of d), cr_eligible = ev_eligible e (cd_id c),
                             cr_violations = ev_violations e (cd_id c), cr_primary = ev_primary e (cd_id c),
                             cr_bounds = ev_bounds e (cd_id c)\<rparr>)
                     (df_candidates d),
                 rs_observations = ev_observations_digest e\<rparr> in
      case result_validate res of Some err \<Rightarrow> Inl (EvalInternal err) | None \<Rightarrow> Inr res)"

definition step_execution_outcomes :: "evaluation \<Rightarrow> evaluation" where
  "step_execution_outcomes e = e\<lparr>ev_failures := \<lambda>i. if i \<in> set (candidate_ids (ev_def e)) then execution_failures (ev_def e) (ev_at e) i else []\<rparr>"

definition step_guard_eligibility :: "evaluation \<Rightarrow> evaluation" where
  "step_guard_eligibility e = e\<lparr>ev_violations := \<lambda>i. if i \<in> set (candidate_ids (ev_def e)) then guard_violations (ev_def e) (ev_at e) i else []\<rparr>"

definition step_aggregate_primary :: "evaluation \<Rightarrow> evaluation" where
  "step_aggregate_primary e =
     e\<lparr>ev_primary := primary_of (ev_def e) (ev_at e), ev_value := primary_value (ev_def e) (ev_at e)\<rparr>"

definition finalize_eligibility :: "evaluation \<Rightarrow> (string \<Rightarrow> bool) \<Rightarrow> evaluation" where
  "finalize_eligibility e bound_ok =
     e\<lparr>ev_eligible := \<lambda>i. i \<in> set (candidate_ids (ev_def e)) \<and> ev_failures e i = [] \<and> ev_violations e i = [] \<and> bound_ok i\<rparr>"

definition step_baseline_execution_failure :: "evaluation \<Rightarrow> evaluated option" where
  "step_baseline_execution_failure e =
     (case ev_failures e (baseline_of (ev_def e)) of
        [] \<Rightarrow> None
      | f # _ \<Rightarrow>
          (let e1 = finalize_eligibility (e\<lparr>ev_bounds := \<lambda>_. []\<rparr>) (\<lambda>_. False);
               e2 = e1\<lparr>ev_eligible := \<lambda>i. ev_eligible e1 i
                        \<or> i \<in> set (candidate_ids (ev_def e1)) \<and> ev_failures e1 i = [] \<and> ev_violations e1 i = []\<rparr> in
           Some (assemble e2 ViolatedWithWitness ''''
             [(reason BaselineCandidateFailure (baseline_of (ev_def e)) NoDetail)
                \<lparr>rn_outcome := Some (xf_kind f), rn_round := xf_round f, rn_witness := Some (xf_witness f)\<rparr>])))"

type_synonym bound_state = "(string \<Rightarrow> bound_outcome list) \<times> (string \<Rightarrow> bool) \<times> reason_entry list"

definition baseline_max :: "experiment_def \<Rightarrow> lookup \<Rightarrow> string \<Rightarrow> rat" where
  "baseline_max d ev g = or_zero (guard_max d ev (baseline_of d) g)"

definition bound_evaluable :: "experiment_def \<Rightarrow> lookup \<Rightarrow> string \<times> f64 \<Rightarrow> bool" where
  "bound_evaluable d ev b \<longleftrightarrow> \<not> baseline_max d ev (fst b) \<le> 0"

definition bound_holds :: "experiment_def \<Rightarrow> lookup \<Rightarrow> string \<times> f64 \<Rightarrow> string \<Rightarrow> bool" where
  "bound_holds d ev b i =
     (case guard_max d ev i (fst b) of
        None \<Rightarrow> True | Some v \<Rightarrow> f_le (Fin v) (bound_limit (baseline_max d ev (fst b)) (snd b)))"

definition bound_entry :: "experiment_def \<Rightarrow> lookup \<Rightarrow> string \<times> f64 \<Rightarrow> string \<Rightarrow> bound_outcome list" where
  "bound_entry d ev b i =
     (case guard_max d ev i (fst b) of
        None \<Rightarrow> []
      | Some v \<Rightarrow>
          [\<lparr>bd_guard = fst b, bd_value = Fin v, bd_limit = bound_limit (baseline_max d ev (fst b)) (snd b),
            bd_pass = bound_holds d ev b i\<rparr>])"

definition bound_reason :: "string \<times> f64 \<Rightarrow> reason_entry" where
  "bound_reason b = (reason ConflictingBounds '''' (DetailBound (fst b)))\<lparr>rn_guard := fst b\<rparr>"

definition bound_step :: "experiment_def \<Rightarrow> lookup \<Rightarrow> string \<times> f64 \<Rightarrow> bound_state \<Rightarrow> bound_state" where
  "bound_step d ev b st =
     (case st of (bounds, ok, reasons) \<Rightarrow>
        if \<not> bound_evaluable d ev b then (bounds, ok, reasons @ [bound_reason b])
        else (\<lambda>i. bounds i @ bound_entry d ev b i, \<lambda>i. ok i \<and> bound_holds d ev b i, reasons))"

definition registered_bounds :: "experiment_def \<Rightarrow> (string \<times> f64) list" where
  "registered_bounds d = concat (map (\<lambda>g. case gd_bound g of None \<Rightarrow> [] | Some m \<Rightarrow> [(gd_id g, m)]) (ds_guards (df_decision d)))"

definition step_secondary_bounds :: "evaluation \<Rightarrow> evaluation" where
  "step_secondary_bounds e =
     (case fold (bound_step (ev_def e) (ev_at e)) (registered_bounds (ev_def e))
             (\<lambda>_. [], \<lambda>i. i \<in> set (candidate_ids (ev_def e)), ev_bound_reasons e) of
        (bounds, ok, reasons) \<Rightarrow> finalize_eligibility (e\<lparr>ev_bounds := bounds, ev_bound_reasons := reasons\<rparr>) ok)"

fun premise_reasons :: "string \<Rightarrow> guard_violation list \<Rightarrow> string list \<Rightarrow> guard list \<Rightarrow> reason_entry list" where
  "premise_reasons base vs seen [] = []"
| "premise_reasons base vs seen (g # gs) =
     (if guard_bounded g \<or> gd_id g \<in> set seen then premise_reasons base vs seen gs
      else
        (case find (\<lambda>v. vi_guard v = gd_id g) vs of
           None \<Rightarrow> premise_reasons base vs seen gs
         | Some v \<Rightarrow>
             (reason BaselineGuardViolation base NoDetail)\<lparr>rn_guard := gd_id g, rn_witness := Some (vi_witness v)\<rparr>
             # premise_reasons base vs (gd_id g # seen) gs))"

text \<open>The test of a bar against a reference value, in the registered direction: the
  switch that the improvement and the separation share.\<close>

definition clears :: "direction \<Rightarrow> threshold \<Rightarrow> f64 \<Rightarrow> f64 \<Rightarrow> bool" where
  "clears dir t ref v =
     (if dir = DirLower then
        (case th_relative t of
           Some r \<Rightarrow> f_le v (f_mul ref (f_sub (Fin 1) r))
         | None \<Rightarrow> f_le v (f_sub ref (the (th_absolute t))))
      else
        (case th_relative t of
           Some r \<Rightarrow> f_le (f_mul ref (f_add (Fin 1) r)) v
         | None \<Rightarrow> f_le (f_add ref (the (th_absolute t))) v))"

definition direction_of :: "experiment_def \<Rightarrow> direction" where
  "direction_of d = pm_direction (ds_primary (df_decision d))"

definition improved :: "experiment_def \<Rightarrow> f64 \<Rightarrow> f64 \<Rightarrow> bool" where
  "improved d baseline v = clears (direction_of d) (ds_improvement (df_decision d)) baseline v"

definition step_baseline_premise_and_improvement :: "evaluation \<Rightarrow> evaluated option" where
  "step_baseline_premise_and_improvement e =
     (let d = ev_def e; base = baseline_of d; rest = filter (\<lambda>i. i \<noteq> base \<and> ev_eligible e i) (candidate_ids d) in
      if ev_violations e base \<noteq> [] then
        Some (assemble e ViolatedWithWitness ''''
          (premise_reasons base (ev_violations e base) [] (ds_guards (df_decision d))))
      else if ev_bound_reasons e \<noteq> [] then Some (assemble e DisclosedUnproven '''' (ev_bound_reasons e))
      else if th_relative (ds_improvement (df_decision d)) \<noteq> None \<and> f_le (ev_value e base) (Fin 0) then
        Some (assemble e DisclosedUnproven '''' [reason ConflictingBounds '''' DetailBaseline])
      else if rest = [] then Some (assemble e DisclosedUnproven '''' [reason NoEligibleCandidate '''' NoDetail])
      else if filter (\<lambda>i. improved d (ev_value e base) (ev_value e i)) rest = [] then
        Some (assemble e DisclosedUnproven '''' [reason InsufficientBaselineImprovement '''' NoDetail])
      else None)"

text \<open>Best first, ties in registered order.\<close>

definition rank_key :: "direction \<Rightarrow> f64 \<Rightarrow> f64" where
  "rank_key dir v = (if dir = DirLower then v else f_neg v)"

definition ranking :: "evaluation \<Rightarrow> (string \<times> f64) list" where
  "ranking e =
     sort_key (\<lambda>(i, v). rank_key (direction_of (ev_def e)) v)
       (map (\<lambda>i. (i, ev_value e i)) (filter (ev_eligible e) (candidate_ids (ev_def e))))"

definition separated :: "experiment_def \<Rightarrow> f64 \<Rightarrow> f64 \<Rightarrow> bool" where
  "separated d runner_up v = clears (direction_of d) (ds_separation (df_decision d)) runner_up v"

definition step_separation :: "evaluation \<Rightarrow> evaluated + string" where
  "step_separation e =
     (case ranking e of
        best # runner # _ \<Rightarrow>
          if f_eq (snd best) (snd runner) then
            Inl (assemble e DisclosedUnproven '''' [reason PracticalTie (fst best) (DetailTie (fst runner))])
          else if th_relative (ds_separation (df_decision (ev_def e))) \<noteq> None \<and> f_le (snd runner) (Fin 0) then
            Inl (assemble e DisclosedUnproven ''''
              [reason ConflictingBounds (fst runner) (DetailRunnerUp (fst runner) (snd runner))])
          else if \<not> separated (ev_def e) (snd runner) (snd best) then
            Inl (assemble e DisclosedUnproven ''''
              [reason InsufficientSeparation (fst best) (DetailSeparation (fst runner))])
          else Inr (fst best)
      | _ \<Rightarrow> Inl (Inl EvalPanic))"

definition spread_of :: "rat list \<Rightarrow> f64" where
  "spread_of values = f_div (f_sub (Fin (maximum values)) (Fin (minimum values))) (Fin (percentile values 50))"

fun variability_scan :: "evaluation \<Rightarrow> f64 \<Rightarrow> reason_entry list \<Rightarrow> string list \<Rightarrow> evaluated option" where
  "variability_scan e limit reasons [] = (if reasons = [] then None else Some (assemble e DisclosedUnproven '''' reasons))"
| "variability_scan e limit reasons (i # is) =
     (if \<not> ev_eligible e i then variability_scan e limit reasons is
      else
        (let values = primary_round_values (ev_def e) (ev_at e) i in
         if percentile values 50 \<le> 0 then
           Some (assemble e DisclosedUnproven '''' [reason ConflictingBounds i DetailP50])
         else if f_less limit (spread_of values) then
           variability_scan e limit (reasons @ [reason ExcessiveVariance i DetailSpread]) is
         else variability_scan e limit reasons is))"

definition step_variability :: "evaluation \<Rightarrow> evaluated option" where
  "step_variability e =
     (case ds_spread (df_decision (ev_def e)) of
        None \<Rightarrow> None
      | Some limit \<Rightarrow> variability_scan e limit [] (candidate_ids (ev_def e)))"

definition run_steps :: "evaluation \<Rightarrow> evaluated" where
  "run_steps e0 =
     (let e = step_aggregate_primary (step_guard_eligibility (step_execution_outcomes e0)) in
      case step_baseline_execution_failure e of
        Some out \<Rightarrow> out
      | None \<Rightarrow>
          (let e' = step_secondary_bounds e in
           case step_baseline_premise_and_improvement e' of
             Some out \<Rightarrow> out
           | None \<Rightarrow>
               (case step_separation e' of
                  Inl out \<Rightarrow> out
                | Inr best \<Rightarrow>
                    (case step_variability e' of
                       Some out \<Rightarrow> out
                     | None \<Rightarrow> assemble e' ProvenWinner best []))))"

definition start_evaluation :: "experiment_def \<Rightarrow> string \<Rightarrow> string \<Rightarrow> observation list \<Rightarrow> evaluation" where
  "start_evaluation d dd od obs =
     \<lparr>ev_def = d, ev_definition_digest = dd, ev_observations_digest = od, ev_run = on_run (hd obs), ev_at = observation_at obs,
      ev_failures = \<lambda>_. [], ev_violations = \<lambda>_. [], ev_primary = \<lambda>_. None, ev_value = \<lambda>_. Fin 0, ev_bounds = \<lambda>_. [],
      ev_eligible = \<lambda>_. False, ev_bound_reasons = []\<rparr>"

definition compute ::
  "(normalized_definition \<Rightarrow> string) \<Rightarrow> (observation_projection list \<Rightarrow> string) \<Rightarrow> experiment_def \<Rightarrow> observation list \<Rightarrow> evaluated" where
  "compute dg od d obs =
     (case definition_digest dg d of
        Inl e \<Rightarrow> Inl (EvalDefinition e)
      | Inr dd \<Rightarrow>
          (case observations_digest od d obs of
             None \<Rightarrow> Inl EvalUnregistered
           | Some digest \<Rightarrow> run_steps (start_evaluation d dd digest obs)))"

text \<open>The attestation is the environment policy the execution layer enforced.\<close>

definition attestation_verify :: "experiment_def \<Rightarrow> string \<Rightarrow> evaluate_error option" where
  "attestation_verify d att = first_error
     [check (att = '''') AttestationEmpty,
      check (att \<noteq> xs_environment (df_execution d)) (AttestationOther att (xs_environment (df_execution d)))]"

definition evaluate ::
  "(normalized_definition \<Rightarrow> string) \<Rightarrow> (observation_projection list \<Rightarrow> string) \<Rightarrow> experiment_def \<Rightarrow> observation list
     \<Rightarrow> string \<Rightarrow> evaluated" where
  "evaluate dg od d obs att =
     (case locked dg d of
        Inl e \<Rightarrow> Inl (EvalLock e)
      | Inr l \<Rightarrow>
          if \<not> l then Inl EvalUnlocked
          else
            (case attestation_verify d att of
               Some e \<Rightarrow> Inl e
             | None \<Rightarrow>
                 (case validate_complete dg d obs of
                    Some e \<Rightarrow> Inl (EvalObservations e)
                  | None \<Rightarrow> compute dg od d obs)))"

section \<open>The steps, as conditions\<close>

lemma assemble_Inr:
  assumes "assemble e v w rs = Inr res"
  shows "rs_verdict res = v" "rs_winner res = w" "rs_reasons res = rs"
    "i \<in> set (candidate_ids (ev_def e)) \<Longrightarrow> ev_primary e i = Some p \<Longrightarrow> is_fin (pr_value p)"
    "i \<in> set (candidate_ids (ev_def e)) \<Longrightarrow> b \<in> set (ev_bounds e i) \<Longrightarrow> is_fin (bd_limit b)"
proof -
  have res: "rs_verdict res = v" "rs_winner res = w" "rs_reasons res = rs"
    "rs_candidates res =
       map (\<lambda>c. \<lparr>cr_id = cd_id c, cr_baseline = (cd_id c = baseline_of (ev_def e)), cr_eligible = ev_eligible e (cd_id c),
                 cr_violations = ev_violations e (cd_id c), cr_primary = ev_primary e (cd_id c),
                 cr_bounds = ev_bounds e (cd_id c)\<rparr>) (df_candidates (ev_def e))" "result_validate res = None"
    using assms by (auto simp: assemble_def Let_def split: option.splits)
  have ok: "\<forall>c \<in> set (rs_candidates res). candidate_result_validate c = None"
    using res(5) unfolding result_validate_def Let_def first_error_Cons by (simp add: scan_seen_None)
  show "rs_verdict res = v" "rs_winner res = w" "rs_reasons res = rs" by (fact res)+
  show "is_fin (pr_value p)" if "i \<in> set (candidate_ids (ev_def e))" "ev_primary e i = Some p"
    using ok that unfolding res(4) by (auto simp: candidate_ids_def candidate_result_validate_def primary_validate_def scan_simps)
  show "is_fin (bd_limit b)" if "i \<in> set (candidate_ids (ev_def e))" "b \<in> set (ev_bounds e i)"
    using ok that unfolding res(4) by (auto simp: candidate_ids_def candidate_result_validate_def bound_validate_def scan_simps)
qed

lemma bound_fold:
  "fold (bound_step d ev) bs (bounds, ok, reasons) =
     (\<lambda>i. bounds i @ concat (map (\<lambda>b. bound_entry d ev b i) (filter (bound_evaluable d ev) bs)),
      \<lambda>i. ok i \<and> (\<forall>b \<in> set (filter (bound_evaluable d ev) bs). bound_holds d ev b i),
      reasons @ map bound_reason (filter (\<lambda>b. \<not> bound_evaluable d ev b) bs))"
  by (induction bs arbitrary: bounds ok reasons) (auto simp: bound_step_def)

lemma premise_None:
  "step_baseline_premise_and_improvement e = None \<longleftrightarrow>
     ev_violations e (baseline_of (ev_def e)) = [] \<and> ev_bound_reasons e = []
     \<and> \<not> (th_relative (ds_improvement (df_decision (ev_def e))) \<noteq> None \<and> f_le (ev_value e (baseline_of (ev_def e))) (Fin 0))
     \<and> (\<exists>i \<in> set (candidate_ids (ev_def e)). i \<noteq> baseline_of (ev_def e) \<and> ev_eligible e i
          \<and> improved (ev_def e) (ev_value e (baseline_of (ev_def e))) (ev_value e i))"
  unfolding step_baseline_premise_and_improvement_def Let_def by (auto simp: filter_empty_conv)

lemma variability_None:
  "variability_scan e limit reasons is = None \<longleftrightarrow>
     reasons = [] \<and> (\<forall>i \<in> set is. ev_eligible e i \<longrightarrow>
       0 < percentile (primary_round_values (ev_def e) (ev_at e) i) 50
       \<and> \<not> f_less limit (spread_of (primary_round_values (ev_def e) (ev_at e) i)))"
  by (induction "is" arbitrary: reasons) (auto simp: Let_def not_less)

text \<open>Every path but the last reports another verdict.\<close>

lemma variability_verdict:
  "variability_scan e limit reasons is = Some (Inr res) \<Longrightarrow> rs_verdict res = DisclosedUnproven"
  by (induction "is" arbitrary: reasons) (auto simp: Let_def assemble_Inr split: if_splits)

lemma premise_verdict:
  assumes "step_baseline_premise_and_improvement e = Some (Inr res)"
  shows "rs_verdict res =
     (if ev_violations e (baseline_of (ev_def e)) = [] then DisclosedUnproven else ViolatedWithWitness)"
  using assms unfolding step_baseline_premise_and_improvement_def Let_def by (auto simp: assemble_Inr split: if_splits)

lemma failure_verdict:
  "step_baseline_execution_failure e = Some (Inr res) \<Longrightarrow> rs_verdict res = ViolatedWithWitness"
  by (auto simp: step_baseline_execution_failure_def Let_def assemble_Inr split: list.splits)

lemma separation_verdict: "step_separation e = Inl (Inr res) \<Longrightarrow> rs_verdict res = DisclosedUnproven"
  by (auto simp: step_separation_def assemble_Inr split: list.splits if_splits)

section \<open>The state of the evaluation\<close>

definition measured :: "experiment_def \<Rightarrow> string \<Rightarrow> string \<Rightarrow> observation list \<Rightarrow> evaluation" where
  "measured d dd od obs =
     step_aggregate_primary (step_guard_eligibility (step_execution_outcomes (start_evaluation d dd od obs)))"

lemma measured_fields [simp]:
  "ev_def (measured d dd od obs) = d"
  "ev_definition_digest (measured d dd od obs) = dd"
  "ev_observations_digest (measured d dd od obs) = od"
  "ev_run (measured d dd od obs) = on_run (hd obs)"
  "ev_at (measured d dd od obs) = observation_at obs"
  "ev_failures (measured d dd od obs) i = (if i \<in> set (candidate_ids d) then execution_failures d (observation_at obs) i else [])"
  "ev_violations (measured d dd od obs) i = (if i \<in> set (candidate_ids d) then guard_violations d (observation_at obs) i else [])"
  "ev_primary (measured d dd od obs) = primary_of d (observation_at obs)"
  "ev_value (measured d dd od obs) = primary_value d (observation_at obs)"
  "ev_bound_reasons (measured d dd od obs) = []"
  by (simp_all add: measured_def step_aggregate_primary_def step_guard_eligibility_def step_execution_outcomes_def
      start_evaluation_def)

text \<open>A candidate that may be recommended: every attempt completed, no required guard failed,
  every bound that can be evaluated holds.\<close>

definition recommendable :: "experiment_def \<Rightarrow> lookup \<Rightarrow> string \<Rightarrow> bool" where
  "recommendable d ev i \<longleftrightarrow>
     i \<in> set (candidate_ids d) \<and> execution_failures d ev i = [] \<and> guard_violations d ev i = []
     \<and> (\<forall>b \<in> set (registered_bounds d). bound_evaluable d ev b \<longrightarrow> bound_holds d ev b i)"

lemma bounded_fields [simp]:
  fixes d dd od obs
  defines "e \<equiv> step_secondary_bounds (measured d dd od obs)"
  shows "ev_def e = d" "ev_definition_digest e = dd" "ev_observations_digest e = od" "ev_run e = on_run (hd obs)"
    "ev_at e = observation_at obs" "ev_failures e = ev_failures (measured d dd od obs)"
    "ev_violations e = ev_violations (measured d dd od obs)"
    "ev_primary e = primary_of d (observation_at obs)" "ev_value e = primary_value d (observation_at obs)"
    "ev_eligible e i \<longleftrightarrow> recommendable d (observation_at obs) i"
    "ev_bounds e i = concat (map (\<lambda>b. bound_entry d (observation_at obs) b i)
       (filter (bound_evaluable d (observation_at obs)) (registered_bounds d)))"
    "ev_bound_reasons e = map bound_reason (filter (\<lambda>b. \<not> bound_evaluable d (observation_at obs) b) (registered_bounds d))"
  unfolding e_def by (auto simp: step_secondary_bounds_def bound_fold finalize_eligibility_def recommendable_def)

lemma run_steps_start:
  "run_steps (start_evaluation d dd od obs) =
     (case step_baseline_execution_failure (measured d dd od obs) of
        Some out \<Rightarrow> out
      | None \<Rightarrow>
          (let e = step_secondary_bounds (measured d dd od obs) in
           case step_baseline_premise_and_improvement e of
             Some out \<Rightarrow> out
           | None \<Rightarrow>
               (case step_separation e of
                  Inl out \<Rightarrow> out
                | Inr best \<Rightarrow> (case step_variability e of Some out \<Rightarrow> out | None \<Rightarrow> assemble e ProvenWinner best []))))"
  by (simp only: run_steps_def measured_def Let_def)

lemma failure_None:
  assumes "baseline_of d \<in> set (candidate_ids d)"
  shows "step_baseline_execution_failure (measured d dd od obs) = None
    \<longleftrightarrow> execution_failures d (observation_at obs) (baseline_of d) = []"
  using assms by (simp add: step_baseline_execution_failure_def Let_def split: list.split)

text \<open>Whatever is reported is assembled from the same measurements.\<close>

lemma failure_assembled:
  assumes "step_baseline_execution_failure e = Some out"
  shows "\<exists>e2 v w rs. out = assemble e2 v w rs \<and> ev_def e2 = ev_def e \<and> ev_primary e2 = ev_primary e"
  using assms unfolding step_baseline_execution_failure_def Let_def
  by (auto simp: finalize_eligibility_def split: list.splits intro!: exI)

lemma premise_assembled: "step_baseline_premise_and_improvement e = Some out \<Longrightarrow> \<exists>v w rs. out = assemble e v w rs"
  unfolding step_baseline_premise_and_improvement_def Let_def by (auto split: if_splits)

lemma separation_assembled: "step_separation e = Inl out \<Longrightarrow> out = Inl EvalPanic \<or> (\<exists>v w rs. out = assemble e v w rs)"
  by (auto simp: step_separation_def split: list.splits if_splits)

lemma variability_assembled: "variability_scan e limit reasons is = Some out \<Longrightarrow> \<exists>v w rs. out = assemble e v w rs"
  by (induction "is" arbitrary: reasons) (auto simp: Let_def split: if_splits)

lemma run_assembled:
  assumes "run_steps (start_evaluation d dd od obs) = Inr res"
  shows "\<exists>e v w rs. assemble e v w rs = Inr res \<and> ev_def e = d \<and> ev_primary e = primary_of d (observation_at obs)
    \<and> (step_baseline_execution_failure (measured d dd od obs) = None \<longrightarrow> e = step_secondary_bounds (measured d dd od obs))"
proof (cases "step_baseline_execution_failure (measured d dd od obs)")
  case None
  let ?e = "step_secondary_bounds (measured d dd od obs)"
  have "\<exists>v w rs. assemble ?e v w rs = Inr res"
  proof (cases "step_baseline_premise_and_improvement ?e")
    case premise: None
    show ?thesis
    proof (cases "step_separation ?e")
      case (Inl out)
      then have "out = Inr res" using assms None premise by (simp add: run_steps_start Let_def)
      then show ?thesis using separation_assembled[OF Inl] by (metis Inl_Inr_False)
    next
      case (Inr best)
      show ?thesis
      proof (cases "step_variability ?e")
        case variability: None
        then show ?thesis using assms None premise Inr by (auto simp: run_steps_start Let_def)
      next
        case (Some out)
        then have "out = Inr res" using assms None premise Inr by (simp add: run_steps_start Let_def)
        then show ?thesis
          using Some variability_assembled[of ?e] unfolding step_variability_def by (metis option.case_eq_if option.distinct(1))
      qed
    qed
  next
    case (Some out)
    then have "out = Inr res" using assms None by (simp add: run_steps_start Let_def)
    then show ?thesis using premise_assembled[OF Some] by metis
  qed
  then obtain v w rs where "assemble ?e v w rs = Inr res" by blast
  then show ?thesis by (intro exI[of _ ?e] exI[of _ v] exI[of _ w] exI[of _ rs]) simp
next
  case (Some out)
  then have "out = Inr res" using assms by (simp add: run_steps_start)
  moreover obtain e2 v w rs where "out = assemble e2 v w rs" "ev_def e2 = d" "ev_primary e2 = primary_of d (observation_at obs)"
    using failure_assembled[OF Some] measured_fields(1,8) by metis
  ultimately show ?thesis using Some by (intro exI[of _ e2] exI[of _ v] exI[of _ w] exI[of _ rs]) simp
qed

lemma run_finite:
  assumes "run_steps (start_evaluation d dd od obs) = Inr res"
  shows "is_fin (primary_value d (observation_at obs) i)"
proof (cases "primary_of d (observation_at obs) i")
  case None
  then show ?thesis by (auto simp: primary_of_def primary_value_def split: if_splits)
next
  case (Some p)
  then have "pr_value p = primary_value d (observation_at obs) i" "i \<in> set (candidate_ids d)"
    by (auto simp: primary_of_def split: if_splits)
  then show ?thesis using run_assembled[OF assms] Some assemble_Inr(4) by metis
qed

section \<open>The ranking\<close>

text \<open>\<open>better\<close> is strict improvement in the registered direction.\<close>

definition better :: "experiment_def \<Rightarrow> f64 \<Rightarrow> f64 \<Rightarrow> bool" where
  "better d v w = (if direction_of d = DirLower then f_less v w else f_less w v)"

lemma rank_key_order:
  assumes "is_fin v" "is_fin w"
  shows "rank_key (direction_of d) v < rank_key (direction_of d) w \<longleftrightarrow> better d v w"
  using assms by (auto simp: rank_key_def better_def is_fin_iff)

lemma rank_key_eq:
  assumes "is_fin v" "is_fin w"
  shows "rank_key (direction_of d) v = rank_key (direction_of d) w \<longleftrightarrow> v = w"
  using assms by (auto simp: rank_key_def is_fin_iff)

lemma sort_key_two:
  fixes key :: "'a \<Rightarrow> 'k :: linorder"
  assumes "sort_key key xs = b # r # rest" "distinct xs"
  shows "b \<in> set xs" "r \<in> set xs" "b \<noteq> r" "\<forall>x \<in> set xs. key b \<le> key x"
    "\<forall>x \<in> set xs - {b}. key r \<le> key x"
proof -
  have s: "set (b # r # rest) = set xs" and d: "distinct (b # r # rest)" and o: "sorted (map key (b # r # rest))"
    using assms by (metis set_sort, metis distinct_sort, metis sorted_sort_key)
  show "b \<in> set xs" "r \<in> set xs" "b \<noteq> r" using s d by auto
  show "\<forall>x \<in> set xs. key b \<le> key x" using s[symmetric] o by auto
  show "\<forall>x \<in> set xs - {b}. key r \<le> key x" using s[symmetric] o d by auto
qed

text \<open>The winner beats the rest, and clears the separation bar over the best of the rest.\<close>

definition separated_winner :: "experiment_def \<Rightarrow> (string \<Rightarrow> f64) \<Rightarrow> (string \<Rightarrow> bool) \<Rightarrow> string \<Rightarrow> bool" where
  "separated_winner d val ok w \<longleftrightarrow>
     ok w \<and> (\<exists>r. ok r \<and> r \<noteq> w \<and> better d (val w) (val r) \<and> (\<forall>i. ok i \<and> i \<noteq> w \<longrightarrow> \<not> better d (val i) (val r))
          \<and> (th_relative (ds_separation (df_decision d)) \<noteq> None \<longrightarrow> f_less (Fin 0) (val r))
          \<and> separated d (val r) (val w))"

lemma separation_Inr:
  assumes fin: "\<And>i. is_fin (ev_value e i)"
    and ok: "\<And>i. ev_eligible e i \<Longrightarrow> i \<in> set (candidate_ids (ev_def e))"
    and dist: "distinct (candidate_ids (ev_def e))"
  shows "step_separation e = Inr w \<longleftrightarrow> separated_winner (ev_def e) (ev_value e) (ev_eligible e) w"
proof -
  let ?d = "ev_def e" and ?val = "ev_value e" and ?ok = "ev_eligible e"
  let ?xs = "map (\<lambda>i. (i, ?val i)) (filter ?ok (candidate_ids ?d))"
  let ?key = "\<lambda>(i :: string, v). rank_key (direction_of ?d) v"
  have rk: "ranking e = sort_key ?key ?xs" by (simp add: ranking_def)
  have xs: "x \<in> set ?xs \<longleftrightarrow> ?ok (fst x) \<and> snd x = ?val (fst x)" for x
    using ok by (cases x) auto
  have dxs: "distinct ?xs" using dist by (auto simp: distinct_map inj_on_def)
  have cmp: "?key (i, ?val i) < ?key (j, ?val j) \<longleftrightarrow> better ?d (?val i) (?val j)" for i j
    using rank_key_order[OF fin fin] by simp
  have zero: "\<not> f_le (?val r) (Fin 0) \<longleftrightarrow> f_less (Fin 0) (?val r)" for r
    using fin[of r] by (auto simp: is_fin_iff)
  have eq: "f_eq (?val i) (?val j) \<longleftrightarrow> ?val i = ?val j" for i j
    using fin[of i] by (auto simp: is_fin_iff)
  show ?thesis
  proof
    assume a: "step_separation e = Inr w"
    then obtain b r rest where br: "ranking e = b # r # rest"
      by (auto simp: step_separation_def split: list.splits)
    note two = sort_key_two[OF br[unfolded rk] dxs]
    have v: "snd b = ?val (fst b)" "snd r = ?val (fst r)" "?ok (fst b)" "?ok (fst r)" using two(1,2) xs by auto
    have w: "fst b = w" and ne: "?val (fst b) \<noteq> ?val (fst r)"
      and sep: "separated ?d (?val (fst r)) (?val (fst b))"
        "th_relative (ds_separation (df_decision ?d)) \<noteq> None \<longrightarrow> f_less (Fin 0) (?val (fst r))"
      using a br v(1,2) by (auto simp: step_separation_def eq zero[symmetric] split: if_splits)
    have "?key b \<le> ?key r" using two(2,4) by blast
    then have "?key (fst b, ?val (fst b)) < ?key (fst r, ?val (fst r))"
      using v(1,2) ne rank_key_eq[OF fin fin] by (metis order_le_less prod.collapse case_prod_conv)
    then have "better ?d (?val (fst b)) (?val (fst r))" using cmp by simp
    moreover have "\<not> better ?d (?val i) (?val (fst r))" if "?ok i" "i \<noteq> w" for i
    proof -
      have "(i, ?val i) \<in> set ?xs - {b}" using that w xs by auto
      then have "?key r \<le> ?key (i, ?val i)" using two(5) by blast
      then show ?thesis using cmp[of i "fst r"] v(2) by (metis not_less prod.collapse)
    qed
    ultimately show "separated_winner ?d ?val ?ok w"
      unfolding separated_winner_def using v(3,4) w sep ne by metis
  next
    assume "separated_winner ?d ?val ?ok w"
    then obtain r where w: "?ok w" and r: "?ok r" "r \<noteq> w" "better ?d (?val w) (?val r)"
      "\<forall>i. ?ok i \<and> i \<noteq> w \<longrightarrow> \<not> better ?d (?val i) (?val r)"
      "th_relative (ds_separation (df_decision ?d)) \<noteq> None \<longrightarrow> f_less (Fin 0) (?val r)"
      "separated ?d (?val r) (?val w)" unfolding separated_winner_def by blast
    have mem: "(w, ?val w) \<in> set ?xs" "(r, ?val r) \<in> set ?xs" using w r(1) xs by auto
    obtain b s rest where bs: "ranking e = b # s # rest"
    proof (cases "ranking e" rule: remdups_adj.cases)
      case 1
      then have "set ?xs = {}" unfolding rk by (metis set_sort set_empty)
      then show ?thesis using mem by simp
    next
      case (2 x)
      then have "set ?xs = {x}" unfolding rk by (metis set_sort list.simps(15) set_empty)
      then show ?thesis using mem r(2) by auto
    qed (use that in blast)
    note two = sort_key_two[OF bs[unfolded rk] dxs]
    have v: "snd b = ?val (fst b)" "snd s = ?val (fst s)" "?ok (fst b)" "?ok (fst s)" using two(1,2) xs by auto
    have b: "fst b = w"
    proof (rule ccontr)
      assume n: "fst b \<noteq> w"
      have "?key b \<le> ?key (w, ?val w)" using two(4) mem(1) by blast
      then have "\<not> better ?d (?val w) (?val (fst b))" using cmp[of w "fst b"] v(1) by (metis not_less prod.collapse)
      moreover have "\<not> better ?d (?val (fst b)) (?val r)" using r(4) v(3) n by blast
      moreover have "better ?d (?val w) (?val r)" by (fact r(3))
      ultimately show False using cmp[of w "fst b"] cmp[of "fst b" r] cmp[of w r] by simp
    qed
    have s: "?val (fst s) = ?val r"
    proof -
      have "fst s \<noteq> w" using two(3) v b by (metis prod.collapse)
      then have "\<not> better ?d (?val (fst s)) (?val r)" using r(4) v(4) by blast
      moreover have "(r, ?val r) \<in> set ?xs - {b}" using mem(2) b r(2) by auto
      then have "?key s \<le> ?key (r, ?val r)" using two(5) by blast
      then have "\<not> better ?d (?val r) (?val (fst s))" using cmp[of r "fst s"] v(2) by (metis not_less prod.collapse)
      ultimately show ?thesis
        using rank_key_order[OF fin fin] rank_key_eq[OF fin fin] by (metis linorder_neqE)
    qed
    have "?val w \<noteq> ?val r" using r(3) by (auto simp: better_def f_less_def split: if_splits)
    then show "step_separation e = Inr w"
      using bs b s v(1,2) r(5,6) by (auto simp: step_separation_def eq zero[symmetric])
  qed
qed

section \<open>Aggregates are doubles\<close>

lemma value_or_zero_double: "fin_double (value_or_zero m)"
proof (cases "ms_value m")
  case (ValueNumber s)
  then show ?thesis using parse_float_double by (auto simp: value_or_zero_def split: option.split)
qed (auto simp: value_or_zero_def)

lemma guard_values_double: "v \<in> set (guard_round_values d ev i g) \<Longrightarrow> fin_double v"
  by (auto simp: guard_round_values_def value_or_zero_double split: if_splits)

lemma percentile_in: "vs \<noteq> [] \<Longrightarrow> percentile vs p \<in> set vs"
proof -
  assume "vs \<noteq> []"
  then have n: "0 < length (sort vs)" by simp
  define k0 where "k0 = \<lceil>fmul (fdiv p 100) (rnd (of_int (int (length vs))))\<rceil>"
  define k1 where "k1 = (if k0 < 1 then 1 else k0)"
  define k where "k = (if k1 > int (length vs) then int (length vs) else k1)"
  have "1 \<le> k" "k \<le> int (length vs)" using n by (auto simp: k_def k1_def Suc_le_eq)
  then have "nat (k - 1) < length (sort vs)" by (simp add: nat_less_iff)
  then have "sort vs ! nat (k - 1) \<in> set (sort vs)" by (rule nth_mem)
  then show ?thesis unfolding percentile_def Let_def k0_def[symmetric] k1_def[symmetric] k_def[symmetric] by simp
qed

lemma maximum_in: "vs \<noteq> [] \<Longrightarrow> maximum vs \<in> set vs"
proof -
  have "foldl (\<lambda>m v. if v > m then v else m) m vs \<in> insert m (set vs)" for m and vs :: "rat list"
    by (induction vs arbitrary: m) force+
  then show "vs \<noteq> [] \<Longrightarrow> maximum vs \<in> set vs" by (cases vs) (auto simp: maximum_def)
qed

lemma mean_double: "vs \<noteq> [] \<Longrightarrow> mean vs = Fin x \<Longrightarrow> fin_double x"
proof -
  assume a: "vs \<noteq> []" "mean vs = Fin x"
  then have n: "(of_nat (length vs) :: rat) \<noteq> 0" by simp
  have "\<not> (of_nat (length vs) :: rat) < 0" by simp
  then show ?thesis using a n f_of_Fin
    by (cases "foldl f_add (Fin 0) (map Fin vs)") (auto simp: mean_def split: if_splits)
qed

lemma aggregate_double:
  assumes "vs \<noteq> []" "\<And>v. v \<in> set vs \<Longrightarrow> fin_double v" "aggregate a vs = Fin x"
  shows "fin_double x"
  using assms percentile_in maximum_in mean_double by (cases a) auto

lemma primary_value_double: "primary_value d ev i = Fin x \<Longrightarrow> fin_double x"
  using aggregate_double[of "primary_round_values d ev i"] guard_values_double
  by (auto simp: primary_value_def primary_round_values_def split: if_splits)

text \<open>A value that clears a bar over a reference is not worse than the reference, rounding
  and overflow included.\<close>

lemma clears_not_worse:
  assumes b: "fin_double b" and t: "threshold_validate t = None" and pos: "th_relative t \<noteq> None \<Longrightarrow> 0 < b"
    and c: "clears dir t (Fin b) (Fin v)"
  shows "if dir = DirLower then v \<le> b else b \<le> v"
proof (cases "th_relative t")
  case None
  then obtain a where a: "th_absolute t = Some (Fin a)" "0 < a"
    using t by (auto simp: threshold_validate_def arm_validate_def positive_number_def is_fin_iff)
  show ?thesis
  proof (cases "dir = DirLower")
    case True
    have "f_le (f_of (b - a)) (Fin b)" by (rule f_of_le) (use a b in simp_all)
    then show ?thesis using c None a True f_le_trans f_le_Fin(1) by (fastforce simp: clears_def f_sub_def)
  next
    case False
    have "f_le (Fin b) (f_of (b + a))" by (rule f_of_ge) (use a b in simp_all)
    then show ?thesis using c None a False f_le_trans f_le_Fin(1) by (fastforce simp: clears_def)
  qed
next
  case (Some r)
  then obtain q where q: "r = Fin q" "0 < q"
    using t by (auto simp: threshold_validate_def arm_validate_def positive_number_def is_fin_iff)
  have b0: "0 < b" using pos Some by simp
  show ?thesis
  proof (cases "dir = DirLower")
    case True
    have le: "f_le (f_of (1 - q)) (Fin 1)" by (rule f_of_le) (use q in simp_all)
    have cv: "f_le (Fin v) (f_mul (Fin b) (f_of (1 - q)))" using c Some q True by (simp add: clears_def f_sub_def)
    show ?thesis
    proof (cases "f_of (1 - q)")
      case (Fin x)
      then have "x \<le> 1" using le by simp
      then have "b * x \<le> b" using b0 mult_left_mono[of x 1 b] by simp
      then have "f_le (f_of (b * x)) (Fin b)" using b by (rule f_of_le)
      then show ?thesis using cv Fin True f_le_trans f_le_Fin(1) by fastforce
    qed (use le cv b0 in \<open>auto simp: f_le_def inf_sign_def\<close>)
  next
    case False
    have le: "f_le (Fin 1) (f_of (1 + q))" by (rule f_of_ge) (use q in simp_all)
    have cv: "f_le (f_mul (Fin b) (f_of (1 + q))) (Fin v)" using c Some q False by (simp add: clears_def)
    show ?thesis
    proof (cases "f_of (1 + q)")
      case (Fin x)
      then have "1 \<le> x" using le by simp
      then have "b \<le> b * x" using b0 mult_left_mono[of 1 x b] by simp
      then have "f_le (Fin b) (f_of (b * x))" using b by (rule f_of_ge)
      then show ?thesis using cv Fin False f_le_trans f_le_Fin(1) by fastforce
    qed (use le cv b0 in \<open>auto simp: f_le_def inf_sign_def\<close>)
  qed
qed

lemma clears_better:
  assumes "clears dir t ref (Fin v)" "if dir = DirLower then w \<le> v else v \<le> w"
  shows "clears dir t ref (Fin w)"
proof -
  have "f_le (Fin w) u" if "f_le (Fin v) u" "w \<le> v" for u using f_le_trans[of "Fin w" "Fin v" u] that by simp
  moreover have "f_le u (Fin w)" if "f_le u (Fin v)" "v \<le> w" for u using f_le_trans[of u "Fin v" "Fin w"] that by simp
  ultimately show ?thesis using assms by (auto simp: clears_def split: option.splits if_splits)
qed

section \<open>When a winner is proven\<close>

definition steady :: "experiment_def \<Rightarrow> lookup \<Rightarrow> string \<Rightarrow> bool" where
  "steady d ev i \<longleftrightarrow>
     (case ds_spread (df_decision d) of
        None \<Rightarrow> True
      | Some limit \<Rightarrow>
          0 < percentile (primary_round_values d ev i) 50 \<and> \<not> f_less limit (spread_of (primary_round_values d ev i)))"

definition baseline_holds :: "experiment_def \<Rightarrow> lookup \<Rightarrow> bool" where
  "baseline_holds d ev \<longleftrightarrow>
     execution_failures d ev (baseline_of d) = [] \<and> guard_violations d ev (baseline_of d) = []"

definition measurable :: "experiment_def \<Rightarrow> lookup \<Rightarrow> bool" where
  "measurable d ev \<longleftrightarrow>
     (\<forall>b \<in> set (registered_bounds d). bound_evaluable d ev b)
     \<and> (th_relative (ds_improvement (df_decision d)) \<noteq> None \<longrightarrow> f_less (Fin 0) (primary_value d ev (baseline_of d)))"

definition proven_winner :: "experiment_def \<Rightarrow> lookup \<Rightarrow> string \<Rightarrow> bool" where
  "proven_winner d ev w \<longleftrightarrow>
     baseline_holds d ev \<and> measurable d ev \<and> w \<noteq> baseline_of d
     \<and> improved d (primary_value d ev (baseline_of d)) (primary_value d ev w)
     \<and> separated_winner d (primary_value d ev) (recommendable d ev) w
     \<and> (\<forall>i. recommendable d ev i \<longrightarrow> steady d ev i)"

lemma definition_thresholds:
  "definition_validate d = None \<Longrightarrow>
     threshold_validate (ds_improvement (df_decision d)) = None \<and> threshold_validate (ds_separation (df_decision d)) = None"
  unfolding definition_validate_def Let_def first_error_Cons by simp

text \<open>The best of the recommendable candidates is not the baseline, and has improved on it,
  once some candidate has.\<close>

lemma winner_improves:
  assumes def: "definition_validate d = None" and fin: "\<And>i. is_fin (primary_value d ev i)"
    and m: "measurable d ev"
    and c: "recommendable d ev c" "c \<noteq> baseline_of d" "improved d (primary_value d ev (baseline_of d)) (primary_value d ev c)"
    and w: "separated_winner d (primary_value d ev) (recommendable d ev) w"
  shows "w \<noteq> baseline_of d \<and> improved d (primary_value d ev (baseline_of d)) (primary_value d ev w)"
proof -
  obtain b where b: "primary_value d ev (baseline_of d) = Fin b" using fin is_fin_iff by blast
  obtain x where x: "primary_value d ev c = Fin x" using fin is_fin_iff by blast
  obtain y where y: "primary_value d ev w = Fin y" using fin is_fin_iff by blast
  obtain r where r: "better d (Fin y) (primary_value d ev r)"
    "\<And>i. recommendable d ev i \<Longrightarrow> i \<noteq> w \<Longrightarrow> \<not> better d (primary_value d ev i) (primary_value d ev r)"
    using w unfolding separated_winner_def y by blast
  obtain z where z: "primary_value d ev r = Fin z" using fin is_fin_iff by blast
  have best: "c = w \<or> (if direction_of d = DirLower then y < z \<and> z \<le> x else z < y \<and> x \<le> z)"
    using r(1) r(2)[OF c(1)] unfolding x z by (auto simp: better_def)
  then have "if direction_of d = DirLower then y \<le> x else x \<le> y" using x y by auto
  then have imp: "improved d (primary_value d ev (baseline_of d)) (primary_value d ev w)"
    using c(3) unfolding improved_def x y by (rule clears_better[rotated])
  have "if direction_of d = DirLower then x \<le> b else b \<le> x"
  proof (rule clears_not_worse)
    show "fin_double b" using primary_value_double[OF b] .
    show "threshold_validate (ds_improvement (df_decision d)) = None" using definition_thresholds[OF def] by simp
    show "th_relative (ds_improvement (df_decision d)) \<noteq> None \<Longrightarrow> 0 < b" using m b by (simp add: measurable_def)
    show "clears (direction_of d) (ds_improvement (df_decision d)) (Fin b) (Fin x)"
      using c(3) b x by (simp add: improved_def)
  qed
  then have "w \<noteq> baseline_of d" using best c(2) b y by (auto split: if_splits)
  then show ?thesis using imp by simp
qed

lemma run_winner:
  assumes def: "definition_validate d = None" and run: "run_steps (start_evaluation d dd od obs) = Inr res"
  shows "rs_verdict res = ProvenWinner \<and> rs_winner res = w \<longleftrightarrow> proven_winner d (observation_at obs) w"
proof -
  let ?ev = "observation_at obs" and ?m = "measured d dd od obs" and ?e = "step_secondary_bounds (measured d dd od obs)"
  note fin = run_finite[OF run]
  have base: "baseline_of d \<in> set (candidate_ids d)" and dist: "distinct (candidate_ids d)"
    using definition_candidates[OF def] by (auto simp: baseline_of_def candidate_ids_def)
  have zero: "\<not> f_le (primary_value d ?ev i) (Fin 0) \<longleftrightarrow> f_less (Fin 0) (primary_value d ?ev i)" for i
    using fin[of i] by (auto simp: is_fin_iff)
  have failure: "step_baseline_execution_failure ?m = None \<longleftrightarrow> execution_failures d ?ev (baseline_of d) = []"
    by (rule failure_None[OF base])
  have premise: "step_baseline_premise_and_improvement ?e = None \<longleftrightarrow>
      guard_violations d ?ev (baseline_of d) = [] \<and> measurable d ?ev
      \<and> (\<exists>i. recommendable d ?ev i \<and> i \<noteq> baseline_of d
           \<and> improved d (primary_value d ?ev (baseline_of d)) (primary_value d ?ev i))"
    unfolding premise_None measurable_def using base zero
    by (auto simp: filter_empty_conv recommendable_def)
  have sep: "step_separation ?e = Inr w \<longleftrightarrow> separated_winner d (primary_value d ?ev) (recommendable d ?ev) w" for w
  proof -
    have "ev_eligible ?e = recommendable d ?ev" by (rule ext) simp
    then show ?thesis using separation_Inr[of ?e w] fin dist by (simp add: recommendable_def)
  qed
  have steady: "step_variability ?e = None \<longleftrightarrow> (\<forall>i. recommendable d ?ev i \<longrightarrow> steady d ?ev i)"
    by (auto simp: step_variability_def variability_None steady_def recommendable_def split: option.split)
  have winner: "rs_verdict res = ProvenWinner \<and> rs_winner res = w \<longleftrightarrow>
      step_baseline_execution_failure ?m = None \<and> step_baseline_premise_and_improvement ?e = None
      \<and> step_separation ?e = Inr w \<and> step_variability ?e = None"
  proof (cases "step_baseline_execution_failure ?m = None \<and> step_baseline_premise_and_improvement ?e = None")
    case True
    show ?thesis
    proof (cases "step_separation ?e")
      case (Inl out)
      then have "out = Inr res" using run True by (simp add: run_steps_start Let_def)
      then show ?thesis using Inl separation_verdict[of ?e res] by simp
    next
      case (Inr best)
      show ?thesis
      proof (cases "step_variability ?e")
        case None
        then have "assemble ?e ProvenWinner best [] = Inr res" using run True Inr by (simp add: run_steps_start Let_def)
        then show ?thesis using True Inr None assemble_Inr(1,2) by auto
      next
        case (Some out)
        then have "out = Inr res" using run True Inr by (simp add: run_steps_start Let_def)
        then have "rs_verdict res = DisclosedUnproven"
          using Some variability_verdict[of ?e] by (auto simp: step_variability_def split: option.splits)
        then show ?thesis using Some by simp
      qed
    qed
  next
    case False
    then have "rs_verdict res \<noteq> ProvenWinner"
      using run failure_verdict[of ?m res] premise_verdict[of ?e res]
      by (auto simp: run_steps_start Let_def split: option.splits if_splits)
    then show ?thesis using False by auto
  qed
  have "recommendable d ?ev w" if "separated_winner d (primary_value d ?ev) (recommendable d ?ev) w"
    using that by (simp add: separated_winner_def)
  then show ?thesis
    unfolding winner failure premise sep steady proven_winner_def baseline_holds_def
    using winner_improves[OF def fin] by blast
qed

lemma evaluate_Inr:
  "evaluate dg od d obs att = Inr res \<longleftrightarrow>
     validate_complete dg d obs = None \<and> att = xs_environment (df_execution d) \<and> att \<noteq> ''''
     \<and> (\<exists>digest. observations_digest od d obs = Some digest
          \<and> run_steps (start_evaluation d (definition_identity dg d) digest obs) = Inr res)"
proof -
  have "att = '''' \<or> att \<noteq> xs_environment (df_execution d) \<longleftrightarrow> attestation_verify d att \<noteq> None"
    by (auto simp: attestation_verify_def)
  moreover have "locked dg d = Inr True" if "validate_complete dg d obs = None"
    using that unfolding validate_complete_None by simp
  ultimately show ?thesis
    by (auto simp: evaluate_def compute_def locked_digest split: sum.splits option.splits)
qed

lemma complete_definition: "validate_complete dg d obs = None \<Longrightarrow> definition_validate d = None"
  unfolding validate_complete_None locked_iff by simp

text \<open>C11. A result names a proven winner exactly when the baseline completed every attempt and
  failed no required guard, every registered bound and a relative improvement can be measured
  against it, the named candidate is another one that qualifies and improves on it by the
  registered bar, beats every other qualifying candidate and clears the separation bar over the
  best of them, and every qualifying candidate is steady.\<close>

theorem winner_exactly_when_proven:
  assumes "evaluate dg od d obs att = Inr res"
  shows "rs_verdict res = ProvenWinner \<and> rs_winner res = w \<longleftrightarrow> proven_winner d (observation_at obs) w"
  using assms unfolding evaluate_Inr by (auto dest: complete_definition run_winner)

section \<open>The evidence of a complete set\<close>

lemma observation_at_record:
  assumes "distinct (map record_key obs)" "ob \<in> set obs"
  shows "observation_at obs (on_candidate ob) (on_round ob) = ob"
proof -
  let ?kv = "rev (map (\<lambda>ob. (record_key ob, ob)) obs)"
  have "distinct (map fst ?kv)" using assms(1) by (simp add: rev_map[symmetric] comp_def)
  moreover have "(record_key ob, ob) \<in> set ?kv" using assms(2) by auto
  ultimately have "map_of ?kv (record_key ob) = Some ob" by (rule map_of_is_SomeI)
  then show ?thesis by (simp add: observation_at_def)
qed

lemma observation_at_absent: "(i, r) \<notin> record_key ` set obs \<Longrightarrow> observation_at obs i r = no_observation"
proof -
  assume "(i, r) \<notin> record_key ` set obs"
  then have "map_of (rev (map (\<lambda>ob. (record_key ob, ob)) obs)) (i, r) = None"
    unfolding map_of_eq_None_iff by force
  then show ?thesis by (simp add: observation_at_def)
qed

text \<open>The records of a registered candidate are those of its rounds.\<close>

lemma complete_evidence:
  assumes "validate_complete dg d obs = None" "i \<in> set (candidate_ids d)"
  shows "(\<exists>r \<in> set (rounds d). P (observation_at obs i r)) \<longleftrightarrow> (\<exists>ob \<in> set obs. on_candidate ob = i \<and> P ob)"
proof -
  have ok: "set_ok d (definition_identity dg d) obs" and cover: "set (matrix d) \<subseteq> record_key ` set obs"
    using assms(1) unfolding validate_complete_None by simp_all
  have dist: "distinct (map record_key obs)" using ok by (simp add: set_ok_def)
  show ?thesis
  proof
    assume "\<exists>r \<in> set (rounds d). P (observation_at obs i r)"
    then obtain r where r: "r \<in> set (rounds d)" "P (observation_at obs i r)" by blast
    then have "(i, r) \<in> set (matrix d)" using assms(2) by (auto simp: set_matrix candidate_ids_def rounds_def)
    then obtain ob where ob: "ob \<in> set obs" "on_candidate ob = i" "on_round ob = r" using cover by auto
    then have "observation_at obs i r = ob" using observation_at_record[OF dist] by blast
    then show "\<exists>ob \<in> set obs. on_candidate ob = i \<and> P ob" using r(2) ob by auto
  next
    assume "\<exists>ob \<in> set obs. on_candidate ob = i \<and> P ob"
    then obtain ob where ob: "ob \<in> set obs" "on_candidate ob = i" "P ob" by blast
    then have "observation_at obs i (on_round ob) = ob" using observation_at_record[OF dist] by blast
    moreover have "on_round ob \<in> set (rounds d)" using set_ok_record[OF ok ob(1)] by (simp add: record_ok_def rounds_def)
    ultimately show "\<exists>r \<in> set (rounds d). P (observation_at obs i r)" using ob(3) by metis
  qed
qed

lemma execution_failures_member:
  "f \<in> set (execution_failures d ev i) \<longleftrightarrow>
     (\<exists>r \<in> set (rounds d). \<exists>oc. on_outcome (ev i r) = Some oc \<and> oc_kind oc \<noteq> OutCompleted
        \<and> f = \<lparr>xf_round = r, xf_kind = oc_kind oc, xf_witness = deref (oc_witness oc)\<rparr>)"
proof -
  have "f \<in> set (case on_outcome (ev i r) of None \<Rightarrow> []
      | Some oc \<Rightarrow> if oc_kind oc = OutCompleted then []
                   else [\<lparr>xf_round = r, xf_kind = oc_kind oc, xf_witness = deref (oc_witness oc)\<rparr>])
    \<longleftrightarrow> (\<exists>oc. on_outcome (ev i r) = Some oc \<and> oc_kind oc \<noteq> OutCompleted
          \<and> f = \<lparr>xf_round = r, xf_kind = oc_kind oc, xf_witness = deref (oc_witness oc)\<rparr>)" for r
    by (cases "on_outcome (ev i r)") auto
  then show ?thesis by (simp add: execution_failures_def)
qed

lemma execution_failures_Nil:
  "execution_failures d ev i = [] \<longleftrightarrow> (\<forall>r \<in> set (rounds d). run_completed (ev i r))"
  by (auto simp: execution_failures_def run_completed_def split: option.splits)

lemma guard_violations_member:
  "v \<in> set (guard_violations d ev i) \<longleftrightarrow>
     (\<exists>r \<in> set (rounds d). \<exists>gr \<in> set (slice (on_guards (ev i r))). gr_id gr \<in> set (required_guards d)
        \<and> gr_verdict gr = GuardFail \<and> v = \<lparr>vi_guard = gr_id gr, vi_round = r, vi_witness = deref (gr_witness gr)\<rparr>)"
  by (auto simp: guard_violations_def)

lemma guard_violations_Nil:
  "guard_violations d ev i = [] \<longleftrightarrow>
     \<not> (\<exists>r \<in> set (rounds d). \<exists>gr \<in> set (slice (on_guards (ev i r))).
          gr_id gr \<in> set (required_guards d) \<and> gr_verdict gr = GuardFail)"
  by (auto simp: guard_violations_def filter_empty_conv)

text \<open>What an accepted record says when it failed.\<close>

lemma record_ok_guards:
  assumes "record_ok d dd ob" "run_completed ob" "gr \<in> set (slice (on_guards ob))"
  shows "gr_id gr \<in> set (required_guards d)"
  using assms by (auto simp: record_ok_def failed_attempt_def evidence_faults_def Let_def scan_simps)

lemma record_ok_guard_witness:
  assumes "record_ok d dd ob" "gr \<in> set (slice (on_guards ob))" "gr_verdict gr = GuardFail"
  shows "\<exists>w. gr_witness gr = Some w \<and> w \<noteq> '''' \<and> utf8_valid w"
  using assms unfolding record_ok_def observation_validate_def first_error_Cons
  by (auto simp: scan_seen_None guard_result_validate_def witness_ok_def split: option.splits)

lemma record_ok_outcome:
  assumes "record_ok d dd ob" "on_outcome ob = Some oc" "oc_kind oc \<noteq> OutCompleted"
  shows "\<exists>w. oc_witness oc = Some w \<and> w \<noteq> '''' \<and> utf8_valid w" "oc_kind oc = OutCrash \<or> oc_kind oc = OutTimeout"
proof -
  have "outcome_check ob = None"
    using assms(1) unfolding record_ok_def observation_validate_def first_error_Cons by simp
  then have "outcome_validate oc = None" using assms(2) by (auto simp: outcome_check_def split: if_splits)
  then show "\<exists>w. oc_witness oc = Some w \<and> w \<noteq> '''' \<and> utf8_valid w" "oc_kind oc = OutCrash \<or> oc_kind oc = OutTimeout"
    using assms(3) by (auto simp: outcome_validate_def witness_ok_def split: option.splits if_splits elim: outcome_kind_ok.elims)
qed

lemma run_violated:
  assumes def: "definition_validate d = None" and run: "run_steps (start_evaluation d dd od obs) = Inr res"
  shows "rs_verdict res = ViolatedWithWitness \<longleftrightarrow> \<not> baseline_holds d (observation_at obs)"
proof -
  let ?m = "measured d dd od obs" and ?e = "step_secondary_bounds (measured d dd od obs)"
  have base: "baseline_of d \<in> set (candidate_ids d)"
    using definition_candidates[OF def] by (auto simp: baseline_of_def candidate_ids_def)
  show ?thesis
  proof (cases "step_baseline_execution_failure ?m")
    case (Some out)
    then have "execution_failures d (observation_at obs) (baseline_of d) \<noteq> []" using failure_None[OF base, of dd od obs] by simp
    moreover have "out = Inr res" using Some run by (simp add: run_steps_start)
    ultimately show ?thesis using failure_verdict[of ?m res] Some by (simp add: baseline_holds_def)
  next
    case None
    then have f: "execution_failures d (observation_at obs) (baseline_of d) = []" using failure_None[OF base, of dd od obs] by simp
    show ?thesis
    proof (cases "step_baseline_premise_and_improvement ?e")
      case (Some out)
      then have "out = Inr res" using None run by (simp add: run_steps_start Let_def)
      then show ?thesis using premise_verdict[of ?e res] Some f base by (auto simp: baseline_holds_def)
    next
      case premise: None
      then have h: "baseline_holds d (observation_at obs)"
        using f base unfolding premise_None baseline_holds_def by simp
      have "rs_verdict res \<noteq> ViolatedWithWitness"
        using run None premise separation_verdict[of ?e res] variability_verdict[of ?e _ _ _ res]
        by (auto simp: run_steps_start Let_def step_variability_def assemble_Inr split: sum.splits option.splits)
      then show ?thesis using h by simp
    qed
  qed
qed

lemma complete_at:
  assumes "validate_complete dg d obs = None" "i \<in> set (candidate_ids d)" "r \<in> set (rounds d)"
  shows "observation_at obs i r \<in> set obs" "on_candidate (observation_at obs i r) = i" "on_round (observation_at obs i r) = r"
proof -
  have dist: "distinct (map record_key obs)" and cover: "set (matrix d) \<subseteq> record_key ` set obs"
    using assms(1) unfolding validate_complete_None by (simp_all add: set_ok_def)
  have "(i, r) \<in> set (matrix d)" using assms(2,3) by (auto simp: set_matrix candidate_ids_def rounds_def)
  then obtain ob where ob: "ob \<in> set obs" "on_candidate ob = i" "on_round ob = r" using cover by auto
  then show "observation_at obs i r \<in> set obs" "on_candidate (observation_at obs i r) = i" "on_round (observation_at obs i r) = r"
    using observation_at_record[OF dist] by auto
qed

lemma complete_record: "validate_complete dg d obs = None \<Longrightarrow> ob \<in> set obs \<Longrightarrow> record_ok d (definition_identity dg d) ob"
  unfolding validate_complete_None by (blast dest: set_ok_record)

text \<open>The record a reason of a violated premise quotes.\<close>

definition exhibits :: "observation \<Rightarrow> reason_entry \<Rightarrow> bool" where
  "exhibits ob r \<longleftrightarrow>
     (\<exists>oc. on_outcome ob = Some oc \<and> oc_kind oc \<noteq> OutCompleted \<and> rn_outcome r = Some (oc_kind oc)
        \<and> rn_round r = on_round ob \<and> rn_witness r = oc_witness oc)
     \<or> (\<exists>g \<in> set (slice (on_guards ob)). gr_verdict g = GuardFail \<and> rn_guard r = gr_id g \<and> rn_witness r = gr_witness g)"

lemma premise_reasons_member:
  "r \<in> set (premise_reasons base vs seen gs) \<Longrightarrow>
     \<exists>v \<in> set vs. r = (reason BaselineGuardViolation base NoDetail)\<lparr>rn_guard := vi_guard v, rn_witness := Some (vi_witness v)\<rparr>"
proof (induction gs arbitrary: seen)
  case (Cons g gs)
  then show ?case
  proof (cases "guard_bounded g \<or> gd_id g \<in> set seen")
    case False
    then show ?thesis
    proof (cases "find (\<lambda>v. vi_guard v = gd_id g) vs")
      case (Some v)
      then have v: "v \<in> set vs" "vi_guard v = gd_id g" by (auto simp: find_Some_iff)
      from Cons.prems False Some consider
        "r = (reason BaselineGuardViolation base NoDetail)\<lparr>rn_guard := gd_id g, rn_witness := Some (vi_witness v)\<rparr>"
        | "r \<in> set (premise_reasons base vs (gd_id g # seen) gs)" by auto
      then show ?thesis using Cons.IH v by cases (metis, blast)
    qed (use Cons False in auto)
  qed auto
qed simp

lemma run_violated_reasons:
  assumes complete: "validate_complete dg d obs = None"
    and run: "run_steps (start_evaluation d dd od obs) = Inr res" and v: "rs_verdict res = ViolatedWithWitness"
    and r: "r \<in> set (rs_reasons res)"
  shows "rn_candidate r = baseline_of d \<and> (\<exists>ob \<in> set obs. on_candidate ob = baseline_of d \<and> exhibits ob r)"
proof -
  let ?m = "measured d dd od obs" and ?e = "step_secondary_bounds (measured d dd od obs)" and ?ev = "observation_at obs"
  have def: "definition_validate d = None" using complete_definition[OF complete] .
  have base: "baseline_of d \<in> set (candidate_ids d)"
    using definition_candidates[OF def] by (auto simp: baseline_of_def candidate_ids_def)
  note rec = complete_record[OF complete] and here = complete_at[OF complete base]
  show ?thesis
  proof (cases "step_baseline_execution_failure ?m")
    case (Some out)
    then have out: "out = Inr res" using run by (simp add: run_steps_start)
    then obtain f fs where fs: "execution_failures d ?ev (baseline_of d) = f # fs"
      and rr: "r = (reason BaselineCandidateFailure (baseline_of d) NoDetail)
        \<lparr>rn_outcome := Some (xf_kind f), rn_round := xf_round f, rn_witness := Some (xf_witness f)\<rparr>"
      using Some r base by (auto simp: step_baseline_execution_failure_def Let_def assemble_Inr(3) split: list.splits)
    have "f \<in> set (execution_failures d ?ev (baseline_of d))" using fs by simp
    then obtain n oc where n: "n \<in> set (rounds d)" "on_outcome (?ev (baseline_of d) n) = Some oc" "oc_kind oc \<noteq> OutCompleted"
      "f = \<lparr>xf_round = n, xf_kind = oc_kind oc, xf_witness = deref (oc_witness oc)\<rparr>"
      unfolding execution_failures_member by blast
    have "Some (deref (oc_witness oc)) = oc_witness oc"
      using record_ok_outcome(1)[OF rec[OF here(1)[OF n(1)]] n(2,3)] by (auto simp: deref_def)
    then have "exhibits (?ev (baseline_of d) n) r" using n here(3)[OF n(1)] by (simp add: exhibits_def rr reason_def)
    then show ?thesis using here(1,2)[OF n(1)] by (auto simp: rr reason_def)
  next
    case None
    have "guard_violations d ?ev (baseline_of d) \<noteq> []"
      using run_violated[OF def run] v failure_None[OF base, of dd od obs] None by (simp add: baseline_holds_def)
    then have "step_baseline_premise_and_improvement ?e = Some (assemble ?e ViolatedWithWitness ''''
        (premise_reasons (baseline_of d) (ev_violations ?e (baseline_of d)) [] (ds_guards (df_decision d))))"
      using base unfolding step_baseline_premise_and_improvement_def Let_def by simp
    then have "assemble ?e ViolatedWithWitness ''''
        (premise_reasons (baseline_of d) (ev_violations ?e (baseline_of d)) [] (ds_guards (df_decision d))) = Inr res"
      using run None by (simp add: run_steps_start Let_def)
    then have "r \<in> set (premise_reasons (baseline_of d) (ev_violations ?e (baseline_of d)) [] (ds_guards (df_decision d)))"
      using r assemble_Inr(3) by metis
    then obtain w where w: "w \<in> set (guard_violations d ?ev (baseline_of d))"
      and rr: "r = (reason BaselineGuardViolation (baseline_of d) NoDetail)\<lparr>rn_guard := vi_guard w, rn_witness := Some (vi_witness w)\<rparr>"
      using premise_reasons_member base by fastforce
    then obtain n gr where n: "n \<in> set (rounds d)" "gr \<in> set (slice (on_guards (?ev (baseline_of d) n)))"
      "gr_verdict gr = GuardFail" "w = \<lparr>vi_guard = gr_id gr, vi_round = n, vi_witness = deref (gr_witness gr)\<rparr>"
      unfolding guard_violations_member by blast
    have "Some (deref (gr_witness gr)) = gr_witness gr"
      using record_ok_guard_witness[OF rec[OF here(1)[OF n(1)]] n(2,3)] by (auto simp: deref_def)
    then have "exhibits (?ev (baseline_of d) n) r" using n by (auto simp: exhibits_def rr reason_def)
    then show ?thesis using here(1,2)[OF n(1)] by (auto simp: rr reason_def)
  qed
qed

text \<open>C22. The verdict is a violated premise exactly when some record of the baseline did not
  complete or failed a guard; each reason then names the baseline and quotes the witness of such
  a record.\<close>

theorem violated_exactly_when_baseline_failed:
  assumes "evaluate dg od d obs att = Inr res"
  shows "(rs_verdict res = ViolatedWithWitness \<longleftrightarrow>
      (\<exists>ob \<in> set obs. on_candidate ob = baseline_of d
         \<and> (\<not> run_completed ob \<or> (\<exists>g \<in> set (slice (on_guards ob)). gr_verdict g = GuardFail))))
    \<and> (rs_verdict res = ViolatedWithWitness \<longrightarrow>
        (\<forall>r \<in> set (rs_reasons res). rn_candidate r = baseline_of d
           \<and> (\<exists>ob \<in> set obs. on_candidate ob = baseline_of d \<and> exhibits ob r)))"
proof -
  let ?ev = "observation_at obs" and ?b = "baseline_of d"
  obtain dig where complete: "validate_complete dg d obs = None"
    and run: "run_steps (start_evaluation d (definition_identity dg d) dig obs) = Inr res"
    using assms unfolding evaluate_Inr by blast
  have def: "definition_validate d = None" using complete_definition[OF complete] .
  have base: "?b \<in> set (candidate_ids d)"
    using definition_candidates[OF def] by (auto simp: baseline_of_def candidate_ids_def)
  have "\<not> baseline_holds d ?ev \<longleftrightarrow> (\<exists>n \<in> set (rounds d). \<not> run_completed (?ev ?b n)
      \<or> (\<exists>g \<in> set (slice (on_guards (?ev ?b n))). gr_id g \<in> set (required_guards d) \<and> gr_verdict g = GuardFail))"
    unfolding baseline_holds_def execution_failures_Nil guard_violations_Nil by blast
  also have "\<dots> \<longleftrightarrow> (\<exists>ob \<in> set obs. on_candidate ob = ?b \<and> (\<not> run_completed ob
      \<or> (\<exists>g \<in> set (slice (on_guards ob)). gr_id g \<in> set (required_guards d) \<and> gr_verdict g = GuardFail)))"
    by (rule complete_evidence[OF complete base])
  also have "\<dots> \<longleftrightarrow> (\<exists>ob \<in> set obs. on_candidate ob = ?b
      \<and> (\<not> run_completed ob \<or> (\<exists>g \<in> set (slice (on_guards ob)). gr_verdict g = GuardFail)))"
    using record_ok_guards[OF complete_record[OF complete]] by blast
  finally show ?thesis using run_violated[OF def run] run_violated_reasons[OF complete run] by blast
qed

end
