(* ===== verification/Verdicts.thy ===== *)
theory Verdicts
  imports Decision
begin

text \<open>
  What the engine of \<open>Decision\<close> owes its callers: the same result for the same records in any
  order, and a result whenever its inputs are accepted and its numbers are finite. A sample
  experiment evaluates the properties.
\<close>

section \<open>The order of the records does not matter\<close>

lemma set_ok_perm:
  assumes "mset obs = mset obs'"
  shows "set_ok d dd obs \<longleftrightarrow> set_ok d dd obs'"
proof -
  have "distinct (map record_key obs) \<longleftrightarrow> distinct (map record_key obs')"
    using assms by (metis mset_eq_imp_distinct_iff mset_map)
  then show ?thesis unfolding set_ok_def mset_eq_setD[OF assms] by simp
qed

lemma validate_complete_perm:
  assumes "mset obs = mset obs'"
  shows "validate_complete dg d obs = None \<longleftrightarrow> validate_complete dg d obs' = None"
proof -
  have "obs = [] \<longleftrightarrow> obs' = []" using assms by auto
  then show ?thesis unfolding validate_complete_None set_ok_perm[OF assms] mset_eq_setD[OF assms] by simp
qed

lemma observation_at_perm:
  assumes "mset obs = mset obs'" "distinct (map record_key obs)"
  shows "observation_at obs = observation_at obs'"
proof (intro ext)
  fix i r
  have s: "set obs = set obs'" using assms(1) by (rule mset_eq_setD)
  have d': "distinct (map record_key obs')" using assms by (metis mset_eq_imp_distinct_iff mset_map)
  show "observation_at obs i r = observation_at obs' i r"
  proof (cases "(i, r) \<in> record_key ` set obs")
    case True
    then obtain ob where ob: "ob \<in> set obs" "i = on_candidate ob" "r = on_round ob" by auto
    have "observation_at obs i r = ob" unfolding ob(2,3) by (rule observation_at_record[OF assms(2) ob(1)])
    moreover have "observation_at obs' i r = ob"
      unfolding ob(2,3) by (rule observation_at_record[OF d']) (use ob(1) s in simp)
    ultimately show ?thesis by simp
  next
    case False
    then have "(i, r) \<notin> record_key ` set obs'" unfolding s .
    then show ?thesis using observation_at_absent[OF False] observation_at_absent[of i r obs'] by simp
  qed
qed

lemma candidate_rank_inj:
  assumes "distinct (candidate_ids d)" "candidate_rank d i = Some k" "candidate_rank d j = Some k"
  shows "i = j"
proof -
  let ?z = "zip (map cd_id (df_candidates d)) [0 ..< length (df_candidates d)]"
  have "(i, k) \<in> set ?z" "(j, k) \<in> set ?z" using assms(2,3) map_of_SomeD unfolding candidate_rank_def by fastforce+
  then show ?thesis by (auto simp: in_set_zip)
qed

lemma observations_digest_perm:
  assumes m: "mset obs = mset obs'" and dist: "distinct (map record_key obs)" and cand: "distinct (candidate_ids d)"
  shows "observations_digest od d obs = observations_digest od d obs'"
proof (cases "list_ex (\<lambda>ob. candidate_rank d (on_candidate ob) = None) obs")
  case True
  then have "list_ex (\<lambda>ob. candidate_rank d (on_candidate ob) = None) obs'"
    using mset_eq_setD[OF m] by (simp add: list_ex_iff)
  then show ?thesis using True by (simp add: observations_digest_def)
next
  case False
  then have none: "\<not> list_ex (\<lambda>ob. candidate_rank d (on_candidate ob) = None) obs'"
    using mset_eq_setD[OF m] by (simp add: list_ex_iff)
  let ?p = "map observation_projection.truncate" and ?key = "projection_key d"
  have key: "?key (observation_projection.truncate ob) = ?key ob" for ob :: observation
    by (simp add: projection_key_def observation_projection.defs)
  have "inj_on ?key (set (?p obs))"
  proof (rule inj_onI)
    fix p q
    assume "p \<in> set (?p obs)" "q \<in> set (?p obs)" and eq: "?key p = ?key q"
    then obtain a b where ab: "a \<in> set obs" "b \<in> set obs" "p = observation_projection.truncate a" "q = observation_projection.truncate b"
      by auto
    then have "?key a = ?key b" using eq key by simp
    moreover obtain k l where "candidate_rank d (on_candidate a) = Some k" "candidate_rank d (on_candidate b) = Some l"
      using False ab(1,2) unfolding list_ex_iff by (metis option.exhaust)
    ultimately have "record_key a = record_key b" using candidate_rank_inj[OF cand] by (auto simp: projection_key_def)
    then have "a = b" using dist ab(1,2) by (auto simp: distinct_map dest: inj_onD)
    then show "p = q" using ab by simp
  qed
  then have "sort_key ?key (?p obs) = sort_key ?key (?p obs')"
    using m by (intro sort_key_inj_key_eq) simp_all
  then show ?thesis using False none by (simp add: observations_digest_def)
qed

lemma evaluate_perm:
  assumes m: "mset obs = mset obs'" and e: "evaluate dg od d obs att = Inr res"
  shows "evaluate dg od d obs' att = Inr res"
proof -
  have complete: "validate_complete dg d obs = None" using e unfolding evaluate_Inr by blast
  then have ok: "set_ok d (definition_identity dg d) obs" "obs \<noteq> []" unfolding validate_complete_None by simp_all
  have dist: "distinct (map record_key obs)" using ok(1) by (simp add: set_ok_def)
  have cand: "distinct (candidate_ids d)"
    using definition_candidates[OF complete_definition[OF complete]] by (simp add: candidate_ids_def)
  have "obs' \<noteq> []" using ok(2) m by auto
  then have "hd obs' \<in> set obs" "hd obs \<in> set obs"
    unfolding mset_eq_setD[OF m] using ok(2) hd_in_set mset_eq_setD[OF m] by metis+
  then have "on_run (hd obs) = on_run (hd obs')" using set_ok_same[OF ok(1)] by blast
  then have "start_evaluation d dd dig obs = start_evaluation d dd dig obs'" for dd dig
    by (simp add: start_evaluation_def observation_at_perm[OF m dist])
  then show ?thesis
    using e complete validate_complete_perm[OF m] observations_digest_perm[OF m dist cand]
    unfolding evaluate_Inr by metis
qed

text \<open>C12. The result is a function of the records, not of their order.\<close>

theorem evaluate_ignores_order:
  assumes "mset obs = mset obs'"
  shows "evaluate dg od d obs att = Inr res \<longleftrightarrow> evaluate dg od d obs' att = Inr res"
  using evaluate_perm[OF assms] evaluate_perm[OF assms[symmetric]] by blast

section \<open>When there is a result\<close>

lemma definition_parts:
  assumes "definition_validate d = None"
  shows "id_ok (df_id d)" "algorithm_ok (df_algorithm d)" "aggregation_ok (pm_aggregation (ds_primary (df_decision d)))"
    "unit_ok (pm_unit (ds_primary (df_decision d)))" "\<forall>c \<in> set (df_candidates d). id_ok (cd_id c)"
    "guards_scan (pm_id (ds_primary (df_decision d))) [] (ds_guards (df_decision d)) = None" "1 \<le> xs_rounds (df_execution d)"
  using assms unfolding definition_validate_def Let_def first_error_Cons
  by (auto simp: primary_metric_validate_def scan_seen_None candidate_validate_def execution_validate_def)

lemma guards_scan_valid: "guards_scan p seen gs = None \<Longrightarrow> g \<in> set gs \<Longrightarrow> guard_validate g = None"
  by (induction gs arbitrary: seen) (auto split: option.splits if_splits)

lemma id_ok_nonempty: "id_ok i \<Longrightarrow> i \<noteq> ''''"
  by (auto simp: id_ok_def ex_idRe_def nameSegment_def Plus_def alnum_def)

lemma id_ok_utf8: "id_ok i \<Longrightarrow> utf8_valid i"
proof (rule utf8_valid_ascii)
  assume i: "id_ok i"
  have "of_char c < (128 :: nat)" if "c \<in> set i" for c
  proof -
    have "rx_allows ex_idRe c" using i that unfolding id_ok_def by (rule rx_match_allows)
    then show ?thesis
      by (auto simp: ex_idRe_def nameSegment_def Plus_def alnum_def Chr_def in_class_def less_eq_char_def)
  qed
  then show "list_all (\<lambda>c. of_char c < (128 :: nat)) i" by (simp add: list_all_iff)
qed

text \<open>An evaluation whose measurements a result may carry.\<close>

definition presentable :: "evaluation \<Rightarrow> bool" where
  "presentable e \<longleftrightarrow>
     definition_validate (ev_def e) = None \<and> digest_ok (ev_definition_digest e) \<and> digest_ok (ev_observations_digest e)
     \<and> id_ok (ev_run e)
     \<and> (\<forall>i \<in> set (candidate_ids (ev_def e)).
          (\<forall>v \<in> set (ev_violations e i). violation_validate v = None)
          \<and> (\<forall>p. ev_primary e i = Some p \<longrightarrow> primary_validate p = None)
          \<and> (\<forall>b \<in> set (ev_bounds e i). bound_validate b = None))"

lemma one_baseline:
  assumes "distinct (map cd_id cs)" "b \<in> cd_id ` set cs"
  shows "length (filter (\<lambda>c. cd_id c = b) cs) = 1"
proof -
  have "length (filter (\<lambda>c. cd_id c = b) cs) = length (filter (\<lambda>i. i = b) (map cd_id cs))"
    by (simp add: filter_map comp_def)
  also have "\<dots> = card ({i. i = b} \<inter> set (map cd_id cs))" using assms(1) by (simp only: distinct_length_filter)
  also have "{i. i = b} \<inter> set (map cd_id cs) = {b}" using assms(2) by auto
  finally show ?thesis by simp
qed

lemma assemble_presentable:
  assumes "presentable e" "verdict_ok v"
    and proven: "v = ProvenWinner \<Longrightarrow> rs = [] \<and> w \<in> set (candidate_ids (ev_def e)) \<and> ev_eligible e w \<and> w \<noteq> baseline_of (ev_def e)"
    and other: "v \<noteq> ProvenWinner \<Longrightarrow> rs \<noteq> [] \<and> w = '''' \<and> (\<forall>r \<in> set rs. reason_validate r = None)"
  shows "\<exists>res. assemble e v w rs = Inr res"
proof -
  let ?d = "ev_def e" and ?cs = "df_candidates (ev_def e)"
  let ?f = "\<lambda>c. \<lparr>cr_id = cd_id c, cr_baseline = (cd_id c = baseline_of ?d), cr_eligible = ev_eligible e (cd_id c),
                 cr_violations = ev_violations e (cd_id c), cr_primary = ev_primary e (cd_id c), cr_bounds = ev_bounds e (cd_id c)\<rparr>"
  have def: "definition_validate ?d = None" using assms(1) by (simp add: presentable_def)
  note parts = definition_parts[OF def]
  have cand: "distinct (map cd_id ?cs)" "?cs \<noteq> []" "baseline_of ?d \<in> cd_id ` set ?cs"
    using definition_candidates[OF def] by (auto simp: baseline_of_def)
  have each: "candidate_result_validate (?f c) = None" if "c \<in> set ?cs" for c
    using assms(1) that parts(5)
    by (auto simp: presentable_def candidate_result_validate_def scan_idx_None candidate_ids_def split: option.split)
  have seen: "scan_seen cr_id (\<lambda>_ e. e) (\<lambda>_ c. ResCandidateTwice (cr_id c)) candidate_result_validate 0 [] (map ?f ?cs) = None"
    using each cand(1) by (simp add: scan_seen_None comp_def)
  have base: "length (filter cr_baseline (map ?f ?cs)) = 1"
    using one_baseline[OF cand(1,3)] by (simp add: filter_map comp_def)
  have winner: "winner_validate w (map ?f ?cs) = None"
  proof (cases "v = ProvenWinner")
    case True
    then obtain c where c: "c \<in> set ?cs" "cd_id c = w" "ev_eligible e w" "w \<noteq> baseline_of ?d"
      using proven by (auto simp: candidate_ids_def)
    have "distinct (map cr_id (rev (map ?f ?cs)))" using cand(1) by (simp add: comp_def flip: rev_map)
    then have "find (\<lambda>c. cr_id c = w) (rev (map ?f ?cs)) = Some (?f c)"
      using c(1,2) by (subst find_key_iff) auto
    then show ?thesis using c by (simp add: winner_validate_def)
  next
    case False
    then show ?thesis using other by (simp add: winner_validate_def)
  qed
  have w: "v = ProvenWinner \<Longrightarrow> id_ok w \<and> w \<noteq> ''''"
    using proven parts(5) id_ok_nonempty by (auto simp: candidate_ids_def)
  have rs: "scan_idx (\<lambda>_ e. e) reason_validate 0 rs = None"
    using proven other by (cases "v = ProvenWinner") (auto simp: scan_idx_None)
  define crs where "crs = map ?f ?cs"
  let ?res = "\<lparr>rs_experiment = df_id ?d, rs_definition = ev_definition_digest e, rs_run = ev_run e,
      rs_algorithm = df_algorithm ?d, rs_verdict = v, rs_winner = w, rs_reasons = rs,
      rs_candidates = crs, rs_observations = ev_observations_digest e\<rparr>"
  have "\<not> (v = ProvenWinner \<and> w = '''')" "\<not> (v \<noteq> ProvenWinner \<and> w \<noteq> '''')" "\<not> (w \<noteq> '''' \<and> \<not> id_ok w)"
    "\<not> (v = ProvenWinner \<and> rs \<noteq> [])" "\<not> (v \<noteq> ProvenWinner \<and> rs = [])"
    using w proven other by blast+
  moreover have "digest_ok (ev_definition_digest e)" "digest_ok (ev_observations_digest e)" "id_ok (ev_run e)"
    using assms(1) by (simp_all add: presentable_def)
  moreover have "crs \<noteq> []" using cand(2) by (simp add: crs_def)
  ultimately have "result_validate ?res = None"
    using assms(2) parts(1,2) seen[folded crs_def] base[folded crs_def] winner[folded crs_def] rs
    unfolding result_validate_def Let_def first_error_Cons decision_result.simps check_None by simp
  then show ?thesis by (simp add: assemble_def crs_def Let_def)
qed

text \<open>The numbers of a result: every aggregate, and every limit when the bounds are measured.\<close>

definition finite_outcome :: "experiment_def \<Rightarrow> lookup \<Rightarrow> bool" where
  "finite_outcome d ev \<longleftrightarrow>
     (\<forall>i \<in> set (candidate_ids d). is_fin (primary_value d ev i))
     \<and> (execution_failures d ev (baseline_of d) = [] \<longrightarrow>
          (\<forall>b \<in> set (registered_bounds d). bound_evaluable d ev b \<longrightarrow> is_fin (bound_limit (baseline_max d ev (fst b)) (snd b))))"

lemma registered_bounds_ok:
  assumes "definition_validate d = None" "b \<in> set (registered_bounds d)"
  shows "id_ok (fst b)" "\<exists>q. snd b = Fin q \<and> 0 < q"
proof -
  obtain g m where g: "g \<in> set (ds_guards (df_decision d))" "gd_bound g = Some m" "b = (gd_id g, m)"
    using assms(2) by (auto simp: registered_bounds_def split: option.splits)
  have v: "guard_validate g = None" using definition_parts(6)[OF assms(1)] g(1)
    by (rule guards_scan_valid)
  then show "id_ok (fst b)" "\<exists>q. snd b = Fin q \<and> 0 < q"
    using g by (auto simp: guard_validate_def arm_validate_def positive_number_def is_fin_iff)
qed

lemma required_guards_ok: "definition_validate d = None \<Longrightarrow> g \<in> set (required_guards d) \<Longrightarrow> id_ok g"
  using guards_scan_valid[OF definition_parts(6)] by (auto simp: required_guards_def guard_validate_def)

text \<open>The baseline meets its own limit.\<close>

lemma scaled_up:
  assumes "fin_double b" "0 < b" "0 < q"
  shows "f_le (Fin b) (bound_limit b (Fin q))"
proof -
  have le: "f_le (Fin 1) (f_of (1 + q))" by (rule f_of_ge) (use assms in simp_all)
  show ?thesis
  proof (cases "f_of (1 + q)")
    case (Fin x)
    then have "1 \<le> x" using le by simp
    then have "b \<le> b * x" using assms(2) mult_left_mono[of 1 x b] by simp
    then have "f_le (Fin b) (f_of (b * x))" using assms(1) by (rule f_of_ge)
    then show ?thesis using Fin by (simp add: bound_limit_def)
  qed (use le assms in \<open>auto simp: f_le_def inf_sign_def bound_limit_def\<close>)
qed

lemma guard_max_double: "guard_max d ev i g = Some v \<Longrightarrow> fin_double v"
  using guard_values_double[OF maximum_in] by (auto simp: guard_max_def split: if_splits)

lemma baseline_recommendable:
  assumes def: "definition_validate d = None" and "baseline_holds d ev"
  shows "recommendable d ev (baseline_of d)"
proof -
  have "bound_holds d ev b (baseline_of d)" if b: "b \<in> set (registered_bounds d)" and e: "bound_evaluable d ev b" for b
  proof -
    obtain v where v: "guard_max d ev (baseline_of d) (fst b) = Some v" "0 < v"
      using e by (auto simp: bound_evaluable_def baseline_max_def or_zero_def split: option.splits)
    obtain q where q: "snd b = Fin q" "0 < q" using registered_bounds_ok(2)[OF def b] by blast
    have "f_le (Fin v) (bound_limit v (Fin q))" using guard_max_double[OF v(1)] v(2) q(2) by (rule scaled_up)
    then show ?thesis using v q by (simp add: bound_holds_def baseline_max_def or_zero_def)
  qed
  then show ?thesis
    using assms definition_candidates[OF def] by (auto simp: recommendable_def baseline_holds_def baseline_of_def candidate_ids_def)
qed

lemma measured_valid:
  assumes complete: "validate_complete dg d obs = None" and i: "i \<in> set (candidate_ids d)"
  shows "v \<in> set (guard_violations d (observation_at obs) i) \<Longrightarrow> violation_validate v = None"
    and "is_fin (primary_value d (observation_at obs) i) \<Longrightarrow> primary_of d (observation_at obs) i = Some p \<Longrightarrow> primary_validate p = None"
proof -
  have def: "definition_validate d = None" using complete_definition[OF complete] .
  note rec = complete_record[OF complete] and here = complete_at[OF complete i]
  show "violation_validate v = None" if v: "v \<in> set (guard_violations d (observation_at obs) i)"
  proof -
    obtain n gr where n: "n \<in> set (rounds d)" "gr \<in> set (slice (on_guards (observation_at obs i n)))"
      "gr_id gr \<in> set (required_guards d)" "gr_verdict gr = GuardFail"
      "v = \<lparr>vi_guard = gr_id gr, vi_round = n, vi_witness = deref (gr_witness gr)\<rparr>"
      using v unfolding guard_violations_member by blast
    have "deref (gr_witness gr) \<noteq> ''''"
      using record_ok_guard_witness[OF rec[OF here(1)[OF n(1)]] n(2,4)] by (auto simp: deref_def)
    then show ?thesis using required_guards_ok[OF def n(3)] n(1,5) by (auto simp: violation_validate_def rounds_def)
  qed
  show "primary_validate p = None"
    if "is_fin (primary_value d (observation_at obs) i)" "primary_of d (observation_at obs) i = Some p"
    using that definition_parts(3,4)[OF def]
    by (auto simp: primary_of_def primary_validate_def Suc_le_eq split: if_splits)
qed

lemma reason_valid:
  assumes "reason_code_ok code" "code \<noteq> BaselineCandidateFailure" "cand = '''' \<or> id_ok cand"
    "detail_id detail = '''' \<or> id_ok (detail_id detail)"
  shows "reason_validate (reason code cand detail) = None"
  using assms id_ok_utf8 by (auto simp: reason_validate_def reason_def)

lemma premise_reasons_some:
  assumes "g \<in> set gs" "\<not> guard_bounded g" "gd_id g \<notin> set seen" "v \<in> set vs" "vi_guard v = gd_id g"
  shows "premise_reasons base vs seen gs \<noteq> []"
  using assms
proof (induction gs arbitrary: seen)
  case (Cons h gs)
  then show ?case
  proof (cases "guard_bounded h \<or> gd_id h \<in> set seen")
    case True
    then show ?thesis using Cons by auto
  next
    case False
    show ?thesis
    proof (cases "find (\<lambda>v. vi_guard v = gd_id h) vs")
      case None
      then have "g \<noteq> h" using Cons.prems(4,5) by (auto simp: find_None_iff)
      then show ?thesis using Cons False None by simp
    qed (use False in simp)
  qed
qed simp

lemma bound_entry_valid:
  assumes "definition_validate d = None" "b \<in> set (registered_bounds d)" "is_fin (bound_limit (baseline_max d ev (fst b)) (snd b))"
    "x \<in> set (bound_entry d ev b i)"
  shows "bound_validate x = None"
  using assms registered_bounds_ok(1)[OF assms(1,2)] by (auto simp: bound_entry_def bound_validate_def split: option.splits)

text \<open>With accepted records and finite numbers, every step that reports has a result.\<close>

lemma measured_presentable:
  assumes complete: "validate_complete dg d obs = None" and dig: "digest_ok dd" "digest_ok od"
    and fin: "finite_outcome d (observation_at obs)"
  shows "presentable ((measured d dd od obs)\<lparr>ev_bounds := \<lambda>_. [], ev_eligible := el\<rparr>)"
    and "execution_failures d (observation_at obs) (baseline_of d) = [] \<Longrightarrow>
      presentable (step_secondary_bounds (measured d dd od obs))"
proof -
  have def: "definition_validate d = None" using complete_definition[OF complete] .
  have "obs \<noteq> []" using complete unfolding validate_complete_None by simp
  then have "record_ok d (definition_identity dg d) (hd obs)" using complete_record[OF complete] by simp
  then have run: "id_ok (on_run (hd obs))" by (simp add: record_ok_def observation_validate_def)
  have pr: "primary_validate p = None"
    if "i \<in> set (candidate_ids d)" "primary_of d (observation_at obs) i = Some p" for i p
    using measured_valid(2)[OF complete that(1) _ that(2)] fin that(1) by (simp add: finite_outcome_def)
  show "presentable ((measured d dd od obs)\<lparr>ev_bounds := \<lambda>_. [], ev_eligible := el\<rparr>)"
    using def dig run pr measured_valid(1)[OF complete] by (simp add: presentable_def)
  show "presentable (step_secondary_bounds (measured d dd od obs))"
    if "execution_failures d (observation_at obs) (baseline_of d) = []"
    using def dig run pr measured_valid(1)[OF complete] fin that bound_entry_valid[OF def]
    by (fastforce simp: presentable_def finite_outcome_def)
qed

lemma failure_returns:
  assumes complete: "validate_complete dg d obs = None" and dig: "digest_ok dd" "digest_ok od"
    and fin: "finite_outcome d (observation_at obs)"
    and out: "step_baseline_execution_failure (measured d dd od obs) = Some out"
  shows "\<exists>res. out = Inr res"
proof -
  have def: "definition_validate d = None" using complete_definition[OF complete] .
  have base: "baseline_of d \<in> set (candidate_ids d)"
    using definition_candidates[OF def] by (auto simp: baseline_of_def candidate_ids_def)
  note here = complete_at[OF complete base]
  obtain f fs where fs: "execution_failures d (observation_at obs) (baseline_of d) = f # fs"
    using out base by (auto simp: step_baseline_execution_failure_def Let_def split: list.splits)
  let ?r = "(reason BaselineCandidateFailure (baseline_of d) NoDetail)
      \<lparr>rn_outcome := Some (xf_kind f), rn_round := xf_round f, rn_witness := Some (xf_witness f)\<rparr>"
  obtain el where o: "out = assemble ((measured d dd od obs)\<lparr>ev_bounds := \<lambda>_. [], ev_eligible := el\<rparr>) ViolatedWithWitness '''' [?r]"
    using out fs base by (auto simp: step_baseline_execution_failure_def Let_def finalize_eligibility_def)
  have "f \<in> set (execution_failures d (observation_at obs) (baseline_of d))" using fs by simp
  then obtain n oc where n: "n \<in> set (rounds d)" "on_outcome (observation_at obs (baseline_of d) n) = Some oc"
    "oc_kind oc \<noteq> OutCompleted" "f = \<lparr>xf_round = n, xf_kind = oc_kind oc, xf_witness = deref (oc_witness oc)\<rparr>"
    unfolding execution_failures_member by blast
  note w = record_ok_outcome[OF complete_record[OF complete here(1)[OF n(1)]] n(2,3)]
  have "id_ok (baseline_of d)" using definition_parts(5)[OF def] base by (auto simp: candidate_ids_def)
  then have "reason_validate ?r = None"
    using w n(1,4) id_ok_nonempty by (auto simp: reason_validate_def reason_def witness_ok_def deref_def rounds_def)
  then show ?thesis
    unfolding o using measured_presentable(1)[OF complete dig fin] by (intro assemble_presentable) auto
qed

lemma unproven_returns:
  "presentable e \<Longrightarrow> rs \<noteq> [] \<Longrightarrow> \<forall>r \<in> set rs. reason_validate r = None \<Longrightarrow> \<exists>res. assemble e DisclosedUnproven '''' rs = Inr res"
  by (rule assemble_presentable) auto

lemma variability_returns:
  assumes "presentable e" "\<forall>r \<in> set rs. reason_validate r = None" "set is \<subseteq> set (candidate_ids (ev_def e))"
    "variability_scan e limit rs is = Some out"
  shows "\<exists>res. out = Inr res"
  using assms(2-4)
proof (induction "is" arbitrary: rs)
  case Nil
  then show ?case using unproven_returns[OF assms(1)] by (auto split: if_splits)
next
  case (Cons i "is")
  have "id_ok i" using Cons.prems(2) assms(1) definition_parts(5) by (auto simp: presentable_def candidate_ids_def)
  then have r: "reason_validate (reason ConflictingBounds i DetailP50) = None"
    "reason_validate (reason ExcessiveVariance i DetailSpread) = None" by (simp_all add: reason_valid)
  let ?vs = "primary_round_values (ev_def e) (ev_at e) i"
  consider (skip) "\<not> ev_eligible e i" | (p50) "ev_eligible e i" "percentile ?vs 50 \<le> 0"
    | (wide) "ev_eligible e i" "\<not> percentile ?vs 50 \<le> 0" "f_less limit (spread_of ?vs)"
    | (fine) "ev_eligible e i" "\<not> percentile ?vs 50 \<le> 0" "\<not> f_less limit (spread_of ?vs)" by blast
  then show ?case
  proof cases
    case p50
    then have "out = assemble e DisclosedUnproven '''' [reason ConflictingBounds i DetailP50]"
      using Cons.prems(3) by (simp add: Let_def)
    then show ?thesis using unproven_returns[OF assms(1)] r by simp
  next
    case wide
    then have "variability_scan e limit (rs @ [reason ExcessiveVariance i DetailSpread]) is = Some out"
      using Cons.prems(3) by (simp add: Let_def)
    then show ?thesis using Cons.IH[of "rs @ [reason ExcessiveVariance i DetailSpread]"] Cons.prems r by auto
  qed (use Cons in \<open>auto simp: Let_def\<close>)
qed

lemma premise_returns:
  assumes p: "presentable e" and out: "step_baseline_premise_and_improvement e = Some out"
    and bounds: "\<forall>r \<in> set (ev_bound_reasons e). reason_validate r = None"
    and viol: "\<forall>v \<in> set (ev_violations e (baseline_of (ev_def e))). vi_guard v \<in> set (required_guards (ev_def e)) \<and> utf8_valid (vi_witness v)"
  shows "\<exists>res. out = Inr res"
proof -
  let ?d = "ev_def e"
  let ?vs = "ev_violations e (baseline_of ?d)"
  have def: "definition_validate ?d = None" using p by (simp add: presentable_def)
  have base: "baseline_of ?d \<in> set (candidate_ids ?d)" "id_ok (baseline_of ?d)"
    using definition_candidates[OF def] definition_parts(5)[OF def] by (auto simp: baseline_of_def candidate_ids_def)
  show ?thesis
  proof (cases "?vs = []")
    case True
    then obtain rs where "out = assemble e DisclosedUnproven '''' rs" "rs \<noteq> []" "\<forall>r \<in> set rs. reason_validate r = None"
      using out bounds unfolding step_baseline_premise_and_improvement_def Let_def
      by (auto simp: reason_valid split: if_splits)
    then show ?thesis using unproven_returns[OF p] by blast
  next
    case False
    let ?rs = "premise_reasons (baseline_of ?d) ?vs [] (ds_guards (df_decision ?d))"
    have o: "out = assemble e ViolatedWithWitness '''' ?rs"
      using out False unfolding step_baseline_premise_and_improvement_def Let_def by simp
    obtain v where v: "v \<in> set ?vs" using False by (meson last_in_set)
    then obtain g where "g \<in> set (ds_guards (df_decision ?d))" "\<not> guard_bounded g" "vi_guard v = gd_id g"
      using viol by (auto simp: required_guards_def)
    then have "?rs \<noteq> []" using v by (intro premise_reasons_some) auto
    moreover have "reason_validate r = None" if "r \<in> set ?rs" for r
    proof -
      obtain w where w: "w \<in> set ?vs"
        "r = (reason BaselineGuardViolation (baseline_of ?d) NoDetail)\<lparr>rn_guard := vi_guard w, rn_witness := Some (vi_witness w)\<rparr>"
        using premise_reasons_member[OF \<open>r \<in> set ?rs\<close>] by blast
      have "violation_validate w = None" using p w(1) base(1) by (auto simp: presentable_def)
      then show ?thesis using w viol base(2) required_guards_ok[OF def]
        by (auto simp: reason_validate_def reason_def witness_ok_def violation_validate_def)
    qed
    ultimately show ?thesis unfolding o using p by (intro assemble_presentable) auto
  qed
qed

lemma separation_returns:
  assumes p: "presentable e" and out: "step_separation e = Inl out"
    and two: "b \<noteq> c" "b \<in> set (candidate_ids (ev_def e))" "c \<in> set (candidate_ids (ev_def e))" "ev_eligible e b" "ev_eligible e c"
  shows "\<exists>res. out = Inr res"
proof -
  let ?xs = "map (\<lambda>i. (i, ev_value e i)) (filter (ev_eligible e) (candidate_ids (ev_def e)))"
  have mem: "(b, ev_value e b) \<in> set (ranking e)" "(c, ev_value e c) \<in> set (ranking e)"
    using two by (auto simp: ranking_def)
  obtain x y rest where r: "ranking e = x # y # rest"
    using mem two(1) by (cases "ranking e" rule: remdups_adj.cases) auto
  have "set (ranking e) = set ?xs" by (simp add: ranking_def)
  then have "x \<in> set ?xs" "y \<in> set ?xs" using r by auto
  then have "id_ok (fst x)" "id_ok (fst y)"
    using p definition_parts(5) by (auto simp: presentable_def candidate_ids_def)
  then obtain rs where "out = assemble e DisclosedUnproven '''' rs" "rs \<noteq> []" "\<forall>r \<in> set rs. reason_validate r = None"
    using out r by (auto simp: step_separation_def reason_valid split: if_splits)
  then show ?thesis using unproven_returns[OF p] by blast
qed

lemma bound_reasons_valid:
  "definition_validate d = None \<Longrightarrow> r \<in> set (ev_bound_reasons (step_secondary_bounds (measured d dd od obs))) \<Longrightarrow>
     reason_validate r = None"
  using registered_bounds_ok(1)[of d] id_ok_utf8
  by (auto simp: bound_reason_def reason_validate_def reason_def)

lemma run_returns:
  assumes complete: "validate_complete dg d obs = None" and dig: "digest_ok dd" "digest_ok od"
    and fin: "finite_outcome d (observation_at obs)"
  shows "\<exists>res. run_steps (start_evaluation d dd od obs) = Inr res"
proof (cases "step_baseline_execution_failure (measured d dd od obs)")
  case (Some out)
  then show ?thesis using failure_returns[OF assms Some] by (simp add: run_steps_start)
next
  case None
  let ?e = "step_secondary_bounds (measured d dd od obs)" and ?ev = "observation_at obs"
  have def: "definition_validate d = None" using complete_definition[OF complete] .
  have base: "baseline_of d \<in> set (candidate_ids d)"
    using definition_candidates[OF def] by (auto simp: baseline_of_def candidate_ids_def)
  have nofail: "execution_failures d ?ev (baseline_of d) = []" using None failure_None[OF base] by simp
  have p: "presentable ?e" by (rule measured_presentable(2)[OF assms nofail])
  have witness: "vi_guard v \<in> set (required_guards d) \<and> utf8_valid (vi_witness v)"
    if v: "v \<in> set (guard_violations d ?ev (baseline_of d))" for v
  proof -
    obtain n gr where n: "n \<in> set (rounds d)" "gr \<in> set (slice (on_guards (?ev (baseline_of d) n)))"
      "gr_id gr \<in> set (required_guards d)" "gr_verdict gr = GuardFail"
      "v = \<lparr>vi_guard = gr_id gr, vi_round = n, vi_witness = deref (gr_witness gr)\<rparr>"
      using v unfolding guard_violations_member by blast
    show ?thesis
      using record_ok_guard_witness[OF complete_record[OF complete complete_at(1)[OF complete base n(1)]] n(2,4)] n(3,5)
      by (auto simp: deref_def)
  qed
  show ?thesis
  proof (cases "step_baseline_premise_and_improvement ?e")
    case (Some out)
    have "\<exists>res. out = Inr res"
      using p Some by (rule premise_returns) (use bound_reasons_valid[OF def] witness base in auto)
    then show ?thesis using None Some by (simp add: run_steps_start Let_def)
  next
    case premise: None
    then obtain i where i: "i \<in> set (candidate_ids d)" "i \<noteq> baseline_of d" "ev_eligible ?e i"
      and ok: "guard_violations d ?ev (baseline_of d) = []" using base unfolding premise_None by auto
    have b: "ev_eligible ?e (baseline_of d)"
      using baseline_recommendable[OF def] nofail ok by (simp add: baseline_holds_def)
    show ?thesis
    proof (cases "step_separation ?e")
      case (Inl out)
      have "\<exists>res. out = Inr res"
        using p Inl i(2)[symmetric] by (rule separation_returns) (use base i b in simp_all)
      then show ?thesis using None premise Inl by (simp add: run_steps_start Let_def)
    next
      case (Inr w)
      show ?thesis
      proof (cases "step_variability ?e")
        case (Some out)
        then obtain limit where "variability_scan ?e limit [] (candidate_ids d) = Some out"
          by (auto simp: step_variability_def split: option.splits)
        then have "\<exists>res. out = Inr res" using variability_returns[OF p, of "[]" "candidate_ids d" limit out] by simp
        then show ?thesis using None premise Inr Some by (simp add: run_steps_start Let_def)
      next
        case variability: None
        have dist: "distinct (candidate_ids d)" using definition_candidates[OF def] by (simp add: candidate_ids_def)
        have vals: "is_fin (primary_value d ?ev j)" for j using fin by (auto simp: finite_outcome_def primary_value_def)
        have el: "ev_eligible ?e = recommendable d ?ev" by (rule ext) simp
        have win: "separated_winner d (primary_value d ?ev) (recommendable d ?ev) w"
          using separation_Inr[of ?e w] Inr vals dist unfolding el by (simp add: recommendable_def)
        have "\<not> f_le (primary_value d ?ev j) (Fin 0) \<longleftrightarrow> f_less (Fin 0) (primary_value d ?ev j)" for j
          using vals[of j] by (auto simp: is_fin_iff)
        then have m: "measurable d ?ev"
          using premise unfolding premise_None measurable_def by (auto simp: filter_empty_conv)
        obtain c where "recommendable d ?ev c" "c \<noteq> baseline_of d"
          "improved d (primary_value d ?ev (baseline_of d)) (primary_value d ?ev c)"
          using premise unfolding premise_None el by auto
        then have "w \<noteq> baseline_of d" using winner_improves[OF def vals m _ _ _ win] by blast
        moreover have "recommendable d ?ev w" using win by (simp add: separated_winner_def)
        ultimately have "\<exists>res. assemble ?e ProvenWinner w [] = Inr res"
          using p by (intro assemble_presentable) (auto simp: recommendable_def)
        then show ?thesis using None premise Inr variability by (simp add: run_steps_start Let_def)
      qed
    qed
  qed
qed

lemma candidate_rank_Some: "i \<in> set (candidate_ids d) \<Longrightarrow> \<exists>k. candidate_rank d i = Some k"
proof -
  assume "i \<in> set (candidate_ids d)"
  then have "i \<in> fst ` set (rev (zip (map cd_id (df_candidates d)) [0 ..< length (df_candidates d)]))"
    by (simp add: candidate_ids_def flip: set_map) 
  then show ?thesis unfolding candidate_rank_def by (meson map_of_eq_None_iff not_Some_eq)
qed

lemma complete_digest:
  assumes "validate_complete dg d obs = None"
  shows "\<exists>ps. observations_digest od d obs = Some (od ps)"
proof -
  have "candidate_rank d (on_candidate ob) \<noteq> None" if "ob \<in> set obs" for ob
    using complete_record[OF assms that] candidate_rank_Some by (auto simp: record_ok_def candidate_ids_def)
  then have "\<not> list_ex (\<lambda>ob. candidate_rank d (on_candidate ob) = None) obs" unfolding list_ex_iff by blast
  then show ?thesis by (auto simp: observations_digest_def)
qed

lemma run_finite_outcome:
  assumes def: "definition_validate d = None" and run: "run_steps (start_evaluation d dd od obs) = Inr res"
  shows "finite_outcome d (observation_at obs)"
proof -
  let ?ev = "observation_at obs" and ?e = "step_secondary_bounds (measured d dd od obs)"
  have base: "baseline_of d \<in> set (candidate_ids d)"
    using definition_candidates[OF def] by (auto simp: baseline_of_def candidate_ids_def)
  have "is_fin (bound_limit (baseline_max d ?ev (fst b)) (snd b))"
    if nofail: "execution_failures d ?ev (baseline_of d) = []"
      and b: "b \<in> set (registered_bounds d)" "bound_evaluable d ?ev b" for b
  proof -
    have "step_baseline_execution_failure (measured d dd od obs) = None" using nofail failure_None[OF base] by simp
    then have "\<exists>v w rs. assemble ?e v w rs = Inr res" using run_assembled[OF run] by auto
    then obtain v w rs where a: "assemble ?e v w rs = Inr res" by blast
    obtain x where "guard_max d ?ev (baseline_of d) (fst b) = Some x"
      using b(2) by (auto simp: bound_evaluable_def baseline_max_def or_zero_def split: option.splits)
    then have "\<lparr>bd_guard = fst b, bd_value = Fin x, bd_limit = bound_limit (baseline_max d ?ev (fst b)) (snd b),
        bd_pass = bound_holds d ?ev b (baseline_of d)\<rparr> \<in> set (ev_bounds ?e (baseline_of d))"
      using b by (cases b) (force simp: bound_entry_def)
    then show ?thesis using assemble_Inr(5)[OF a, of "baseline_of d"] base by fastforce
  qed
  then show ?thesis using run_finite[OF run] by (simp add: finite_outcome_def)
qed

text \<open>C34. The engine returns a result exactly when the definition is locked and its run complete,
  the attestation names the registered environment, and every aggregate and every measured limit
  is a finite number: no other input makes the assembled result fail its own validation.\<close>

theorem evaluate_returns_exactly_when:
  assumes "\<And>n. digest_ok (dg n)" "\<And>ps. digest_ok (od ps)"
  shows "(\<exists>res. evaluate dg od d obs att = Inr res) \<longleftrightarrow>
     validate_complete dg d obs = None \<and> att = xs_environment (df_execution d) \<and> att \<noteq> ''''
     \<and> finite_outcome d (observation_at obs)"
proof
  assume "\<exists>res. evaluate dg od d obs att = Inr res"
  then show "validate_complete dg d obs = None \<and> att = xs_environment (df_execution d) \<and> att \<noteq> ''''
     \<and> finite_outcome d (observation_at obs)"
    unfolding evaluate_Inr using run_finite_outcome complete_definition by blast
next
  assume a: "validate_complete dg d obs = None \<and> att = xs_environment (df_execution d) \<and> att \<noteq> ''''
     \<and> finite_outcome d (observation_at obs)"
  then obtain ps where "observations_digest od d obs = Some (od ps)" using complete_digest by blast
  then show "\<exists>res. evaluate dg od d obs att = Inr res"
    unfolding evaluate_Inr using a run_returns[OF _ assms(1) assms(2)] by metis
qed

section \<open>A sample experiment\<close>

definition trial_digest :: string where
  "trial_digest = ''sha256:'' @ replicate 64 CHR ''0''"

definition trial_commit :: string where
  "trial_commit = replicate 40 CHR ''a''"

definition trial_experiment :: experiment_def where
  "trial_experiment =
     \<lparr>df_schema = definitionSchemaV1, df_class = '''', df_reproduction = None, df_id = ''cache'', df_spike = ''spec/s'',
      df_question = ''spec/s#q'', df_base = trial_commit,
      df_candidates =
        [\<lparr>cd_id = ''a'', cd_patch = ''candidates/a.patch'', cd_digest = trial_digest, cd_base = trial_commit\<rparr>,
         \<lparr>cd_id = ''b'', cd_patch = ''candidates/b.patch'', cd_digest = trial_digest, cd_base = trial_commit\<rparr>],
      df_evaluator = \<lparr>vl_argv = [''bench'', ''run''], vl_digest = trial_digest, vl_capabilities = trial_digest\<rparr>,
      df_workload = \<lparr>xr_id = ''w'', xr_digest = trial_digest\<rparr>, df_fixtures = [],
      df_contract = \<lparr>xr_id = ''c'', xr_digest = trial_digest\<rparr>,
      df_decision =
        \<lparr>ds_primary = \<lparr>pm_id = ''lat'', pm_type = MetricDuration, pm_unit = ''ms'', pm_aggregation = AggMean,
                       pm_direction = DirLower\<rparr>,
         ds_baseline = ''a'', ds_improvement = \<lparr>th_relative = Some (Fin (1 / 2)), th_absolute = None\<rparr>,
         ds_separation = \<lparr>th_relative = None, th_absolute = Some (Fin 1)\<rparr>,
         ds_guards = [\<lparr>gd_id = ''tests'', gd_bound = None\<rparr>, \<lparr>gd_id = ''mem'', gd_bound = Some (Fin (1 / 2))\<rparr>],
         ds_spread = Some (Fin 1)\<rparr>,
      df_execution = \<lparr>xs_warmups = 0, xs_rounds = 1, xs_order = OrderRotation, xs_timeout = ''30s'', xs_environment = ''lab''\<rparr>,
      df_algorithm = AlgorithmV1, df_retention = ''keep'', df_policy = None, df_protected = [],
      df_lock = Some trial_digest\<rparr>"

definition trial_record :: "string \<Rightarrow> guard_verdict \<Rightarrow> string option \<Rightarrow> string \<Rightarrow> string \<Rightarrow> observation" where
  "trial_record cand verdict witness lat mem =
     \<lparr>on_candidate = cand, on_round = 1, on_outcome = None,
      on_guards = Some [\<lparr>gr_id = ''tests'', gr_verdict = verdict, gr_witness = witness\<rparr>],
      on_measurements =
        Some [\<lparr>ms_id = ''lat'', ms_value = ValueNumber lat, ms_unit = ''ms'', ms_source = SrcEvaluator\<rparr>,
              \<lparr>ms_id = ''mem'', ms_value = ValueNumber mem, ms_unit = ''mb'', ms_source = SrcHarness\<rparr>],
      on_disclosures = Some [], on_schema = observationSchema, on_digest = trial_digest, on_run = ''r1''\<rparr>"

text \<open>A run in which the guard of the baseline has the given outcome.\<close>

definition trial_run :: "guard_verdict \<Rightarrow> string option \<Rightarrow> observation list" where
  "trial_run v w = [trial_record ''a'' v w ''100.0'' ''10'', trial_record ''b'' GuardPass None ''40'' ''1.2e1'']"

abbreviation trial_records :: "observation list" where
  "trial_records \<equiv> trial_run GuardPass None"

text \<open>The premise of this one is broken.\<close>

abbreviation trial_broken :: "observation list" where
  "trial_broken \<equiv> trial_run GuardFail (Some ''log'')"

definition trial_evaluate :: "observation list \<Rightarrow> evaluated" where
  "trial_evaluate obs = evaluate (\<lambda>_. trial_digest) (\<lambda>_. trial_digest) trial_experiment obs ''lab''"

lemma rx_match_replicate: "in_class cs c \<Longrightarrow> rx_match (Rep n (Cls cs)) (replicate n c)"
proof (unfold rx_match_lang, induction n)
  case (Suc n)
  then have "[c] \<in> lang (Cls cs)" "replicate n c \<in> lang (Rep n (Cls cs))" by auto
  then have "[c] @ replicate n c \<in> lang (Cat (Cls cs) (Rep n (Cls cs)))" unfolding lang.simps by blast
  then show ?case by (simp del: lang.simps)
qed simp

lemma trial_digest_ok: "digest_ok trial_digest"
  unfolding digest_ok_def digestRe_def trial_digest_def rx_match_Cat hex_lower_def
proof (intro exI conjI)
  show "rx_match (Lit ''sha256:'') ''sha256:''" by (simp only: rx_match_Lit)
  show "rx_match (Rep 64 (Cls [(CHR ''0'', CHR ''9''), (CHR ''a'', CHR ''f'')])) (replicate 64 CHR ''0'')"
    by (rule rx_match_replicate) (simp add: in_class_def less_eq_char_def)
qed simp

lemma trial_commit_ok: "commit_ok trial_commit"
  unfolding commit_ok_def ex_commitRe_def trial_commit_def hex_lower_def
  by (rule rx_match_replicate) (simp add: in_class_def less_eq_char_def)

lemma trial_ids: "id_ok ''cache''" "id_ok ''a''" "id_ok ''b''" "id_ok ''w''" "id_ok ''c''" "id_ok ''lat''" "id_ok ''mem''"
  "id_ok ''tests''" "id_ok ''keep''" "id_ok ''r1''"
  by code_simp+

lemma trial_refs: "rx_match spikeRe ''spec/s''" "rx_match questionRe ''spec/s#q''"
  by code_simp+

lemma trial_units: "unit_ok ''ms''" "unit_ok ''mb''"
  by code_simp+

lemma trial_duration: "parse_duration ''30s'' = Some 30000000000"
  by (simp add: parse_duration_def duration_sum.simps duration_term_def duration_unit_def unit_size_def unit_char_def
      is_digit_def less_eq_char_def Let_def)

lemma parse_small: "number_value s = Some (of_int n) \<Longrightarrow> \<bar>n\<bar> < 2 ^ 53 \<Longrightarrow> parse_float s = Some (of_int n)"
  by (simp add: parse_float_def f_of_double fin_double_int)

lemma trial_numbers: "parse_float ''100.0'' = Some 100" "parse_float ''40'' = Some 40" "parse_float ''10'' = Some 10"
  "parse_float ''1.2e1'' = Some 12"
proof -
  have "number_value ''100.0'' = Some (of_int 100)" "number_value ''40'' = Some (of_int 40)"
    "number_value ''10'' = Some (of_int 10)" "number_value ''1.2e1'' = Some (of_int 12)"
    by (simp_all add: number_value_def cut_sign_def digit_span_def exponent_part_def is_digit_def less_eq_char_def
        digits_value_def power_int_def)
  then show "parse_float ''100.0'' = Some 100" "parse_float ''40'' = Some 40" "parse_float ''10'' = Some 10"
    "parse_float ''1.2e1'' = Some 12"
    using parse_small[of _ 100] parse_small[of _ 40] parse_small[of _ 10] parse_small[of _ 12] by simp_all
qed

lemma trial_guards:
  "guard_validate \<lparr>gd_id = ''tests'', gd_bound = None\<rparr> = None"
  "guard_validate \<lparr>gd_id = ''mem'', gd_bound = Some (Fin (1 / 2))\<rparr> = None"
  "evaluator_repo_path ''bench'' = Inr ''''"
  by (simp_all add: guard_validate_def arm_validate_def positive_number_def trial_ids evaluator_repo_path_def has_prefix_def)

lemma trial_definition: "definition_validate trial_experiment = None"
  by (simp add: definition_validate_def trial_experiment_def schema_validate_def trial_ids trial_refs trial_units
      trial_digest_ok trial_commit_ok trial_duration trial_guards candidate_validate_def evaluator_validate_def
      artifact_ref_validate_def primary_metric_validate_def threshold_validate_def arm_validate_def positive_number_def
      execution_validate_def scan_seen_None scan_idx_None del: rx_match.simps scan_seen.simps scan_idx.simps)

lemma trial_lock: "locked (\<lambda>_. trial_digest) trial_experiment = Inr True"
  unfolding locked_iff using trial_definition by (simp add: trial_experiment_def)

text \<open>A completed record of the sample is in order when its texts are.\<close>

lemma trial_record_ok:
  assumes "id_ok cand" "cand = ''a'' \<or> cand = ''b''" "verdict = GuardPass \<and> witness = None \<or> verdict = GuardFail \<and> witness_ok witness"
    "parse_float lat = Some x" "parse_float mem = Some y"
  shows "record_ok trial_experiment trial_digest (trial_record cand verdict witness lat mem)"
proof -
  let ?ob = "trial_record cand verdict witness lat mem"
  have "observation_validate ?ob = None"
    using assms
    by (auto simp: observation_validate_def trial_record_def outcome_check_def trial_ids trial_digest_ok trial_units
        scan_seen_None scan_idx_None slice_def guard_result_validate_def measurement_validate_def observationSchema_def
        simp del: rx_match.simps scan_seen.simps scan_idx.simps)
  moreover have "evidence_faults trial_experiment ?ob = None"
    by (simp add: evidence_faults_def trial_record_def trial_experiment_def required_guards_def guard_bounded_def slice_def
        scan_idx_None measurement_faults_def value_kind_ok_def wants_bool_def eligible_for_def observationSchema_def
        observationSchemaV2_def Let_def del: scan_idx.simps)
  moreover have "failed_attempt ?ob = False" by (simp add: failed_attempt_def trial_record_def observationSchema_def observationSchemaV2_def)
  ultimately show ?thesis
    using assms(2)
    by (auto simp: record_ok_def trial_record_def trial_experiment_def bound_guards_def guard_bounded_def slice_def eligible_for_def)
qed

lemma trial_set_complete:
  assumes "record_ok trial_experiment trial_digest (trial_record ''a'' v1 w1 l1 m1)"
    "record_ok trial_experiment trial_digest (trial_record ''b'' v2 w2 l2 m2)"
  shows "validate_complete (\<lambda>_. trial_digest) trial_experiment [trial_record ''a'' v1 w1 l1 m1, trial_record ''b'' v2 w2 l2 m2] = None"
proof -
  have "unit_claims trial_experiment (trial_record c v w l m) = {(''mem'', ''mb'')}" for c v w l m
    by (force simp: unit_claims_def trial_record_def failed_attempt_def observationSchema_def observationSchemaV2_def
        trial_experiment_def bound_guards_def guard_bounded_def slice_def eligible_for_def)
  then have "set_ok trial_experiment trial_digest [trial_record ''a'' v1 w1 l1 m1, trial_record ''b'' v2 w2 l2 m2]"
    using assms by (auto simp: set_ok_def trial_record_def single_valued_def)
  then show ?thesis
    using trial_lock unfolding validate_complete_None
    by (auto simp: matrix_def rounds_def trial_experiment_def trial_record_def)
qed

lemma trial_records_ok:
  "record_ok trial_experiment trial_digest (trial_record ''a'' GuardPass None ''100.0'' ''10'')"
  "record_ok trial_experiment trial_digest (trial_record ''b'' GuardPass None ''40'' ''1.2e1'')"
  "record_ok trial_experiment trial_digest (trial_record ''a'' GuardFail (Some ''log'') ''100.0'' ''10'')"
proof -
  have "witness_ok (Some ''log'')" by (simp add: witness_ok_def utf8_valid_ascii)
  then show "record_ok trial_experiment trial_digest (trial_record ''a'' GuardPass None ''100.0'' ''10'')"
    "record_ok trial_experiment trial_digest (trial_record ''b'' GuardPass None ''40'' ''1.2e1'')"
    "record_ok trial_experiment trial_digest (trial_record ''a'' GuardFail (Some ''log'') ''100.0'' ''10'')"
    using trial_record_ok trial_numbers trial_ids(2,3) by blast+
qed

lemma trial_complete: "validate_complete (\<lambda>_. trial_digest) trial_experiment trial_records = None"
  unfolding trial_run_def by (rule trial_set_complete[OF trial_records_ok(1,2)])

lemma trial_broken_complete: "validate_complete (\<lambda>_. trial_digest) trial_experiment trial_broken = None"
  unfolding trial_run_def by (rule trial_set_complete[OF trial_records_ok(3,2)])

lemma trial_values:
  "primary_round_values trial_experiment (observation_at (trial_run v w)) ''a'' = [100]"
  "primary_round_values trial_experiment (observation_at (trial_run v w)) ''b'' = [40]"
  "guard_round_values trial_experiment (observation_at (trial_run v w)) ''a'' ''mem'' = [10]"
  "guard_round_values trial_experiment (observation_at (trial_run v w)) ''b'' ''mem'' = [12]"
  by (simp_all add: primary_round_values_def guard_round_values_def rounds_def observation_at_def trial_run_def
      trial_record_def run_completed_def slice_def eligible_for_def value_or_zero_def trial_experiment_def trial_numbers)

lemma fin_double_half: "0 < n \<Longrightarrow> n < 2 ^ 53 \<Longrightarrow> fin_double (of_int n / 2)"
proof -
  assume n: "0 < n" "n < 2 ^ 53"
  have e: "of_int n * 2 powi (- 1) = (of_int n / 2 :: rat)" by (simp add: power_int_minus)
  have "rnd_pos (of_int n * 2 powi (- 1)) = of_int n * 2 powi (- 1)" by (rule rnd_powi_multiple) (use n in simp_all)
  then have p: "rnd_pos (of_int n / 2) = of_int n / 2" unfolding e .
  have pos: "0 < (of_int n / 2 :: rat)" using n(1) by simp
  have r: "rnd (of_int n / 2) = of_int n / 2" using pos p unfolding rnd_def by argo
  have "(of_int n :: rat) < of_int (2 ^ 53)" using n(2) by (simp only: of_int_less_iff)
  also have "\<dots> \<le> 2 ^ 1024" by simp
  finally have "\<bar>of_int n / 2 :: rat\<bar> < 2 ^ 1024" using pos by linarith
  then show ?thesis unfolding fin_double_def is_double_def using r by blast
qed

lemma f_of_int: "\<bar>n\<bar> < 2 ^ 53 \<Longrightarrow> f_of (of_int n) = Fin (of_int n)"
  by (simp add: f_of_double fin_double_int)

lemma trial_f_of:
  "f_of 0 = Fin 0" "f_of 1 = Fin 1" "f_of 10 = Fin 10" "f_of 15 = Fin 15" "f_of 39 = Fin 39" "f_of 40 = Fin 40" "f_of 50 = Fin 50"
  "f_of 99 = Fin 99" "f_of 100 = Fin 100" "f_of (1 / 2) = Fin (1 / 2)" "f_of (3 / 2) = Fin (3 / 2)"
  using f_of_int[of 0] f_of_int[of 1] f_of_int[of 10] f_of_int[of 15] f_of_int[of 39] f_of_int[of 40] f_of_int[of 50]
    f_of_int[of 99] f_of_int[of 100]
    fin_double_half[of 1] fin_double_half[of 3] by (simp_all add: f_of_double)

lemma percentile_single: "percentile [x] p = x"
  by (simp add: percentile_def Let_def)

lemma trial_ids_of: "candidate_ids trial_experiment = [''a'', ''b'']" "baseline_of trial_experiment = ''a''"
  "direction_of trial_experiment = DirLower" "registered_bounds trial_experiment = [(''mem'', Fin (1 / 2))]"
  by (simp_all add: candidate_ids_def baseline_of_def direction_of_def registered_bounds_def trial_experiment_def)

lemma trial_primary:
  "primary_value trial_experiment (observation_at (trial_run v w)) ''a'' = Fin 100"
  "primary_value trial_experiment (observation_at (trial_run v w)) ''b'' = Fin 40"
proof -
  have agg: "pm_aggregation (ds_primary (df_decision trial_experiment)) = AggMean" by (simp add: trial_experiment_def)
  show "primary_value trial_experiment (observation_at (trial_run v w)) ''a'' = Fin 100"
    "primary_value trial_experiment (observation_at (trial_run v w)) ''b'' = Fin 40"
    by (simp_all add: primary_value_def trial_values trial_ids_of agg mean_def trial_f_of)
qed

lemma trial_bound:
  "bound_evaluable trial_experiment (observation_at (trial_run v w)) (''mem'', Fin (1 / 2))"
  "bound_limit (baseline_max trial_experiment (observation_at (trial_run v w)) ''mem'') (Fin (1 / 2)) = Fin 15"
  "bound_holds trial_experiment (observation_at (trial_run v w)) (''mem'', Fin (1 / 2)) ''b''"
proof -
  have "guard_max trial_experiment (observation_at (trial_run v w)) ''a'' ''mem'' = Some 10"
    "guard_max trial_experiment (observation_at (trial_run v w)) ''b'' ''mem'' = Some 12"
    by (simp_all add: guard_max_def trial_values trial_ids_of maximum_def)
  moreover from this show limit: "bound_limit (baseline_max trial_experiment (observation_at (trial_run v w)) ''mem'') (Fin (1 / 2)) = Fin 15"
    by (simp add: bound_limit_def baseline_max_def or_zero_def trial_ids_of trial_f_of)
  ultimately show "bound_evaluable trial_experiment (observation_at (trial_run v w)) (''mem'', Fin (1 / 2))"
    "bound_holds trial_experiment (observation_at (trial_run v w)) (''mem'', Fin (1 / 2)) ''b''"
    by (simp_all add: bound_evaluable_def bound_holds_def baseline_max_def or_zero_def trial_ids_of)
qed

lemma trial_finite: "finite_outcome trial_experiment (observation_at (trial_run v w))"
  by (simp add: finite_outcome_def trial_ids_of trial_primary trial_bound)

lemma trial_result:
  assumes "validate_complete (\<lambda>_. trial_digest) trial_experiment (trial_run v w) = None"
  shows "\<exists>res. trial_evaluate (trial_run v w) = Inr res"
proof -
  obtain ps where "observations_digest (\<lambda>_. trial_digest) trial_experiment (trial_run v w) = Some trial_digest"
    using complete_digest[OF assms] by metis
  moreover have "\<exists>res. run_steps (start_evaluation trial_experiment trial_digest trial_digest (trial_run v w)) = Inr res"
    using run_returns[OF assms trial_digest_ok trial_digest_ok trial_finite] .
  ultimately show ?thesis
    unfolding trial_evaluate_def evaluate_Inr using assms by (simp add: trial_experiment_def)
qed

lemma trial_clean:
  "execution_failures trial_experiment (observation_at trial_records) i = []"
  "guard_violations trial_experiment (observation_at trial_records) i = []"
  by (auto simp: execution_failures_Nil guard_violations_Nil rounds_def observation_at_def trial_run_def trial_record_def
      no_observation_def run_completed_def slice_def trial_experiment_def split: option.splits if_splits)

lemma trial_recommendable: "recommendable trial_experiment (observation_at trial_records) i \<longleftrightarrow> i = ''a'' \<or> i = ''b''"
proof -
  have "baseline_holds trial_experiment (observation_at trial_records)" by (simp add: baseline_holds_def trial_clean)
  then have "recommendable trial_experiment (observation_at trial_records) ''a''"
    using baseline_recommendable[OF trial_definition] by (simp add: trial_ids_of)
  moreover have "recommendable trial_experiment (observation_at trial_records) ''b''"
    by (simp add: recommendable_def trial_ids_of trial_clean trial_bound)
  ultimately show ?thesis by (auto simp: recommendable_def trial_ids_of)
qed

lemma trial_winner: "proven_winner trial_experiment (observation_at trial_records) ''b''"
proof -
  have spec: "ds_improvement (df_decision trial_experiment) = \<lparr>th_relative = Some (Fin (1 / 2)), th_absolute = None\<rparr>"
    "ds_separation (df_decision trial_experiment) = \<lparr>th_relative = None, th_absolute = Some (Fin 1)\<rparr>"
    "ds_spread (df_decision trial_experiment) = Some (Fin 1)"
    by (simp_all add: trial_experiment_def)
  have "separated_winner trial_experiment (primary_value trial_experiment (observation_at trial_records))
      (recommendable trial_experiment (observation_at trial_records)) ''b''"
    unfolding separated_winner_def trial_recommendable
    by (intro conjI exI[of _ "''a''"])
      (auto simp: trial_primary better_def trial_ids_of separated_def clears_def spec f_sub_def trial_f_of)
  then show ?thesis
    by (auto simp: proven_winner_def baseline_holds_def trial_clean measurable_def trial_ids_of trial_bound trial_primary
        improved_def clears_def spec f_sub_def trial_f_of trial_recommendable steady_def trial_values spread_of_def
        percentile_single maximum_def minimum_def)
qed

lemma winner_exactly_when_proven_witness:
  "\<exists>res. trial_evaluate trial_records = Inr res \<and> rs_verdict res = ProvenWinner \<and> rs_winner res = ''b''"
proof -
  obtain res where res: "trial_evaluate trial_records = Inr res" using trial_result[OF trial_complete] by blast
  then show ?thesis
    using winner_exactly_when_proven[OF res[unfolded trial_evaluate_def], of "''b''"] trial_winner by blast
qed

lemma violated_exactly_when_baseline_failed_witness:
  "\<exists>res. trial_evaluate trial_broken = Inr res \<and> rs_verdict res = ViolatedWithWitness
     \<and> (\<forall>r \<in> set (rs_reasons res). rn_candidate r = ''a'')"
proof -
  obtain res where res: "trial_evaluate trial_broken = Inr res" using trial_result[OF trial_broken_complete] by blast
  have "\<exists>ob \<in> set trial_broken. on_candidate ob = ''a''
      \<and> (\<not> run_completed ob \<or> (\<exists>g \<in> set (slice (on_guards ob)). gr_verdict g = GuardFail))"
    by (simp add: trial_run_def trial_record_def slice_def)
  then show ?thesis
    using violated_exactly_when_baseline_failed[OF res[unfolded trial_evaluate_def]] res unfolding trial_ids_of by blast
qed

lemma evaluate_ignores_order_witness:
  "\<exists>res. trial_evaluate trial_records = Inr res \<and> trial_evaluate (rev trial_records) = Inr res \<and> rev trial_records \<noteq> trial_records"
proof -
  obtain res where res: "trial_evaluate trial_records = Inr res" using trial_result[OF trial_complete] by blast
  moreover have "trial_evaluate (rev trial_records) = Inr res"
    using evaluate_ignores_order[of trial_records "rev trial_records"] res unfolding trial_evaluate_def by simp
  moreover have "rev trial_records \<noteq> trial_records" by (simp add: trial_run_def trial_record_def)
  ultimately show ?thesis by blast
qed

lemma evaluate_returns_exactly_when_witness:
  "(\<exists>res. trial_evaluate trial_records = Inr res)
     \<and> \<not> (\<exists>res. evaluate (\<lambda>_. trial_digest) (\<lambda>_. trial_digest) trial_experiment trial_records ''other'' = Inr res)"
  using evaluate_returns_exactly_when[of "\<lambda>_. trial_digest" "\<lambda>_. trial_digest" trial_experiment trial_records]
    trial_digest_ok trial_complete trial_finite
  by (simp add: trial_evaluate_def trial_experiment_def)

end
