(* ===== verification/Patches.thy ===== *)
theory Patches
  imports Verdicts
begin

text \<open>
  Candidate patches (internal/experiment/candidate.go): the paths a git patch names, and the
  check that a registered patch touches no protected input of the comparison. SHA-256 in hex
  is the argument \<open>h\<close>. The six single-path patterns are prefixes of a line, which holds no newline.
\<close>

section \<open>The paths of a patch\<close>

definition diffGitPrefix :: string where "diffGitPrefix = ''diff --git ''"
definition devNull :: string where "devNull = ''/dev/null''"

record patch_section =
  pt_arms :: string
  pt_explicit :: "string list"

definition cut_prefix :: "string \<Rightarrow> string \<Rightarrow> string option" where
  "cut_prefix s p = (if has_prefix s p then Some (drop (length p) s) else None)"

definition path_lines :: "string list" where
  "path_lines = [''--- a/'', ''+++ b/'', ''rename from '', ''rename to '', ''copy from '', ''copy to '']"

definition header_path :: "string \<Rightarrow> string option" where
  "header_path line =
     (case find (has_prefix line) path_lines of None \<Rightarrow> None | Some p \<Rightarrow> cut_prefix line p)"

definition resolve_arms :: "string \<Rightarrow> string" where
  "resolve_arms arms =
     (case cut_prefix arms ''a/'' of
        None \<Rightarrow> ''''
      | Some body \<Rightarrow>
          (case filter (\<lambda>i. has_prefix (drop i body) '' b/'' \<and> take i body = drop (i + 3) body) [0 ..< length body] of
             [i] \<Rightarrow> take i body
           | _ \<Rightarrow> ''''))"

definition section_line :: "patch_section list \<Rightarrow> string \<Rightarrow> patch_section list" where
  "section_line secs line =
     (case cut_prefix line diffGitPrefix of
        Some arms \<Rightarrow> secs @ [\<lparr>pt_arms = arms, pt_explicit = []\<rparr>]
      | None \<Rightarrow>
          if secs = [] then secs
          else
            (case header_path line of
               None \<Rightarrow> secs
             | Some p \<Rightarrow> butlast secs @ [(last secs)\<lparr>pt_explicit := pt_explicit (last secs) @ [p]\<rparr>]))"

definition split_patch_sections :: "string \<Rightarrow> patch_section list" where
  "split_patch_sections patch = foldl section_line [] (split_on CHR 0x0A patch)"

definition names_repo_path :: "string \<Rightarrow> bool" where
  "names_repo_path p \<longleftrightarrow> p \<noteq> '''' \<and> p \<noteq> devNull"

datatype patch_error =
    PatchDir path_error | PatchUnregistered string | PatchDigest string string | PatchNoSection
  | PatchNamesNothing string | PatchPath path_error | PatchEvaluator evaluator_error | PatchProtected string string

fun add_paths :: "string list \<Rightarrow> string list \<Rightarrow> patch_error + string list" where
  "add_paths paths [] = Inr paths"
| "add_paths paths (p # ps) =
     (if \<not> names_repo_path p \<or> p \<in> set paths then add_paths paths ps
      else (case repo_path p of Some e \<Rightarrow> Inl (PatchPath e) | None \<Rightarrow> add_paths (paths @ [p]) ps))"

fun sections_paths :: "string list \<Rightarrow> patch_section list \<Rightarrow> patch_error + string list" where
  "sections_paths paths [] = Inr paths"
| "sections_paths paths (s # ss) =
     (if \<not> names_repo_path (resolve_arms (pt_arms s)) \<and> \<not> list_ex names_repo_path (pt_explicit s)
      then Inl (PatchNamesNothing (pt_arms s))
      else
        (case add_paths paths (resolve_arms (pt_arms s) # pt_explicit s) of
           Inl e \<Rightarrow> Inl e | Inr paths' \<Rightarrow> sections_paths paths' ss))"

definition parse_patch_paths :: "string \<Rightarrow> patch_error + string list" where
  "parse_patch_paths patch =
     (if split_patch_sections patch = [] then Inl PatchNoSection else sections_paths [] (split_patch_sections patch))"

section \<open>The check\<close>

definition path_touches_prefix :: "string \<Rightarrow> string \<Rightarrow> bool" where
  "path_touches_prefix changed prefix \<longleftrightarrow> changed = prefix \<or> has_prefix changed (prefix @ ''/'')"

definition sha256_digest :: "(string \<Rightarrow> string) \<Rightarrow> string \<Rightarrow> string" where
  "sha256_digest h text = ''sha256:'' @ h text"

text \<open>The protected inputs: the registered paths, the evaluator when it is in the repository,
  the directory of the experiment.\<close>

definition protected_inputs :: "experiment_def \<Rightarrow> string \<Rightarrow> evaluator_error + string list" where
  "protected_inputs d dir =
     (if vl_argv (df_evaluator d) = [] then Inr (df_protected d @ [dir])
      else
        (case evaluator_repo_path (hd (vl_argv (df_evaluator d))) of
           Inl e \<Rightarrow> Inl e
         | Inr p \<Rightarrow> Inr (df_protected d @ (if p \<noteq> '''' then [p] else []) @ [dir])))"

definition touched :: "string list \<Rightarrow> string list \<Rightarrow> patch_error option" where
  "touched protected changed =
     map_option (\<lambda>(p, q). PatchProtected p q)
       (find (\<lambda>(p, q). path_touches_prefix p q) (List.product changed protected))"

definition validate_candidate_patch ::
  "(string \<Rightarrow> string) \<Rightarrow> experiment_def \<Rightarrow> string \<Rightarrow> string \<Rightarrow> string \<Rightarrow> patch_error option" where
  "validate_candidate_patch h d i patch dir =
     (case repo_path dir of
        Some e \<Rightarrow> Some (PatchDir e)
      | None \<Rightarrow>
          (case find (\<lambda>c. cd_id c = i) (df_candidates d) of
             None \<Rightarrow> Some (PatchUnregistered i)
           | Some c \<Rightarrow>
               if sha256_digest h patch \<noteq> cd_digest c then Some (PatchDigest (sha256_digest h patch) (cd_digest c))
               else
                 (case parse_patch_paths patch of
                    Inl e \<Rightarrow> Some e
                  | Inr changed \<Rightarrow>
                      (case protected_inputs d dir of
                         Inl e \<Rightarrow> Some (PatchEvaluator e) | Inr protected \<Rightarrow> touched protected changed))))"

section \<open>No path is missed\<close>





lemma sections_snoc:
  "foldl section_line [] (ls @ [l]) = section_line (foldl section_line [] ls) l"
  by simp
















text \<open>A line that puts another prefix before its path, or quotes it, is read as naming nothing.\<close>

lemma other_prefix_unread:
  "header_path (''--- x/'' @ p) = None" "header_path (''+++ x/'' @ p) = None"
  "header_path (''--- '' @ CHR 0x22 # p) = None" "header_path (''+++ '' @ CHR 0x22 # p) = None"
  by (simp_all add: header_path_def path_lines_def has_prefix_def)


definition trial_hash :: "string \<Rightarrow> string" where "trial_hash _ = replicate 64 CHR ''0''"


lemma trial_patch_inputs: "protected_inputs trial_experiment ''exp'' = Inr [''exp'']"
  by (simp add: protected_inputs_def trial_experiment_def evaluator_repo_path_def)


text \<open>A patch of the same candidate whose \<^verbatim>\<open>---\<close> and \<^verbatim>\<open>+++\<close> lines put another prefix before a file of
  the experiment's directory; \<^verbatim>\<open>git apply\<close> would strip the prefix and change that file.\<close>

definition other_prefix_patch :: string where
  "other_prefix_patch = ''diff --git a/lib/x.go b/lib/x.go'' @ [CHR 0x0A] @ ''--- x/exp/definition.yaml'' @ [CHR 0x0A]
     @ ''+++ x/exp/definition.yaml'' @ [CHR 0x0A] @ ''+ok''"

lemma other_prefix_accepted: "validate_candidate_patch trial_hash trial_experiment ''b'' other_prefix_patch ''exp'' = None"
proof -
  have "parse_patch_paths other_prefix_patch = Inr [''lib/x.go'']" by code_simp
  moreover have "repo_path ''exp'' = None" by code_simp
  moreover have "find (\<lambda>c. cd_id c = ''b'') (df_candidates trial_experiment) = Some (df_candidates trial_experiment ! 1)"
    by (simp add: trial_experiment_def)
  moreover have "cd_digest (df_candidates trial_experiment ! 1) = sha256_digest trial_hash other_prefix_patch"
    by (simp add: trial_experiment_def sha256_digest_def trial_hash_def trial_digest_def)
  moreover have "touched [''exp''] [''lib/x.go''] = None" by code_simp
  ultimately show ?thesis by (simp add: validate_candidate_patch_def trial_patch_inputs)
qed


end
