(* ===== verification/Reclaim.thy ===== *)
theory Reclaim
  imports Prelude "HOL-Library.Multiset"
begin

text \<open>
  What \<^verbatim>\<open>verdi gc\<close> removes (internal/residue/survey.go, internal/reclaim, internal/wtmanager gc.go
  and naming.go, the worktree listing of internal/gitx, cmd/verdi/gc.go). Git, the file system
  and the lock files are the arguments \<open>w\<close> (what they answer) and \<open>h\<close> (what they do with a
  command that changes something); both may depend on every such command issued before, which
  the log of the run records in order with its outcome.
\<close>

section \<open>Paths\<close>

text \<open>\<^verbatim>\<open>filepath.Clean\<close>, \<^verbatim>\<open>Join\<close> and \<^verbatim>\<open>Rel\<close> of the standard library, for a slash-separated system.\<close>

definition clean_step :: "bool \<Rightarrow> string list \<Rightarrow> string \<Rightarrow> string list" where
  "clean_step rooted segs s =
     (if s = '''' \<or> s = ''.'' then segs
      else if s = ''..'' then
        (if segs \<noteq> [] \<and> last segs \<noteq> ''..'' then butlast segs
         else if rooted then segs else segs @ [''..''])
      else segs @ [s])"

definition clean_segs :: "string \<Rightarrow> string list" where
  "clean_segs p = foldl (clean_step (has_prefix p ''/'')) [] (split_on CHR ''/'' p)"

definition clean_path :: "string \<Rightarrow> string" where
  "clean_path p =
     (if has_prefix p ''/'' then CHR ''/'' # join_with ''/'' (clean_segs p)
      else if clean_segs p = [] then ''.''
      else join_with ''/'' (clean_segs p))"

definition join_path :: "string list \<Rightarrow> string" where
  "join_path ps =
     (case dropWhile (\<lambda>p. p = '''') ps of [] \<Rightarrow> '''' | q # qs \<Rightarrow> clean_path (join_with ''/'' (q # qs)))"

fun drop_common :: "string list \<Rightarrow> string list \<Rightarrow> string list \<times> string list" where
  "drop_common (x # xs) (y # ys) = (if x = y then drop_common xs ys else (x # xs, y # ys))"
| "drop_common xs ys = (xs, ys)"

definition rel_segs :: "string \<Rightarrow> string \<Rightarrow> string list option" where
  "rel_segs base targ =
     (if has_prefix (clean_path base) ''/'' \<noteq> has_prefix (clean_path targ) ''/'' then None
      else
        (case drop_common (clean_segs base) (clean_segs targ) of
           (b, t) \<Rightarrow> if b \<noteq> [] \<and> hd b = ''..'' then None else Some (replicate (length b) ''..'' @ t)))"

section \<open>Git and the file system\<close>

datatype mutation =
    RemoveWorktree string | DeleteBranch string | AcquireLock string | ReleaseLock string

type_synonym log = "(mutation \<times> bool) list"

datatype lock_answer = LockTaken | LockHeld int | LockError string

datatype dir_answer = DirMissing | DirError string | DirEntries "(string \<times> bool) list"

record git_view =
  wg_list :: "log \<Rightarrow> string + string"
  wg_git_dir :: "log \<Rightarrow> string \<Rightarrow> bool"
  wg_real :: "log \<Rightarrow> string \<Rightarrow> string option"
  wg_ancestor :: "log \<Rightarrow> string \<Rightarrow> string \<Rightarrow> string + bool"
  wg_status :: "log \<Rightarrow> string \<Rightarrow> string + string"
  wg_branches :: "log \<Rightarrow> string + string"
  wg_has_local :: "log \<Rightarrow> string \<Rightarrow> string + bool"
  wg_rev :: "log \<Rightarrow> string \<Rightarrow> string + string"
  wg_current :: "log \<Rightarrow> string + string"
  wg_dir :: "log \<Rightarrow> string \<Rightarrow> dir_answer"
  wg_peek :: "log \<Rightarrow> string \<Rightarrow> string + int option"

record git_hand =
  wh_remove :: "log \<Rightarrow> string \<Rightarrow> string option"
  wh_delete :: "log \<Rightarrow> string \<Rightarrow> string option"
  wh_acquire :: "log \<Rightarrow> string \<Rightarrow> lock_answer"

definition status_dirty :: "git_view \<Rightarrow> log \<Rightarrow> string \<Rightarrow> string + bool" where
  "status_dirty w l p = (case wg_status w l p of Inl e \<Rightarrow> Inl e | Inr out \<Rightarrow> Inr (trim_space out \<noteq> ''''))"

definition local_branches :: "git_view \<Rightarrow> log \<Rightarrow> string + string list" where
  "local_branches w l =
     (case wg_branches w l of
        Inl e \<Rightarrow> Inl e | Inr out \<Rightarrow> Inr (filter (\<lambda>b. b \<noteq> '''') (split_on CHR 0x0A (trim_space out))))"

definition remove_worktree :: "git_hand \<Rightarrow> log \<Rightarrow> string \<Rightarrow> string option \<times> log" where
  "remove_worktree h l p =
     (case wh_remove h l p of
        Some e \<Rightarrow> (Some e, l @ [(RemoveWorktree p, False)])
      | None \<Rightarrow> (None, l @ [(RemoveWorktree p, True)]))"

definition delete_merged_branch :: "git_view \<Rightarrow> git_hand \<Rightarrow> log \<Rightarrow> string \<Rightarrow> (string + string) \<times> log" where
  "delete_merged_branch w h l b =
     (case wg_rev w l b of
        Inl e \<Rightarrow> (Inl e, l)
      | Inr tip \<Rightarrow>
          (case wh_delete h l b of
             Some e \<Rightarrow> (Inl e, l @ [(DeleteBranch b, False)])
           | None \<Rightarrow> (Inr tip, l @ [(DeleteBranch b, True)])))"

text \<open>The porcelain listing of worktrees.\<close>

record worktree_entry =
  we_path :: string
  we_head :: string
  we_branch :: string
  we_bare :: bool
  we_prunable :: bool
  we_reason :: string

definition trim_cr :: "string \<Rightarrow> string" where
  "trim_cr s = rev (dropWhile (\<lambda>c. c = CHR 0x0D) (rev s))"

definition flush_entry :: "worktree_entry list \<times> worktree_entry option \<Rightarrow> worktree_entry list" where
  "flush_entry st = (case st of (es, None) \<Rightarrow> es | (es, Some e) \<Rightarrow> es @ [e])"

definition worktree_line ::
  "worktree_entry list \<times> worktree_entry option \<Rightarrow> string \<Rightarrow> worktree_entry list \<times> worktree_entry option" where
  "worktree_line st raw =
     (let line = trim_cr raw; key = fst (cut_at CHR '' '' line); val = fst (snd (cut_at CHR '' '' line)) in
      if line = '''' then (flush_entry st, None)
      else if key = ''worktree'' then
        (flush_entry st, Some \<lparr>we_path = val, we_head = '''', we_branch = '''', we_bare = False, we_prunable = False, we_reason = ''''\<rparr>)
      else
        (fst st,
         map_option (\<lambda>e.
           if key = ''HEAD'' then e\<lparr>we_head := val\<rparr>
           else if key = ''branch'' then e\<lparr>we_branch := trim_prefix val ''refs/heads/''\<rparr>
           else if key = ''bare'' then e\<lparr>we_bare := True\<rparr>
           else if key = ''prunable'' then e\<lparr>we_prunable := True, we_reason := val\<rparr>
           else e) (snd st)))"

definition parse_worktree_list :: "string \<Rightarrow> worktree_entry list" where
  "parse_worktree_list out = flush_entry (foldl worktree_line ([], None) (split_on CHR 0x0A out))"

section \<open>The survey\<close>

definition worktrees_root :: "string \<Rightarrow> string" where
  "worktrees_root root = join_path [root, ''.verdi'', ''data'', ''worktrees'']"

definition execution_root :: "string \<Rightarrow> string" where
  "execution_root root = join_path [root, ''.verdi'', ''data'', ''execution'']"

record surveyed_worktree =
  sw_path :: string
  sw_branch :: string
  sw_commit :: string
  sw_managed :: bool
  sw_merged :: bool
  sw_dirty :: bool
  sw_merged_unresolved :: bool
  sw_dirty_unresolved :: bool
  sw_reason :: string

definition is_under_root :: "string \<Rightarrow> string \<Rightarrow> bool" where
  "is_under_root path root =
     (case rel_segs root path of None \<Rightarrow> False | Some segs \<Rightarrow> segs \<noteq> [] \<and> hd segs \<noteq> ''..'')"

definition unresolved_reason :: "worktree_entry \<Rightarrow> string \<Rightarrow> string" where
  "unresolved_reason e fallback =
     (if we_prunable e then (if we_reason e \<noteq> '''' then ''prunable: '' @ we_reason e else ''prunable'') else fallback)"

definition survey_worktree :: "git_view \<Rightarrow> log \<Rightarrow> string \<Rightarrow> string \<Rightarrow> worktree_entry \<Rightarrow> surveyed_worktree" where
  "survey_worktree w l managed_root tip e =
     (let wt = \<lparr>sw_path = we_path e, sw_branch = we_branch e, sw_commit = we_head e,
               sw_managed = is_under_root (clean_path (we_path e)) managed_root, sw_merged = False, sw_dirty = False,
               sw_merged_unresolved = False, sw_dirty_unresolved = False, sw_reason = ''''\<rparr>;
          wt1 = (case wg_ancestor w l (we_head e) tip of
                   Inl err \<Rightarrow> wt\<lparr>sw_merged_unresolved := True, sw_reason := unresolved_reason e (''merge state: '' @ err)\<rparr>
                 | Inr m \<Rightarrow> wt\<lparr>sw_merged := m\<rparr>) in
      case status_dirty w l (we_path e) of
        Inl err \<Rightarrow> wt1\<lparr>sw_dirty_unresolved := True, sw_reason := unresolved_reason e (''clean state: '' @ err)\<rparr>
      | Inr d \<Rightarrow> wt1\<lparr>sw_dirty := d\<rparr>)"

datatype survey_error =
    SurveyDefault string | SurveyBranches string | SurveyTip string string | SurveyMerged string string
  | SurveyList string | SurveyPrimary string

definition looks_primary :: "git_view \<Rightarrow> log \<Rightarrow> worktree_entry \<Rightarrow> bool" where
  "looks_primary w l e \<longleftrightarrow> wg_git_dir w l (join_path [we_path e, ''.git''])"

definition managed_root_of :: "git_view \<Rightarrow> log \<Rightarrow> string \<Rightarrow> string" where
  "managed_root_of w l root =
     clean_path (worktrees_root (case wg_real w l root of Some r \<Rightarrow> r | None \<Rightarrow> root))"

definition scan_worktrees :: "git_view \<Rightarrow> log \<Rightarrow> string \<Rightarrow> string \<Rightarrow> survey_error + surveyed_worktree list" where
  "scan_worktrees w l root tip =
     (case wg_list w l of
        Inl e \<Rightarrow> Inl (SurveyList e)
      | Inr out \<Rightarrow>
          (case parse_worktree_list out of
             [] \<Rightarrow> Inr []
           | primary # es \<Rightarrow>
               if \<not> looks_primary w l primary then Inl (SurveyPrimary (we_path primary))
               else Inr (sort_key sw_path (map (survey_worktree w l (managed_root_of w l root) tip) es))))"

fun merged_branches :: "git_view \<Rightarrow> log \<Rightarrow> string \<Rightarrow> string \<Rightarrow> string list \<Rightarrow> survey_error + string list" where
  "merged_branches w l dflt tip [] = Inr []"
| "merged_branches w l dflt tip (b # bs) =
     (if b = dflt then merged_branches w l dflt tip bs
      else
        (case wg_rev w l b of
           Inl e \<Rightarrow> Inl (SurveyTip b e)
         | Inr bt \<Rightarrow>
             (case wg_ancestor w l bt tip of
                Inl e \<Rightarrow> Inl (SurveyMerged b e)
              | Inr ok \<Rightarrow>
                  (case merged_branches w l dflt tip bs of
                     Inl e \<Rightarrow> Inl e
                   | Inr ms \<Rightarrow> Inr (if ok then b # ms else ms)))))"

definition scan_merged_branches :: "git_view \<Rightarrow> log \<Rightarrow> string \<Rightarrow> string \<Rightarrow> survey_error + string list" where
  "scan_merged_branches w l dflt tip =
     (case local_branches w l of
        Inl e \<Rightarrow> Inl (SurveyBranches e)
      | Inr bs \<Rightarrow> (case merged_branches w l dflt tip bs of Inl e \<Rightarrow> Inl e | Inr ms \<Rightarrow> Inr (sort ms)))"

section \<open>The plan\<close>

record reclaim_unit =
  ru_branch :: string
  ru_worktree :: string

definition has_worktree :: "reclaim_unit \<Rightarrow> bool" where
  "has_worktree u \<longleftrightarrow> ru_worktree u \<noteq> ''''"

datatype kept_reason =
    KeptUnresolvedState | KeptDefaultBranch | KeptUnmerged | KeptDirty | KeptDetached | KeptManaged | KeptInvoking

record plan_item =
  pi_unit :: reclaim_unit
  pi_eligible :: bool
  pi_reason :: kept_reason
  pi_detail :: string

definition looks_managed_anywhere :: "string \<Rightarrow> bool" where
  "looks_managed_anywhere p \<longleftrightarrow> p \<noteq> '''' \<and> contains_str (clean_path p) (''/'' @ worktrees_root '''' @ ''/'')"

definition looks_execution_anywhere :: "string \<Rightarrow> bool" where
  "looks_execution_anywhere p \<longleftrightarrow> p \<noteq> '''' \<and> contains_str (clean_path p) (''/'' @ execution_root '''' @ ''/'')"

definition canonical_path :: "git_view \<Rightarrow> log \<Rightarrow> string \<Rightarrow> string" where
  "canonical_path w l p =
     (if p = '''' then '''' else (case wg_real w l p of Some r \<Rightarrow> clean_path r | None \<Rightarrow> clean_path p))"

definition classify_worktree_row ::
  "git_view \<Rightarrow> log \<Rightarrow> surveyed_worktree \<Rightarrow> string \<Rightarrow> string \<Rightarrow> bool \<times> kept_reason \<times> string" where
  "classify_worktree_row w l wt invoking_root dflt =
     (if sw_merged_unresolved wt \<or> sw_dirty_unresolved wt then (False, KeptUnresolvedState, sw_reason wt)
      else if dflt \<noteq> '''' \<and> sw_branch wt = dflt then (False, KeptDefaultBranch, '''')
      else if \<not> sw_merged wt then (False, KeptUnmerged, '''')
      else if sw_dirty wt then (False, KeptDirty, '''')
      else if sw_branch wt = '''' then (False, KeptDetached, '''')
      else if sw_managed wt \<or> looks_managed_anywhere (sw_path wt) \<or> looks_execution_anywhere (sw_path wt)
        then (False, KeptManaged, '''')
      else if canonical_path w l (sw_path wt) = invoking_root then (False, KeptInvoking, '''')
      else (True, KeptUnresolvedState, ''''))"

definition classify_branch_only_row :: "string \<Rightarrow> string \<Rightarrow> string \<Rightarrow> bool \<times> kept_reason" where
  "classify_branch_only_row name invoking dflt =
     (if dflt \<noteq> '''' \<and> name = dflt then (False, KeptDefaultBranch)
      else if name = invoking then (False, KeptInvoking)
      else (True, KeptUnresolvedState))"

definition worktree_item :: "git_view \<Rightarrow> log \<Rightarrow> string \<Rightarrow> string \<Rightarrow> surveyed_worktree \<Rightarrow> plan_item" where
  "worktree_item w l invoking_root dflt wt =
     (case classify_worktree_row w l wt invoking_root dflt of
        (ok, reason, detail) \<Rightarrow>
          \<lparr>pi_unit = \<lparr>ru_branch = sw_branch wt, ru_worktree = sw_path wt\<rparr>,
           pi_eligible = ok, pi_reason = reason, pi_detail = detail\<rparr>)"

definition branch_item :: "string \<Rightarrow> string \<Rightarrow> string \<Rightarrow> plan_item" where
  "branch_item invoking dflt name =
     (case classify_branch_only_row name invoking dflt of
        (ok, reason) \<Rightarrow>
          \<lparr>pi_unit = \<lparr>ru_branch = name, ru_worktree = ''''\<rparr>, pi_eligible = ok, pi_reason = reason, pi_detail = ''''\<rparr>)"

definition compute_plan ::
  "git_view \<Rightarrow> log \<Rightarrow> surveyed_worktree list \<Rightarrow> string list \<Rightarrow> string \<Rightarrow> string \<Rightarrow> string \<Rightarrow> plan_item list" where
  "compute_plan w l wts merged invoking_root invoking_branch dflt =
     map (worktree_item w l (canonical_path w l invoking_root) dflt) wts
     @ map (branch_item invoking_branch dflt)
         (filter (\<lambda>name. \<not> (name \<noteq> '''' \<and> name \<in> sw_branch ` set wts)) merged)"

section \<open>Carrying the plan out\<close>

datatype row_kind = RowEligible | RowKept | RowReclaimed | RowRefused | RowPartial

record reclaim_row =
  rr_unit :: reclaim_unit
  rr_kind :: row_kind
  rr_reason :: kept_reason
  rr_detail :: string
  rr_tip :: string

definition row :: "reclaim_unit \<Rightarrow> row_kind \<Rightarrow> string \<Rightarrow> string \<Rightarrow> reclaim_row" where
  "row u k detail tip = \<lparr>rr_unit = u, rr_kind = k, rr_reason = KeptUnresolvedState, rr_detail = detail, rr_tip = tip\<rparr>"

definition kept_row :: "plan_item \<Rightarrow> reclaim_row" where
  "kept_row it = \<lparr>rr_unit = pi_unit it, rr_kind = RowKept, rr_reason = pi_reason it, rr_detail = pi_detail it, rr_tip = ''''\<rparr>"

definition dry_run_rows :: "plan_item list \<Rightarrow> reclaim_row list" where
  "dry_run_rows plan = map (\<lambda>it. if pi_eligible it then row (pi_unit it) RowEligible '''' '''' else kept_row it) plan"

definition apply_branch :: "git_view \<Rightarrow> git_hand \<Rightarrow> reclaim_unit \<Rightarrow> log \<Rightarrow> reclaim_row \<times> log" where
  "apply_branch w h u l =
     (case delete_merged_branch w h l (ru_branch u) of
        (Inl e, l1) \<Rightarrow> (row u (if has_worktree u then RowPartial else RowRefused) e '''', l1)
      | (Inr tip, l1) \<Rightarrow> (row u RowReclaimed '''' tip, l1))"

definition apply_one :: "git_view \<Rightarrow> git_hand \<Rightarrow> plan_item \<Rightarrow> log \<Rightarrow> reclaim_row \<times> log" where
  "apply_one w h it l =
     (if \<not> pi_eligible it then (kept_row it, l)
      else if has_worktree (pi_unit it) then
        (case remove_worktree h l (ru_worktree (pi_unit it)) of
           (Some e, l1) \<Rightarrow> (row (pi_unit it) RowRefused e '''', l1)
         | (None, l1) \<Rightarrow> apply_branch w h (pi_unit it) l1)
      else apply_branch w h (pi_unit it) l)"

fun apply_plan :: "git_view \<Rightarrow> git_hand \<Rightarrow> plan_item list \<Rightarrow> log \<Rightarrow> reclaim_row list \<times> log" where
  "apply_plan w h [] l = ([], l)"
| "apply_plan w h (it # its) l =
     (case apply_one w h it l of
        (r, l1) \<Rightarrow> (case apply_plan w h its l1 of (rs, l2) \<Rightarrow> (r # rs, l2)))"

datatype gc_error =
    GcSurvey survey_error | GcNoDefault | GcUnproven "string list" | GcCurrent string
  | GcDir string | GcEligibility string string | GcDirty string string | GcPeek string string
  | GcAcquire string string | GcRemove string string

text \<open>The unmanaged slice. The specs whose state the scan could not prove are the argument
  \<open>unproven\<close>.\<close>

definition run_gc_unmanaged ::
  "git_view \<Rightarrow> git_hand \<Rightarrow> string \<Rightarrow> string \<Rightarrow> string list \<Rightarrow> bool \<Rightarrow> log \<Rightarrow> (gc_error + reclaim_row list) \<times> log" where
  "run_gc_unmanaged w h root dflt unproven apply_it l =
     (if dflt = '''' then (Inl GcNoDefault, l)
      else
        (case wg_rev w l dflt of
           Inl e \<Rightarrow> (Inl (GcSurvey (SurveyDefault e)), l)
         | Inr tip \<Rightarrow>
             (case scan_merged_branches w l dflt tip of
                Inl e \<Rightarrow> (Inl (GcSurvey e), l)
              | Inr merged \<Rightarrow>
                  (case scan_worktrees w l root tip of
                     Inl e \<Rightarrow> (Inl (GcSurvey e), l)
                   | Inr wts \<Rightarrow>
                       if unproven \<noteq> [] then (Inl (GcUnproven unproven), l)
                       else
                         (case wg_current w l of
                            Inl e \<Rightarrow> (Inl (GcCurrent e), l)
                          | Inr current \<Rightarrow>
                              (let plan = compute_plan w l wts merged root current dflt in
                               if apply_it then (case apply_plan w h plan l of (rows, l1) \<Rightarrow> (Inr rows, l1))
                               else (Inr (dry_run_rows plan), l)))))))"

section \<open>The managed slice\<close>

definition designPrefix :: string where "designPrefix = ''design/''"

definition worktree_name :: "string \<Rightarrow> string" where
  "worktree_name b = trim_prefix b designPrefix"

definition branch_for_worktree_name :: "string \<Rightarrow> string" where
  "branch_for_worktree_name name = designPrefix @ name"

definition lock_path :: "string \<Rightarrow> string" where
  "lock_path p = p @ ''.lock''"

datatype gc_decision = KeepNotEligible | KeepDirty | KeepLocked | ReclaimIt

definition decide_reclaim :: "bool \<Rightarrow> bool \<Rightarrow> bool \<Rightarrow> gc_decision" where
  "decide_reclaim eligible dirty locked =
     (if \<not> eligible then KeepNotEligible else if dirty then KeepDirty else if locked then KeepLocked else ReclaimIt)"

record gc_result =
  gr_name :: string
  gr_branch :: string
  gr_path :: string
  gr_decision :: gc_decision
  gr_holder :: "int option"

definition reclaim_eligible :: "git_view \<Rightarrow> log \<Rightarrow> string \<Rightarrow> string \<Rightarrow> string + bool" where
  "reclaim_eligible w l branch dflt =
     (case wg_has_local w l branch of
        Inl e \<Rightarrow> Inl e
      | Inr here \<Rightarrow>
          if \<not> here then Inr True
          else if dflt = '''' then Inr False
          else
            (case wg_rev w l branch of
               Inl e \<Rightarrow> Inl e
             | Inr tip \<Rightarrow> (case wg_rev w l dflt of Inl e \<Rightarrow> Inl e | Inr dtip \<Rightarrow> wg_ancestor w l tip dtip)))"

text \<open>Whether the worktree is dirty and, when it is clean, who holds its lock.\<close>

definition gc_guards :: "git_view \<Rightarrow> log \<Rightarrow> string \<Rightarrow> string \<Rightarrow> bool \<Rightarrow> gc_error + bool \<times> int option" where
  "gc_guards w l name p eligible =
     (if \<not> eligible then Inr (False, None)
      else
        (case status_dirty w l p of
           Inl e \<Rightarrow> Inl (GcDirty name e)
         | Inr True \<Rightarrow> Inr (True, None)
         | Inr False \<Rightarrow>
             (case wg_peek w l (lock_path p) of
                Inl e \<Rightarrow> Inl (GcPeek name e) | Inr holder \<Rightarrow> Inr (False, holder))))"

text \<open>The one removal, between the acquisition and the release of the lock.\<close>

definition locked_remove :: "git_hand \<Rightarrow> gc_result \<Rightarrow> log \<Rightarrow> (gc_error + gc_result) \<times> log" where
  "locked_remove h res l =
     (case wh_acquire h l (lock_path (gr_path res)) of
        LockError e \<Rightarrow> (Inl (GcAcquire (gr_name res) e), l @ [(AcquireLock (lock_path (gr_path res)), False)])
      | LockHeld pid \<Rightarrow>
          (Inr (res\<lparr>gr_decision := KeepLocked, gr_holder := Some pid\<rparr>), l @ [(AcquireLock (lock_path (gr_path res)), False)])
      | LockTaken \<Rightarrow>
          (case remove_worktree h (l @ [(AcquireLock (lock_path (gr_path res)), True)]) (gr_path res) of
             (failed, l1) \<Rightarrow>
               (case failed of Some e \<Rightarrow> Inl (GcRemove (gr_name res) e) | None \<Rightarrow> Inr res,
                l1 @ [(ReleaseLock (lock_path (gr_path res)), True)])))"

definition gc_one :: "git_view \<Rightarrow> git_hand \<Rightarrow> string \<Rightarrow> string \<Rightarrow> string \<Rightarrow> log \<Rightarrow> (gc_error + gc_result) \<times> log" where
  "gc_one w h wt_root dflt name l =
     (let branch = branch_for_worktree_name name; p = join_path [wt_root, name] in
      case reclaim_eligible w l branch dflt of
        Inl e \<Rightarrow> (Inl (GcEligibility name e), l)
      | Inr eligible \<Rightarrow>
          (case gc_guards w l name p eligible of
             Inl e \<Rightarrow> (Inl e, l)
           | Inr (dirty, holder) \<Rightarrow>
               (let d = decide_reclaim eligible dirty (holder \<noteq> None);
                    res = \<lparr>gr_name = name, gr_branch = branch, gr_path = p, gr_decision = d,
                           gr_holder = (if d = KeepLocked then holder else None)\<rparr> in
                if d \<noteq> ReclaimIt then (Inr res, l) else locked_remove h res l)))"

fun gc_each :: "git_view \<Rightarrow> git_hand \<Rightarrow> string \<Rightarrow> string \<Rightarrow> string list \<Rightarrow> log \<Rightarrow> (gc_error + gc_result list) \<times> log" where
  "gc_each w h wt_root dflt [] l = (Inr [], l)"
| "gc_each w h wt_root dflt (name # names) l =
     (case gc_one w h wt_root dflt name l of
        (Inl e, l1) \<Rightarrow> (Inl e, l1)
      | (Inr r, l1) \<Rightarrow>
          (case gc_each w h wt_root dflt names l1 of
             (Inl e, l2) \<Rightarrow> (Inl e, l2) | (Inr rs, l2) \<Rightarrow> (Inr (r # rs), l2)))"

definition managed_gc :: "git_view \<Rightarrow> git_hand \<Rightarrow> string \<Rightarrow> string \<Rightarrow> log \<Rightarrow> (gc_error + gc_result list) \<times> log" where
  "managed_gc w h root dflt l =
     (case wg_dir w l (worktrees_root root) of
        DirMissing \<Rightarrow> (Inr [], l)
      | DirError e \<Rightarrow> (Inl (GcDir e), l)
      | DirEntries es \<Rightarrow>
          (case gc_each w h (worktrees_root root) dflt (map fst (filter snd es)) l of
             (Inl e, l1) \<Rightarrow> (Inl e, l1) | (Inr rs, l1) \<Rightarrow> (Inr (sort_key gr_name rs), l1)))"

section \<open>What a plan is made of\<close>

text \<open>A linked worktree the sweep may remove: its commit is merged, it is clean, it is on a
  branch other than the default one, no checkout manages it, and it is not the one the
  command runs in.\<close>

definition spent_worktree :: "git_view \<Rightarrow> log \<Rightarrow> string \<Rightarrow> string \<Rightarrow> string \<Rightarrow> worktree_entry \<Rightarrow> bool" where
  "spent_worktree w l root dflt tip e \<longleftrightarrow>
     wg_ancestor w l (we_head e) tip = Inr True \<and> status_dirty w l (we_path e) = Inr False
     \<and> we_branch e \<noteq> '''' \<and> we_branch e \<noteq> dflt
     \<and> \<not> is_under_root (clean_path (we_path e)) (managed_root_of w l root)
     \<and> \<not> looks_managed_anywhere (we_path e) \<and> \<not> looks_execution_anywhere (we_path e)
     \<and> canonical_path w l (we_path e) \<noteq> canonical_path w l root"

text \<open>A local branch the sweep may delete by itself; the worktrees it looks at are the linked ones.\<close>

definition spent_branch :: "git_view \<Rightarrow> log \<Rightarrow> string \<Rightarrow> string \<Rightarrow> worktree_entry list \<Rightarrow> string \<Rightarrow> bool" where
  "spent_branch w l dflt tip linked b \<longleftrightarrow>
     (\<exists>bs bt. local_branches w l = Inr bs \<and> b \<in> set bs \<and> wg_rev w l b = Inr bt \<and> wg_ancestor w l bt tip = Inr True)
     \<and> b \<noteq> dflt \<and> wg_current w l \<noteq> Inr b \<and> b \<notin> we_branch ` set linked"

lemma survey_fields [simp]:
  "sw_path (survey_worktree w l m tip e) = we_path e"
  "sw_branch (survey_worktree w l m tip e) = we_branch e"
  "sw_managed (survey_worktree w l m tip e) = is_under_root (clean_path (we_path e)) m"
  by (simp_all add: survey_worktree_def Let_def split: sum.splits)

lemma survey_facts:
  "\<not> sw_merged_unresolved (survey_worktree w l m tip e) \<and> sw_merged (survey_worktree w l m tip e)
     \<longleftrightarrow> wg_ancestor w l (we_head e) tip = Inr True"
  "\<not> sw_dirty_unresolved (survey_worktree w l m tip e) \<and> \<not> sw_dirty (survey_worktree w l m tip e)
     \<longleftrightarrow> status_dirty w l (we_path e) = Inr False"
  by (auto simp: survey_worktree_def Let_def split: sum.splits)

lemma worktree_item_unit [simp]:
  "pi_unit (worktree_item w l r d wt) = \<lparr>ru_branch = sw_branch wt, ru_worktree = sw_path wt\<rparr>"
  by (simp add: worktree_item_def split: prod.split)

lemma branch_item_unit [simp]: "pi_unit (branch_item c d b) = \<lparr>ru_branch = b, ru_worktree = ''''\<rparr>"
  by (simp add: branch_item_def split: prod.split)

lemma worktree_item_eligible:
  assumes "dflt \<noteq> ''''"
  shows "pi_eligible (worktree_item w l (canonical_path w l root) dflt (survey_worktree w l (managed_root_of w l root) tip e))
     \<longleftrightarrow> spent_worktree w l root dflt tip e"
proof -
  let ?s = "survey_worktree w l (managed_root_of w l root) tip e"
  have "pi_eligible (worktree_item w l (canonical_path w l root) dflt ?s) \<longleftrightarrow>
      (\<not> sw_merged_unresolved ?s \<and> sw_merged ?s) \<and> (\<not> sw_dirty_unresolved ?s \<and> \<not> sw_dirty ?s)
      \<and> we_branch e \<noteq> dflt \<and> we_branch e \<noteq> '''' \<and> \<not> is_under_root (clean_path (we_path e)) (managed_root_of w l root)
      \<and> \<not> looks_managed_anywhere (we_path e) \<and> \<not> looks_execution_anywhere (we_path e)
      \<and> canonical_path w l (we_path e) \<noteq> canonical_path w l root"
    using assms by (auto simp: worktree_item_def classify_worktree_row_def)
  then show ?thesis unfolding survey_facts by (auto simp: spent_worktree_def)
qed

lemma branch_item_eligible: "dflt \<noteq> '''' \<Longrightarrow> pi_eligible (branch_item c dflt b) \<longleftrightarrow> b \<noteq> dflt \<and> b \<noteq> c"
  by (simp add: branch_item_def classify_branch_only_row_def)

lemma merged_branches_member:
  "merged_branches w l dflt tip bs = Inr ms \<Longrightarrow> b \<in> set ms \<Longrightarrow>
     b \<in> set bs \<and> b \<noteq> dflt \<and> (\<exists>bt. wg_rev w l b = Inr bt \<and> wg_ancestor w l bt tip = Inr True)"
  by (induction bs arbitrary: ms) (auto split: if_splits sum.splits)

text \<open>The eligible items of the plan.\<close>

definition sound_item :: "git_view \<Rightarrow> string \<Rightarrow> string \<Rightarrow> string \<Rightarrow> worktree_entry list \<Rightarrow> plan_item \<Rightarrow> bool" where
  "sound_item w root dflt tip linked it \<longleftrightarrow>
     (\<exists>e \<in> set linked. pi_unit it = \<lparr>ru_branch = we_branch e, ru_worktree = we_path e\<rparr>
        \<and> spent_worktree w [] root dflt tip e)
     \<or> (ru_worktree (pi_unit it) = '''' \<and> spent_branch w [] dflt tip linked (ru_branch (pi_unit it)))"

lemma plan_sound:
  assumes merged: "scan_merged_branches w [] dflt tip = Inr merged"
    and wts: "scan_worktrees w [] root tip = Inr wts" "wg_list w [] = Inr out"
    and d: "dflt \<noteq> ''''" and cur: "wg_current w [] = Inr current"
    and it: "it \<in> set (compute_plan w [] wts merged root current dflt)" "pi_eligible it"
  shows "sound_item w root dflt tip (tl (parse_worktree_list out)) it"
proof -
  let ?linked = "tl (parse_worktree_list out)"
  have set_wts: "set wts = survey_worktree w [] (managed_root_of w [] root) tip ` set ?linked"
    using wts by (auto simp: scan_worktrees_def split: list.splits if_splits)
  consider (tree) e where "e \<in> set ?linked"
      "it = worktree_item w [] (canonical_path w [] root) dflt (survey_worktree w [] (managed_root_of w [] root) tip e)"
    | (branch) b where "b \<in> set merged" "\<not> (b \<noteq> '''' \<and> b \<in> sw_branch ` set wts)" "it = branch_item current dflt b"
    using it(1) unfolding compute_plan_def set_append set_map set_filter set_wts by blast
  then show ?thesis
  proof cases
    case tree
    then have "spent_worktree w [] root dflt tip e" using it(2) worktree_item_eligible[OF d] by simp
    then show ?thesis using tree by (auto simp: sound_item_def)
  next
    case branch
    obtain bs where bs: "local_branches w [] = Inr bs" "b \<in> set bs" "b \<noteq> dflt"
      "\<exists>bt. wg_rev w [] b = Inr bt \<and> wg_ancestor w [] bt tip = Inr True"
      using merged branch(1) by (auto simp: scan_merged_branches_def split: sum.splits dest: merged_branches_member)
    have "b \<noteq> ''''" using bs(1,2) by (auto simp: local_branches_def split: sum.splits)
    then have "b \<notin> we_branch ` set ?linked" using branch(2) unfolding set_wts image_image survey_fields by blast
    then have "spent_branch w [] dflt tip ?linked b"
      using bs it(2) branch(3) branch_item_eligible[OF d] cur by (auto simp: spent_branch_def)
    then show ?thesis using branch(3) by (simp add: sound_item_def)
  qed
qed

section \<open>What a run does\<close>

text \<open>What a row says was removed.\<close>

definition row_effects :: "reclaim_row \<Rightarrow> mutation list" where
  "row_effects r =
     (case rr_kind r of
        RowReclaimed \<Rightarrow>
          (if has_worktree (rr_unit r) then [RemoveWorktree (ru_worktree (rr_unit r))] else [])
          @ [DeleteBranch (ru_branch (rr_unit r))]
      | RowPartial \<Rightarrow> [RemoveWorktree (ru_worktree (rr_unit r))]
      | _ \<Rightarrow> [])"

definition effects :: "log \<Rightarrow> mutation list" where
  "effects l = map fst (filter snd l)"

lemma effects_simps [simp]:
  "effects [] = []" "effects (x # l) = (if snd x then fst x # effects l else effects l)"
  "effects (l @ l') = effects l @ effects l'"
  by (simp_all add: effects_def)

text \<open>The commands issued for one unit, each with its outcome.\<close>

definition unit_commands :: "plan_item \<Rightarrow> log set" where
  "unit_commands it =
     (if \<not> pi_eligible it then {[]}
      else
        (let u = pi_unit it; del = \<lambda>ok. (DeleteBranch (ru_branch u), ok) in
         if has_worktree u then
           (let rm = \<lambda>ok. (RemoveWorktree (ru_worktree u), ok) in
            {[rm False], [rm True], [rm True, del True], [rm True, del False]})
         else {[], [del True], [del False]}))"

lemma apply_branch_effects:
  assumes "apply_branch w h u l = (r, l')"
  shows "\<exists>ops \<in> {[], [(DeleteBranch (ru_branch u), True)], [(DeleteBranch (ru_branch u), False)]}.
     l' = l @ ops \<and> row_effects r = (if has_worktree u then [RemoveWorktree (ru_worktree u)] else []) @ effects ops
     \<and> rr_unit r = u \<and> rr_kind r \<noteq> RowKept"
  using assms by (auto simp: apply_branch_def delete_merged_branch_def row_effects_def row_def split: sum.splits option.splits)

lemma apply_one_effects:
  assumes "apply_one w h it l = (r, l')"
  shows "\<exists>ops \<in> unit_commands it. l' = l @ ops \<and> row_effects r = effects ops \<and> rr_unit r = pi_unit it
     \<and> (if pi_eligible it then rr_kind r \<noteq> RowKept else r = kept_row it)"
proof (cases "pi_eligible it")
  case False
  then show ?thesis using assms by (auto simp: apply_one_def unit_commands_def row_effects_def kept_row_def)
next
  case eligible: True
  show ?thesis
  proof (cases "has_worktree (pi_unit it)")
    case False
    then have "apply_branch w h (pi_unit it) l = (r, l')" using assms eligible by (simp add: apply_one_def)
    from apply_branch_effects[OF this] show ?thesis using eligible False by (auto simp: unit_commands_def Let_def)
  next
    case tree: True
    show ?thesis
    proof (cases "wh_remove h l (ru_worktree (pi_unit it))")
      case (Some e)
      then show ?thesis using assms eligible tree
        by (auto simp: apply_one_def remove_worktree_def unit_commands_def Let_def row_def row_effects_def)
    next
      case None
      then have "apply_branch w h (pi_unit it) (l @ [(RemoveWorktree (ru_worktree (pi_unit it)), True)]) = (r, l')"
        using assms eligible tree by (simp add: apply_one_def remove_worktree_def)
      from apply_branch_effects[OF this] show ?thesis using eligible tree by (auto simp: unit_commands_def Let_def)
    qed
  qed
qed

text \<open>A row of the dry run and the row of the run for the same unit.\<close>

definition agrees :: "reclaim_row \<Rightarrow> reclaim_row \<Rightarrow> bool" where
  "agrees dry r \<longleftrightarrow> rr_unit dry = rr_unit r \<and> (if rr_kind dry = RowKept then r = dry else rr_kind r \<noteq> RowKept)"

lemma apply_plan_effects:
  assumes "apply_plan w h plan l = (rows, l')"
  shows "\<exists>opss. list_all2 (\<lambda>it ops. ops \<in> unit_commands it) plan opss \<and> l' = l @ concat opss
     \<and> effects (concat opss) = concat (map row_effects rows) \<and> list_all2 agrees (dry_run_rows plan) rows"
  using assms
proof (induction plan arbitrary: l rows)
  case Nil
  then show ?case by (simp add: dry_run_rows_def)
next
  case (Cons it plan)
  obtain r l1 rs where r: "apply_one w h it l = (r, l1)" "apply_plan w h plan l1 = (rs, l')" "rows = r # rs"
    using Cons.prems by (auto split: prod.splits)
  obtain ops where ops: "ops \<in> unit_commands it" "l1 = l @ ops" "row_effects r = effects ops" "rr_unit r = pi_unit it"
    "if pi_eligible it then rr_kind r \<noteq> RowKept else r = kept_row it" using apply_one_effects[OF r(1)] by blast
  obtain opss where opss: "list_all2 (\<lambda>it ops. ops \<in> unit_commands it) plan opss" "l' = l1 @ concat opss"
    "effects (concat opss) = concat (map row_effects rs)" "list_all2 agrees (dry_run_rows plan) rs"
    using Cons.IH[OF r(2)] by blast
  have "agrees (if pi_eligible it then row (pi_unit it) RowEligible '''' '''' else kept_row it) r"
    using ops(4,5) by (auto simp: agrees_def row_def kept_row_def split: if_splits)
  then have "list_all2 agrees (dry_run_rows (it # plan)) rows"
    using opss(4) r(3) by (simp add: dry_run_rows_def)
  then show ?case using ops opss r(3) by (intro exI[of _ "ops # opss"]) simp
qed

lemma unit_command_in:
  assumes "ops \<in> unit_commands it" "ops = pre @ (m, ok) # post"
  shows "pi_eligible it
    \<and> (m = RemoveWorktree (ru_worktree (pi_unit it)) \<and> has_worktree (pi_unit it)
       \<or> m = DeleteBranch (ru_branch (pi_unit it))
         \<and> (has_worktree (pi_unit it) \<longrightarrow> (RemoveWorktree (ru_worktree (pi_unit it)), True) \<in> set pre))"
proof -
  have "ops \<noteq> []" using assms(2) by simp
  then show ?thesis using assms
    by (auto simp: unit_commands_def Let_def append_eq_Cons_conv split: if_splits)
qed

text \<open>Every command of the run belongs to an eligible unit.\<close>

lemma concat_split:
  assumes "concat xss = pre @ x # post"
  shows "\<exists>i p q. i < length xss \<and> xss ! i = p @ x # q \<and> pre = concat (take i xss) @ p
     \<and> post = q @ concat (drop (Suc i) xss)"
  using assms
proof (induction xss arbitrary: pre)
  case (Cons ys yss)
  then obtain us where us: "ys = pre @ us \<and> us @ concat yss = x # post \<or> ys @ us = pre \<and> concat yss = us @ x # post"
    by (auto simp: append_eq_append_conv2)
  show ?case
  proof (cases "ys = pre @ us \<and> us @ concat yss = x # post \<and> us \<noteq> []")
    case True
    then obtain vs where "us = x # vs" by (cases us) auto
    then show ?thesis using True by (intro exI[of _ 0]) auto
  next
    case False
    have "\<exists>us. pre = ys @ us \<and> concat yss = us @ x # post"
    proof (cases "us = []")
      case True
      then show ?thesis using us by auto
    qed (use False us in auto)
    then obtain us' where pre: "pre = ys @ us'" and rest: "concat yss = us' @ x # post" by blast
    obtain i p q where "i < length yss" "yss ! i = p @ x # q" "us' = concat (take i yss) @ p"
      "post = q @ concat (drop (Suc i) yss)" using Cons.IH[OF rest] by blast
    then show ?thesis using pre by (intro exI[of _ "Suc i"]) auto
  qed
qed simp

lemma plan_command:
  assumes cmds: "list_all2 (\<lambda>it ops. ops \<in> unit_commands it) plan opss" and at: "concat opss = pre @ (m, ok) # post"
  shows "\<exists>it \<in> set plan. pi_eligible it
    \<and> (m = RemoveWorktree (ru_worktree (pi_unit it)) \<and> has_worktree (pi_unit it)
       \<or> m = DeleteBranch (ru_branch (pi_unit it))
         \<and> (has_worktree (pi_unit it) \<longrightarrow> (RemoveWorktree (ru_worktree (pi_unit it)), True) \<in> set pre))"
proof -
  obtain i p q where i: "i < length opss" "opss ! i = p @ (m, ok) # q" "pre = concat (take i opss) @ p"
    using concat_split[OF at] by blast
  have "plan ! i \<in> set plan" "opss ! i \<in> unit_commands (plan ! i)"
    using cmds i(1) by (simp_all add: list_all2_conv_all_nth)
  moreover have "set p \<subseteq> set pre" using i(3) by simp
  ultimately show ?thesis using unit_command_in[OF _ i(2)] by blast
qed

text \<open>What the sweep may do, given the listing of the worktrees and the tip of the default branch.\<close>

fun justified ::
  "git_view \<Rightarrow> string \<Rightarrow> string \<Rightarrow> string \<Rightarrow> worktree_entry list \<Rightarrow> log \<Rightarrow> mutation \<Rightarrow> bool" where
  "justified w root dflt tip linked before (RemoveWorktree p) =
     (\<exists>e \<in> set linked. we_path e = p \<and> spent_worktree w [] root dflt tip e)"
| "justified w root dflt tip linked before (DeleteBranch b) =
     ((\<exists>e \<in> set linked. we_branch e = b \<and> spent_worktree w [] root dflt tip e
         \<and> (we_path e \<noteq> '''' \<longrightarrow> (RemoveWorktree (we_path e), True) \<in> set before))
      \<or> spent_branch w [] dflt tip linked b)"
| "justified w root dflt tip linked before _ = False"

lemma run_gc_cases:
  assumes "run_gc_unmanaged w h root dflt unproven apply_it [] = (res, log)"
  shows "(\<exists>e. res = Inl e) \<and> log = []
    \<or> (\<exists>tip merged out wts current rows.
         dflt \<noteq> '''' \<and> unproven = [] \<and> wg_rev w [] dflt = Inr tip \<and> wg_list w [] = Inr out \<and> wg_current w [] = Inr current
         \<and> scan_merged_branches w [] dflt tip = Inr merged \<and> scan_worktrees w [] root tip = Inr wts
         \<and> res = Inr rows
         \<and> (if apply_it then apply_plan w h (compute_plan w [] wts merged root current dflt) [] = (rows, log)
            else rows = dry_run_rows (compute_plan w [] wts merged root current dflt) \<and> log = []))"
proof -
  have "\<exists>out. wg_list w [] = Inr out" if "scan_worktrees w [] root tip = Inr wts" for tip wts
    using that by (auto simp: scan_worktrees_def split: sum.splits)
  then show ?thesis
    using assms by (fastforce simp: run_gc_unmanaged_def Let_def split: if_splits sum.splits prod.splits)
qed

text \<open>C24. Every command the sweep of unmanaged worktrees issues is justified by what it read
  first: it removes only linked worktrees that are merged, clean, on a branch that is not the
  default one, managed by no checkout and not the one it runs in; it deletes only the branch of
  such a worktree, after that worktree is gone, or a merged branch that is not the default one, not
  the current branch of the checkout it runs in and not checked out in a linked worktree; and
  without \<^verbatim>\<open>--apply\<close>, or when a spec's state is unproven, it issues none. (The survey leaves the primary
  checkout out: run from a linked worktree, the sweep asks Git to delete a merged branch the
  primary checkout is on, \<open>asks_for_primary_branch\<close>, and relies on \<^verbatim>\<open>git branch -d\<close> to refuse.)\<close>

theorem gc_removes_only_residue:
  assumes "run_gc_unmanaged w h root dflt unproven apply_it [] = (res, log)"
    and "log = pre @ (m, ok) # post"
  shows "apply_it \<and> unproven = [] \<and> dflt \<noteq> ''''
    \<and> (\<exists>out tip. wg_list w [] = Inr out \<and> wg_rev w [] dflt = Inr tip
         \<and> justified w root dflt tip (tl (parse_worktree_list out)) pre m)"
proof -
  obtain tip merged out wts current rows where run: "dflt \<noteq> ''''" "unproven = []" "wg_rev w [] dflt = Inr tip"
    "wg_list w [] = Inr out" "wg_current w [] = Inr current" "scan_merged_branches w [] dflt tip = Inr merged"
    "scan_worktrees w [] root tip = Inr wts" "apply_it"
    and plan: "apply_plan w h (compute_plan w [] wts merged root current dflt) [] = (rows, log)"
    using run_gc_cases[OF assms(1)] assms(2) by (auto split: if_splits)
  obtain opss where "list_all2 (\<lambda>it ops. ops \<in> unit_commands it) (compute_plan w [] wts merged root current dflt) opss"
    "concat opss = pre @ (m, ok) # post"
    using apply_plan_effects[OF plan] assms(2) by auto
  then obtain it where it: "it \<in> set (compute_plan w [] wts merged root current dflt)" "pi_eligible it"
    "m = RemoveWorktree (ru_worktree (pi_unit it)) \<and> has_worktree (pi_unit it)
       \<or> m = DeleteBranch (ru_branch (pi_unit it))
         \<and> (has_worktree (pi_unit it) \<longrightarrow> (RemoveWorktree (ru_worktree (pi_unit it)), True) \<in> set pre)"
    using plan_command by blast
  have "sound_item w root dflt tip (tl (parse_worktree_list out)) it"
    using plan_sound[OF run(6,7,4,1,5) it(1,2)] .
  then have "justified w root dflt tip (tl (parse_worktree_list out)) pre m"
    using it(3) by (auto simp: sound_item_def has_worktree_def)
  then show ?thesis using run by blast
qed

text \<open>C26. The report of an applied sweep names every worktree and branch that was removed and
  nothing else, in the order of removal, and it keeps exactly the units the dry run keeps, for the
  same reasons.\<close>

theorem gc_report_is_complete:
  assumes "run_gc_unmanaged w h root dflt unproven True [] = (Inr rows, log)"
  shows "effects log = concat (map row_effects rows)
    \<and> (\<exists>dry. run_gc_unmanaged w h root dflt unproven False [] = (Inr dry, []) \<and> list_all2 agrees dry rows)"
proof -
  obtain tip merged out wts current where run: "dflt \<noteq> ''''" "unproven = []" "wg_rev w [] dflt = Inr tip"
    "wg_current w [] = Inr current" "scan_merged_branches w [] dflt tip = Inr merged" "scan_worktrees w [] root tip = Inr wts"
    and plan: "apply_plan w h (compute_plan w [] wts merged root current dflt) [] = (rows, log)"
    using run_gc_cases[OF assms] by (auto split: if_splits)
  have "run_gc_unmanaged w h root dflt unproven False [] = (Inr (dry_run_rows (compute_plan w [] wts merged root current dflt)), [])"
    using run by (simp add: run_gc_unmanaged_def Let_def)
  then show ?thesis using apply_plan_effects[OF plan] by auto
qed

section \<open>The managed slice removes only what is spent\<close>

text \<open>The branch is gone or merged, the worktree is clean and nobody holds its lock.\<close>

definition spent_managed :: "git_view \<Rightarrow> log \<Rightarrow> string \<Rightarrow> string \<Rightarrow> string \<Rightarrow> bool" where
  "spent_managed w l dflt branch p \<longleftrightarrow>
     (wg_has_local w l branch = Inr False
      \<or> wg_has_local w l branch = Inr True \<and> dflt \<noteq> ''''
        \<and> (\<exists>tip dtip. wg_rev w l branch = Inr tip \<and> wg_rev w l dflt = Inr dtip \<and> wg_ancestor w l tip dtip = Inr True))
     \<and> status_dirty w l p = Inr False \<and> wg_peek w l (lock_path p) = Inr None"

lemma reclaim_eligible_iff:
  "reclaim_eligible w l branch dflt = Inr True \<longleftrightarrow>
     wg_has_local w l branch = Inr False
     \<or> wg_has_local w l branch = Inr True \<and> dflt \<noteq> ''''
       \<and> (\<exists>tip dtip. wg_rev w l branch = Inr tip \<and> wg_rev w l dflt = Inr dtip \<and> wg_ancestor w l tip dtip = Inr True)"
  by (auto simp: reclaim_eligible_def split: sum.splits if_splits)

lemma gc_guards_free:
  "gc_guards w l name p True = Inr (False, None) \<longleftrightarrow>
     status_dirty w l p = Inr False \<and> wg_peek w l (lock_path p) = Inr None"
  by (auto simp: gc_guards_def split: sum.splits bool.splits)

text \<open>The commands of one worktree, and whether its result says it was removed.\<close>

definition managed_commands :: "string \<Rightarrow> log \<Rightarrow> bool \<Rightarrow> bool" where
  "managed_commands p ops removed \<longleftrightarrow>
     (ops = [] \<or> ops = [(AcquireLock (lock_path p), False)]) \<and> \<not> removed
     \<or> ops = [(AcquireLock (lock_path p), True), (RemoveWorktree p, removed), (ReleaseLock (lock_path p), True)]"

definition reclaimed :: "gc_error + gc_result \<Rightarrow> bool" where
  "reclaimed r = (case r of Inl _ \<Rightarrow> False | Inr x \<Rightarrow> gr_decision x = ReclaimIt)"

lemma locked_remove_log:
  assumes "locked_remove h r l = (res, l')" "gr_decision r = ReclaimIt"
  shows "\<exists>ops. l' = l @ ops \<and> managed_commands (gr_path r) ops (reclaimed res)
     \<and> (\<forall>x. res = Inr x \<longrightarrow> gr_path x = gr_path r \<and> gr_name x = gr_name r)"
  using assms
  by (auto simp: locked_remove_def remove_worktree_def managed_commands_def reclaimed_def
      split: lock_answer.splits option.splits prod.splits)

lemma gc_one_log:
  assumes "gc_one w h wt_root dflt name l = (res, l')"
  shows "\<exists>ops. l' = l @ ops \<and> managed_commands (join_path [wt_root, name]) ops (reclaimed res)
     \<and> (ops \<noteq> [] \<longrightarrow> spent_managed w l dflt (branch_for_worktree_name name) (join_path [wt_root, name]))
     \<and> (\<forall>x. res = Inr x \<longrightarrow> gr_path x = join_path [wt_root, name] \<and> gr_name x = name)"
proof -
  let ?b = "branch_for_worktree_name name" and ?p = "join_path [wt_root, name]"
  show ?thesis
  proof (cases "reclaim_eligible w l ?b dflt")
    case (Inl e)
    then show ?thesis using assms by (auto simp: gc_one_def managed_commands_def reclaimed_def)
  next
    case (Inr eligible)
    show ?thesis
    proof (cases "gc_guards w l name ?p eligible")
      case (Inl e)
      then show ?thesis using assms \<open>reclaim_eligible w l ?b dflt = Inr eligible\<close>
        by (auto simp: gc_one_def managed_commands_def reclaimed_def)
    next
      case guards: (Inr g)
      obtain dirty holder where g: "g = (dirty, holder)" by (cases g)
      let ?d = "decide_reclaim eligible dirty (holder \<noteq> None)"
      let ?r = "\<lparr>gr_name = name, gr_branch = ?b, gr_path = ?p, gr_decision = ?d, gr_holder = (if ?d = KeepLocked then holder else None)\<rparr>"
      have step: "(if ?d \<noteq> ReclaimIt then (Inr ?r, l) else locked_remove h ?r l) = (res, l')"
        using assms by (simp only: gc_one_def Let_def Inr guards g sum.case prod.case)
      show ?thesis
      proof (cases "?d = ReclaimIt")
        case False
        then show ?thesis using step by (auto simp: managed_commands_def reclaimed_def)
      next
        case True
        then have free: "eligible" "\<not> dirty" "holder = None" by (auto simp: decide_reclaim_def split: if_splits)
        then have "spent_managed w l dflt ?b ?p"
          using Inr guards g gc_guards_free[of w l name ?p] reclaim_eligible_iff[of w l ?b dflt] by (simp add: spent_managed_def)
        then show ?thesis using locked_remove_log[of h ?r l res l'] step True by auto
      qed
    qed
  qed
qed

definition removed :: "log \<Rightarrow> string list" where
  "removed l = concat (map (\<lambda>m. case m of RemoveWorktree p \<Rightarrow> [p] | _ \<Rightarrow> []) (effects l))"

lemma removed_append [simp]: "removed (l @ l') = removed l @ removed l'"
  by (simp add: removed_def)

lemma managed_removed: "managed_commands p ops r \<Longrightarrow> removed ops = (if r then [p] else [])"
  by (auto simp: managed_commands_def removed_def)

lemma gc_each_log:
  assumes "gc_each w h wt_root dflt names l = (res, l')"
  shows "\<exists>opss. l' = l @ concat opss \<and> length opss \<le> length names
     \<and> (\<forall>i < length opss. (\<exists>r. managed_commands (join_path [wt_root, names ! i]) (opss ! i) r)
          \<and> (opss ! i \<noteq> [] \<longrightarrow> spent_managed w (l @ concat (take i opss)) dflt
                (branch_for_worktree_name (names ! i)) (join_path [wt_root, names ! i])))
     \<and> (\<forall>rs. res = Inr rs \<longrightarrow> removed (concat opss) = map gr_path (filter (\<lambda>r. gr_decision r = ReclaimIt) rs)
          \<and> map gr_name rs = names)"
  using assms
proof (induction names arbitrary: l res)
  case Nil
  then show ?case by (auto simp: removed_def)
next
  case (Cons name names)
  obtain r l1 where one: "gc_one w h wt_root dflt name l = (r, l1)" by (cases "gc_one w h wt_root dflt name l")
  obtain ops where ops: "l1 = l @ ops" "managed_commands (join_path [wt_root, name]) ops (reclaimed r)"
    "ops \<noteq> [] \<longrightarrow> spent_managed w l dflt (branch_for_worktree_name name) (join_path [wt_root, name])"
    "\<forall>x. r = Inr x \<longrightarrow> gr_path x = join_path [wt_root, name] \<and> gr_name x = name"
    using gc_one_log[OF one] by blast
  show ?case
  proof (cases r)
    case (Inl e)
    then have "res = Inl e" "l' = l1" using Cons.prems one by auto
    then show ?thesis using ops by (intro exI[of _ "[ops]"]) auto
  next
    case (Inr x)
    obtain rest where rest: "gc_each w h wt_root dflt names l1 = (rest, l')"
      "res = (case rest of Inl e \<Rightarrow> Inl e | Inr rs \<Rightarrow> Inr (x # rs))"
      using Cons.prems one Inr by (auto split: prod.splits sum.splits)
    obtain opss where opss: "l' = l1 @ concat opss" "length opss \<le> length names"
      "\<forall>i < length opss. (\<exists>r. managed_commands (join_path [wt_root, names ! i]) (opss ! i) r)
          \<and> (opss ! i \<noteq> [] \<longrightarrow> spent_managed w (l1 @ concat (take i opss)) dflt
                (branch_for_worktree_name (names ! i)) (join_path [wt_root, names ! i]))"
      "\<forall>rs. rest = Inr rs \<longrightarrow> removed (concat opss) = map gr_path (filter (\<lambda>r. gr_decision r = ReclaimIt) rs)
          \<and> map gr_name rs = names" using Cons.IH[OF rest(1)] by blast
    have "(\<exists>r. managed_commands (join_path [wt_root, (name # names) ! i]) ((ops # opss) ! i) r)
          \<and> ((ops # opss) ! i \<noteq> [] \<longrightarrow> spent_managed w (l @ concat (take i (ops # opss))) dflt
                (branch_for_worktree_name ((name # names) ! i)) (join_path [wt_root, (name # names) ! i]))"
      if "i < length (ops # opss)" for i
    proof (cases i)
      case 0
      then show ?thesis using ops(2,3) by auto
    next
      case (Suc j)
      then show ?thesis using opss(3) that ops(1) by auto
    qed
    moreover have "removed (concat (ops # opss)) = map gr_path (filter (\<lambda>r. gr_decision r = ReclaimIt) rs) \<and> map gr_name rs = name # names"
      if "res = Inr rs" for rs
      using that rest(2) opss(4) ops(4) managed_removed[OF ops(2)] Inr by (auto simp: reclaimed_def split: sum.splits)
    ultimately show ?thesis using opss(1,2) ops(1) by (intro exI[of _ "ops # opss"]) auto
  qed
qed

lemma managed_commands_at:
  assumes "managed_commands p ops r" "ops = pre @ (m, ok) # post"
  shows "m \<noteq> DeleteBranch b \<and> (\<forall>q. m = RemoveWorktree q \<longrightarrow>
     q = p \<and> pre = [(AcquireLock (lock_path p), True)] \<and> post = [(ReleaseLock (lock_path p), True)])"
  using assms by (auto simp: managed_commands_def append_eq_Cons_conv)

lemma managed_gc_each:
  assumes "managed_gc w h root dflt [] = (res, log)" "log \<noteq> [] \<or> (\<exists>rs. res = Inr rs)"
  shows "\<exists>es res1. (wg_dir w [] (worktrees_root root) = DirEntries es \<or> wg_dir w [] (worktrees_root root) = DirMissing \<and> es = [])
     \<and> gc_each w h (worktrees_root root) dflt (map fst (filter snd es)) [] = (res1, log)
     \<and> (\<forall>rs. res = Inr rs \<longrightarrow> (\<exists>rs1. res1 = Inr rs1 \<and> rs = sort_key gr_name rs1))"
  using assms by (auto simp: managed_gc_def split: dir_answer.splits prod.splits sum.splits)

text \<open>C25. The sweep of managed worktrees deletes no branch and removes a worktree only when it is
  a directory of the managed root, its branch is gone or merged and it is clean and unlocked at
  that moment, and only while it holds that worktree's lock; when it returns, its results say
  reclaimed of exactly the worktrees it removed.\<close>

theorem managed_gc_removes_only_spent:
  assumes "managed_gc w h root dflt [] = (res, log)"
  shows "(log = pre @ (m, ok) # post \<longrightarrow>
       m \<noteq> DeleteBranch b
       \<and> (m = RemoveWorktree p \<longrightarrow>
           (\<exists>es name before after. wg_dir w [] (worktrees_root root) = DirEntries es \<and> (name, True) \<in> set es
              \<and> p = join_path [worktrees_root root, name]
              \<and> spent_managed w before dflt (branch_for_worktree_name name) p
              \<and> pre = before @ [(AcquireLock (lock_path p), True)] \<and> post = (ReleaseLock (lock_path p), True) # after)))
     \<and> (res = Inr rs \<longrightarrow> mset (removed log) = mset (map gr_path (filter (\<lambda>r. gr_decision r = ReclaimIt) rs)))"
proof (intro conjI impI)
  assume at: "log = pre @ (m, ok) # post"
  obtain es res1 where es: "wg_dir w [] (worktrees_root root) = DirEntries es \<or> wg_dir w [] (worktrees_root root) = DirMissing \<and> es = []"
    and each: "gc_each w h (worktrees_root root) dflt (map fst (filter snd es)) [] = (res1, log)"
    using managed_gc_each[OF assms] at by auto
  let ?names = "map fst (filter snd es)" and ?p = "\<lambda>i. join_path [worktrees_root root, map fst (filter snd es) ! i]"
  obtain opss where opss: "log = concat opss" "length opss \<le> length ?names"
    "\<forall>i < length opss. (\<exists>r. managed_commands (?p i) (opss ! i) r)
       \<and> (opss ! i \<noteq> [] \<longrightarrow> spent_managed w (concat (take i opss)) dflt (branch_for_worktree_name (?names ! i)) (?p i))"
    using gc_each_log[OF each] by auto
  obtain i p' q where i: "i < length opss" "opss ! i = p' @ (m, ok) # q" "pre = concat (take i opss) @ p'"
    "post = q @ concat (drop (Suc i) opss)" using concat_split[of opss pre "(m, ok)" post] at opss(1) by metis
  obtain r where cmds: "managed_commands (?p i) (opss ! i) r" using opss(3) i(1) by blast
  show "m \<noteq> DeleteBranch b" using managed_commands_at[OF cmds i(2)] by blast
  assume "m = RemoveWorktree p"
  then have p: "p = ?p i" "p' = [(AcquireLock (lock_path p), True)]" "q = [(ReleaseLock (lock_path p), True)]"
    using managed_commands_at[OF cmds i(2)] by blast+
  have "spent_managed w (concat (take i opss)) dflt (branch_for_worktree_name (?names ! i)) p"
    using opss(3) i(1,2) p(1) by auto
  moreover have "(?names ! i, True) \<in> set es" using i(1) opss(2) nth_mem[of i ?names] by auto
  moreover have "wg_dir w [] (worktrees_root root) = DirEntries es" using es i(1) opss(2) by auto
  ultimately show "\<exists>es name before after. wg_dir w [] (worktrees_root root) = DirEntries es \<and> (name, True) \<in> set es
      \<and> p = join_path [worktrees_root root, name] \<and> spent_managed w before dflt (branch_for_worktree_name name) p
      \<and> pre = before @ [(AcquireLock (lock_path p), True)] \<and> post = (ReleaseLock (lock_path p), True) # after"
    using p(1) i(3,4) unfolding p(2,3) by fastforce
next
  assume "res = Inr rs"
  then obtain es rs1 where each: "gc_each w h (worktrees_root root) dflt (map fst (filter snd es)) [] = (Inr rs1, log)"
    and rs: "rs = sort_key gr_name rs1" using managed_gc_each[OF assms] by blast
  have "removed log = map gr_path (filter (\<lambda>r. gr_decision r = ReclaimIt) rs1)" using gc_each_log[OF each] by auto
  then show "mset (removed log) = mset (map gr_path (filter (\<lambda>r. gr_decision r = ReclaimIt) rs))"
    unfolding rs by (simp add: mset_filter)
qed

section \<open>A sample repository\<close>

text \<open>The primary checkout \<^verbatim>\<open>/r\<close> on \<^verbatim>\<open>main\<close>, a linked worktree on the merged branch \<^verbatim>\<open>feat\<close>, a
  merged branch \<^verbatim>\<open>old\<close>, and a managed worktree \<^verbatim>\<open>a\<close> whose branch is gone.\<close>

definition sample_worktrees :: string where
  "sample_worktrees = join_with [CHR 0x0A]
     [''worktree /r'', ''HEAD c0'', ''branch refs/heads/main'', '''',
      ''worktree /x'', ''HEAD c1'', ''branch refs/heads/feat'', '''']"

definition sample_view :: "(string \<times> bool) list \<Rightarrow> git_view" where
  "sample_view managed =
     \<lparr>wg_list = \<lambda>_. Inr sample_worktrees, wg_git_dir = \<lambda>_ p. p = ''/r/.git'', wg_real = \<lambda>_ p. Some p,
      wg_ancestor = \<lambda>_ a b. Inr (a = ''c1'' \<and> b = ''c0''),
      wg_status = \<lambda>_ p. if p = ''/r/.verdi/data/worktrees/b'' then Inl ''not a repository'' else Inr '''',
      wg_branches = \<lambda>_. Inr (join_with [CHR 0x0A] [''feat'', ''main'', ''old'']),
      wg_has_local = \<lambda>_ b. Inr (b = ''main'' \<or> b = ''feat'' \<or> b = ''old''),
      wg_rev = \<lambda>_ b. Inr (if b = ''main'' then ''c0'' else ''c1''), wg_current = \<lambda>_. Inr ''main'',
      wg_dir = \<lambda>_ _. DirEntries managed, wg_peek = \<lambda>_ _. Inr None\<rparr>"

definition sample_hand :: git_hand where
  "sample_hand = \<lparr>wh_remove = \<lambda>_ _. None, wh_delete = \<lambda>_ b. if b = ''old'' then Some ''refused'' else None,
     wh_acquire = \<lambda>_ _. LockTaken\<rparr>"

definition sample_rows :: "reclaim_row list" where
  "sample_rows =
     [row \<lparr>ru_branch = ''feat'', ru_worktree = ''/x''\<rparr> RowReclaimed '''' ''c1'',
      row \<lparr>ru_branch = ''old'', ru_worktree = ''''\<rparr> RowRefused ''refused'' '''']"

definition sample_log :: log where
  "sample_log = [(RemoveWorktree ''/x'', True), (DeleteBranch ''feat'', True), (DeleteBranch ''old'', False)]"

lemma sample_sweep: "run_gc_unmanaged (sample_view []) sample_hand ''/r'' ''main'' [] True [] = (Inr sample_rows, sample_log)"
  by code_simp

lemma gc_removes_only_residue_witness:
  "\<exists>out tip. justified (sample_view []) ''/r'' ''main'' tip (tl (parse_worktree_list out))
     [(RemoveWorktree ''/x'', True)] (DeleteBranch ''feat'')"
  using gc_removes_only_residue[OF sample_sweep, of "[(RemoveWorktree ''/x'', True)]" "DeleteBranch ''feat''" True "[(DeleteBranch ''old'', False)]"]
  by (simp add: sample_log_def) blast

text \<open>The command runs in the linked worktree \<^verbatim>\<open>/y\<close> while the primary checkout is on the merged branch
  \<^verbatim>\<open>old\<close>: the plan still asks for its deletion.\<close>

definition primary_on_old :: git_view where
  "primary_on_old = (sample_view [])
     \<lparr>wg_list := \<lambda>_. Inr (join_with [CHR 0x0A]
        [''worktree /r'', ''HEAD c1'', ''branch refs/heads/old'', '''',
         ''worktree /y'', ''HEAD c2'', ''branch refs/heads/topic'', '''']),
      wg_current := \<lambda>_. Inr ''topic''\<rparr>"

lemma asks_for_primary_branch:
  "we_branch (hd (parse_worktree_list (projr (wg_list primary_on_old [])))) = ''old''"
  "snd (run_gc_unmanaged primary_on_old sample_hand ''/y'' ''main'' [] True [])
     = [(DeleteBranch ''feat'', True), (DeleteBranch ''old'', False)]"
  by code_simp+

lemma gc_report_is_complete_witness:
  "effects sample_log = concat (map row_effects sample_rows) \<and> effects sample_log \<noteq> []"
proof
  show "effects sample_log = concat (map row_effects sample_rows)" using gc_report_is_complete[OF sample_sweep] by blast
qed (simp add: sample_log_def)

definition managed_a :: gc_result where
  "managed_a = \<lparr>gr_name = ''a'', gr_branch = ''design/a'', gr_path = ''/r/.verdi/data/worktrees/a'',
     gr_decision = ReclaimIt, gr_holder = None\<rparr>"

lemma sample_managed:
  "managed_gc (sample_view [(''a'', True), (''n'', False)]) sample_hand ''/r'' ''main'' [] =
     (Inr [managed_a],
      [(AcquireLock ''/r/.verdi/data/worktrees/a.lock'', True), (RemoveWorktree ''/r/.verdi/data/worktrees/a'', True),
       (ReleaseLock ''/r/.verdi/data/worktrees/a.lock'', True)])"
  by code_simp

lemma managed_gc_removes_only_spent_witness:
  "spent_managed (sample_view [(''a'', True), (''n'', False)]) [] ''main'' ''design/a'' ''/r/.verdi/data/worktrees/a''
     \<and> gr_path managed_a = ''/r/.verdi/data/worktrees/a''"
proof -
  let ?w = "sample_view [(''a'', True), (''n'', False)]" and ?p = "''/r/.verdi/data/worktrees/a''"
  have "wg_dir ?w [] q = DirEntries [(''a'', True), (''n'', False)]" for q by (simp add: sample_view_def)
  then obtain name before after where n: "(name, True) \<in> set [(''a'', True), (''n'', False)]"
    "spent_managed ?w before ''main'' (branch_for_worktree_name name) ?p"
    "[(AcquireLock ''/r/.verdi/data/worktrees/a.lock'', True)] = before @ [(AcquireLock (lock_path ?p), True)]"
    using managed_gc_removes_only_spent[OF sample_managed,
        of "[(AcquireLock ''/r/.verdi/data/worktrees/a.lock'', True)]" "RemoveWorktree ?p" True
           "[(ReleaseLock ''/r/.verdi/data/worktrees/a.lock'', True)]" undefined ?p undefined]
    by fastforce
  have "before = []" "name = ''a''" using n(1,3) by simp_all
  then show ?thesis using n(2) by (simp add: branch_for_worktree_name_def designPrefix_def managed_a_def)
qed

text \<open>When a later worktree fails, the error replaces the results, the removals among them.\<close>

lemma managed_gc_error_hides_removal:
  "managed_gc (sample_view [(''a'', True), (''b'', True)]) sample_hand ''/r'' ''main'' [] =
     (Inl (GcDirty ''b'' ''not a repository''),
      [(AcquireLock ''/r/.verdi/data/worktrees/a.lock'', True), (RemoveWorktree ''/r/.verdi/data/worktrees/a'', True),
       (ReleaseLock ''/r/.verdi/data/worktrees/a.lock'', True)])"
  by code_simp

end
