(* ===== verification/Spec2Isabelle.thy ===== *)
theory Spec2Isabelle
  imports Fold Reconcile Stale Discovery Records Authorize Layout Patches Reclaim
begin

text \<open>
  Verdi keeps specifications, decisions and evidence as files beside the code and
  answers one question about them: is this specification, at this commit, still
  what was accepted, and has everything it asks for been shown? This development
  models the parts of \<^verbatim>\<open>src/internal\<close> that compute the answer, each definition from the
  Go function of (nearly) its name, and proves what makes the answer trustworthy.

  The parts and how they meet.

  \<^item> Documents (internal/artifact). A file is split into frontmatter and body, its
    frontmatter decoded by a YAML library and validated. \<open>Refs\<close>, \<open>Links\<close>: references,
    links, stamps. \<open>Specs\<close>: specifications and their objects. \<open>Kinds\<close>: every other kind of
    artifact. \<open>Docs\<close>: the split, anchors, path classes. \<open>Findings\<close>: deviation and
    decision-conflict reports.
  \<^item> Evidence (internal/evidence). Records of CI runs are loaded from disk behind Git
    ancestry (\<open>Records\<close>, on the reads of \<open>GitReads\<close>), reduced to the latest per kind and
    producer (\<open>Evidence\<close>), matched with the obligations a criterion declares
    (\<open>Obligations\<close>), and folded to a status per criterion and a verdict per story (\<open>Fold\<close>).
  \<^item> Features (internal/evidence, featurecoverage, index, matrixprojection). \<open>Features\<close>
    draws a feature from its stories; \<open>Discovery\<close> finds those stories through the backlink
    index and their lifecycle state, folds each and projects the feature.
  \<^item> Lifecycle (internal/specstate). \<open>Corpus\<close> reads every spec of a branch, \<open>CorpusCache\<close>
    shares those scans between concurrent callers, \<open>SpecState\<close> decides whether a spec is
    a draft, accepted, closed, superseded or unproven.
  \<^item> Rulings (internal/align, internal/evidence/specstale.go). \<open>Reconcile\<close> carries human
    rulings over a regenerated report; \<open>Stale\<close> is the budget of accepted deviations.
  \<^item> Governance (internal/governanceprincipal). A profile says who may act for whom and what
    a transition needs: \<open>Profiles\<close> is the record, its validation and normalization,
    \<open>ProfileSeal\<close> shows the seal is a function of its contents. \<open>Principals\<close>: principal ids.
    \<open>Resolution\<close> turns a claim and an adapter's fact into a sealed resolution; \<open>Authorize\<close>
    interprets a request of resolutions, approvals and facts under a profile.
  \<^item> Board layout (internal/boardlayout). \<open>Layout\<close> places the cards of a board, resolves a
    drop and the overlaps of a display, over the \<^verbatim>\<open>float64\<close> arithmetic of \<open>Floats\<close>.
  \<^item> Experiments (internal/experiment, internal/experimentdecision). \<open>Experiments\<close> is the
    registration of a comparison, its validation and lock; \<open>Patches\<close> the paths a candidate
    patch names and the inputs it may not touch; \<open>Observations\<close> the records of a run, their
    integrity and completeness; \<open>Decision\<close> the engine that recommends a candidate, each step
    of the Go \<^verbatim>\<open>evaluation\<close> a function on its state; \<open>Verdicts\<close> when it returns, and that the
    order of the records does not matter. Numbers are those of \<open>Doubles\<close>.
  \<^item> Clean-up (internal/residue, reclaim, wtmanager, \<^verbatim>\<open>verdi gc\<close>). \<open>Reclaim\<close> surveys worktrees and
    merged branches, plans what may go and carries the plan out; Git, the file system and the
    locks answer by the log of the commands issued before.
  \<^item> Canonical bytes (internal/canonjson): \<open>CanonJson\<close>, behind digests and seals.

  \<open>Prelude\<close> holds the Go string functions and the loop shapes of every \<^verbatim>\<open>Validate\<close>; \<open>Regex\<close>
  decides the regular expressions of the sources by derivatives. Each theory opens
  with the files it models.

  How code is read. A string is its bytes; a struct is a record, a string enum a
  datatype whose last constructor holds every other string, a pointer an option, an
  \<^verbatim>\<open>error\<close> result a sum with a constructor per early return (prose of messages is left
  out unless it is compared or stored). A Go map that is only looked up is a map or an
  association list; where its iteration order could show, the order is an argument.
  Ints of the sources here are list lengths, line numbers and counters that cannot
  reach \<^verbatim>\<open>2^63\<close>; \<open>atoi\<close> refuses what \<^verbatim>\<open>strconv.Atoi\<close> refuses for range. A \<^verbatim>\<open>float64\<close>
  is the rational it denotes, each operation rounded to the nearest even double; infinities
  and NaN are outside \<open>Floats\<close>, on which the board layout rests, and values of \<open>Doubles\<close>, on
  which experiments rest (a zero has no sign in either). State is passed
  explicitly: the read session with the unread bytes of its process, the corpus cache
  with its flights and channels. The concurrent cache is a step relation \<open>step\<close>, and
  its properties are by rule induction over reachable states.

  Parameters, for what is not in the repository or is the world: the YAML and JSON
  parsers (\<open>decoders\<close>, \<open>record_decoders\<close>), SHA-256 in hex (\<open>h\<close>, injective on the contents
  at hand where a property needs it), the digests of canonical JSON of a definition and of a
  set of observations (\<open>dg\<close>, \<open>od\<close>), the file system and ancestry (\<open>world\<close>), Git as a
  process (\<open>git_port\<close>) and as the lifecycle package's own port (\<open>git\<close>), the forge, the
  reader of trust facts. What
  Git promises is written as \<open>git_laws\<close>: objects come back framed, tree listings agree
  with tree objects, \<^verbatim>\<open>rev-list\<close> with \<^verbatim>\<open>merge-base\<close>. A sample repository shows the laws can
  hold and evaluates the properties.

  Termination. Recursion is structural or by a list length (\<open>split_str\<close>, \<open>ref_slug\<close>,
  \<open>parse_tree_from\<close>, \<open>escape\<close>, \<open>duration_sum\<close>, \<open>unit_runes_ok\<close>); no fuel is used. The searches for a free slot (\<open>slot_from\<close>,
  \<open>drop_fallback\<close>) end because below \<open>reach\<close> rows nothing is occupied. That concurrent gets return is a property
  of the step relation (\<open>gets_return\<close>): runs have a bounded length, and a state in which
  nothing can move has every caller served.

  Interfaces. \<open>id_block\<close> (a validated list of identified entries), \<open>memo_table\<close> (a bounded
  table of shared scans), \<open>latest_reduction\<close> and \<open>latest_ranked\<close> (a reduction to latest
  entries) and \<open>carry_forward\<close> (rulings carried by identity) are locales; each is
  interpreted on the model's definitions in the theory that provides them, and the
  properties use the interpreted facts.

  What the lemmas show. Validators: acceptance as a condition on the data, ids unique.
  Loaders: what is read is used or disclosed. Folds: a status is what its evidence
  says, no failing record is hidden, nothing unproven counts. Caches and sessions:
  they change no answer. Reports: no ruling is lost, repeated or moved to another
  finding. Encodings: parsers and printers are inverse.
  Governance: an authorized decision is exactly one whose profile's requirements are
  met, whatever order the request and the profile are written in.
  Experiments: a winner is named exactly when declarative conditions on the registered
  records hold, a violated premise exactly when a record of the baseline shows it, and the
  engine has a result whenever its numbers are finite.

  Not modelled: commands, HTTP handlers, HTML and the site (they call the core and
  print), clients of forges and agents, sealed execution (processes around external
  agents), file locks and atomic writes, lint rules, board annotations, and the packages
  the manifest lists as not started: policy conflicts, context compilation and
  receipts, recovery and object supersession. Of experiments: the YAML and JSON decoders,
  the second result envelope and its receipts, evaluator requests and responses, the state
  derived from files and Git, ratification, capsules, and the check of a stored result.
\<close>

end
